(* ===== verification/Go_Base.thy ===== *)
theory Go_Base
  imports
    Complex_Main
    "HOL-Library.Word"
    "HOL-Library.AList"
    "HOL-Library.Sublist"
    "HOL-Library.List_Lexorder"
    "HOL-Library.Char_ord"
    "HOL-Library.Multiset"
begin

text \<open>
  The Go types and library routines that every component of the sidecar uses.

  \<^item> Dynamic values (Go's \<open>any\<close>) are the datatype \<open>go_value\<close>; a \<open>map[string]any\<close>
    is an association list read with \<open>map_of\<close> and written with \<open>AList.update\<close> and
    \<open>AList.delete\<close>. Go leaves the iteration order of a map open, so no definition
    below lets a result depend on the order of the list.
  \<^item> Strings are Go's byte strings, that is HOL's \<open>string\<close>; Go's \<open>\<le>\<close> on strings is the
    bytewise lexicographic order of \<open>List_Lexorder\<close> and \<open>Char_ord\<close>.
  \<^item> \<open>sort.Slice\<close> and \<open>sort.Strings\<close> are \<open>sort_key\<close> and \<open>sort\<close>. Go does not fix the
    order of elements with equal keys; no lemma relies on it.
\<close>

section \<open>Collections of facts\<close>

named_theorems go_simps \<open>unfolding rules for the Go library routines\<close>

section \<open>Dynamic values and string-keyed maps\<close>

datatype go_value =
    GNil
  | GBool bool
  | GStr string
  | GU32 "32 word"
  | GInt int
  | GFloat rat
  | GArr "go_value list"
  | GMap "(string \<times> go_value) list"
  | GStruct "(string \<times> go_value) list"   \<comment> \<open>written to JSON like a map, but not a \<open>map[string]any\<close>\<close>

type_synonym fields = "(string \<times> go_value) list"

text \<open>\<open>s, ok := m[key].(string)\<close> and \<open>m[key].(map[string]any)\<close>: type assertions.\<close>

fun as_string :: "go_value option \<Rightarrow> string option" where
  "as_string (Some (GStr s)) = Some s"
| "as_string _ = None"

fun as_map :: "go_value option \<Rightarrow> fields option" where
  "as_map (Some (GMap m)) = Some m"
| "as_map _ = None"

fun as_arr :: "go_value option \<Rightarrow> go_value list option" where
  "as_arr (Some (GArr xs)) = Some xs"
| "as_arr _ = None"

fun as_u32 :: "go_value option \<Rightarrow> 32 word option" where
  "as_u32 (Some (GU32 n)) = Some n"
| "as_u32 _ = None"

definition fset :: "string \<Rightarrow> go_value \<Rightarrow> fields \<Rightarrow> fields" where
  "fset k v fs = AList.update k v fs"

definition fdel :: "string \<Rightarrow> fields \<Rightarrow> fields" where
  "fdel k fs = AList.delete k fs"

lemma map_of_fset [simp]: "map_of (fset k v fs) = (map_of fs)(k \<mapsto> v)"
  by (simp add: fset_def update_conv')

lemma map_of_fdel [simp]: "map_of (fdel k fs) = (map_of fs)(k := None)"
  by (simp add: fdel_def delete_conv')

lemma distinct_fset [simp]:
  "distinct (map fst (fset k v fs)) = distinct (map fst fs)"
  by (induction fs) (auto simp: fset_def dom_update)

lemma distinct_fdel [intro]:
  "distinct (map fst fs) \<Longrightarrow> distinct (map fst (fdel k fs))"
  by (simp add: fdel_def distinct_delete)

lemma as_string_Some_iff: "as_string v = Some s \<longleftrightarrow> v = Some (GStr s)"
  by (cases v rule: as_string.cases) auto

lemma as_map_Some_iff: "as_map v = Some m \<longleftrightarrow> v = Some (GMap m)"
  by (cases v rule: as_map.cases) auto

lemma as_u32_Some_iff: "as_u32 v = Some n \<longleftrightarrow> v = Some (GU32 n)"
  by (cases v rule: as_u32.cases) auto

section \<open>String routines\<close>

definition has_prefix :: "string \<Rightarrow> string \<Rightarrow> bool" where
  [go_simps]: "has_prefix s p = prefix p s"

fun contains :: "string \<Rightarrow> string \<Rightarrow> bool" where
  "contains [] sub = (sub = [])"
| "contains (c # cs) sub = (prefix sub (c # cs) \<or> contains cs sub)"

lemma contains_iff: "contains s sub \<longleftrightarrow> (\<exists>a b. s = a @ sub @ b)"
proof (induction s)
  case Nil
  then show ?case by auto
next
  case (Cons c cs)
  show ?case
  proof
    assume "contains (c # cs) sub"
    then consider "prefix sub (c # cs)" | "contains cs sub" by auto
    then show "\<exists>a b. c # cs = a @ sub @ b"
    proof cases
      case 1
      then show ?thesis by (metis append_Nil prefixE)
    next
      case 2
      with Cons.IH show ?thesis by (metis append_Cons)
    qed
  next
    assume "\<exists>a b. c # cs = a @ sub @ b"
    then obtain a b where ab: "c # cs = a @ sub @ b" by blast
    show "contains (c # cs) sub"
    proof (cases a)
      case Nil
      with ab show ?thesis by (metis append_Nil contains.simps(2) prefixI)
    next
      case (Cons d ds)
      with ab Cons.IH show ?thesis by auto
    qed
  qed
qed

text \<open>White space of \<open>strings.TrimSpace\<close>, restricted to ASCII.\<close>

definition is_space :: "char \<Rightarrow> bool" where
  "is_space c = (of_char c \<in> {9 :: nat, 10, 11, 12, 13, 32})"

definition trim_space :: "string \<Rightarrow> string" where
  "trim_space s = rev (dropWhile is_space (rev (dropWhile is_space s)))"

text \<open>ASCII \<open>strings.ToUpper\<close> and \<open>strings.ToLower\<close>.\<close>

definition upper_char :: "char \<Rightarrow> char" where
  "upper_char c = (let n = of_char c :: nat in if 97 \<le> n \<and> n \<le> 122 then char_of (n - 32) else c)"

definition lower_char :: "char \<Rightarrow> char" where
  "lower_char c = (let n = of_char c :: nat in if 65 \<le> n \<and> n \<le> 90 then char_of (n + 32) else c)"

definition to_upper :: "string \<Rightarrow> string" where
  "to_upper = map upper_char"

definition to_lower :: "string \<Rightarrow> string" where
  "to_lower = map lower_char"

text \<open>\<open>strings.Join\<close>.\<close>

fun str_join :: "string \<Rightarrow> string list \<Rightarrow> string" where
  "str_join sep [] = []"
| "str_join sep [x] = x"
| "str_join sep (x # y # ys) = x @ sep @ str_join sep (y # ys)"

section \<open>Numbers as text\<close>

text \<open>\<open>strconv.Itoa\<close>, \<open>strconv.FormatUint(_, 10)\<close> and the verb \<open>%d\<close>.\<close>

definition digit_char :: "nat \<Rightarrow> char" where
  "digit_char d = (if d < 10 then char_of (48 + d) else char_of (55 + d))"

fun nat_dec :: "nat \<Rightarrow> string" where
  "nat_dec n = (if n < 10 then [digit_char n] else nat_dec (n div 10) @ [digit_char (n mod 10)])"

declare nat_dec.simps [simp del]

definition int_dec :: "int \<Rightarrow> string" where
  "int_dec i = (if i < 0 then CHR ''-'' # nat_dec (nat (- i)) else nat_dec (nat i))"

text \<open>Upper-case hexadecimal of bytes: \<open>strings.ToUpper(hex.EncodeToString(b))\<close>.\<close>

definition byte_hex :: "8 word \<Rightarrow> string" where
  "byte_hex b = [digit_char (unat b div 16), digit_char (unat b mod 16)]"

definition hex_upper :: "8 word list \<Rightarrow> string" where
  "hex_upper bs = concat (map byte_hex bs)"

definition hex_lower :: "8 word list \<Rightarrow> string" where
  "hex_lower bs = to_lower (hex_upper bs)"

text \<open>Reading decimal digits back, the inverse of \<^const>\<open>nat_dec\<close>.\<close>

definition digit_val :: "char \<Rightarrow> nat option" where
  "digit_val c = (let n = of_char c in if 48 \<le> n \<and> n \<le> 57 then Some (n - 48) else None)"

fun dec_acc :: "string \<Rightarrow> nat \<Rightarrow> nat option" where
  "dec_acc [] acc = Some acc"
| "dec_acc (c # cs) acc =
     (case digit_val c of None \<Rightarrow> None | Some d \<Rightarrow> dec_acc cs (10 * acc + d))"

definition parse_nat :: "string \<Rightarrow> nat option" where
  "parse_nat s = (if s = [] then None else dec_acc s 0)"

text \<open>An optional sign: \<open>True\<close> for a minus.\<close>

fun scan_sign :: "string \<Rightarrow> bool \<times> string" where
  "scan_sign (c # cs) =
     (if c = CHR ''-'' then (True, cs) else if c = CHR ''+'' then (False, cs) else (False, c # cs))"
| "scan_sign [] = (False, [])"

text \<open>Big-endian byte strings (\<open>binary.BigEndian.PutUint32\<close> and friends).\<close>

fun be_bytes :: "nat \<Rightarrow> nat \<Rightarrow> 8 word list" where
  "be_bytes 0 n = []"
| "be_bytes (Suc k) n = be_bytes k (n div 256) @ [of_nat (n mod 256)]"

fun be_value :: "8 word list \<Rightarrow> nat \<Rightarrow> nat" where
  "be_value [] acc = acc"
| "be_value (b # bs) acc = be_value bs (256 * acc + unat b)"

lemma digit_val_digit_char: "d < 10 \<Longrightarrow> digit_val (digit_char d) = Some d"
  by (simp add: digit_val_def digit_char_def)

lemma dec_acc_append:
  "dec_acc (xs @ ys) acc = Option.bind (dec_acc xs acc) (dec_acc ys)"
  by (induction xs acc rule: dec_acc.induct) (auto split: option.splits)

lemma dec_acc_nat_dec:
  "\<exists>k. \<forall>acc. dec_acc (nat_dec n) acc = Some (10 ^ k * acc + n)"
proof (induction n rule: nat_dec.induct)
  case (1 n)
  show ?case
  proof (cases "n < 10")
    case True
    then have "\<forall>acc. dec_acc (nat_dec n) acc = Some (10 ^ 1 * acc + n)"
      by (simp add: nat_dec.simps [of n] digit_val_digit_char)
    then show ?thesis by blast
  next
    case False
    with 1 obtain k where k: "\<And>acc. dec_acc (nat_dec (n div 10)) acc = Some (10 ^ k * acc + n div 10)"
      by blast
    have "dec_acc (nat_dec n) acc = Some (10 ^ Suc k * acc + n)" for acc
      using False by (simp add: nat_dec.simps [of n] dec_acc_append k digit_val_digit_char)
    then show ?thesis by blast
  qed
qed

lemma nat_dec_not_Nil [simp]: "nat_dec n \<noteq> []"
  by (subst nat_dec.simps) simp

lemma parse_nat_dec [simp]: "parse_nat (nat_dec n) = Some n"
  using dec_acc_nat_dec [of n] by (auto simp: parse_nat_def)

lemma nat_dec_inj [simp]: "nat_dec m = nat_dec n \<longleftrightarrow> m = n"
  by (metis option.inject parse_nat_dec)

lemma nat_dec_digits: "c \<in> set (nat_dec n) \<Longrightarrow> of_char c \<in> {48 :: nat .. 57}"
proof (induction n rule: nat_dec.induct)
  case (1 n)
  then show ?case
    by (cases "n < 10") (auto simp: nat_dec.simps [of n] digit_char_def)
qed

lemma be_value_append: "be_value (xs @ ys) acc = be_value ys (be_value xs acc)"
  by (induction xs acc rule: be_value.induct) auto

lemma be_value_bytes: "n < 256 ^ k \<Longrightarrow> be_value (be_bytes k n) 0 = n"
proof (induction k arbitrary: n)
  case 0
  then show ?case by simp
next
  case (Suc k)
  then have "n div 256 < 256 ^ k" by (simp add: less_mult_imp_div_less mult.commute)
  with Suc.IH show ?case
    by (simp add: be_value_append unat_of_nat take_bit_eq_mod)
qed

lemma length_be_bytes [simp]: "length (be_bytes k n) = k"
  by (induction k arbitrary: n) auto

lemma length_byte_hex [simp]: "length (byte_hex b) = 2"
  by (simp add: byte_hex_def)

lemma length_hex_upper [simp]: "length (hex_upper bs) = 2 * length bs"
  by (induction bs) (auto simp: hex_upper_def)

lemma digit_char_inj: "a < 16 \<Longrightarrow> b < 16 \<Longrightarrow> digit_char a = digit_char b \<Longrightarrow> a = b"
  by (auto simp: digit_char_def split: if_splits dest: arg_cong [where f = "of_char :: char \<Rightarrow> nat"])

lemma unat_byte_less: "unat (b :: 8 word) < 256"
  by (rule order_less_le_trans [OF unsigned_less]) simp

lemma byte_hex_inj: "byte_hex a = byte_hex b \<Longrightarrow> a = b"
proof -
  assume "byte_hex a = byte_hex b"
  then have "unat a div 16 = unat b div 16" and "unat a mod 16 = unat b mod 16"
    using unat_byte_less [of a] unat_byte_less [of b]
    by (auto simp: byte_hex_def intro!: digit_char_inj)
  then have "unat a = unat b" by (metis div_mult_mod_eq)
  then show "a = b" by (simp add: unsigned_word_eqI)
qed

lemma hex_upper_inj: "hex_upper xs = hex_upper ys \<Longrightarrow> xs = ys"
proof (induction xs arbitrary: ys)
  case Nil
  then have "length (hex_upper ys) = 0" by (simp add: hex_upper_def)
  then show ?case by simp
next
  case (Cons x xs)
  then obtain y ys' where ys: "ys = y # ys'"
    using length_hex_upper [of ys] by (cases ys) (auto simp: hex_upper_def byte_hex_def)
  with Cons.prems have "byte_hex x @ hex_upper xs = byte_hex y @ hex_upper ys'"
    by (simp add: hex_upper_def)
  then have "byte_hex x = byte_hex y" and "hex_upper xs = hex_upper ys'" by simp_all
  with ys Cons.IH byte_hex_inj show ?case by simp
qed

section \<open>Errors as values\<close>

text \<open>
  A Go function with results \<open>(T, error)\<close> is a function into \<open>string + T\<close>: \<open>Inl e\<close> is
  the error's text, \<open>Inr x\<close> the value. \<open>ebind\<close> is the early return on \<open>err != nil\<close>.
\<close>

type_synonym 'a go_result = "string + 'a"

definition ebind :: "'a go_result \<Rightarrow> ('a \<Rightarrow> 'b go_result) \<Rightarrow> 'b go_result" where
  [go_simps]: "ebind m f = (case m of Inl e \<Rightarrow> Inl e | Inr x \<Rightarrow> f x)"

text \<open>\<open>fmt.Errorf("ctx: %w", err)\<close>.\<close>

definition ewrap :: "string \<Rightarrow> 'a go_result \<Rightarrow> 'a go_result" where
  [go_simps]: "ewrap ctx m = (case m of Inl e \<Rightarrow> Inl (ctx @ e) | Inr x \<Rightarrow> Inr x)"

lemma ebind_Inr_iff: "ebind m f = Inr y \<longleftrightarrow> (\<exists>x. m = Inr x \<and> f x = Inr y)"
  by (cases m) (auto simp: ebind_def)

lemma ewrap_Inr_iff: "ewrap ctx m = Inr y \<longleftrightarrow> m = Inr y"
  by (cases m) (auto simp: ewrap_def)

section \<open>Scanning a number\<close>

text \<open>
  \<open>fmt.Sscanf(s, "%d", &n)\<close>: blanks, but no newline, then an optional
  sign and at least one digit; the rest of the text is ignored, a value outside
  \<open>int64\<close> is an error.
\<close>

fun scan_blank :: "string \<Rightarrow> string option" where
  "scan_blank [] = Some []"
| "scan_blank (c # cs) =
     (if of_char c = (10 :: nat) then None
      else if is_space c then scan_blank cs else Some (c # cs))"

definition sscanf_d :: "string \<Rightarrow> int go_result" where
  "sscanf_d s = (case scan_blank s of
      None \<Rightarrow> Inl ''unexpected newline''
    | Some t \<Rightarrow>
        (let (neg, u) = scan_sign t;
             ds = takeWhile (\<lambda>c. digit_val c \<noteq> None) u
         in if u = [] then Inl ''unexpected EOF''
            else case parse_nat ds of
              None \<Rightarrow> Inl ''expected integer''
            | Some n \<Rightarrow>
                (let v = (if neg then - int n else int n)
                 in if - (2 ^ 63) \<le> v \<and> v < 2 ^ 63 then Inr v
                    else Inl (''strconv.ParseInt: parsing: value out of range''))))"

section \<open>Loops over a state of the outside world\<close>

text \<open>\<open>for _, x := range xs { if err := body(x); err != nil { return err } }\<close>.\<close>

fun for_each :: "('a \<Rightarrow> 's \<Rightarrow> unit go_result \<times> 's) \<Rightarrow> 'a list \<Rightarrow> 's \<Rightarrow> unit go_result \<times> 's" where
  "for_each f [] s = (Inr (), s)"
| "for_each f (x # xs) s =
     (case f x s of (Inl e, s') \<Rightarrow> (Inl e, s') | (Inr _, s') \<Rightarrow> for_each f xs s')"

lemma for_each_append:
  "for_each f (xs @ ys) s =
     (case for_each f xs s of (Inl e, s') \<Rightarrow> (Inl e, s') | (Inr _, s') \<Rightarrow> for_each f ys s')"
  by (induction xs arbitrary: s) (auto split: prod.splits sum.splits)

text \<open>An invariant of every body is an invariant of the loop.\<close>

lemma for_each_invariant:
  assumes "\<And>x s. x \<in> set xs \<Longrightarrow> I s \<Longrightarrow> I (snd (f x s))" and "I s"
  shows "I (snd (for_each f xs s))"
  using assms
proof (induction xs arbitrary: s)
  case Nil
  then show ?case by simp
next
  case (Cons x xs)
  obtain r s' where f: "f x s = (r, s')" by fastforce
  have "I s'" using Cons.prems(1) [of x s] Cons.prems(2) f by simp
  then have "I (snd (for_each f xs s'))"
    using Cons.IH [of s'] Cons.prems(1) by simp
  with \<open>I s'\<close> f show ?case by (auto split: sum.splits)
qed

text \<open>Go's \<open>int64\<close> arithmetic: the mathematical result reduced to 64 signed bits.\<close>

definition wrap64 :: "int \<Rightarrow> int" where
  "wrap64 i = (i + 2 ^ 63) mod 2 ^ 64 - 2 ^ 63"

lemma wrap64_id: "- (2 ^ 63) \<le> i \<Longrightarrow> i < 2 ^ 63 \<Longrightarrow> wrap64 i = i"
  by (simp add: wrap64_def)

lemma wrap64_range: "- (2 ^ 63) \<le> wrap64 i \<and> wrap64 i < 2 ^ 63"
  using pos_mod_bound [of "2 ^ 64" "i + 2 ^ 63"] pos_mod_sign [of "2 ^ 64" "i + 2 ^ 63"]
  by (simp add: wrap64_def)

section \<open>Reading back a printed number\<close>

lemma digit_val_iff: "digit_val c \<noteq> None \<longleftrightarrow> of_char c \<in> {48 :: nat .. 57}"
  by (auto simp: digit_val_def Let_def)

lemma digit_not_space: "of_char c \<in> {48 :: nat .. 57} \<Longrightarrow> \<not> is_space c"
  by (auto simp: is_space_def)

lemma trim_space_id:
  assumes "s \<noteq> []" and "\<And>c. c \<in> set s \<Longrightarrow> \<not> is_space c"
  shows "trim_space (s @ [CHR 0x0A]) = s" and "trim_space s = s"
proof -
  have nl: "is_space (CHR 0x0A)" by (simp add: is_space_def)
  have drop: "dropWhile is_space t = t" if "t \<noteq> []" "\<not> is_space (hd t)" for t
    using that by (cases t) auto
  have "dropWhile is_space (s @ [CHR 0x0A]) = s @ [CHR 0x0A]"
    using assms by (intro drop) (cases s, auto)
  moreover have "dropWhile is_space (rev s) = rev s"
  proof (rule drop)
    show "rev s \<noteq> []" using assms(1) by simp
    then have "hd (rev s) \<in> set (rev s)" by (rule hd_in_set)
    then show "\<not> is_space (hd (rev s))" using assms(2) by simp
  qed
  moreover have "dropWhile is_space s = s" using assms by (intro drop) (cases s, auto)
  ultimately show "trim_space (s @ [CHR 0x0A]) = s" "trim_space s = s"
    using nl by (simp_all add: trim_space_def)
qed

lemma sscanf_nat_dec: "int n < 2 ^ 63 \<Longrightarrow> sscanf_d (nat_dec n) = Inr (int n)"
proof -
  assume n: "int n < 2 ^ 63"
  obtain c cs where cc: "nat_dec n = c # cs" by (cases "nat_dec n") auto
  have digits: "\<And>x. x \<in> set (nat_dec n) \<Longrightarrow> of_char x \<in> {48 :: nat .. 57}" by (rule nat_dec_digits)
  then have c: "of_char c \<in> {48 :: nat .. 57}" using cc by simp
  then have "of_char c \<noteq> (10 :: nat)" "\<not> is_space c" "c \<noteq> CHR ''-''" "c \<noteq> CHR ''+''"
    by (auto simp: is_space_def)
  then have "scan_blank (nat_dec n) = Some (nat_dec n)" "scan_sign (nat_dec n) = (False, nat_dec n)"
    by (simp_all add: cc)
  moreover have "takeWhile (\<lambda>c. digit_val c \<noteq> None) (nat_dec n) = nat_dec n"
    using digits by (auto simp: takeWhile_eq_all_conv digit_val_iff simp del: not_None_eq)
  ultimately show ?thesis using n unfolding sscanf_d_def by (simp only: option.case prod.case Let_def
      nat_dec_not_Nil parse_nat_dec if_False) simp
qed

lemma sscanf_line: "0 \<le> i \<Longrightarrow> i < 2 ^ 63 \<Longrightarrow> sscanf_d (trim_space (int_dec i @ [CHR 0x0A])) = Inr i"
proof -
  assume i: "0 \<le> i" "i < 2 ^ 63"
  then have "int_dec i = nat_dec (nat i)" by (simp add: int_dec_def)
  moreover have "trim_space (nat_dec (nat i) @ [CHR 0x0A]) = nat_dec (nat i)"
    by (rule trim_space_id(1)) (auto dest: nat_dec_digits digit_not_space)
  ultimately show ?thesis using i sscanf_nat_dec [of "nat i"] by simp
qed

section \<open>Quoted text\<close>

text \<open>The verb \<open>%q\<close> on strings of ASCII text (\<open>strconv.Quote\<close>); other bytes are kept as they are.\<close>

definition quote_char :: "char \<Rightarrow> string" where
  "quote_char c = (let n = (of_char c :: nat) in
     if n = 34 then [CHR 0x5C, CHR 0x22] else if n = 92 then [CHR 0x5C, CHR 0x5C]
     else if n = 7 then CHR 0x5C # ''a'' else if n = 8 then CHR 0x5C # ''b'' else if n = 12 then CHR 0x5C # ''f''
     else if n = 10 then CHR 0x5C # ''n'' else if n = 13 then CHR 0x5C # ''r'' else if n = 9 then CHR 0x5C # ''t''
     else if n = 11 then CHR 0x5C # ''v''
     else if n < 32 \<or> n = 127 then CHR 0x5C # CHR ''x'' # hex_lower [of_nat n] else [c])"

definition go_quote :: "string \<Rightarrow> string" where
  "go_quote s = CHR 0x22 # concat (map quote_char s) @ [CHR 0x22]"

text \<open>The verb \<open>%v\<close> on a slice of strings.\<close>

definition go_list :: "string list \<Rightarrow> string" where
  "go_list xs = ''['' @ str_join '' '' xs @ '']''"

end
