(* ===== verification/Go_Rand.thy ===== *)
theory Go_Rand
  imports Go_Base
begin

text \<open>
  Go's \<open>math/rand/v2\<close> and the computations that draw from it.

  A \<open>*mathrand.Rand\<close> is modelled by its tape: the list of the 64-bit words its source
  (a PCG stream fixed by the run seed) is going to return. The methods of \<open>Rand\<close> are
  the library's own algorithms over that tape, so the rejection loop of \<open>IntN\<close> consumes
  as many words as the real one. A tape is finite, and a computation that runs off its
  end has the outcome \<open>Starved\<close>: it needs more of the stream. \<open>lawful\<close> says that a
  computation looks at a finite prefix of the tape only, so an outcome other than
  \<open>Starved\<close> is the outcome on every longer stream too; \<open>can_yield\<close> says that some
  prefix makes the computation return a given value; \<open>rspec\<close> is the partial-correctness
  triple: every value returned satisfies the postcondition, every Go error satisfies the
  error condition, and there is no panic.
\<close>

section \<open>Outcomes\<close>

datatype 'a outcome =
    Done 'a              \<comment> \<open>returned normally\<close>
  | Failed string        \<comment> \<open>returned a Go \<open>error\<close>\<close>
  | Panicked string      \<comment> \<open>panicked\<close>
  | Starved              \<comment> \<open>the tape ended before the computation did\<close>

type_synonym tape = "64 word list"
type_synonym 'a rnd = "tape \<Rightarrow> 'a outcome \<times> tape"

definition rret :: "'a \<Rightarrow> 'a rnd" where
  "rret x = (\<lambda>r. (Done x, r))"

definition rfail :: "string \<Rightarrow> 'a rnd" where
  "rfail e = (\<lambda>r. (Failed e, r))"

definition rpanic :: "string \<Rightarrow> 'a rnd" where
  "rpanic e = (\<lambda>r. (Panicked e, r))"

definition rbind :: "'a rnd \<Rightarrow> ('a \<Rightarrow> 'b rnd) \<Rightarrow> 'b rnd" where
  "rbind m f = (\<lambda>r. case m r of
      (Done x, r') \<Rightarrow> f x r'
    | (Failed e, r') \<Rightarrow> (Failed e, r')
    | (Panicked e, r') \<Rightarrow> (Panicked e, r')
    | (Starved, r') \<Rightarrow> (Starved, r'))"

section \<open>The methods of \<open>Rand\<close>\<close>

fun Uint64 :: "64 word rnd" where
  "Uint64 [] = (Starved, [])"
| "Uint64 (d # ds) = (Done d, ds)"

text \<open>
  The rejection loop of \<open>uint64n\<close>: \<open>hi, lo := bits.Mul64(r.Uint64(), n)\<close>, redrawn while
  \<open>lo < -n % n\<close> (on \<open>uint64\<close>, \<open>-n % n\<close> is \<open>2^64 mod n\<close>).
\<close>

fun uint64n_loop :: "nat \<Rightarrow> nat rnd" where
  "uint64n_loop n [] = (Starved, [])"
| "uint64n_loop n (d # ds) =
     (let p = unat d * n
      in if p mod 2 ^ 64 < 2 ^ 64 mod n then uint64n_loop n ds
         else (Done (p div 2 ^ 64), ds))"

definition IntN :: "nat \<Rightarrow> nat rnd" where
  "IntN n =
     (if n = 0 then rpanic ''invalid argument to IntN''
      else if and n (n - 1) = 0 then rbind Uint64 (\<lambda>d. rret (and (unat d) (n - 1)))
      else uint64n_loop n)"

text \<open>\<open>Float64\<close>: \<open>float64(r.Uint64()<<11>>11) / (1 << 53)\<close>, an exact dyadic rational.\<close>

definition Float64 :: "rat rnd" where
  "Float64 = rbind Uint64 (\<lambda>d. rret (of_nat (unat d mod 2 ^ 53) / 2 ^ 53))"

section \<open>Lawful computations\<close>

definition lawful :: "'a rnd \<Rightarrow> bool" where
  "lawful m \<longleftrightarrow> (\<forall>r. fst (m r) \<noteq> Starved \<longrightarrow>
     (\<exists>used. r = used @ snd (m r) \<and> (\<forall>t. m (used @ t) = (fst (m r), t))))"

definition can_yield :: "'a rnd \<Rightarrow> 'a \<Rightarrow> bool" where
  "can_yield m x \<longleftrightarrow> (\<exists>used. \<forall>t. m (used @ t) = (Done x, t))"

definition rspec :: "'a rnd \<Rightarrow> ('a \<Rightarrow> bool) \<Rightarrow> (string \<Rightarrow> bool) \<Rightarrow> bool" where
  "rspec m P E \<longleftrightarrow> (\<forall>r. case fst (m r) of
      Done x \<Rightarrow> P x | Failed e \<Rightarrow> E e | Panicked _ \<Rightarrow> False | Starved \<Rightarrow> True)"

named_theorems lawful_intro \<open>lawfulness of random computations\<close>
named_theorems yield_intro \<open>values a random computation can return\<close>
named_theorems rspec_intro \<open>triples for random computations\<close>

lemma lawful_rret [lawful_intro]: "lawful (rret x)"
  by (simp add: lawful_def rret_def)

lemma lawful_rfail [lawful_intro]: "lawful (rfail e)"
  by (simp add: lawful_def rfail_def)

lemma lawful_rpanic [lawful_intro]: "lawful (rpanic e)"
  by (simp add: lawful_def rpanic_def)

lemma lawful_rbind [lawful_intro]:
  assumes m: "lawful m" and f: "\<And>x. lawful (f x)"
  shows "lawful (rbind m f)"
  unfolding lawful_def
proof (intro allI impI)
  fix r
  assume ns: "fst (rbind m f r) \<noteq> Starved"
  obtain o1 r1 where mr: "m r = (o1, r1)" by (cases "m r")
  from ns mr have "o1 \<noteq> Starved" by (auto simp: rbind_def)
  with m mr obtain u1 where u1: "r = u1 @ r1" "\<And>t. m (u1 @ t) = (o1, t)"
    unfolding lawful_def by (metis fst_conv snd_conv)
  show "\<exists>used. r = used @ snd (rbind m f r) \<and>
          (\<forall>t. rbind m f (used @ t) = (fst (rbind m f r), t))"
  proof (cases o1)
    case (Done x)
    obtain o2 r2 where fr: "f x r1 = (o2, r2)" by (cases "f x r1")
    from ns mr Done fr have "o2 \<noteq> Starved" by (simp add: rbind_def)
    with f [of x] fr obtain u2 where u2: "r1 = u2 @ r2" "\<And>t. f x (u2 @ t) = (o2, t)"
      unfolding lawful_def by (metis fst_conv snd_conv)
    show ?thesis
      by (rule exI [of _ "u1 @ u2"]) (use u1 u2 mr fr Done in \<open>simp add: rbind_def\<close>)
  next
    case (Failed e)
    then show ?thesis using u1 mr by (intro exI [of _ u1]) (simp add: rbind_def)
  next
    case (Panicked e)
    then show ?thesis using u1 mr by (intro exI [of _ u1]) (simp add: rbind_def)
  next
    case Starved
    with \<open>o1 \<noteq> Starved\<close> show ?thesis by simp
  qed
qed

lemma lawful_if [lawful_intro]:
  "lawful m \<Longrightarrow> lawful m' \<Longrightarrow> lawful (if b then m else m')"
  by simp

lemma lawful_case_option [lawful_intro]:
  "lawful m \<Longrightarrow> (\<And>x. lawful (f x)) \<Longrightarrow> lawful (case v of None \<Rightarrow> m | Some x \<Rightarrow> f x)"
  by (cases v) auto

lemma lawful_case_prod [lawful_intro]:
  "(\<And>x y. lawful (f x y)) \<Longrightarrow> lawful (case p of (x, y) \<Rightarrow> f x y)"
  by (cases p) auto

lemma lawful_Uint64 [lawful_intro]: "lawful Uint64"
  unfolding lawful_def
proof (intro allI impI)
  fix r
  assume "fst (Uint64 r) \<noteq> Starved"
  then obtain d ds where "r = d # ds" by (cases r) auto
  then show "\<exists>used. r = used @ snd (Uint64 r) \<and> (\<forall>t. Uint64 (used @ t) = (fst (Uint64 r), t))"
    by (intro exI [of _ "[d]"]) simp
qed

lemma lawful_uint64n_loop [lawful_intro]: "lawful (uint64n_loop n)"
  unfolding lawful_def
proof (intro allI impI)
  fix r
  show "fst (uint64n_loop n r) \<noteq> Starved \<Longrightarrow>
    \<exists>used. r = used @ snd (uint64n_loop n r) \<and>
      (\<forall>t. uint64n_loop n (used @ t) = (fst (uint64n_loop n r), t))"
  proof (induction n r rule: uint64n_loop.induct)
    case (1 n)
    then show ?case by simp
  next
    case (2 n d ds)
    show ?case
    proof (cases "unat d * n mod 2 ^ 64 < 2 ^ 64 mod n")
      case True
      with 2 obtain u where u: "ds = u @ snd (uint64n_loop n ds)"
        "\<forall>t. uint64n_loop n (u @ t) = (fst (uint64n_loop n ds), t)"
        by (auto simp: Let_def)
      show ?thesis
        by (rule exI [of _ "d # u"]) (use u True in \<open>simp add: Let_def\<close>)
    next
      case False
      then show ?thesis by (intro exI [of _ "[d]"]) (simp add: Let_def)
    qed
  qed
qed

lemma lawful_IntN [lawful_intro]: "lawful (IntN n)"
  unfolding IntN_def by (intro lawful_intro)

lemma lawful_Float64 [lawful_intro]: "lawful Float64"
  unfolding Float64_def by (intro lawful_intro)

text \<open>More of the stream never changes an outcome.\<close>

lemma lawful_extend:
  assumes "lawful m" "m r = (x, r')" "x \<noteq> Starved"
  shows "m (r @ t) = (x, r' @ t)"
proof -
  from assms obtain u where u: "r = u @ r'" "\<And>t. m (u @ t) = (x, t)"
    unfolding lawful_def by (metis fst_conv snd_conv)
  then show ?thesis by simp
qed

section \<open>Bounds and reachability of the draws\<close>

lemma uint64n_loop_less: "rspec (uint64n_loop n) (\<lambda>i. i < n) (\<lambda>_. False)"
  unfolding rspec_def
proof (intro allI)
  fix r
  show "case fst (uint64n_loop n r) of Done i \<Rightarrow> i < n | Failed e \<Rightarrow> False
      | Panicked _ \<Rightarrow> False | Starved \<Rightarrow> True"
  proof (induction n r rule: uint64n_loop.induct)
    case (1 n)
    then show ?case by simp
  next
    case (2 n d ds)
    have "unat d < 2 ^ 64" by (rule order_less_le_trans [OF unsigned_less]) simp
    then have "0 < n \<Longrightarrow> unat d * n div 2 ^ 64 < n"
      by (simp add: less_mult_imp_div_less mult.commute)
    then show ?case using 2 by (cases "n = 0") (auto simp: Let_def)
  qed
qed

lemma and_nat_le: "and (a :: nat) b \<le> b"
proof -
  have "and (int a) (int b) \<le> int b" by simp
  then show ?thesis by (simp add: and_nat_def nat_le_iff)
qed

lemma rspec_IntN [rspec_intro]: "0 < n \<Longrightarrow> rspec (IntN n) (\<lambda>i. i < n) E"
proof -
  assume n: "0 < n"
  have "and (unat d) (n - 1) < n" for d :: "64 word"
    using n and_nat_le [of "unat d" "n - 1"] by linarith
  then have "rspec (rbind Uint64 (\<lambda>d. rret (and (unat d) (n - 1)))) (\<lambda>i. i < n) E"
    by (auto simp: rspec_def rbind_def rret_def split: outcome.split prod.split elim!: Uint64.elims)
  moreover have "rspec (uint64n_loop n) (\<lambda>i. i < n) E"
    using uint64n_loop_less [of n] by (auto simp: rspec_def split: outcome.splits)
  ultimately show ?thesis using n by (simp add: IntN_def)
qed

lemma power2_of_and: "0 < n \<Longrightarrow> and n (n - 1) = (0 :: nat) \<Longrightarrow> \<exists>k. n = 2 ^ k"
proof (induction n rule: less_induct)
  case (less n)
  show ?case
  proof (cases "even n")
    case True
    then obtain m where m: "n = 2 * m" by (elim evenE)
    with less.prems have "0 < m" by simp
    have half: "(n - 1) div 2 = m - 1" using m \<open>0 < m\<close> by simp
    have "and n (n - 1) = of_bool (odd n \<and> odd (n - 1)) + 2 * and (n div 2) ((n - 1) div 2)"
      by (rule and_rec)
    with less.prems m half True have "and m (m - 1) = 0" by simp
    with less.IH [of m] \<open>0 < m\<close> m obtain k where "m = 2 ^ k" by auto
    with m have "n = 2 ^ Suc k" by simp
    then show ?thesis by blast
  next
    case False
    then obtain m where m: "n = 2 * m + 1" by (elim oddE)
    have "and n (n - 1) = of_bool (odd n \<and> odd (n - 1)) + 2 * and (n div 2) ((n - 1) div 2)"
      by (rule and_rec)
    with less.prems m have "m = 0" by simp
    with m have "n = 2 ^ 0" by simp
    then show ?thesis by blast
  qed
qed

lemma can_yield_IntN [yield_intro]:
  assumes i: "i < n" and n: "n \<le> 2 ^ 63"
  shows "can_yield (IntN n) i"
proof (cases "and n (n - 1) = 0")
  case True
  with i obtain k where k: "n = 2 ^ k" using power2_of_and [of n] by auto
  have "i < 2 ^ 64" using i n by simp
  then have "unat (of_nat i :: 64 word) = i" by (simp add: unat_of_nat take_bit_nat_eq_self)
  moreover have "and i (n - 1) = take_bit k i"
    by (simp add: k take_bit_eq_mask mask_eq_exp_minus_1)
  then have "and i (n - 1) = i" using i k by (simp add: take_bit_nat_eq_self)
  ultimately have "IntN n (of_nat i # t) = (Done i, t)" for t
    using True i by (simp add: IntN_def rbind_def rret_def)
  then show ?thesis unfolding can_yield_def by (intro exI [of _ "[of_nat i]"]) simp
next
  case False
  define b :: nat where "b = i * 2 ^ 64 + 2 ^ 64 mod n"
  define d where "d = (b + n - 1) div n"
  have n0: "0 < n" using i by simp
  have "d * n \<le> b + n - 1" unfolding d_def by simp
  moreover have "b + n - 1 < d * n + n"
    unfolding d_def using n0 by (metis dividend_less_div_times add.commute)
  ultimately have lo: "b \<le> d * n" and hi: "d * n < b + n" using n0 by linarith+
  have t: "2 ^ 64 mod n < n" using n0 by simp
  have n2: "n + n \<le> 2 ^ 64" using n by simp
  have rest: "2 ^ 64 mod n \<le> d * n - i * 2 ^ 64" "d * n - i * 2 ^ 64 < 2 ^ 64"
    using lo hi t n2 unfolding b_def by linarith+
  have dn: "d * n = i * 2 ^ 64 + (d * n - i * 2 ^ 64)" using lo by (simp add: b_def)
  have q: "d * n div 2 ^ 64 = i" "d * n mod 2 ^ 64 = d * n - i * 2 ^ 64"
    using rest(2) by (subst dn, simp)+
  have "i * 2 ^ 64 + 2 ^ 64 \<le> n * 2 ^ 64" using i mult_le_mono1 [of "Suc i" n "2 ^ 64"] by simp
  with dn rest(2) have "d * n < n * 2 ^ 64" by linarith
  then have d64: "d < 2 ^ 64" using n0 by simp
  then have "unat (of_nat d :: 64 word) = d" by (simp add: unat_of_nat take_bit_nat_eq_self)
  with q rest(1) False n0 have "IntN n (of_nat d # t) = (Done i, t)" for t
    by (simp add: IntN_def Let_def)
  then show ?thesis unfolding can_yield_def by (intro exI [of _ "[of_nat d]"]) simp
qed

section \<open>Rules for triples and for reachable values\<close>

lemma rspec_rret [rspec_intro]: "P x \<Longrightarrow> rspec (rret x) P E"
  by (simp add: rspec_def rret_def)

lemma rspec_rfail [rspec_intro]: "E e \<Longrightarrow> rspec (rfail e) P E"
  by (simp add: rspec_def rfail_def)

lemma rspec_rbind [rspec_intro]:
  assumes m: "rspec m P E" and f: "\<And>x. P x \<Longrightarrow> rspec (f x) Q E"
  shows "rspec (rbind m f) Q E"
  unfolding rspec_def
proof
  fix r
  obtain x r' where mr: "m r = (x, r')" by (cases "m r")
  have "case x of Done y \<Rightarrow> P y | Failed e \<Rightarrow> E e | Panicked _ \<Rightarrow> False | Starved \<Rightarrow> True"
    using m mr by (metis fst_conv rspec_def)
  then show "case fst (rbind m f r) of Done x \<Rightarrow> Q x | Failed e \<Rightarrow> E e
      | Panicked _ \<Rightarrow> False | Starved \<Rightarrow> True"
    using f mr by (cases x) (auto simp: rbind_def rspec_def)
qed

lemma rspec_weaken:
  "rspec m P E \<Longrightarrow> (\<And>x. P x \<Longrightarrow> Q x) \<Longrightarrow> (\<And>e. E e \<Longrightarrow> F e) \<Longrightarrow> rspec m Q F"
  unfolding rspec_def by (auto split: outcome.splits)

lemma rspec_if [rspec_intro]:
  "(b \<Longrightarrow> rspec m P E) \<Longrightarrow> (\<not> b \<Longrightarrow> rspec m' P E) \<Longrightarrow> rspec (if b then m else m') P E"
  by simp

lemma rspec_Uint64 [rspec_intro]: "rspec Uint64 (\<lambda>_. True) E"
  unfolding rspec_def
proof
  fix r
  show "case fst (Uint64 r) of Done x \<Rightarrow> True | Failed e \<Rightarrow> E e | Panicked _ \<Rightarrow> False | Starved \<Rightarrow> True"
    by (cases r) auto
qed

lemma rspec_Done: "rspec m P E \<Longrightarrow> m r = (Done x, r') \<Longrightarrow> P x"
  by (force simp: rspec_def split: outcome.splits dest: spec [of _ r])

lemma rspec_no_panic: "rspec m P E \<Longrightarrow> fst (m r) \<noteq> Panicked e"
  by (auto simp: rspec_def split: outcome.splits dest: spec [of _ r])

lemma can_yield_rret [yield_intro]: "can_yield (rret x) x"
  by (auto simp: can_yield_def rret_def)

lemma can_yield_rbind:
  assumes "can_yield m x" and "can_yield (f x) y"
  shows "can_yield (rbind m f) y"
proof -
  from assms(1) obtain u1 where u1: "\<And>t. m (u1 @ t) = (Done x, t)"
    unfolding can_yield_def by blast
  from assms(2) obtain u2 where u2: "\<And>t. f x (u2 @ t) = (Done y, t)"
    unfolding can_yield_def by blast
  have "rbind m f ((u1 @ u2) @ t) = (Done y, t)" for t
    by (simp add: rbind_def u1 u2)
  then show ?thesis unfolding can_yield_def by blast
qed

lemma can_yield_Uint64 [yield_intro]: "can_yield Uint64 d"
  unfolding can_yield_def by (rule exI [of _ "[d]"]) simp

text \<open>A value that satisfies a triple and can be returned satisfies the postcondition.\<close>

lemma can_yield_rspec: "can_yield m x \<Longrightarrow> rspec m P E \<Longrightarrow> P x"
  unfolding can_yield_def by (metis rspec_Done)

text \<open>Computations that draw shorten their tape; loops over draws end because of it.\<close>

lemma IntN_shorter: "IntN n r = (Done i, r') \<Longrightarrow> length r' < length r"
proof -
  have loop: "uint64n_loop k q = (Done j, q') \<Longrightarrow> length q' < length q" for k q j q'
    by (induction k q rule: uint64n_loop.induct) (auto simp: Let_def split: if_splits)
  assume "IntN n r = (Done i, r')"
  then show ?thesis
    by (auto simp: IntN_def rbind_def rret_def rpanic_def dest: loop split: if_splits prod.splits
        outcome.splits elim: Uint64.elims)
qed

end
