(* ===== verification/Rpc.thy ===== *)
theory Rpc
  imports Go_Base
begin

text \<open>
  The JSON-RPC client (\<open>sidecar/internal/rpcclient/client.go\<close>): what each method sends
  and how it reads the reply.

  The transport (\<open>Client.Call\<close>: JSON encoding, HTTP, the node itself) is not code of
  the repository's logic and is the parameter \<open>call\<close> of every definition: it maps the
  RPC method, the params object and the state of the outside world \<open>'s\<close> to a transport
  error or the \<open>result\<close> of the response, and the next state of the world. The decoded
  document is a \<^typ>\<open>go_value\<close>; \<open>verbatim\<close> gives the text of a sub-document, which is
  what a field of type \<open>json.RawMessage\<close> receives. Decoding follows \<open>encoding/json\<close>:
  a missing or null key leaves the zero value, a value of another type is an error. Keys
  are matched exactly (Go also accepts a key that differs in case).
\<close>

section \<open>Replies and their decoding\<close>

record reply =
  doc :: "go_value option"                      \<comment> \<open>\<open>None\<close>: no \<open>result\<close> in the response\<close>
  verbatim :: "string list \<Rightarrow> string option"    \<comment> \<open>text of the sub-document at a path\<close>

type_synonym 's caller = "string \<Rightarrow> fields \<Rightarrow> 's \<Rightarrow> reply go_result \<times> 's"

definition json_type_error :: string where
  "json_type_error = ''json: cannot unmarshal value''"

fun dec_top :: "go_value option \<Rightarrow> fields go_result" where
  "dec_top None = Inl ''unexpected end of JSON input''"
| "dec_top (Some GNil) = Inr []"
| "dec_top (Some (GMap m)) = Inr m"
| "dec_top (Some _) = Inl json_type_error"

fun dec_obj :: "go_value option \<Rightarrow> fields go_result" where
  "dec_obj None = Inr []"
| "dec_obj (Some GNil) = Inr []"
| "dec_obj (Some (GMap m)) = Inr m"
| "dec_obj (Some _) = Inl json_type_error"

fun dec_str :: "go_value option \<Rightarrow> string go_result" where
  "dec_str None = Inr ''''"
| "dec_str (Some GNil) = Inr ''''"
| "dec_str (Some (GStr s)) = Inr s"
| "dec_str (Some _) = Inl json_type_error"

fun dec_bool :: "go_value option \<Rightarrow> bool go_result" where
  "dec_bool None = Inr False"
| "dec_bool (Some GNil) = Inr False"
| "dec_bool (Some (GBool b)) = Inr b"
| "dec_bool (Some _) = Inl json_type_error"

fun dec_int :: "go_value option \<Rightarrow> int go_result" where
  "dec_int None = Inr 0"
| "dec_int (Some GNil) = Inr 0"
| "dec_int (Some (GInt i)) = (if - (2 ^ 63) \<le> i \<and> i < 2 ^ 63 then Inr i else Inl json_type_error)"
| "dec_int (Some _) = Inl json_type_error"

fun dec_u32 :: "go_value option \<Rightarrow> 32 word go_result" where
  "dec_u32 None = Inr 0"
| "dec_u32 (Some GNil) = Inr 0"
| "dec_u32 (Some (GInt i)) = (if 0 \<le> i \<and> i < 2 ^ 32 then Inr (word_of_int i) else Inl json_type_error)"
| "dec_u32 (Some _) = Inl json_type_error"

fun dec_float :: "go_value option \<Rightarrow> rat go_result" where
  "dec_float None = Inr 0"
| "dec_float (Some GNil) = Inr 0"
| "dec_float (Some (GInt i)) = Inr (of_int i)"
| "dec_float (Some (GFloat q)) = Inr q"
| "dec_float (Some _) = Inl json_type_error"

fun dec_arr :: "go_value option \<Rightarrow> go_value list go_result" where
  "dec_arr None = Inr []"
| "dec_arr (Some GNil) = Inr []"
| "dec_arr (Some (GArr xs)) = Inr xs"
| "dec_arr (Some _) = Inl json_type_error"

definition raw_text :: "reply \<Rightarrow> string list \<Rightarrow> string" where
  "raw_text rep path = (case verbatim rep path of None \<Rightarrow> '''' | Some t \<Rightarrow> t)"

fun emap :: "('a \<Rightarrow> 'b go_result) \<Rightarrow> 'a list \<Rightarrow> 'b list go_result" where
  "emap f [] = Inr []"
| "emap f (x # xs) = ebind (f x) (\<lambda>y. ebind (emap f xs) (\<lambda>ys. Inr (y # ys)))"

text \<open>\<open>raw, err := c.Call(...); if err != nil return; parse\<close>.\<close>

definition with_reply ::
    "'s caller \<Rightarrow> string \<Rightarrow> fields \<Rightarrow> (reply \<Rightarrow> 'a go_result) \<Rightarrow> 's \<Rightarrow> 'a go_result \<times> 's" where
  "with_reply call meth params parse s =
     (case call meth params s of (r, s') \<Rightarrow> (ebind r parse, s'))"

section \<open>\<open>server_info\<close>\<close>

record ledger_ref =
  lr_seq :: int
  lr_hash :: string

record last_close =
  lc_proposers :: int
  lc_converge :: rat

record server_info =
  si_state :: string
  si_build :: string
  si_uptime :: int
  si_peers :: int
  si_complete :: string
  si_validated :: ledger_ref
  si_closed :: ledger_ref
  si_current :: int
  si_network :: int
  si_pubkey :: string
  si_last_close :: last_close

definition dec_ledger_ref :: "go_value option \<Rightarrow> ledger_ref go_result" where
  "dec_ledger_ref v = ebind (dec_obj v) (\<lambda>m.
     ebind (dec_int (map_of m ''seq'')) (\<lambda>q.
     ebind (dec_str (map_of m ''hash'')) (\<lambda>h. Inr \<lparr>lr_seq = q, lr_hash = h\<rparr>)))"

definition dec_last_close :: "go_value option \<Rightarrow> last_close go_result" where
  "dec_last_close v = ebind (dec_obj v) (\<lambda>m.
     ebind (dec_int (map_of m ''proposers'')) (\<lambda>p.
     ebind (dec_float (map_of m ''converge_time_s'')) (\<lambda>c.
       Inr \<lparr>lc_proposers = p, lc_converge = c\<rparr>)))"

definition parse_server_info :: "reply \<Rightarrow> server_info go_result" where
  "parse_server_info rep = ewrap ''parse server_info: ''
    (ebind (dec_top (doc rep)) (\<lambda>top. ebind (dec_obj (map_of top ''info'')) (\<lambda>m.
     ebind (dec_str (map_of m ''server_state'')) (\<lambda>st.
     ebind (dec_str (map_of m ''build_version'')) (\<lambda>bv.
     ebind (dec_int (map_of m ''uptime'')) (\<lambda>up.
     ebind (dec_int (map_of m ''peers'')) (\<lambda>pe.
     ebind (dec_str (map_of m ''complete_ledgers'')) (\<lambda>cl.
     ebind (dec_int (map_of m ''network_id'')) (\<lambda>nid.
     ebind (dec_str (map_of m ''pubkey_node'')) (\<lambda>pk.
     ebind (dec_int (map_of m ''ledger_current_index'')) (\<lambda>cur.
     ebind (dec_ledger_ref (map_of m ''validated_ledger'')) (\<lambda>vl.
     ebind (dec_ledger_ref (map_of m ''closed_ledger'')) (\<lambda>clo.
     ebind (dec_last_close (map_of m ''last_close'')) (\<lambda>lc.
     Inr \<lparr>si_state = st, si_build = bv, si_uptime = up, si_peers = pe, si_complete = cl,
          si_validated = vl, si_closed = clo, si_current = cur, si_network = nid,
          si_pubkey = pk, si_last_close = lc\<rparr>))))))))))))))"

definition ServerInfo :: "'s caller \<Rightarrow> 's \<Rightarrow> server_info go_result \<times> 's" where
  "ServerInfo call s = with_reply call ''server_info'' [] parse_server_info s"

section \<open>\<open>ledger\<close>\<close>

record ledger_result =
  lg_seq :: int
  lg_ledger_hash :: string
  lg_account_hash :: string
  lg_tx_hash :: string

definition parse_ledger :: "int \<Rightarrow> reply \<Rightarrow> ledger_result go_result" where
  "parse_ledger seq rep =
    ebind (ewrap ''parse ledger: ''
      (ebind (dec_top (doc rep)) (\<lambda>top. ebind (dec_obj (map_of top ''ledger'')) (\<lambda>m.
       ebind (dec_str (map_of m ''ledger_hash'')) (\<lambda>lh.
       ebind (dec_str (map_of m ''account_hash'')) (\<lambda>ah.
       ebind (dec_str (map_of m ''transaction_hash'')) (\<lambda>th.
       ebind (dec_str (map_of top ''status'')) (\<lambda>st. Inr (lh, ah, th, st)))))))))
    (\<lambda>(lh, ah, th, st).
      if st = ''error'' then Inl (''ledger '' @ int_dec seq @ '' not found'')
      else Inr \<lparr>lg_seq = seq, lg_ledger_hash = lh, lg_account_hash = ah, lg_tx_hash = th\<rparr>)"

definition Ledger :: "'s caller \<Rightarrow> int \<Rightarrow> 's \<Rightarrow> ledger_result go_result \<times> 's" where
  "Ledger call seq s =
     with_reply call ''ledger'' [(''ledger_index'', GInt seq)] (parse_ledger seq) s"

record ledger_tx =
  lt_hash :: string
  lt_type :: string
  lt_account :: string
  lt_meta :: string    \<comment> \<open>verbatim text\<close>

record ledger_with_txs =
  lw_seq :: int
  lw_ledger_hash :: string
  lw_account_hash :: string
  lw_tx_hash :: string
  lw_close_time :: int
  lw_txs :: "ledger_tx list"

definition dec_rich_tx :: "reply \<Rightarrow> nat \<times> go_value \<Rightarrow> ledger_tx go_result" where
  "dec_rich_tx rep iv = (case iv of (i, v) \<Rightarrow>
     ebind (dec_obj (Some v)) (\<lambda>m.
     ebind (dec_str (map_of m ''hash'')) (\<lambda>h.
     ebind (dec_str (map_of m ''TransactionType'')) (\<lambda>t.
     ebind (dec_str (map_of m ''Account'')) (\<lambda>a.
       let path = [''ledger'', ''transactions'', nat_dec i];
           metadata = raw_text rep (path @ [''metaData'']);
           meta = (if metadata = [] then raw_text rep (path @ [''meta'']) else metadata)
       in Inr \<lparr>lt_hash = h, lt_type = t, lt_account = a, lt_meta = meta\<rparr>)))))"

text \<open>
  Both shapes of the transaction list: full objects, else bare hashes, else nothing. An
  absent list is no JSON text at all, so both attempts fail.
\<close>

definition dec_ledger_txs :: "reply \<Rightarrow> go_value option \<Rightarrow> ledger_tx list" where
  "dec_ledger_txs rep v =
     (let arr = (if v = None then Inl ''unexpected end of JSON input'' else dec_arr v)
      in case ebind arr (\<lambda>xs. emap (dec_rich_tx rep) (enumerate 0 xs)) of
           Inr txs \<Rightarrow> txs
         | Inl _ \<Rightarrow>
             (case ebind arr (emap (\<lambda>x. dec_str (Some x))) of
                Inr hs \<Rightarrow> map (\<lambda>h. \<lparr>lt_hash = h, lt_type = [], lt_account = [], lt_meta = []\<rparr>) hs
              | Inl _ \<Rightarrow> []))"

definition parse_ledger_with_txs :: "int \<Rightarrow> reply \<Rightarrow> ledger_with_txs go_result" where
  "parse_ledger_with_txs seq rep =
    ebind (ewrap ''parse ledger: ''
      (ebind (dec_top (doc rep)) (\<lambda>top. ebind (dec_obj (map_of top ''ledger'')) (\<lambda>m.
       ebind (dec_str (map_of m ''ledger_hash'')) (\<lambda>lh.
       ebind (dec_str (map_of m ''account_hash'')) (\<lambda>ah.
       ebind (dec_str (map_of m ''transaction_hash'')) (\<lambda>th.
       ebind (dec_int (map_of m ''close_time'')) (\<lambda>ct.
       ebind (dec_str (map_of top ''status'')) (\<lambda>st.
       ebind (dec_str (map_of top ''error'')) (\<lambda>er.
         Inr (lh, ah, th, ct, map_of m ''transactions'', st, er)))))))))))
    (\<lambda>(lh, ah, th, ct, txs, st, er).
      if st = ''error'' \<or> er \<noteq> []
      then Inl (''ledger '' @ int_dec seq @ '': '' @ (if er = [] then ''error'' else er))
      else Inr \<lparr>lw_seq = seq, lw_ledger_hash = lh, lw_account_hash = ah, lw_tx_hash = th,
                lw_close_time = ct, lw_txs = dec_ledger_txs rep txs\<rparr>)"

definition LedgerWithTxs :: "'s caller \<Rightarrow> int \<Rightarrow> 's \<Rightarrow> ledger_with_txs go_result \<times> 's" where
  "LedgerWithTxs call seq s =
     with_reply call ''ledger''
       [(''ledger_index'', GInt seq), (''transactions'', GBool True), (''expand'', GBool True)]
       (parse_ledger_with_txs seq) s"

section \<open>\<open>submit\<close>\<close>

record submit_result =
  engine_result :: string
  engine_code :: int
  engine_msg :: string
  tx_hash :: string
  tx_seq :: "32 word"
  sr_status :: string

definition feeMultMax :: int where
  "feeMultMax = 10000"

definition parseSubmitResult :: "reply \<Rightarrow> submit_result go_result" where
  "parseSubmitResult rep =
    ebind (ewrap ''parse submit result: ''
      (ebind (dec_top (doc rep)) (\<lambda>m.
       ebind (dec_str (map_of m ''engine_result'')) (\<lambda>er.
       ebind (dec_int (map_of m ''engine_result_code'')) (\<lambda>ec.
       ebind (dec_str (map_of m ''engine_result_message'')) (\<lambda>em.
       ebind (dec_obj (map_of m ''tx_json'')) (\<lambda>tj.
       ebind (dec_str (map_of tj ''hash'')) (\<lambda>h.
       ebind (dec_u32 (map_of tj ''Sequence'')) (\<lambda>q.
       ebind (dec_str (map_of m ''status'')) (\<lambda>st.
       ebind (dec_str (map_of m ''error'')) (\<lambda>err.
       ebind (dec_int (map_of m ''error_code'')) (\<lambda>code.
       ebind (dec_str (map_of m ''error_message'')) (\<lambda>msg.
         Inr (\<lparr>engine_result = er, engine_code = ec, engine_msg = em, tx_hash = h,
               tx_seq = q, sr_status = st\<rparr>, err, code, msg))))))))))))))
    (\<lambda>(res, err, code, msg).
      if sr_status res = ''error'' \<and> engine_result res = []
      then Inl (''rpc error '' @ err @ '' ('' @ int_dec code @ ''): '' @ msg)
      else Inr res)"

text \<open>Every sign-and-submit method sends the same envelope around its \<open>tx_json\<close>.\<close>

abbreviation submit_envelope :: "string \<Rightarrow> fields \<Rightarrow> fields" where
  "submit_envelope secret txJSON \<equiv>
     [(''secret'', GStr secret), (''fee_mult_max'', GInt feeMultMax), (''tx_json'', GMap txJSON)]"

definition SubmitTxJSON ::
    "'s caller \<Rightarrow> string \<Rightarrow> fields \<Rightarrow> 's \<Rightarrow> submit_result go_result \<times> 's" where
  "SubmitTxJSON call secret txJSON s =
     with_reply call ''submit'' (submit_envelope secret txJSON) parseSubmitResult s"

definition SubmitPayment ::
    "'s caller \<Rightarrow> string \<Rightarrow> string \<Rightarrow> string \<Rightarrow> string \<Rightarrow> 's \<Rightarrow> submit_result go_result \<times> 's" where
  "SubmitPayment call secret account destination amount s =
     with_reply call ''submit''
       (submit_envelope secret [(''TransactionType'', GStr ''Payment''), (''Account'', GStr account),
          (''Destination'', GStr destination), (''Amount'', GStr amount)])
       parseSubmitResult s"

definition SubmitTrustSet ::
    "'s caller \<Rightarrow> string \<Rightarrow> string \<Rightarrow> string \<Rightarrow> string \<Rightarrow> string \<Rightarrow> 's
      \<Rightarrow> submit_result go_result \<times> 's" where
  "SubmitTrustSet call secret account currency issuer limit s =
     with_reply call ''submit''
       (submit_envelope secret [(''TransactionType'', GStr ''TrustSet''), (''Account'', GStr account),
          (''LimitAmount'', GMap [(''currency'', GStr currency), (''issuer'', GStr issuer),
             (''value'', GStr limit)])])
       parseSubmitResult s"

definition SubmitPaymentIOU ::
    "'s caller \<Rightarrow> string \<Rightarrow> string \<Rightarrow> string \<Rightarrow> fields \<Rightarrow> 's \<Rightarrow> submit_result go_result \<times> 's" where
  "SubmitPaymentIOU call secret account destination amount s =
     with_reply call ''submit''
       (submit_envelope secret [(''TransactionType'', GStr ''Payment''), (''Account'', GStr account),
          (''Destination'', GStr destination), (''Amount'', GMap amount)])
       parseSubmitResult s"

definition SubmitOfferCreate ::
    "'s caller \<Rightarrow> string \<Rightarrow> string \<Rightarrow> go_value \<Rightarrow> go_value \<Rightarrow> 's \<Rightarrow> submit_result go_result \<times> 's" where
  "SubmitOfferCreate call secret account takerPays takerGets s =
     with_reply call ''submit''
       (submit_envelope secret [(''TransactionType'', GStr ''OfferCreate''), (''Account'', GStr account),
          (''TakerPays'', takerPays), (''TakerGets'', takerGets)])
       parseSubmitResult s"

definition SubmitAccountSet ::
    "'s caller \<Rightarrow> string \<Rightarrow> string \<Rightarrow> 32 word \<Rightarrow> 's \<Rightarrow> submit_result go_result \<times> 's" where
  "SubmitAccountSet call secret account setFlag s =
     with_reply call ''submit''
       (submit_envelope secret [(''TransactionType'', GStr ''AccountSet''), (''Account'', GStr account),
          (''SetFlag'', GU32 setFlag)])
       parseSubmitResult s"

record wallet_propose =
  wp_account :: string
  wp_seed :: string
  wp_pubkey :: string

definition WalletPropose :: "'s caller \<Rightarrow> 's \<Rightarrow> wallet_propose go_result \<times> 's" where
  "WalletPropose call s = with_reply call ''wallet_propose'' []
     (\<lambda>rep. ewrap ''parse wallet_propose: ''
       (ebind (dec_top (doc rep)) (\<lambda>m.
        ebind (dec_str (map_of m ''account_id'')) (\<lambda>a.
        ebind (dec_str (map_of m ''master_seed'')) (\<lambda>sd.
        ebind (dec_str (map_of m ''public_key'')) (\<lambda>pk.
        ebind (dec_str (map_of m ''status'')) (\<lambda>_.
          Inr \<lparr>wp_account = a, wp_seed = sd, wp_pubkey = pk\<rparr>)))))))
     s"

definition SubmitTxBlob :: "'s caller \<Rightarrow> string \<Rightarrow> 's \<Rightarrow> submit_result go_result \<times> 's" where
  "SubmitTxBlob call blob s = with_reply call ''submit'' [(''tx_blob'', GStr blob)] parseSubmitResult s"

section \<open>\<open>account_info\<close>, \<open>ledger_current\<close>, \<open>account_nfts\<close>, \<open>tx\<close>\<close>

record account_info =
  ai_account :: string
  ai_balance :: string
  ai_sequence :: int

definition parse_account_info :: "string \<Rightarrow> reply \<Rightarrow> account_info go_result" where
  "parse_account_info account rep =
    ebind (ewrap ''parse account_info: ''
      (ebind (dec_top (doc rep)) (\<lambda>top. ebind (dec_obj (map_of top ''account_data'')) (\<lambda>m.
       ebind (dec_str (map_of m ''Account'')) (\<lambda>a.
       ebind (dec_str (map_of m ''Balance'')) (\<lambda>b.
       ebind (dec_int (map_of m ''Sequence'')) (\<lambda>q.
       ebind (dec_str (map_of top ''status'')) (\<lambda>st.
       ebind (dec_str (map_of top ''error'')) (\<lambda>er.
       ebind (dec_int (map_of top ''error_code'')) (\<lambda>_.
       ebind (dec_str (map_of top ''error_message'')) (\<lambda>msg.
         Inr (\<lparr>ai_account = a, ai_balance = b, ai_sequence = q\<rparr>, st, er, msg))))))))))))
    (\<lambda>(info, st, er, msg).
      if st = ''error'' \<or> er \<noteq> [] then
        let code = (if er = [] then ''error'' else er);
            m = (if msg = [] then code else msg)
        in Inl (''account_info '' @ account @ '': '' @ code @ '' ('' @ m @ '')'')
      else if ai_account info = [] then
        Inl (''account_info '' @ account @ '': empty account_data in response'')
      else Inr info)"

definition AccountInfoAt ::
    "'s caller \<Rightarrow> string \<Rightarrow> string \<Rightarrow> 's \<Rightarrow> account_info go_result \<times> 's" where
  "AccountInfoAt call account ledgerIndex s =
     with_reply call ''account_info''
       ((''account'', GStr account) #
        (if ledgerIndex \<noteq> [] then [(''ledger_index'', GStr ledgerIndex)] else []))
       (parse_account_info account) s"

definition AccountInfo :: "'s caller \<Rightarrow> string \<Rightarrow> 's \<Rightarrow> account_info go_result \<times> 's" where
  "AccountInfo call account s = AccountInfoAt call account [] s"

definition LedgerCurrentIndex :: "'s caller \<Rightarrow> 's \<Rightarrow> 32 word go_result \<times> 's" where
  "LedgerCurrentIndex call s =
     with_reply call ''ledger_current'' []
       (\<lambda>rep. ewrap ''parse ledger_current: ''
          (ebind (dec_top (doc rep)) (\<lambda>m. dec_u32 (map_of m ''ledger_current_index'')))) s"

definition dec_nft_id :: "go_value \<Rightarrow> string go_result" where
  "dec_nft_id v = ebind (dec_obj (Some v)) (\<lambda>m. dec_str (map_of m ''NFTokenID''))"

definition parse_account_nfts :: "string \<Rightarrow> reply \<Rightarrow> string list go_result" where
  "parse_account_nfts account rep =
    ebind (ewrap ''parse account_nfts: ''
      (ebind (dec_top (doc rep)) (\<lambda>top.
       ebind (dec_arr (map_of top ''account_nfts'')) (\<lambda>xs.
       ebind (emap dec_nft_id xs) (\<lambda>ids.
       ebind (dec_str (map_of top ''status'')) (\<lambda>st.
       ebind (dec_str (map_of top ''error'')) (\<lambda>er. Inr (ids, st, er))))))))
    (\<lambda>(ids, st, er).
      if st = ''error'' \<or> er \<noteq> []
      then Inl (''account_nfts '' @ account @ '': '' @ (if er = [] then ''error'' else er))
      else Inr (filter (\<lambda>i. i \<noteq> []) ids))"

definition AccountNFTs :: "'s caller \<Rightarrow> string \<Rightarrow> 's \<Rightarrow> string list go_result \<times> 's" where
  "AccountNFTs call account s =
     with_reply call ''account_nfts'' [(''account'', GStr account)] (parse_account_nfts account) s"

record tx_result =
  tr_result :: string
  tr_validated :: bool
  tr_affected :: string    \<comment> \<open>verbatim text of \<open>meta.AffectedNodes\<close>\<close>

definition parse_tx :: "reply \<Rightarrow> tx_result go_result" where
  "parse_tx rep = ewrap ''parse tx: ''
    (ebind (dec_top (doc rep)) (\<lambda>top. ebind (dec_obj (map_of top ''meta'')) (\<lambda>m.
     ebind (dec_str (map_of m ''TransactionResult'')) (\<lambda>t.
     ebind (dec_bool (map_of top ''validated'')) (\<lambda>v.
       Inr \<lparr>tr_result = t, tr_validated = v,
            tr_affected = raw_text rep [''meta'', ''AffectedNodes'']\<rparr>)))))"

definition Tx :: "'s caller \<Rightarrow> string \<Rightarrow> 's \<Rightarrow> tx_result go_result \<times> 's" where
  "Tx call hash s = with_reply call ''tx'' [(''transaction'', GStr hash)] parse_tx s"

section \<open>Local signing (\<open>rpcclient/sign.go\<close>)\<close>

text \<open>
  The wallet library of xrpl-go is a parameter: \<open>from_seed\<close> gives the classic address of
  a seed and \<open>sign\<close> the signed blob of a transaction under a seed. The method writes the
  fields it fills in into the caller's map, so the map is part of the result.
\<close>

fun go_type_name :: "go_value \<Rightarrow> string" where
  "go_type_name GNil = ''<nil>''"
| "go_type_name (GBool _) = ''bool''"
| "go_type_name (GStr _) = ''string''"
| "go_type_name (GU32 _) = ''uint32''"
| "go_type_name (GInt _) = ''int''"
| "go_type_name (GFloat _) = ''float64''"
| "go_type_name (GArr _) = ''[]interface {}''"
| "go_type_name (GMap _) = ''map[string]interface {}''"
| "go_type_name (GStruct _) = ''struct''"

definition fill_sequence :: "'s caller \<Rightarrow> fields \<Rightarrow> 's \<Rightarrow> fields go_result \<times> 's" where
  "fill_sequence call tx s =
     (if map_of tx ''Sequence'' \<noteq> None then (Inr tx, s)
      else case map_of tx ''Account'' of
        Some (GStr account) \<Rightarrow>
          (case AccountInfo call account s of
             (Inl e, s') \<Rightarrow> (Inl (''account_info: '' @ e), s')
           | (Inr info, s') \<Rightarrow> (Inr (fset ''Sequence'' (GInt (ai_sequence info)) tx), s'))
      | v \<Rightarrow> (Inl (''Account field is not a string: '' @
                (case v of None \<Rightarrow> ''<nil>'' | Some w \<Rightarrow> go_type_name w)), s))"

definition fill_last_ledger :: "'s caller \<Rightarrow> fields \<Rightarrow> 's \<Rightarrow> fields go_result \<times> 's" where
  "fill_last_ledger call tx s =
     (if map_of tx ''LastLedgerSequence'' \<noteq> None then (Inr tx, s)
      else case call ''ledger_current'' [] s of
        (Inl e, s') \<Rightarrow> (Inl (''ledger_current: '' @ e), s')
      | (Inr rep, s') \<Rightarrow>
          (case ewrap ''parse ledger_current: ''
                  (ebind (dec_top (doc rep)) (\<lambda>m. dec_int (map_of m ''ledger_current_index''))) of
             Inl e \<Rightarrow> (Inl e, s')
           | Inr idx \<Rightarrow> (Inr (fset ''LastLedgerSequence'' (GInt (wrap64 (idx + 20))) tx), s')))"

definition SignLocal ::
    "(string \<Rightarrow> string go_result) \<Rightarrow> (string \<Rightarrow> fields \<Rightarrow> string go_result) \<Rightarrow> 's caller
      \<Rightarrow> string \<Rightarrow> fields \<Rightarrow> 's \<Rightarrow> string go_result \<times> fields \<times> 's" where
  "SignLocal from_seed sign call secret tx s =
     (case from_seed secret of
        Inl e \<Rightarrow> (Inl (''wallet from seed: '' @ e), tx, s)
      | Inr address \<Rightarrow>
          (let tx1 = (if map_of tx ''Account'' = None then fset ''Account'' (GStr address) tx else tx)
           in case fill_sequence call tx1 s of
                (Inl e, s1) \<Rightarrow> (Inl e, tx1, s1)
              | (Inr tx2, s1) \<Rightarrow>
                  (let tx3 = (if map_of tx2 ''Fee'' = None then fset ''Fee'' (GStr ''10'') tx2 else tx2)
                   in case fill_last_ledger call tx3 s1 of
                        (Inl e, s2) \<Rightarrow> (Inl e, tx3, s2)
                      | (Inr tx4, s2) \<Rightarrow> (ewrap ''sign: '' (sign secret tx4), tx4, s2))))"

section \<open>What the client guarantees\<close>

text \<open>
  A submission is reported as a result only when the node gave an engine result, or did
  not flag an error: a pre-processing error of the node never comes back as an empty result.
\<close>

lemma parseSubmitResult_engine:
  "parseSubmitResult rep = Inr res \<Longrightarrow> sr_status res = ''error'' \<Longrightarrow> engine_result res \<noteq> []"
  by (auto simp: parseSubmitResult_def ebind_Inr_iff ewrap_Inr_iff split: if_splits)

lemma parse_account_info_account:
  "parse_account_info a rep = Inr info \<Longrightarrow> ai_account info \<noteq> []"
  by (auto simp: parse_account_info_def ebind_Inr_iff ewrap_Inr_iff Let_def split: if_splits)

lemma parse_account_nfts_nonempty:
  "parse_account_nfts a rep = Inr ids \<Longrightarrow> [] \<notin> set ids"
  by (auto simp: parse_account_nfts_def ebind_Inr_iff ewrap_Inr_iff split: if_splits)

section \<open>The log of calls\<close>

text \<open>
  \<open>logged call\<close> is the transport \<open>call\<close> with every call appended to a log. \<open>ensures m Q\<close>
  says that \<open>m\<close> only appends to the log, and that when \<open>m\<close> returns a value \<open>v\<close> the part
  it appended satisfies \<open>Q v\<close>.
\<close>

type_synonym call_log = "(string \<times> fields \<times> reply go_result) list"

definition logged :: "'s caller \<Rightarrow> ('s \<times> call_log) caller" where
  "logged call meth params sl =
     (case call meth params (fst sl) of (r, s') \<Rightarrow> (r, (s', snd sl @ [(meth, params, r)])))"

definition ensures ::
    "('s \<times> call_log \<Rightarrow> 'a go_result \<times> ('s \<times> call_log)) \<Rightarrow> ('a \<Rightarrow> call_log \<Rightarrow> bool) \<Rightarrow> bool" where
  "ensures m Q \<longleftrightarrow> (\<forall>s. \<exists>l. snd (snd (m s)) = snd s @ l \<and> (\<forall>v. fst (m s) = Inr v \<longrightarrow> Q v l))"

named_theorems log_intro \<open>what the operations append to the log of calls\<close>

lemma ensures_weaken: "ensures m Q \<Longrightarrow> (\<And>v l. Q v l \<Longrightarrow> R v l) \<Longrightarrow> ensures m R"
  unfolding ensures_def by meson

lemma ensuresE:
  assumes "ensures m Q" and "m s = (x, s')"
  obtains l where "snd s' = snd s @ l" and "\<And>v. x = Inr v \<Longrightarrow> Q v l"
  using assms unfolding ensures_def by (metis fst_conv snd_conv)

lemma ensures_skip [log_intro]: "Q v [] \<Longrightarrow> ensures (\<lambda>s. (Inr v, s)) Q"
  by (simp add: ensures_def)

lemma ensures_fail [log_intro]: "ensures (\<lambda>s. (Inl e, s)) Q"
  by (simp add: ensures_def)

lemma ensures_with_reply [log_intro]:
  "ensures (with_reply (logged call) meth params parse)
     (\<lambda>v l. \<exists>rep. l = [(meth, params, Inr rep)] \<and> parse rep = Inr v)"
  unfolding ensures_def
proof
  fix s :: "_ \<times> call_log"
  obtain r s' where c: "call meth params (fst s) = (r, s')" by fastforce
  show "\<exists>l. snd (snd (with_reply (logged call) meth params parse s)) = snd s @ l \<and>
      (\<forall>v. fst (with_reply (logged call) meth params parse s) = Inr v \<longrightarrow>
        (\<exists>rep. l = [(meth, params, Inr rep)] \<and> parse rep = Inr v))"
    by (cases r) (auto simp: with_reply_def logged_def c ebind_def)
qed

lemma ensures_bind:
  assumes m: "ensures m Q" and f: "\<And>v. ensures (f v) (R v)"
    and e: "\<And>e. ensures (h e) (\<lambda>_ _. True)" and h: "\<And>e s v. fst (h e s) \<noteq> Inr v"
  shows "ensures (\<lambda>s. case m s of (Inl e, s') \<Rightarrow> h e s' | (Inr v, s') \<Rightarrow> f v s')
           (\<lambda>w l. \<exists>v l1 l2. l = l1 @ l2 \<and> Q v l1 \<and> R v w l2)"
  unfolding ensures_def
proof
  fix s :: "_ \<times> call_log"
  obtain x s1 where mx: "m s = (x, s1)" by (cases "m s")
  obtain l1 where l1: "snd s1 = snd s @ l1" "\<And>v. x = Inr v \<Longrightarrow> Q v l1"
    using ensuresE [OF m mx] by blast
  show "\<exists>l. snd (snd (case m s of (Inl e, s') \<Rightarrow> h e s' | (Inr v, s') \<Rightarrow> f v s')) = snd s @ l \<and>
      (\<forall>w. fst (case m s of (Inl e, s') \<Rightarrow> h e s' | (Inr v, s') \<Rightarrow> f v s') = Inr w \<longrightarrow>
        (\<exists>v l1 l2. l = l1 @ l2 \<and> Q v l1 \<and> R v w l2))"
  proof (cases x)
    case (Inl er)
    obtain y s2 where hx: "h er s1 = (y, s2)" by (cases "h er s1")
    obtain l2 where "snd s2 = snd s1 @ l2" using ensuresE [OF e hx] by blast
    with l1 mx Inl hx h [of er s1] show ?thesis by auto
  next
    case (Inr v)
    obtain y s2 where fx: "f v s1 = (y, s2)" by (cases "f v s1")
    obtain l2 where "snd s2 = snd s1 @ l2" "\<And>w. y = Inr w \<Longrightarrow> R v w l2"
      using ensuresE [OF f fx] by blast
    with l1 mx Inr fx show ?thesis by fastforce
  qed
qed

text \<open>A loop whose every body ensures an upward closed property of the log ensures all of them.\<close>

lemma ensures_for_each:
  assumes f: "\<And>x. x \<in> set xs \<Longrightarrow> ensures (f x) (\<lambda>_. Q x)"
    and up: "\<And>x l l1 l2. Q x l \<Longrightarrow> Q x (l1 @ l @ l2)"
  shows "ensures (for_each f xs) (\<lambda>_ l. \<forall>x\<in>set xs. Q x l)"
  using f
proof (induction xs)
  case Nil
  then show ?case by (simp add: ensures_def)
next
  case (Cons x xs)
  have step: "ensures (for_each f xs) (\<lambda>_ l. \<forall>x\<in>set xs. Q x l)" using Cons by simp
  have "ensures (\<lambda>s. case f x s of (Inl e, s') \<Rightarrow> (Inl e, s') | (Inr _, s') \<Rightarrow> for_each f xs s')
    (\<lambda>w l. \<exists>(v :: unit) l1 l2. l = l1 @ l2 \<and> Q x l1 \<and> (\<forall>x\<in>set xs. Q x l2))"
    by (rule ensures_bind [where Q = "\<lambda>_. Q x" and f = "\<lambda>_. for_each f xs"
          and R = "\<lambda>_ _ l. \<forall>x\<in>set xs. Q x l" and h = "\<lambda>e s'. (Inl e, s')"])
       (use Cons.prems [of x] step in \<open>auto intro: log_intro\<close>)
  moreover have "for_each f (x # xs) =
      (\<lambda>s. case f x s of (Inl e, s') \<Rightarrow> (Inl e, s') | (Inr _, s') \<Rightarrow> for_each f xs s')"
    by (rule ext) simp
  ultimately show ?case
    by (auto elim!: ensures_weaken) (metis append_Nil up, metis append_Nil2 up)
qed

text \<open>The part of the contract that needs no result: nothing is ever removed from the log.\<close>

definition extends :: "('s \<times> call_log \<Rightarrow> 'a go_result \<times> ('s \<times> call_log)) \<Rightarrow> bool" where
  "extends m \<longleftrightarrow> (\<forall>s. prefix (snd s) (snd (snd (m s))))"

lemma ensures_extends: "ensures m Q \<Longrightarrow> extends m"
  unfolding ensures_def extends_def prefix_def by meson

lemma extends_ensures: "extends m \<Longrightarrow> ensures m (\<lambda>_ _. True)"
  unfolding ensures_def extends_def prefix_def by meson

lemma extendsD: "extends m \<Longrightarrow> m s = (x, s') \<Longrightarrow> prefix (snd s) (snd s')"
  unfolding extends_def by (metis snd_conv)

lemma extends_for_each [log_intro]:
  "(\<And>x. x \<in> set xs \<Longrightarrow> extends (f x)) \<Longrightarrow> extends (for_each f xs)"
  by (rule ensures_extends [OF ensures_for_each [where Q = "\<lambda>_ _. True"]])
     (auto intro: extends_ensures)

lemma extends_AccountInfo [log_intro]: "extends (AccountInfo (logged call) a)"
  unfolding AccountInfo_def AccountInfoAt_def
  by (rule ensures_extends [OF ensures_with_reply])

lemma extends_ServerInfo [log_intro]: "extends (ServerInfo (logged call))"
proof -
  have "ServerInfo (logged call) = with_reply (logged call) ''server_info'' [] parse_server_info"
    by (rule ext) (simp add: ServerInfo_def)
  then show ?thesis by (simp add: ensures_extends [OF ensures_with_reply])
qed

text \<open>A log in which the node answered the submission of \<open>tx\<close> with an engine result in \<open>A\<close>.\<close>

definition answered :: "(string \<Rightarrow> bool) \<Rightarrow> string \<Rightarrow> fields \<Rightarrow> call_log \<Rightarrow> bool" where
  "answered A secret tx l \<longleftrightarrow>
     (\<exists>rep res. (''submit'', submit_envelope secret tx, Inr rep) \<in> set l
        \<and> parseSubmitResult rep = Inr res \<and> A (engine_result res))"

lemma answered_up: "answered A secret tx l \<Longrightarrow> answered A secret tx (l1 @ l @ l2)"
  unfolding answered_def by auto

lemma ensures_SubmitTxJSON [log_intro]:
  "ensures (SubmitTxJSON (logged call) secret tx)
     (\<lambda>res l. \<exists>rep. l = [(''submit'', submit_envelope secret tx, Inr rep)] \<and> parseSubmitResult rep = Inr res)"
proof -
  have "SubmitTxJSON (logged call) secret tx
      = with_reply (logged call) ''submit'' (submit_envelope secret tx) parseSubmitResult"
    by (rule ext) (simp add: SubmitTxJSON_def)
  then show ?thesis by (simp only: ensures_with_reply)
qed

lemma extends_SubmitTxJSON [log_intro]: "extends (SubmitTxJSON (logged call) secret tx)"
  by (rule ensures_extends [OF ensures_SubmitTxJSON])

text \<open>The special-purpose submit methods are \<^const>\<open>SubmitTxJSON\<close> on a transaction of their own.\<close>

definition trust_set_tx :: "string \<Rightarrow> string \<Rightarrow> string \<Rightarrow> string \<Rightarrow> fields" where
  "trust_set_tx account currency issuer limit =
     [(''TransactionType'', GStr ''TrustSet''), (''Account'', GStr account),
      (''LimitAmount'', GMap [(''currency'', GStr currency), (''issuer'', GStr issuer),
         (''value'', GStr limit)])]"

definition payment_tx :: "string \<Rightarrow> string \<Rightarrow> go_value \<Rightarrow> fields" where
  "payment_tx account destination amount =
     [(''TransactionType'', GStr ''Payment''), (''Account'', GStr account),
      (''Destination'', GStr destination), (''Amount'', amount)]"

lemma submit_methods:
  "SubmitTrustSet call secret account currency issuer limit =
     SubmitTxJSON call secret (trust_set_tx account currency issuer limit)"
  "SubmitPayment call secret account destination drops =
     SubmitTxJSON call secret (payment_tx account destination (GStr drops))"
  "SubmitPaymentIOU call secret account destination amount =
     SubmitTxJSON call secret (payment_tx account destination (GMap amount))"
  by (rule ext, simp add: SubmitTrustSet_def SubmitPayment_def SubmitPaymentIOU_def SubmitTxJSON_def
      trust_set_tx_def payment_tx_def)+

end
