(* ===== verification/Accounts.thy ===== *)
theory Accounts
  imports Go_Rand Rpc "HOL-Library.Signed_Division"
begin

text \<open>
  The account pool (\<open>sidecar/internal/fuzz/accounts\<close>): wallets and their tiers
  (\<open>keys.go\<close>, \<open>tiers.go\<close>), random picks (\<open>pool.go\<close>), funding (\<open>funding.go\<close>) and the
  trust-line mesh (\<open>setup.go\<close>). Key derivation is the parameter \<open>derive\<close> of \<open>NewPool\<close>
  (SHA-256 and the xrpl-go wallet library). Sleeping between attempts has no effect on the
  model; the polls that fit before a deadline are counted by an explicit argument.
\<close>

section \<open>Wallets, tiers and the pool\<close>

datatype tier = Rich | AtReserve | Multisig | RegularKey | Blackholed

definition tier_String :: "tier \<Rightarrow> string" where
  "tier_String t = (case t of
      Rich \<Rightarrow> ''Rich'' | AtReserve \<Rightarrow> ''AtReserve'' | Multisig \<Rightarrow> ''Multisig''
    | RegularKey \<Rightarrow> ''RegularKey'' | Blackholed \<Rightarrow> ''Blackholed'')"

record wallet =
  w_index :: nat
  w_address :: string
  w_seed :: string
  w_pubkey :: string
  w_tier :: tier

type_synonym pool = "wallet list"

text \<open>\<open>NewPool\<close>: wallets \<open>0 .. size-1\<close>, or the first derivation error.\<close>

fun derive_all :: "(64 word \<Rightarrow> nat \<Rightarrow> wallet go_result) \<Rightarrow> 64 word \<Rightarrow> nat list \<Rightarrow> wallet list go_result" where
  "derive_all derive seed [] = Inr []"
| "derive_all derive seed (i # is) =
     (case derive seed i of
        Inl e \<Rightarrow> Inl (''derive wallet '' @ nat_dec i @ '': '' @ e)
      | Inr w \<Rightarrow> ebind (derive_all derive seed is) (\<lambda>ws. Inr (w # ws)))"

definition NewPool :: "(64 word \<Rightarrow> nat \<Rightarrow> wallet go_result) \<Rightarrow> 64 word \<Rightarrow> int \<Rightarrow> pool go_result" where
  "NewPool derive seed sz =
     (if sz < 1 then Inl (''pool size must be >= 1, got '' @ int_dec sz)
      else derive_all derive seed [0 ..< nat sz])"

definition Pick :: "pool \<Rightarrow> wallet rnd" where
  "Pick p = rbind (IntN (length p)) (\<lambda>i. rret (p ! i))"

lemma Pick_shorter: "Pick p r = (Done w, r') \<Longrightarrow> length r' < length r"
  by (auto simp: Pick_def rbind_def rret_def split: outcome.splits prod.splits dest: IntN_shorter)

text \<open>
  The loop \<open>for { b := p.Pick(r); if b.ClassicAddress != a { return b } }\<close>, shared by
  \<open>PickTwoDistinct\<close>, \<open>pickOtherThan\<close> and \<open>SetRegularKey\<close>. Every round shortens the tape.
\<close>

function pick_until :: "pool \<Rightarrow> string \<Rightarrow> wallet rnd" where
  "pick_until p a r = (case Pick p r of
      (Done b, r') \<Rightarrow> if w_address b \<noteq> a then (Done b, r') else pick_until p a r'
    | (Failed e, r') \<Rightarrow> (Failed e, r')
    | (Panicked e, r') \<Rightarrow> (Panicked e, r')
    | (Starved, r') \<Rightarrow> (Starved, r'))"
  by pat_completeness auto
termination
  by (relation "measure (\<lambda>(p, a, r). length r)") (auto dest!: Pick_shorter [OF sym])

declare pick_until.simps [simp del]

definition PickTwoDistinct :: "pool \<Rightarrow> (wallet \<times> wallet) rnd" where
  "PickTwoDistinct p =
     (if length p < 2 then rpanic ''PickTwoDistinct requires pool of size >= 2''
      else rbind (Pick p) (\<lambda>a. rbind (pick_until p (w_address a)) (\<lambda>b. rret (a, b))))"

definition PickTier :: "pool \<Rightarrow> tier \<Rightarrow> wallet option rnd" where
  "PickTier p t =
     (let matching = filter (\<lambda>w. w_tier w = t) p
      in if matching = [] then rret None
         else rbind (IntN (length matching)) (\<lambda>i. rret (Some (matching ! i))))"

section \<open>Assigning tiers\<close>

record tier_weights =
  tw_Rich :: int
  tw_AtReserve :: int
  tw_Multisig :: int
  tw_RegularKey :: int
  tw_Blackholed :: int

definition weights_total :: "tier_weights \<Rightarrow> int" where
  "weights_total w = wrap64
     (tw_Rich w + tw_AtReserve w + tw_Multisig w + tw_RegularKey w + tw_Blackholed w)"

definition tier_weight :: "tier_weights \<Rightarrow> tier \<Rightarrow> int" where
  "tier_weight w t = (case t of
      Rich \<Rightarrow> tw_Rich w | AtReserve \<Rightarrow> tw_AtReserve w | Multisig \<Rightarrow> tw_Multisig w
    | RegularKey \<Rightarrow> tw_RegularKey w | Blackholed \<Rightarrow> tw_Blackholed w)"

definition all_tiers :: "tier list" where
  "all_tiers = [Rich, AtReserve, Multisig, RegularKey, Blackholed]"

text \<open>
  \<open>targets[t]\<close>: Go's \<open>/\<close> truncates towards zero (\<open>sdiv\<close>), its \<open>int\<close> arithmetic wraps
  at 64 bits; Rich takes the remainder.
\<close>

definition tier_share :: "tier_weights \<Rightarrow> nat \<Rightarrow> tier \<Rightarrow> int" where
  "tier_share w n t = wrap64 (tier_weight w t * int n) sdiv weights_total w"

definition tier_target :: "tier_weights \<Rightarrow> nat \<Rightarrow> tier \<Rightarrow> int" where
  "tier_target w n t =
     (let assigned = wrap64 (\<Sum>u \<leftarrow> all_tiers. tier_share w n u)
      in if t = Rich then wrap64 (tier_share w n Rich + (int n - assigned)) else tier_share w n t)"

text \<open>
  Stamping: \<open>for k := 0; k < targets[t]; k++ { wallets[idx].Tier = t; idx++ }\<close>; an index
  past the end of the slice panics.
\<close>

fun stamp :: "tier \<Rightarrow> nat \<Rightarrow> nat \<Rightarrow> pool \<Rightarrow> (nat \<times> pool) option" where
  "stamp t 0 idx p = Some (idx, p)"
| "stamp t (Suc k) idx p =
     (if idx < length p then stamp t k (Suc idx) (p[idx := (p ! idx)\<lparr>w_tier := t\<rparr>]) else None)"

fun stamp_tiers :: "(tier \<Rightarrow> int) \<Rightarrow> tier list \<Rightarrow> nat \<Rightarrow> pool \<Rightarrow> pool option" where
  "stamp_tiers tgt [] idx p = Some p"
| "stamp_tiers tgt (t # ts) idx p =
     (case stamp t (nat (tgt t)) idx p of
        None \<Rightarrow> None
      | Some (idx', p') \<Rightarrow> stamp_tiers tgt ts idx' p')"

text \<open>\<open>AssignTiers\<close>; \<open>None\<close> is an index-out-of-range panic.\<close>

definition AssignTiers :: "pool \<Rightarrow> tier_weights \<Rightarrow> pool option" where
  "AssignTiers p w =
     (if weights_total w = 0 then Some (map (\<lambda>v. v\<lparr>w_tier := Rich\<rparr>) p)
      else stamp_tiers (tier_target w (length p)) all_tiers 0 p)"

section \<open>Tier set-up\<close>

definition GenesisAddress :: string where
  "GenesisAddress = ''rHb9CJAWyB4rj91VRWn96DkukG4bwdtyTh''"

definition GenesisSecret :: string where
  "GenesisSecret = ''snoPBrXtMeMyMHUVTgbuqAfg1SUTb''"

definition reserveBaseDrops :: int where
  "reserveBaseDrops = 200000000"

definition asfDisableMaster :: "32 word" where
  "asfDisableMaster = 4"

text \<open>\<open>parseDrops\<close> is \<open>fmt.Sscanf(s, "%d", &n)\<close>.\<close>

definition parseDrops :: "string \<Rightarrow> int go_result" where
  "parseDrops s = sscanf_d s"

definition drop_value :: "'a go_result \<times> 's \<Rightarrow> unit go_result \<times> 's" where
  "drop_value rs = (case rs of (Inl e, s) \<Rightarrow> (Inl e, s) | (Inr _, s) \<Rightarrow> (Inr (), s))"

definition wrap_err :: "string \<Rightarrow> 'a go_result \<times> 's \<Rightarrow> 'a go_result \<times> 's" where
  "wrap_err ctx rs = (ewrap ctx (fst rs), snd rs)"

definition setupAtReserve :: "'s caller \<Rightarrow> wallet \<Rightarrow> 's \<Rightarrow> unit go_result \<times> 's" where
  "setupAtReserve call w s =
     (case AccountInfo call (w_address w) s of
        (Inl e, s1) \<Rightarrow> (Inl (''at-reserve: account_info '' @ w_address w @ '': '' @ e), s1)
      | (Inr info, s1) \<Rightarrow>
          (case parseDrops (ai_balance info) of
             Inl e \<Rightarrow> (Inl (''at-reserve: parse balance '' @ ai_balance info @ '': '' @ e), s1)
           | Inr balance \<Rightarrow>
               (let excess = wrap64 (balance - reserveBaseDrops - 100)
                in if excess \<le> 0 then (Inr (), s1)
                   else drop_value (SubmitTxJSON call (w_seed w)
                     [(''TransactionType'', GStr ''Payment''), (''Account'', GStr (w_address w)),
                      (''Destination'', GStr GenesisAddress), (''Amount'', GStr (int_dec excess))] s1))))"

definition signer_entry :: "wallet \<Rightarrow> go_value" where
  "signer_entry sg =
     GMap [(''SignerEntry'', GMap [(''Account'', GStr (w_address sg)), (''SignerWeight'', GU32 1)])]"

definition setupMultisig :: "'s caller \<Rightarrow> wallet \<Rightarrow> wallet list \<Rightarrow> 's \<Rightarrow> unit go_result \<times> 's" where
  "setupMultisig call w signers s =
     (if length signers < 3
      then (Inl (''multisig: need >= 3 signers, got '' @ nat_dec (length signers)), s)
      else drop_value (SubmitTxJSON call (w_seed w)
             [(''TransactionType'', GStr ''SignerListSet''), (''Account'', GStr (w_address w)),
              (''SignerQuorum'', GU32 2),
              (''SignerEntries'', GArr (map signer_entry (take 3 signers)))] s))"

definition set_regular_key_tx :: "wallet \<Rightarrow> string \<Rightarrow> fields" where
  "set_regular_key_tx w key =
     [(''TransactionType'', GStr ''SetRegularKey''), (''Account'', GStr (w_address w)),
      (''RegularKey'', GStr key)]"

definition disable_master_tx :: "wallet \<Rightarrow> fields" where
  "disable_master_tx w =
     [(''TransactionType'', GStr ''AccountSet''), (''Account'', GStr (w_address w)),
      (''SetFlag'', GU32 asfDisableMaster)]"

definition setupRegularKey :: "'s caller \<Rightarrow> wallet \<Rightarrow> string \<Rightarrow> 's \<Rightarrow> unit go_result \<times> 's" where
  "setupRegularKey call w regKeyAddr s =
     (case SubmitTxJSON call (w_seed w) (set_regular_key_tx w regKeyAddr) s of
        (Inl e, s1) \<Rightarrow> (Inl (''regkey: SetRegularKey '' @ w_address w @ '': '' @ e), s1)
      | (Inr _, s1) \<Rightarrow>
          wrap_err (''regkey: disable-master '' @ w_address w @ '': '')
            (drop_value (SubmitTxJSON call (w_seed w) (disable_master_tx w) s1)))"

definition setupBlackholed :: "'s caller \<Rightarrow> wallet \<Rightarrow> 's \<Rightarrow> unit go_result \<times> 's" where
  "setupBlackholed call w s = drop_value (SubmitTxJSON call (w_seed w) (disable_master_tx w) s)"

definition otherWallets :: "pool \<Rightarrow> wallet \<Rightarrow> nat \<Rightarrow> wallet list" where
  "otherWallets ws skip n = take n (filter (\<lambda>w. w_address w \<noteq> w_address skip) ws)"

definition setup_wallet :: "'s caller \<Rightarrow> pool \<Rightarrow> wallet \<Rightarrow> 's \<Rightarrow> unit go_result \<times> 's" where
  "setup_wallet call p w s =
     (let wrap = wrap_err (''tier '' @ tier_String (w_tier w) @ '' on '' @ w_address w @ '': '')
      in case w_tier w of
        Rich \<Rightarrow> (Inr (), s)
      | AtReserve \<Rightarrow> wrap (setupAtReserve call w s)
      | Multisig \<Rightarrow>
          (let signers = otherWallets p w 3
           in if length signers < 3
              then (Inl (''multisig '' @ w_address w @ '': pool has < 3 other wallets''), s)
              else wrap (setupMultisig call w signers s))
      | RegularKey \<Rightarrow>
          (let signers = otherWallets p w 1
           in if length signers < 1
              then (Inl (''regkey '' @ w_address w @ '': pool has < 1 other wallet''), s)
              else wrap (setupRegularKey call w (w_address (signers ! 0)) s))
      | Blackholed \<Rightarrow> wrap (setupBlackholed call w s))"

definition ApplyAll :: "'s caller \<Rightarrow> pool \<Rightarrow> 's \<Rightarrow> unit go_result \<times> 's" where
  "ApplyAll call p s = for_each (setup_wallet call p) p s"

text \<open>\<open>RotateTiers\<close>: the periodic maintenance of the pool.\<close>

definition rotate_wallet :: "'s caller \<Rightarrow> wallet \<Rightarrow> 's \<Rightarrow> unit go_result \<times> 's" where
  "rotate_wallet call w s = (case w_tier w of
      AtReserve \<Rightarrow> wrap_err (''rotate at-reserve '' @ w_address w @ '': '') (setupAtReserve call w s)
    | Rich \<Rightarrow>
        (case AccountInfo call (w_address w) s of
           (Inl _, s1) \<Rightarrow> (Inr (), s1)
         | (Inr info, s1) \<Rightarrow>
             (case parseDrops (ai_balance info) of
                Inl _ \<Rightarrow> (Inr (), s1)
              | Inr balance \<Rightarrow>
                  if balance < reserveBaseDrops * 2
                  then (Inr (), snd (SubmitTxJSON call GenesisSecret
                         [(''TransactionType'', GStr ''Payment''), (''Account'', GStr GenesisAddress),
                          (''Destination'', GStr (w_address w)), (''Amount'', GStr ''10000000000'')] s1))
                  else (Inr (), s1)))
    | _ \<Rightarrow> (Inr (), s))"

definition RotateTiers :: "'s caller \<Rightarrow> pool \<Rightarrow> 's \<Rightarrow> unit go_result \<times> 's" where
  "RotateTiers call p s = for_each (rotate_wallet call) p s"

section \<open>Funding\<close>

type_synonym 's attempt = "'s \<Rightarrow> submit_result go_result \<times> 's"

definition accepted :: "string \<Rightarrow> bool" where
  "accepted code \<longleftrightarrow> code = ''tesSUCCESS'' \<or> code = ''terQUEUED''"

definition isTransientFundResult :: "string \<Rightarrow> bool" where
  "isTransientFundResult code = (has_prefix code ''tel'' \<or> has_prefix code ''ter'')"

definition FundMaxAttempts :: nat where
  "FundMaxAttempts = 30"

definition fund_fail :: "string \<Rightarrow> submit_result \<Rightarrow> string" where
  "fund_fail addr res =
     ''fund '' @ addr @ '': engine_result='' @ engine_result res @ '' ('' @ engine_msg res @ '')''"

text \<open>The attempt loop of one wallet: \<open>Inl\<close> returns early, \<open>Inr\<close> leaves \<open>lastErr\<close> and \<open>lastRes\<close>.\<close>

fun fund_attempts :: "'s attempt \<Rightarrow> string \<Rightarrow> nat \<Rightarrow> string option \<Rightarrow> submit_result option \<Rightarrow> 's
    \<Rightarrow> (string option \<times> submit_result option) go_result \<times> 's" where
  "fund_attempts submit addr 0 lastErr lastRes s = (Inr (lastErr, lastRes), s)"
| "fund_attempts submit addr (Suc k) lastErr lastRes s =
     (case submit s of
        (Inl e, s') \<Rightarrow> fund_attempts submit addr k (Some e) lastRes s'
      | (Inr res, s') \<Rightarrow>
          if accepted (engine_result res) then (Inr (None, Some res), s')
          else if isTransientFundResult (engine_result res)
          then fund_attempts submit addr k None (Some res) s'
          else (Inl (fund_fail addr res), s'))"

definition fund_wallet :: "'s caller \<Rightarrow> 64 word \<Rightarrow> wallet \<Rightarrow> 's \<Rightarrow> unit go_result \<times> 's" where
  "fund_wallet call drops w s =
     (let amount = nat_dec (unat drops)
      in case fund_attempts (SubmitPayment call GenesisSecret GenesisAddress (w_address w) amount)
                (w_address w) FundMaxAttempts None None s of
        (Inl e, s') \<Rightarrow> (Inl e, s')
      | (Inr (Some e, _), s') \<Rightarrow> (Inl (''fund '' @ w_address w @ '': '' @ e), s')
      | (Inr (None, Some res), s') \<Rightarrow>
          (if accepted (engine_result res) then (Inr (), s')
           else (Inl (fund_fail (w_address w) res @ '' after '' @ nat_dec FundMaxAttempts @ '' attempts''), s'))
      | (Inr (None, None), s') \<Rightarrow> (Inr (), s'))"

definition FundFromGenesis :: "'s caller \<Rightarrow> pool \<Rightarrow> 64 word \<Rightarrow> 's \<Rightarrow> unit go_result \<times> 's" where
  "FundFromGenesis call p drops s = for_each (fund_wallet call drops) p s"

section \<open>The trust-line mesh\<close>

definition isTransientRPCError :: "string \<Rightarrow> bool" where
  "isTransientRPCError msg =
     (contains msg ''noCurrent'' \<or> contains msg ''notReady'' \<or> contains msg ''tooBusy''
      \<or> contains msg ''highFee'')"

definition transient_engine :: "string \<Rightarrow> bool" where
  "transient_engine code =
     (has_prefix code ''tel'' \<or> has_prefix code ''ter'' \<or> code = ''tefPAST_SEQ'')"

definition engine_text :: "submit_result \<Rightarrow> string" where
  "engine_text res = ''engine='' @ engine_result res @ '' ('' @ engine_msg res @ '')''"

fun retry_loop :: "'s attempt \<Rightarrow> nat \<Rightarrow> nat \<Rightarrow> string \<Rightarrow> 's \<Rightarrow> unit go_result \<times> 's" where
  "retry_loop fn maxRetries 0 lastErr s =
     (Inl (''transient error after '' @ nat_dec maxRetries @ '' retries: '' @ lastErr), s)"
| "retry_loop fn maxRetries (Suc k) lastErr s =
     (case fn s of
        (Inl e, s') \<Rightarrow>
          if isTransientRPCError e then retry_loop fn maxRetries k e s' else (Inl e, s')
      | (Inr res, s') \<Rightarrow>
          if accepted (engine_result res) then (Inr (), s')
          else if transient_engine (engine_result res)
          then retry_loop fn maxRetries k (engine_text res) s'
          else (Inl (engine_text res), s'))"

definition retrySubmit :: "nat \<Rightarrow> 's attempt \<Rightarrow> 's \<Rightarrow> unit go_result \<times> 's" where
  "retrySubmit maxRetries fn s = retry_loop fn maxRetries (Suc maxRetries) [] s"

text \<open>
  \<open>waitForValidation\<close>; the third argument is the number of polls that start before the
  deadline, \<open>start = None\<close> stands for \<open>startSeq < 0\<close>.
\<close>

fun wait_polls :: "'s caller \<Rightarrow> int \<Rightarrow> nat \<Rightarrow> int \<Rightarrow> 's \<Rightarrow> unit go_result \<times> 's" where
  "wait_polls call advance 0 startSeq s =
     (Inl (''timeout waiting for validated seq to advance by '' @ int_dec advance
           @ '' (start='' @ int_dec startSeq @ '')''), s)"
| "wait_polls call advance (Suc k) startSeq s =
     (case ServerInfo call s of
        (Inl _, s') \<Rightarrow> wait_polls call advance k startSeq s'
      | (Inr info, s') \<Rightarrow>
          (let seq = lr_seq (si_validated info)
           in if startSeq < 0 then wait_polls call advance k seq s'
              else if wrap64 (seq - startSeq) \<ge> advance then (Inr (), s')
              else wait_polls call advance k startSeq s'))"

definition waitForValidation :: "'s caller \<Rightarrow> nat \<Rightarrow> int \<Rightarrow> 's \<Rightarrow> unit go_result \<times> 's" where
  "waitForValidation call polls advance s = wait_polls call advance polls (- 1) s"

definition SetupCurrency :: string where
  "SetupCurrency = ''USD''"

definition SetupLimit :: string where
  "SetupLimit = ''1000000''"

definition SetupIOUFunding :: string where
  "SetupIOUFunding = ''10000''"

definition SetupMaxRetries :: nat where
  "SetupMaxRetries = 30"

text \<open>The ordered pairs of distinct indices, in the order of the nested loops.\<close>

definition mesh_pairs :: "nat \<Rightarrow> (nat \<times> nat) list" where
  "mesh_pairs n = concat (map (\<lambda>i. map (Pair i) (filter (\<lambda>j. j \<noteq> i) [0 ..< n])) [0 ..< n])"

definition mesh_ledgers :: "nat \<Rightarrow> int" where
  "mesh_ledgers n = 2 + int ((n * (n - 1)) div 250)"

definition mesh_trust :: "'s caller \<Rightarrow> pool \<Rightarrow> nat \<times> nat \<Rightarrow> 's \<Rightarrow> unit go_result \<times> 's" where
  "mesh_trust call p ij s = (case ij of (i, j) \<Rightarrow>
     wrap_err (''trustset '' @ w_address (p ! i) @ ''->'' @ w_address (p ! j) @ '': '')
       (retrySubmit SetupMaxRetries
          (SubmitTrustSet call (w_seed (p ! i)) (w_address (p ! i)) SetupCurrency
             (w_address (p ! j)) SetupLimit) s))"

definition mesh_fund :: "'s caller \<Rightarrow> pool \<Rightarrow> nat \<times> nat \<Rightarrow> 's \<Rightarrow> unit go_result \<times> 's" where
  "mesh_fund call p ij s = (case ij of (i, j) \<Rightarrow>
     wrap_err (''iou payment '' @ w_address (p ! j) @ ''->'' @ w_address (p ! i) @ '': '')
       (retrySubmit SetupMaxRetries
          (SubmitPaymentIOU call (w_seed (p ! j)) (w_address (p ! j)) (w_address (p ! i))
             [(''currency'', GStr SetupCurrency), (''issuer'', GStr (w_address (p ! j))),
              (''value'', GStr SetupIOUFunding)]) s))"

text \<open>
  The phases of \<open>SetupState\<close>, run in order by \<^const>\<open>for_each\<close>; \<open>polls3\<close> and \<open>polls2\<close>
  count the polls within the three-minute and the two-minute deadline. The arrow in the
  two error texts is the one non-ASCII character of the source's messages.
\<close>

definition setup_phases ::
    "'s caller \<Rightarrow> pool \<Rightarrow> nat \<Rightarrow> nat \<Rightarrow> ('s \<Rightarrow> unit go_result \<times> 's) list" where
  "setup_phases call p polls3 polls2 =
     (let n = length p; pairs = mesh_pairs n
      in [for_each (mesh_trust call p) pairs,
          \<lambda>s. wrap_err ''wait for trustset validation: '' (waitForValidation call polls3 (mesh_ledgers n) s),
          for_each (mesh_fund call p) pairs,
          \<lambda>s. wrap_err ''wait for iou payment validation: '' (waitForValidation call polls3 (mesh_ledgers n) s),
          \<lambda>s. wrap_err ''apply tiers: '' (ApplyAll call p s),
          \<lambda>s. wrap_err ''wait for tier setup validation: '' (waitForValidation call polls2 2 s)])"

definition SetupState :: "'s caller \<Rightarrow> pool \<Rightarrow> nat \<Rightarrow> nat \<Rightarrow> 's \<Rightarrow> unit go_result \<times> 's" where
  "SetupState call p polls3 polls2 s =
     (if length p < 2 then (Inr (), s)
      else for_each (\<lambda>phase. phase) (setup_phases call p polls3 polls2) s)"

section \<open>Random picks\<close>

lemma lawful_Pick [lawful_intro]: "lawful (Pick p)"
  unfolding Pick_def by (intro lawful_intro)

lemma rspec_Pick [rspec_intro]: "p \<noteq> [] \<Longrightarrow> rspec (Pick p) (\<lambda>w. w \<in> set p) E"
  unfolding Pick_def by (rule rspec_rbind [OF rspec_IntN]) (auto intro!: rspec_rret)

lemma can_yield_Pick [yield_intro]:
  assumes "i < length p" and "length p \<le> 2 ^ 63"
  shows "can_yield (Pick p) (p ! i)"
  unfolding Pick_def
  by (rule can_yield_rbind [OF can_yield_IntN [OF assms] can_yield_rret])

lemma pick_until_unfold:
  "pick_until p a = rbind (Pick p) (\<lambda>b. if w_address b \<noteq> a then rret b else pick_until p a)"
proof
  fix r
  show "pick_until p a r = rbind (Pick p) (\<lambda>b. if w_address b \<noteq> a then rret b else pick_until p a) r"
    by (subst pick_until.simps) (auto simp: rbind_def rret_def split: outcome.splits prod.splits)
qed

lemma rspec_pick_until [rspec_intro]:
  assumes "p \<noteq> []"
  shows "rspec (pick_until p a) (\<lambda>b. b \<in> set p \<and> w_address b \<noteq> a) E"
  unfolding rspec_def
proof
  fix r
  show "case fst (pick_until p a r) of Done b \<Rightarrow> b \<in> set p \<and> w_address b \<noteq> a
        | Failed e \<Rightarrow> E e | Panicked _ \<Rightarrow> False | Starved \<Rightarrow> True"
  proof (induction r rule: measure_induct_rule [of length])
    case (less r)
    obtain x r' where pick: "Pick p r = (x, r')" by fastforce
    have post: "case x of Done w \<Rightarrow> w \<in> set p | Failed e \<Rightarrow> False | Panicked _ \<Rightarrow> False | Starved \<Rightarrow> True"
      using rspec_Pick [OF assms, of "\<lambda>_. False"] pick unfolding rspec_def by (metis fst_conv)
    show ?case
    proof (cases x)
      case (Done b)
      then have "length r' < length r" using pick Pick_shorter by blast
      with less.IH [of r'] Done pick post show ?thesis
        by (auto simp: pick_until.simps [of p a r])
    qed (use pick post in \<open>auto simp: pick_until.simps [of p a r]\<close>)
  qed
qed

lemma lawful_pick_until [lawful_intro]: "lawful (pick_until p a)"
  unfolding lawful_def
proof (intro allI impI)
  fix r
  show "fst (pick_until p a r) \<noteq> Starved \<Longrightarrow>
    \<exists>used. r = used @ snd (pick_until p a r) \<and>
      (\<forall>t. pick_until p a (used @ t) = (fst (pick_until p a r), t))"
  proof (induction r rule: measure_induct_rule [of length])
    case (less r)
    obtain x r' where pick: "Pick p r = (x, r')" by fastforce
    have "x \<noteq> Starved" using less.prems pick by (auto simp: pick_until.simps [of p a r])
    then obtain u where u: "r = u @ r'" "\<And>t. Pick p (u @ t) = (x, t)"
      using lawful_Pick [of p] pick unfolding lawful_def by (metis fst_conv snd_conv)
    show ?case
    proof (cases "\<exists>b. x = Done b \<and> w_address b = a")
      case True
      then obtain b where b: "x = Done b" "w_address b = a" by blast
      have eq: "pick_until p a r = pick_until p a r'"
        using pick b by (simp add: pick_until.simps [of p a r])
      have "length r' < length r" using pick b Pick_shorter by blast
      with less eq obtain v where v: "r' = v @ snd (pick_until p a r')"
        "\<And>t. pick_until p a (v @ t) = (fst (pick_until p a r'), t)" by metis
      have "pick_until p a ((u @ v) @ t) = (fst (pick_until p a r), t)" for t
        by (subst pick_until.simps) (simp add: u(2) b v(2) eq)
      then show ?thesis using u(1) v(1) eq by (intro exI [of _ "u @ v"]) simp
    next
      case False
      have step: "pick_until p a q = (x, q')" if "Pick p q = (x, q')" for q q'
        using that False \<open>x \<noteq> Starved\<close> by (cases x) (simp_all add: pick_until.simps [of p a q])
      have "pick_until p a (u @ t) = (fst (pick_until p a r), t)" for t
        using step [OF u(2) [of t]] step [OF pick] by simp
      moreover have "snd (pick_until p a r) = r'" using step [OF pick] by simp
      ultimately show ?thesis using u(1) by metis
    qed
  qed
qed

lemma lawful_PickTwoDistinct [lawful_intro]: "lawful (PickTwoDistinct p)"
  unfolding PickTwoDistinct_def by (intro lawful_intro)

lemma rspec_PickTwoDistinct [rspec_intro]:
  assumes "2 \<le> length p"
  shows "rspec (PickTwoDistinct p)
    (\<lambda>(a, b). a \<in> set p \<and> b \<in> set p \<and> w_address a \<noteq> w_address b) E"
proof -
  have ne: "p \<noteq> []" using assms by auto
  have "rspec (rbind (Pick p) (\<lambda>a. rbind (pick_until p (w_address a)) (\<lambda>b. rret (a, b))))
    (\<lambda>(a, b). a \<in> set p \<and> b \<in> set p \<and> w_address a \<noteq> w_address b) E"
    by (rule rspec_rbind [OF rspec_Pick [OF ne]], rule rspec_rbind [OF rspec_pick_until [OF ne]],
        rule rspec_rret) auto
  then show ?thesis using assms by (simp add: PickTwoDistinct_def)
qed

lemma can_yield_PickTwoDistinct [yield_intro]:
  assumes "i < length p" "j < length p" "length p \<le> 2 ^ 63"
    and distinct: "w_address (p ! i) \<noteq> w_address (p ! j)"
  shows "can_yield (PickTwoDistinct p) (p ! i, p ! j)"
proof -
  have "i \<noteq> j" using distinct by auto
  then have two: "\<not> length p < 2" using assms(1,2) by linarith
  have "can_yield (pick_until p (w_address (p ! i))) (p ! j)"
    by (subst pick_until_unfold, rule can_yield_rbind [OF can_yield_Pick [OF assms(2,3)]])
       (simp add: distinct [symmetric] can_yield_rret)
  then show ?thesis
    using two can_yield_Pick [OF assms(1,3)]
    by (auto simp: PickTwoDistinct_def intro!: can_yield_rbind can_yield_rret)
qed

lemma rspec_PickTier [rspec_intro]:
  "rspec (PickTier p t) (\<lambda>x. case x of None \<Rightarrow> \<forall>w\<in>set p. w_tier w \<noteq> t
                                   | Some w \<Rightarrow> w \<in> set p \<and> w_tier w = t) E"
proof (cases "filter (\<lambda>w. w_tier w = t) p = []")
  case True
  then show ?thesis
    by (auto simp: PickTier_def filter_empty_conv intro!: rspec_rret)
next
  case False
  have mem: "i < length (filter (\<lambda>w. w_tier w = t) p) \<Longrightarrow>
      filter (\<lambda>w. w_tier w = t) p ! i \<in> set p \<and> w_tier (filter (\<lambda>w. w_tier w = t) p ! i) = t" for i
    using nth_mem [of i "filter (\<lambda>w. w_tier w = t) p"] by auto
  show ?thesis
    unfolding PickTier_def Let_def if_not_P [OF False]
    by (rule rspec_rbind [OF rspec_IntN]) (use False mem in \<open>auto intro!: rspec_rret\<close>)
qed

section \<open>Tier assignment\<close>

lemma stamp_eq:
  "idx + k \<le> length p \<Longrightarrow>
   stamp t k idx p =
     Some (idx + k, take idx p @ map (\<lambda>v. v\<lparr>w_tier := t\<rparr>) (take k (drop idx p)) @ drop (idx + k) p)"
proof (induction t k idx p rule: stamp.induct)
  case (1 t idx p)
  then show ?case by simp
next
  case (2 t k idx p)
  have split: "drop idx p = p ! idx # drop (Suc idx) p"
    using 2 by (simp add: Cons_nth_drop_Suc)
  show ?case
    using 2 by (simp add: split take_Suc_conv_app_nth drop_update_cancel take_update_cancel)
qed

definition with_tiers :: "tier list \<Rightarrow> pool \<Rightarrow> pool" where
  "with_tiers ts p = map (\<lambda>(t, v). v\<lparr>w_tier := t\<rparr>) (zip ts p)"

lemma stamp_tiers_eq:
  assumes "(\<Sum>t \<leftarrow> ts. nat (tgt t)) + idx \<le> length p"
  shows "stamp_tiers tgt ts idx p = Some
    (take idx p
     @ with_tiers (concat (map (\<lambda>t. replicate (nat (tgt t)) t) ts)) (drop idx p)
     @ drop (idx + (\<Sum>t \<leftarrow> ts. nat (tgt t))) p)"
  using assms
proof (induction ts arbitrary: idx p)
  case Nil
  then show ?case by (simp add: with_tiers_def)
next
  case (Cons t ts)
  define k where "k = nat (tgt t)"
  define q where "q = take idx p @ map (\<lambda>v. v\<lparr>w_tier := t\<rparr>) (take k (drop idx p)) @ drop (idx + k) p"
  have le: "idx + k \<le> length p" using Cons.prems by (simp add: k_def)
  have len: "length q = length p" using le by (simp add: q_def)
  have "stamp_tiers tgt (t # ts) idx p = stamp_tiers tgt ts (idx + k) q"
    using stamp_eq [OF le, of t] by (simp add: k_def [symmetric] q_def)
  also have "\<dots> = Some (take (idx + k) q
      @ with_tiers (concat (map (\<lambda>t. replicate (nat (tgt t)) t) ts)) (drop (idx + k) q)
      @ drop (idx + k + (\<Sum>t \<leftarrow> ts. nat (tgt t))) q)"
    by (rule Cons.IH) (use Cons.prems len in \<open>simp add: k_def\<close>)
  also have "take (idx + k) q = take idx p @ map (\<lambda>v. v\<lparr>w_tier := t\<rparr>) (take k (drop idx p))"
    using le by (simp add: q_def)
  also have "drop (idx + k) q = drop (idx + k) p"
    using le by (simp add: q_def)
  also have "drop (idx + k + (\<Sum>t \<leftarrow> ts. nat (tgt t))) q = drop (idx + k + (\<Sum>t \<leftarrow> ts. nat (tgt t))) p"
    using le by (simp add: q_def add.commute)
  finally show ?case
  proof -
    have zr: "map (\<lambda>v. v\<lparr>w_tier := t\<rparr>) (take k vs) @ with_tiers us (drop k vs)
        = with_tiers (replicate k t @ us) vs" if "k \<le> length vs" for us vs
      using that
    proof (induction k arbitrary: vs)
      case (Suc n)
      then show ?case by (cases vs) (auto simp: with_tiers_def)
    qed (simp add: with_tiers_def)
    assume fin: "stamp_tiers tgt (t # ts) idx p = Some ((take idx p @ map (\<lambda>v. v\<lparr>w_tier := t\<rparr>) (take k (drop idx p)))
      @ with_tiers (concat (map (\<lambda>t. replicate (nat (tgt t)) t) ts)) (drop (idx + k) p)
      @ drop (idx + k + (\<Sum>t \<leftarrow> ts. nat (tgt t))) p)"
    show ?thesis
      using fin zr [of "drop idx p" "concat (map (\<lambda>t. replicate (nat (tgt t)) t) ts)"] le
      by (simp add: k_def [symmetric] add.assoc add.commute [of k idx])
  qed
qed

text \<open>With non-negative weights whose products stay in range the shares are the floors.\<close>

definition sane_weights :: "tier_weights \<Rightarrow> nat \<Rightarrow> bool" where
  "sane_weights w n \<longleftrightarrow>
     (\<forall>t\<in>set all_tiers. 0 \<le> tier_weight w t) \<and> 0 < (\<Sum>t \<leftarrow> all_tiers. tier_weight w t)
     \<and> (\<Sum>t \<leftarrow> all_tiers. tier_weight w t) * max 1 (int n) < 2 ^ 63"

lemma sdiv_nonneg: "0 \<le> a \<Longrightarrow> 0 < b \<Longrightarrow> (a :: int) sdiv b = a div b"
  by (simp add: signed_divide_int_def sgn_if)

lemma sane_weights_shares:
  assumes "sane_weights w n"
  defines "tot \<equiv> \<Sum>t \<leftarrow> all_tiers. tier_weight w t"
  shows "weights_total w = tot" and "t \<in> set all_tiers \<Longrightarrow> tier_share w n t = tier_weight w t * int n div tot"
proof -
  have nn: "\<And>t. t \<in> set all_tiers \<Longrightarrow> 0 \<le> tier_weight w t" and pos: "0 < tot"
    and bound: "tot * max 1 (int n) < 2 ^ 63"
    using assms by (auto simp: sane_weights_def)
  have "tot * 1 \<le> tot * max 1 (int n)" using pos by (intro mult_left_mono) auto
  then have "tot < 2 ^ 63" using bound by linarith
  with pos have "wrap64 tot = tot" by (intro wrap64_id) auto
  then show total: "weights_total w = tot"
    by (simp add: weights_total_def tot_def all_tiers_def tier_weight_def add.assoc)
  assume t: "t \<in> set all_tiers"
  have "0 \<le> tier_weight w u" for u using nn [of u] by (cases u) (simp_all add: all_tiers_def)
  from this [of Rich] this [of AtReserve] this [of Multisig] this [of RegularKey] this [of Blackholed]
  have "tier_weight w t \<le> tot" by (cases t) (simp_all add: tot_def all_tiers_def)
  then have "tier_weight w t * int n \<le> tot * max 1 (int n)"
    using nn [OF t] pos by (intro mult_mono) auto
  moreover have "0 \<le> tier_weight w t * int n" using nn [OF t] by simp
  ultimately show "tier_share w n t = tier_weight w t * int n div tot"
    using bound pos by (simp add: tier_share_def total wrap64_id sdiv_nonneg)
qed

lemma floor_shares_le:
  fixes n tot :: int
  assumes "0 < tot"
  shows "(\<Sum>x \<leftarrow> xs. f x * n div tot) * tot \<le> (\<Sum>x \<leftarrow> xs. f x) * n"
proof (induction xs)
  case (Cons x xs)
  have "(f x * n div tot) * tot \<le> f x * n"
    using assms minus_mod_eq_div_mult [of "f x * n" tot] pos_mod_sign [of tot "f x * n"] by linarith
  with Cons show ?case by (simp add: algebra_simps)
qed simp

lemma tier_targets_sum:
  assumes "sane_weights w n"
  shows "\<And>t. 0 \<le> tier_target w n t" and "(\<Sum>t \<leftarrow> all_tiers. nat (tier_target w n t)) = n"
    and "t \<noteq> Rich \<Longrightarrow> tier_target w n t = tier_weight w t * int n div (\<Sum>t \<leftarrow> all_tiers. tier_weight w t)"
proof -
  define tot where "tot = (\<Sum>t \<leftarrow> all_tiers. tier_weight w t)"
  have all: "t \<in> set all_tiers" for t by (cases t) (auto simp: all_tiers_def)
  have nn: "\<And>t. 0 \<le> tier_weight w t" and pos: "0 < tot" and bound: "tot * max 1 (int n) < 2 ^ 63"
    using assms all by (auto simp: sane_weights_def tot_def)
  have share: "tier_share w n t = tier_weight w t * int n div tot" for t
    using sane_weights_shares(2) [OF assms all] by (simp add: tot_def)
  have snn: "0 \<le> tier_share w n t" for t
    using nn [of t] pos by (simp add: share pos_imp_zdiv_nonneg_iff)
  define asg where "asg = (\<Sum>u \<leftarrow> all_tiers. tier_share w n u)"
  have "asg * tot \<le> tot * int n"
    using floor_shares_le [OF pos, of "tier_weight w" "int n" all_tiers]
    by (simp add: asg_def share tot_def)
  then have le: "asg \<le> int n" using pos by (simp add: mult.commute)
  have "1 * int n \<le> tot * max 1 (int n)" using pos by (intro mult_mono) auto
  then have nb: "int n < 2 ^ 63" using bound by simp
  have a0: "tier_share w n t \<le> asg" for t
    using snn by (cases t) (auto simp: asg_def all_tiers_def add_increasing add_increasing2)
  have asg0: "0 \<le> asg" using a0 [of Rich] snn [of Rich] by simp
  have rich: "tier_target w n Rich = tier_share w n Rich + (int n - asg)"
    using le nb asg0 snn [of Rich] a0 [of Rich]
    by (simp add: tier_target_def Let_def asg_def [symmetric] wrap64_id)
  have other: "t \<noteq> Rich \<Longrightarrow> tier_target w n t = tier_share w n t" for t
    by (simp add: tier_target_def)
  show nonneg: "0 \<le> tier_target w n t" for t
    using rich other snn [of t] le by (cases "t = Rich") auto
  have "(\<Sum>t \<leftarrow> all_tiers. nat (tier_target w n t)) = nat (\<Sum>t \<leftarrow> all_tiers. tier_target w n t)"
    using nonneg by (simp add: all_tiers_def nat_add_distrib)
  also have "(\<Sum>t \<leftarrow> all_tiers. tier_target w n t) = int n"
    by (simp add: all_tiers_def rich other asg_def)
  finally show "(\<Sum>t \<leftarrow> all_tiers. nat (tier_target w n t)) = n" by simp
  show "t \<noteq> Rich \<Longrightarrow> tier_target w n t = tier_weight w t * int n div (\<Sum>t \<leftarrow> all_tiers. tier_weight w t)"
    by (simp add: other share tot_def)
qed

lemma map_with_tiers:
  assumes "length ts = length p"
  shows "map w_tier (with_tiers ts p) = ts" and "map w_address (with_tiers ts p) = map w_address p"
    and "map w_seed (with_tiers ts p) = map w_seed p"
  using assms by (induction ts p rule: list_induct2) (auto simp: with_tiers_def)

text \<open>
  The assignment under sane weights: no panic, the wallets keep their keys, and the tiers
  come in blocks, in the order of the source, with the floor shares and the remainder
  with Rich.
\<close>

lemma AssignTiers_blocks:
  assumes "sane_weights w (length p)"
  shows "AssignTiers p w = Some (with_tiers
    (concat (map (\<lambda>t. replicate (nat (tier_target w (length p) t)) t) all_tiers)) p)"
proof -
  have "weights_total w \<noteq> 0"
    using sane_weights_shares(1) [OF assms] assms by (auto simp: sane_weights_def)
  moreover have "stamp_tiers (tier_target w (length p)) all_tiers 0 p = Some (with_tiers
    (concat (map (\<lambda>t. replicate (nat (tier_target w (length p) t)) t) all_tiers)) p)"
    using stamp_tiers_eq [of "tier_target w (length p)" all_tiers 0 p] tier_targets_sum(2) [OF assms]
    by simp
  ultimately show ?thesis by (simp add: AssignTiers_def)
qed

lemma length_tier_blocks:
  "sane_weights w n \<Longrightarrow>
   length (concat (map (\<lambda>t. replicate (nat (tier_target w n t)) t) all_tiers)) = n"
  using tier_targets_sum(2) [of w n] by (simp add: length_concat comp_def)

section \<open>Retries\<close>

text \<open>The replies a repeated attempt would meet, and what each of them means.\<close>

fun replies :: "'s attempt \<Rightarrow> nat \<Rightarrow> 's \<Rightarrow> submit_result go_result list" where
  "replies fn 0 s = []"
| "replies fn (Suc k) s = (case fn s of (r, s') \<Rightarrow> r # replies fn k s')"

definition transient :: "submit_result go_result \<Rightarrow> bool" where
  "transient r = (case r of Inl e \<Rightarrow> isTransientRPCError e
     | Inr res \<Rightarrow> \<not> accepted (engine_result res) \<and> transient_engine (engine_result res))"

definition verdict :: "submit_result go_result \<Rightarrow> unit go_result" where
  "verdict r = (case r of Inl e \<Rightarrow> Inl e
     | Inr res \<Rightarrow> if accepted (engine_result res) then Inr () else Inl (engine_text res))"

definition reply_text :: "submit_result go_result \<Rightarrow> string" where
  "reply_text r = (case r of Inl e \<Rightarrow> e | Inr res \<Rightarrow> engine_text res)"

lemma retry_loop_spec:
  "fst (retry_loop fn m k lastErr s) =
     (case find (\<lambda>r. \<not> transient r) (replies fn k s) of
        Some r \<Rightarrow> verdict r
      | None \<Rightarrow> Inl (''transient error after '' @ nat_dec m @ '' retries: ''
                  @ last (lastErr # map reply_text (replies fn k s))))"
proof (induction k arbitrary: lastErr s)
  case 0
  then show ?case by simp
next
  case (Suc k)
  obtain r s' where fn: "fn s = (r, s')" by fastforce
  show ?case
    by (cases r) (auto simp: fn Suc transient_def verdict_def reply_text_def split: option.splits)
qed

lemma length_replies [simp]: "length (replies fn k s) = k"
  by (induction k arbitrary: s) (auto split: prod.splits)

text \<open>Funding retries every transport error; the first reply of an accepted code ends it.\<close>

lemma fund_attempts_accepted:
  "fund_attempts fn addr k lastErr lastRes s = (Inr (None, Some res), s') \<Longrightarrow>
   accepted (engine_result res) \<Longrightarrow> lastRes = Some res \<or> Inr res \<in> set (replies fn k s)"
proof (induction k arbitrary: lastErr lastRes s)
  case 0
  then show ?case by simp
next
  case (Suc k)
  obtain r t where fn: "fn s = (r, t)" by fastforce
  show ?case
  proof (cases r)
    case (Inl e)
    with Suc.prems Suc.IH [of "Some e" lastRes t] fn show ?thesis by auto
  next
    case (Inr x)
    with Suc.prems Suc.IH [of None "Some x" t] fn show ?thesis by (auto split: if_splits)
  qed
qed

section \<open>What a successful set-up has done\<close>

lemma ensures_retry_loop:
  assumes fn: "ensures fn Q" and up: "\<And>res l l1 l2. Q res l \<Longrightarrow> Q res (l1 @ l @ l2)"
  shows "ensures (retry_loop fn m k e) (\<lambda>_ l. \<exists>res. accepted (engine_result res) \<and> Q res l)"
proof (induction k arbitrary: e)
  case 0
  then show ?case by (simp add: ensures_def)
next
  case (Suc k)
  show ?case
    unfolding ensures_def
  proof
    fix s :: "_ \<times> call_log"
    obtain x s1 where fs: "fn s = (x, s1)" by (cases "fn s")
    obtain l1 where l1: "snd s1 = snd s @ l1" "\<And>v. x = Inr v \<Longrightarrow> Q v l1"
      using ensuresE [OF fn fs] by blast
    have again: "\<exists>l. snd (snd (retry_loop fn m k e' s1)) = snd s @ l \<and>
        (\<forall>v. fst (retry_loop fn m k e' s1) = Inr v \<longrightarrow> (\<exists>res. accepted (engine_result res) \<and> Q res l))"
      for e'
    proof -
      from Suc.IH [of e'] obtain l2 where l2: "snd (snd (retry_loop fn m k e' s1)) = snd s1 @ l2"
        "\<And>v. fst (retry_loop fn m k e' s1) = Inr v \<Longrightarrow> \<exists>res. accepted (engine_result res) \<and> Q res l2"
        unfolding ensures_def by meson
      show ?thesis
        by (rule exI [of _ "l1 @ l2"]) (use l1 l2 in \<open>auto, metis append_Nil2 up\<close>)
    qed
    show "\<exists>l. snd (snd (retry_loop fn m (Suc k) e s)) = snd s @ l \<and>
        (\<forall>v. fst (retry_loop fn m (Suc k) e s) = Inr v \<longrightarrow> (\<exists>res. accepted (engine_result res) \<and> Q res l))"
      using again l1 fs by (cases x) auto
  qed
qed

lemma ensures_retrySubmit:
  "ensures (retrySubmit m (SubmitTxJSON (logged call) secret tx)) (\<lambda>_. answered accepted secret tx)"
proof -
  have "ensures (retry_loop (SubmitTxJSON (logged call) secret tx) m (Suc m) [])
    (\<lambda>_ l. \<exists>res. accepted (engine_result res) \<and>
       (\<exists>rep. (''submit'', submit_envelope secret tx, Inr rep) \<in> set l \<and> parseSubmitResult rep = Inr res))"
    by (rule ensures_retry_loop, rule ensures_weaken [OF ensures_SubmitTxJSON]) auto
  then have "ensures (retry_loop (SubmitTxJSON (logged call) secret tx) m (Suc m) [])
      (\<lambda>_. answered accepted secret tx)"
    by (rule ensures_weaken) (auto simp: answered_def)
  moreover have "retrySubmit m (SubmitTxJSON (logged call) secret tx)
      = retry_loop (SubmitTxJSON (logged call) secret tx) m (Suc m) []"
    by (rule ext) (simp add: retrySubmit_def)
  ultimately show ?thesis by simp
qed

lemma ensures_wrap_err:
  "ensures m Q \<Longrightarrow> ensures (\<lambda>s. wrap_err ctx (m s)) Q"
  by (simp add: ensures_def wrap_err_def ewrap_Inr_iff)

lemma extends_wrap_err [log_intro]: "extends m \<Longrightarrow> extends (\<lambda>s. wrap_err ctx (m s))"
  by (simp add: extends_def wrap_err_def)

lemma snd_drop_value [simp]: "snd (drop_value rs) = snd rs"
  by (simp add: drop_value_def split: prod.splits sum.splits)

lemma extends_drop_value [log_intro]: "extends m \<Longrightarrow> extends (\<lambda>s. drop_value (m s))"
  by (simp add: extends_def)

definition iou_amount :: "string \<Rightarrow> go_value" where
  "iou_amount issuer = GMap [(''currency'', GStr SetupCurrency), (''issuer'', GStr issuer),
     (''value'', GStr SetupIOUFunding)]"

lemma ensures_mesh_trust:
  "ensures (mesh_trust (logged call) p (i, j))
     (\<lambda>_. answered accepted (w_seed (p ! i))
        (trust_set_tx (w_address (p ! i)) SetupCurrency (w_address (p ! j)) SetupLimit))"
proof -
  have "mesh_trust (logged call) p (i, j) =
    (\<lambda>s. wrap_err (''trustset '' @ w_address (p ! i) @ ''->'' @ w_address (p ! j) @ '': '')
       (retrySubmit SetupMaxRetries (SubmitTxJSON (logged call) (w_seed (p ! i))
          (trust_set_tx (w_address (p ! i)) SetupCurrency (w_address (p ! j)) SetupLimit)) s))"
    by (rule ext) (simp add: mesh_trust_def submit_methods)
  then show ?thesis using ensures_wrap_err [OF ensures_retrySubmit] by metis
qed

lemma ensures_mesh_fund:
  "ensures (mesh_fund (logged call) p (i, j))
     (\<lambda>_. answered accepted (w_seed (p ! j))
        (payment_tx (w_address (p ! j)) (w_address (p ! i)) (iou_amount (w_address (p ! j)))))"
proof -
  have "mesh_fund (logged call) p (i, j) =
    (\<lambda>s. wrap_err (''iou payment '' @ w_address (p ! j) @ ''->'' @ w_address (p ! i) @ '': '')
       (retrySubmit SetupMaxRetries (SubmitTxJSON (logged call) (w_seed (p ! j))
          (payment_tx (w_address (p ! j)) (w_address (p ! i)) (iou_amount (w_address (p ! j))))) s))"
    by (rule ext) (simp add: mesh_fund_def submit_methods iou_amount_def)
  then show ?thesis using ensures_wrap_err [OF ensures_retrySubmit] by metis
qed

lemma extends_wait_polls: "extends (wait_polls (logged call) adv k start)"
proof (induction k arbitrary: start)
  case 0
  then show ?case by (simp add: extends_def)
next
  case (Suc k)
  show ?case
    unfolding extends_def
  proof
    fix s :: "_ \<times> call_log"
    obtain x s1 where si: "ServerInfo (logged call) s = (x, s1)" by (cases "ServerInfo (logged call) s")
    have p1: "prefix (snd s) (snd s1)" using extendsD [OF extends_ServerInfo si] .
    have p2: "prefix (snd s) (snd (snd (wait_polls (logged call) adv k start' s1)))" for start'
      by (rule prefix_order.trans [OF p1]) (rule Suc.IH [unfolded extends_def, THEN spec])
    show "prefix (snd s) (snd (snd (wait_polls (logged call) adv (Suc k) start s)))"
      using p1 p2 si by (auto simp: Let_def split: sum.splits)
  qed
qed

lemma extends_waitForValidation [log_intro]: "extends (waitForValidation (logged call) polls adv)"
  using extends_wait_polls by (simp add: extends_def waitForValidation_def)

lemma extends_SubmitTxJSON_step:
  "SubmitTxJSON (logged call) secret tx s = (x, s') \<Longrightarrow> prefix (snd s) (snd s')"
  by (rule extendsD [OF extends_SubmitTxJSON])

lemma extends_setupAtReserve [log_intro]: "extends (setupAtReserve (logged call) w)"
  unfolding extends_def
proof
  fix s :: "_ \<times> call_log"
  obtain x s1 where ai: "AccountInfo (logged call) (w_address w) s = (x, s1)"
    by (cases "AccountInfo (logged call) (w_address w) s")
  have p1: "prefix (snd s) (snd s1)" using extendsD [OF extends_AccountInfo ai] .
  have p2: "prefix (snd s) (snd (snd (SubmitTxJSON (logged call) k tx s1)))" for k tx
    by (rule prefix_order.trans [OF p1])
       (rule extends_SubmitTxJSON [unfolded extends_def, THEN spec])
  show "prefix (snd s) (snd (snd (setupAtReserve (logged call) w s)))"
    using p1 p2 by (auto simp: setupAtReserve_def ai Let_def split: sum.splits)
qed

lemma extends_setupRegularKey [log_intro]: "extends (setupRegularKey (logged call) w key)"
  unfolding extends_def
proof
  fix s :: "_ \<times> call_log"
  obtain x s1 where sub: "SubmitTxJSON (logged call) (w_seed w) (set_regular_key_tx w key) s = (x, s1)"
    by (cases "SubmitTxJSON (logged call) (w_seed w) (set_regular_key_tx w key) s")
  have p1: "prefix (snd s) (snd s1)" using extends_SubmitTxJSON_step [OF sub] .
  have p2: "prefix (snd s) (snd (snd (SubmitTxJSON (logged call) k tx s1)))" for k tx
    by (rule prefix_order.trans [OF p1])
       (rule extends_SubmitTxJSON [unfolded extends_def, THEN spec])
  show "prefix (snd s) (snd (snd (setupRegularKey (logged call) w key s)))"
    using p1 p2 by (auto simp: setupRegularKey_def sub wrap_err_def split: sum.splits)
qed

lemma extends_setup_wallet [log_intro]: "extends (setup_wallet (logged call) p w)"
  using extends_setupAtReserve [of call w] extends_setupRegularKey [of call w]
    extends_SubmitTxJSON [of call]
  by (auto simp: extends_def setup_wallet_def Let_def wrap_err_def setupMultisig_def
      setupBlackholed_def split: tier.splits)

lemma extends_ApplyAll [log_intro]: "extends (ApplyAll (logged call) p)"
proof -
  have "ApplyAll (logged call) p = for_each (setup_wallet (logged call) p) p"
    by (rule ext) (simp add: ApplyAll_def)
  then show ?thesis by (simp add: extends_for_each extends_setup_wallet)
qed

lemma ensures_Cons:
  assumes "ensures m Q" and "ensures (for_each (\<lambda>f. f) ms) R"
  shows "ensures (for_each (\<lambda>f. f) (m # ms)) (\<lambda>_ l. \<exists>l1 l2. l = l1 @ l2 \<and> Q () l1 \<and> R () l2)"
proof -
  have "ensures (\<lambda>s. case m s of (Inl e, s') \<Rightarrow> (Inl e, s') | (Inr _, s') \<Rightarrow> for_each (\<lambda>f. f) ms s')
    (\<lambda>w l. \<exists>(v :: unit) l1 l2. l = l1 @ l2 \<and> Q () l1 \<and> R w l2)"
    by (rule ensures_bind [where Q = "\<lambda>_. Q ()" and f = "\<lambda>_. for_each (\<lambda>f. f) ms"
          and R = "\<lambda>_. R" and h = "\<lambda>e s'. (Inl e, s')"])
       (use assms in \<open>auto intro: log_intro elim: ensures_weaken\<close>)
  moreover have "for_each (\<lambda>f. f) (m # ms) =
      (\<lambda>s. case m s of (Inl e, s') \<Rightarrow> (Inl e, s') | (Inr _, s') \<Rightarrow> for_each (\<lambda>f. f) ms s')"
    by (rule ext) simp
  ultimately show ?thesis by (auto elim: ensures_weaken)
qed

lemma set_mesh_pairs: "set (mesh_pairs n) = {(i, j). i < n \<and> j < n \<and> i \<noteq> j}"
  by (auto simp: mesh_pairs_def)

lemma length_mesh_pairs: "length (mesh_pairs n) = n * (n - 1)"
proof -
  have "length (filter (\<lambda>j. j \<noteq> i) [0 ..< n]) = n - 1" if "i < n" for i
  proof -
    have "length (filter (\<lambda>j. j \<noteq> i) [0 ..< n]) = card (set (filter (\<lambda>j. j \<noteq> i) [0 ..< n]))"
      by (rule distinct_card [symmetric]) simp
    also have "set (filter (\<lambda>j. j \<noteq> i) [0 ..< n]) = {0 ..< n} - {i}" by auto
    finally show ?thesis using that by simp
  qed
  then have eq: "map (\<lambda>i. length (filter (\<lambda>j. j \<noteq> i) [0 ..< n])) [0 ..< n] = map (\<lambda>_. n - 1) [0 ..< n]"
    by (intro map_cong) auto
  show ?thesis
    unfolding mesh_pairs_def length_concat map_map comp_def length_map eq by (simp add: sum_list_triv)
qed

definition trust_done :: "pool \<Rightarrow> call_log \<Rightarrow> bool" where
  "trust_done p l \<longleftrightarrow> (\<forall>i < length p. \<forall>j < length p. i \<noteq> j \<longrightarrow>
     answered accepted (w_seed (p ! i))
       (trust_set_tx (w_address (p ! i)) SetupCurrency (w_address (p ! j)) SetupLimit) l)"

definition funding_done :: "pool \<Rightarrow> call_log \<Rightarrow> bool" where
  "funding_done p l \<longleftrightarrow> (\<forall>i < length p. \<forall>j < length p. i \<noteq> j \<longrightarrow>
     answered accepted (w_seed (p ! j))
       (payment_tx (w_address (p ! j)) (w_address (p ! i)) (iou_amount (w_address (p ! j)))) l)"

lemma ensures_trust_phase:
  "ensures (for_each (mesh_trust (logged call) p) (mesh_pairs (length p))) (\<lambda>_. trust_done p)"
  by (rule ensures_weaken [OF ensures_for_each [where Q = "\<lambda>(i, j). answered accepted (w_seed (p ! i))
        (trust_set_tx (w_address (p ! i)) SetupCurrency (w_address (p ! j)) SetupLimit)"]])
     (auto simp: set_mesh_pairs trust_done_def ensures_mesh_trust intro: answered_up)

lemma ensures_fund_phase:
  "ensures (for_each (mesh_fund (logged call) p) (mesh_pairs (length p))) (\<lambda>_. funding_done p)"
  by (rule ensures_weaken [OF ensures_for_each [where Q = "\<lambda>(i, j). answered accepted (w_seed (p ! j))
        (payment_tx (w_address (p ! j)) (w_address (p ! i)) (iou_amount (w_address (p ! j))))"]])
     (auto simp: set_mesh_pairs funding_done_def ensures_mesh_fund intro: answered_up)

text \<open>
  When \<open>SetupState\<close> reports success every trust line of the mesh was accepted, and all of
  them before the first of the issuer payments that need them.
\<close>

lemma ensures_SetupState:
  assumes "2 \<le> length p"
  shows "ensures (SetupState (logged call) p polls3 polls2)
    (\<lambda>_ l. \<exists>l1 l2. l = l1 @ l2 \<and> trust_done p l1 \<and> funding_done p l2)"
proof -
  let ?T = "\<lambda>(_ :: unit) (_ :: call_log). True"
  have wait: "ensures (\<lambda>s. wrap_err ctx (waitForValidation (logged call) k a s)) ?T" for ctx k a
    by (rule extends_ensures, rule log_intro, rule log_intro)
  have tiers: "ensures (\<lambda>s. wrap_err ctx (ApplyAll (logged call) p s)) ?T" for ctx
    by (rule extends_ensures, rule log_intro, rule log_intro)
  have none: "ensures (for_each (\<lambda>f. f) []) ?T" by (simp add: ensures_def)
  note phases = ensures_Cons [OF ensures_trust_phase ensures_Cons [OF wait
    ensures_Cons [OF ensures_fund_phase ensures_Cons [OF wait ensures_Cons [OF tiers
    ensures_Cons [OF wait none]]]]]]
  have "SetupState (logged call) p polls3 polls2
      = for_each (\<lambda>f. f) (setup_phases (logged call) p polls3 polls2)"
    using assms by (intro ext) (simp add: SetupState_def)
  then show ?thesis
    unfolding setup_phases_def Let_def
    by (simp only:) (rule ensures_weaken [OF phases], auto simp: trust_done_def funding_done_def,
        metis answered_up append_Nil)
qed

text \<open>
  \<open>setupRegularKey\<close>: whatever the node answers to \<open>SetRegularKey\<close>, once it answers, the
  master key is disabled next; the engine result of the first submission is not looked at.
\<close>

lemma setupRegularKey_log:
  assumes run: "setupRegularKey (logged call) w key s = (Inr (), s')"
  shows "\<exists>rep1 res1 rep2 res2. snd s' = snd s @
     [(''submit'', submit_envelope (w_seed w) (set_regular_key_tx w key), Inr rep1),
      (''submit'', submit_envelope (w_seed w) (disable_master_tx w), Inr rep2)]
     \<and> parseSubmitResult rep1 = Inr res1 \<and> parseSubmitResult rep2 = Inr res2"
proof -
  obtain x s1 where one: "SubmitTxJSON (logged call) (w_seed w) (set_regular_key_tx w key) s = (x, s1)"
    by (cases "SubmitTxJSON (logged call) (w_seed w) (set_regular_key_tx w key) s")
  obtain y s2 where two: "SubmitTxJSON (logged call) (w_seed w) (disable_master_tx w) s1 = (y, s2)"
    by (cases "SubmitTxJSON (logged call) (w_seed w) (disable_master_tx w) s1")
  from run one two obtain r1 r2 where xy: "x = Inr r1" "y = Inr r2" "s' = s2"
    by (cases x; cases y) (auto simp: setupRegularKey_def wrap_err_def ewrap_def drop_value_def)
  from ensuresE [OF ensures_SubmitTxJSON one] xy obtain l1 rep1 where
    "snd s1 = snd s @ l1" "l1 = [(''submit'', submit_envelope (w_seed w) (set_regular_key_tx w key), Inr rep1)]"
    "parseSubmitResult rep1 = Inr r1" by metis
  moreover from ensuresE [OF ensures_SubmitTxJSON two] xy obtain l2 rep2 where
    "snd s2 = snd s1 @ l2" "l2 = [(''submit'', submit_envelope (w_seed w) (disable_master_tx w), Inr rep2)]"
    "parseSubmitResult rep2 = Inr r2" by metis
  ultimately show ?thesis using xy(3) by auto
qed

lemma fund_attempts_progress:
  "0 < k \<or> le \<noteq> None \<or> lr \<noteq> None \<Longrightarrow> fst (fund_attempts fn a k le lr s) \<noteq> Inr (None, None)"
  by (induction k arbitrary: le lr s) (auto split: prod.splits sum.splits)

text \<open>Funding: success means that the node accepted a payment to every wallet.\<close>

lemma ensures_fund_wallet:
  "ensures (fund_wallet (logged call) drops w)
     (\<lambda>_. answered accepted GenesisSecret
        (payment_tx GenesisAddress (w_address w) (GStr (nat_dec (unat drops)))))"
proof -
  let ?tx = "payment_tx GenesisAddress (w_address w) (GStr (nat_dec (unat drops)))"
  let ?sub = "SubmitTxJSON (logged call) GenesisSecret ?tx"
  define good where "good = (\<lambda>r (l :: call_log). case r of
      (_ :: string option, Some res) \<Rightarrow> \<exists>rep. (''submit'', submit_envelope GenesisSecret ?tx, Inr rep) \<in> set l
         \<and> parseSubmitResult rep = Inr res
    | (_, None) \<Rightarrow> False)"
  have loop: "\<exists>l. snd (snd (fund_attempts ?sub a k le lr s)) = snd s @ l \<and>
      (\<forall>v. fst (fund_attempts ?sub a k le lr s) = Inr v \<longrightarrow> v = (le, lr) \<and> k = 0 \<or> snd v = lr \<or> good v l)"
    for a k le lr and s :: "_ \<times> call_log"
  proof (induction k arbitrary: le lr s)
    case 0
    then show ?case by simp
  next
    case (Suc k)
    obtain x s1 where sub: "?sub s = (x, s1)" by (cases "?sub s")
    obtain l1 where l1: "snd s1 = snd s @ l1" "\<And>v. x = Inr v \<Longrightarrow>
        \<exists>rep. l1 = [(''submit'', submit_envelope GenesisSecret ?tx, Inr rep)] \<and> parseSubmitResult rep = Inr v"
      using ensuresE [OF ensures_SubmitTxJSON sub] by blast
    show ?case
    proof (cases x)
      case (Inl e)
      from Suc.IH [of "Some e" lr s1] l1(1) obtain l2 where
        "snd (snd (fund_attempts ?sub a k (Some e) lr s1)) = snd s @ l1 @ l2"
        "\<And>v. fst (fund_attempts ?sub a k (Some e) lr s1) = Inr v \<Longrightarrow> snd v = lr \<or> good v l2"
        by (metis append_assoc snd_conv)
      then show ?thesis using sub Inl
        by (intro exI [of _ "l1 @ l2"]) (auto simp: good_def split: option.splits)
    next
      case (Inr res)
      from l1(2) [OF Inr] obtain rep where rep: "l1 = [(''submit'', submit_envelope GenesisSecret ?tx, Inr rep)]"
        "parseSubmitResult rep = Inr res" by blast
      have here: "good (le', Some res) (l1 @ l2)" for le' l2 using rep by (auto simp: good_def)
      from Suc.IH [of None "Some res" s1] l1(1) obtain l2 where l2:
        "snd (snd (fund_attempts ?sub a k None (Some res) s1)) = snd s @ l1 @ l2"
        "\<And>v. fst (fund_attempts ?sub a k None (Some res) s1) = Inr v \<Longrightarrow> snd v = Some res \<or> good v l2"
        by (metis append_assoc snd_conv)
      have "good v (l1 @ l2)" if "fst (fund_attempts ?sub a k None (Some res) s1) = Inr v" for v
        using l2(2) [OF that] here [of "fst v" l2] by (cases v) (auto simp: good_def split: option.splits)
      then show ?thesis using sub Inr l2(1) l1(1) here [of None "[]"]
        by (cases "accepted (engine_result res)"; cases "isTransientFundResult (engine_result res)") auto
    qed
  qed
  show ?thesis
    unfolding ensures_def
  proof
    fix s :: "_ \<times> call_log"
    obtain r s1 where fa: "fund_attempts ?sub (w_address w) FundMaxAttempts None None s = (r, s1)"
      by (cases "fund_attempts ?sub (w_address w) FundMaxAttempts None None s")
    from loop [of "w_address w" FundMaxAttempts None None s] fa obtain l where
      "snd s1 = snd s @ l \<and> (\<forall>v. r = Inr v \<longrightarrow> v = (None, None) \<and> FundMaxAttempts = 0 \<or> snd v = None \<or> good v l)"
      by (metis fst_conv snd_conv)
    then have l: "snd s1 = snd s @ l" "\<And>v. r = Inr v \<Longrightarrow> snd v = None \<or> good v l" by auto
    have nz: "r \<noteq> Inr (None, None)"
      using fund_attempts_progress [of FundMaxAttempts None None ?sub "w_address w" s] fa
      by (simp add: FundMaxAttempts_def)
    show "\<exists>l. snd (snd (fund_wallet (logged call) drops w s)) = snd s @ l \<and>
        (\<forall>v. fst (fund_wallet (logged call) drops w s) = Inr v \<longrightarrow> answered accepted GenesisSecret ?tx l)"
      using l nz fa
      by (auto simp: fund_wallet_def submit_methods Let_def good_def answered_def
          split: sum.splits prod.splits option.splits if_splits)
  qed
qed

end
