(* ===== verification/Account_Properties.thy ===== *)
theory Account_Properties
  imports Accounts
begin

text \<open>
  The properties of the account pool: tier assignment, random picks, retries, funding and the
  set-up of the trust-line mesh.
\<close>

section \<open>Sample pools\<close>

definition sample_wallet :: "nat \<Rightarrow> string \<Rightarrow> wallet" where
  "sample_wallet i a = \<lparr>w_index = i, w_address = a, w_seed = CHR ''s'' # a, w_pubkey = ''ED'', w_tier = Rich\<rparr>"

definition sample_pool :: pool where
  "sample_pool = [sample_wallet 0 ''rA'', sample_wallet 1 ''rB'', sample_wallet 2 ''rC'',
     sample_wallet 3 ''rD'', sample_wallet 4 ''rE'']"

text \<open>Replies taken from a script.\<close>

definition scripted :: "reply list caller" where
  "scripted meth params s = (case s of [] \<Rightarrow> (Inl ''no reply'', []) | r # rs \<Rightarrow> (Inr r, rs))"

section \<open>Tiers\<close>

text \<open>\<open>AssignTiers\<close> never runs past the pool; the wallets come back in order with their
  keys unchanged, tiers in consecutive blocks in the order of the source, each tier but Rich
  with the floor of its share of the pool, and Rich with its own share and the remainder.\<close>

theorem AssignTiers_correct:
  assumes "sane_weights w (length p)"
  shows "\<exists>q. AssignTiers p w = Some q
    \<and> map w_address q = map w_address p \<and> map w_seed q = map w_seed p
    \<and> map w_tier q = concat (map (\<lambda>t. replicate (nat (tier_target w (length p) t)) t) all_tiers)
    \<and> (\<forall>t. t \<noteq> Rich \<longrightarrow>
         tier_target w (length p) t =
           tier_weight w t * int (length p) div (\<Sum>u \<leftarrow> all_tiers. tier_weight w u))
    \<and> (\<Sum>t \<leftarrow> all_tiers. nat (tier_target w (length p) t)) = length p"
proof -
  let ?ts = "concat (map (\<lambda>t. replicate (nat (tier_target w (length p) t)) t) all_tiers)"
  show ?thesis
    using AssignTiers_blocks [OF assms] map_with_tiers [OF length_tier_blocks [OF assms]]
      tier_targets_sum(2,3) [OF assms]
    by (intro exI [of _ "with_tiers ?ts p"]) blast
qed

theorem AssignTiers_witness:
  "\<exists>q. AssignTiers sample_pool
      \<lparr>tw_Rich = 1, tw_AtReserve = 1, tw_Multisig = 0, tw_RegularKey = 1, tw_Blackholed = 0\<rparr> = Some q
    \<and> map w_tier q = [Rich, Rich, Rich, AtReserve, RegularKey]"
proof -
  let ?w = "\<lparr>tw_Rich = 1, tw_AtReserve = 1, tw_Multisig = 0, tw_RegularKey = 1, tw_Blackholed = 0\<rparr>"
  have len: "length sample_pool = 5" by (simp add: sample_pool_def)
  have sane: "sane_weights ?w (length sample_pool)"
    by (simp add: sane_weights_def all_tiers_def tier_weight_def len)
  have "concat (map (\<lambda>t. replicate (nat (tier_target ?w 5 t)) t) all_tiers)
      = [Rich, Rich, Rich, AtReserve, RegularKey]"
    by (simp add: all_tiers_def tier_target_def tier_share_def tier_weight_def weights_total_def
        wrap64_def signed_divide_int_def numeral_3_eq_3)
  with AssignTiers_correct [OF sane] show ?thesis unfolding len by metis
qed

section \<open>Random picks\<close>

text \<open>\<open>PickTwoDistinct\<close> returns two wallets of the pool with different addresses, for every
  random source that does not run dry, and every such pair of indices is reached by some
  random source.\<close>

theorem two_distinct_wallets:
  assumes "2 \<le> length p" and "length p \<le> 2 ^ 63"
  shows "rspec (PickTwoDistinct p) (\<lambda>(a, b). a \<in> set p \<and> b \<in> set p \<and> w_address a \<noteq> w_address b) (\<lambda>_. False)
    \<and> (\<forall>i < length p. \<forall>j < length p. w_address (p ! i) \<noteq> w_address (p ! j) \<longrightarrow>
         can_yield (PickTwoDistinct p) (p ! i, p ! j))"
  using rspec_PickTwoDistinct [OF assms(1)] can_yield_PickTwoDistinct [OF _ _ assms(2)] by blast

theorem two_distinct_wallets_witness:
  "can_yield (PickTwoDistinct sample_pool) (sample_wallet 4 ''rE'', sample_wallet 1 ''rB'')"
  using two_distinct_wallets [of sample_pool, THEN conjunct2, rule_format, of 4 1]
  by (simp add: sample_pool_def) (simp add: sample_wallet_def)

section \<open>Retries\<close>

text \<open>\<open>retrySubmit\<close> returns the verdict of the first reply that is not transient (success
  for an accepted engine result, an error otherwise); with only transient replies it gives up
  after the retries with the text of the last one.\<close>

theorem retrySubmit_verdict:
  "fst (retrySubmit m fn s) =
     (case find (\<lambda>r. \<not> transient r) (replies fn (Suc m) s) of
        Some r \<Rightarrow> verdict r
      | None \<Rightarrow> Inl (''transient error after '' @ nat_dec m @ '' retries: ''
                  @ last ([] # map reply_text (replies fn (Suc m) s))))"
  unfolding retrySubmit_def by (rule retry_loop_spec)

section \<open>Set-up\<close>

text \<open>When \<open>SetupState\<close> returns without an error on a pool of two wallets or more, the log
  of its calls splits in two: in the first part every ordered pair of wallets has its trust
  line accepted, and only after that, in the second, every pair its IOU payment.\<close>

theorem setup_mesh_in_order:
  assumes "2 \<le> length p"
  shows "ensures (SetupState (logged call) p polls3 polls2)
    (\<lambda>_ l. \<exists>l1 l2. l = l1 @ l2 \<and> trust_done p l1 \<and> funding_done p l2)"
  by (rule ensures_SetupState [OF assms])

theorem setup_mesh_in_order_witness:
  "ensures (SetupState (logged scripted) sample_pool 3 2) (\<lambda>_ l. \<exists>l1 l2. l = l1 @ l2 \<and> trust_done sample_pool l1)"
  by (rule ensures_weaken [OF setup_mesh_in_order]) (auto simp: sample_pool_def)

text \<open>When \<open>FundFromGenesis\<close> returns without an error every wallet of the pool was sent the
  amount from the genesis account in a payment with an accepted result.\<close>

theorem funding_reaches_every_wallet:
  "ensures (FundFromGenesis (logged call) p drops)
     (\<lambda>_ l. \<forall>w \<in> set p. answered accepted GenesisSecret
        (payment_tx GenesisAddress (w_address w) (GStr (nat_dec (unat drops)))) l)"
  unfolding FundFromGenesis_def by (intro ensures_for_each ensures_fund_wallet) (auto intro: answered_up)

theorem funding_reaches_every_wallet_witness:
  "ensures (FundFromGenesis (logged scripted) sample_pool 5)
     (\<lambda>_. answered accepted GenesisSecret (payment_tx GenesisAddress ''rC'' (GStr ''5'')))"
proof (rule ensures_weaken [OF funding_reaches_every_wallet])
  fix v l
  assume "\<forall>w \<in> set sample_pool. answered accepted GenesisSecret
    (payment_tx GenesisAddress (w_address w) (GStr (nat_dec (unat (5 :: 64 word))))) l"
  then have "answered accepted GenesisSecret
      (payment_tx GenesisAddress (w_address (sample_wallet 2 ''rC'')) (GStr (nat_dec (unat (5 :: 64 word))))) l"
    by (rule bspec) (simp add: sample_pool_def)
  then show "answered accepted GenesisSecret (payment_tx GenesisAddress ''rC'' (GStr ''5'')) l"
    by (simp add: sample_wallet_def nat_dec.simps digit_char_def char_of_def bit_simps)
qed

definition engine_reply :: "string \<Rightarrow> reply" where
  "engine_reply code = \<lparr>doc = Some (GMap [(''engine_result'', GStr code)]), verbatim = (\<lambda>_. None)\<rparr>"

text \<open>\<open>setupRegularKey\<close> disables the master key whatever the engine said about the regular
  key: with any engine result for \<open>SetRegularKey\<close> (a rejection too) the master key is disabled
  next, and the set-up is a success for any engine result of that.\<close>

theorem setup_regular_key_ignores_result:
  "setupRegularKey (logged scripted) w key ([engine_reply c1, engine_reply c2], []) =
     (Inr (), [], [(''submit'', submit_envelope (w_seed w) (set_regular_key_tx w key), Inr (engine_reply c1)),
                   (''submit'', submit_envelope (w_seed w) (disable_master_tx w), Inr (engine_reply c2))])"
  by (simp add: setupRegularKey_def SubmitTxJSON_def with_reply_def logged_def scripted_def engine_reply_def
      parseSubmitResult_def ebind_def ewrap_def drop_value_def wrap_err_def)

end
