(* ===== verification/Trackers.thy ===== *)
theory Trackers
  imports Go_Rand
begin

text \<open>
  Ledger object ids (\<open>generator/keylet.go\<close>) and the trackers of created objects
  (\<open>generator/tracker.go\<close>, \<open>generator/trackers.go\<close>).

  SHA-512 and the xrpl-go address codec are the two fields of the record \<open>codec\<close>, a
  parameter of every definition that derives an id. What all trackers promise is the locale
  \<open>ref_tracker\<close>; it is interpreted on each of the twelve trackers below, and the builders
  rely on its facts only.
\<close>

section \<open>Object ids\<close>

record codec =
  sha512 :: "8 word list \<Rightarrow> 8 word list"
  decode_address :: "string \<Rightarrow> 8 word list go_result"

definition spaceCheck :: nat where
  "spaceCheck = 0x43"

definition spacePayChannel :: nat where
  "spacePayChannel = 0x78"

definition spaceNFTokenOff :: nat where
  "spaceNFTokenOff = 0x71"

definition spacePermDomain :: nat where
  "spacePermDomain = 0x6D"

definition sha512Half :: "codec \<Rightarrow> 8 word list list \<Rightarrow> 8 word list" where
  "sha512Half c parts = take 32 (sha512 c (concat parts))"

definition indexHash :: "codec \<Rightarrow> nat \<Rightarrow> 8 word list list \<Rightarrow> 8 word list" where
  "indexHash c space fs = sha512Half c (be_bytes 2 space # fs)"

definition accountIDBytes :: "codec \<Rightarrow> string \<Rightarrow> 8 word list go_result" where
  "accountIDBytes c address =
     ewrap (''decode '' @ [CHR 0x22] @ address @ [CHR 0x22] @ '': '') (decode_address c address)"

definition seqBytes :: "32 word \<Rightarrow> 8 word list" where
  "seqBytes seq = be_bytes 4 (unat seq)"

definition hexUpper :: "8 word list \<Rightarrow> string" where
  "hexUpper b = hex_upper b"

definition checkID :: "codec \<Rightarrow> string \<Rightarrow> 32 word \<Rightarrow> string go_result" where
  "checkID c owner seq = ebind (accountIDBytes c owner) (\<lambda>i.
     Inr (hexUpper (indexHash c spaceCheck [i, seqBytes seq])))"

definition payChannelID :: "codec \<Rightarrow> string \<Rightarrow> string \<Rightarrow> 32 word \<Rightarrow> string go_result" where
  "payChannelID c source destination seq = ebind (accountIDBytes c source) (\<lambda>src.
     ebind (accountIDBytes c destination) (\<lambda>dst.
       Inr (hexUpper (indexHash c spacePayChannel [src, dst, seqBytes seq]))))"

definition nftokenOfferID :: "codec \<Rightarrow> string \<Rightarrow> 32 word \<Rightarrow> string go_result" where
  "nftokenOfferID c owner seq = ebind (accountIDBytes c owner) (\<lambda>i.
     Inr (hexUpper (indexHash c spaceNFTokenOff [i, seqBytes seq])))"

definition permissionedDomainID :: "codec \<Rightarrow> string \<Rightarrow> 32 word \<Rightarrow> string go_result" where
  "permissionedDomainID c owner seq = ebind (accountIDBytes c owner) (\<lambda>i.
     Inr (hexUpper (indexHash c spacePermDomain [i, seqBytes seq])))"

definition mptIssuanceID :: "codec \<Rightarrow> string \<Rightarrow> 32 word \<Rightarrow> string go_result" where
  "mptIssuanceID c issuer seq = ebind (accountIDBytes c issuer) (\<lambda>i.
     Inr (hexUpper (seqBytes seq @ i)))"

lemma seqBytes_inj: "seqBytes s = seqBytes t \<Longrightarrow> s = t"
proof -
  assume eq: "seqBytes s = seqBytes t"
  have "unat u < 256 ^ 4" for u :: "32 word"
    using unsigned_less [of u, where 'a = nat] by simp
  then have "be_value (seqBytes u) 0 = unat u" for u
    unfolding seqBytes_def by (rule be_value_bytes)
  with eq have "unat s = unat t" by metis
  then show "s = t" by (rule unsigned_word_eqI)
qed

lemma length_seqBytes [simp]: "length (seqBytes s) = 4"
  by (simp add: seqBytes_def)

lemma accountIDBytes_Inr [simp]: "accountIDBytes c a = Inr i \<longleftrightarrow> decode_address c a = Inr i"
  by (simp add: accountIDBytes_def ewrap_Inr_iff)

lemma mptIssuanceID_inj:
  assumes "mptIssuanceID c a s = Inr x" and "mptIssuanceID c b t = Inr x"
  shows "s = t \<and> decode_address c a = decode_address c b"
proof -
  from assms obtain i j where
    i: "decode_address c a = Inr i" "x = hex_upper (seqBytes s @ i)" and
    j: "decode_address c b = Inr j" "x = hex_upper (seqBytes t @ j)"
    by (auto simp: mptIssuanceID_def ebind_Inr_iff hexUpper_def)
  then have "seqBytes s @ i = seqBytes t @ j" by (metis hex_upper_inj)
  then have "seqBytes s = seqBytes t" "i = j" by (simp_all add: append_eq_append_conv)
  with i j show ?thesis using seqBytes_inj by simp
qed

text \<open>
  For the hashed ids: two equal ids come from the same kind of object, account and
  sequence, or their two preimages are a collision of the truncated hash.
\<close>

definition preimage :: "nat \<Rightarrow> 8 word list \<Rightarrow> 32 word \<Rightarrow> 8 word list" where
  "preimage sp i s = be_bytes 2 sp @ i @ seqBytes s"

definition collide :: "codec \<Rightarrow> 8 word list \<Rightarrow> 8 word list \<Rightarrow> bool" where
  "collide c x y \<longleftrightarrow> x \<noteq> y \<and> take 32 (sha512 c x) = take 32 (sha512 c y)"

lemma preimage_inj:
  assumes "preimage sp i s = preimage sp' j t" and "length i = length j" and "sp < 65536" "sp' < 65536"
  shows "sp = sp' \<and> i = j \<and> s = t"
proof -
  have "be_bytes 2 sp = be_bytes 2 sp'" and "i = j" and "seqBytes s = seqBytes t"
    using assms(1, 2) by (simp_all add: preimage_def append_eq_append_conv)
  moreover have "be_value (be_bytes 2 n) 0 = n" if "n < 65536" for n
    using that by (intro be_value_bytes) simp
  ultimately show ?thesis using assms(3,4) seqBytes_inj by metis
qed

lemma indexHash_preimage:
  "indexHash c sp [i, seqBytes s] = indexHash c sp' [j, seqBytes t] \<longleftrightarrow>
     preimage sp i s = preimage sp' j t \<or> collide c (preimage sp i s) (preimage sp' j t)"
  by (auto simp: indexHash_def sha512Half_def preimage_def collide_def)

section \<open>Deterministic picks\<close>

definition pickDeterministic :: "('r \<Rightarrow> 'k :: linorder) \<Rightarrow> 'r list \<Rightarrow> 'r option rnd" where
  "pickDeterministic key refs =
     (if refs = [] then rret None
      else rbind (IntN (length refs)) (\<lambda>i. rret (Some (sort_key key refs ! i))))"

text \<open>The contract of every tracker.\<close>

locale ref_tracker =
  fixes refs :: "'t \<Rightarrow> 'r list" and pick :: "'t \<Rightarrow> 'r option rnd" and count :: "'t \<Rightarrow> nat"
  assumes count_refs: "count t = length (refs t)"
    and pick_none: "refs t = [] \<Longrightarrow> pick t r = (Done None, r)"
    and pick_member: "refs t \<noteq> [] \<Longrightarrow> rspec (pick t) (\<lambda>x. x \<in> Some ` set (refs t)) E"
    and pick_all: "x \<in> set (refs t) \<Longrightarrow> count t \<le> 2 ^ 63 \<Longrightarrow> can_yield (pick t) (Some x)"
    and pick_lawful: "lawful (pick t)"
begin

lemma pick_spec:
  "rspec (pick t) (\<lambda>x. case x of None \<Rightarrow> count t = 0 | Some y \<Rightarrow> y \<in> set (refs t)) E"
proof (cases "refs t = []")
  case True
  then have "pick t = (\<lambda>r. (Done None, r))" using pick_none by blast
  then show ?thesis using True count_refs by (simp add: rspec_def)
next
  case False
  then show ?thesis by (rule rspec_weaken [OF pick_member]) auto
qed

text \<open>The guard \<open>Count() > 0\<close> of a reference builder rules its first error out.\<close>

lemma pick_guarded: "0 < count t \<Longrightarrow> rspec (pick t) (\<lambda>x. x \<noteq> None) E"
  using count_refs by (intro rspec_weaken [OF pick_member]) auto

lemma pick_bind:
  assumes "count t = 0 \<Longrightarrow> rspec (f None) Q E" and "\<And>x. x \<in> set (refs t) \<Longrightarrow> rspec (f (Some x)) Q E"
  shows "rspec (rbind (pick t) f) Q E"
  by (rule rspec_rbind [OF pick_spec]) (use assms in \<open>auto split: option.splits\<close>)

end

lemma pickDeterministic_spec:
  "refs \<noteq> [] \<Longrightarrow> rspec (pickDeterministic key refs) (\<lambda>x. x \<in> Some ` set refs) E"
proof -
  assume ne: "refs \<noteq> []"
  have "sort_key key refs ! i \<in> set refs" if "i < length refs" for i
    using that nth_mem [of i "sort_key key refs"] by simp
  then show ?thesis
    unfolding pickDeterministic_def if_not_P [OF ne]
    by (intro rspec_rbind [OF rspec_IntN] rspec_rret) (use ne in auto)
qed

lemma lawful_pickDeterministic [lawful_intro]: "lawful (pickDeterministic key refs)"
  unfolding pickDeterministic_def by (intro lawful_intro)

lemma pickDeterministic_all:
  assumes "x \<in> set refs" and "length refs \<le> 2 ^ 63"
  shows "can_yield (pickDeterministic key refs) (Some x)"
proof -
  have "x \<in> set (sort_key key refs)" using assms(1) by simp
  then obtain i where i: "i < length refs" "sort_key key refs ! i = x"
    by (metis in_set_conv_nth length_sort)
  have "can_yield (rbind (IntN (length refs)) (\<lambda>i. rret (Some (sort_key key refs ! i)))) (Some x)"
    by (rule can_yield_rbind [OF can_yield_IntN [OF i(1) assms(2)]]) (simp add: i(2) can_yield_rret)
  then show ?thesis using assms(1) by (auto simp: pickDeterministic_def)
qed

lemma ref_trackerI:
  assumes "\<And>t. cnt t = length (refs t)" and "\<And>t. pk t = pickDeterministic key (refs t)"
  shows "ref_tracker refs pk cnt"
proof
  fix t r E x
  show "cnt t = length (refs t)" by (rule assms(1))
  show "refs t = [] \<Longrightarrow> pk t r = (Done None, r)"
    by (simp add: assms(2) pickDeterministic_def rret_def)
  show "refs t \<noteq> [] \<Longrightarrow> rspec (pk t) (\<lambda>x. x \<in> Some ` set (refs t)) E"
    by (simp add: assms(2) pickDeterministic_spec)
  show "x \<in> set (refs t) \<Longrightarrow> cnt t \<le> 2 ^ 63 \<Longrightarrow> can_yield (pk t) (Some x)"
    by (simp add: assms pickDeterministic_all)
  show "lawful (pk t)" by (simp add: assms(2) lawful_pickDeterministic)
qed

text \<open>
  With a key that tells the references apart the pick does not depend on the order in
  which they were recorded.
\<close>

lemma sort_key_unique:
  assumes "mset xs = mset ys" and "inj_on key (set xs)"
  shows "sort_key key xs = sort_key key ys"
proof (rule properties_for_sort_key)
  show "mset (sort_key key ys) = mset xs" by (simp add: assms(1))
  show "sorted (map key (sort_key key ys))" by simp
  fix k assume k: "k \<in> set (sort_key key ys)"
  have all: "\<forall>z\<in>set xs. key k = key z \<longrightarrow> z = k"
    using k assms(2) mset_eq_setD [OF assms(1)] by (auto dest: inj_onD)
  have one: "filter (\<lambda>x. key k = key x) zs = replicate (count (mset zs) k) k"
    if "set zs \<subseteq> set xs" for zs
    using that all
  proof (induction zs)
    case (Cons z zs)
    then have "key k = key z \<longleftrightarrow> z = k" by auto
    with Cons show ?case by auto
  qed simp
  have "set (sort_key key ys) = set xs" using mset_eq_setD [OF assms(1)] by simp
  then show "filter (\<lambda>x. key k = key x) (sort_key key ys) = filter (\<lambda>x. key k = key x) xs"
    using one [of xs] one [of "sort_key key ys"] assms(1) by simp
qed

lemma pickDeterministic_order:
  assumes "mset xs = mset ys" and "inj_on key (set xs)"
  shows "pickDeterministic key xs = pickDeterministic key ys"
  using sort_key_unique [OF assms] mset_eq_length [OF assms(1)] assms(1)
  by (auto simp: pickDeterministic_def)

section \<open>The twelve trackers\<close>

text \<open>\<open>EscrowTracker\<close>; the comparison function of \<open>PickOpen\<close> is the order of the type.\<close>

datatype escrow_ref = EscrowRef (es_owner: string) (es_seq: "32 word")

instantiation escrow_ref :: linorder
begin

definition less_escrow_ref :: "escrow_ref \<Rightarrow> escrow_ref \<Rightarrow> bool" where
  "less_escrow_ref a b =
     (if es_owner a \<noteq> es_owner b then es_owner a < es_owner b else es_seq a < es_seq b)"

definition less_eq_escrow_ref :: "escrow_ref \<Rightarrow> escrow_ref \<Rightarrow> bool" where
  "less_eq_escrow_ref a b = (a = b \<or> a < b)"

instance
proof
  fix a b c :: escrow_ref
  show "(a < b) = (a \<le> b \<and> \<not> b \<le> a)"
    by (auto simp: less_escrow_ref_def less_eq_escrow_ref_def split: if_splits)
  show "a \<le> a" by (simp add: less_eq_escrow_ref_def)
  show "a \<le> b \<Longrightarrow> b \<le> c \<Longrightarrow> a \<le> c"
    by (auto simp: less_escrow_ref_def less_eq_escrow_ref_def split: if_splits)
  show "a \<le> b \<Longrightarrow> b \<le> a \<Longrightarrow> a = b"
    by (auto simp: less_escrow_ref_def less_eq_escrow_ref_def split: if_splits)
  show "a \<le> b \<or> b \<le> a"
    by (cases a; cases b) (auto simp: less_escrow_ref_def less_eq_escrow_ref_def)
qed

end

type_synonym escrow_tracker = "escrow_ref list"

definition EscrowTracker_Record :: "string \<Rightarrow> 32 word \<Rightarrow> escrow_tracker \<Rightarrow> escrow_tracker" where
  "EscrowTracker_Record owner seq t = t @ [EscrowRef owner seq]"

definition EscrowTracker_Count :: "escrow_tracker \<Rightarrow> nat" where
  "EscrowTracker_Count t = length t"

definition EscrowTracker_PickOpen :: "escrow_tracker \<Rightarrow> escrow_ref option rnd" where
  "EscrowTracker_PickOpen t =
     (if t = [] then rret None else rbind (IntN (length t)) (\<lambda>i. rret (Some (sort t ! i))))"

interpretation escrows: ref_tracker "\<lambda>t. t" EscrowTracker_PickOpen EscrowTracker_Count
  by (rule ref_trackerI [where key = "\<lambda>x. x"])
     (simp_all add: EscrowTracker_Count_def EscrowTracker_PickOpen_def pickDeterministic_def)

section \<open>\<open>trackers.go\<close>\<close>

record offer_ref =
  of_owner :: string
  of_seq :: "32 word"

type_synonym offer_tracker = "offer_ref list"

definition OfferTracker_Record :: "string \<Rightarrow> 32 word \<Rightarrow> offer_tracker \<Rightarrow> offer_tracker" where
  "OfferTracker_Record owner seq t = t @ [\<lparr>of_owner = owner, of_seq = seq\<rparr>]"

definition OfferTracker_Count :: "offer_tracker \<Rightarrow> nat" where
  "OfferTracker_Count t = length t"

definition OfferTracker_key :: "offer_ref \<Rightarrow> string" where
  "OfferTracker_key r = of_owner r @ '':'' @ nat_dec (unat (of_seq r))"

definition OfferTracker_Pick :: "offer_tracker \<Rightarrow> offer_ref option rnd" where
  "OfferTracker_Pick t = pickDeterministic OfferTracker_key t"

interpretation offers: ref_tracker "\<lambda>t. t" OfferTracker_Pick OfferTracker_Count
  by (rule ref_trackerI) (simp_all add: OfferTracker_Count_def OfferTracker_Pick_def)

record check_ref =
  ck_id :: string
  ck_owner :: string
  ck_dest :: string

type_synonym check_tracker = "check_ref list"

text \<open>An address that does not decode is skipped.\<close>

definition CheckTracker_Record :: "codec \<Rightarrow> string \<Rightarrow> string \<Rightarrow> 32 word \<Rightarrow> check_tracker \<Rightarrow> check_tracker" where
  "CheckTracker_Record c owner destination seq t = (case checkID c owner seq of
      Inl _ \<Rightarrow> t
    | Inr i \<Rightarrow> t @ [\<lparr>ck_id = i, ck_owner = owner, ck_dest = destination\<rparr>])"

definition CheckTracker_Count :: "check_tracker \<Rightarrow> nat" where
  "CheckTracker_Count t = length t"

definition CheckTracker_key :: "check_ref \<Rightarrow> string" where
  "CheckTracker_key r = ck_id r"

definition CheckTracker_Pick :: "check_tracker \<Rightarrow> check_ref option rnd" where
  "CheckTracker_Pick t = pickDeterministic CheckTracker_key t"

interpretation checks: ref_tracker "\<lambda>t. t" CheckTracker_Pick CheckTracker_Count
  by (rule ref_trackerI) (simp_all add: CheckTracker_Count_def CheckTracker_Pick_def)

record channel_ref =
  ch_id :: string
  ch_source :: string
  ch_dest :: string

type_synonym channel_tracker = "channel_ref list"

text \<open>An address that does not decode is skipped.\<close>

definition ChannelTracker_Record :: "codec \<Rightarrow> string \<Rightarrow> string \<Rightarrow> 32 word \<Rightarrow> channel_tracker \<Rightarrow> channel_tracker" where
  "ChannelTracker_Record c source destination seq t = (case payChannelID c source destination seq of
      Inl _ \<Rightarrow> t
    | Inr i \<Rightarrow> t @ [\<lparr>ch_id = i, ch_source = source, ch_dest = destination\<rparr>])"

definition ChannelTracker_Count :: "channel_tracker \<Rightarrow> nat" where
  "ChannelTracker_Count t = length t"

definition ChannelTracker_key :: "channel_ref \<Rightarrow> string" where
  "ChannelTracker_key r = ch_id r"

definition ChannelTracker_Pick :: "channel_tracker \<Rightarrow> channel_ref option rnd" where
  "ChannelTracker_Pick t = pickDeterministic ChannelTracker_key t"

interpretation channels: ref_tracker "\<lambda>t. t" ChannelTracker_Pick ChannelTracker_Count
  by (rule ref_trackerI) (simp_all add: ChannelTracker_Count_def ChannelTracker_Pick_def)

record domain_ref =
  dm_id :: string
  dm_owner :: string

type_synonym domain_tracker = "domain_ref list"

text \<open>An address that does not decode is skipped.\<close>

definition DomainTracker_Record :: "codec \<Rightarrow> string \<Rightarrow> 32 word \<Rightarrow> domain_tracker \<Rightarrow> domain_tracker" where
  "DomainTracker_Record c owner seq t = (case permissionedDomainID c owner seq of
      Inl _ \<Rightarrow> t
    | Inr i \<Rightarrow> t @ [\<lparr>dm_id = i, dm_owner = owner\<rparr>])"

definition DomainTracker_Count :: "domain_tracker \<Rightarrow> nat" where
  "DomainTracker_Count t = length t"

definition DomainTracker_key :: "domain_ref \<Rightarrow> string" where
  "DomainTracker_key r = dm_id r"

definition DomainTracker_Pick :: "domain_tracker \<Rightarrow> domain_ref option rnd" where
  "DomainTracker_Pick t = pickDeterministic DomainTracker_key t"

interpretation domains: ref_tracker "\<lambda>t. t" DomainTracker_Pick DomainTracker_Count
  by (rule ref_trackerI) (simp_all add: DomainTracker_Count_def DomainTracker_Pick_def)

record mpt_ref =
  mp_id :: string
  mp_issuer :: string

type_synonym mpt_tracker = "mpt_ref list"

text \<open>An address that does not decode is skipped.\<close>

definition MPTTracker_Record :: "codec \<Rightarrow> string \<Rightarrow> 32 word \<Rightarrow> mpt_tracker \<Rightarrow> mpt_tracker" where
  "MPTTracker_Record c issuer seq t = (case mptIssuanceID c issuer seq of
      Inl _ \<Rightarrow> t
    | Inr i \<Rightarrow> t @ [\<lparr>mp_id = i, mp_issuer = issuer\<rparr>])"

definition MPTTracker_Count :: "mpt_tracker \<Rightarrow> nat" where
  "MPTTracker_Count t = length t"

definition MPTTracker_key :: "mpt_ref \<Rightarrow> string" where
  "MPTTracker_key r = mp_id r"

definition MPTTracker_Pick :: "mpt_tracker \<Rightarrow> mpt_ref option rnd" where
  "MPTTracker_Pick t = pickDeterministic MPTTracker_key t"

interpretation mpts: ref_tracker "\<lambda>t. t" MPTTracker_Pick MPTTracker_Count
  by (rule ref_trackerI) (simp_all add: MPTTracker_Count_def MPTTracker_Pick_def)

record oracle_ref =
  oc_owner :: string
  oc_doc :: "32 word"

type_synonym oracle_tracker = "oracle_ref list"

definition OracleTracker_Record :: "string \<Rightarrow> 32 word \<Rightarrow> oracle_tracker \<Rightarrow> oracle_tracker" where
  "OracleTracker_Record owner documentID t = t @ [\<lparr>oc_owner = owner, oc_doc = documentID\<rparr>]"

definition OracleTracker_Count :: "oracle_tracker \<Rightarrow> nat" where
  "OracleTracker_Count t = length t"

definition OracleTracker_key :: "oracle_ref \<Rightarrow> string" where
  "OracleTracker_key r = oc_owner r @ '':'' @ nat_dec (unat (oc_doc r))"

definition OracleTracker_Pick :: "oracle_tracker \<Rightarrow> oracle_ref option rnd" where
  "OracleTracker_Pick t = pickDeterministic OracleTracker_key t"

interpretation oracles: ref_tracker "\<lambda>t. t" OracleTracker_Pick OracleTracker_Count
  by (rule ref_trackerI) (simp_all add: OracleTracker_Count_def OracleTracker_Pick_def)

text \<open>\<open>DIDTracker\<close> keeps its owners distinct with the set \<open>seen\<close>.\<close>

record did_tracker =
  did_owners :: "string list"
  did_seen :: "string set"

definition newDIDTracker :: did_tracker where
  "newDIDTracker = \<lparr>did_owners = [], did_seen = {}\<rparr>"

definition DIDTracker_Record :: "string \<Rightarrow> did_tracker \<Rightarrow> did_tracker" where
  "DIDTracker_Record owner t =
     (if owner \<in> did_seen t then t
      else t\<lparr>did_owners := did_owners t @ [owner], did_seen := insert owner (did_seen t)\<rparr>)"

definition DIDTracker_Count :: "did_tracker \<Rightarrow> nat" where
  "DIDTracker_Count t = length (did_owners t)"

definition DIDTracker_Pick :: "did_tracker \<Rightarrow> string option rnd" where
  "DIDTracker_Pick t = pickDeterministic (\<lambda>s. s) (did_owners t)"

interpretation dids: ref_tracker did_owners DIDTracker_Pick DIDTracker_Count
  by (rule ref_trackerI) (simp_all add: DIDTracker_Count_def DIDTracker_Pick_def)

definition did_ok :: "did_tracker \<Rightarrow> bool" where
  "did_ok t \<longleftrightarrow> distinct (did_owners t) \<and> did_seen t = set (did_owners t)"

lemma did_ok_new: "did_ok newDIDTracker"
  by (simp add: did_ok_def newDIDTracker_def)

lemma did_ok_Record: "did_ok t \<Longrightarrow> did_ok (DIDTracker_Record w t)"
  by (auto simp: did_ok_def DIDTracker_Record_def)

record credential_ref =
  cr_issuer :: string
  cr_subject :: string
  cr_ctype :: string

type_synonym credential_tracker = "credential_ref list"

definition CredentialTracker_Record ::
    "string \<Rightarrow> string \<Rightarrow> string \<Rightarrow> credential_tracker \<Rightarrow> credential_tracker" where
  "CredentialTracker_Record issuer subject credentialType t =
     t @ [\<lparr>cr_issuer = issuer, cr_subject = subject, cr_ctype = credentialType\<rparr>]"

definition CredentialTracker_Count :: "credential_tracker \<Rightarrow> nat" where
  "CredentialTracker_Count t = length t"

definition CredentialTracker_key :: "credential_ref \<Rightarrow> string" where
  "CredentialTracker_key r = cr_issuer r @ '':'' @ cr_subject r @ '':'' @ cr_ctype r"

definition CredentialTracker_Pick :: "credential_tracker \<Rightarrow> credential_ref option rnd" where
  "CredentialTracker_Pick t = pickDeterministic CredentialTracker_key t"

interpretation credentials: ref_tracker "\<lambda>t. t" CredentialTracker_Pick CredentialTracker_Count
  by (rule ref_trackerI) (simp_all add: CredentialTracker_Count_def CredentialTracker_Pick_def)

record amm_ref =
  am_creator :: string
  am_currency :: string
  am_issuer :: string

type_synonym amm_tracker = "amm_ref list"

definition AMMTracker_Record :: "string \<Rightarrow> string \<Rightarrow> string \<Rightarrow> amm_tracker \<Rightarrow> amm_tracker" where
  "AMMTracker_Record creator currency issuer t =
     t @ [\<lparr>am_creator = creator, am_currency = currency, am_issuer = issuer\<rparr>]"

definition AMMTracker_Count :: "amm_tracker \<Rightarrow> nat" where
  "AMMTracker_Count t = length t"

definition AMMTracker_key :: "amm_ref \<Rightarrow> string" where
  "AMMTracker_key r = am_creator r @ '':'' @ am_currency r @ '':'' @ am_issuer r"

definition AMMTracker_Pick :: "amm_tracker \<Rightarrow> amm_ref option rnd" where
  "AMMTracker_Pick t = pickDeterministic AMMTracker_key t"

interpretation amms: ref_tracker "\<lambda>t. t" AMMTracker_Pick AMMTracker_Count
  by (rule ref_trackerI) (simp_all add: AMMTracker_Count_def AMMTracker_Pick_def)

record nft_ref =
  nf_owner :: string
  nf_id :: string

record nft_tracker =
  nft_refs :: "nft_ref list"
  nft_seen :: "string set"

definition newNFTTracker :: nft_tracker where
  "newNFTTracker = \<lparr>nft_refs = [], nft_seen = {}\<rparr>"

definition NFTTracker_Record :: "string \<Rightarrow> string \<Rightarrow> nft_tracker \<Rightarrow> nft_tracker" where
  "NFTTracker_Record owner nftokenID t =
     (if nftokenID = [] then t
      else if nftokenID \<in> nft_seen t then t
      else t\<lparr>nft_refs := nft_refs t @ [\<lparr>nf_owner = owner, nf_id = nftokenID\<rparr>],
             nft_seen := insert nftokenID (nft_seen t)\<rparr>)"

definition NFTTracker_Count :: "nft_tracker \<Rightarrow> nat" where
  "NFTTracker_Count t = length (nft_refs t)"

definition NFTTracker_Pick :: "nft_tracker \<Rightarrow> nft_ref option rnd" where
  "NFTTracker_Pick t = pickDeterministic nf_id (nft_refs t)"

interpretation nfts: ref_tracker nft_refs NFTTracker_Pick NFTTracker_Count
  by (rule ref_trackerI) (simp_all add: NFTTracker_Count_def NFTTracker_Pick_def)

definition nft_ok :: "nft_tracker \<Rightarrow> bool" where
  "nft_ok t \<longleftrightarrow> distinct (map nf_id (nft_refs t)) \<and> nft_seen t = set (map nf_id (nft_refs t))
     \<and> [] \<notin> nft_seen t"

lemma nft_ok_new: "nft_ok newNFTTracker"
  by (simp add: nft_ok_def newNFTTracker_def)

lemma nft_ok_Record: "nft_ok t \<Longrightarrow> nft_ok (NFTTracker_Record w i t)"
  by (auto simp: nft_ok_def NFTTracker_Record_def)

record nft_offer_ref =
  no_id :: string
  no_owner :: string
  no_nft :: string
  no_sell :: bool

type_synonym nft_offer_tracker = "nft_offer_ref list"

definition NFTOfferTracker_Record ::
    "codec \<Rightarrow> string \<Rightarrow> string \<Rightarrow> bool \<Rightarrow> 32 word \<Rightarrow> nft_offer_tracker \<Rightarrow> nft_offer_tracker" where
  "NFTOfferTracker_Record c owner nftokenID sell seq t = (case nftokenOfferID c owner seq of
      Inl _ \<Rightarrow> t
    | Inr i \<Rightarrow> t @ [\<lparr>no_id = i, no_owner = owner, no_nft = nftokenID, no_sell = sell\<rparr>])"

definition NFTOfferTracker_Count :: "nft_offer_tracker \<Rightarrow> nat" where
  "NFTOfferTracker_Count t = length t"

definition NFTOfferTracker_Pick :: "nft_offer_tracker \<Rightarrow> nft_offer_ref option rnd" where
  "NFTOfferTracker_Pick t = pickDeterministic no_id t"

interpretation nft_offers: ref_tracker "\<lambda>t. t" NFTOfferTracker_Pick NFTOfferTracker_Count
  by (rule ref_trackerI) (simp_all add: NFTOfferTracker_Count_def NFTOfferTracker_Pick_def)

section \<open>The tracker of a generator\<close>

record tracker =
  tr_escrows :: escrow_tracker
  tr_offers :: offer_tracker
  tr_checks :: check_tracker
  tr_channels :: channel_tracker
  tr_domains :: domain_tracker
  tr_mpts :: mpt_tracker
  tr_oracles :: oracle_tracker
  tr_dids :: did_tracker
  tr_credentials :: credential_tracker
  tr_amms :: amm_tracker
  tr_nfts :: nft_tracker
  tr_nft_offers :: nft_offer_tracker

definition NewTracker :: tracker where
  "NewTracker = \<lparr>tr_escrows = [], tr_offers = [], tr_checks = [], tr_channels = [],
     tr_domains = [], tr_mpts = [], tr_oracles = [], tr_dids = newDIDTracker,
     tr_credentials = [], tr_amms = [], tr_nfts = newNFTTracker, tr_nft_offers = []\<rparr>"

end
