(* ===== verification/Generator.thy ===== *)
theory Generator
  imports Accounts Trackers
begin

text \<open>
  The generator's state and the helpers its builders share (\<open>generator/generator.go\<close>,
  \<open>generator/helpers.go\<close>), and the rules that prove a builder well-formed: the
  transaction has the type it is registered for, its account is a wallet of the pool and
  it is signed with that wallet's own seed.
\<close>

section \<open>Transactions and the generator\<close>

record tx =
  tx_fields :: fields
  tx_secret :: string

definition TransactionType :: "tx \<Rightarrow> string" where
  "TransactionType t =
     (case as_string (map_of (tx_fields t) ''TransactionType'') of Some s \<Rightarrow> s | None \<Rightarrow> [])"

record generator =
  g_pool :: pool
  g_tracker :: tracker
  g_seeds :: "(string \<times> string) list"

text \<open>\<open>New\<close>: a later wallet of the same address overwrites the seed of an earlier one.\<close>

definition pool_seeds :: "pool \<Rightarrow> (string \<times> string) list" where
  "pool_seeds p = fold (\<lambda>w m. AList.update (w_address w) (w_seed w) m) p []"

definition NewGenerator :: "pool \<Rightarrow> generator" where
  "NewGenerator p = \<lparr>g_pool = p, g_tracker = NewTracker, g_seeds = pool_seeds p\<rparr>"

definition seedFor :: "generator \<Rightarrow> string \<Rightarrow> string option" where
  "seedFor g address = map_of (g_seeds g) address"

definition pickOtherThan :: "generator \<Rightarrow> string \<Rightarrow> wallet rnd" where
  "pickOtherThan g exclude = pick_until (g_pool g) exclude"

text \<open>\<open>randHexBytes\<close>: eight bytes of the random word per round, the last round cut short.\<close>

function rand_bytes :: "nat \<Rightarrow> 8 word list rnd" where
  "rand_bytes n = (if n = 0 then rret []
     else rbind Uint64 (\<lambda>d. rbind (rand_bytes (n - 8)) (\<lambda>bs. rret (take n (be_bytes 8 (unat d)) @ bs))))"
  by pat_completeness auto
termination
  by (relation "measure id") auto

declare rand_bytes.simps [simp del]

definition randHexBytes :: "nat \<Rightarrow> string rnd" where
  "randHexBytes n = rbind (rand_bytes n) (\<lambda>bs. rret (hex_upper bs))"

definition tfTransferable :: "32 word" where
  "tfTransferable = 0x8"

definition tfSellNFToken :: "32 word" where
  "tfSellNFToken = 0x1"

text \<open>Literals of the builders: \<open>&Tx{Fields: map[string]any{...}, Secret: ...}\<close>.\<close>

definition Tx_of :: "string \<Rightarrow> string \<Rightarrow> fields \<Rightarrow> string \<Rightarrow> tx" where
  "Tx_of ty account rest secret =
     \<lparr>tx_fields = (''TransactionType'', GStr ty) # (''Account'', GStr account) # rest,
      tx_secret = secret\<rparr>"

text \<open>\<open>v, ok := ...; if !ok { return nil, fmt.Errorf(e) }\<close>.\<close>

definition or_fail :: "string \<Rightarrow> ('a \<Rightarrow> 'b rnd) \<Rightarrow> 'a option \<Rightarrow> 'b rnd" where
  "or_fail e f x = (case x of None \<Rightarrow> rfail e | Some y \<Rightarrow> f y)"

text \<open>A quantity in drops: \<open>strconv.FormatUint(uint64(r.IntN(n)+lo)*1_000_000, 10)\<close>.\<close>

definition xrp_drops :: "nat \<Rightarrow> nat \<Rightarrow> go_value rnd" where
  "xrp_drops n lo = rbind (IntN n) (\<lambda>i. rret (GStr (nat_dec ((i + lo) * 1000000))))"

section \<open>Well-formed generators and transactions\<close>

definition gen_ok :: "generator \<Rightarrow> bool" where
  "gen_ok g \<longleftrightarrow> 2 \<le> length (g_pool g) \<and> g_seeds g = pool_seeds (g_pool g)"

text \<open>The account of \<open>t\<close> is a wallet of the pool and \<open>t\<close> carries the seed of that wallet.\<close>

definition signed_by_account :: "generator \<Rightarrow> tx \<Rightarrow> bool" where
  "signed_by_account g t \<longleftrightarrow> (\<exists>w \<in> set (g_pool g).
     map_of (tx_fields t) ''Account'' = Some (GStr (w_address w)) \<and> tx_secret t = w_seed w)"

definition builds :: "generator \<Rightarrow> string \<Rightarrow> tx rnd \<Rightarrow> bool" where
  "builds g ty m \<longleftrightarrow> rspec m (\<lambda>t. TransactionType t = ty \<and> signed_by_account g t) (\<lambda>_. True)"

named_theorems build_intro \<open>rules that prove a builder well-formed\<close>

lemma pool_seeds_fold:
  "map_of (fold (\<lambda>w m. AList.update (w_address w) (w_seed w) m) p m) a = Some s \<Longrightarrow>
   map_of m a = Some s \<or> (\<exists>w \<in> set p. w_address w = a \<and> w_seed w = s)"
proof (induction p arbitrary: m)
  case (Cons w p)
  from Cons.IH [of "AList.update (w_address w) (w_seed w) m"] Cons.prems
  show ?case by (auto simp: update_conv' split: if_splits)
qed simp

lemma seedFor_Some:
  "gen_ok g \<Longrightarrow> seedFor g a = Some s \<Longrightarrow> \<exists>w \<in> set (g_pool g). w_address w = a \<and> w_seed w = s"
  using pool_seeds_fold [of "g_pool g" "[]" a s]
  by (simp add: gen_ok_def seedFor_def pool_seeds_def)

lemma TransactionType_Tx_of [simp]: "TransactionType (Tx_of ty a rest s) = ty"
  by (simp add: TransactionType_def Tx_of_def)

lemma signed_Tx_of:
  "w \<in> set (g_pool g) \<Longrightarrow> w_address w = a \<Longrightarrow> w_seed w = s \<Longrightarrow> signed_by_account g (Tx_of ty a rest s)"
  by (auto simp: signed_by_account_def Tx_of_def)

lemma builds_rret [build_intro]:
  "w \<in> set (g_pool g) \<Longrightarrow> w_address w = a \<Longrightarrow> builds g ty (rret (Tx_of ty a rest (w_seed w)))"
  unfolding builds_def by (intro rspec_rret) (simp add: signed_Tx_of)

lemma builds_rfail [build_intro]: "builds g ty (rfail e)"
  by (simp add: builds_def rspec_rfail)

lemma builds_bind:
  "rspec m P (\<lambda>_. True) \<Longrightarrow> (\<And>x. P x \<Longrightarrow> builds g ty (f x)) \<Longrightarrow> builds g ty (rbind m f)"
  unfolding builds_def by (rule rspec_rbind)

lemma builds_any:
  "rspec m (\<lambda>_. True) (\<lambda>_. True) \<Longrightarrow> (\<And>x. builds g ty (f x)) \<Longrightarrow> builds g ty (rbind m f)"
  by (rule builds_bind)

lemma rspec_any: "rspec m P E \<Longrightarrow> rspec m (\<lambda>_. True) (\<lambda>_. True)"
  by (rule rspec_weaken) auto

lemma builds_IntN [build_intro]:
  "0 < n \<Longrightarrow> (\<And>i. i < n \<Longrightarrow> builds g ty (f i)) \<Longrightarrow> builds g ty (rbind (IntN n) f)"
  by (rule builds_bind [OF rspec_IntN])

lemma builds_drops [build_intro]:
  "0 < n \<Longrightarrow> (\<And>v. builds g ty (f v)) \<Longrightarrow> builds g ty (rbind (xrp_drops n lo) f)"
  unfolding xrp_drops_def
  by (rule builds_any, rule rspec_rbind [OF rspec_IntN]) (auto intro: rspec_rret)

lemma builds_Pick [build_intro]:
  "gen_ok g \<Longrightarrow> (\<And>w. w \<in> set (g_pool g) \<Longrightarrow> builds g ty (f w)) \<Longrightarrow> builds g ty (rbind (Pick (g_pool g)) f)"
  by (rule builds_bind [OF rspec_Pick]) (auto simp: gen_ok_def)

lemma builds_until [build_intro]:
  "gen_ok g \<Longrightarrow> (\<And>w. w \<in> set (g_pool g) \<Longrightarrow> builds g ty (f w)) \<Longrightarrow> builds g ty (rbind (pick_until (g_pool g) a) f)"
  by (rule builds_bind [OF rspec_pick_until]) (auto simp: gen_ok_def)

lemma builds_other [build_intro]:
  "gen_ok g \<Longrightarrow> (\<And>w. w \<in> set (g_pool g) \<Longrightarrow> builds g ty (f w)) \<Longrightarrow> builds g ty (rbind (pickOtherThan g a) f)"
  unfolding pickOtherThan_def by (rule builds_until)

lemma builds_two [build_intro]:
  assumes "gen_ok g"
    and "\<And>a b. a \<in> set (g_pool g) \<Longrightarrow> b \<in> set (g_pool g) \<Longrightarrow> builds g ty (f a b)"
  shows "builds g ty (rbind (PickTwoDistinct (g_pool g)) (\<lambda>(a, b). f a b))"
  by (rule builds_bind [OF rspec_PickTwoDistinct]) (use assms in \<open>auto simp: gen_ok_def\<close>)

lemma rspec_rand_bytes [rspec_intro]: "rspec (rand_bytes n) (\<lambda>bs. length bs = n) E"
proof (induction n rule: rand_bytes.induct)
  case (1 n)
  show ?case
  proof (cases "n = 0")
    case True
    then show ?thesis by (subst rand_bytes.simps) (simp add: rspec_rret)
  next
    case False
    have "rspec (rbind Uint64 (\<lambda>d. rbind (rand_bytes (n - 8))
        (\<lambda>bs. rret (take n (be_bytes 8 (unat d)) @ bs)))) (\<lambda>bs. length bs = n) E"
      by (rule rspec_rbind [OF rspec_Uint64], rule rspec_rbind [OF 1 [OF False]], rule rspec_rret) auto
    with False show ?thesis by (subst rand_bytes.simps) simp
  qed
qed

lemma rspec_randHexBytes [rspec_intro]: "rspec (randHexBytes n) (\<lambda>s. length s = 2 * n) E"
  unfolding randHexBytes_def
  by (rule rspec_rbind [OF rspec_rand_bytes], rule rspec_rret) simp

lemma builds_hex [build_intro]:
  "(\<And>s. builds g ty (f s)) \<Longrightarrow> builds g ty (rbind (randHexBytes n) f)"
  by (rule builds_any [OF rspec_any [OF rspec_randHexBytes]])

lemma builds_if [build_intro]:
  "(b \<Longrightarrow> builds g ty m) \<Longrightarrow> (\<not> b \<Longrightarrow> builds g ty m') \<Longrightarrow> builds g ty (if b then m else m')"
  by simp

lemma builds_or_fail [build_intro]:
  "(\<And>y. x = Some y \<Longrightarrow> builds g ty (f y)) \<Longrightarrow> builds g ty (or_fail e f x)"
  by (cases x) (auto simp: or_fail_def intro: builds_rfail)

lemma builds_seed [build_intro]:
  assumes "gen_ok g" and "\<And>w. w \<in> set (g_pool g) \<Longrightarrow> w_address w = a \<Longrightarrow> builds g ty (f (w_seed w))"
  shows "builds g ty (or_fail e f (seedFor g a))"
proof (rule builds_or_fail)
  fix s assume "seedFor g a = Some s"
  with assms(1) obtain w where "w \<in> set (g_pool g)" "w_address w = a" "w_seed w = s"
    using seedFor_Some by blast
  with assms(2) show "builds g ty (f s)" by blast
qed

text \<open>Reference builders: a tracker pick, then the seed of an address of the reference.\<close>

context ref_tracker begin

lemma builds_ref:
  "(\<And>x. builds g ty (f x)) \<Longrightarrow> builds g ty (rbind (pick t) (or_fail e f))"
  by (rule builds_any [OF rspec_any [OF pick_spec]]) (auto intro: builds_or_fail)

end

end
