(* ===== verification/Builders.thy ===== *)
theory Builders
  imports Generator
begin

text \<open>
  The transaction builders: one definition per \<open>generator/<type>.go\<close>, in the order of the
  file names, each followed by the candidate its \<open>init\<close> function registers. A builder draws
  from the random source in the order of the Go statements; the calls inside a composite
  literal are evaluated left to right. The wall clock, read by \<open>OracleSet\<close> only, is the
  first argument of every registered \<open>Build\<close>.
\<close>

section \<open>Candidates and constants\<close>

record candidate =
  c_type :: string
  c_requires :: "string list"
  c_can :: "(generator \<Rightarrow> bool) option"
  c_build :: "32 word \<Rightarrow> generator \<Rightarrow> tx rnd"

definition asfFlags :: "32 word list" where
  "asfFlags = [1, 2, 3, 5, 6, 7, 8, 9]"

definition trustSetCurrencies :: "string list" where
  "trustSetCurrencies = [SetupCurrency]"

definition tfWithdrawAll :: "32 word" where
  "tfWithdrawAll = 0x20000"

definition tfSingleAsset :: "32 word" where
  "tfSingleAsset = 0x80000"

definition tfMPTCanLock :: "32 word" where
  "tfMPTCanLock = 0x2"

definition tfMPTCanTransfer :: "32 word" where
  "tfMPTCanTransfer = 0x20"

definition tfMPTLock :: "32 word" where
  "tfMPTLock = 0x1"

definition tfMPTUnlock :: "32 word" where
  "tfMPTUnlock = 0x2"

definition ledgerFixTypeNFTokenPageLink :: "32 word" where
  "ledgerFixTypeNFTokenPageLink = 1"

definition xrpAsset :: go_value where
  "xrpAsset = GMap [(''currency'', GStr ''XRP'')]"

definition iouAsset :: "string \<Rightarrow> string \<Rightarrow> go_value" where
  "iouAsset currency issuer = GMap [(''currency'', GStr currency), (''issuer'', GStr issuer)]"

text \<open>The verb \<open>%X\<close> on an unsigned number.\<close>

fun nat_hex :: "nat \<Rightarrow> string" where
  "nat_hex n = (if n < 16 then [digit_char n] else nat_hex (n div 16) @ [digit_char (n mod 16)])"

declare nat_hex.simps [simp del]

section \<open>The builders\<close>

definition AccountDelete :: "generator \<Rightarrow> tx rnd" where
  "AccountDelete g = rbind (PickTwoDistinct (g_pool g)) (\<lambda>(acct, dest).
     rret (Tx_of ''AccountDelete'' (w_address acct) [(''Destination'', GStr (w_address dest))] (w_seed acct)))"

definition cand_AccountDelete :: candidate where
  "cand_AccountDelete = \<lparr>c_type = ''AccountDelete'', c_requires = [''DeletableAccounts''],
     c_can = None, c_build = \<lambda>_. AccountDelete\<rparr>"

definition AccountSet :: "generator \<Rightarrow> tx rnd" where
  "AccountSet g = rbind (Pick (g_pool g)) (\<lambda>acct.
     rbind (IntN (length asfFlags)) (\<lambda>k.
     rbind (IntN 2) (\<lambda>coin.
     rret (Tx_of ''AccountSet'' (w_address acct)
       [(if coin = 0 then ''SetFlag'' else ''ClearFlag'', GU32 (asfFlags ! k))] (w_seed acct)))))"

definition cand_AccountSet :: candidate where
  "cand_AccountSet = \<lparr>c_type = ''AccountSet'', c_requires = [],
     c_can = None, c_build = \<lambda>_. AccountSet\<rparr>"

definition AMMBid :: "generator \<Rightarrow> tx rnd" where
  "AMMBid g = rbind (AMMTracker_Pick (tr_amms (g_tracker g))) (or_fail ''no tracked AMMs to bid on'' (\<lambda>ref.
     or_fail (''AMM creator '' @ am_creator ref @ '' not in pool'') (\<lambda>seed.
     rret (Tx_of ''AMMBid'' (am_creator ref) [(''Asset'', xrpAsset),
       (''Asset2'', iouAsset (am_currency ref) (am_issuer ref))] seed)) (seedFor g (am_creator ref))))"

definition cand_AMMBid :: candidate where
  "cand_AMMBid = \<lparr>c_type = ''AMMBid'', c_requires = [''AMM''],
     c_can = Some (\<lambda>g. 0 < AMMTracker_Count (tr_amms (g_tracker g))), c_build = \<lambda>_. AMMBid\<rparr>"

definition AMMClawback :: "generator \<Rightarrow> tx rnd" where
  "AMMClawback g = rbind (AMMTracker_Pick (tr_amms (g_tracker g))) (or_fail ''no tracked AMMs to claw back from'' (\<lambda>ref.
     or_fail (''AMM issuer '' @ am_issuer ref @ '' not in pool'') (\<lambda>seed.
     rret (Tx_of ''AMMClawback'' (am_issuer ref) [(''Holder'', GStr (am_creator ref)),
       (''Asset'', iouAsset (am_currency ref) (am_issuer ref)),
       (''Asset2'', xrpAsset)] seed)) (seedFor g (am_issuer ref))))"

definition cand_AMMClawback :: candidate where
  "cand_AMMClawback = \<lparr>c_type = ''AMMClawback'', c_requires = [''AMM'', ''AMMClawback''],
     c_can = Some (\<lambda>g. 0 < AMMTracker_Count (tr_amms (g_tracker g))), c_build = \<lambda>_. AMMClawback\<rparr>"

definition AMMCreate :: "generator \<Rightarrow> tx rnd" where
  "AMMCreate g = rbind (PickTwoDistinct (g_pool g)) (\<lambda>(creator, issuer).
     rbind (IntN (length trustSetCurrencies)) (\<lambda>c.
     rbind (xrp_drops 41 10) (\<lambda>amount.
     rbind (IntN 41) (\<lambda>i.
     rbind (IntN 1001) (\<lambda>fee.
     rret (Tx_of ''AMMCreate'' (w_address creator) [(''Amount'', amount),
       (''Amount2'', GMap [(''currency'', GStr (trustSetCurrencies ! c)), (''issuer'', GStr (w_address issuer)), (''value'', GStr (nat_dec (i + 10)))]),
       (''TradingFee'', GU32 (of_nat fee))] (w_seed creator)))))))"

definition cand_AMMCreate :: candidate where
  "cand_AMMCreate = \<lparr>c_type = ''AMMCreate'', c_requires = [''AMM''],
     c_can = None, c_build = \<lambda>_. AMMCreate\<rparr>"

definition AMMDelete :: "generator \<Rightarrow> tx rnd" where
  "AMMDelete g = rbind (AMMTracker_Pick (tr_amms (g_tracker g))) (or_fail ''no tracked AMMs to delete'' (\<lambda>ref.
     rbind (Pick (g_pool g)) (\<lambda>acct.
     rret (Tx_of ''AMMDelete'' (w_address acct) [(''Asset'', xrpAsset),
       (''Asset2'', iouAsset (am_currency ref) (am_issuer ref))] (w_seed acct)))))"

definition cand_AMMDelete :: candidate where
  "cand_AMMDelete = \<lparr>c_type = ''AMMDelete'', c_requires = [''AMM''],
     c_can = Some (\<lambda>g. 0 < AMMTracker_Count (tr_amms (g_tracker g))), c_build = \<lambda>_. AMMDelete\<rparr>"

definition AMMDeposit :: "generator \<Rightarrow> tx rnd" where
  "AMMDeposit g = rbind (AMMTracker_Pick (tr_amms (g_tracker g))) (or_fail ''no tracked AMMs to deposit into'' (\<lambda>ref.
     or_fail (''AMM creator '' @ am_creator ref @ '' not in pool'') (\<lambda>seed.
     rbind (xrp_drops 10 1) (\<lambda>amount.
     rret (Tx_of ''AMMDeposit'' (am_creator ref) [(''Asset'', xrpAsset),
       (''Asset2'', iouAsset (am_currency ref) (am_issuer ref)),
       (''Amount'', amount),
       (''Flags'', GU32 tfSingleAsset)] seed))) (seedFor g (am_creator ref))))"

definition cand_AMMDeposit :: candidate where
  "cand_AMMDeposit = \<lparr>c_type = ''AMMDeposit'', c_requires = [''AMM''],
     c_can = Some (\<lambda>g. 0 < AMMTracker_Count (tr_amms (g_tracker g))), c_build = \<lambda>_. AMMDeposit\<rparr>"

definition AMMVote :: "generator \<Rightarrow> tx rnd" where
  "AMMVote g = rbind (AMMTracker_Pick (tr_amms (g_tracker g))) (or_fail ''no tracked AMMs to vote on'' (\<lambda>ref.
     or_fail (''AMM creator '' @ am_creator ref @ '' not in pool'') (\<lambda>seed.
     rbind (IntN 1001) (\<lambda>fee.
     rret (Tx_of ''AMMVote'' (am_creator ref) [(''Asset'', xrpAsset),
       (''Asset2'', iouAsset (am_currency ref) (am_issuer ref)),
       (''TradingFee'', GU32 (of_nat fee))] seed))) (seedFor g (am_creator ref))))"

definition cand_AMMVote :: candidate where
  "cand_AMMVote = \<lparr>c_type = ''AMMVote'', c_requires = [''AMM''],
     c_can = Some (\<lambda>g. 0 < AMMTracker_Count (tr_amms (g_tracker g))), c_build = \<lambda>_. AMMVote\<rparr>"

definition AMMWithdraw :: "generator \<Rightarrow> tx rnd" where
  "AMMWithdraw g = rbind (AMMTracker_Pick (tr_amms (g_tracker g))) (or_fail ''no tracked AMMs to withdraw from'' (\<lambda>ref.
     or_fail (''AMM creator '' @ am_creator ref @ '' not in pool'') (\<lambda>seed.
     rret (Tx_of ''AMMWithdraw'' (am_creator ref) [(''Asset'', xrpAsset),
       (''Asset2'', iouAsset (am_currency ref) (am_issuer ref)),
       (''Flags'', GU32 tfWithdrawAll)] seed)) (seedFor g (am_creator ref))))"

definition cand_AMMWithdraw :: candidate where
  "cand_AMMWithdraw = \<lparr>c_type = ''AMMWithdraw'', c_requires = [''AMM''],
     c_can = Some (\<lambda>g. 0 < AMMTracker_Count (tr_amms (g_tracker g))), c_build = \<lambda>_. AMMWithdraw\<rparr>"

definition CheckCancel :: "generator \<Rightarrow> tx rnd" where
  "CheckCancel g = rbind (CheckTracker_Pick (tr_checks (g_tracker g))) (or_fail ''no tracked checks to cancel'' (\<lambda>ref.
     or_fail (''check owner '' @ ck_owner ref @ '' not in pool'') (\<lambda>seed.
     rret (Tx_of ''CheckCancel'' (ck_owner ref) [(''CheckID'', GStr (ck_id ref))] seed)) (seedFor g (ck_owner ref))))"

definition cand_CheckCancel :: candidate where
  "cand_CheckCancel = \<lparr>c_type = ''CheckCancel'', c_requires = [''Checks''],
     c_can = Some (\<lambda>g. 0 < CheckTracker_Count (tr_checks (g_tracker g))), c_build = \<lambda>_. CheckCancel\<rparr>"

definition CheckCash :: "generator \<Rightarrow> tx rnd" where
  "CheckCash g = rbind (CheckTracker_Pick (tr_checks (g_tracker g))) (or_fail ''no tracked checks to cash'' (\<lambda>ref.
     or_fail (''check destination '' @ ck_dest ref @ '' not in pool'') (\<lambda>seed.
     rret (Tx_of ''CheckCash'' (ck_dest ref) [(''CheckID'', GStr (ck_id ref)),
       (''Amount'', GStr ''1000000'')] seed)) (seedFor g (ck_dest ref))))"

definition cand_CheckCash :: candidate where
  "cand_CheckCash = \<lparr>c_type = ''CheckCash'', c_requires = [''Checks''],
     c_can = Some (\<lambda>g. 0 < CheckTracker_Count (tr_checks (g_tracker g))), c_build = \<lambda>_. CheckCash\<rparr>"

definition CheckCreate :: "generator \<Rightarrow> tx rnd" where
  "CheckCreate g = rbind (PickTwoDistinct (g_pool g)) (\<lambda>(src, dst).
     rbind (xrp_drops 50 1) (\<lambda>sendMax.
     rret (Tx_of ''CheckCreate'' (w_address src) [(''Destination'', GStr (w_address dst)),
       (''SendMax'', sendMax)] (w_seed src))))"

definition cand_CheckCreate :: candidate where
  "cand_CheckCreate = \<lparr>c_type = ''CheckCreate'', c_requires = [''Checks''],
     c_can = None, c_build = \<lambda>_. CheckCreate\<rparr>"

definition Clawback :: "generator \<Rightarrow> tx rnd" where
  "Clawback g = rbind (PickTwoDistinct (g_pool g)) (\<lambda>(issuer, holder).
     rbind (IntN (length trustSetCurrencies)) (\<lambda>c.
     rbind (IntN 1000) (\<lambda>i.
     rret (Tx_of ''Clawback'' (w_address issuer) [(''Amount'', GMap [(''currency'', GStr (trustSetCurrencies ! c)), (''issuer'', GStr (w_address holder)), (''value'', GStr (nat_dec (i + 1)))])] (w_seed issuer)))))"

definition cand_Clawback :: candidate where
  "cand_Clawback = \<lparr>c_type = ''Clawback'', c_requires = [''Clawback''],
     c_can = None, c_build = \<lambda>_. Clawback\<rparr>"

definition CredentialAccept :: "generator \<Rightarrow> tx rnd" where
  "CredentialAccept g = rbind (CredentialTracker_Pick (tr_credentials (g_tracker g))) (or_fail ''no tracked credentials to accept'' (\<lambda>ref.
     or_fail (''credential subject '' @ cr_subject ref @ '' not in pool'') (\<lambda>seed.
     rret (Tx_of ''CredentialAccept'' (cr_subject ref) [(''Issuer'', GStr (cr_issuer ref)),
       (''CredentialType'', GStr (cr_ctype ref))] seed)) (seedFor g (cr_subject ref))))"

definition cand_CredentialAccept :: candidate where
  "cand_CredentialAccept = \<lparr>c_type = ''CredentialAccept'', c_requires = [''Credentials''],
     c_can = Some (\<lambda>g. 0 < CredentialTracker_Count (tr_credentials (g_tracker g))), c_build = \<lambda>_. CredentialAccept\<rparr>"

definition CredentialCreate :: "generator \<Rightarrow> tx rnd" where
  "CredentialCreate g = rbind (PickTwoDistinct (g_pool g)) (\<lambda>(issuer, subject).
     rbind (randHexBytes 8) (\<lambda>h.
     rret (Tx_of ''CredentialCreate'' (w_address issuer) [(''Subject'', GStr (w_address subject)),
       (''CredentialType'', GStr h)] (w_seed issuer))))"

definition cand_CredentialCreate :: candidate where
  "cand_CredentialCreate = \<lparr>c_type = ''CredentialCreate'', c_requires = [''Credentials''],
     c_can = None, c_build = \<lambda>_. CredentialCreate\<rparr>"

definition CredentialDelete :: "generator \<Rightarrow> tx rnd" where
  "CredentialDelete g = rbind (CredentialTracker_Pick (tr_credentials (g_tracker g))) (or_fail ''no tracked credentials to delete'' (\<lambda>ref.
     or_fail (''credential issuer '' @ cr_issuer ref @ '' not in pool'') (\<lambda>seed.
     rret (Tx_of ''CredentialDelete'' (cr_issuer ref) [(''Subject'', GStr (cr_subject ref)),
       (''CredentialType'', GStr (cr_ctype ref))] seed)) (seedFor g (cr_issuer ref))))"

definition cand_CredentialDelete :: candidate where
  "cand_CredentialDelete = \<lparr>c_type = ''CredentialDelete'', c_requires = [''Credentials''],
     c_can = Some (\<lambda>g. 0 < CredentialTracker_Count (tr_credentials (g_tracker g))), c_build = \<lambda>_. CredentialDelete\<rparr>"

definition DepositPreauth :: "generator \<Rightarrow> tx rnd" where
  "DepositPreauth g = rbind (PickTwoDistinct (g_pool g)) (\<lambda>(acct, peer).
     rbind (IntN 2) (\<lambda>coin.
     rret (Tx_of ''DepositPreauth'' (w_address acct)
       [(if coin = 0 then ''Authorize'' else ''Unauthorize'', GStr (w_address peer))] (w_seed acct))))"

definition cand_DepositPreauth :: candidate where
  "cand_DepositPreauth = \<lparr>c_type = ''DepositPreauth'', c_requires = [''DepositPreauth''],
     c_can = None, c_build = \<lambda>_. DepositPreauth\<rparr>"

definition DIDDelete :: "generator \<Rightarrow> tx rnd" where
  "DIDDelete g = rbind (DIDTracker_Pick (tr_dids (g_tracker g))) (or_fail ''no tracked DIDs to delete'' (\<lambda>ref.
     or_fail (''DID owner '' @ ref @ '' not in pool'') (\<lambda>seed.
     rret (Tx_of ''DIDDelete'' (ref) [] seed)) (seedFor g (ref))))"

definition cand_DIDDelete :: candidate where
  "cand_DIDDelete = \<lparr>c_type = ''DIDDelete'', c_requires = [''DID''],
     c_can = Some (\<lambda>g. 0 < DIDTracker_Count (tr_dids (g_tracker g))), c_build = \<lambda>_. DIDDelete\<rparr>"

definition DIDSet :: "generator \<Rightarrow> tx rnd" where
  "DIDSet g = rbind (Pick (g_pool g)) (\<lambda>acct.
     rbind (randHexBytes 16) (\<lambda>h.
     rret (Tx_of ''DIDSet'' (w_address acct) [(''URI'', GStr h)] (w_seed acct))))"

definition cand_DIDSet :: candidate where
  "cand_DIDSet = \<lparr>c_type = ''DIDSet'', c_requires = [''DID''],
     c_can = None, c_build = \<lambda>_. DIDSet\<rparr>"

text \<open>
  \<open>EscrowCancel\<close> signs with the first pool wallet of the owner's address and, where that
  gives no seed, with the seed of a random wallet.
\<close>

definition owner_seed :: "pool \<Rightarrow> string \<Rightarrow> string" where
  "owner_seed p owner =
     (case find (\<lambda>w. w_address w = owner) p of Some w \<Rightarrow> w_seed w | None \<Rightarrow> [])"

definition EscrowCancel :: "generator \<Rightarrow> tx rnd" where
  "EscrowCancel g = rbind (EscrowTracker_PickOpen (tr_escrows (g_tracker g)))
     (or_fail ''no tracked escrows to cancel'' (\<lambda>ref.
        let owner = es_owner ref; seed = owner_seed (g_pool g) owner;
            result = \<lambda>s. rret (Tx_of ''EscrowCancel'' owner
              [(''Owner'', GStr owner), (''OfferSequence'', GU32 (es_seq ref))] s)
        in if seed = [] then rbind (Pick (g_pool g)) (\<lambda>submitter. result (w_seed submitter))
           else result seed))"

definition cand_EscrowCancel :: candidate where
  "cand_EscrowCancel = \<lparr>c_type = ''EscrowCancel'', c_requires = [],
     c_can = Some (\<lambda>g. 0 < EscrowTracker_Count (tr_escrows (g_tracker g))), c_build = \<lambda>_. EscrowCancel\<rparr>"

definition EscrowCreate :: "generator \<Rightarrow> tx rnd" where
  "EscrowCreate g = rbind (PickTwoDistinct (g_pool g)) (\<lambda>(src, dst).
     rbind (xrp_drops 10 1) (\<lambda>amount.
     rbind (IntN 1000) (\<lambda>jitter.
     rret (Tx_of ''EscrowCreate'' (w_address src) [(''Destination'', GStr (w_address dst)),
       (''Amount'', amount),
       (''FinishAfter'', GU32 (of_nat (946684800 + 100000 + jitter)))] (w_seed src)))))"

definition cand_EscrowCreate :: candidate where
  "cand_EscrowCreate = \<lparr>c_type = ''EscrowCreate'', c_requires = [],
     c_can = None, c_build = \<lambda>_. EscrowCreate\<rparr>"

definition EscrowFinish :: "generator \<Rightarrow> tx rnd" where
  "EscrowFinish g = rbind (EscrowTracker_PickOpen (tr_escrows (g_tracker g))) (or_fail ''no tracked escrows to finish'' (\<lambda>ref.
     rbind (Pick (g_pool g)) (\<lambda>submitter.
     rret (Tx_of ''EscrowFinish'' (w_address submitter) [(''Owner'', GStr (es_owner ref)),
       (''OfferSequence'', GU32 (es_seq ref))] (w_seed submitter)))))"

definition cand_EscrowFinish :: candidate where
  "cand_EscrowFinish = \<lparr>c_type = ''EscrowFinish'', c_requires = [],
     c_can = Some (\<lambda>g. 0 < EscrowTracker_Count (tr_escrows (g_tracker g))), c_build = \<lambda>_. EscrowFinish\<rparr>"

definition LedgerStateFix :: "generator \<Rightarrow> tx rnd" where
  "LedgerStateFix g = rbind (PickTwoDistinct (g_pool g)) (\<lambda>(acct, owner).
     rret (Tx_of ''LedgerStateFix'' (w_address acct) [(''LedgerFixType'', GU32 ledgerFixTypeNFTokenPageLink),
       (''Owner'', GStr (w_address owner))] (w_seed acct)))"

definition cand_LedgerStateFix :: candidate where
  "cand_LedgerStateFix = \<lparr>c_type = ''LedgerStateFix'', c_requires = [''fixNFTokenPageLinks''],
     c_can = None, c_build = \<lambda>_. LedgerStateFix\<rparr>"

definition MPTokenAuthorize :: "generator \<Rightarrow> tx rnd" where
  "MPTokenAuthorize g = rbind (MPTTracker_Pick (tr_mpts (g_tracker g))) (or_fail ''no tracked MPT issuances to authorize'' (\<lambda>ref.
     rbind (pickOtherThan g (mp_issuer ref)) (\<lambda>holder.
     rret (Tx_of ''MPTokenAuthorize'' (w_address holder) [(''MPTokenIssuanceID'', GStr (mp_id ref))] (w_seed holder)))))"

definition cand_MPTokenAuthorize :: candidate where
  "cand_MPTokenAuthorize = \<lparr>c_type = ''MPTokenAuthorize'', c_requires = [''MPTokensV1''],
     c_can = Some (\<lambda>g. 0 < MPTTracker_Count (tr_mpts (g_tracker g))), c_build = \<lambda>_. MPTokenAuthorize\<rparr>"

definition MPTokenIssuanceCreate :: "generator \<Rightarrow> tx rnd" where
  "MPTokenIssuanceCreate g = rbind (Pick (g_pool g)) (\<lambda>acct.
     rbind (IntN 6) (\<lambda>scale.
     rret (Tx_of ''MPTokenIssuanceCreate'' (w_address acct) [(''AssetScale'', GU32 (of_nat scale)),
       (''Flags'', GU32 (or tfMPTCanLock tfMPTCanTransfer))] (w_seed acct))))"

definition cand_MPTokenIssuanceCreate :: candidate where
  "cand_MPTokenIssuanceCreate = \<lparr>c_type = ''MPTokenIssuanceCreate'', c_requires = [''MPTokensV1''],
     c_can = None, c_build = \<lambda>_. MPTokenIssuanceCreate\<rparr>"

definition MPTokenIssuanceDestroy :: "generator \<Rightarrow> tx rnd" where
  "MPTokenIssuanceDestroy g = rbind (MPTTracker_Pick (tr_mpts (g_tracker g))) (or_fail ''no tracked MPT issuances to destroy'' (\<lambda>ref.
     or_fail (''MPT issuer '' @ mp_issuer ref @ '' not in pool'') (\<lambda>seed.
     rret (Tx_of ''MPTokenIssuanceDestroy'' (mp_issuer ref) [(''MPTokenIssuanceID'', GStr (mp_id ref))] seed)) (seedFor g (mp_issuer ref))))"

definition cand_MPTokenIssuanceDestroy :: candidate where
  "cand_MPTokenIssuanceDestroy = \<lparr>c_type = ''MPTokenIssuanceDestroy'', c_requires = [''MPTokensV1''],
     c_can = Some (\<lambda>g. 0 < MPTTracker_Count (tr_mpts (g_tracker g))), c_build = \<lambda>_. MPTokenIssuanceDestroy\<rparr>"

definition MPTokenIssuanceSet :: "generator \<Rightarrow> tx rnd" where
  "MPTokenIssuanceSet g = rbind (MPTTracker_Pick (tr_mpts (g_tracker g))) (or_fail ''no tracked MPT issuances to set'' (\<lambda>ref.
     or_fail (''MPT issuer '' @ mp_issuer ref @ '' not in pool'') (\<lambda>seed.
     rbind (IntN 2) (\<lambda>coin.
     rret (Tx_of ''MPTokenIssuanceSet'' (mp_issuer ref) [(''MPTokenIssuanceID'', GStr (mp_id ref)),
       (''Flags'', GU32 (if coin = 0 then tfMPTLock else tfMPTUnlock))] seed))) (seedFor g (mp_issuer ref))))"

definition cand_MPTokenIssuanceSet :: candidate where
  "cand_MPTokenIssuanceSet = \<lparr>c_type = ''MPTokenIssuanceSet'', c_requires = [''MPTokensV1''],
     c_can = Some (\<lambda>g. 0 < MPTTracker_Count (tr_mpts (g_tracker g))), c_build = \<lambda>_. MPTokenIssuanceSet\<rparr>"

definition NFTokenAcceptOffer :: "generator \<Rightarrow> tx rnd" where
  "NFTokenAcceptOffer g = rbind (NFTOfferTracker_Pick (tr_nft_offers (g_tracker g))) (or_fail ''no tracked sell offers to accept'' (\<lambda>ref.
     if \<not> no_sell ref then rfail ''no tracked sell offers to accept'' else
     rbind (pickOtherThan g (no_owner ref)) (\<lambda>buyer.
     rret (Tx_of ''NFTokenAcceptOffer'' (w_address buyer) [(''NFTokenSellOffer'', GStr (no_id ref))] (w_seed buyer)))))"

definition cand_NFTokenAcceptOffer :: candidate where
  "cand_NFTokenAcceptOffer = \<lparr>c_type = ''NFTokenAcceptOffer'', c_requires = [''NonFungibleTokensV1_1''],
     c_can = Some (\<lambda>g. 0 < NFTOfferTracker_Count (tr_nft_offers (g_tracker g))), c_build = \<lambda>_. NFTokenAcceptOffer\<rparr>"

definition NFTokenBurn :: "generator \<Rightarrow> tx rnd" where
  "NFTokenBurn g = rbind (NFTTracker_Pick (tr_nfts (g_tracker g))) (or_fail ''no tracked NFTokens to burn'' (\<lambda>ref.
     or_fail (''NFToken owner '' @ nf_owner ref @ '' not in pool'') (\<lambda>seed.
     rret (Tx_of ''NFTokenBurn'' (nf_owner ref) [(''NFTokenID'', GStr (nf_id ref))] seed)) (seedFor g (nf_owner ref))))"

definition cand_NFTokenBurn :: candidate where
  "cand_NFTokenBurn = \<lparr>c_type = ''NFTokenBurn'', c_requires = [''NonFungibleTokensV1_1''],
     c_can = Some (\<lambda>g. 0 < NFTTracker_Count (tr_nfts (g_tracker g))), c_build = \<lambda>_. NFTokenBurn\<rparr>"

definition NFTokenCancelOffer :: "generator \<Rightarrow> tx rnd" where
  "NFTokenCancelOffer g = rbind (NFTOfferTracker_Pick (tr_nft_offers (g_tracker g))) (or_fail ''no tracked NFToken offers to cancel'' (\<lambda>ref.
     or_fail (''NFToken offer owner '' @ no_owner ref @ '' not in pool'') (\<lambda>seed.
     rret (Tx_of ''NFTokenCancelOffer'' (no_owner ref) [(''NFTokenOffers'', GArr [GStr (no_id ref)])] seed)) (seedFor g (no_owner ref))))"

definition cand_NFTokenCancelOffer :: candidate where
  "cand_NFTokenCancelOffer = \<lparr>c_type = ''NFTokenCancelOffer'', c_requires = [''NonFungibleTokensV1_1''],
     c_can = Some (\<lambda>g. 0 < NFTOfferTracker_Count (tr_nft_offers (g_tracker g))), c_build = \<lambda>_. NFTokenCancelOffer\<rparr>"

definition NFTokenCreateOffer :: "generator \<Rightarrow> tx rnd" where
  "NFTokenCreateOffer g = rbind (NFTTracker_Pick (tr_nfts (g_tracker g))) (or_fail ''no tracked NFTokens to offer'' (\<lambda>ref.
     or_fail (''NFToken owner '' @ nf_owner ref @ '' not in pool'') (\<lambda>seed.
     rbind (xrp_drops 10 1) (\<lambda>amount.
     rret (Tx_of ''NFTokenCreateOffer'' (nf_owner ref) [(''NFTokenID'', GStr (nf_id ref)),
       (''Amount'', amount),
       (''Flags'', GU32 tfSellNFToken)] seed))) (seedFor g (nf_owner ref))))"

definition cand_NFTokenCreateOffer :: candidate where
  "cand_NFTokenCreateOffer = \<lparr>c_type = ''NFTokenCreateOffer'', c_requires = [''NonFungibleTokensV1_1''],
     c_can = Some (\<lambda>g. 0 < NFTTracker_Count (tr_nfts (g_tracker g))), c_build = \<lambda>_. NFTokenCreateOffer\<rparr>"

definition NFTokenMint :: "generator \<Rightarrow> tx rnd" where
  "NFTokenMint g = rbind (Pick (g_pool g)) (\<lambda>acct.
     rbind (IntN 10000) (\<lambda>taxon.
     rbind (randHexBytes 16) (\<lambda>h.
     rret (Tx_of ''NFTokenMint'' (w_address acct) [(''NFTokenTaxon'', GU32 (of_nat taxon)),
       (''Flags'', GU32 tfTransferable),
       (''URI'', GStr h)] (w_seed acct)))))"

definition cand_NFTokenMint :: candidate where
  "cand_NFTokenMint = \<lparr>c_type = ''NFTokenMint'', c_requires = [''NonFungibleTokensV1_1''],
     c_can = None, c_build = \<lambda>_. NFTokenMint\<rparr>"

definition NFTokenModify :: "generator \<Rightarrow> tx rnd" where
  "NFTokenModify g = rbind (NFTTracker_Pick (tr_nfts (g_tracker g))) (or_fail ''no tracked NFTokens to modify'' (\<lambda>ref.
     or_fail (''NFToken owner '' @ nf_owner ref @ '' not in pool'') (\<lambda>seed.
     rbind (randHexBytes 16) (\<lambda>h.
     rret (Tx_of ''NFTokenModify'' (nf_owner ref) [(''NFTokenID'', GStr (nf_id ref)),
       (''URI'', GStr h)] seed))) (seedFor g (nf_owner ref))))"

definition cand_NFTokenModify :: candidate where
  "cand_NFTokenModify = \<lparr>c_type = ''NFTokenModify'', c_requires = [''NonFungibleTokensV1_1'', ''DynamicNFT''],
     c_can = Some (\<lambda>g. 0 < NFTTracker_Count (tr_nfts (g_tracker g))), c_build = \<lambda>_. NFTokenModify\<rparr>"

definition OfferCreate :: "generator \<Rightarrow> tx rnd" where
  "OfferCreate g = rbind (PickTwoDistinct (g_pool g)) (\<lambda>(acct, issuer).
     rbind (xrp_drops 100 1) (\<lambda>takerPays.
     rbind (IntN (length trustSetCurrencies)) (\<lambda>c.
     rbind (IntN 1000) (\<lambda>i.
     rret (Tx_of ''OfferCreate'' (w_address acct) [(''TakerPays'', takerPays),
       (''TakerGets'', GMap [(''currency'', GStr (trustSetCurrencies ! c)), (''issuer'', GStr (w_address issuer)), (''value'', GStr (nat_dec (i + 1)))])] (w_seed acct))))))"

definition cand_OfferCreate :: candidate where
  "cand_OfferCreate = \<lparr>c_type = ''OfferCreate'', c_requires = [],
     c_can = None, c_build = \<lambda>_. OfferCreate\<rparr>"

definition OfferCancel :: "generator \<Rightarrow> tx rnd" where
  "OfferCancel g = rbind (OfferTracker_Pick (tr_offers (g_tracker g))) (or_fail ''no tracked offers to cancel'' (\<lambda>ref.
     or_fail (''offer owner '' @ of_owner ref @ '' not in pool'') (\<lambda>seed.
     rret (Tx_of ''OfferCancel'' (of_owner ref) [(''OfferSequence'', GU32 (of_seq ref))] seed)) (seedFor g (of_owner ref))))"

definition cand_OfferCancel :: candidate where
  "cand_OfferCancel = \<lparr>c_type = ''OfferCancel'', c_requires = [],
     c_can = Some (\<lambda>g. 0 < OfferTracker_Count (tr_offers (g_tracker g))), c_build = \<lambda>_. OfferCancel\<rparr>"

definition OracleDelete :: "generator \<Rightarrow> tx rnd" where
  "OracleDelete g = rbind (OracleTracker_Pick (tr_oracles (g_tracker g))) (or_fail ''no tracked oracles to delete'' (\<lambda>ref.
     or_fail (''oracle owner '' @ oc_owner ref @ '' not in pool'') (\<lambda>seed.
     rret (Tx_of ''OracleDelete'' (oc_owner ref) [(''OracleDocumentID'', GU32 (oc_doc ref))] seed)) (seedFor g (oc_owner ref))))"

definition cand_OracleDelete :: candidate where
  "cand_OracleDelete = \<lparr>c_type = ''OracleDelete'', c_requires = [''PriceOracle''],
     c_can = Some (\<lambda>g. 0 < OracleTracker_Count (tr_oracles (g_tracker g))), c_build = \<lambda>_. OracleDelete\<rparr>"

definition OracleSet :: "32 word \<Rightarrow> generator \<Rightarrow> tx rnd" where
  "OracleSet now g = rbind (Pick (g_pool g)) (\<lambda>acct.
     rbind (IntN 1000) (\<lambda>docID.
     rbind (IntN 100000) (\<lambda>i.
     rbind (randHexBytes 8) (\<lambda>provider.
     rbind (randHexBytes 8) (\<lambda>assetClass.
     rbind (IntN 6) (\<lambda>scale.
     rret (Tx_of ''OracleSet'' (w_address acct) [(''OracleDocumentID'', GU32 (of_nat docID)),
       (''Provider'', GStr provider),
       (''AssetClass'', GStr assetClass),
       (''LastUpdateTime'', GU32 now),
       (''PriceDataSeries'', GArr [GMap [(''PriceData'', GMap [(''BaseAsset'', GStr ''XRP''),
          (''QuoteAsset'', GStr ''USD''), (''AssetPrice'', GStr (nat_hex (i + 1))),
          (''Scale'', GU32 (of_nat scale))])]])] (w_seed acct))))))))"

definition cand_OracleSet :: candidate where
  "cand_OracleSet = \<lparr>c_type = ''OracleSet'', c_requires = [''PriceOracle''],
     c_can = None, c_build = \<lambda>now. OracleSet now\<rparr>"

definition PaymentChannelClaim :: "generator \<Rightarrow> tx rnd" where
  "PaymentChannelClaim g = rbind (ChannelTracker_Pick (tr_channels (g_tracker g))) (or_fail ''no tracked channels to claim'' (\<lambda>ref.
     or_fail (''channel source '' @ ch_source ref @ '' not in pool'') (\<lambda>seed.
     rret (Tx_of ''PaymentChannelClaim'' (ch_source ref) [(''Channel'', GStr (ch_id ref)),
       (''Balance'', GStr ''1000000'')] seed)) (seedFor g (ch_source ref))))"

definition cand_PaymentChannelClaim :: candidate where
  "cand_PaymentChannelClaim = \<lparr>c_type = ''PaymentChannelClaim'', c_requires = [],
     c_can = Some (\<lambda>g. 0 < ChannelTracker_Count (tr_channels (g_tracker g))), c_build = \<lambda>_. PaymentChannelClaim\<rparr>"

definition PaymentChannelCreate :: "generator \<Rightarrow> tx rnd" where
  "PaymentChannelCreate g = rbind (PickTwoDistinct (g_pool g)) (\<lambda>(src, dst).
     rbind (xrp_drops 41 10) (\<lambda>amount.
     rbind (IntN 86400) (\<lambda>delay.
     rret (Tx_of ''PaymentChannelCreate'' (w_address src) [(''Destination'', GStr (w_address dst)),
       (''Amount'', amount),
       (''SettleDelay'', GU32 (of_nat (delay + 1))),
       (''PublicKey'', GStr (w_pubkey src))] (w_seed src)))))"

definition cand_PaymentChannelCreate :: candidate where
  "cand_PaymentChannelCreate = \<lparr>c_type = ''PaymentChannelCreate'', c_requires = [],
     c_can = None, c_build = \<lambda>_. PaymentChannelCreate\<rparr>"

definition PaymentChannelFund :: "generator \<Rightarrow> tx rnd" where
  "PaymentChannelFund g = rbind (ChannelTracker_Pick (tr_channels (g_tracker g))) (or_fail ''no tracked channels to fund'' (\<lambda>ref.
     or_fail (''channel source '' @ ch_source ref @ '' not in pool'') (\<lambda>seed.
     rbind (xrp_drops 10 1) (\<lambda>amount.
     rret (Tx_of ''PaymentChannelFund'' (ch_source ref) [(''Channel'', GStr (ch_id ref)),
       (''Amount'', amount)] seed))) (seedFor g (ch_source ref))))"

definition cand_PaymentChannelFund :: candidate where
  "cand_PaymentChannelFund = \<lparr>c_type = ''PaymentChannelFund'', c_requires = [],
     c_can = Some (\<lambda>g. 0 < ChannelTracker_Count (tr_channels (g_tracker g))), c_build = \<lambda>_. PaymentChannelFund\<rparr>"

definition Payment :: "generator \<Rightarrow> tx rnd" where
  "Payment g = rbind (PickTwoDistinct (g_pool g)) (\<lambda>(payer, payee).
     rbind (xrp_drops 100 1) (\<lambda>amount.
     rret (Tx_of ''Payment'' (w_address payer) [(''Destination'', GStr (w_address payee)),
       (''Amount'', amount)] (w_seed payer))))"

definition cand_Payment :: candidate where
  "cand_Payment = \<lparr>c_type = ''Payment'', c_requires = [],
     c_can = None, c_build = \<lambda>_. Payment\<rparr>"

definition PermissionedDomainDelete :: "generator \<Rightarrow> tx rnd" where
  "PermissionedDomainDelete g = rbind (DomainTracker_Pick (tr_domains (g_tracker g))) (or_fail ''no tracked domains to delete'' (\<lambda>ref.
     or_fail (''domain owner '' @ dm_owner ref @ '' not in pool'') (\<lambda>seed.
     rret (Tx_of ''PermissionedDomainDelete'' (dm_owner ref) [(''DomainID'', GStr (dm_id ref))] seed)) (seedFor g (dm_owner ref))))"

definition cand_PermissionedDomainDelete :: candidate where
  "cand_PermissionedDomainDelete = \<lparr>c_type = ''PermissionedDomainDelete'', c_requires = [''PermissionedDomains''],
     c_can = Some (\<lambda>g. 0 < DomainTracker_Count (tr_domains (g_tracker g))), c_build = \<lambda>_. PermissionedDomainDelete\<rparr>"

definition PermissionedDomainSet :: "generator \<Rightarrow> tx rnd" where
  "PermissionedDomainSet g = rbind (PickTwoDistinct (g_pool g)) (\<lambda>(owner, issuer).
     rbind (randHexBytes 8) (\<lambda>h.
     rret (Tx_of ''PermissionedDomainSet'' (w_address owner) [(''AcceptedCredentials'', GArr [GMap [(''Credential'', GMap [(''Issuer'', GStr (w_address issuer)),
          (''CredentialType'', GStr h)])]])] (w_seed owner))))"

definition cand_PermissionedDomainSet :: candidate where
  "cand_PermissionedDomainSet = \<lparr>c_type = ''PermissionedDomainSet'', c_requires = [''PermissionedDomains''],
     c_can = None, c_build = \<lambda>_. PermissionedDomainSet\<rparr>"

definition SetRegularKey :: "generator \<Rightarrow> tx rnd" where
  "SetRegularKey g = rbind (Pick (g_pool g)) (\<lambda>acct.
     rbind (IntN 2) (\<lambda>coin.
     if coin = 0 then rbind (pick_until (g_pool g) (w_address acct)) (\<lambda>peer.
       rret (Tx_of ''SetRegularKey'' (w_address acct) [(''RegularKey'', GStr (w_address peer))] (w_seed acct)))
     else rret (Tx_of ''SetRegularKey'' (w_address acct) [] (w_seed acct))))"

definition cand_SetRegularKey :: candidate where
  "cand_SetRegularKey = \<lparr>c_type = ''SetRegularKey'', c_requires = [],
     c_can = None, c_build = \<lambda>_. SetRegularKey\<rparr>"

text \<open>
  The loop of \<open>SignerListSet\<close>: draw a wallet, skip it when it is already used, else draw
  its weight. Every round shortens the tape.
\<close>

definition signer_weight_entry :: "string \<Rightarrow> 32 word \<Rightarrow> go_value" where
  "signer_weight_entry a weight =
     GMap [(''SignerEntry'', GMap [(''Account'', GStr a), (''SignerWeight'', GU32 weight)])]"

function signer_loop ::
    "pool \<Rightarrow> nat \<Rightarrow> string list \<Rightarrow> (string \<times> 32 word) list \<Rightarrow> 32 word
      \<Rightarrow> ((string \<times> 32 word) list \<times> 32 word) rnd" where
  "signer_loop p n used entries quorum r =
     (if n \<le> length entries then (Done (entries, quorum), r)
      else case Pick p r of
        (Done signer, r1) \<Rightarrow>
          if w_address signer \<in> set used then signer_loop p n used entries quorum r1
          else (case IntN 3 r1 of
              (Done i, r2) \<Rightarrow>
                (let weight = of_nat (i + 1)
                 in signer_loop p n (w_address signer # used) (entries @ [(w_address signer, weight)])
                      (quorum + weight) r2)
            | (Failed e, r2) \<Rightarrow> (Failed e, r2)
            | (Panicked e, r2) \<Rightarrow> (Panicked e, r2)
            | (Starved, r2) \<Rightarrow> (Starved, r2))
      | (Failed e, r1) \<Rightarrow> (Failed e, r1)
      | (Panicked e, r1) \<Rightarrow> (Panicked e, r1)
      | (Starved, r1) \<Rightarrow> (Starved, r1))"
  by pat_completeness auto
termination
  by (relation "measure (\<lambda>(p, n, used, entries, quorum, r). length r)")
     (auto dest!: Pick_shorter [OF sym] IntN_shorter [OF sym])

declare signer_loop.simps [simp del]

definition SignerListSet :: "generator \<Rightarrow> tx rnd" where
  "SignerListSet g = rbind (Pick (g_pool g)) (\<lambda>acct.
     rbind (IntN 3) (\<lambda>k.
     rbind (signer_loop (g_pool g) (k + 1) [w_address acct] [] 0) (\<lambda>(entries, quorum).
     rret (Tx_of ''SignerListSet'' (w_address acct)
       [(''SignerQuorum'', GU32 quorum),
        (''SignerEntries'', GArr (map (\<lambda>(a, weight). signer_weight_entry a weight) entries))]
       (w_seed acct)))))"

definition cand_SignerListSet :: candidate where
  "cand_SignerListSet = \<lparr>c_type = ''SignerListSet'', c_requires = [],
     c_can = None, c_build = \<lambda>_. SignerListSet\<rparr>"

definition TicketCreate :: "generator \<Rightarrow> tx rnd" where
  "TicketCreate g = rbind (Pick (g_pool g)) (\<lambda>acct.
     rbind (IntN 5) (\<lambda>i.
     rret (Tx_of ''TicketCreate'' (w_address acct) [(''TicketCount'', GU32 (of_nat (i + 1)))] (w_seed acct))))"

definition cand_TicketCreate :: candidate where
  "cand_TicketCreate = \<lparr>c_type = ''TicketCreate'', c_requires = [],
     c_can = None, c_build = \<lambda>_. TicketCreate\<rparr>"

definition TrustSet :: "generator \<Rightarrow> tx rnd" where
  "TrustSet g = rbind (PickTwoDistinct (g_pool g)) (\<lambda>(acct, issuer).
     rbind (IntN (length trustSetCurrencies)) (\<lambda>c.
     rbind (IntN 10000) (\<lambda>i.
     rret (Tx_of ''TrustSet'' (w_address acct) [(''LimitAmount'', GMap [(''currency'', GStr (trustSetCurrencies ! c)), (''issuer'', GStr (w_address issuer)), (''value'', GStr (nat_dec (i + 1)))])] (w_seed acct)))))"

definition cand_TrustSet :: candidate where
  "cand_TrustSet = \<lparr>c_type = ''TrustSet'', c_requires = [],
     c_can = None, c_build = \<lambda>_. TrustSet\<rparr>"

section \<open>Every builder signs with the account's own seed\<close>

lemmas ref_intro = amms.builds_ref checks.builds_ref credentials.builds_ref dids.builds_ref
  escrows.builds_ref mpts.builds_ref nft_offers.builds_ref nfts.builds_ref offers.builds_ref
  oracles.builds_ref channels.builds_ref domains.builds_ref

lemma constants_nonempty [simp]: "asfFlags \<noteq> []" "trustSetCurrencies \<noteq> []"
  by (simp_all add: asfFlags_def trustSetCurrencies_def)

lemma builds_AccountDelete: "gen_ok g \<Longrightarrow> builds g ''AccountDelete'' (AccountDelete g)"
  unfolding AccountDelete_def by (intro build_intro ref_intro) auto

lemma builds_AccountSet: "gen_ok g \<Longrightarrow> builds g ''AccountSet'' (AccountSet g)"
  unfolding AccountSet_def by (intro build_intro ref_intro) auto

lemma builds_AMMBid: "gen_ok g \<Longrightarrow> builds g ''AMMBid'' (AMMBid g)"
  unfolding AMMBid_def by (intro build_intro ref_intro) auto

lemma builds_AMMClawback: "gen_ok g \<Longrightarrow> builds g ''AMMClawback'' (AMMClawback g)"
  unfolding AMMClawback_def by (intro build_intro ref_intro) auto

lemma builds_AMMCreate: "gen_ok g \<Longrightarrow> builds g ''AMMCreate'' (AMMCreate g)"
  unfolding AMMCreate_def by (intro build_intro ref_intro) auto

lemma builds_AMMDelete: "gen_ok g \<Longrightarrow> builds g ''AMMDelete'' (AMMDelete g)"
  unfolding AMMDelete_def by (intro build_intro ref_intro) auto

lemma builds_AMMDeposit: "gen_ok g \<Longrightarrow> builds g ''AMMDeposit'' (AMMDeposit g)"
  unfolding AMMDeposit_def by (intro build_intro ref_intro) auto

lemma builds_AMMVote: "gen_ok g \<Longrightarrow> builds g ''AMMVote'' (AMMVote g)"
  unfolding AMMVote_def by (intro build_intro ref_intro) auto

lemma builds_AMMWithdraw: "gen_ok g \<Longrightarrow> builds g ''AMMWithdraw'' (AMMWithdraw g)"
  unfolding AMMWithdraw_def by (intro build_intro ref_intro) auto

lemma builds_CheckCancel: "gen_ok g \<Longrightarrow> builds g ''CheckCancel'' (CheckCancel g)"
  unfolding CheckCancel_def by (intro build_intro ref_intro) auto

lemma builds_CheckCash: "gen_ok g \<Longrightarrow> builds g ''CheckCash'' (CheckCash g)"
  unfolding CheckCash_def by (intro build_intro ref_intro) auto

lemma builds_CheckCreate: "gen_ok g \<Longrightarrow> builds g ''CheckCreate'' (CheckCreate g)"
  unfolding CheckCreate_def by (intro build_intro ref_intro) auto

lemma builds_Clawback: "gen_ok g \<Longrightarrow> builds g ''Clawback'' (Clawback g)"
  unfolding Clawback_def by (intro build_intro ref_intro) auto

lemma builds_CredentialAccept: "gen_ok g \<Longrightarrow> builds g ''CredentialAccept'' (CredentialAccept g)"
  unfolding CredentialAccept_def by (intro build_intro ref_intro) auto

lemma builds_CredentialCreate: "gen_ok g \<Longrightarrow> builds g ''CredentialCreate'' (CredentialCreate g)"
  unfolding CredentialCreate_def by (intro build_intro ref_intro) auto

lemma builds_CredentialDelete: "gen_ok g \<Longrightarrow> builds g ''CredentialDelete'' (CredentialDelete g)"
  unfolding CredentialDelete_def by (intro build_intro ref_intro) auto

lemma builds_DepositPreauth: "gen_ok g \<Longrightarrow> builds g ''DepositPreauth'' (DepositPreauth g)"
  unfolding DepositPreauth_def by (intro build_intro ref_intro) auto

lemma builds_DIDDelete: "gen_ok g \<Longrightarrow> builds g ''DIDDelete'' (DIDDelete g)"
  unfolding DIDDelete_def by (intro build_intro ref_intro) auto

lemma builds_DIDSet: "gen_ok g \<Longrightarrow> builds g ''DIDSet'' (DIDSet g)"
  unfolding DIDSet_def by (intro build_intro ref_intro) auto

lemma builds_EscrowCreate: "gen_ok g \<Longrightarrow> builds g ''EscrowCreate'' (EscrowCreate g)"
  unfolding EscrowCreate_def by (intro build_intro ref_intro) auto

lemma builds_EscrowFinish: "gen_ok g \<Longrightarrow> builds g ''EscrowFinish'' (EscrowFinish g)"
  unfolding EscrowFinish_def by (intro build_intro ref_intro) auto

lemma builds_LedgerStateFix: "gen_ok g \<Longrightarrow> builds g ''LedgerStateFix'' (LedgerStateFix g)"
  unfolding LedgerStateFix_def by (intro build_intro ref_intro) auto

lemma builds_MPTokenAuthorize: "gen_ok g \<Longrightarrow> builds g ''MPTokenAuthorize'' (MPTokenAuthorize g)"
  unfolding MPTokenAuthorize_def by (intro build_intro ref_intro) auto

lemma builds_MPTokenIssuanceCreate: "gen_ok g \<Longrightarrow> builds g ''MPTokenIssuanceCreate'' (MPTokenIssuanceCreate g)"
  unfolding MPTokenIssuanceCreate_def by (intro build_intro ref_intro) auto

lemma builds_MPTokenIssuanceDestroy: "gen_ok g \<Longrightarrow> builds g ''MPTokenIssuanceDestroy'' (MPTokenIssuanceDestroy g)"
  unfolding MPTokenIssuanceDestroy_def by (intro build_intro ref_intro) auto

lemma builds_MPTokenIssuanceSet: "gen_ok g \<Longrightarrow> builds g ''MPTokenIssuanceSet'' (MPTokenIssuanceSet g)"
  unfolding MPTokenIssuanceSet_def by (intro build_intro ref_intro) auto

lemma builds_NFTokenAcceptOffer: "gen_ok g \<Longrightarrow> builds g ''NFTokenAcceptOffer'' (NFTokenAcceptOffer g)"
  unfolding NFTokenAcceptOffer_def by (intro build_intro ref_intro) auto

lemma builds_NFTokenBurn: "gen_ok g \<Longrightarrow> builds g ''NFTokenBurn'' (NFTokenBurn g)"
  unfolding NFTokenBurn_def by (intro build_intro ref_intro) auto

lemma builds_NFTokenCancelOffer: "gen_ok g \<Longrightarrow> builds g ''NFTokenCancelOffer'' (NFTokenCancelOffer g)"
  unfolding NFTokenCancelOffer_def by (intro build_intro ref_intro) auto

lemma builds_NFTokenCreateOffer: "gen_ok g \<Longrightarrow> builds g ''NFTokenCreateOffer'' (NFTokenCreateOffer g)"
  unfolding NFTokenCreateOffer_def by (intro build_intro ref_intro) auto

lemma builds_NFTokenMint: "gen_ok g \<Longrightarrow> builds g ''NFTokenMint'' (NFTokenMint g)"
  unfolding NFTokenMint_def by (intro build_intro ref_intro) auto

lemma builds_NFTokenModify: "gen_ok g \<Longrightarrow> builds g ''NFTokenModify'' (NFTokenModify g)"
  unfolding NFTokenModify_def by (intro build_intro ref_intro) auto

lemma builds_OfferCreate: "gen_ok g \<Longrightarrow> builds g ''OfferCreate'' (OfferCreate g)"
  unfolding OfferCreate_def by (intro build_intro ref_intro) auto

lemma builds_OfferCancel: "gen_ok g \<Longrightarrow> builds g ''OfferCancel'' (OfferCancel g)"
  unfolding OfferCancel_def by (intro build_intro ref_intro) auto

lemma builds_OracleDelete: "gen_ok g \<Longrightarrow> builds g ''OracleDelete'' (OracleDelete g)"
  unfolding OracleDelete_def by (intro build_intro ref_intro) auto

lemma builds_OracleSet: "gen_ok g \<Longrightarrow> builds g ''OracleSet'' (OracleSet now g)"
  unfolding OracleSet_def by (intro build_intro ref_intro) auto

lemma builds_PaymentChannelClaim: "gen_ok g \<Longrightarrow> builds g ''PaymentChannelClaim'' (PaymentChannelClaim g)"
  unfolding PaymentChannelClaim_def by (intro build_intro ref_intro) auto

lemma builds_PaymentChannelCreate: "gen_ok g \<Longrightarrow> builds g ''PaymentChannelCreate'' (PaymentChannelCreate g)"
  unfolding PaymentChannelCreate_def by (intro build_intro ref_intro) auto

lemma builds_PaymentChannelFund: "gen_ok g \<Longrightarrow> builds g ''PaymentChannelFund'' (PaymentChannelFund g)"
  unfolding PaymentChannelFund_def by (intro build_intro ref_intro) auto

lemma builds_Payment: "gen_ok g \<Longrightarrow> builds g ''Payment'' (Payment g)"
  unfolding Payment_def by (intro build_intro ref_intro) auto

lemma builds_PermissionedDomainDelete: "gen_ok g \<Longrightarrow> builds g ''PermissionedDomainDelete'' (PermissionedDomainDelete g)"
  unfolding PermissionedDomainDelete_def by (intro build_intro ref_intro) auto

lemma builds_PermissionedDomainSet: "gen_ok g \<Longrightarrow> builds g ''PermissionedDomainSet'' (PermissionedDomainSet g)"
  unfolding PermissionedDomainSet_def by (intro build_intro ref_intro) auto

lemma builds_SetRegularKey: "gen_ok g \<Longrightarrow> builds g ''SetRegularKey'' (SetRegularKey g)"
  unfolding SetRegularKey_def by (intro build_intro ref_intro) auto

lemma builds_TicketCreate: "gen_ok g \<Longrightarrow> builds g ''TicketCreate'' (TicketCreate g)"
  unfolding TicketCreate_def by (intro build_intro ref_intro) auto

lemma builds_TrustSet: "gen_ok g \<Longrightarrow> builds g ''TrustSet'' (TrustSet g)"
  unfolding TrustSet_def by (intro build_intro ref_intro) auto

section \<open>\<open>EscrowCancel\<close>\<close>

lemma owner_seed_cases:
  "owner_seed p a \<noteq> [] \<Longrightarrow> \<exists>w \<in> set p. w_address w = a \<and> w_seed w = owner_seed p a"
proof -
  assume seed: "owner_seed p a \<noteq> []"
  then obtain w where w: "find (\<lambda>w. w_address w = a) p = Some w"
    by (cases "find (\<lambda>w. w_address w = a) p") (auto simp: owner_seed_def)
  then have "w \<in> set p" "w_address w = a" by (auto simp: find_Some_iff)
  with w show ?thesis by (auto simp: owner_seed_def)
qed

lemma rspec_EscrowCancel:
  assumes "gen_ok g"
  shows "rspec (EscrowCancel g) (\<lambda>t. TransactionType t = ''EscrowCancel''
    \<and> (\<exists>w \<in> set (g_pool g). tx_secret t = w_seed w)
    \<and> (\<exists>ref \<in> set (tr_escrows (g_tracker g)). map_of (tx_fields t) ''Account'' = Some (GStr (es_owner ref))
         \<and> (owner_seed (g_pool g) (es_owner ref) \<noteq> [] \<longrightarrow> signed_by_account g t))) (\<lambda>_. True)"
  unfolding EscrowCancel_def
proof (rule escrows.pick_bind)
  fix ref
  assume ref: "ref \<in> set (tr_escrows (g_tracker g))"
  have pool: "g_pool g \<noteq> []" using assms by (auto simp: gen_ok_def)
  show "rspec (or_fail ''no tracked escrows to cancel'' (\<lambda>ref.
        let owner = es_owner ref; seed = owner_seed (g_pool g) owner;
            result = \<lambda>s. rret (Tx_of ''EscrowCancel'' owner
              [(''Owner'', GStr owner), (''OfferSequence'', GU32 (es_seq ref))] s)
        in if seed = [] then rbind (Pick (g_pool g)) (\<lambda>submitter. result (w_seed submitter))
           else result seed) (Some ref))
    (\<lambda>t. TransactionType t = ''EscrowCancel''
    \<and> (\<exists>w \<in> set (g_pool g). tx_secret t = w_seed w)
    \<and> (\<exists>ref \<in> set (tr_escrows (g_tracker g)). map_of (tx_fields t) ''Account'' = Some (GStr (es_owner ref))
         \<and> (owner_seed (g_pool g) (es_owner ref) \<noteq> [] \<longrightarrow> signed_by_account g t))) (\<lambda>_. True)"
  proof (cases "owner_seed (g_pool g) (es_owner ref) = []")
    case True
    then show ?thesis
      using ref pool by (auto simp: or_fail_def Let_def Tx_of_def TransactionType_def
          intro!: rspec_rbind [OF rspec_Pick] rspec_rret)
  next
    case False
    then have owner: "\<exists>w \<in> set (g_pool g). es_owner ref = w_address w
        \<and> owner_seed (g_pool g) (es_owner ref) = w_seed w" using owner_seed_cases by metis
    have "signed_by_account g (Tx_of ''EscrowCancel'' (es_owner ref) rest (owner_seed (g_pool g) (es_owner ref)))"
      for rest using owner by (auto simp: signed_by_account_def Tx_of_def)
    then show ?thesis
      unfolding or_fail_def Let_def option.case if_not_P [OF False]
      by (intro rspec_rret conjI bexI [of _ ref]) (use owner ref in \<open>auto simp: Tx_of_def TransactionType_def\<close>)
  qed
qed (auto simp: or_fail_def intro: rspec_rfail)

section \<open>\<open>SignerListSet\<close>\<close>

definition signers_ok :: "pool \<Rightarrow> nat \<Rightarrow> string list \<Rightarrow> (string \<times> 32 word) list \<Rightarrow> 32 word \<Rightarrow> bool" where
  "signers_ok p n used entries quorum \<longleftrightarrow>
     distinct (map fst entries) \<and> set (map fst entries) \<subseteq> set used \<inter> w_address ` set p
     \<and> length entries \<le> n \<and> quorum = sum_list (map snd entries)
     \<and> (\<forall>w \<in> set (map snd entries). w \<in> {1, 2, 3})"

lemma signer_loop_spec:
  assumes "p \<noteq> []"
  shows "signers_ok p n used entries quorum \<Longrightarrow> a \<in> set used \<Longrightarrow> a \<notin> set (map fst entries) \<Longrightarrow>
   case fst (signer_loop p n used entries quorum r) of
     Done (es, q) \<Rightarrow> length es = n \<and> a \<notin> set (map fst es) \<and> (\<exists>u. signers_ok p n u es q)
   | Failed e \<Rightarrow> False | Panicked e \<Rightarrow> False | Starved \<Rightarrow> True"
proof (induction r arbitrary: used entries quorum rule: measure_induct_rule [of length])
  case (less r)
  obtain x r1 where pick: "Pick p r = (x, r1)" by fastforce
  have post: "case x of Done w \<Rightarrow> w \<in> set p | Failed e \<Rightarrow> False | Panicked _ \<Rightarrow> False | Starved \<Rightarrow> True"
    using rspec_Pick [OF assms, of "\<lambda>_. False"] pick unfolding rspec_def by (metis fst_conv)
  show ?case
  proof (cases "n \<le> length entries")
    case True
    with less.prems show ?thesis
      by (subst signer_loop.simps) (auto simp: signers_ok_def)
  next
    case more: False
    show ?thesis
    proof (cases x)
      case (Done w)
      have sh: "length r1 < length r" using pick Done Pick_shorter by blast
      show ?thesis
      proof (cases "w_address w \<in> set used")
        case True
        with less.IH [OF sh less.prems] more pick Done show ?thesis
          by (subst signer_loop.simps) simp
      next
        case fresh: False
        obtain y r2 where draw: "IntN 3 r1 = (y, r2)" by fastforce
        have ipost: "case y of Done i \<Rightarrow> i < 3 | Failed e \<Rightarrow> False | Panicked _ \<Rightarrow> False | Starved \<Rightarrow> True"
          using rspec_IntN [of 3 "\<lambda>_. False"] draw unfolding rspec_def by (metis fst_conv zero_less_numeral)
        show ?thesis
        proof (cases y)
          case (Done i)
          have sh2: "length r2 < length r" using draw Done IntN_shorter sh by fastforce
          let ?w = "of_nat (i + 1) :: 32 word"
          have "i \<in> {0, 1, 2}" using ipost Done by auto
          then have w3: "?w \<in> {1, 2, 3}" by auto
          have ok: "signers_ok p n (w_address w # used) (entries @ [(w_address w, ?w)]) (quorum + ?w)"
            using less.prems fresh w3 more post \<open>x = Done w\<close>
            by (auto simp: signers_ok_def)
          have na: "a \<notin> set (map fst (entries @ [(w_address w, ?w)]))"
            using less.prems(2,3) fresh by auto
          from less.IH [OF sh2 ok _ na] less.prems(2) more pick draw fresh Done \<open>x = Done w\<close>
          show ?thesis by (subst signer_loop.simps) (simp add: Let_def)
        qed (use ipost draw more pick fresh \<open>x = Done w\<close> in \<open>subst signer_loop.simps, simp\<close>)+
      qed
    qed (use post pick more in \<open>subst signer_loop.simps, simp\<close>)+
  qed
qed

text \<open>With fewer other addresses than signers asked for, the loop never ends.\<close>

lemma signer_loop_starves:
  assumes "p \<noteq> []"
  shows "length entries + card (w_address ` set p - set used) < n \<Longrightarrow>
    fst (signer_loop p n used entries quorum r) = Starved"
proof (induction r arbitrary: used entries quorum rule: measure_induct_rule [of length])
  case (less r)
  obtain x r1 where pick: "Pick p r = (x, r1)" by fastforce
  have post: "case x of Done w \<Rightarrow> w \<in> set p | Failed e \<Rightarrow> False | Panicked _ \<Rightarrow> False | Starved \<Rightarrow> True"
    using rspec_Pick [OF assms, of "\<lambda>_. False"] pick unfolding rspec_def by (metis fst_conv)
  have more: "\<not> n \<le> length entries" using less.prems by simp
  show ?case
  proof (cases x)
    case (Done w)
    have sh: "length r1 < length r" using pick Done Pick_shorter by blast
    show ?thesis
    proof (cases "w_address w \<in> set used")
      case True
      with less.IH [OF sh less.prems] more pick Done show ?thesis
        by (subst signer_loop.simps) simp
    next
      case fresh: False
      obtain y r2 where draw: "IntN 3 r1 = (y, r2)" by fastforce
      have ipost: "case y of Done i \<Rightarrow> i < 3 | Failed e \<Rightarrow> False | Panicked _ \<Rightarrow> False | Starved \<Rightarrow> True"
        using rspec_IntN [of 3 "\<lambda>_. False"] draw unfolding rspec_def by (metis fst_conv zero_less_numeral)
      show ?thesis
      proof (cases y)
        case (Done i)
        have sh2: "length r2 < length r" using draw Done IntN_shorter sh by fastforce
        have mem: "w_address w \<in> w_address ` set p - set used"
          using post \<open>x = Done w\<close> fresh by simp
        have "w_address ` set p - set (w_address w # used) = (w_address ` set p - set used) - {w_address w}"
          by auto
        then have "card (w_address ` set p - set (w_address w # used))
            = card (w_address ` set p - set used) - 1"
          using mem by simp
        moreover have "0 < card (w_address ` set p - set used)"
          using mem by (metis card_gt_0_iff empty_iff finite_Diff finite_imageI finite_set)
        ultimately have lt: "length (entries @ [(w_address w, of_nat (i + 1))])
            + card (w_address ` set p - set (w_address w # used)) < n"
          using less.prems by simp
        from less.IH [OF sh2 lt] more pick draw fresh Done \<open>x = Done w\<close>
        show ?thesis by (subst signer_loop.simps) (simp add: Let_def)
      qed (use ipost draw more pick fresh \<open>x = Done w\<close> in \<open>subst signer_loop.simps, simp\<close>)+
    qed
  qed (use post pick more in \<open>subst signer_loop.simps, simp\<close>)+
qed

lemma builds_SignerListSet: "gen_ok g \<Longrightarrow> builds g ''SignerListSet'' (SignerListSet g)"
  unfolding SignerListSet_def
proof (intro builds_Pick builds_IntN)
  fix acct k
  assume g: "gen_ok g" and a: "acct \<in> set (g_pool g)"
  have pool: "g_pool g \<noteq> []" using g by (auto simp: gen_ok_def)
  have "rspec (signer_loop (g_pool g) (k + 1) [w_address acct] [] 0) (\<lambda>_. True) (\<lambda>_. True)"
    unfolding rspec_def
  proof
    fix r
    show "case fst (signer_loop (g_pool g) (k + 1) [w_address acct] [] 0 r) of
        Done x \<Rightarrow> True | Failed e \<Rightarrow> True | Panicked _ \<Rightarrow> False | Starved \<Rightarrow> True"
      using signer_loop_spec [of "g_pool g" "k + 1" "[w_address acct]" "[]" 0 "w_address acct" r] pool
      by (auto simp: signers_ok_def split: outcome.splits)
  qed
  then show "builds g ''SignerListSet''
    (rbind (signer_loop (g_pool g) (k + 1) [w_address acct] [] 0) (\<lambda>(entries, quorum).
      rret (Tx_of ''SignerListSet'' (w_address acct)
       [(''SignerQuorum'', GU32 quorum),
        (''SignerEntries'', GArr (map (\<lambda>(a, weight). signer_weight_entry a weight) entries))]
       (w_seed acct))))"
    by (rule builds_any) (use a in \<open>auto intro: builds_rret split: prod.splits\<close>)
qed auto

end
