(* ===== verification/Selection.thy ===== *)
theory Selection
  imports Builders
begin

text \<open>
  Choosing the next transaction (\<open>generator/select.go\<close>, \<open>generator/amendments.go\<close>) and
  feeding the trackers after a success (\<open>generator/record.go\<close>).
\<close>

section \<open>The registry\<close>

type_synonym registry = "candidate list"

text \<open>\<open>Register\<close>: \<open>None\<close> is the panic on a duplicate type.\<close>

definition Register :: "candidate \<Rightarrow> registry \<Rightarrow> registry option" where
  "Register c reg = (if c_type c \<in> c_type ` set reg then None else Some (reg @ [c]))"

fun run_inits :: "candidate list \<Rightarrow> registry \<Rightarrow> registry option" where
  "run_inits [] reg = Some reg"
| "run_inits (c # cs) reg = (case Register c reg of None \<Rightarrow> None | Some reg' \<Rightarrow> run_inits cs reg')"

text \<open>The \<open>init\<close> functions, in the order of the file names.\<close>

definition all_inits :: "candidate list" where
  "all_inits =
    [cand_AccountDelete, cand_AccountSet, cand_AMMBid, cand_AMMClawback, cand_AMMCreate,
     cand_AMMDelete, cand_AMMDeposit, cand_AMMVote, cand_AMMWithdraw, cand_CheckCancel,
     cand_CheckCash, cand_CheckCreate, cand_Clawback, cand_CredentialAccept,
     cand_CredentialCreate, cand_CredentialDelete, cand_DepositPreauth, cand_DIDDelete,
     cand_DIDSet, cand_EscrowCancel, cand_EscrowCreate, cand_EscrowFinish,
     cand_LedgerStateFix, cand_MPTokenAuthorize, cand_MPTokenIssuanceCreate,
     cand_MPTokenIssuanceDestroy, cand_MPTokenIssuanceSet, cand_NFTokenAcceptOffer,
     cand_NFTokenBurn, cand_NFTokenCancelOffer, cand_NFTokenCreateOffer, cand_NFTokenMint,
     cand_NFTokenModify, cand_OfferCreate, cand_OfferCancel, cand_OracleDelete,
     cand_OracleSet, cand_PaymentChannelClaim, cand_PaymentChannelCreate,
     cand_PaymentChannelFund, cand_Payment, cand_PermissionedDomainDelete,
     cand_PermissionedDomainSet, cand_SetRegularKey, cand_SignerListSet, cand_TicketCreate,
     cand_TrustSet]"

definition allIn :: "string set \<Rightarrow> string list \<Rightarrow> bool" where
  "allIn S keys = list_all (\<lambda>k. k \<in> S) keys"

definition eligible :: "registry \<Rightarrow> generator \<Rightarrow> string list \<Rightarrow> candidate list" where
  "eligible reg g enabled = filter (\<lambda>c. allIn (set enabled) (c_requires c)
       \<and> (case c_can c of None \<Rightarrow> True | Some can \<Rightarrow> can g)) (sort_key c_type reg)"

definition PickTx :: "registry \<Rightarrow> 32 word \<Rightarrow> generator \<Rightarrow> string list \<Rightarrow> tx rnd" where
  "PickTx reg now g enabled =
     (let el = eligible reg g enabled
      in if el = [] then rfail ''no eligible tx types for current amendment set''
         else rbind (IntN (length el)) (\<lambda>i. c_build (el ! i) now g))"

text \<open>\<open>DiscoverEnabledAmendments\<close>; the order of the result is the iteration order of a map.\<close>

definition dec_feature :: "go_value \<Rightarrow> (string \<times> bool) go_result" where
  "dec_feature v = ebind (dec_obj (Some v)) (\<lambda>m.
     ebind (dec_str (map_of m ''name'')) (\<lambda>n.
     ebind (dec_bool (map_of m ''enabled'')) (\<lambda>e.
     ebind (dec_bool (map_of m ''supported'')) (\<lambda>_. Inr (n, e)))))"

definition DiscoverEnabledAmendments :: "'s caller \<Rightarrow> 's \<Rightarrow> string list go_result \<times> 's" where
  "DiscoverEnabledAmendments call s = (case call ''feature'' [] s of
      (Inl e, s') \<Rightarrow> (Inl (''feature RPC: '' @ e), s')
    | (Inr rep, s') \<Rightarrow>
        (ewrap ''parse feature response: ''
          (ebind (dec_top (doc rep)) (\<lambda>top.
           ebind (dec_obj (map_of top ''features'')) (\<lambda>m.
           ebind (emap dec_feature (map snd m)) (\<lambda>fs. Inr (map fst (filter snd fs)))))), s'))"

section \<open>Recording successes\<close>

definition fieldString :: "fields \<Rightarrow> string \<Rightarrow> string" where
  "fieldString fs key = (case as_string (map_of fs key) of Some s \<Rightarrow> s | None \<Rightarrow> [])"

text \<open>Go leaves the conversion of an out-of-range float to the platform; it wraps here.\<close>

definition fieldUint32 :: "fields \<Rightarrow> string \<Rightarrow> 32 word option" where
  "fieldUint32 fs key = (case map_of fs key of
      Some (GU32 v) \<Rightarrow> Some v
    | Some (GInt i) \<Rightarrow> Some (word_of_int i)
    | Some (GFloat q) \<Rightarrow> Some (word_of_int (if q < 0 then - floor (- q) else floor q))
    | _ \<Rightarrow> None)"

definition fieldIOU :: "fields \<Rightarrow> string \<Rightarrow> (string \<times> string) option" where
  "fieldIOU fs key = (case as_map (map_of fs key) of
      None \<Rightarrow> None
    | Some m \<Rightarrow>
        (let currency = fieldString m ''currency''; issuer = fieldString m ''issuer''
         in if currency = [] \<or> issuer = [] then None else Some (currency, issuer)))"

type_synonym 's lister = "(string \<Rightarrow> 's \<Rightarrow> string list go_result \<times> 's) option"

definition recordMintedNFTs :: "'s lister \<Rightarrow> string \<Rightarrow> tracker \<Rightarrow> 's \<Rightarrow> tracker \<times> 's" where
  "recordMintedNFTs lister owner t s = (case lister of
      None \<Rightarrow> (t, s)
    | Some nfts \<Rightarrow>
        (case nfts owner s of
           (Inl _, s') \<Rightarrow> (t, s')
         | (Inr ids, s') \<Rightarrow> (t\<lparr>tr_nfts := fold (NFTTracker_Record owner) ids (tr_nfts t)\<rparr>, s')))"

definition record_in ::
    "codec \<Rightarrow> string \<Rightarrow> fields \<Rightarrow> string \<Rightarrow> 32 word \<Rightarrow> tracker \<Rightarrow> tracker" where
  "record_in c ty fs account seq t =
    (if ty = ''EscrowCreate'' then
       (if seq > 0 then t\<lparr>tr_escrows := EscrowTracker_Record account seq (tr_escrows t)\<rparr> else t)
     else if ty = ''OfferCreate'' then
       (if seq > 0 then t\<lparr>tr_offers := OfferTracker_Record account seq (tr_offers t)\<rparr> else t)
     else if ty = ''CheckCreate'' then
       (if seq > 0 then t\<lparr>tr_checks := CheckTracker_Record c account (fieldString fs ''Destination'') seq (tr_checks t)\<rparr> else t)
     else if ty = ''PaymentChannelCreate'' then
       (if seq > 0 then t\<lparr>tr_channels := ChannelTracker_Record c account (fieldString fs ''Destination'') seq (tr_channels t)\<rparr> else t)
     else if ty = ''PermissionedDomainSet'' then
       (if seq > 0 \<and> fieldString fs ''DomainID'' = []
        then t\<lparr>tr_domains := DomainTracker_Record c account seq (tr_domains t)\<rparr> else t)
     else if ty = ''MPTokenIssuanceCreate'' then
       (if seq > 0 then t\<lparr>tr_mpts := MPTTracker_Record c account seq (tr_mpts t)\<rparr> else t)
     else if ty = ''OracleSet'' then
       (case fieldUint32 fs ''OracleDocumentID'' of
          Some i \<Rightarrow> t\<lparr>tr_oracles := OracleTracker_Record account i (tr_oracles t)\<rparr> | None \<Rightarrow> t)
     else if ty = ''DIDSet'' then t\<lparr>tr_dids := DIDTracker_Record account (tr_dids t)\<rparr>
     else if ty = ''CredentialCreate'' then
       t\<lparr>tr_credentials := CredentialTracker_Record account (fieldString fs ''Subject'')
           (fieldString fs ''CredentialType'') (tr_credentials t)\<rparr>
     else if ty = ''AMMCreate'' then
       (case fieldIOU fs ''Amount2'' of
          Some (cur, iss) \<Rightarrow> t\<lparr>tr_amms := AMMTracker_Record account cur iss (tr_amms t)\<rparr> | None \<Rightarrow> t)
     else if ty = ''NFTokenCreateOffer'' then
       (if seq > 0 then
          (let sell = (case fieldUint32 fs ''Flags'' of Some f \<Rightarrow> and f tfSellNFToken \<noteq> 0 | None \<Rightarrow> False)
           in t\<lparr>tr_nft_offers := NFTOfferTracker_Record c account (fieldString fs ''NFTokenID'') sell seq
                  (tr_nft_offers t)\<rparr>)
        else t)
     else t)"

text \<open>\<open>RecordSuccess\<close>; \<open>None\<close> is the nil transaction.\<close>

definition RecordSuccess ::
    "codec \<Rightarrow> 's lister \<Rightarrow> tx option \<Rightarrow> 32 word \<Rightarrow> generator \<Rightarrow> 's \<Rightarrow> generator \<times> 's" where
  "RecordSuccess c lister txo seq g s = (case txo of
      None \<Rightarrow> (g, s)
    | Some t \<Rightarrow>
        (let account = fieldString (tx_fields t) ''Account'' in
         if account = [] then (g, s)
         else if TransactionType t = ''NFTokenMint'' then
           (case recordMintedNFTs lister account (g_tracker g) s of
              (tr, s') \<Rightarrow> (g\<lparr>g_tracker := tr\<rparr>, s'))
         else (g\<lparr>g_tracker := record_in c (TransactionType t) (tx_fields t) account seq (g_tracker g)\<rparr>, s)))"

section \<open>Facts about the registry\<close>

lemmas cand_defs = cand_AccountDelete_def cand_AccountSet_def cand_AMMBid_def cand_AMMClawback_def
  cand_AMMCreate_def cand_AMMDelete_def cand_AMMDeposit_def cand_AMMVote_def
  cand_AMMWithdraw_def cand_CheckCancel_def cand_CheckCash_def cand_CheckCreate_def
  cand_Clawback_def cand_CredentialAccept_def cand_CredentialCreate_def
  cand_CredentialDelete_def cand_DepositPreauth_def cand_DIDDelete_def cand_DIDSet_def
  cand_EscrowCancel_def cand_EscrowCreate_def cand_EscrowFinish_def cand_LedgerStateFix_def
  cand_MPTokenAuthorize_def cand_MPTokenIssuanceCreate_def cand_MPTokenIssuanceDestroy_def
  cand_MPTokenIssuanceSet_def cand_NFTokenAcceptOffer_def cand_NFTokenBurn_def
  cand_NFTokenCancelOffer_def cand_NFTokenCreateOffer_def cand_NFTokenMint_def
  cand_NFTokenModify_def cand_OfferCreate_def cand_OfferCancel_def cand_OracleDelete_def
  cand_OracleSet_def cand_PaymentChannelClaim_def cand_PaymentChannelCreate_def
  cand_PaymentChannelFund_def cand_Payment_def cand_PermissionedDomainDelete_def
  cand_PermissionedDomainSet_def cand_SetRegularKey_def cand_SignerListSet_def
  cand_TicketCreate_def cand_TrustSet_def

lemma all_types_distinct: "distinct (map c_type all_inits)"
  by (simp add: all_inits_def cand_defs)

lemma run_inits_distinct:
  "distinct (map c_type cs) \<Longrightarrow> c_type ` set cs \<inter> c_type ` set reg = {} \<Longrightarrow>
   run_inits cs reg = Some (reg @ cs)"
proof (induction cs arbitrary: reg)
  case (Cons c cs)
  have new: "c_type c \<notin> c_type ` set reg" using Cons.prems(2) by auto
  have "run_inits cs (reg @ [c]) = Some ((reg @ [c]) @ cs)"
    by (rule Cons.IH) (use Cons.prems in \<open>force+\<close>)
  then show ?case using new by (simp add: Register_def)
qed simp

text \<open>Every registered builder builds the type it is registered for.\<close>

definition builds_registered :: "candidate \<Rightarrow> bool" where
  "builds_registered c \<longleftrightarrow> (\<forall>g now. gen_ok g \<longrightarrow>
     rspec (c_build c now g) (\<lambda>t. TransactionType t = c_type c
       \<and> (\<exists>w \<in> set (g_pool g). tx_secret t = w_seed w)
       \<and> (c_type c \<noteq> ''EscrowCancel'' \<longrightarrow> signed_by_account g t)) (\<lambda>_. True))"

lemma builds_registeredI:
  assumes "\<And>g now. gen_ok g \<Longrightarrow> builds g (c_type c) (c_build c now g)"
  shows "builds_registered c"
  unfolding builds_registered_def
proof (intro allI impI)
  fix g now assume "gen_ok g"
  from assms [OF this] show "rspec (c_build c now g) (\<lambda>t. TransactionType t = c_type c
       \<and> (\<exists>w \<in> set (g_pool g). tx_secret t = w_seed w)
       \<and> (c_type c \<noteq> ''EscrowCancel'' \<longrightarrow> signed_by_account g t)) (\<lambda>_. True)"
    unfolding builds_def by (rule rspec_weaken) (auto simp: signed_by_account_def)
qed

lemma registered_EscrowCancel: "builds_registered cand_EscrowCancel"
  unfolding builds_registered_def cand_EscrowCancel_def
  by (auto intro: rspec_weaken [OF rspec_EscrowCancel])

lemma registered_AccountDelete: "builds_registered cand_AccountDelete"
  by (rule builds_registeredI) (simp add: cand_AccountDelete_def builds_AccountDelete)

lemma registered_AccountSet: "builds_registered cand_AccountSet"
  by (rule builds_registeredI) (simp add: cand_AccountSet_def builds_AccountSet)

lemma registered_AMMBid: "builds_registered cand_AMMBid"
  by (rule builds_registeredI) (simp add: cand_AMMBid_def builds_AMMBid)

lemma registered_AMMClawback: "builds_registered cand_AMMClawback"
  by (rule builds_registeredI) (simp add: cand_AMMClawback_def builds_AMMClawback)

lemma registered_AMMCreate: "builds_registered cand_AMMCreate"
  by (rule builds_registeredI) (simp add: cand_AMMCreate_def builds_AMMCreate)

lemma registered_AMMDelete: "builds_registered cand_AMMDelete"
  by (rule builds_registeredI) (simp add: cand_AMMDelete_def builds_AMMDelete)

lemma registered_AMMDeposit: "builds_registered cand_AMMDeposit"
  by (rule builds_registeredI) (simp add: cand_AMMDeposit_def builds_AMMDeposit)

lemma registered_AMMVote: "builds_registered cand_AMMVote"
  by (rule builds_registeredI) (simp add: cand_AMMVote_def builds_AMMVote)

lemma registered_AMMWithdraw: "builds_registered cand_AMMWithdraw"
  by (rule builds_registeredI) (simp add: cand_AMMWithdraw_def builds_AMMWithdraw)

lemma registered_CheckCancel: "builds_registered cand_CheckCancel"
  by (rule builds_registeredI) (simp add: cand_CheckCancel_def builds_CheckCancel)

lemma registered_CheckCash: "builds_registered cand_CheckCash"
  by (rule builds_registeredI) (simp add: cand_CheckCash_def builds_CheckCash)

lemma registered_CheckCreate: "builds_registered cand_CheckCreate"
  by (rule builds_registeredI) (simp add: cand_CheckCreate_def builds_CheckCreate)

lemma registered_Clawback: "builds_registered cand_Clawback"
  by (rule builds_registeredI) (simp add: cand_Clawback_def builds_Clawback)

lemma registered_CredentialAccept: "builds_registered cand_CredentialAccept"
  by (rule builds_registeredI) (simp add: cand_CredentialAccept_def builds_CredentialAccept)

lemma registered_CredentialCreate: "builds_registered cand_CredentialCreate"
  by (rule builds_registeredI) (simp add: cand_CredentialCreate_def builds_CredentialCreate)

lemma registered_CredentialDelete: "builds_registered cand_CredentialDelete"
  by (rule builds_registeredI) (simp add: cand_CredentialDelete_def builds_CredentialDelete)

lemma registered_DepositPreauth: "builds_registered cand_DepositPreauth"
  by (rule builds_registeredI) (simp add: cand_DepositPreauth_def builds_DepositPreauth)

lemma registered_DIDDelete: "builds_registered cand_DIDDelete"
  by (rule builds_registeredI) (simp add: cand_DIDDelete_def builds_DIDDelete)

lemma registered_DIDSet: "builds_registered cand_DIDSet"
  by (rule builds_registeredI) (simp add: cand_DIDSet_def builds_DIDSet)

lemma registered_EscrowCreate: "builds_registered cand_EscrowCreate"
  by (rule builds_registeredI) (simp add: cand_EscrowCreate_def builds_EscrowCreate)

lemma registered_EscrowFinish: "builds_registered cand_EscrowFinish"
  by (rule builds_registeredI) (simp add: cand_EscrowFinish_def builds_EscrowFinish)

lemma registered_LedgerStateFix: "builds_registered cand_LedgerStateFix"
  by (rule builds_registeredI) (simp add: cand_LedgerStateFix_def builds_LedgerStateFix)

lemma registered_MPTokenAuthorize: "builds_registered cand_MPTokenAuthorize"
  by (rule builds_registeredI) (simp add: cand_MPTokenAuthorize_def builds_MPTokenAuthorize)

lemma registered_MPTokenIssuanceCreate: "builds_registered cand_MPTokenIssuanceCreate"
  by (rule builds_registeredI) (simp add: cand_MPTokenIssuanceCreate_def builds_MPTokenIssuanceCreate)

lemma registered_MPTokenIssuanceDestroy: "builds_registered cand_MPTokenIssuanceDestroy"
  by (rule builds_registeredI) (simp add: cand_MPTokenIssuanceDestroy_def builds_MPTokenIssuanceDestroy)

lemma registered_MPTokenIssuanceSet: "builds_registered cand_MPTokenIssuanceSet"
  by (rule builds_registeredI) (simp add: cand_MPTokenIssuanceSet_def builds_MPTokenIssuanceSet)

lemma registered_NFTokenAcceptOffer: "builds_registered cand_NFTokenAcceptOffer"
  by (rule builds_registeredI) (simp add: cand_NFTokenAcceptOffer_def builds_NFTokenAcceptOffer)

lemma registered_NFTokenBurn: "builds_registered cand_NFTokenBurn"
  by (rule builds_registeredI) (simp add: cand_NFTokenBurn_def builds_NFTokenBurn)

lemma registered_NFTokenCancelOffer: "builds_registered cand_NFTokenCancelOffer"
  by (rule builds_registeredI) (simp add: cand_NFTokenCancelOffer_def builds_NFTokenCancelOffer)

lemma registered_NFTokenCreateOffer: "builds_registered cand_NFTokenCreateOffer"
  by (rule builds_registeredI) (simp add: cand_NFTokenCreateOffer_def builds_NFTokenCreateOffer)

lemma registered_NFTokenMint: "builds_registered cand_NFTokenMint"
  by (rule builds_registeredI) (simp add: cand_NFTokenMint_def builds_NFTokenMint)

lemma registered_NFTokenModify: "builds_registered cand_NFTokenModify"
  by (rule builds_registeredI) (simp add: cand_NFTokenModify_def builds_NFTokenModify)

lemma registered_OfferCreate: "builds_registered cand_OfferCreate"
  by (rule builds_registeredI) (simp add: cand_OfferCreate_def builds_OfferCreate)

lemma registered_OfferCancel: "builds_registered cand_OfferCancel"
  by (rule builds_registeredI) (simp add: cand_OfferCancel_def builds_OfferCancel)

lemma registered_OracleDelete: "builds_registered cand_OracleDelete"
  by (rule builds_registeredI) (simp add: cand_OracleDelete_def builds_OracleDelete)

lemma registered_OracleSet: "builds_registered cand_OracleSet"
  by (rule builds_registeredI) (simp add: cand_OracleSet_def builds_OracleSet)

lemma registered_PaymentChannelClaim: "builds_registered cand_PaymentChannelClaim"
  by (rule builds_registeredI) (simp add: cand_PaymentChannelClaim_def builds_PaymentChannelClaim)

lemma registered_PaymentChannelCreate: "builds_registered cand_PaymentChannelCreate"
  by (rule builds_registeredI) (simp add: cand_PaymentChannelCreate_def builds_PaymentChannelCreate)

lemma registered_PaymentChannelFund: "builds_registered cand_PaymentChannelFund"
  by (rule builds_registeredI) (simp add: cand_PaymentChannelFund_def builds_PaymentChannelFund)

lemma registered_Payment: "builds_registered cand_Payment"
  by (rule builds_registeredI) (simp add: cand_Payment_def builds_Payment)

lemma registered_PermissionedDomainDelete: "builds_registered cand_PermissionedDomainDelete"
  by (rule builds_registeredI) (simp add: cand_PermissionedDomainDelete_def builds_PermissionedDomainDelete)

lemma registered_PermissionedDomainSet: "builds_registered cand_PermissionedDomainSet"
  by (rule builds_registeredI) (simp add: cand_PermissionedDomainSet_def builds_PermissionedDomainSet)

lemma registered_SetRegularKey: "builds_registered cand_SetRegularKey"
  by (rule builds_registeredI) (simp add: cand_SetRegularKey_def builds_SetRegularKey)

lemma registered_SignerListSet: "builds_registered cand_SignerListSet"
  by (rule builds_registeredI) (simp add: cand_SignerListSet_def builds_SignerListSet)

lemma registered_TicketCreate: "builds_registered cand_TicketCreate"
  by (rule builds_registeredI) (simp add: cand_TicketCreate_def builds_TicketCreate)

lemma registered_TrustSet: "builds_registered cand_TrustSet"
  by (rule builds_registeredI) (simp add: cand_TrustSet_def builds_TrustSet)

lemmas registered_intro = registered_AccountDelete registered_AccountSet registered_AMMBid registered_AMMClawback
  registered_AMMCreate registered_AMMDelete registered_AMMDeposit registered_AMMVote
  registered_AMMWithdraw registered_CheckCancel registered_CheckCash registered_CheckCreate
  registered_Clawback registered_CredentialAccept registered_CredentialCreate
  registered_CredentialDelete registered_DepositPreauth registered_DIDDelete
  registered_DIDSet registered_EscrowCancel registered_EscrowCreate registered_EscrowFinish
  registered_LedgerStateFix registered_MPTokenAuthorize registered_MPTokenIssuanceCreate
  registered_MPTokenIssuanceDestroy registered_MPTokenIssuanceSet
  registered_NFTokenAcceptOffer registered_NFTokenBurn registered_NFTokenCancelOffer
  registered_NFTokenCreateOffer registered_NFTokenMint registered_NFTokenModify
  registered_OfferCreate registered_OfferCancel registered_OracleDelete registered_OracleSet
  registered_PaymentChannelClaim registered_PaymentChannelCreate
  registered_PaymentChannelFund registered_Payment registered_PermissionedDomainDelete
  registered_PermissionedDomainSet registered_SetRegularKey registered_SignerListSet
  registered_TicketCreate registered_TrustSet

lemma all_builds_registered: "list_all builds_registered all_inits"
  unfolding all_inits_def list.pred_inject(2) by (intro conjI registered_intro list.pred_inject(1))

section \<open>Picking\<close>

lemma all_inits_registered: "run_inits all_inits [] = Some all_inits"
  using run_inits_distinct [OF all_types_distinct, of "[]"] by simp

lemma set_eligible:
  "c \<in> set (eligible reg g enabled) \<longleftrightarrow> c \<in> set reg \<and> set (c_requires c) \<subseteq> set enabled
     \<and> (case c_can c of None \<Rightarrow> True | Some can \<Rightarrow> can g)"
  by (auto simp: eligible_def allIn_def list_all_iff)

lemma PickTx_nonempty:
  "eligible reg g enabled \<noteq> [] \<Longrightarrow>
   PickTx reg now g enabled =
     rbind (IntN (length (eligible reg g enabled))) (\<lambda>i. c_build (eligible reg g enabled ! i) now g)"
  by (simp add: PickTx_def Let_def)

lemma rspec_PickTx:
  assumes g: "gen_ok g"
  shows "rspec (PickTx all_inits now g enabled) (\<lambda>t. \<exists>c \<in> set all_inits.
     c_type c = TransactionType t \<and> set (c_requires c) \<subseteq> set enabled
     \<and> (case c_can c of None \<Rightarrow> True | Some can \<Rightarrow> can g)
     \<and> (\<exists>w \<in> set (g_pool g). tx_secret t = w_seed w)
     \<and> (c_type c \<noteq> ''EscrowCancel'' \<longrightarrow> signed_by_account g t)) (\<lambda>_. True)"
proof (cases "eligible all_inits g enabled = []")
  case True
  then show ?thesis by (simp add: PickTx_def rspec_rfail)
next
  case False
  show ?thesis
    unfolding PickTx_nonempty [OF False]
  proof (rule rspec_rbind [OF rspec_IntN])
    show "0 < length (eligible all_inits g enabled)" using False by simp
    fix i assume "i < length (eligible all_inits g enabled)"
    then have el: "eligible all_inits g enabled ! i \<in> set (eligible all_inits g enabled)" by simp
    define c where "c = eligible all_inits g enabled ! i"
    have c: "c \<in> set all_inits" "set (c_requires c) \<subseteq> set enabled"
      "case c_can c of None \<Rightarrow> True | Some can \<Rightarrow> can g"
      using el by (simp_all add: set_eligible c_def)
    then have "builds_registered c" using all_builds_registered by (simp add: list_all_iff)
    with g have "rspec (c_build c now g) (\<lambda>t. TransactionType t = c_type c
       \<and> (\<exists>w \<in> set (g_pool g). tx_secret t = w_seed w)
       \<and> (c_type c \<noteq> ''EscrowCancel'' \<longrightarrow> signed_by_account g t)) (\<lambda>_. True)"
      by (simp add: builds_registered_def)
    then show "rspec (c_build (eligible all_inits g enabled ! i) now g) (\<lambda>t. \<exists>c \<in> set all_inits.
       c_type c = TransactionType t \<and> set (c_requires c) \<subseteq> set enabled
       \<and> (case c_can c of None \<Rightarrow> True | Some can \<Rightarrow> can g)
       \<and> (\<exists>w \<in> set (g_pool g). tx_secret t = w_seed w)
       \<and> (c_type c \<noteq> ''EscrowCancel'' \<longrightarrow> signed_by_account g t)) (\<lambda>_. True)"
      unfolding c_def [symmetric] by (rule rspec_weaken) (use c in auto)
  qed
qed

lemma PickTx_reaches:
  assumes c: "c \<in> set (eligible reg g enabled)" and x: "can_yield (c_build c now g) t"
    and small: "length reg \<le> 2 ^ 63"
  shows "can_yield (PickTx reg now g enabled) t"
proof -
  obtain i where i: "i < length (eligible reg g enabled)" "eligible reg g enabled ! i = c"
    using c by (metis in_set_conv_nth)
  have "length (eligible reg g enabled) \<le> length (sort_key c_type reg)"
    unfolding eligible_def by (rule length_filter_le)
  then have "length (eligible reg g enabled) \<le> 2 ^ 63" using small by simp
  moreover have "eligible reg g enabled \<noteq> []" using i(1) by auto
  ultimately show ?thesis
    using i x by (auto simp: PickTx_nonempty intro!: can_yield_rbind [OF can_yield_IntN])
qed

text \<open>The order of the registry, a Go map, and of the amendment list play no role.\<close>

lemma PickTx_cong:
  assumes "mset reg = mset reg'" and "distinct (map c_type reg)" and "set en = set en'"
  shows "PickTx reg now g en = PickTx reg' now g en'"
proof -
  have "inj_on c_type (set reg)" using assms(2) by (simp add: distinct_map)
  with assms(1) have "sort_key c_type reg = sort_key c_type reg'" by (rule sort_key_unique)
  with assms(3) show ?thesis by (simp add: PickTx_def eligible_def)
qed

section \<open>Recording\<close>

definition trackers_ok :: "tracker \<Rightarrow> bool" where
  "trackers_ok t \<longleftrightarrow> did_ok (tr_dids t) \<and> nft_ok (tr_nfts t)"

lemma trackers_ok_New: "trackers_ok NewTracker"
  by (simp add: trackers_ok_def NewTracker_def did_ok_new nft_ok_new)

lemma nft_ok_fold: "nft_ok t \<Longrightarrow> nft_ok (fold (NFTTracker_Record owner) ids t)"
  by (induction ids arbitrary: t) (auto simp: nft_ok_Record)

lemma trackers_ok_record_in: "trackers_ok t \<Longrightarrow> trackers_ok (record_in c ty fs a seq t)"
  unfolding record_in_def trackers_ok_def Let_def
  by (auto simp: did_ok_Record split: option.splits)

lemma trackers_ok_minted:
  "trackers_ok t \<Longrightarrow> trackers_ok (fst (recordMintedNFTs lister a t s))"
  by (auto simp: recordMintedNFTs_def trackers_ok_def nft_ok_fold split: option.splits prod.splits sum.splits)

text \<open>What a successful transaction does to the trackers, in one equation.\<close>

definition recorded :: "codec \<Rightarrow> 's lister \<Rightarrow> tx \<Rightarrow> 32 word \<Rightarrow> tracker \<Rightarrow> 's \<Rightarrow> tracker" where
  "recorded c lister t seq tr s =
     (let a = fieldString (tx_fields t) ''Account''
      in if a = [] then tr
         else if TransactionType t = ''NFTokenMint'' then fst (recordMintedNFTs lister a tr s)
         else record_in c (TransactionType t) (tx_fields t) a seq tr)"

lemma RecordSuccess_tracker:
  "g_tracker (fst (RecordSuccess c lister (Some t) seq g s)) = recorded c lister t seq (g_tracker g) s"
  by (simp add: RecordSuccess_def recorded_def Let_def split: prod.splits)

lemma RecordSuccess_None [simp]: "fst (RecordSuccess c lister None seq g s) = g"
  by (simp add: RecordSuccess_def)

lemma trackers_ok_recorded: "trackers_ok tr \<Longrightarrow> trackers_ok (recorded c lister t seq tr s)"
  by (simp add: recorded_def Let_def trackers_ok_minted trackers_ok_record_in)

lemma RecordSuccess_pool [simp]:
  "g_pool (fst (RecordSuccess c lister txo seq g s)) = g_pool g"
  "g_seeds (fst (RecordSuccess c lister txo seq g s)) = g_seeds g"
  by (auto simp: RecordSuccess_def Let_def split: option.splits prod.splits)

lemma gen_ok_RecordSuccess: "gen_ok g \<Longrightarrow> gen_ok (fst (RecordSuccess c lister txo seq g s))"
  by (simp add: gen_ok_def)

text \<open>The accounts on record that sign the follow-up transactions are pool accounts.\<close>

definition signers_in :: "string set \<Rightarrow> tracker \<Rightarrow> bool" where
  "signers_in A t \<longleftrightarrow>
     es_owner ` set (tr_escrows t) \<subseteq> A \<and> of_owner ` set (tr_offers t) \<subseteq> A
   \<and> ck_owner ` set (tr_checks t) \<subseteq> A \<and> ch_source ` set (tr_channels t) \<subseteq> A
   \<and> dm_owner ` set (tr_domains t) \<subseteq> A \<and> mp_issuer ` set (tr_mpts t) \<subseteq> A
   \<and> oc_owner ` set (tr_oracles t) \<subseteq> A \<and> set (did_owners (tr_dids t)) \<subseteq> A
   \<and> cr_issuer ` set (tr_credentials t) \<subseteq> A \<and> am_creator ` set (tr_amms t) \<subseteq> A
   \<and> nf_owner ` set (nft_refs (tr_nfts t)) \<subseteq> A \<and> no_owner ` set (tr_nft_offers t) \<subseteq> A"

lemmas record_defs = EscrowTracker_Record_def OfferTracker_Record_def CheckTracker_Record_def
  ChannelTracker_Record_def DomainTracker_Record_def MPTTracker_Record_def OracleTracker_Record_def
  DIDTracker_Record_def CredentialTracker_Record_def AMMTracker_Record_def NFTTracker_Record_def
  NFTOfferTracker_Record_def

lemma signers_in_New: "signers_in A NewTracker"
  by (simp add: signers_in_def NewTracker_def newDIDTracker_def newNFTTracker_def)

lemma signers_in_record: "a \<in> A \<Longrightarrow> signers_in A t \<Longrightarrow> signers_in A (record_in c ty fs a seq t)"
  unfolding record_in_def
  by (simp add: signers_in_def record_defs Let_def split: option.splits sum.splits prod.splits)

lemma nft_owners_fold:
  "a \<in> A \<Longrightarrow> nf_owner ` set (nft_refs t) \<subseteq> A \<Longrightarrow>
   nf_owner ` set (nft_refs (fold (NFTTracker_Record a) ids t)) \<subseteq> A"
  by (induction ids arbitrary: t) (auto simp: NFTTracker_Record_def)

lemma signers_in_recorded:
  assumes "signers_in A tr" and "fieldString (tx_fields t) ''Account'' \<in> A"
  shows "signers_in A (recorded c lister t seq tr s)"
proof -
  have "signers_in A (fst (recordMintedNFTs lister a tr s))" if "a \<in> A" for a
    using assms(1) that nft_owners_fold [OF that, of "tr_nfts tr"]
    by (auto simp: recordMintedNFTs_def signers_in_def split: option.splits prod.splits sum.splits)
  then show ?thesis
    using assms by (simp add: recorded_def Let_def signers_in_record)
qed

section \<open>Guarded reference builders never fail\<close>

definition never_fails :: "'a rnd \<Rightarrow> bool" where
  "never_fails m \<longleftrightarrow> rspec m (\<lambda>_. True) (\<lambda>_. False)"

named_theorems total_intro \<open>rules for builders that return no error\<close>

lemma never_fails_rret [total_intro]: "never_fails (rret x)"
  by (simp add: never_fails_def rspec_rret)

lemma never_fails_bind: "rspec m P (\<lambda>_. False) \<Longrightarrow> (\<And>x. P x \<Longrightarrow> never_fails (f x)) \<Longrightarrow> never_fails (rbind m f)"
  unfolding never_fails_def by (rule rspec_rbind)

lemma never_fails_IntN [total_intro]:
  "0 < n \<Longrightarrow> (\<And>i. never_fails (f i)) \<Longrightarrow> never_fails (rbind (IntN n) f)"
  by (rule never_fails_bind [OF rspec_IntN])

lemma never_fails_drops [total_intro]:
  "0 < n \<Longrightarrow> (\<And>v. never_fails (f v)) \<Longrightarrow> never_fails (rbind (xrp_drops n lo) f)"
  unfolding xrp_drops_def
  by (rule never_fails_bind [where P = "\<lambda>_. True"], rule rspec_rbind [OF rspec_IntN])
     (auto intro: rspec_rret)

lemma never_fails_hex [total_intro]:
  "(\<And>v. never_fails (f v)) \<Longrightarrow> never_fails (rbind (randHexBytes n) f)"
  by (rule never_fails_bind [OF rspec_randHexBytes])

lemma pool_seeds_dom: "dom (map_of (pool_seeds p)) = w_address ` set p"
proof -
  have "dom (map_of (fold (\<lambda>w m. AList.update (w_address w) (w_seed w) m) p m))
      = dom (map_of m) \<union> w_address ` set p" for m
    by (induction p arbitrary: m) (auto simp: update_conv')
  then show ?thesis by (simp add: pool_seeds_def)
qed

lemma never_fails_seed [total_intro]:
  assumes "gen_ok g" and "a \<in> w_address ` set (g_pool g)" and "\<And>s. never_fails (f s)"
  shows "never_fails (or_fail e f (seedFor g a))"
proof -
  have "seedFor g a \<noteq> None"
    using assms(1,2) pool_seeds_dom [of "g_pool g"] by (auto simp: gen_ok_def seedFor_def)
  then show ?thesis using assms(3) by (auto simp: or_fail_def)
qed

context ref_tracker begin

lemma never_fails_ref:
  assumes "0 < count t" and "\<And>x. x \<in> set (refs t) \<Longrightarrow> never_fails (f x)"
  shows "never_fails (rbind (pick t) (or_fail e f))"
  unfolding never_fails_def
  by (rule pick_bind) (use assms in \<open>auto simp: or_fail_def never_fails_def\<close>)

end

lemmas total_refs = amms.never_fails_ref checks.never_fails_ref credentials.never_fails_ref
  dids.never_fails_ref mpts.never_fails_ref nft_offers.never_fails_ref nfts.never_fails_ref
  offers.never_fails_ref oracles.never_fails_ref channels.never_fails_ref domains.never_fails_ref

text \<open>The reference builders that sign with the creator of the object they refer to.\<close>

definition creator_signed :: "candidate list" where
  "creator_signed = [cand_AMMBid, cand_AMMDeposit, cand_AMMVote, cand_AMMWithdraw, cand_CheckCancel,
     cand_CredentialDelete, cand_DIDDelete, cand_MPTokenIssuanceDestroy, cand_MPTokenIssuanceSet,
     cand_NFTokenBurn, cand_NFTokenCancelOffer, cand_NFTokenCreateOffer, cand_NFTokenModify,
     cand_OfferCancel, cand_OracleDelete, cand_PaymentChannelClaim, cand_PaymentChannelFund,
     cand_PermissionedDomainDelete]"

definition guarded_total :: "candidate \<Rightarrow> bool" where
  "guarded_total c \<longleftrightarrow> (\<forall>g now. gen_ok g \<longrightarrow> signers_in (w_address ` set (g_pool g)) (g_tracker g) \<longrightarrow>
     (case c_can c of None \<Rightarrow> True | Some can \<Rightarrow> can g) \<longrightarrow> never_fails (c_build c now g))"

lemma total_AMMBid: "guarded_total cand_AMMBid"
  unfolding guarded_total_def cand_AMMBid_def AMMBid_def
  by (auto simp: signers_in_def intro!: total_refs total_intro)

lemma total_AMMDeposit: "guarded_total cand_AMMDeposit"
  unfolding guarded_total_def cand_AMMDeposit_def AMMDeposit_def
  by (auto simp: signers_in_def intro!: total_refs total_intro)

lemma total_AMMVote: "guarded_total cand_AMMVote"
  unfolding guarded_total_def cand_AMMVote_def AMMVote_def
  by (auto simp: signers_in_def intro!: total_refs total_intro)

lemma total_AMMWithdraw: "guarded_total cand_AMMWithdraw"
  unfolding guarded_total_def cand_AMMWithdraw_def AMMWithdraw_def
  by (auto simp: signers_in_def intro!: total_refs total_intro)

lemma total_CheckCancel: "guarded_total cand_CheckCancel"
  unfolding guarded_total_def cand_CheckCancel_def CheckCancel_def
  by (auto simp: signers_in_def intro!: total_refs total_intro)

lemma total_CredentialDelete: "guarded_total cand_CredentialDelete"
  unfolding guarded_total_def cand_CredentialDelete_def CredentialDelete_def
  by (auto simp: signers_in_def intro!: total_refs total_intro)

lemma total_DIDDelete: "guarded_total cand_DIDDelete"
  unfolding guarded_total_def cand_DIDDelete_def DIDDelete_def
  by (auto simp: signers_in_def intro!: total_refs total_intro)

lemma total_MPTokenIssuanceDestroy: "guarded_total cand_MPTokenIssuanceDestroy"
  unfolding guarded_total_def cand_MPTokenIssuanceDestroy_def MPTokenIssuanceDestroy_def
  by (auto simp: signers_in_def intro!: total_refs total_intro)

lemma total_MPTokenIssuanceSet: "guarded_total cand_MPTokenIssuanceSet"
  unfolding guarded_total_def cand_MPTokenIssuanceSet_def MPTokenIssuanceSet_def
  by (auto simp: signers_in_def intro!: total_refs total_intro)

lemma total_NFTokenBurn: "guarded_total cand_NFTokenBurn"
  unfolding guarded_total_def cand_NFTokenBurn_def NFTokenBurn_def
  by (auto simp: signers_in_def intro!: total_refs total_intro)

lemma total_NFTokenCancelOffer: "guarded_total cand_NFTokenCancelOffer"
  unfolding guarded_total_def cand_NFTokenCancelOffer_def NFTokenCancelOffer_def
  by (auto simp: signers_in_def intro!: total_refs total_intro)

lemma total_NFTokenCreateOffer: "guarded_total cand_NFTokenCreateOffer"
  unfolding guarded_total_def cand_NFTokenCreateOffer_def NFTokenCreateOffer_def
  by (auto simp: signers_in_def intro!: total_refs total_intro)

lemma total_NFTokenModify: "guarded_total cand_NFTokenModify"
  unfolding guarded_total_def cand_NFTokenModify_def NFTokenModify_def
  by (auto simp: signers_in_def intro!: total_refs total_intro)

lemma total_OfferCancel: "guarded_total cand_OfferCancel"
  unfolding guarded_total_def cand_OfferCancel_def OfferCancel_def
  by (auto simp: signers_in_def intro!: total_refs total_intro)

lemma total_OracleDelete: "guarded_total cand_OracleDelete"
  unfolding guarded_total_def cand_OracleDelete_def OracleDelete_def
  by (auto simp: signers_in_def intro!: total_refs total_intro)

lemma total_PaymentChannelClaim: "guarded_total cand_PaymentChannelClaim"
  unfolding guarded_total_def cand_PaymentChannelClaim_def PaymentChannelClaim_def
  by (auto simp: signers_in_def intro!: total_refs total_intro)

lemma total_PaymentChannelFund: "guarded_total cand_PaymentChannelFund"
  unfolding guarded_total_def cand_PaymentChannelFund_def PaymentChannelFund_def
  by (auto simp: signers_in_def intro!: total_refs total_intro)

lemma total_PermissionedDomainDelete: "guarded_total cand_PermissionedDomainDelete"
  unfolding guarded_total_def cand_PermissionedDomainDelete_def PermissionedDomainDelete_def
  by (auto simp: signers_in_def intro!: total_refs total_intro)

lemmas total_cands = total_AMMBid
  total_AMMDeposit
  total_AMMVote
  total_AMMWithdraw
  total_CheckCancel
  total_CredentialDelete
  total_DIDDelete
  total_MPTokenIssuanceDestroy
  total_MPTokenIssuanceSet
  total_NFTokenBurn
  total_NFTokenCancelOffer
  total_NFTokenCreateOffer
  total_NFTokenModify
  total_OfferCancel
  total_OracleDelete
  total_PaymentChannelClaim
  total_PaymentChannelFund
  total_PermissionedDomainDelete

lemma all_guarded_total: "list_all guarded_total creator_signed"
  unfolding creator_signed_def list.pred_inject(2) by (intro conjI total_cands list.pred_inject(1))

end
