(* ===== verification/Mutator.thy ===== *)
theory Mutator
  imports Generator
begin

text \<open>
  The single-field mutator (\<open>generator/mutator.go\<close>). Copying a \<open>map[string]any\<close> is the
  identity on association lists; the keys of a map come in any order, which the code
  removes with its own exchange sort \<open>sortStrings\<close>.
\<close>

section \<open>\<open>sortStrings\<close>\<close>

definition swap_if :: "nat \<Rightarrow> nat \<Rightarrow> 'a :: linorder list \<Rightarrow> 'a list" where
  "swap_if i j s = (if s ! j < s ! i then s[i := s ! j, j := s ! i] else s)"

definition sort_round :: "nat \<Rightarrow> 'a :: linorder list \<Rightarrow> 'a list" where
  "sort_round i s = fold (swap_if i) [Suc i ..< length s] s"

definition sortStrings :: "'a :: linorder list \<Rightarrow> 'a list" where
  "sortStrings s = fold sort_round [0 ..< length s] s"

lemma swap_if_facts:
  assumes "i < length s" and "j < length s"
  shows "length (swap_if i j s) = length s" and "mset (swap_if i j s) = mset s"
  using assms by (simp_all add: swap_if_def mset_swap)

lemma round_prefix:
  assumes "i < k" and "k \<le> length s"
  defines "s' \<equiv> fold (swap_if i) [Suc i ..< k] s"
  shows "length s' = length s \<and> mset s' = mset s \<and> (\<forall>m < i. s' ! m = s ! m)
    \<and> (\<forall>m. k \<le> m \<longrightarrow> m < length s \<longrightarrow> s' ! m = s ! m) \<and> (\<forall>m. i < m \<longrightarrow> m < k \<longrightarrow> s' ! i \<le> s' ! m)"
  using assms(1,2) unfolding s'_def
proof (induction k)
  case 0
  then show ?case by simp
next
  case (Suc k)
  show ?case
  proof (cases "i = k")
    case True
    then show ?thesis by simp
  next
    case False
    then have ik: "i < k" "k < length s" using Suc.prems by auto
    define t where "t = fold (swap_if i) [Suc i ..< k] s"
    have IH: "length t = length s" "mset t = mset s" "\<And>m. m < i \<Longrightarrow> t ! m = s ! m"
      "\<And>m. k \<le> m \<Longrightarrow> m < length s \<Longrightarrow> t ! m = s ! m" "\<And>m. i < m \<Longrightarrow> m < k \<Longrightarrow> t ! i \<le> t ! m"
      using Suc.IH ik unfolding t_def by auto
    have step: "fold (swap_if i) [Suc i ..< Suc k] s = swap_if i k t"
      using ik by (simp add: t_def)
    have facts: "length (swap_if i k t) = length s" "mset (swap_if i k t) = mset s"
      using swap_if_facts [of i t k] IH(1,2) ik by auto
    have "swap_if i k t ! m = s ! m" if "m < i" for m
      using that ik IH(3) by (simp add: swap_if_def)
    moreover have "swap_if i k t ! m = s ! m" if "Suc k \<le> m" "m < length s" for m
      using that ik IH(4) [of m] by (simp add: swap_if_def)
    moreover have "swap_if i k t ! i \<le> swap_if i k t ! m" if "i < m" "m < Suc k" for m
    proof (cases "m = k")
      case True
      then show ?thesis using ik IH(1) by (auto simp: swap_if_def)
    next
      case False
      then have "t ! i \<le> t ! m" using that IH(5) by simp
      then show ?thesis using that False ik IH(1) by (auto simp: swap_if_def)
    qed
    ultimately show ?thesis unfolding step using facts by blast
  qed
qed

lemma sort_round_facts:
  assumes "i < length s"
  shows "length (sort_round i s) = length s" and "mset (sort_round i s) = mset s"
    and "m < i \<Longrightarrow> sort_round i s ! m = s ! m"
    and "i < m \<Longrightarrow> m < length s \<Longrightarrow> sort_round i s ! i \<le> sort_round i s ! m"
  using round_prefix [of i "length s" s] assms by (auto simp: sort_round_def)

lemma sort_rounds:
  assumes "k \<le> length s"
  defines "s' \<equiv> fold sort_round [0 ..< k] s"
  shows "length s' = length s \<and> mset s' = mset s \<and> (\<forall>a b. a < k \<longrightarrow> a < b \<longrightarrow> b < length s \<longrightarrow> s' ! a \<le> s' ! b)"
  using assms(1) unfolding s'_def
proof (induction k)
  case 0
  then show ?case by simp
next
  case (Suc k)
  define t where "t = fold sort_round [0 ..< k] s"
  have IH: "length t = length s" "mset t = mset s"
    "\<And>a b. a < k \<Longrightarrow> a < b \<Longrightarrow> b < length s \<Longrightarrow> t ! a \<le> t ! b"
    using Suc unfolding t_def by auto
  have k: "k < length t" using Suc.prems IH(1) by simp
  have step: "fold sort_round [0 ..< Suc k] s = sort_round k t" by (simp add: t_def)
  note rf = sort_round_facts [OF k]
  have take_eq: "take k (sort_round k t) = take k t"
    by (rule nth_equalityI) (use rf(1,3) k in auto)
  have "mset (take k t) + mset (drop k (sort_round k t)) = mset (take k t) + mset (drop k t)"
    using rf(2) by (metis append_take_drop_id mset_append take_eq)
  then have drop_eq: "set (drop k (sort_round k t)) = set (drop k t)"
    by (metis add_left_cancel set_mset_mset)
  have "sort_round k t ! a \<le> sort_round k t ! b" if ab: "a < Suc k" "a < b" "b < length s" for a b
  proof (cases "a = k")
    case True
    then show ?thesis using rf(4) ab IH(1) by simp
  next
    case False
    then have ak: "a < k" using ab by simp
    show ?thesis
    proof (cases "b < k")
      case True
      then show ?thesis using rf(3) IH(3) ab ak by simp
    next
      case bk: False
      have "sort_round k t ! b = drop k (sort_round k t) ! (b - k)"
        using bk ab rf(1) IH(1) by simp
      also have "\<dots> \<in> set (drop k (sort_round k t))"
        by (rule nth_mem) (use bk ab rf(1) IH(1) in auto)
      finally obtain c where c: "c < length (drop k t)" "sort_round k t ! b = drop k t ! c"
        unfolding drop_eq by (metis in_set_conv_nth)
      then have "t ! a \<le> t ! (k + c)" by (intro IH(3)) (use ak IH(1) in auto)
      then show ?thesis using c rf(3) [of a] ak k by simp
    qed
  qed
  then show ?case unfolding step using rf(1,2) IH(1,2) by simp
qed

lemma sortStrings_sort: "sortStrings s = sort s"
proof -
  have facts: "length (sortStrings s) = length s" "mset (sortStrings s) = mset s"
    "\<And>a b. a < length s \<Longrightarrow> a < b \<Longrightarrow> b < length s \<Longrightarrow> sortStrings s ! a \<le> sortStrings s ! b"
    using sort_rounds [of "length s" s] by (simp_all add: sortStrings_def)
  have "sorted (sortStrings s)"
    unfolding sorted_iff_nth_mono_less using facts by auto
  then show ?thesis using facts(2) by (metis properties_for_sort)
qed

section \<open>Strategies\<close>

datatype strategy = DeleteField | CorruptDrops | CorruptAddress | OverflowUint32 | ZeroUint32

definition strategy_name :: "strategy \<Rightarrow> string" where
  "strategy_name st = (case st of
      DeleteField \<Rightarrow> ''delete_field'' | CorruptDrops \<Rightarrow> ''corrupt_drops''
    | CorruptAddress \<Rightarrow> ''corrupt_address'' | OverflowUint32 \<Rightarrow> ''overflow_uint32''
    | ZeroUint32 \<Rightarrow> ''zero_uint32'')"

definition NewMutator :: "strategy list" where
  "NewMutator = [DeleteField, CorruptDrops, CorruptAddress, OverflowUint32, ZeroUint32]"

definition dropsFieldNames :: "string list" where
  "dropsFieldNames = [''Amount'', ''TakerPays'', ''TakerGets'', ''Fee'', ''SendMax'', ''DeliverMin'']"

definition addrFieldNames :: "string list" where
  "addrFieldNames = [''Account'', ''Destination'', ''RegularKey'', ''Issuer'']"

definition uint32FieldNames :: "string list" where
  "uint32FieldNames = [''SetFlag'', ''ClearFlag'', ''TicketCount'', ''Flags'', ''DestinationTag'',
     ''SourceTag'', ''Sequence'']"

definition cloneTx :: "tx \<Rightarrow> tx" where
  "cloneTx t = \<lparr>tx_fields = tx_fields t, tx_secret = tx_secret t\<rparr>"

text \<open>The fields a strategy may act on, in the order of its loop.\<close>

definition delete_candidates :: "tx \<Rightarrow> string list" where
  "delete_candidates t = filter (\<lambda>k. k \<noteq> ''TransactionType'') (remdups (map fst (tx_fields t)))"

definition drops_candidates :: "tx \<Rightarrow> string list" where
  "drops_candidates t = filter (\<lambda>f. as_string (map_of (tx_fields t) f) \<noteq> None) dropsFieldNames"

definition addr_candidates :: "tx \<Rightarrow> string list" where
  "addr_candidates t = filter (\<lambda>f. case as_string (map_of (tx_fields t) f) of
     None \<Rightarrow> False | Some s \<Rightarrow> s \<noteq> []) addrFieldNames"

definition uint32_candidates :: "tx \<Rightarrow> string list" where
  "uint32_candidates t = filter (\<lambda>f. as_u32 (map_of (tx_fields t) f) \<noteq> None) uint32FieldNames"

definition candidates_of :: "strategy \<Rightarrow> tx \<Rightarrow> string list" where
  "candidates_of st t = (case st of
      DeleteField \<Rightarrow> delete_candidates t | CorruptDrops \<Rightarrow> drops_candidates t
    | CorruptAddress \<Rightarrow> addr_candidates t | OverflowUint32 \<Rightarrow> uint32_candidates t
    | ZeroUint32 \<Rightarrow> uint32_candidates t)"

definition canApply :: "strategy \<Rightarrow> tx \<Rightarrow> bool" where
  "canApply st t = (candidates_of st t \<noteq> [])"

text \<open>\<open>candidates[r.IntN(len(candidates))]\<close> after the sort.\<close>

definition pick_victim :: "string list \<Rightarrow> string rnd" where
  "pick_victim cs = (let sorted = sortStrings cs in rbind (IntN (length sorted)) (\<lambda>i. rret (sorted ! i)))"

definition set_field :: "tx \<Rightarrow> string \<Rightarrow> go_value \<Rightarrow> tx" where
  "set_field t k v = t\<lparr>tx_fields := fset k v (tx_fields t)\<rparr>"

definition corrupt_amounts :: "string list" where
  "corrupt_amounts = [''-1'', ''0'', ''9999999999999999999999'', ''not-a-number'', []]"

definition mutate_delete :: "tx \<Rightarrow> tx rnd" where
  "mutate_delete t = (let out = cloneTx t
     in rbind (pick_victim (delete_candidates out)) (\<lambda>victim.
          rret (out\<lparr>tx_fields := fdel victim (tx_fields out)\<rparr>)))"

definition mutate_drops :: "tx \<Rightarrow> tx rnd" where
  "mutate_drops t = (let out = cloneTx t
     in rbind (pick_victim (drops_candidates out)) (\<lambda>victim.
        rbind (IntN (length corrupt_amounts)) (\<lambda>i.
          rret (set_field out victim (GStr (corrupt_amounts ! i))))))"

definition mutate_address :: "tx \<Rightarrow> tx rnd" where
  "mutate_address t = (let out = cloneTx t
     in rbind (pick_victim (addr_candidates out)) (\<lambda>victim.
        rbind Uint64 (\<lambda>a. rbind Uint64 (\<lambda>b.
          rret (set_field out victim
            (GStr (CHR ''r'' # take 28 (hex_lower (rev (be_bytes 8 (unat a)) @ rev (be_bytes 8 (unat b)))))))))))"

definition mutate_uint32 :: "32 word \<Rightarrow> tx \<Rightarrow> tx rnd" where
  "mutate_uint32 v t = (let out = cloneTx t
     in rbind (pick_victim (uint32_candidates out)) (\<lambda>victim. rret (set_field out victim (GU32 v))))"

definition mutate :: "strategy \<Rightarrow> tx \<Rightarrow> tx rnd" where
  "mutate st t = (case st of
      DeleteField \<Rightarrow> mutate_delete t
    | CorruptDrops \<Rightarrow> mutate_drops t
    | CorruptAddress \<Rightarrow> mutate_address t
    | OverflowUint32 \<Rightarrow> mutate_uint32 0xFFFFFFFF t
    | ZeroUint32 \<Rightarrow> mutate_uint32 0 t)"

text \<open>The draw of \<open>r.Float64()\<close> happens only for a rate strictly between 0 and 1.\<close>

definition choose_strategy :: "strategy list \<Rightarrow> tx \<Rightarrow> (tx \<times> bool) rnd" where
  "choose_strategy m t =
     (let el = filter (\<lambda>st. canApply st t) m
      in if el = [] then rret (t, False)
         else rbind (IntN (length el)) (\<lambda>i. rbind (mutate (el ! i) t) (\<lambda>t'. rret (t', True))))"

definition Maybe :: "strategy list \<Rightarrow> tx \<Rightarrow> rat \<Rightarrow> (tx \<times> bool) rnd" where
  "Maybe m t rate =
     (if rate \<le> 0 then rret (t, False)
      else if rate < 1 then
        rbind Float64 (\<lambda>x. if rate \<le> x then rret (t, False) else choose_strategy m t)
      else choose_strategy m t)"

section \<open>One field, and never the type or the secret\<close>

definition one_field_changed :: "tx \<Rightarrow> tx \<Rightarrow> bool" where
  "one_field_changed t t' \<longleftrightarrow> tx_secret t' = tx_secret t \<and>
     (\<exists>k. k \<noteq> ''TransactionType'' \<and> map_of (tx_fields t) k \<noteq> None
        \<and> (\<forall>k'. k' \<noteq> k \<longrightarrow> map_of (tx_fields t') k' = map_of (tx_fields t) k'))"

lemma cloneTx_id [simp]: "cloneTx t = t"
  by (simp add: cloneTx_def)

lemma rspec_pick_victim: "cs \<noteq> [] \<Longrightarrow> rspec (pick_victim cs) (\<lambda>v. v \<in> set cs) E"
proof -
  assume ne: "cs \<noteq> []"
  have "sort cs ! i \<in> set cs" if "i < length cs" for i
    using that nth_mem [of i "sort cs"] by simp
  then show ?thesis
    unfolding pick_victim_def Let_def sortStrings_sort
    by (intro rspec_rbind [OF rspec_IntN] rspec_rret) (use ne in auto)
qed

lemma type_not_a_field:
  "''TransactionType'' \<notin> set dropsFieldNames" "''TransactionType'' \<notin> set addrFieldNames"
  "''TransactionType'' \<notin> set uint32FieldNames"
  by (simp_all add: dropsFieldNames_def addrFieldNames_def uint32FieldNames_def)

lemma candidates_present:
  assumes "k \<in> set (candidates_of st t)"
  shows "k \<noteq> ''TransactionType'' \<and> map_of (tx_fields t) k \<noteq> None"
proof (cases st)
  case DeleteField
  with assms type_not_a_field show ?thesis
    by (auto simp: candidates_of_def delete_candidates_def) (metis map_of_eq_None_iff option.exhaust image_eqI fst_conv)
next
  case CorruptDrops
  with assms type_not_a_field show ?thesis
    by (auto simp: candidates_of_def drops_candidates_def as_string_Some_iff)
next
  case CorruptAddress
  with assms type_not_a_field show ?thesis
    by (auto simp: candidates_of_def addr_candidates_def as_string_Some_iff split: option.splits)
next
  case OverflowUint32
  with assms type_not_a_field show ?thesis
    by (auto simp: candidates_of_def uint32_candidates_def as_u32_Some_iff)
next
  case ZeroUint32
  with assms type_not_a_field show ?thesis
    by (auto simp: candidates_of_def uint32_candidates_def as_u32_Some_iff)
qed

lemma rspec_mutate:
  assumes "canApply st t"
  shows "rspec (mutate st t) (one_field_changed t) E"
proof -
  have ne: "candidates_of st t \<noteq> []" using assms by (simp add: canApply_def)
  have one: "one_field_changed t (set_field t k v)" "one_field_changed t (t\<lparr>tx_fields := fdel k (tx_fields t)\<rparr>)"
    if "k \<in> set (candidates_of st t)" for k v
    using candidates_present [OF that] by (auto simp: one_field_changed_def set_field_def)
  show ?thesis
  proof (cases st)
    case DeleteField
    with ne one show ?thesis
      by (simp add: mutate_def mutate_delete_def candidates_of_def)
         (rule rspec_rbind [OF rspec_pick_victim], simp, rule rspec_rret, blast)
  next
    case CorruptDrops
    with ne one show ?thesis
      by (simp add: mutate_def mutate_drops_def candidates_of_def)
         (rule rspec_rbind [OF rspec_pick_victim], simp, rule rspec_rbind [OF rspec_IntN],
          simp add: corrupt_amounts_def, rule rspec_rret, blast)
  next
    case CorruptAddress
    with ne one show ?thesis
      by (simp add: mutate_def mutate_address_def candidates_of_def)
         (rule rspec_rbind [OF rspec_pick_victim], simp, rule rspec_rbind [OF rspec_Uint64],
          rule rspec_rbind [OF rspec_Uint64], rule rspec_rret, blast)
  next
    case OverflowUint32
    with ne one show ?thesis
      by (simp add: mutate_def mutate_uint32_def candidates_of_def)
         (rule rspec_rbind [OF rspec_pick_victim], simp, rule rspec_rret, blast)
  next
    case ZeroUint32
    with ne one show ?thesis
      by (simp add: mutate_def mutate_uint32_def candidates_of_def)
         (rule rspec_rbind [OF rspec_pick_victim], simp, rule rspec_rret, blast)
  qed
qed

lemma rspec_choose:
  "rspec (choose_strategy m t) (\<lambda>(t', b). if b then one_field_changed t t'
     else t' = t \<and> (\<forall>st\<in>set m. \<not> canApply st t)) E"
proof (cases "filter (\<lambda>st. canApply st t) m = []")
  case True
  then show ?thesis by (auto simp: choose_strategy_def filter_empty_conv intro: rspec_rret)
next
  case False
  have can: "canApply (filter (\<lambda>st. canApply st t) m ! i) t"
    if "i < length (filter (\<lambda>st. canApply st t) m)" for i
    using nth_mem [OF that] by simp
  show ?thesis
    unfolding choose_strategy_def Let_def if_not_P [OF False]
    by (rule rspec_rbind [OF rspec_IntN], use False in simp, rule rspec_rbind [OF rspec_mutate],
        erule can, rule rspec_rret, simp)
qed

lemma rspec_Maybe:
  "rspec (Maybe ms t rate) (\<lambda>(t', b). (if b then one_field_changed t t' else t' = t)
     \<and> (b \<or> rate < 1 \<or> (\<forall>st \<in> set ms. \<not> canApply st t))) E"
proof -
  let ?P = "\<lambda>(t', b). (if b then one_field_changed t t' else t' = t)
     \<and> (b \<or> rate < 1 \<or> (\<forall>st \<in> set ms. \<not> canApply st t))"
  have choose: "rspec (choose_strategy ms t) ?P E"
    by (rule rspec_weaken [OF rspec_choose]) (auto split: if_splits)
  have "rspec Float64 (\<lambda>_. True) E"
    unfolding Float64_def by (rule rspec_rbind [OF rspec_Uint64]) (rule rspec_rret, simp)
  note draw = this
  have "rspec (rbind Float64 (\<lambda>x. if rate \<le> x then rret (t, False) else choose_strategy ms t)) ?P E"
    if "rate < 1"
  proof (rule rspec_rbind [OF draw])
    fix x
    show "rspec (if rate \<le> x then rret (t, False) else choose_strategy ms t) ?P E"
    proof (cases "rate \<le> x")
      case True
      then show ?thesis by (simp only: if_True) (rule rspec_rret, simp add: that)
    qed (simp only: if_False choose)
  qed
  moreover have "rate \<le> 0 \<Longrightarrow> rspec (rret (t, False)) ?P E" by (rule rspec_rret) simp
  ultimately show ?thesis unfolding Maybe_def using choose by presburger
qed

end
