(* ===== verification/Generator_Properties.thy ===== *)
theory Generator_Properties
  imports Account_Properties Selection Mutator
begin

text \<open>
  The properties of the transaction generator: what \<open>PickTx\<close> builds and reaches, the states of
  a generator over a run, the multi-signing builder, object ids, picks from the trackers and
  the mutator.
\<close>

section \<open>Selection\<close>

abbreviation sample_generator :: generator where
  "sample_generator \<equiv> NewGenerator sample_pool"

lemma sample_gen_ok: "gen_ok sample_generator"
  by (simp add: gen_ok_def NewGenerator_def sample_pool_def)

text \<open>C1: Every transaction \<open>PickTx\<close> builds is of a registered type whose amendments are all
  enabled and whose guard holds, carries the seed of a wallet of the pool and, but for
  \<open>EscrowCancel\<close>, the seed of its own account; and \<open>PickTx\<close> never panics.\<close>

theorem picked_tx_well_formed:
  assumes "gen_ok g"
  shows "rspec (PickTx all_inits now g enabled) (\<lambda>t. \<exists>c \<in> set all_inits.
     c_type c = TransactionType t \<and> set (c_requires c) \<subseteq> set enabled
     \<and> (case c_can c of None \<Rightarrow> True | Some can \<Rightarrow> can g)
     \<and> (\<exists>w \<in> set (g_pool g). tx_secret t = w_seed w)
     \<and> (c_type c = ''EscrowCancel'' \<or> signed_by_account g t)) (\<lambda>_. True)"
  by (rule rspec_weaken [OF rspec_PickTx [OF assms]]) auto

theorem picked_tx_well_formed_witness:
  "rspec (PickTx all_inits 0 sample_generator []) (\<lambda>t. \<exists>c \<in> set all_inits. c_type c = TransactionType t \<and> c_requires c = [])
     (\<lambda>_. True)"
  by (rule rspec_weaken [OF picked_tx_well_formed [OF sample_gen_ok]]) auto

text \<open>And every transaction that the builder of an eligible type can build is reached by
  \<open>PickTx\<close> for some random source.\<close>

theorem every_eligible_tx_reached:
  assumes "c \<in> set all_inits" and "set (c_requires c) \<subseteq> set enabled"
    and "case c_can c of None \<Rightarrow> True | Some can \<Rightarrow> can g" and "can_yield (c_build c now g) t"
  shows "can_yield (PickTx all_inits now g enabled) t"
  by (rule PickTx_reaches [OF _ assms(4)]) (use assms(1-3) in \<open>simp_all add: set_eligible all_inits_def\<close>)

theorem every_eligible_tx_reached_witness:
  "can_yield (PickTx all_inits 0 sample_generator [])
     (Tx_of ''TicketCreate'' ''rC'' [(''TicketCount'', GU32 3)] ''srC'')"
proof (rule every_eligible_tx_reached)
  have "can_yield (TicketCreate sample_generator)
      (Tx_of ''TicketCreate'' (w_address (g_pool sample_generator ! 2)) [(''TicketCount'', GU32 (of_nat (2 + 1)))]
        (w_seed (g_pool sample_generator ! 2)))"
    unfolding TicketCreate_def
    by (rule can_yield_rbind [OF can_yield_Pick can_yield_rbind [OF can_yield_IntN can_yield_rret]])
      (simp_all add: NewGenerator_def sample_pool_def)
  then show "can_yield (c_build cand_TicketCreate 0 sample_generator)
      (Tx_of ''TicketCreate'' ''rC'' [(''TicketCount'', GU32 3)] ''srC'')"
    by (simp add: cand_TicketCreate_def NewGenerator_def sample_pool_def sample_wallet_def)
qed (simp_all add: all_inits_def cand_TicketCreate_def)

text \<open>C25: Which transaction comes out does not depend on the iteration order of the registry (a
  Go map) or of the amendments, for a registry without repeated types.\<close>

theorem registry_order_irrelevant:
  assumes "mset reg = mset reg'" and "distinct (map c_type reg)" and "set en = set en'"
  shows "PickTx reg now g en = PickTx reg' now g en'"
  by (rule PickTx_cong [OF assms])

theorem registry_order_irrelevant_witness:
  "PickTx (rev all_inits) 0 sample_generator [''Checks'', ''DID''] = PickTx all_inits 0 sample_generator [''DID'', ''Checks'']"
  by (rule registry_order_irrelevant) (auto simp: rev_map [symmetric] all_types_distinct)

section \<open>States of a generator over a run\<close>

text \<open>A generator starts from a pool and records successful transactions of the pool's accounts.\<close>

inductive gen_run :: "codec \<Rightarrow> 's lister \<Rightarrow> pool \<Rightarrow> generator \<Rightarrow> bool" for c lister p where
  fresh: "gen_run c lister p (NewGenerator p)"
| recorded: "gen_run c lister p g \<Longrightarrow> fieldString (tx_fields t) ''Account'' \<in> w_address ` set p \<Longrightarrow>
     gen_run c lister p (fst (RecordSuccess c lister (Some t) seq g s))"

lemma gen_run_facts:
  assumes "gen_run c lister p g"
  shows "g_pool g = p \<and> g_seeds g = pool_seeds p \<and> trackers_ok (g_tracker g)
    \<and> signers_in (w_address ` set p) (g_tracker g)"
  using assms
proof (induction rule: gen_run.induct)
  case fresh
  then show ?case by (simp add: NewGenerator_def trackers_ok_New signers_in_New)
next
  case (recorded g t seq s)
  then show ?case
    by (simp add: RecordSuccess_tracker RecordSuccess_pool trackers_ok_recorded signers_in_recorded)
qed


definition sample_codec :: codec where
  "sample_codec = \<lparr>sha512 = id, decode_address = (\<lambda>_. Inr [])\<rparr>"

definition sample_lister :: "unit lister" where
  "sample_lister = Some (\<lambda>a s. (Inr [''N1''], s))"

definition did_generator :: generator where
  "did_generator = fst (RecordSuccess sample_codec sample_lister
     (Some (Tx_of ''DIDSet'' ''rA'' [] ''srA'')) 5 sample_generator ())"

lemma did_generator_run: "gen_run sample_codec sample_lister sample_pool did_generator"
  unfolding did_generator_def
  by (rule gen_run.recorded [OF gen_run.fresh])
    (simp add: Tx_of_def fieldString_def sample_pool_def sample_wallet_def)

lemma did_generator_dids: "did_owners (tr_dids (g_tracker did_generator)) = [''rA'']"
  by (simp add: did_generator_def RecordSuccess_def Tx_of_def fieldString_def TransactionType_def record_in_def
      Let_def NewGenerator_def NewTracker_def newDIDTracker_def DIDTracker_Record_def)


text \<open>The trackers stay well-formed over every run: the DID owners are distinct and known,
  the NFTs are filed once and under their owner.\<close>

theorem trackers_stay_ok:
  assumes "gen_run c lister p g"
  shows "did_ok (tr_dids (g_tracker g)) \<and> nft_ok (tr_nfts (g_tracker g))"
  using gen_run_facts [OF assms] by (simp add: trackers_ok_def)

theorem trackers_stay_ok_witness: "did_ok (tr_dids (g_tracker did_generator))"
  using trackers_stay_ok [OF did_generator_run] by blast

section \<open>Multi-signing\<close>

text \<open>The loop of \<open>SignerListSet\<close>, when it ends, has the number of signers asked for: distinct
  addresses of the pool, none of them the account itself, with weights 1 to 3 whose sum is the
  quorum; so the list can always reach its quorum.\<close>

theorem signer_list_satisfiable:
  assumes "acct \<in> set p"
  shows "rspec (signer_loop p n [w_address acct] [] 0) (\<lambda>(entries, quorum).
     length entries = n \<and> distinct (map fst entries) \<and> set (map fst entries) \<subseteq> w_address ` set p - {w_address acct}
     \<and> quorum = sum_list (map snd entries) \<and> set (map snd entries) \<subseteq> {1, 2, 3}) (\<lambda>_. False)"
  unfolding rspec_def
proof
  fix r
  have "p \<noteq> []" using assms by auto
  note spec = signer_loop_spec [OF this, of n "[w_address acct]" "[]" 0 "w_address acct" r]
  show "case fst (signer_loop p n [w_address acct] [] 0 r) of
      Done x \<Rightarrow> (case x of (entries, quorum) \<Rightarrow> length entries = n \<and> distinct (map fst entries)
        \<and> set (map fst entries) \<subseteq> w_address ` set p - {w_address acct}
        \<and> quorum = sum_list (map snd entries) \<and> set (map snd entries) \<subseteq> {1, 2, 3})
    | Failed e \<Rightarrow> False | Panicked e \<Rightarrow> False | Starved \<Rightarrow> True"
  proof (cases "fst (signer_loop p n [w_address acct] [] 0 r)")
    case (Done x)
    with spec obtain es q u where x: "x = (es, q)" and len: "length es = n"
      and fresh: "w_address acct \<notin> set (map fst es)" and ok: "signers_ok p n u es q"
      by (cases x) (auto simp: signers_ok_def)
    from ok have "distinct (map fst es)" "set (map fst es) \<subseteq> w_address ` set p" "q = sum_list (map snd es)"
      "set (map snd es) \<subseteq> {1, 2, 3}" unfolding signers_ok_def by blast+
    with len fresh show ?thesis unfolding Done x by (simp only: outcome.case prod.case) blast
  qed (use spec in \<open>simp_all add: signers_ok_def\<close>)
qed

theorem signer_list_satisfiable_witness:
  "rspec (signer_loop sample_pool 2 [''rA''] [] 0) (\<lambda>(entries, quorum). length entries = 2 \<and> ''rA'' \<notin> set (map fst entries))
     (\<lambda>_. False)"
proof -
  have "sample_wallet 0 ''rA'' \<in> set sample_pool" by (simp add: sample_pool_def)
  from signer_list_satisfiable [OF this, of 2]
  have "rspec (signer_loop sample_pool 2 [''rA''] [] 0) (\<lambda>(entries, quorum). length entries = 2 \<and> distinct (map fst entries)
     \<and> set (map fst entries) \<subseteq> w_address ` set sample_pool - {''rA''}
     \<and> quorum = sum_list (map snd entries) \<and> set (map snd entries) \<subseteq> {1, 2, 3}) (\<lambda>_. False)"
    by (simp only: sample_wallet_def wallet.simps)
  then show ?thesis by (rule rspec_weaken) auto
qed

text \<open>With fewer other addresses in the pool than signers asked for, the loop never ends: it
  consumes every random source, however long.\<close>

theorem signer_list_livelock:
  assumes "card (w_address ` set p - {w_address acct}) < n" and "p \<noteq> []"
  shows "fst (signer_loop p n [w_address acct] [] 0 r) = Starved"
  by (rule signer_loop_starves [OF assms(2)]) (use assms(1) in simp)

theorem signer_list_livelock_witness:
  "fst (signer_loop [sample_wallet 0 ''rA'', sample_wallet 1 ''rB'', sample_wallet 2 ''rC''] 3 [''rA''] [] 0 [5, 1, 2]) = Starved"
  using signer_list_livelock [of "[sample_wallet 0 ''rA'', sample_wallet 1 ''rB'', sample_wallet 2 ''rC'']" "sample_wallet 0 ''rA''" 3 "[5, 1, 2]"]
  by (simp add: sample_wallet_def)

section \<open>Object ids\<close>

definition id_kinds :: "((codec \<Rightarrow> string \<Rightarrow> 32 word \<Rightarrow> string go_result) \<times> nat) set" where
  "id_kinds = {(checkID, spaceCheck), (nftokenOfferID, spaceNFTokenOff), (permissionedDomainID, spacePermDomain)}"

lemma id_kinds_Inr:
  "(f, sp) \<in> id_kinds \<Longrightarrow> f c a s = Inr x \<Longrightarrow>
     sp < 65536 \<and> (\<exists>i. decode_address c a = Inr i \<and> x = hex_upper (indexHash c sp [i, seqBytes s]))"
  by (auto simp: id_kinds_def checkID_def nftokenOfferID_def permissionedDomainID_def ebind_Inr_iff hexUpper_def
      spaceCheck_def spaceNFTokenOff_def spacePermDomain_def)

text \<open>Ids of checks, NFT offers and domains never clash: when two of them are equal they are
  ids of the same kind of object, the same account and the same sequence, or the two inputs
  of the hash are a collision of SHA-512Half.\<close>

theorem object_ids_distinct:
  assumes "\<And>a i. decode_address c a = Inr i \<Longrightarrow> length i = 20"
    and "(f, sp) \<in> id_kinds" and "(g, sp') \<in> id_kinds" and "f c a s = Inr x" and "g c b t = Inr x"
  shows "\<exists>i j. decode_address c a = Inr i \<and> decode_address c b = Inr j
    \<and> (sp = sp' \<and> i = j \<and> s = t \<or> collide c (preimage sp i s) (preimage sp' j t))"
proof -
  from id_kinds_Inr [OF assms(2, 4)] id_kinds_Inr [OF assms(3, 5)] obtain i j where
    ij: "decode_address c a = Inr i" "decode_address c b = Inr j" "sp < 65536" "sp' < 65536"
    "indexHash c sp [i, seqBytes s] = indexHash c sp' [j, seqBytes t]"
    using hex_upper_inj by metis
  then have "preimage sp i s = preimage sp' j t \<or> collide c (preimage sp i s) (preimage sp' j t)"
    by (simp add: indexHash_preimage)
  with ij assms(1) preimage_inj [of sp i s sp' j t] show ?thesis by metis
qed

definition id_codec :: codec where
  "id_codec = \<lparr>sha512 = id, decode_address = (\<lambda>_. Inr (replicate 20 7))\<rparr>"

theorem object_ids_distinct_witness: "checkID id_codec ''rA'' 1 \<noteq> nftokenOfferID id_codec ''rA'' 1"
proof
  assume eq: "checkID id_codec ''rA'' 1 = nftokenOfferID id_codec ''rA'' 1"
  obtain x where x: "checkID id_codec ''rA'' 1 = Inr x"
    by (simp add: checkID_def accountIDBytes_def id_codec_def ebind_def ewrap_def)
  have "\<exists>i j. decode_address id_codec ''rA'' = Inr i \<and> decode_address id_codec ''rA'' = Inr j
    \<and> (spaceCheck = spaceNFTokenOff \<and> i = j \<and> (1 :: 32 word) = 1
       \<or> collide id_codec (preimage spaceCheck i 1) (preimage spaceNFTokenOff j 1))"
    using object_ids_distinct [where c = id_codec and f = checkID and g = nftokenOfferID and sp = spaceCheck
        and sp' = spaceNFTokenOff and a = "''rA''" and b = "''rA''" and s = 1 and t = 1 and x = x] eq x
    by (simp add: id_kinds_def) (simp add: id_codec_def)
  then show False
    by (auto simp: collide_def id_codec_def preimage_def spaceCheck_def spaceNFTokenOff_def)
qed

section \<open>Picks from the trackers\<close>

text \<open>A pick depends only on the random source and the recorded objects, not on the order in
  which they were recorded, and reaches every one of them.\<close>

theorem pick_order_irrelevant:
  assumes "mset xs = mset ys" and "inj_on key (set xs)" and "length xs \<le> 2 ^ 63"
  shows "pickDeterministic key xs = pickDeterministic key ys
    \<and> (\<forall>x \<in> set xs. can_yield (pickDeterministic key ys) (Some x))"
  using pickDeterministic_order [OF assms(1, 2)] pickDeterministic_all [of _ xs key] assms(3) by metis

theorem pick_order_irrelevant_witness:
  "can_yield (pickDeterministic id [''k2'', ''k1'']) (Some ''k1'')"
  using pick_order_irrelevant [of "[''k1'', ''k2'']" "[''k2'', ''k1'']" id] by simp

section \<open>The mutator\<close>

text \<open>\<open>Maybe\<close> returns the transaction unchanged, or changed in exactly one field that it
  had, never its type and never the secret; at rate 1 or more it changes it whenever one of the
  five strategies applies.\<close>

theorem mutation_changes_one_field:
  "rspec (Maybe NewMutator t rate) (\<lambda>(t', b). (if b then one_field_changed t t' else t' = t)
     \<and> (b \<or> rate < 1 \<or> (\<forall>st \<in> set NewMutator. \<not> canApply st t))) (\<lambda>_. False)"
  by (rule rspec_Maybe)

theorem mutation_changes_one_field_witness:
  "rspec (Maybe NewMutator (Tx_of ''DIDSet'' ''rA'' [] ''srA'') (1/2)) (\<lambda>(t', b). tx_secret t' = ''srA'') (\<lambda>_. False)"
  by (rule rspec_weaken [OF mutation_changes_one_field]) (auto simp: one_field_changed_def Tx_of_def split: if_splits)

text \<open>The exchange sort of the mutator is sorting: for every slice the result is the sorted
  permutation of its input.\<close>

theorem sortStrings_sorts:
  "sortStrings (s :: string list) = sort s"
  by (rule sortStrings_sort)

end
