(* ===== verification/Corpus.thy ===== *)
theory Corpus
  imports Go_Base
begin

text \<open>
  Divergences, their signatures and the on-disk corpus (\<open>sidecar/internal/fuzz/corpus\<close>).

  The disk is a map from paths to contents. The operating system may refuse an operation
  on a path: the argument \<open>refuses\<close> says which. JSON encoding (\<open>marshal\<close>) and the format of
  a time stamp (\<open>stamp\<close>) are parameters. Go reads a clock for a divergence without a time:
  the argument \<open>now\<close>.
\<close>

section \<open>Divergences and signatures\<close>

record divergence =
  dg_seed :: "64 word"
  dg_kind :: string
  dg_description :: string
  dg_details :: fields
  dg_time :: "int option"

record signature =
  sg_kind :: string
  sg_tx_type :: string
  sg_field :: string
  sg_invariant :: string

text \<open>\<open>v, _ := m[key].(string)\<close>.\<close>

definition string_field :: "fields \<Rightarrow> string \<Rightarrow> string" where
  "string_field m key = (case as_string (map_of m key) of Some s \<Rightarrow> s | None \<Rightarrow> [])"

definition stateHashField :: "fields \<Rightarrow> string" where
  "stateHashField details = (case as_map (map_of details ''comparison'') of
      None \<Rightarrow> []
    | Some cmp \<Rightarrow>
        (case as_arr (map_of cmp ''divergences'') of
           Some (d # ds) \<Rightarrow> (case as_map (Some d) of None \<Rightarrow> [] | Some d0 \<Rightarrow> string_field d0 ''field'')
         | _ \<Rightarrow> []))"

definition Signature :: "divergence option \<Rightarrow> signature" where
  "Signature d = (case d of
      None \<Rightarrow> \<lparr>sg_kind = [], sg_tx_type = [], sg_field = [], sg_invariant = []\<rparr>
    | Some d \<Rightarrow>
        (let s = \<lparr>sg_kind = dg_kind d, sg_tx_type = [], sg_field = [], sg_invariant = []\<rparr>
         in if dg_kind d = ''tx_result'' \<or> dg_kind d = ''metadata''
            then s\<lparr>sg_tx_type := string_field (dg_details d) ''tx_type''\<rparr>
            else if dg_kind d = ''state_hash'' then s\<lparr>sg_field := stateHashField (dg_details d)\<rparr>
            else if dg_kind d = ''invariant''
            then s\<lparr>sg_invariant := string_field (dg_details d) ''invariant''\<rparr>
            else s))"

definition Matches :: "signature \<Rightarrow> divergence option \<Rightarrow> bool" where
  "Matches s d = (case d of None \<Rightarrow> False | Some d \<Rightarrow>
     if dg_kind d \<noteq> sg_kind s then False
     else if sg_kind s = ''tx_result'' \<or> sg_kind s = ''metadata'' then
       (if sg_tx_type s = [] then True else string_field (dg_details d) ''tx_type'' = sg_tx_type s)
     else if sg_kind s = ''state_hash'' then
       (if sg_field s = [] then True else stateHashField (dg_details d) = sg_field s)
     else if sg_kind s = ''invariant'' then
       (if sg_invariant s = [] then True else string_field (dg_details d) ''invariant'' = sg_invariant s)
     else True)"

definition safe_char :: "char \<Rightarrow> bool" where
  "safe_char c = (let n = of_char c :: nat in
     97 \<le> n \<and> n \<le> 122 \<or> 65 \<le> n \<and> n \<le> 90 \<or> 48 \<le> n \<and> n \<le> 57
     \<or> c = CHR ''-'' \<or> c = CHR ''_'' \<or> c = CHR ''.'')"

definition sanitize :: "string \<Rightarrow> string" where
  "sanitize s = map (\<lambda>c. if safe_char c then c else CHR ''_'') s"

definition Key :: "signature \<Rightarrow> string" where
  "Key s = str_join ''_'' (sg_kind s # map sanitize
     (filter (\<lambda>p. p \<noteq> []) [sg_tx_type s, sg_field s, sg_invariant s]))"

text \<open>\<open>LoadDivergenceSignature\<close>: the file, decoded by the parameter \<open>unmarshal\<close>.\<close>

definition LoadDivergenceSignature ::
    "(string \<Rightarrow> divergence go_result) \<Rightarrow> string go_result \<Rightarrow> signature go_result" where
  "LoadDivergenceSignature unmarshal file =
     ebind (ewrap ''read divergence: '' file) (\<lambda>data.
     ebind (ewrap ''parse divergence: '' (unmarshal data)) (\<lambda>d.
       if dg_kind d = [] then Inl ''divergence has no kind'' else Inr (Signature (Some d))))"

section \<open>The disk\<close>

type_synonym disk = "(string \<times> string) list"

definition disk_read :: "(string \<Rightarrow> bool) \<Rightarrow> string \<Rightarrow> disk \<Rightarrow> string go_result" where
  "disk_read refuses path d =
     (if refuses path then Inl ''refused''
      else case map_of d path of None \<Rightarrow> Inl ''no such file'' | Some data \<Rightarrow> Inr data)"

definition disk_write :: "(string \<Rightarrow> bool) \<Rightarrow> string \<Rightarrow> string \<Rightarrow> disk \<Rightarrow> unit go_result \<times> disk" where
  "disk_write refuses path data d =
     (if refuses path then (Inl ''refused'', d) else (Inr (), AList.update path data d))"

definition path_join :: "string list \<Rightarrow> string" where
  "path_join parts = str_join ''/'' parts"

section \<open>The recorder\<close>

record recorder =
  rc_base :: string
  rc_mirror :: string
  rc_seed :: "64 word"
  rc_counter :: "64 word"

definition NewRecorder :: "string \<Rightarrow> 64 word \<Rightarrow> recorder" where
  "NewRecorder base seed = \<lparr>rc_base = base, rc_mirror = [], rc_seed = seed, rc_counter = 0\<rparr>"

text \<open>The verb \<open>%06d\<close>.\<close>

definition pad6 :: "nat \<Rightarrow> string" where
  "pad6 n = replicate (6 - length (nat_dec n)) (CHR ''0'') @ nat_dec n"

definition file_name :: "(int \<Rightarrow> string) \<Rightarrow> int \<Rightarrow> 64 word \<Rightarrow> string" where
  "file_name stamp t n = stamp t @ ''_'' @ pad6 (unat n) @ ''.json''"

definition read_count :: "(string \<Rightarrow> bool) \<Rightarrow> string \<Rightarrow> disk \<Rightarrow> int" where
  "read_count refuses path d = (case disk_read refuses path d of
      Inl _ \<Rightarrow> 0
    | Inr text \<Rightarrow> (case sscanf_d (trim_space text) of Inr n \<Rightarrow> n | Inl _ \<Rightarrow> 0))"

text \<open>
  \<open>updateSignatureIndex\<close>. Only \<open>os.IsNotExist\<close> of the stat makes a first sighting; a
  refused directory is the error of \<open>MkdirAll\<close>.
\<close>

definition updateSignatureIndex ::
    "(string \<Rightarrow> bool) \<Rightarrow> recorder \<Rightarrow> divergence \<Rightarrow> string \<Rightarrow> disk \<Rightarrow> bool go_result \<times> disk" where
  "updateSignatureIndex refuses r dv data d =
     (let key = Key (Signature (Some dv)) in
      if key = [] then (Inr False, d)
      else
       (let idx = path_join [rc_base r, ''signatures'', key];
            firstPath = path_join [idx, ''first.json''];
            countPath = path_join [idx, ''count.txt'']
        in if refuses idx then (Inl ''refused'', d)
           else
            (let fresh = (\<not> refuses firstPath \<and> map_of d firstPath = None)
             in case (if fresh then disk_write refuses firstPath data d else (Inr (), d)) of
                  (Inl e, d1) \<Rightarrow> (Inl e, d1)
                | (Inr _, d1) \<Rightarrow>
                    (let count = wrap64 (read_count refuses countPath d1 + 1)
                     in case disk_write refuses countPath (int_dec count @ [CHR 0x0A]) d1 of
                          (Inl e, d2) \<Rightarrow> (Inl e, d2)
                        | (Inr _, d2) \<Rightarrow> (Inr fresh, d2)))))"

definition fill_divergence :: "recorder \<Rightarrow> int \<Rightarrow> divergence \<Rightarrow> divergence" where
  "fill_divergence r now dv =
     dv\<lparr>dg_seed := (if dg_seed dv = 0 then rc_seed r else dg_seed dv),
        dg_time := (case dg_time dv of None \<Rightarrow> Some now | Some t \<Rightarrow> Some t)\<rparr>"

definition mirror_write :: "(string \<Rightarrow> bool) \<Rightarrow> recorder \<Rightarrow> string \<Rightarrow> string \<Rightarrow> disk \<Rightarrow> disk" where
  "mirror_write refuses r name data d =
     (if rc_mirror r = [] then d
      else let mDir = path_join [rc_mirror r, ''divergences'']
           in if refuses mDir then d else snd (disk_write refuses (path_join [mDir, name]) data d))"

definition RecordDivergence ::
    "(int \<Rightarrow> string) \<Rightarrow> (divergence \<Rightarrow> string go_result) \<Rightarrow> (string \<Rightarrow> bool) \<Rightarrow> int
      \<Rightarrow> divergence \<Rightarrow> recorder \<times> disk \<Rightarrow> bool go_result \<times> recorder \<times> disk" where
  "RecordDivergence stamp marshal refuses now dv rd = (case rd of (r, d) \<Rightarrow>
     (let dv1 = fill_divergence r now dv;
          dir = path_join [rc_base r, ''divergences'']
      in if refuses dir then (Inl (''mkdir '' @ dir @ '': refused''), r, d)
         else
          (let n = rc_counter r + 1;
               r1 = r\<lparr>rc_counter := n\<rparr>;
               name = file_name stamp (the (dg_time dv1)) n;
               path = path_join [dir, name]
           in case marshal dv1 of
                Inl e \<Rightarrow> (Inl (''marshal divergence: '' @ e), r1, d)
              | Inr data \<Rightarrow>
                  (case disk_write refuses path data d of
                     (Inl e, d1) \<Rightarrow> (Inl (''write '' @ path @ '': '' @ e), r1, d1)
                   | (Inr _, d1) \<Rightarrow>
                       (case updateSignatureIndex refuses r1 dv1 data (mirror_write refuses r1 name data d1) of
                          (res, d2) \<Rightarrow> (ewrap ''signature index: '' res, r1, d2))))))"

section \<open>Facts about signatures\<close>

lemma Matches_Signature: "Matches (Signature (Some d)) (Some d)"
  by (simp add: Matches_def Signature_def Let_def)

lemma Matches_kind: "Matches s (Some d) \<Longrightarrow> dg_kind d = sg_kind s"
  by (simp add: Matches_def split: if_splits)

text \<open>A match without wildcards is equality of signatures.\<close>

definition concrete :: "signature \<Rightarrow> bool" where
  "concrete s \<longleftrightarrow>
     ((sg_kind s = ''tx_result'' \<or> sg_kind s = ''metadata'') \<longrightarrow> sg_tx_type s \<noteq> [] \<and> sg_field s = [] \<and> sg_invariant s = [])
   \<and> (sg_kind s = ''state_hash'' \<longrightarrow> sg_field s \<noteq> [] \<and> sg_tx_type s = [] \<and> sg_invariant s = [])
   \<and> (sg_kind s = ''invariant'' \<longrightarrow> sg_invariant s \<noteq> [] \<and> sg_tx_type s = [] \<and> sg_field s = [])
   \<and> (sg_kind s \<notin> {''tx_result'', ''metadata'', ''state_hash'', ''invariant''} \<longrightarrow>
        sg_tx_type s = [] \<and> sg_field s = [] \<and> sg_invariant s = [])"

lemma Matches_iff_Signature:
  "concrete s \<Longrightarrow> Matches s (Some d) \<longleftrightarrow> Signature (Some d) = s"
  by (cases s) (auto simp: Matches_def Signature_def concrete_def Let_def)

lemma sanitize_safe: "c \<in> set (sanitize s) \<Longrightarrow> safe_char c"
  by (auto simp: sanitize_def) (simp add: safe_char_def)

lemma set_str_join: "set (str_join sep xs) \<subseteq> set sep \<union> (\<Union>x\<in>set xs. set x)"
  by (induction sep xs rule: str_join.induct) auto

text \<open>Every character of a key but those of the kind is safe in a file name.\<close>

lemma Key_safe: "c \<in> set (Key s) \<Longrightarrow> c \<in> set (sg_kind s) \<or> safe_char c"
proof -
  assume "c \<in> set (Key s)"
  then have "c \<in> set ''_'' \<union> (\<Union>x\<in>set (sg_kind s # map sanitize
     (filter (\<lambda>p. p \<noteq> []) [sg_tx_type s, sg_field s, sg_invariant s])). set x)"
    unfolding Key_def using set_str_join by blast
  then show ?thesis
    by (auto simp: safe_char_def dest: sanitize_safe split: if_splits)
qed

section \<open>Facts about file names\<close>

lemma no_underscore_pad6: "CHR ''_'' \<notin> set (pad6 n)"
  using nat_dec_digits [of "CHR ''_''" n] by (auto simp: pad6_def)

lemma dec_acc_zeros: "dec_acc (replicate k (CHR ''0'') @ s) 0 = dec_acc s 0"
  by (induction k) (simp_all add: digit_val_def)

lemma pad6_inj: "pad6 m = pad6 n \<Longrightarrow> m = n"
proof -
  assume eq: "pad6 m = pad6 n"
  have "parse_nat (pad6 k) = Some k" for k
  proof -
    have "parse_nat (nat_dec k) = Some k" by simp
    then have "dec_acc (nat_dec k) 0 = Some k" by (simp add: parse_nat_def)
    then show ?thesis by (simp add: parse_nat_def pad6_def dec_acc_zeros)
  qed
  with eq show ?thesis by (metis option.inject)
qed

lemma file_name_inj:
  assumes "file_name stamp t m = file_name stamp t' n" and "CHR ''_'' \<notin> set (stamp t)" "CHR ''_'' \<notin> set (stamp t')"
  shows "m = n"
proof -
  have cut: "takeWhile (\<lambda>c. c \<noteq> CHR ''_'') (file_name stamp u k) = stamp u" if "CHR ''_'' \<notin> set (stamp u)" for u k
    using that by (auto simp: file_name_def takeWhile_append)
  have "stamp t = stamp t'" using cut assms by metis
  with assms(1) have "pad6 (unat m) = pad6 (unat n)" by (simp add: file_name_def)
  then show ?thesis using pad6_inj unsigned_word_eqI by blast
qed

section \<open>Facts about the recorder\<close>

definition nothing_refused :: "string \<Rightarrow> bool" where
  "nothing_refused p = False"

lemma RecordDivergence_counter:
  assumes "RecordDivergence stamp marshal refuses now dv (r, d) = (res, r', d')"
  shows "rc_counter r' = rc_counter r \<or> rc_counter r' = rc_counter r + 1"
    and "rc_base r' = rc_base r" "rc_seed r' = rc_seed r"
  using assms by (auto simp: RecordDivergence_def Let_def split: if_splits sum.splits prod.splits)

lemma updateSignatureIndex_frame:
  assumes "updateSignatureIndex refuses r dv data d = (res, d')"
    and "p \<noteq> path_join [path_join [rc_base r, ''signatures'', Key (Signature (Some dv))], ''first.json'']"
    and "p \<noteq> path_join [path_join [rc_base r, ''signatures'', Key (Signature (Some dv))], ''count.txt'']"
  shows "map_of d' p = map_of d p"
  using assms
  by (auto simp: updateSignatureIndex_def disk_write_def Let_def update_conv'
      split: if_splits sum.splits prod.splits)

definition first_path :: "recorder \<Rightarrow> divergence \<Rightarrow> string" where
  "first_path r dv = path_join [path_join [rc_base r, ''signatures'', Key (Signature (Some dv))], ''first.json'']"

definition count_path :: "recorder \<Rightarrow> divergence \<Rightarrow> string" where
  "count_path r dv = path_join [path_join [rc_base r, ''signatures'', Key (Signature (Some dv))], ''count.txt'']"

lemma index_paths_differ: "first_path r dv \<noteq> count_path r dv"
  by (simp add: first_path_def count_path_def path_join_def)

lemma divergence_path_differs:
  "path_join [path_join [rc_base r, ''divergences''], name] \<noteq> first_path r dv"
  "path_join [path_join [rc_base r, ''divergences''], name] \<noteq> count_path r dv"
  by (simp_all add: first_path_def count_path_def path_join_def)

lemma signature_filled [simp]: "Signature (Some (fill_divergence r now dv)) = Signature (Some dv)"
  by (simp add: Signature_def fill_divergence_def Let_def)

lemma index_paths_filled [simp]:
  "first_path (r\<lparr>rc_counter := n\<rparr>) dv = first_path r dv" "count_path (r\<lparr>rc_counter := n\<rparr>) dv = count_path r dv"
  "first_path r (fill_divergence s now dv) = first_path r dv"
  "count_path r (fill_divergence s now dv) = count_path r dv"
  by (simp_all add: first_path_def count_path_def)

lemma updateSignatureIndex_ok:
  assumes "updateSignatureIndex (\<lambda>_. False) r dv data d = (res, d')" and "Key (Signature (Some dv)) \<noteq> []"
  shows "res = Inr (map_of d (first_path r dv) = None)"
    and "map_of d' (first_path r dv) \<noteq> None"
    and "read_count (\<lambda>_. False) (count_path r dv) d = c \<Longrightarrow> 0 \<le> c \<Longrightarrow> c + 1 < 2 ^ 63 \<Longrightarrow>
         read_count (\<lambda>_. False) (count_path r dv) d' = c + 1"
proof -
  have frame: "read_count (\<lambda>_. False) (count_path r dv) (AList.update (first_path r dv) data d)
      = read_count (\<lambda>_. False) (count_path r dv) d"
    using index_paths_differ [of r dv] by (simp add: read_count_def disk_read_def update_conv')
  note unf = updateSignatureIndex_def Let_def first_path_def [symmetric] count_path_def [symmetric] disk_write_def
  show "res = Inr (map_of d (first_path r dv) = None)"
    using assms by (auto simp: unf split: if_splits)
  show "map_of d' (first_path r dv) \<noteq> None"
    using assms index_paths_differ [of r dv] by (auto simp: unf update_conv' split: if_splits)
  assume c: "read_count (\<lambda>_. False) (count_path r dv) d = c" "0 \<le> c" "c + 1 < 2 ^ 63"
  then have line: "wrap64 (c + 1) = c + 1" by (intro wrap64_id) auto
  have "map_of d' (count_path r dv) = Some (int_dec (c + 1) @ [CHR 0x0A])"
    using assms c(1) frame line by (auto simp: unf update_conv' split: if_splits)
  then show "read_count (\<lambda>_. False) (count_path r dv) d' = c + 1"
    using c sscanf_line [of "c + 1"] by (simp add: read_count_def disk_read_def)
qed

text \<open>On a disk that refuses nothing: the verdict, the index and the counter.\<close>

lemma RecordDivergence_ok:
  assumes run: "RecordDivergence stamp marshal (\<lambda>_. False) now dv (r, d) = (Inr b, r', d')"
    and key: "Key (Signature (Some dv)) \<noteq> []" and mirror: "rc_mirror r = []"
  shows "b \<longleftrightarrow> map_of d (first_path r dv) = None" and "map_of d' (first_path r dv) \<noteq> None"
    and "read_count (\<lambda>_. False) (count_path r dv) d = c \<Longrightarrow> 0 \<le> c \<Longrightarrow> c + 1 < 2 ^ 63 \<Longrightarrow>
         read_count (\<lambda>_. False) (count_path r dv) d' = c + 1"
    and "rc_counter r' = rc_counter r + 1" and "rc_mirror r' = []" and "rc_base r' = rc_base r"
proof -
  let ?dv = "fill_divergence r now dv" and ?r = "r\<lparr>rc_counter := rc_counter r + 1\<rparr>"
  let ?path = "path_join [path_join [rc_base r, ''divergences''],
     file_name stamp (the (dg_time ?dv)) (rc_counter r + 1)]"
  from run obtain data where data: "marshal ?dv = Inr data"
    by (auto simp: RecordDivergence_def Let_def split: sum.splits)
  define d1 where "d1 = AList.update ?path data d"
  obtain res d2 where idx: "updateSignatureIndex (\<lambda>_. False) ?r ?dv data d1 = (res, d2)" by fastforce
  have out: "res = Inr b" "d' = d2" "r' = ?r"
    using run data idx mirror
    by (auto simp: RecordDivergence_def Let_def disk_write_def mirror_write_def d1_def ewrap_def split: sum.splits)
  have same: "map_of d1 (first_path r dv) = map_of d (first_path r dv)"
    "read_count (\<lambda>_. False) (count_path r dv) d1 = read_count (\<lambda>_. False) (count_path r dv) d"
    using divergence_path_differs [of r _ dv]
    by (simp_all add: d1_def update_conv' read_count_def disk_read_def not_sym)
  note ok = updateSignatureIndex_ok [OF idx, simplified, OF key]
  show "b \<longleftrightarrow> map_of d (first_path r dv) = None" using ok(1) out(1) same(1) by auto
  show "map_of d' (first_path r dv) \<noteq> None" using ok(2) out(2) by auto
  show "read_count (\<lambda>_. False) (count_path r dv) d' = c + 1"
    if "read_count (\<lambda>_. False) (count_path r dv) d = c" "0 \<le> c" "c + 1 < 2 ^ 63" for c
    using ok(3) [of c] that same(2) out(2) by simp
  show "rc_counter r' = rc_counter r + 1" "rc_mirror r' = []" "rc_base r' = rc_base r"
    using out(3) mirror by simp_all
qed

section \<open>Sequences of recordings\<close>

fun record_all ::
    "(int \<Rightarrow> string) \<Rightarrow> (divergence \<Rightarrow> string go_result) \<Rightarrow> int \<Rightarrow> divergence list \<Rightarrow> recorder \<times> disk
      \<Rightarrow> bool go_result list \<times> recorder \<times> disk" where
  "record_all stamp marshal now [] rd = ([], rd)"
| "record_all stamp marshal now (dv # dvs) rd =
     (case RecordDivergence stamp marshal (\<lambda>_. False) now dv rd of
        (res, rd1) \<Rightarrow> (case record_all stamp marshal now dvs rd1 of (rs, rd2) \<Rightarrow> (res # rs, rd2)))"

lemma first_path_eq_iff: "first_path r a = first_path r b \<longleftrightarrow> Key (Signature (Some a)) = Key (Signature (Some b))"
  by (simp add: first_path_def path_join_def)

lemma first_path_not_count: "first_path r a \<noteq> count_path r b"
proof
  assume "first_path r a = count_path r b"
  then have "last (first_path r a) = last (count_path r b)" by simp
  then show False by (simp add: first_path_def count_path_def path_join_def)
qed

lemma record_step:
  assumes marshal: "marshal (fill_divergence r now dv) = Inr data" and key: "Key (Signature (Some dv)) \<noteq> []"
    and mirror: "rc_mirror r = []"
    and run: "RecordDivergence stamp marshal (\<lambda>_. False) now dv (r, d) = (res, r', d')"
  shows "res = Inr (map_of d (first_path r dv) = None)"
    and "map_of d' (first_path r e) = None \<longleftrightarrow> map_of d (first_path r e) = None \<and> first_path r e \<noteq> first_path r dv"
    and "rc_mirror r' = []" "rc_base r' = rc_base r"
proof -
  let ?dv = "fill_divergence r now dv" and ?r = "r\<lparr>rc_counter := rc_counter r + 1\<rparr>"
  let ?p = "path_join [path_join [rc_base r, ''divergences''], file_name stamp (the (dg_time ?dv)) (rc_counter r + 1)]"
  obtain u d2 where u: "updateSignatureIndex (\<lambda>_. False) ?r ?dv data (AList.update ?p data d) = (u, d2)" by fastforce
  have out: "res = ewrap ''signature index: '' u" "r' = ?r" "d' = d2"
    using run marshal mirror u by (auto simp: RecordDivergence_def Let_def disk_write_def mirror_write_def)
  have frame0: "map_of (AList.update ?p data d) (first_path r e) = map_of d (first_path r e)" for e
    using divergence_path_differs(1) [of r _ e] by (metis fun_upd_apply update_conv')
  note ok = updateSignatureIndex_ok [OF u]
  have r: "res = Inr (map_of d (first_path r dv) = None)"
    using ok(1) key frame0 [of dv] out(1) by (simp add: ewrap_def)
  then show "res = Inr (map_of d (first_path r dv) = None)" .
  show "map_of d' (first_path r e) = None \<longleftrightarrow> map_of d (first_path r e) = None \<and> first_path r e \<noteq> first_path r dv"
  proof (cases "first_path r e = first_path r dv")
    case True
    then show ?thesis using ok(2) key out(3) by simp
  next
    case False
    have "map_of d2 (first_path r e) = map_of (AList.update ?p data d) (first_path r e)"
      by (rule updateSignatureIndex_frame [OF u])
        (use False first_path_not_count [of r e dv] in \<open>simp_all add: first_path_def count_path_def\<close>)
    with False frame0 [of e] out(3) show ?thesis by simp
  qed
  show "rc_mirror r' = []" "rc_base r' = rc_base r" using out(2) mirror by simp_all
qed

lemma record_all_first:
  assumes "\<And>x. marshal x = Inr (enc x)"
  shows "list_all (\<lambda>dv. Key (Signature (Some dv)) \<noteq> []) dvs \<Longrightarrow> rc_mirror r = [] \<Longrightarrow>
    record_all stamp marshal now dvs (r, d) = (rs, r', d') \<Longrightarrow> i < length dvs \<Longrightarrow>
    rs ! i = Inr (map_of d (first_path r (dvs ! i)) = None
      \<and> (\<forall>j < i. Key (Signature (Some (dvs ! j))) \<noteq> Key (Signature (Some (dvs ! i)))))"
proof (induction dvs arbitrary: r d rs i)
  case (Cons dv dvs)
  obtain res r1 d1 rs1 where
    step: "RecordDivergence stamp marshal (\<lambda>_. False) now dv (r, d) = (res, r1, d1)"
    and rest: "record_all stamp marshal now dvs (r1, d1) = (rs1, r', d')" and rs: "rs = res # rs1"
    using Cons.prems(3) by (auto split: prod.splits)
  note first = record_step [OF assms _ Cons.prems(2) step]
  have key: "Key (Signature (Some dv)) \<noteq> []" using Cons.prems(1) by simp
  show ?case
  proof (cases i)
    case 0
    then show ?thesis using first(1) key rs by simp
  next
    case (Suc k)
    have base: "rc_base r1 = rc_base r" using first(4) key by simp
    then have fp: "first_path r1 e = first_path r e" for e by (simp add: first_path_def)
    have "rs1 ! k = Inr (map_of d1 (first_path r1 (dvs ! k)) = None
        \<and> (\<forall>j < k. Key (Signature (Some (dvs ! j))) \<noteq> Key (Signature (Some (dvs ! k)))))"
      using Cons.IH [OF _ first(3) rest, of k] key Cons.prems(1, 4) Suc by simp
    then show ?thesis
      using first(2) [of "dvs ! k"] key rs Suc
      by (auto simp: fp first_path_eq_iff less_Suc_eq_0_disj)
  qed
qed simp

end
