(* ===== verification/Findings.thy ===== *)
theory Findings
  imports Corpus
begin

text \<open>
  Findings and what raises them (\<open>sidecar/internal/finding\<close>): the bounded store
  (\<open>store.go\<close>), the ledger diff (\<open>ledger_diff.go\<close>), the divergence oracle
  (\<open>divergence_oracle.go\<close>), the consensus-progress oracle
  (\<open>consensus_progress_oracle.go\<close>), the mapping from corpus divergences (\<open>mapper.go\<close>)
  and the disk watcher (\<open>disk_watcher.go\<close>).

  \<open>NewFindingID\<close> (a ULID from the clock and \<open>crypto/rand\<close>) is the argument \<open>fresh\<close>: the
  identifier handed out for a store of the given state. Locks are not modelled: every
  operation runs under its mutex. What the oracles need of a store is the locale
  \<open>finding_sink\<close>, interpreted on the store of the source.
\<close>

section \<open>Findings\<close>

record reproducer =
  rp_id :: string
  rp_path :: string
  rp_kind :: string

record evidence =
  ev_range :: "32 word \<times> 32 word"
  ev_keys :: "string list"

record finding =
  fd_id :: string
  fd_run :: string
  fd_kind :: string
  fd_severity :: string
  fd_opened :: int
  fd_summary :: string
  fd_detail :: "string option"
  fd_evidence :: "evidence option"
  fd_repro :: "reproducer option"
  fd_suspects :: "string list"

definition KindStateDivergence :: string where
  "KindStateDivergence = ''state_divergence''"

definition KindConsensusStall :: string where
  "KindConsensusStall = ''consensus_stall''"

definition KindPeerDrop :: string where
  "KindPeerDrop = ''peer_drop''"

definition KindNodeCrash :: string where
  "KindNodeCrash = ''node_crash''"

definition KindFuzzFailure :: string where
  "KindFuzzFailure = ''fuzz_failure''"

definition KindChaosViolation :: string where
  "KindChaosViolation = ''chaos_violation''"

definition SeverityError :: string where
  "SeverityError = ''error''"

section \<open>The store\<close>

definition maxCapacity :: nat where
  "maxCapacity = 1000"

record store =
  st_findings :: "finding list"
  st_byID :: "(string \<times> int) list"

definition NewStore :: store where
  "NewStore = \<lparr>st_findings = [], st_byID = []\<rparr>"

definition evict_oldest :: "store \<Rightarrow> store" where
  "evict_oldest s =
     (if maxCapacity \<le> length (st_findings s)
      then \<lparr>st_findings = tl (st_findings s),
            st_byID = map (\<lambda>(k, i). (k, i - 1)) (AList.delete (fd_id (hd (st_findings s))) (st_byID s))\<rparr>
      else s)"

definition store_add :: "finding \<Rightarrow> store \<Rightarrow> store" where
  "store_add f s = (let s1 = evict_oldest s
     in \<lparr>st_findings = st_findings s1 @ [f],
         st_byID = AList.update (fd_id f) (int (length (st_findings s1))) (st_byID s1)\<rparr>)"

text \<open>\<open>s.findings[idx]\<close>; \<open>None\<close> is the panic of an index out of range.\<close>

definition slice_at :: "'a list \<Rightarrow> int \<Rightarrow> 'a option" where
  "slice_at xs i = (if 0 \<le> i \<and> nat i < length xs then Some (xs ! nat i) else None)"

definition GetByID :: "store \<Rightarrow> string \<Rightarrow> finding option option" where
  "GetByID s i = (case map_of (st_byID s) i of
      None \<Rightarrow> Some None
    | Some idx \<Rightarrow> map_option Some (slice_at (st_findings s) idx))"

definition UpdateReproducer :: "string \<Rightarrow> reproducer option \<Rightarrow> store \<Rightarrow> (bool \<times> store) option" where
  "UpdateReproducer i r s = (case map_of (st_byID s) i of
      None \<Rightarrow> Some (False, s)
    | Some idx \<Rightarrow>
        map_option (\<lambda>f. (True, s\<lparr>st_findings := (st_findings s)[nat idx := f\<lparr>fd_repro := r\<rparr>]\<rparr>))
          (slice_at (st_findings s) idx))"

record list_opts =
  lo_since :: string
  lo_kind :: string
  lo_limit :: int

text \<open>The reverse loop stops at \<open>limit\<close> results; \<open>sort.SliceStable\<close> is \<open>sort_key\<close>.\<close>

fun list_loop :: "(finding \<Rightarrow> bool option) \<Rightarrow> finding list \<Rightarrow> nat \<Rightarrow> finding list option" where
  "list_loop keep [] limit = Some []"
| "list_loop keep (f # fs) 0 = Some []"
| "list_loop keep (f # fs) (Suc k) = (case keep f of
      None \<Rightarrow> None
    | Some b \<Rightarrow> if b then map_option ((#) f) (list_loop keep fs k) else list_loop keep fs (Suc k))"

definition list_limit :: "list_opts \<Rightarrow> nat" where
  "list_limit opts = (let l = (if lo_limit opts \<le> 0 then 100 else lo_limit opts)
     in if int maxCapacity < l then maxCapacity else nat l)"

definition keep_finding :: "store \<Rightarrow> list_opts \<Rightarrow> finding \<Rightarrow> bool option" where
  "keep_finding s opts f =
     (if lo_kind opts \<noteq> [] \<and> fd_kind f \<noteq> lo_kind opts then Some False
      else case (if lo_since opts = [] then None else map_of (st_byID s) (lo_since opts)) of
             None \<Rightarrow> Some True
           | Some idx \<Rightarrow> map_option (\<lambda>marker. fd_opened marker < fd_opened f) (slice_at (st_findings s) idx))"

definition store_list :: "store \<Rightarrow> list_opts \<Rightarrow> finding list option" where
  "store_list s opts = map_option (sort_key (\<lambda>f. - fd_opened f))
     (list_loop (keep_finding s opts) (rev (st_findings s)) (list_limit opts))"

section \<open>The invariant of the store\<close>

definition store_ok :: "store \<Rightarrow> bool" where
  "store_ok s \<longleftrightarrow> length (st_findings s) \<le> maxCapacity \<and> distinct (map fd_id (st_findings s))
     \<and> distinct (map fst (st_byID s))
     \<and> (\<forall>i idx. map_of (st_byID s) i = Some idx \<longleftrightarrow>
          0 \<le> idx \<and> nat idx < length (st_findings s) \<and> fd_id (st_findings s ! nat idx) = i)"

definition ids_of :: "store \<Rightarrow> string set" where
  "ids_of s = fd_id ` set (st_findings s)"

lemma store_ok_New: "store_ok NewStore"
  by (simp add: store_ok_def NewStore_def)

lemma map_of_shift: "map_of (map (\<lambda>(k, i). (k, i - 1)) xs) k = map_option (\<lambda>i. i - (1 :: int)) (map_of xs k)"
  by (induction xs) auto

lemma evict_facts:
  assumes "store_ok s"
  shows "store_ok (evict_oldest s)" and "length (st_findings (evict_oldest s)) < maxCapacity"
    and "st_findings (evict_oldest s) =
      drop (Suc (length (st_findings s)) - maxCapacity) (st_findings s)"
proof -
  have len: "length (st_findings s) \<le> maxCapacity" using assms by (simp add: store_ok_def)
  have pos: "0 < maxCapacity" by (simp add: maxCapacity_def)
  have "store_ok (evict_oldest s) \<and> length (st_findings (evict_oldest s)) < maxCapacity
    \<and> st_findings (evict_oldest s) = drop (Suc (length (st_findings s)) - maxCapacity) (st_findings s)"
  proof (cases "maxCapacity \<le> length (st_findings s)")
    case False
    then show ?thesis using assms by (simp add: evict_oldest_def)
  next
    case True
    then have full: "length (st_findings s) = maxCapacity" using len by simp
    then obtain f fs where fs: "st_findings s = f # fs" using pos by (cases "st_findings s") auto
    have ev: "evict_oldest s = \<lparr>st_findings = fs,
        st_byID = map (\<lambda>(k, i). (k, i - 1)) (AList.delete (fd_id f) (st_byID s))\<rparr>"
      using True by (simp add: evict_oldest_def fs)
    have dist: "distinct (map fd_id (f # fs))" and inv: "\<And>i idx. map_of (st_byID s) i = Some idx \<longleftrightarrow>
          0 \<le> idx \<and> nat idx < length (f # fs) \<and> fd_id ((f # fs) ! nat idx) = i"
      using assms fs by (auto simp: store_ok_def)
    have look: "map_of (st_byID (evict_oldest s)) i = Some idx \<longleftrightarrow>
        0 \<le> idx \<and> nat idx < length fs \<and> fd_id (fs ! nat idx) = i" for i idx
    proof -
      have "map_of (st_byID (evict_oldest s)) i = Some idx \<longleftrightarrow>
          i \<noteq> fd_id f \<and> map_of (st_byID s) i = Some (idx + 1)"
        by (auto simp: ev map_of_shift delete_conv' split: if_splits)
      also have "\<dots> \<longleftrightarrow> i \<noteq> fd_id f \<and> 0 \<le> idx + 1 \<and> nat (idx + 1) < length (f # fs)
          \<and> fd_id ((f # fs) ! nat (idx + 1)) = i"
        using inv by simp
      also have "\<dots> \<longleftrightarrow> 0 \<le> idx \<and> nat idx < length fs \<and> fd_id (fs ! nat idx) = i"
      proof (cases "0 \<le> idx")
        case True
        then have "nat (idx + 1) = Suc (nat idx)" by simp
        moreover have "nat idx < length fs \<Longrightarrow> fd_id (fs ! nat idx) \<noteq> fd_id f"
        proof
          assume "nat idx < length fs" and "fd_id (fs ! nat idx) = fd_id f"
          then have "fd_id f \<in> fd_id ` set fs" using nth_mem [of "nat idx" fs] image_eqI by metis
          with dist show False by simp
        qed
        ultimately show ?thesis using True by auto
      next
        case False
        then have "0 \<le> idx + 1 \<Longrightarrow> nat (idx + 1) = 0" by simp
        with False show ?thesis by auto
      qed
      finally show ?thesis .
    qed
    have "distinct (map fst (st_byID (evict_oldest s)))"
      using assms by (auto simp: ev store_ok_def comp_def case_prod_unfold intro: distinct_delete)
    then show ?thesis
      using look dist full fs ev by (auto simp: store_ok_def)
  qed
  then show "store_ok (evict_oldest s)" "length (st_findings (evict_oldest s)) < maxCapacity"
    "st_findings (evict_oldest s) = drop (Suc (length (st_findings s)) - maxCapacity) (st_findings s)"
    by blast+
qed

lemma store_add_findings:
  assumes "store_ok s"
  shows "st_findings (store_add f s) =
    drop (Suc (length (st_findings s)) - maxCapacity) (st_findings s) @ [f]"
  using evict_facts(3) [OF assms] by (simp add: store_add_def Let_def)

lemma store_ok_add:
  assumes "store_ok s" and "fd_id f \<notin> ids_of s"
  shows "store_ok (store_add f s)"
proof -
  note ev = evict_facts [OF assms(1)]
  let ?s = "evict_oldest s"
  have sub: "fd_id f \<notin> fd_id ` set (st_findings ?s)"
    using assms(2) by (auto simp: ev(3) ids_of_def dest: in_set_dropD)
  have inv: "\<And>i idx. map_of (st_byID ?s) i = Some idx \<longleftrightarrow>
      0 \<le> idx \<and> nat idx < length (st_findings ?s) \<and> fd_id (st_findings ?s ! nat idx) = i"
    and dist: "distinct (map fd_id (st_findings ?s))" "distinct (map fst (st_byID ?s))"
    using ev(1) by (auto simp: store_ok_def)
  have look: "map_of (st_byID (store_add f s)) i =
      (if i = fd_id f then Some (int (length (st_findings ?s))) else map_of (st_byID ?s) i)" for i
    by (simp add: store_add_def Let_def update_conv')
  have at: "fd_id ((st_findings ?s @ [f]) ! n) =
      (if n < length (st_findings ?s) then fd_id (st_findings ?s ! n) else fd_id f)"
    if "n < Suc (length (st_findings ?s))" for n
    using that by (cases "n = length (st_findings ?s)") (simp_all add: nth_append)
  have old: "fd_id (st_findings ?s ! n) \<noteq> fd_id f" if "n < length (st_findings ?s)" for n
    using sub nth_mem [OF that] by (metis image_eqI)
  have "map_of (st_byID (store_add f s)) i = Some idx \<longleftrightarrow>
      0 \<le> idx \<and> nat idx < Suc (length (st_findings ?s)) \<and> fd_id ((st_findings ?s @ [f]) ! nat idx) = i" for i idx
  proof (cases "i = fd_id f")
    case True
    have "int (length (st_findings ?s)) = idx \<longleftrightarrow>
        0 \<le> idx \<and> nat idx < Suc (length (st_findings ?s)) \<and> \<not> nat idx < length (st_findings ?s)"
      by linarith
    with True old show ?thesis unfolding look by (auto simp: at)
  next
    case False
    then have "map_of (st_byID (store_add f s)) i = Some idx \<longleftrightarrow> 0 \<le> idx
        \<and> nat idx < length (st_findings ?s) \<and> fd_id (st_findings ?s ! nat idx) = i"
      unfolding look by (simp add: inv)
    also have "\<dots> \<longleftrightarrow> 0 \<le> idx \<and> nat idx < Suc (length (st_findings ?s))
        \<and> fd_id ((st_findings ?s @ [f]) ! nat idx) = i"
      using False by (cases "nat idx < length (st_findings ?s)") (simp_all add: at nth_append less_Suc_eq)
    finally show ?thesis .
  qed
  moreover have "distinct (map fst (st_byID (store_add f s)))"
    using dist(2) by (simp add: store_add_def Let_def distinct_update)
  ultimately show ?thesis
    using dist(1) sub ev(2) by (simp add: store_ok_def store_add_def Let_def)
qed

lemma GetByID_ok:
  assumes "store_ok s"
  shows "GetByID s i = Some (find (\<lambda>f. fd_id f = i) (st_findings s))"
proof (cases "map_of (st_byID s) i")
  case None
  have "fd_id f \<noteq> i" if "f \<in> set (st_findings s)" for f
  proof
    assume "fd_id f = i"
    with that obtain k where "k < length (st_findings s)" "fd_id (st_findings s ! k) = i"
      by (metis in_set_conv_nth)
    then have "map_of (st_byID s) i = Some (int k)" using assms by (simp add: store_ok_def)
    with None show False by simp
  qed
  then have "find (\<lambda>f. fd_id f = i) (st_findings s) = None" by (auto simp: find_None_iff)
  with None show ?thesis by (simp add: GetByID_def)
next
  case (Some idx)
  with assms have idx: "0 \<le> idx" "nat idx < length (st_findings s)" "fd_id (st_findings s ! nat idx) = i"
    by (auto simp: store_ok_def)
  have "find (\<lambda>f. fd_id f = i) (st_findings s) = Some (st_findings s ! nat idx)"
    unfolding find_Some_iff
  proof (intro exI [of _ "nat idx"] conjI allI impI)
    fix j assume "j < nat idx"
    with idx assms show "fd_id (st_findings s ! j) \<noteq> i"
      by (auto simp: store_ok_def distinct_conv_nth)
  qed (use idx in auto)
  with Some idx show ?thesis by (simp add: GetByID_def slice_at_def)
qed

section \<open>What a producer of findings relies on\<close>

locale finding_sink =
  fixes ok :: "'s \<Rightarrow> bool" and ids :: "'s \<Rightarrow> string set" and add :: "finding \<Rightarrow> 's \<Rightarrow> 's"
    and get :: "'s \<Rightarrow> string \<Rightarrow> finding option option"
  assumes ok_add: "ok s \<Longrightarrow> fd_id f \<notin> ids s \<Longrightarrow> ok (add f s)"
    and ids_add: "ok s \<Longrightarrow> ids (add f s) \<subseteq> insert (fd_id f) (ids s)"
    and get_added: "ok s \<Longrightarrow> fd_id f \<notin> ids s \<Longrightarrow> get (add f s) (fd_id f) = Some (Some f)"
    and get_total: "ok s \<Longrightarrow> get s i \<noteq> None"
begin

text \<open>A producer that draws a fresh identifier for every finding keeps the store sound.\<close>

lemma ok_fold:
  "ok s \<Longrightarrow> distinct (map fd_id fs) \<Longrightarrow> (\<And>f. f \<in> set fs \<Longrightarrow> fd_id f \<notin> ids s) \<Longrightarrow> ok (fold add fs s)"
proof (induction fs arbitrary: s)
  case (Cons f fs)
  have f: "fd_id f \<notin> ids s" by (rule Cons.prems(3)) simp
  have "fd_id g \<notin> ids (add f s)" if g: "g \<in> set fs" for g
  proof -
    have "fd_id g \<noteq> fd_id f" using Cons.prems(2) g by (metis distinct.simps(2) image_eqI list.set_map list.simps(9))
    moreover have "fd_id g \<notin> ids s" by (rule Cons.prems(3)) (simp add: g)
    ultimately show ?thesis using ids_add [OF Cons.prems(1), of f] by blast
  qed
  then have "ok (fold add fs (add f s))"
    using Cons.IH [OF ok_add [OF Cons.prems(1) f]] Cons.prems(2) by simp
  then show ?case by simp
qed simp

end

lemma find_last: "\<forall>g \<in> set gs. fd_id g \<noteq> i \<Longrightarrow> find (\<lambda>g. fd_id g = i) (gs @ [f]) = (if fd_id f = i then Some f else None)"
  by (induction gs) auto

interpretation sink: finding_sink store_ok ids_of store_add GetByID
proof
  fix s f i
  assume ok: "store_ok s"
  show "ids_of (store_add f s) \<subseteq> insert (fd_id f) (ids_of s)"
    by (auto simp: ids_of_def store_add_findings [OF ok] dest: in_set_dropD)
  show "GetByID s i \<noteq> None" by (simp add: GetByID_ok [OF ok])
  assume fresh: "fd_id f \<notin> ids_of s"
  show new: "store_ok (store_add f s)" by (rule store_ok_add [OF ok fresh])
  have "\<forall>g \<in> set (drop (Suc (length (st_findings s)) - maxCapacity) (st_findings s)). fd_id g \<noteq> fd_id f"
    using fresh unfolding ids_of_def by (metis image_eqI in_set_dropD)
  then have "find (\<lambda>g. fd_id g = fd_id f) (st_findings (store_add f s)) = Some f"
    unfolding store_add_findings [OF ok] by (simp add: find_last)
  then show "GetByID (store_add f s) (fd_id f) = Some (Some f)" by (simp add: GetByID_ok [OF new])
qed

section \<open>The store as a ring of the last findings\<close>

definition last_findings :: "finding list \<Rightarrow> finding list" where
  "last_findings fs = drop (length fs - maxCapacity) fs"

lemma set_last_findings: "set (last_findings fs) \<subseteq> set fs"
  unfolding last_findings_def by (rule set_drop_subset)

lemma last_findings_add: "drop (Suc (length (last_findings fs)) - maxCapacity) (last_findings fs) @ [f] = last_findings (fs @ [f])"
proof (cases "maxCapacity \<le> length fs")
  case True
  then have "Suc (length (last_findings fs)) - maxCapacity = 1" by (simp add: last_findings_def)
  moreover have "1 + (length fs - maxCapacity) = Suc (length fs) - maxCapacity" using True by simp
  ultimately show ?thesis using True by (simp add: last_findings_def maxCapacity_def Suc_diff_le)
qed (simp add: last_findings_def)

lemma store_holds_last:
  "distinct (map fd_id fs) \<Longrightarrow>
     store_ok (fold store_add fs NewStore) \<and> st_findings (fold store_add fs NewStore) = last_findings fs"
proof (induction fs rule: rev_induct)
  case Nil
  then show ?case using store_ok_New by (simp add: last_findings_def) (simp add: NewStore_def)
next
  case (snoc f fs)
  let ?s = "fold store_add fs NewStore"
  have IH: "store_ok ?s" "st_findings ?s = last_findings fs" using snoc by auto
  have "fd_id f \<notin> ids_of ?s"
  proof
    assume "fd_id f \<in> ids_of ?s"
    then obtain g where "g \<in> set fs" "fd_id g = fd_id f"
      using IH(2) set_last_findings [of fs] by (auto simp: ids_of_def)
    moreover have "fd_id f \<notin> fd_id ` set fs" using snoc.prems by simp
    ultimately show False by (metis imageI)
  qed
  from store_ok_add [OF IH(1) this] store_add_findings [OF IH(1), of f] IH(2) show ?case
    by (simp add: last_findings_add)
qed

lemma list_loop_take:
  "(\<And>f. f \<in> set fs \<Longrightarrow> keep f = Some (P f)) \<Longrightarrow> list_loop keep fs n = Some (take n (filter P fs))"
  by (induction keep fs n rule: list_loop.induct) auto

definition shows_finding :: "store \<Rightarrow> list_opts \<Rightarrow> finding \<Rightarrow> bool" where
  "shows_finding s opts f \<longleftrightarrow> (lo_kind opts = [] \<or> fd_kind f = lo_kind opts)
     \<and> (lo_since opts = [] \<or> (case find (\<lambda>g. fd_id g = lo_since opts) (st_findings s) of
          None \<Rightarrow> True | Some g \<Rightarrow> fd_opened g < fd_opened f))"

lemma keep_finding_shows: "store_ok s \<Longrightarrow> keep_finding s opts f = Some (shows_finding s opts f)"
  using GetByID_ok [of s "lo_since opts"]
  by (auto simp: keep_finding_def shows_finding_def GetByID_def split: option.splits)

lemma store_list_newest:
  assumes "store_ok s" and "sorted (map fd_opened (st_findings s))"
  shows "store_list s opts =
    Some (take (list_limit opts) (filter (shows_finding s opts) (rev (st_findings s))))"
proof -
  let ?r = "take (list_limit opts) (filter (shows_finding s opts) (rev (st_findings s)))"
  have "sorted_wrt (\<lambda>a b. fd_opened b \<le> fd_opened a) (rev (st_findings s))"
    using assms(2) by (simp add: sorted_wrt_rev sorted_map)
  then have "sorted_wrt (\<lambda>a b. fd_opened b \<le> fd_opened a) ?r"
    by (intro sorted_wrt_take sorted_wrt_filter)
  then have "sort_key (\<lambda>f. - fd_opened f) ?r = ?r"
    by (intro sort_key_id_if_sorted) (simp add: sorted_map)
  moreover have "list_loop (keep_finding s opts) (rev (st_findings s)) (list_limit opts) = Some ?r"
    by (rule list_loop_take) (simp add: keep_finding_shows [OF assms(1)])
  ultimately show ?thesis by (simp add: store_list_def)
qed

end
