(* ===== verification/Ledger_Diff.thy ===== *)
theory Ledger_Diff
  imports Findings
begin

text \<open>
  The ledger diff attached to a divergence (\<open>sidecar/internal/finding/ledger_diff.go\<close>).
  \<open>sort.Slice\<close> over the nodes is not stable; nodes of one ledger carry distinct names, for
  which it has one result, \<open>sort_key\<close>. A Go map is an association list; every map the code
  ranges over here is sorted afterwards.
\<close>

section \<open>Snapshots\<close>

record diff_tx =
  dt_hash :: string
  dt_type :: string
  dt_account :: string
  dt_meta :: string

record ledger_snapshot =
  ls_node :: string
  ls_seq :: int
  ls_ledger_hash :: string
  ls_account_hash :: string
  ls_tx_hash :: string
  ls_txs :: "diff_tx list"

record ledger_diff =
  ld_seq :: int
  ld_snapshots :: "ledger_snapshot list"
  ld_only :: "(string \<times> string list) list"
  ld_common :: "string list"
  ld_suspects :: "string list"
  ld_root_conflict :: bool
  ld_errors :: "(string \<times> string) list"

section \<open>Counting the hashes\<close>

definition count_of :: "(string \<times> nat) list \<Rightarrow> string \<Rightarrow> nat" where
  "count_of c h = (case map_of c h of None \<Rightarrow> 0 | Some n \<Rightarrow> n)"

fun count_txs ::
    "diff_tx list \<Rightarrow> string list \<Rightarrow> (string \<times> nat) list \<times> (string \<times> diff_tx) list
      \<Rightarrow> (string \<times> nat) list \<times> (string \<times> diff_tx) list" where
  "count_txs [] seen cr = cr"
| "count_txs (t # ts) seen (c, r) =
     (if dt_hash t \<in> set seen then count_txs ts seen (c, r)
      else count_txs ts (dt_hash t # seen)
             (AList.update (dt_hash t) (count_of c (dt_hash t) + 1) c,
              if map_of r (dt_hash t) = None then AList.update (dt_hash t) t r else r))"

definition count_snapshots ::
    "ledger_snapshot list \<Rightarrow> (string \<times> nat) list \<times> (string \<times> diff_tx) list" where
  "count_snapshots snaps = fold (\<lambda>s. count_txs (ls_txs s) []) snaps ([], [])"

section \<open>The diff\<close>

definition only_here :: "(string \<times> nat) list \<Rightarrow> nat \<Rightarrow> ledger_snapshot \<Rightarrow> diff_tx list" where
  "only_here c n s = filter (\<lambda>t. count_of c (dt_hash t) < n) (ls_txs s)"

definition only_map :: "(string \<times> nat) list \<Rightarrow> ledger_snapshot list \<Rightarrow> (string \<times> string list) list" where
  "only_map c snaps =
     fold (\<lambda>s m. let only = sort (map dt_hash (only_here c (length snaps) s))
                 in if only = [] then m else AList.update (ls_node s) only m) snaps []"

definition suspect_types ::
    "(string \<times> nat) list \<Rightarrow> (string \<times> diff_tx) list \<Rightarrow> ledger_snapshot list \<Rightarrow> string list" where
  "suspect_types c r snaps =
     sort (remdups (filter (\<lambda>t. t \<noteq> [])
       (map (\<lambda>t. case map_of r (dt_hash t) of None \<Rightarrow> [] | Some rt \<Rightarrow> dt_type rt)
         (concat (map (only_here c (length snaps)) snaps)))))"

definition same_roots :: "ledger_snapshot \<Rightarrow> ledger_snapshot \<Rightarrow> bool" where
  "same_roots a b \<longleftrightarrow> ls_ledger_hash a = ls_ledger_hash b \<and> ls_account_hash a = ls_account_hash b
     \<and> ls_tx_hash a = ls_tx_hash b"

definition computeLedgerDiff ::
    "int \<Rightarrow> ledger_snapshot option list \<Rightarrow> (string \<times> string) list \<Rightarrow> ledger_diff" where
  "computeLedgerDiff seq snaps errs =
     (let ss = sort_key ls_node (concat (map (\<lambda>s. case s of None \<Rightarrow> [] | Some s \<Rightarrow> [s]) snaps));
          base = \<lparr>ld_seq = seq, ld_snapshots = ss, ld_only = [], ld_common = [], ld_suspects = [],
                  ld_root_conflict = False, ld_errors = errs\<rparr>
      in if length ss < 2 then base
         else
          (case count_snapshots ss of (c, r) \<Rightarrow>
             base\<lparr>ld_common := sort (map fst (filter (\<lambda>(h, k). k = length ss) c)),
                  ld_only := only_map c ss,
                  ld_suspects := suspect_types c r ss,
                  ld_root_conflict := (\<exists>s \<in> set (tl ss). \<not> same_roots s (hd ss))\<rparr>))"

text \<open>
  \<open>fetchAllConcurrent\<close>: one slot per node; the error map is written under a lock, the
  last error of a repeated name winning.
\<close>

definition fetchAllConcurrent ::
    "(string \<Rightarrow> int \<Rightarrow> ledger_snapshot option go_result) \<Rightarrow> string list \<Rightarrow> int
      \<Rightarrow> ledger_snapshot option list \<times> (string \<times> string) list" where
  "fetchAllConcurrent fetch nodes seq =
     (map (\<lambda>n. case fetch n seq of Inl _ \<Rightarrow> None | Inr s \<Rightarrow> s) nodes,
      fold (\<lambda>n m. case fetch n seq of Inl e \<Rightarrow> AList.update n e m | Inr _ \<Rightarrow> m) nodes [])"

section \<open>Facts about the diff\<close>

definition hashes :: "ledger_snapshot \<Rightarrow> string set" where
  "hashes s = dt_hash ` set (ls_txs s)"

lemma count_of_update: "count_of (AList.update k v c) h = (if h = k then v else count_of c h)"
  by (simp add: count_of_def update_conv')

lemma count_of_Nil [simp]: "count_of [] h = 0"
  by (simp add: count_of_def)

lemma count_txs_count:
  "count_of (fst (count_txs ts seen (c, r))) h =
     count_of c h + (if h \<in> dt_hash ` set ts \<and> h \<notin> set seen then 1 else 0)"
  by (induction ts seen "(c, r)" arbitrary: c r rule: count_txs.induct) (auto simp: count_of_update)

text \<open>Every counted hash has a positive count and a representative of that hash.\<close>

definition counts_ok :: "diff_tx set \<Rightarrow> (string \<times> nat) list \<times> (string \<times> diff_tx) list \<Rightarrow> bool" where
  "counts_ok T cr \<longleftrightarrow> distinct (map fst (fst cr)) \<and> (\<forall>h k. map_of (fst cr) h = Some k \<longrightarrow> 0 < k)
     \<and> dom (map_of (snd cr)) = dom (map_of (fst cr))
     \<and> (\<forall>h t. map_of (snd cr) h = Some t \<longrightarrow> dt_hash t = h \<and> t \<in> T)"

lemma counts_ok_mono: "counts_ok T cr \<Longrightarrow> T \<subseteq> U \<Longrightarrow> counts_ok U cr"
  unfolding counts_ok_def by blast

lemma counts_ok_step:
  assumes "counts_ok T (c, r)" and "t \<in> T"
  shows "counts_ok T (AList.update (dt_hash t) (count_of c (dt_hash t) + 1) c,
           if map_of r (dt_hash t) = None then AList.update (dt_hash t) t r else r)"
proof -
  have "dom (map_of r) = dom (map_of c)" using assms(1) by (simp add: counts_ok_def)
  then have "map_of r (dt_hash t) = None \<longleftrightarrow> map_of c (dt_hash t) = None" by (metis domIff)
  with assms show ?thesis
    by (auto simp: counts_ok_def update_conv' distinct_update insert_absorb domIff split: if_splits)
qed

lemma counts_ok_txs:
  "counts_ok T (c, r) \<Longrightarrow> set ts \<subseteq> T \<Longrightarrow> counts_ok T (count_txs ts seen (c, r))"
proof (induction ts seen "(c, r)" arbitrary: c r rule: count_txs.induct)
  case (2 t ts seen c r)
  then show ?case using counts_ok_step [of T c r t] by simp
qed simp

lemma count_snapshots_facts:
  "count_of (fst (count_snapshots ss)) h = length (filter (\<lambda>s. h \<in> hashes s) ss)
   \<and> counts_ok (\<Union>s \<in> set ss. set (ls_txs s)) (count_snapshots ss)"
proof (induction ss rule: rev_induct)
  case Nil
  then show ?case by (simp add: count_snapshots_def counts_ok_def)
next
  case (snoc s ss)
  let ?T = "\<Union>s \<in> set (ss @ [s]). set (ls_txs s)"
  obtain c r where cr: "count_snapshots ss = (c, r)" by fastforce
  have step: "count_snapshots (ss @ [s]) = count_txs (ls_txs s) [] (c, r)"
    using cr by (simp add: count_snapshots_def)
  have "counts_ok ?T (c, r)" using snoc cr by (auto intro: counts_ok_mono)
  then have "counts_ok ?T (count_txs (ls_txs s) [] (c, r))" by (rule counts_ok_txs) auto
  with snoc cr show ?case unfolding step by (simp add: count_txs_count hashes_def)
qed

lemmas count_snapshots_count = count_snapshots_facts [THEN conjunct1]
lemmas count_snapshots_ok = count_snapshots_facts [THEN conjunct2]

definition everywhere :: "ledger_snapshot list \<Rightarrow> string \<Rightarrow> bool" where
  "everywhere ss h \<longleftrightarrow> (\<forall>s \<in> set ss. h \<in> hashes s)"

lemma count_everywhere: "length (filter (\<lambda>s. h \<in> hashes s) ss) = length ss \<longleftrightarrow> everywhere ss h"
  by (metis everywhere_def filter_True length_filter_less less_not_refl)

lemma count_not_everywhere: "length (filter (\<lambda>s. h \<in> hashes s) ss) < length ss \<longleftrightarrow> \<not> everywhere ss h"
  using count_everywhere [of h ss] length_filter_le [of "\<lambda>s. h \<in> hashes s" ss] by linarith

definition present :: "ledger_snapshot option list \<Rightarrow> ledger_snapshot list" where
  "present snaps = sort_key ls_node (concat (map (\<lambda>s. case s of None \<Rightarrow> [] | Some s \<Rightarrow> [s]) snaps))"

lemma set_present: "set (present snaps) = {s. Some s \<in> set snaps}"
  by (auto simp: present_def split: option.splits)

lemma only_here_iff:
  "t \<in> set (only_here (fst (count_snapshots ss)) (length ss) s) \<longleftrightarrow>
     t \<in> set (ls_txs s) \<and> \<not> everywhere ss (dt_hash t)"
  by (simp add: only_here_def count_snapshots_count count_not_everywhere)

lemma common_hashes:
  assumes "2 \<le> length (present snaps)"
  shows "set (ld_common (computeLedgerDiff seq snaps errs)) = {h. everywhere (present snaps) h}"
    and "distinct (ld_common (computeLedgerDiff seq snaps errs))"
proof -
  let ?ss = "present snaps"
  obtain c r where cr: "count_snapshots ?ss = (c, r)" by fastforce
  have ok: "distinct (map fst c)" "\<And>h k. map_of c h = Some k \<Longrightarrow> 0 < k"
    using count_snapshots_ok [of ?ss] cr by (auto simp: counts_ok_def)
  have eq: "ld_common (computeLedgerDiff seq snaps errs) =
      sort (map fst (filter (\<lambda>(h, k). k = length ?ss) c))"
    using assms cr by (simp add: computeLedgerDiff_def Let_def present_def)
  have "h \<in> fst ` set (filter (\<lambda>(h, k). k = length ?ss) c) \<longleftrightarrow> count_of c h = length ?ss" for h
  proof -
    have "h \<in> fst ` set (filter (\<lambda>(h, k). k = length ?ss) c) \<longleftrightarrow> (h, length ?ss) \<in> set c" by force
    also have "\<dots> \<longleftrightarrow> map_of c h = Some (length ?ss)" using ok(1) by simp
    also have "\<dots> \<longleftrightarrow> count_of c h = length ?ss"
      using assms by (auto simp: count_of_def split: option.splits)
    finally show ?thesis .
  qed
  then show "set (ld_common (computeLedgerDiff seq snaps errs)) = {h. everywhere ?ss h}"
    using count_snapshots_count [of ?ss] cr by (auto simp: eq count_everywhere)
  show "distinct (ld_common (computeLedgerDiff seq snaps errs))"
    using ok(1) by (simp add: eq distinct_map_filter)
qed

lemma only_map_lookup:
  "distinct (map ls_node ss) \<Longrightarrow> s \<in> set ss \<Longrightarrow>
     (case map_of (fold (\<lambda>s m. let only = f s in if only = [] then m else AList.update (ls_node s) only m) ss m) (ls_node s)
       of None \<Rightarrow> [] | Some hs \<Rightarrow> hs) =
     (if f s = [] then (case map_of m (ls_node s) of None \<Rightarrow> [] | Some hs \<Rightarrow> hs) else f s)"
proof (induction ss arbitrary: m)
  case (Cons a ss)
  let ?g = "\<lambda>s m. if f s = [] then m else AList.update (ls_node s) (f s) m"
  have other: "map_of (fold ?g xs m) n = map_of m n" if "n \<notin> ls_node ` set xs" for xs n m
    using that by (induction xs arbitrary: m) (auto simp: update_conv')
  show ?case
  proof (cases "s = a")
    case True
    have "ls_node a \<notin> ls_node ` set ss" using Cons.prems(1) by simp
    then show ?thesis using True by (simp add: other Let_def update_conv')
  next
    case False
    then have "s \<in> set ss" using Cons.prems(2) by simp
    moreover from this have "ls_node s \<noteq> ls_node a" using Cons.prems(1) by (metis distinct.simps(2) image_eqI list.set_map list.simps(9))
    ultimately show ?thesis using Cons.IH Cons.prems(1) by (simp add: Let_def update_conv')
  qed
qed simp

definition only_of :: "ledger_diff \<Rightarrow> string \<Rightarrow> string list" where
  "only_of d n = (case map_of (ld_only d) n of None \<Rightarrow> [] | Some hs \<Rightarrow> hs)"

lemma only_on_node:
  assumes "2 \<le> length (present snaps)" and "distinct (map ls_node (present snaps))" and s: "s \<in> set (present snaps)"
  shows "set (only_of (computeLedgerDiff seq snaps errs) (ls_node s)) =
    {h \<in> hashes s. \<not> everywhere (present snaps) h}"
proof -
  let ?ss = "present snaps"
  let ?f = "\<lambda>s. sort (map dt_hash (only_here (fst (count_snapshots ?ss)) (length ?ss) s))"
  have "ld_only (computeLedgerDiff seq snaps errs) = only_map (fst (count_snapshots ?ss)) ?ss"
    using assms(1) by (simp add: computeLedgerDiff_def Let_def present_def case_prod_unfold)
  then have "only_of (computeLedgerDiff seq snaps errs) (ls_node s) = ?f s"
    using only_map_lookup [OF assms(2) s, of ?f "[]"] by (simp add: only_of_def only_map_def)
  then show ?thesis using only_here_iff [of _ ?ss s] by (auto simp: hashes_def)
qed

lemma suspects:
  assumes "2 \<le> length (present snaps)"
    and typed: "\<And>s t u v. s \<in> set (present snaps) \<Longrightarrow> t \<in> set (ls_txs s) \<Longrightarrow> u \<in> set (present snaps) \<Longrightarrow>
      v \<in> set (ls_txs u) \<Longrightarrow> dt_hash t = dt_hash v \<Longrightarrow> dt_type t = dt_type v"
  shows "set (ld_suspects (computeLedgerDiff seq snaps errs)) =
    {dt_type t |s t. s \<in> set (present snaps) \<and> t \<in> set (ls_txs s) \<and> \<not> everywhere (present snaps) (dt_hash t)
       \<and> dt_type t \<noteq> []}"
proof -
  let ?ss = "present snaps"
  obtain c r where cr: "count_snapshots ?ss = (c, r)" by fastforce
  have ok: "counts_ok (\<Union>s \<in> set ?ss. set (ls_txs s)) (c, r)" using count_snapshots_ok [of ?ss] cr by simp
  have rep: "(case map_of r (dt_hash t) of None \<Rightarrow> [] | Some rt \<Rightarrow> dt_type rt) = dt_type t"
    if "s \<in> set ?ss" "t \<in> set (ls_txs s)" for s t
  proof -
    have "dt_hash t \<in> hashes s" using that(2) by (simp add: hashes_def)
    with that(1) have "filter (\<lambda>s. dt_hash t \<in> hashes s) ?ss \<noteq> []" by (metis filter_empty_conv)
    then have "0 < count_of c (dt_hash t)" using count_snapshots_count [of ?ss "dt_hash t"] cr by simp
    then have "dt_hash t \<in> dom (map_of c)" by (cases "map_of c (dt_hash t)") (auto simp: count_of_def)
    moreover have "dom (map_of r) = dom (map_of c)" using ok by (simp add: counts_ok_def)
    ultimately have "dt_hash t \<in> dom (map_of r)" by simp
    then obtain v where v: "map_of r (dt_hash t) = Some v" by auto
    with ok have "dt_hash v = dt_hash t \<and> v \<in> (\<Union>s \<in> set ?ss. set (ls_txs s))"
      unfolding counts_ok_def snd_conv by blast
    then obtain u where "u \<in> set ?ss" "v \<in> set (ls_txs u)" "dt_hash v = dt_hash t" by blast
    with typed [OF that] v show ?thesis by simp
  qed
  have "ld_suspects (computeLedgerDiff seq snaps errs) = suspect_types c r ?ss"
    using assms(1) cr by (simp add: computeLedgerDiff_def Let_def present_def)
  note eq = this
  have here: "t \<in> set (only_here c (length ?ss) s) \<longleftrightarrow> t \<in> set (ls_txs s) \<and> \<not> everywhere ?ss (dt_hash t)"
    for s t using only_here_iff [of t ?ss s] cr by simp
  have "map (\<lambda>t. case map_of r (dt_hash t) of None \<Rightarrow> [] | Some rt \<Rightarrow> dt_type rt)
      (concat (map (only_here c (length ?ss)) ?ss)) = map dt_type (concat (map (only_here c (length ?ss)) ?ss))"
  proof (rule map_cong [OF refl])
    fix t assume "t \<in> set (concat (map (only_here c (length ?ss)) ?ss))"
    then obtain s where "s \<in> set ?ss" "t \<in> set (only_here c (length ?ss) s)" by auto
    then show "(case map_of r (dt_hash t) of None \<Rightarrow> [] | Some rt \<Rightarrow> dt_type rt) = dt_type t"
      using rep here by blast
  qed
  with eq have "ld_suspects (computeLedgerDiff seq snaps errs) =
      sort (remdups (filter (\<lambda>x. x \<noteq> []) (map dt_type (concat (map (only_here c (length ?ss)) ?ss)))))"
    by (simp only: suspect_types_def)
  then have "set (ld_suspects (computeLedgerDiff seq snaps errs)) =
      {x \<in> dt_type ` (\<Union>s \<in> set ?ss. set (only_here c (length ?ss) s)). x \<noteq> []}"
    by (simp only: set_sort set_remdups set_filter set_map set_concat image_image)
  also have "(\<Union>s \<in> set ?ss. set (only_here c (length ?ss) s)) =
      {t. \<exists>s \<in> set ?ss. t \<in> set (ls_txs s) \<and> \<not> everywhere ?ss (dt_hash t)}"
    by (simp only: set_eq_iff UN_iff mem_Collect_eq here) blast
  finally show ?thesis by (rule trans) (auto simp only: image_iff mem_Collect_eq set_eq_iff Bex_def)
qed

lemma same_roots_equiv:
  "same_roots a a" "same_roots a b \<Longrightarrow> same_roots b a" "same_roots a b \<Longrightarrow> same_roots b c \<Longrightarrow> same_roots a c"
  by (simp_all add: same_roots_def)

lemma root_conflict:
  assumes "2 \<le> length (present snaps)"
  shows "ld_root_conflict (computeLedgerDiff seq snaps errs) \<longleftrightarrow>
    (\<exists>a \<in> set (present snaps). \<exists>b \<in> set (present snaps). \<not> same_roots a b)"
proof -
  obtain x xs where xs: "present snaps = x # xs" using assms by (cases "present snaps") auto
  have "ld_root_conflict (computeLedgerDiff seq snaps errs) \<longleftrightarrow> (\<exists>s \<in> set xs. \<not> same_roots s x)"
    using assms xs by (simp add: computeLedgerDiff_def Let_def present_def case_prod_unfold)
  also have "\<dots> \<longleftrightarrow> (\<exists>a \<in> set (x # xs). \<exists>b \<in> set (x # xs). \<not> same_roots a b)"
  proof
    assume "\<exists>s \<in> set xs. \<not> same_roots s x"
    then show "\<exists>a \<in> set (x # xs). \<exists>b \<in> set (x # xs). \<not> same_roots a b" by auto
  next
    assume "\<exists>a \<in> set (x # xs). \<exists>b \<in> set (x # xs). \<not> same_roots a b"
    then obtain a b where ab: "a \<in> set (x # xs)" "b \<in> set (x # xs)" "\<not> same_roots a b" by blast
    then have "\<not> same_roots a x \<or> \<not> same_roots b x" using same_roots_equiv(2, 3) by blast
    with ab same_roots_equiv(1) show "\<exists>s \<in> set xs. \<not> same_roots s x" by (metis set_ConsD)
  qed
  finally show ?thesis unfolding xs .
qed

end
