(* ===== verification/Oracle.thy ===== *)
theory Oracle
  imports Rpc
begin

text \<open>
  The cross-node oracle (\<open>sidecar/internal/oracle\<close>): ledger hashes (\<open>oracle.go\<close>),
  transaction results (\<open>tx_result.go\<close>), transaction metadata (\<open>tx_metadata.go\<close>), waiting
  for validation (\<open>wait.go\<close>) and the conservation of XRP (\<open>invariant_balance.go\<close>).

  A node is its name and its transport. \<open>cancelled\<close> says whether the context is done in a
  state of the world; the polls that start before a deadline are an explicit count.
\<close>

section \<open>Nodes and waiting\<close>

type_synonym 's node = "string \<times> 's caller"

fun waitForValidated :: "('s \<Rightarrow> bool) \<Rightarrow> 's caller \<Rightarrow> int \<Rightarrow> nat \<Rightarrow> 's \<Rightarrow> unit go_result \<times> 's" where
  "waitForValidated cancelled call seq 0 s =
     (Inl (''timeout waiting for validated seq >= '' @ int_dec seq), s)"
| "waitForValidated cancelled call seq (Suc k) s =
     (if cancelled s then (Inl ''context canceled'', s)
      else case ServerInfo call s of
        (Inl _, s') \<Rightarrow> waitForValidated cancelled call seq k s'
      | (Inr info, s') \<Rightarrow>
          if seq \<le> lr_seq (si_validated info) then (Inr (), s')
          else waitForValidated cancelled call seq k s')"

section \<open>Ledger hashes\<close>

record node_hash =
  nh_name :: string
  nh_ledger :: string
  nh_account :: string
  nh_tx :: string

record hash_divergence =
  dv_field :: string
  dv_node_a :: string
  dv_hash_a :: string
  dv_node_b :: string
  dv_hash_b :: string

record comparison =
  cp_seq :: int
  cp_agreed :: bool
  cp_hashes :: "node_hash list"
  cp_divs :: "hash_divergence list"
  cp_errors :: "string list"

fun wait_all :: "('s \<Rightarrow> bool) \<Rightarrow> nat \<Rightarrow> 's node list \<Rightarrow> int \<Rightarrow> 's \<Rightarrow> string option \<times> 's" where
  "wait_all cancelled polls [] seq s = (None, s)"
| "wait_all cancelled polls (n # ns) seq s =
     (case waitForValidated cancelled (snd n) seq polls s of
        (Inl e, s') \<Rightarrow> (Some (fst n @ '': '' @ e), s')
      | (Inr _, s') \<Rightarrow> wait_all cancelled polls ns seq s')"

fun query_hashes :: "'s node list \<Rightarrow> int \<Rightarrow> comparison \<Rightarrow> 's \<Rightarrow> comparison \<times> 's" where
  "query_hashes [] seq c s = (c, s)"
| "query_hashes (n # ns) seq c s =
     (case Ledger (snd n) seq s of
        (Inl e, s') \<Rightarrow>
          query_hashes ns seq (c\<lparr>cp_errors := cp_errors c @ [fst n @ '': '' @ e], cp_agreed := False\<rparr>) s'
      | (Inr l, s') \<Rightarrow>
          query_hashes ns seq (c\<lparr>cp_hashes := cp_hashes c @ [\<lparr>nh_name = fst n,
             nh_ledger = lg_ledger_hash l, nh_account = lg_account_hash l, nh_tx = lg_tx_hash l\<rparr>]\<rparr>) s')"

definition add_div :: "string \<Rightarrow> node_hash \<Rightarrow> string \<Rightarrow> node_hash \<Rightarrow> string \<Rightarrow> comparison \<Rightarrow> comparison" where
  "add_div field ref a nh b c =
     (if b \<noteq> a then c\<lparr>cp_agreed := False, cp_divs := cp_divs c @
        [\<lparr>dv_field = field, dv_node_a = nh_name ref, dv_hash_a = a, dv_node_b = nh_name nh, dv_hash_b = b\<rparr>]\<rparr>
      else c)"

definition compare_one :: "node_hash \<Rightarrow> node_hash \<Rightarrow> comparison \<Rightarrow> comparison" where
  "compare_one ref nh c =
     add_div ''transaction_hash'' ref (nh_tx ref) nh (nh_tx nh)
      (add_div ''account_hash'' ref (nh_account ref) nh (nh_account nh)
        (add_div ''ledger_hash'' ref (nh_ledger ref) nh (nh_ledger nh) c))"

definition compare_hashes :: "comparison \<Rightarrow> comparison" where
  "compare_hashes c = (case cp_hashes c of
      ref # nh # rest \<Rightarrow> fold (compare_one ref) (nh # rest) c
    | _ \<Rightarrow> c)"

definition CompareAtSequence ::
    "('s \<Rightarrow> bool) \<Rightarrow> nat \<Rightarrow> 's node list \<Rightarrow> int \<Rightarrow> 's \<Rightarrow> comparison \<times> 's" where
  "CompareAtSequence cancelled polls nodes seq s =
     (let start = \<lparr>cp_seq = seq, cp_agreed = True, cp_hashes = [], cp_divs = [], cp_errors = []\<rparr>
      in case wait_all cancelled polls nodes seq s of
           (Some e, s1) \<Rightarrow> (start\<lparr>cp_errors := [e], cp_agreed := False\<rparr>, s1)
         | (None, s1) \<Rightarrow>
             (case query_hashes nodes seq start s1 of (c, s2) \<Rightarrow> (compare_hashes c, s2)))"

section \<open>Transaction results and metadata\<close>

text \<open>
  \<open>CompareTxResult\<close> and \<open>CompareTxMetadata\<close> share their loop: one value per node that
  answered, one error per node that did not, and an early return when the context is done.
\<close>

record 'a tx_comparison =
  tc_hash :: string
  tc_agreed :: bool
  tc_values :: "(string \<times> 'a) list"
  tc_errors :: "string list"

fun collect_tx :: "(tx_result \<Rightarrow> 'a) \<Rightarrow> ('s \<Rightarrow> bool) \<Rightarrow> 's node list \<Rightarrow> 'a tx_comparison \<Rightarrow> 's
    \<Rightarrow> bool \<times> 'a tx_comparison \<times> 's" where
  "collect_tx f cancelled [] c s = (False, c, s)"
| "collect_tx f cancelled (n # ns) c s =
     (if cancelled s
      then (True, c\<lparr>tc_agreed := False, tc_errors := tc_errors c @ [''ctx cancelled'']\<rparr>, s)
      else case Tx (snd n) (tc_hash c) s of
        (Inl e, s') \<Rightarrow> collect_tx f cancelled ns
           (c\<lparr>tc_agreed := False, tc_errors := tc_errors c @ [fst n @ '': '' @ e]\<rparr>) s'
      | (Inr r, s') \<Rightarrow> collect_tx f cancelled ns
           (c\<lparr>tc_values := tc_values c @ [(fst n, f r)]\<rparr>) s')"

definition compare_values :: "'a tx_comparison \<Rightarrow> 'a tx_comparison" where
  "compare_values c = (case tc_values c of
      ref # v # rest \<Rightarrow>
        (if list_ex (\<lambda>x. snd x \<noteq> snd ref) (v # rest) then c\<lparr>tc_agreed := False\<rparr> else c)
    | _ \<Rightarrow> c)"

definition compare_tx :: "(tx_result \<Rightarrow> 'a) \<Rightarrow> ('s \<Rightarrow> bool) \<Rightarrow> 's node list \<Rightarrow> string \<Rightarrow> 's
    \<Rightarrow> 'a tx_comparison \<times> 's" where
  "compare_tx f cancelled nodes hash s =
     (case collect_tx f cancelled nodes
             \<lparr>tc_hash = hash, tc_agreed = True, tc_values = [], tc_errors = []\<rparr> s of
        (stopped, c, s') \<Rightarrow> (if stopped then c else compare_values c, s'))"

definition CompareTxResult ::
    "('s \<Rightarrow> bool) \<Rightarrow> 's node list \<Rightarrow> string \<Rightarrow> 's \<Rightarrow> string tx_comparison \<times> 's" where
  "CompareTxResult cancelled nodes hash s = compare_tx tr_result cancelled nodes hash s"

definition CompareTxMetadata ::
    "('s \<Rightarrow> bool) \<Rightarrow> 's node list \<Rightarrow> string \<Rightarrow> 's \<Rightarrow> string tx_comparison \<times> 's" where
  "CompareTxMetadata cancelled nodes hash s = compare_tx tr_affected cancelled nodes hash s"

text \<open>
  \<open>WaitTxValidated\<close>: \<open>polls\<close> gives, for each node in turn, how many rounds start before
  the common deadline.
\<close>

fun wait_tx_node :: "('s \<Rightarrow> bool) \<Rightarrow> 's node \<Rightarrow> string \<Rightarrow> nat \<Rightarrow> 's \<Rightarrow> unit go_result \<times> 's" where
  "wait_tx_node cancelled n hash 0 s =
     (if cancelled s then (Inl ''context canceled'', s)
      else (Inl (''wait '' @ hash @ '' on '' @ fst n @ '': timeout''), s))"
| "wait_tx_node cancelled n hash (Suc k) s =
     (if cancelled s then (Inl ''context canceled'', s)
      else case Tx (snd n) hash s of
        (Inl _, s') \<Rightarrow> wait_tx_node cancelled n hash k s'
      | (Inr r, s') \<Rightarrow> if tr_validated r then (Inr (), s') else wait_tx_node cancelled n hash k s')"

definition WaitTxValidated ::
    "('s \<Rightarrow> bool) \<Rightarrow> ('s node \<times> nat) list \<Rightarrow> string \<Rightarrow> 's \<Rightarrow> unit go_result \<times> 's" where
  "WaitTxValidated cancelled nodes hash s =
     for_each (\<lambda>(n, k). wait_tx_node cancelled n hash k) nodes s"

section \<open>Conservation of XRP\<close>

record pool_balance =
  pb_addresses :: "string list"
  pb_last :: "int option"

definition NewInvariantPoolBalance :: "string list \<Rightarrow> pool_balance" where
  "NewInvariantPoolBalance addresses = \<lparr>pb_addresses = addresses, pb_last = None\<rparr>"

text \<open>\<open>big.Int.SetString(s, 10)\<close>: an optional sign and at least one digit, nothing else.\<close>

definition parse_big :: "string \<Rightarrow> int option" where
  "parse_big s = (case scan_sign s of (neg, ds) \<Rightarrow>
     (case parse_nat ds of None \<Rightarrow> None | Some n \<Rightarrow> Some (if neg then - int n else int n)))"

fun sum_balances :: "'s caller \<Rightarrow> string list \<Rightarrow> int \<Rightarrow> 's \<Rightarrow> int go_result \<times> 's" where
  "sum_balances call [] acc s = (Inr acc, s)"
| "sum_balances call (a # addrs) acc s =
     (case AccountInfo call a s of
        (Inl _, s') \<Rightarrow> sum_balances call addrs acc s'
      | (Inr info, s') \<Rightarrow>
          (case parse_big (ai_balance info) of
             None \<Rightarrow> (Inl (a @ '': unparseable balance '' @ ai_balance info), s')
           | Some b \<Rightarrow> sum_balances call addrs (acc + b) s'))"

definition CheckLedger :: "'s caller \<Rightarrow> pool_balance \<Rightarrow> 's \<Rightarrow> unit go_result \<times> pool_balance \<times> 's" where
  "CheckLedger call b s = (case sum_balances call (pb_addresses b) 0 s of
      (Inl e, s') \<Rightarrow> (Inl e, b, s')
    | (Inr acc, s') \<Rightarrow>
        (case pb_last b of
           Some prev \<Rightarrow>
             (if acc > prev
              then (Inl (''XRP conservation violated: prev='' @ int_dec prev @ '' current='' @ int_dec acc
                      @ '' (increase of '' @ int_dec (acc - prev) @ '' drops)''),
                    b\<lparr>pb_last := Some acc\<rparr>, s')
              else (Inr (), b\<lparr>pb_last := Some acc\<rparr>, s'))
         | None \<Rightarrow> (Inr (), b\<lparr>pb_last := Some acc\<rparr>, s')))"

definition LastSum :: "pool_balance \<Rightarrow> int option" where
  "LastSum b = pb_last b"

section \<open>Facts\<close>

definition same_hashes :: "node_hash \<Rightarrow> node_hash \<Rightarrow> bool" where
  "same_hashes a b \<longleftrightarrow> nh_ledger a = nh_ledger b \<and> nh_account a = nh_account b \<and> nh_tx a = nh_tx b"

lemma compare_one_facts:
  "cp_hashes (compare_one ref nh c) = cp_hashes c" "cp_errors (compare_one ref nh c) = cp_errors c"
  "cp_seq (compare_one ref nh c) = cp_seq c"
  "cp_agreed (compare_one ref nh c) \<longleftrightarrow> cp_agreed c \<and> same_hashes nh ref"
  "length (cp_divs (compare_one ref nh c)) \<ge> length (cp_divs c)"
  by (auto simp: compare_one_def add_div_def same_hashes_def)

lemma fold_compare_one:
  "cp_hashes (fold (compare_one ref) nhs c) = cp_hashes c \<and> cp_errors (fold (compare_one ref) nhs c) = cp_errors c
   \<and> (cp_agreed (fold (compare_one ref) nhs c) \<longleftrightarrow> cp_agreed c \<and> (\<forall>nh\<in>set nhs. same_hashes nh ref))"
  by (induction nhs arbitrary: c) (auto simp: compare_one_facts)

lemma compare_hashes_facts:
  "cp_hashes (compare_hashes c) = cp_hashes c" "cp_errors (compare_hashes c) = cp_errors c"
  "cp_agreed (compare_hashes c) \<longleftrightarrow>
     cp_agreed c \<and> (\<forall>a\<in>set (cp_hashes c). \<forall>b\<in>set (cp_hashes c). same_hashes a b)"
proof -
  consider "cp_hashes c = []" | a where "cp_hashes c = [a]" | a b rest where "cp_hashes c = a # b # rest"
    by (metis list.exhaust)
  then have "cp_hashes (compare_hashes c) = cp_hashes c \<and> cp_errors (compare_hashes c) = cp_errors c
    \<and> (cp_agreed (compare_hashes c) \<longleftrightarrow>
     cp_agreed c \<and> (\<forall>a\<in>set (cp_hashes c). \<forall>b\<in>set (cp_hashes c). same_hashes a b))"
  proof cases
    case 3
    have "(\<forall>nh\<in>set (b # rest). same_hashes nh a) \<longleftrightarrow>
        (\<forall>x\<in>set (a # b # rest). \<forall>y\<in>set (a # b # rest). same_hashes x y)"
      by (auto simp: same_hashes_def)
    with 3 fold_compare_one [of a "b # rest" c] show ?thesis by (simp add: compare_hashes_def)
  qed (auto simp: compare_hashes_def same_hashes_def)
  then show "cp_hashes (compare_hashes c) = cp_hashes c" "cp_errors (compare_hashes c) = cp_errors c"
    "cp_agreed (compare_hashes c) \<longleftrightarrow>
     cp_agreed c \<and> (\<forall>a\<in>set (cp_hashes c). \<forall>b\<in>set (cp_hashes c). same_hashes a b)" by blast+
qed

lemma query_hashes_facts:
  assumes "query_hashes nodes seq c s = (c', s')"
  shows "cp_divs c' = cp_divs c \<and> (cp_agreed c' \<longleftrightarrow> cp_agreed c \<and> length (cp_errors c') = length (cp_errors c))
    \<and> length (cp_errors c) \<le> length (cp_errors c')
    \<and> length (cp_hashes c') + length (cp_errors c') = length (cp_hashes c) + length (cp_errors c) + length nodes
    \<and> (length (cp_errors c') = length (cp_errors c) \<longrightarrow>
         map nh_name (cp_hashes c') = map nh_name (cp_hashes c) @ map fst nodes)"
  using assms
proof (induction nodes arbitrary: c s)
  case (Cons n ns)
  obtain r s1 where l: "Ledger (snd n) seq s = (r, s1)" by fastforce
  show ?case
  proof (cases r)
    case (Inl e)
    from Cons.IH [of "c\<lparr>cp_errors := cp_errors c @ [fst n @ '': '' @ e], cp_agreed := False\<rparr>" s1] Cons.prems l Inl
    show ?thesis by auto
  next
    case (Inr x)
    from Cons.IH [of "c\<lparr>cp_hashes := cp_hashes c @ [\<lparr>nh_name = fst n,
             nh_ledger = lg_ledger_hash x, nh_account = lg_account_hash x, nh_tx = lg_tx_hash x\<rparr>]\<rparr>" s1] Cons.prems l Inr
    show ?thesis by auto
  qed
qed auto

text \<open>The verdict of the hash comparison: every node answered and all answers coincide.\<close>

lemma CompareAtSequence_agreed:
  assumes "CompareAtSequence cancelled polls nodes seq s = (c, s')"
  shows "cp_agreed c \<longleftrightarrow> cp_errors c = [] \<and> map nh_name (cp_hashes c) = map fst nodes
    \<and> (\<forall>a\<in>set (cp_hashes c). \<forall>b\<in>set (cp_hashes c). same_hashes a b)"
proof -
  obtain w s1 where w: "wait_all cancelled polls nodes seq s = (w, s1)" by fastforce
  show ?thesis
  proof (cases w)
    case (Some e)
    with assms w show ?thesis by (auto simp: CompareAtSequence_def Let_def)
  next
    case None
    obtain c1 s2 where q: "query_hashes nodes seq \<lparr>cp_seq = seq, cp_agreed = True, cp_hashes = [],
        cp_divs = [], cp_errors = []\<rparr> s1 = (c1, s2)" by fastforce
    have "c = compare_hashes c1" using assms w None q by (simp add: CompareAtSequence_def Let_def)
    with query_hashes_facts [OF q] compare_hashes_facts [of c1] show ?thesis by auto
  qed
qed

lemma collect_tx_facts:
  assumes "collect_tx f cancelled nodes c s = (stopped, c', s')"
  shows "(tc_agreed c' \<longleftrightarrow> tc_agreed c \<and> length (tc_errors c') = length (tc_errors c))
    \<and> length (tc_errors c) \<le> length (tc_errors c') \<and> (stopped \<longrightarrow> length (tc_errors c) < length (tc_errors c'))
    \<and> (length (tc_errors c') = length (tc_errors c) \<longrightarrow>
         map fst (tc_values c') = map fst (tc_values c) @ map fst nodes)"
  using assms
proof (induction nodes arbitrary: c s)
  case (Cons n ns)
  show ?case
  proof (cases "cancelled s")
    case False
    obtain r s1 where t: "Tx (snd n) (tc_hash c) s = (r, s1)" by fastforce
    show ?thesis
    proof (cases r)
      case (Inl e)
      from Cons.IH [of "c\<lparr>tc_agreed := False, tc_errors := tc_errors c @ [fst n @ '': '' @ e]\<rparr>" s1] Cons.prems False t Inl
      show ?thesis by auto
    next
      case (Inr x)
      from Cons.IH [of "c\<lparr>tc_values := tc_values c @ [(fst n, f x)]\<rparr>" s1] Cons.prems False t Inr
      show ?thesis by auto
    qed
  qed (use Cons.prems in auto)
qed auto

lemma disagree_if: "tc_agreed (if P then c\<lparr>tc_agreed := False\<rparr> else c) \<longleftrightarrow> tc_agreed c \<and> \<not> P"
  by simp

lemma compare_values_agreed:
  "tc_agreed (compare_values c) \<longleftrightarrow>
     tc_agreed c \<and> (\<forall>a\<in>set (tc_values c). \<forall>b\<in>set (tc_values c). snd a = snd b)"
  "tc_values (compare_values c) = tc_values c" "tc_errors (compare_values c) = tc_errors c"
proof -
  consider "tc_values c = []" | a where "tc_values c = [a]" | a b rest where "tc_values c = a # b # rest"
    by (metis list.exhaust)
  then have "(tc_agreed (compare_values c) \<longleftrightarrow>
     tc_agreed c \<and> (\<forall>a\<in>set (tc_values c). \<forall>b\<in>set (tc_values c). snd a = snd b))
     \<and> tc_values (compare_values c) = tc_values c \<and> tc_errors (compare_values c) = tc_errors c"
  proof cases
    case 3
    have "\<not> list_ex (\<lambda>x. snd x \<noteq> snd a) (b # rest) \<longleftrightarrow>
        (\<forall>x\<in>set (a # b # rest). \<forall>y\<in>set (a # b # rest). snd x = snd y)"
    proof
      assume "\<not> list_ex (\<lambda>x. snd x \<noteq> snd a) (b # rest)"
      then have "\<forall>x\<in>set (a # b # rest). snd x = snd a" by (simp add: list_ex_iff)
      then show "\<forall>x\<in>set (a # b # rest). \<forall>y\<in>set (a # b # rest). snd x = snd y" by simp
    next
      assume all: "\<forall>x\<in>set (a # b # rest). \<forall>y\<in>set (a # b # rest). snd x = snd y"
      have "snd x = snd a" if "x \<in> set (b # rest)" for x
        by (rule all [rule_format]) (use that in auto)
      then show "\<not> list_ex (\<lambda>x. snd x \<noteq> snd a) (b # rest)" by (simp add: list_ex_iff)
    qed
    then have "tc_agreed (compare_values c) \<longleftrightarrow>
        tc_agreed c \<and> (\<forall>x\<in>set (tc_values c). \<forall>y\<in>set (tc_values c). snd x = snd y)"
      unfolding compare_values_def 3 list.case disagree_if by (simp only:)
    moreover have "tc_values (compare_values c) = tc_values c \<and> tc_errors (compare_values c) = tc_errors c"
      by (simp add: compare_values_def 3)
    ultimately show ?thesis by blast
  qed (auto simp: compare_values_def)
  then show "tc_agreed (compare_values c) \<longleftrightarrow>
     tc_agreed c \<and> (\<forall>a\<in>set (tc_values c). \<forall>b\<in>set (tc_values c). snd a = snd b)"
  "tc_values (compare_values c) = tc_values c" "tc_errors (compare_values c) = tc_errors c" by blast+
qed

lemma compare_tx_agreed:
  assumes "compare_tx f cancelled nodes hash s = (c, s')"
  shows "tc_agreed c \<longleftrightarrow> tc_errors c = [] \<and> map fst (tc_values c) = map fst nodes
    \<and> (\<forall>a\<in>set (tc_values c). \<forall>b\<in>set (tc_values c). snd a = snd b)"
proof -
  obtain st c1 s1 where k: "collect_tx f cancelled nodes
      \<lparr>tc_hash = hash, tc_agreed = True, tc_values = [], tc_errors = []\<rparr> s = (st, c1, s1)"
    by (metis prod_cases3)
  with assms have "c = (if st then c1 else compare_values c1)" by (simp add: compare_tx_def)
  with collect_tx_facts [OF k] compare_values_agreed [of c1] show ?thesis by auto
qed

section \<open>Sums of balances\<close>

text \<open>When every lookup succeeds with the balance \<open>bal\<close>, the sum is the sum of the balances.\<close>

definition all_known :: "'s caller \<Rightarrow> string list \<Rightarrow> (string \<Rightarrow> int) \<Rightarrow> bool" where
  "all_known call addrs bal \<longleftrightarrow> (\<forall>a \<in> set addrs. \<forall>s. \<exists>info s'. AccountInfo call a s = (Inr info, s')
     \<and> parse_big (ai_balance info) = Some (bal a))"

lemma sum_balances_known:
  "all_known call addrs bal \<Longrightarrow> fst (sum_balances call addrs acc s) = Inr (acc + (\<Sum>a \<leftarrow> addrs. bal a))"
proof (induction addrs arbitrary: acc s)
  case (Cons a addrs)
  then have "\<forall>s. \<exists>info s'. AccountInfo call a s = (Inr info, s') \<and> parse_big (ai_balance info) = Some (bal a)"
    and rest: "all_known call addrs bal" by (auto simp: all_known_def)
  then obtain info s' where "AccountInfo call a s = (Inr info, s')" "parse_big (ai_balance info) = Some (bal a)" by blast
  with Cons.IH [OF rest] show ?case by (simp add: add.assoc)
qed simp

text \<open>An account whose lookup fails counts as zero.\<close>

definition unknown_at :: "'s caller \<Rightarrow> string \<Rightarrow> bool" where
  "unknown_at call a \<longleftrightarrow> (\<forall>s. \<exists>e s'. AccountInfo call a s = (Inl e, s'))"

lemma sum_balances_skip:
  "unknown_at call a \<Longrightarrow> \<exists>s'. sum_balances call (a # addrs) acc s = sum_balances call addrs acc s'"
  unfolding unknown_at_def by (metis (no_types, lifting) case_prod_conv old.sum.simps(5) sum_balances.simps(2))

end
