(* ===== verification/Liveness.thy ===== *)
theory Liveness
  imports Oracle
begin

text \<open>
  The liveness monitor (\<open>sidecar/internal/oracle/liveness.go\<close>) as a state machine: one
  \<open>monitor_tick\<close> per tick of its ticker. Times and durations are nanoseconds; a zero
  \<open>time.Time\<close>, from which every subtraction saturates far above any cooldown, is \<open>None\<close>.
\<close>

section \<open>Snapshots\<close>

record node_snapshot =
  sn_name :: string
  sn_seq :: int
  sn_peers :: int
  sn_converge :: rat
  sn_state :: string
  sn_err :: string

definition sample_node :: "string \<Rightarrow> server_info go_result \<Rightarrow> node_snapshot" where
  "sample_node name r = (case r of
      Inl e \<Rightarrow> \<lparr>sn_name = name, sn_seq = 0, sn_peers = 0, sn_converge = 0, sn_state = [], sn_err = e\<rparr>
    | Inr info \<Rightarrow> \<lparr>sn_name = name, sn_seq = lr_seq (si_validated info), sn_peers = si_peers info,
         sn_converge = lc_converge (si_last_close info), sn_state = si_state info, sn_err = []\<rparr>)"

text \<open>\<open>sampleAll\<close>: the goroutines write disjoint slots, so any order gives the same slice.\<close>

fun sampleAll :: "'s node list \<Rightarrow> 's \<Rightarrow> node_snapshot list \<times> 's" where
  "sampleAll [] s = ([], s)"
| "sampleAll (n # ns) s =
     (case ServerInfo (snd n) s of (r, s1) \<Rightarrow>
       (case sampleAll ns s1 of (snaps, s2) \<Rightarrow> (sample_node (fst n) r # snaps, s2)))"

section \<open>The monitor\<close>

datatype event_kind = ConsensusStall | PeerDrop

record liveness_event =
  le_kind :: event_kind
  le_description :: string
  le_stall :: int
  le_snapshots :: "node_snapshot list"

record liveness_config =
  lf_threshold :: int
  lf_peers :: int
  lf_cooldown :: int

definition second :: int where
  "second = 1000000000"

text \<open>The defaults: 60 s threshold, 30 s cooldown.\<close>

definition stall_threshold :: "liveness_config \<Rightarrow> int" where
  "stall_threshold cfg = (if lf_threshold cfg \<le> 0 then 60 * second else lf_threshold cfg)"

definition event_cooldown :: "liveness_config \<Rightarrow> int" where
  "event_cooldown cfg = (if lf_cooldown cfg \<le> 0 then 30 * second else lf_cooldown cfg)"

record monitor_state =
  ms_high_seq :: int
  ms_high_time :: int
  ms_stall_fired :: "int option"
  ms_peer_fired :: "int option"

definition monitor_init :: "int \<Rightarrow> monitor_state" where
  "monitor_init now =
     \<lparr>ms_high_seq = 0, ms_high_time = now, ms_stall_fired = None, ms_peer_fired = None\<rparr>"

definition max_seq :: "node_snapshot list \<Rightarrow> int" where
  "max_seq snaps = fold (\<lambda>s m. if sn_seq s > m then sn_seq s else m) snaps 0"

definition cooled :: "liveness_config \<Rightarrow> int \<Rightarrow> int option \<Rightarrow> bool" where
  "cooled cfg now fired = (case fired of None \<Rightarrow> True | Some t \<Rightarrow> now - t \<ge> event_cooldown cfg)"

definition stall_text :: "int \<Rightarrow> nat \<Rightarrow> int \<Rightarrow> string" where
  "stall_text secs n seq = ''no validated_seq advance across '' @ nat_dec n @ '' nodes for ''
     @ int_dec secs @ ''s (high-water seq='' @ int_dec seq @ '')''"

text \<open>One tick; \<open>%.0f\<close> of the seconds is the rounding \<open>round\<close> (ties aside).\<close>

definition monitor_tick ::
    "liveness_config \<Rightarrow> int \<Rightarrow> node_snapshot list \<Rightarrow> monitor_state
      \<Rightarrow> liveness_event option \<times> monitor_state" where
  "monitor_tick cfg now snaps st =
     (let mx = max_seq snaps;
          (stallFor, st1) =
            (if mx > ms_high_seq st then (0, st\<lparr>ms_high_seq := mx, ms_high_time := now\<rparr>)
             else (now - ms_high_time st, st))
      in if mx \<le> ms_high_seq st1 \<and> stallFor \<ge> stall_threshold cfg \<and> cooled cfg now (ms_stall_fired st1)
         then (Some \<lparr>le_kind = ConsensusStall,
                 le_description = stall_text (round (rat_of_int stallFor / rat_of_int second))
                    (length snaps) (ms_high_seq st1),
                 le_stall = stallFor, le_snapshots = snaps\<rparr>,
               st1\<lparr>ms_stall_fired := Some now\<rparr>)
         else if lf_peers cfg > 0 then
           (let bad = filter (\<lambda>s. sn_err s = [] \<and> sn_peers s < lf_peers cfg) snaps
            in if bad \<noteq> [] \<and> cooled cfg now (ms_peer_fired st1)
               then (Some \<lparr>le_kind = PeerDrop,
                       le_description = nat_dec (length bad)
                         @ '' node(s) report peers < expected='' @ int_dec (lf_peers cfg),
                       le_stall = 0, le_snapshots = bad\<rparr>,
                     st1\<lparr>ms_peer_fired := Some now\<rparr>)
               else (None, st1))
         else (None, st1))"

section \<open>Runs of the monitor\<close>

text \<open>
  A run from the state after start-up: ticks at non-decreasing times, each with the
  snapshots it saw and the event it raised, newest first.
\<close>

type_synonym tick = "int \<times> node_snapshot list \<times> liveness_event option"

inductive monitor_run :: "liveness_config \<Rightarrow> int \<Rightarrow> tick list \<Rightarrow> monitor_state \<Rightarrow> bool" for cfg start where
  start: "monitor_run cfg start [] (monitor_init start)"
| tick: "monitor_run cfg start ts st \<Longrightarrow> monitor_tick cfg now snaps st = (ev, st') \<Longrightarrow>
     (case ts of [] \<Rightarrow> start | t # _ \<Rightarrow> fst t) \<le> now \<Longrightarrow> monitor_run cfg start ((now, snaps, ev) # ts) st'"

inductive_cases monitor_run_NilE: "monitor_run cfg start [] st"
inductive_cases monitor_run_ConsE: "monitor_run cfg start (t # ts) st"

definition is_stall :: "tick \<Rightarrow> bool" where
  "is_stall t = (case t of (_, _, Some e) \<Rightarrow> le_kind e = ConsensusStall | _ \<Rightarrow> False)"

lemma max_seq_upper: "s \<in> set snaps \<Longrightarrow> sn_seq s \<le> max_seq snaps"
  and max_seq_nonneg: "0 \<le> max_seq snaps"
proof -
  have mono: "m \<le> fold (\<lambda>s m. if sn_seq s > m then sn_seq s else m) snaps m" for m
    by (induction snaps arbitrary: m) (auto, meson dual_order.trans less_le_not_le order_trans)
  have "s \<in> set snaps \<Longrightarrow> sn_seq s \<le> fold (\<lambda>s m. if sn_seq s > m then sn_seq s else m) snaps m" for s m
  proof (induction snaps arbitrary: m)
    case (Cons a as)
    have up: "k \<le> fold (\<lambda>s m. if sn_seq s > m then sn_seq s else m) as k" for k
      by (induction as arbitrary: k) (auto, meson dual_order.trans less_le_not_le order_trans)
    show ?case
    proof (cases "s = a")
      case True
      have "sn_seq a \<le> (if sn_seq a > m then sn_seq a else m)" by simp
      also have "\<dots> \<le> fold (\<lambda>s m. if sn_seq s > m then sn_seq s else m) as (if sn_seq a > m then sn_seq a else m)"
        by (rule up)
      finally show ?thesis using True by simp
    next
      case False
      with Cons show ?thesis by simp
    qed
  qed simp
  then show "s \<in> set snaps \<Longrightarrow> sn_seq s \<le> max_seq snaps" by (simp add: max_seq_def)
  show "0 \<le> max_seq snaps" using mono by (simp add: max_seq_def)
qed

text \<open>What one tick does to the state and when it raises a stall.\<close>

lemma monitor_tick_state:
  assumes "monitor_tick cfg now snaps st = (ev, st')"
  shows "ms_high_seq st' = max (ms_high_seq st) (max_seq snaps)"
    and "ms_high_time st' = (if ms_high_seq st < max_seq snaps then now else ms_high_time st)"
    and "ms_stall_fired st' = (if is_stall (now, snaps, ev) then Some now else ms_stall_fired st)"
    and "ms_peer_fired st' = (if \<exists>e. ev = Some e \<and> le_kind e = PeerDrop then Some now else ms_peer_fired st)"
  using assms
  by (auto simp: monitor_tick_def Let_def is_stall_def split: if_splits)

lemma monitor_tick_stall:
  assumes "monitor_tick cfg now snaps st = (ev, st')"
  shows "is_stall (now, snaps, ev) \<longleftrightarrow> max_seq snaps \<le> ms_high_seq st
    \<and> stall_threshold cfg \<le> now - ms_high_time st \<and> cooled cfg now (ms_stall_fired st)"
proof -
  have "0 < stall_threshold cfg" by (simp add: stall_threshold_def second_def)
  with assms show ?thesis
    by (auto simp: monitor_tick_def Let_def is_stall_def split: if_splits)
qed

definition time_of :: "int \<Rightarrow> tick list \<Rightarrow> int" where
  "time_of start ts = (case ts of [] \<Rightarrow> start | t # _ \<Rightarrow> fst t)"

text \<open>The invariant of a run: what the state remembers of the ticks.\<close>

definition remembers :: "int \<Rightarrow> tick list \<Rightarrow> monitor_state \<Rightarrow> bool" where
  "remembers start ts st \<longleftrightarrow>
     (\<forall>t\<in>set ts. fst t \<le> time_of start ts \<and> max_seq (fst (snd t)) \<le> ms_high_seq st
        \<and> (is_stall t \<longrightarrow> (\<exists>u. ms_stall_fired st = Some u \<and> fst t \<le> u)))
   \<and> ms_high_time st \<le> time_of start ts"

lemma monitor_run_invariant:
  assumes "monitor_run cfg start ts st"
  shows "remembers start ts st"
  using assms
proof (induction rule: monitor_run.induct)
  case start
  then show ?case by (simp add: remembers_def monitor_init_def time_of_def)
next
  case (tick ts st now snaps ev st')
  note state = monitor_tick_state [OF tick.hyps(2)]
  have later: "time_of start ts \<le> now" using tick.hyps(3) by (simp add: time_of_def)
  have now: "time_of start ((now, snaps, ev) # ts) = now" by (simp add: time_of_def)
  have old: "fst t \<le> now \<and> max_seq (fst (snd t)) \<le> ms_high_seq st'
      \<and> (is_stall t \<longrightarrow> (\<exists>u. ms_stall_fired st' = Some u \<and> fst t \<le> u))" if "t \<in> set ts" for t
  proof -
    from tick.IH that have t: "fst t \<le> time_of start ts" "max_seq (fst (snd t)) \<le> ms_high_seq st"
      "is_stall t \<Longrightarrow> \<exists>u. ms_stall_fired st = Some u \<and> fst t \<le> u"
      by (auto simp: remembers_def)
    show ?thesis
      using t later by (simp add: state(1,3))
  qed
  have "ms_high_time st' \<le> now" using tick.IH later by (simp add: state(2) remembers_def)
  with old show ?case
    unfolding remembers_def now by (simp add: state(1,3))
qed

text \<open>Two stalls of one run are at least a cooldown apart.\<close>

lemma stalls_spaced:
  assumes "monitor_run cfg start ts st"
  shows "sorted_wrt (\<lambda>a b. is_stall a \<longrightarrow> is_stall b \<longrightarrow> event_cooldown cfg \<le> fst a - fst b) ts"
  using assms
proof (induction rule: monitor_run.induct)
  case start
  then show ?case by simp
next
  case (tick ts st now snaps ev st')
  have "event_cooldown cfg \<le> now - fst b" if b: "b \<in> set ts" "is_stall b" and n: "is_stall (now, snaps, ev)" for b
  proof -
    from monitor_run_invariant [OF tick.hyps(1)] b obtain u where
      u: "ms_stall_fired st = Some u" "fst b \<le> u" by (auto simp: remembers_def)
    from n monitor_tick_stall [OF tick.hyps(2)] u(1) have "event_cooldown cfg \<le> now - u"
      by (simp add: cooled_def)
    with u(2) show ?thesis by simp
  qed
  with tick.IH show ?case by auto
qed

text \<open>A stall is raised only after a full threshold without progress on any node.\<close>

lemma high_time_last_advance:
  assumes "monitor_run cfg start ts st"
  shows "(ms_high_time st = start \<and> (\<forall>(t, snaps, ev)\<in>set ts. max_seq snaps \<le> 0))
    \<or> (\<exists>ts1 snaps ev ts2. ts = ts1 @ (ms_high_time st, snaps, ev) # ts2 \<and> max_seq snaps = ms_high_seq st)"
  using assms
proof (induction rule: monitor_run.induct)
  case start
  then show ?case by (simp add: monitor_init_def)
next
  case (tick ts st now snaps ev st')
  note state = monitor_tick_state [OF tick.hyps(2)]
  show ?case
  proof (cases "ms_high_seq st < max_seq snaps")
    case True
    then have "(now, snaps, ev) # ts = [] @ (ms_high_time st', snaps, ev) # ts" "max_seq snaps = ms_high_seq st'"
      using state by auto
    then show ?thesis by metis
  next
    case False
    have le0: "ms_high_time st = start \<Longrightarrow> (\<forall>(t, snaps, ev)\<in>set ts. max_seq snaps \<le> 0) \<Longrightarrow>
        max_seq snaps \<le> 0 \<or> ms_high_seq st \<noteq> 0"
      using False by auto
    have zero: "(\<forall>(t, snaps, ev)\<in>set ts. max_seq snaps \<le> 0) \<Longrightarrow> ms_high_seq st = 0"
      using tick.hyps(1)
    proof (induction rule: monitor_run.induct)
      case start
      then show ?case by (simp add: monitor_init_def)
    next
      case (tick ts st now snaps ev st')
      then show ?case using monitor_tick_state(1) [OF tick.hyps(2)] max_seq_nonneg [of snaps] by auto
    qed
    from tick.IH show ?thesis
    proof
      assume a: "ms_high_time st = start \<and> (\<forall>(t, snaps, ev)\<in>set ts. max_seq snaps \<le> 0)"
      with zero False state show ?thesis by auto
    next
      assume "\<exists>ts1 snaps ev ts2. ts = ts1 @ (ms_high_time st, snaps, ev) # ts2 \<and> max_seq snaps = ms_high_seq st"
      then obtain ts1 sn e ts2 where w: "ts = ts1 @ (ms_high_time st, sn, e) # ts2" "max_seq sn = ms_high_seq st"
        by blast
      have "(now, snaps, ev) # ts = ((now, snaps, ev) # ts1) @ (ms_high_time st', sn, e) # ts2"
        and "max_seq sn = ms_high_seq st'"
        using w state False by auto
      then show ?thesis by blast
    qed
  qed
qed
end
