(* ===== verification/Detectors.thy ===== *)
theory Detectors
  imports Ledger_Diff Liveness
begin

text \<open>
  What raises findings (\<open>sidecar/internal/finding\<close>): \<open>divergence_oracle.go\<close>,
  \<open>consensus_progress_oracle.go\<close>, \<open>mapper.go\<close> and \<open>disk_watcher.go\<close>. The identifier drawn by
  \<open>NewFindingID\<close> is \<open>fresh s\<close> for the store \<open>s\<close> at hand, JSON encoding and decoding are
  arguments, and the order in which Go ranges over the map of sequences is the argument
  \<open>order\<close>.
\<close>

section \<open>The divergence oracle\<close>

record divergence_input =
  di_node :: string
  di_seq :: int
  di_hash :: string

definition group_at :: "int \<Rightarrow> divergence_input list \<Rightarrow> divergence_input list" where
  "group_at q inputs = filter (\<lambda>i. di_seq i = q) inputs"

definition distinct_hashes :: "divergence_input list \<Rightarrow> string list" where
  "distinct_hashes inputs = sort (remdups (map di_hash inputs))"

definition dedup_key :: "int \<Rightarrow> string list \<Rightarrow> string" where
  "dedup_key q hs = int_dec q @ '':'' @ str_join ''|'' hs"

definition summarizeNodesByHash :: "divergence_input list \<Rightarrow> string" where
  "summarizeNodesByHash inputs = str_join '', ''
     (map (\<lambda>h. str_join ''='' (map di_node (filter (\<lambda>i. di_hash i = h) inputs)) @ take 8 h)
       (distinct_hashes inputs))"

definition divergence_finding :: "string \<Rightarrow> int \<Rightarrow> int \<Rightarrow> divergence_input list \<Rightarrow> finding" where
  "divergence_finding fid now q g =
     \<lparr>fd_id = fid, fd_run = [], fd_kind = KindStateDivergence, fd_severity = SeverityError, fd_opened = now,
      fd_summary = nat_dec (length (distinct_hashes g)) @ '' nodes disagree on validated ledger ''
        @ int_dec q @ '': '' @ summarizeNodesByHash g,
      fd_detail = None,
      fd_evidence = Some \<lparr>ev_range = (word_of_int q, word_of_int q), ev_keys = [''validated_ledger:'' @ int_dec q]\<rparr>,
      fd_repro = None, fd_suspects = []\<rparr>"

text \<open>The diff is attached when a fetcher is configured.\<close>

definition attach_diff ::
    "(string \<Rightarrow> int \<Rightarrow> ledger_snapshot option go_result) option \<Rightarrow> (ledger_diff \<Rightarrow> string go_result)
      \<Rightarrow> int \<Rightarrow> divergence_input list \<Rightarrow> finding \<Rightarrow> finding" where
  "attach_diff fetcher marshal q g f = (case fetcher of
      None \<Rightarrow> f
    | Some fetch \<Rightarrow>
        (let (snaps, errs) = fetchAllConcurrent fetch (sort (map di_node g)) q;
             diff = computeLedgerDiff q snaps errs;
             f1 = (case marshal diff of Inl _ \<Rightarrow> f | Inr raw \<Rightarrow> f\<lparr>fd_detail := Some raw\<rparr>)
         in f1\<lparr>fd_suspects := fd_suspects f1 @ ld_suspects diff\<rparr>))"

record detector_env =
  de_fresh :: "store \<Rightarrow> string"
  de_fetcher :: "(string \<Rightarrow> int \<Rightarrow> ledger_snapshot option go_result) option"
  de_marshal :: "ledger_diff \<Rightarrow> string go_result"

definition tick_seq ::
    "detector_env \<Rightarrow> int \<Rightarrow> divergence_input list \<Rightarrow> int \<Rightarrow> string list \<times> store \<Rightarrow> string list \<times> store" where
  "tick_seq env now inputs q st = (case st of (seen, s) \<Rightarrow>
     (let g = group_at q inputs; hs = distinct_hashes g
      in if length hs < 2 then (seen, s)
         else let key = dedup_key q hs in
           if key \<in> set seen then (seen, s)
           else (key # seen,
                 store_add (attach_diff (de_fetcher env) (de_marshal env) q g
                   (divergence_finding (de_fresh env s) now q g)) s)))"

definition divergence_tick ::
    "detector_env \<Rightarrow> int list \<Rightarrow> int \<Rightarrow> divergence_input list \<Rightarrow> string list \<times> store \<Rightarrow> string list \<times> store" where
  "divergence_tick env order now inputs st = fold (tick_seq env now inputs) order st"

text \<open>An order Go may range in: every sequence of the inputs once.\<close>

definition ranges_over :: "divergence_input list \<Rightarrow> int list \<Rightarrow> bool" where
  "ranges_over inputs order \<longleftrightarrow> distinct order \<and> set order = di_seq ` set inputs"

section \<open>The consensus-progress oracle\<close>

record progress_input =
  pi_node :: string
  pi_closed :: int
  pi_validated :: int

definition gap_of :: "progress_input \<Rightarrow> int" where
  "gap_of i = pi_closed i - pi_validated i"

record progress_cfg =
  pc_gap :: int
  pc_sustain :: int

definition NewConsensusProgressOracle :: "int \<Rightarrow> int \<Rightarrow> progress_cfg" where
  "NewConsensusProgressOracle gap sustain =
     \<lparr>pc_gap = (if gap \<le> 0 then 10 else gap), pc_sustain = (if sustain \<le> 0 then 120 * second else sustain)\<rparr>"

record progress_state =
  ps_starts :: "(string \<times> int) list"
  ps_open :: bool

definition progress_init :: progress_state where
  "progress_init = \<lparr>ps_starts = [], ps_open = False\<rparr>"

text \<open>The loop over the inputs: stall starts, worst duration, stalled inputs.\<close>

definition progress_visit ::
    "int \<Rightarrow> int \<Rightarrow> progress_input \<Rightarrow> (string \<times> int) list \<times> int \<times> progress_input list
      \<Rightarrow> (string \<times> int) list \<times> int \<times> progress_input list" where
  "progress_visit gap now i acc = (case acc of (starts, worst, stalled) \<Rightarrow>
     if gap < gap_of i then
       (let (t, starts1) = (case map_of starts (pi_node i) of
              None \<Rightarrow> (now, AList.update (pi_node i) now starts)
            | Some t \<Rightarrow> (t, starts))
        in (starts1, if worst < now - t then now - t else worst, stalled @ [i]))
     else (AList.delete (pi_node i) starts, worst, stalled))"

definition progress_scan ::
    "int \<Rightarrow> int \<Rightarrow> progress_input list \<Rightarrow> (string \<times> int) list \<times> int \<times> progress_input list
      \<Rightarrow> (string \<times> int) list \<times> int \<times> progress_input list" where
  "progress_scan gap now is acc = fold (progress_visit gap now) is acc"

definition summarizeStall :: "progress_input list \<Rightarrow> int \<Rightarrow> int \<Rightarrow> string" where
  "summarizeStall stalled worst gap =
     ''consensus stalled for '' @ int_dec (round (rat_of_int worst / rat_of_int second))
       @ ''s (gap > '' @ int_dec gap @ '' on '' @ nat_dec (length stalled) @ '' node(s)): ''
       @ str_join ''; '' (map (\<lambda>i. pi_node i @ '' closed='' @ int_dec (pi_closed i) @ '' validated=''
            @ int_dec (pi_validated i) @ '' gap='' @ int_dec (gap_of i)) (sort_key pi_node stalled))"

definition stallDiffKeys :: "progress_input list \<Rightarrow> string list" where
  "stallDiffKeys stalled = sort (map (\<lambda>i. pi_node i @ '':closed='' @ int_dec (pi_closed i)
     @ '':validated='' @ int_dec (pi_validated i)) stalled)"

definition stall_finding :: "string \<Rightarrow> int \<Rightarrow> progress_input list \<Rightarrow> int \<Rightarrow> int \<Rightarrow> finding" where
  "stall_finding fid now stalled worst gap =
     \<lparr>fd_id = fid, fd_run = [], fd_kind = KindConsensusStall, fd_severity = SeverityError, fd_opened = now,
      fd_summary = summarizeStall stalled worst gap, fd_detail = None,
      fd_evidence = Some \<lparr>ev_range = (0, 0), ev_keys = stallDiffKeys stalled\<rparr>,
      fd_repro = None, fd_suspects = []\<rparr>"

definition progress_tick ::
    "(store \<Rightarrow> string) \<Rightarrow> progress_cfg \<Rightarrow> int \<Rightarrow> progress_input list \<Rightarrow> progress_state \<times> store
      \<Rightarrow> finding option \<times> progress_state \<times> store" where
  "progress_tick fresh cfg now inputs ps = (case ps of (st, s) \<Rightarrow>
     if inputs = [] then (None, \<lparr>ps_starts = [], ps_open = False\<rparr>, s)
     else
       (case progress_scan (pc_gap cfg) now inputs (ps_starts st, 0, []) of
          (starts, worst, stalled) \<Rightarrow>
            (let st1 = st\<lparr>ps_starts := filter (\<lambda>(n, _). n \<in> pi_node ` set inputs) starts\<rparr>
             in if stalled = [] then (None, st1\<lparr>ps_open := False\<rparr>, s)
                else if ps_open st1 \<or> worst < pc_sustain cfg then (None, st1, s)
                else let f = stall_finding (fresh s) now stalled worst (pc_gap cfg)
                     in (Some f, st1\<lparr>ps_open := True\<rparr>, store_add f s))))"

section \<open>Corpus divergences as findings\<close>

definition mapKind :: "string \<Rightarrow> string" where
  "mapKind k =
     (if k = ''state_hash'' \<or> k = ''tx_result'' \<or> k = ''metadata'' then KindStateDivergence
      else if k = ''consensus_stall'' then KindConsensusStall
      else if k = ''peer_drop'' then KindPeerDrop
      else if k = ''invariant'' \<or> k = ''chaos'' then KindChaosViolation
      else if k = ''crash'' then KindNodeCrash
      else if k = ''setup_failure'' then KindFuzzFailure
      else KindFuzzFailure)"

text \<open>\<open>RecordedAt\<close> absent from a file decodes to the zero time, \<open>zero\<close>.\<close>

definition MapDivergence ::
    "(fields \<Rightarrow> string go_result) \<Rightarrow> int \<Rightarrow> string \<Rightarrow> divergence \<Rightarrow> finding go_result" where
  "MapDivergence marshal zero fid d =
     ebind (if dg_details d \<noteq> [] then map_sum id Some (ewrap ''marshal details: '' (marshal (dg_details d)))
            else Inr None) (\<lambda>detail.
       Inr \<lparr>fd_id = fid, fd_run = [], fd_kind = mapKind (dg_kind d), fd_severity = SeverityError,
         fd_opened = (case dg_time d of None \<Rightarrow> zero | Some t \<Rightarrow> t), fd_summary = dg_description d,
         fd_detail = detail, fd_evidence = None, fd_repro = None, fd_suspects = []\<rparr>)"

section \<open>The disk watcher\<close>

text \<open>\<open>filepath.Ext\<close> of a name: from its last dot on.\<close>

definition filepath_ext :: "string \<Rightarrow> string" where
  "filepath_ext name =
     (let r = rev name; tail = takeWhile (\<lambda>c. c \<noteq> CHR ''.'' \<and> c \<noteq> CHR ''/'') r;
          rest = drop (length tail) r
      in if rest \<noteq> [] \<and> hd rest = CHR ''.'' then CHR ''.'' # rev tail else [])"

record dir_entry =
  en_name :: string
  en_dir :: bool

record watcher_env =
  we_read :: "string \<Rightarrow> string go_result"
  we_parse :: "string \<Rightarrow> divergence go_result"
  we_marshal :: "fields \<Rightarrow> string go_result"
  we_run_id :: "string option"
  we_fresh :: "store \<Rightarrow> string"
  we_zero :: int

definition watcher_ingest :: "watcher_env \<Rightarrow> string \<Rightarrow> store \<Rightarrow> store" where
  "watcher_ingest env path s =
     (case ebind (we_read env path) (\<lambda>data. ebind (we_parse env data)
             (MapDivergence (we_marshal env) (we_zero env) (we_fresh env s))) of
        Inl _ \<Rightarrow> s
      | Inr f \<Rightarrow> store_add
          (case we_run_id env of
             Some rid \<Rightarrow> if fd_run f = [] \<and> rid \<noteq> [] then f\<lparr>fd_run := rid\<rparr> else f
           | None \<Rightarrow> f) s)"

fun scan_entries ::
    "watcher_env \<Rightarrow> string \<Rightarrow> dir_entry list \<Rightarrow> string list \<times> store \<Rightarrow> string list \<times> store" where
  "scan_entries env dir [] st = st"
| "scan_entries env dir (e # es) (seen, s) =
     (if en_dir e \<or> filepath_ext (en_name e) \<noteq> ''.json'' \<or> en_name e \<in> set seen
      then scan_entries env dir es (seen, s)
      else scan_entries env dir es (en_name e # seen, watcher_ingest env (path_join [dir, en_name e]) s))"

definition watcher_scan ::
    "watcher_env \<Rightarrow> string \<Rightarrow> dir_entry list go_result \<Rightarrow> string list \<times> store \<Rightarrow> string list \<times> store" where
  "watcher_scan env base listing st = (case listing of
      Inl _ \<Rightarrow> st
    | Inr es \<Rightarrow> scan_entries env (path_join [base, ''divergences'']) es st)"

section \<open>Facts about the divergence oracle\<close>

lemma int_dec_chars: "c \<in> set (int_dec i) \<Longrightarrow> c = CHR ''-'' \<or> of_char c \<in> {48 :: nat .. 57}"
  using nat_dec_digits by (auto simp: int_dec_def split: if_splits)

lemma colon_int_dec: "CHR '':'' \<notin> set (int_dec i)"
  using int_dec_chars [of "CHR '':''" i] by auto

lemma minus_nat_dec: "CHR ''-'' \<notin> set (nat_dec n)"
  using nat_dec_digits [of "CHR ''-''" n] by auto

lemma int_dec_inj: "int_dec i = int_dec j \<longleftrightarrow> i = j"
proof
  assume eq: "int_dec i = int_dec j"
  have neg: "CHR ''-'' \<in> set (int_dec i) \<longleftrightarrow> i < 0" for i
    using minus_nat_dec by (simp add: int_dec_def)
  from eq have "i < 0 \<longleftrightarrow> j < 0" using neg by metis
  with eq show "i = j" by (auto simp: int_dec_def split: if_splits)
qed simp

lemma append_sep_inj:
  "c \<notin> set a \<Longrightarrow> c \<notin> set b \<Longrightarrow> a @ c # x = b @ c # y \<longleftrightarrow> a = b \<and> x = y"
proof (induction a arbitrary: b)
  case Nil
  then show ?case by (cases b) auto
next
  case (Cons k a)
  then show ?case by (cases b) auto
qed

lemma dedup_key_seq: "dedup_key p hs = dedup_key q ks \<Longrightarrow> p = q \<and> str_join ''|'' hs = str_join ''|'' ks"
  using append_sep_inj [OF colon_int_dec colon_int_dec, of p "str_join ''|'' hs" q "str_join ''|'' ks"]
  by (simp add: dedup_key_def int_dec_inj)

lemma str_join_inj:
  "hs \<noteq> [] \<Longrightarrow> ks \<noteq> [] \<Longrightarrow> (\<And>h. h \<in> set hs \<Longrightarrow> c \<notin> set h) \<Longrightarrow> (\<And>h. h \<in> set ks \<Longrightarrow> c \<notin> set h) \<Longrightarrow>
     str_join [c] hs = str_join [c] ks \<Longrightarrow> hs = ks"
proof (induction "[c]" hs arbitrary: ks rule: str_join.induct)
  case (2 x)
  have "c \<notin> set (str_join [c] ks)" using 2 by (metis list.set_intros(1) str_join.simps(2))
  then have "length ks = 1" using 2(2) by (cases "([c], ks)" rule: str_join.cases) auto
  with 2 show ?case by (cases ks) auto
next
  case (3 x y ys)
  have "c \<in> set (str_join [c] (x # y # ys))" by simp
  then have "c \<in> set (str_join [c] ks)" by (simp only: 3(6))
  with 3 obtain u v vs where ks: "ks = u # v # vs"
    by (cases "([c], ks)" rule: str_join.cases) auto
  have "c \<notin> set x" "c \<notin> set u" using 3 ks by auto
  with 3(6) ks have "x = u \<and> str_join [c] (y # ys) = str_join [c] (v # vs)"
    using append_sep_inj [of c x u "str_join [c] (y # ys)" "str_join [c] (v # vs)"] by simp
  moreover from this have "y # ys = v # vs" using 3(1) [of "v # vs"] 3(4, 5) ks by simp
  ultimately show ?case using ks by simp
qed simp

definition disagree :: "divergence_input list \<Rightarrow> int \<Rightarrow> bool" where
  "disagree inputs q \<longleftrightarrow>
     (\<exists>a \<in> set (group_at q inputs). \<exists>b \<in> set (group_at q inputs). di_hash a \<noteq> di_hash b)"

lemma set_distinct_hashes: "set (distinct_hashes g) = di_hash ` set g"
  by (simp add: distinct_hashes_def)

lemma less_two_hashes: "length (distinct_hashes g) < 2 \<longleftrightarrow> (\<forall>a \<in> set g. \<forall>b \<in> set g. di_hash a = di_hash b)"
proof -
  have "length (distinct_hashes g) = card (di_hash ` set g)"
    by (simp add: distinct_hashes_def length_remdups_card_conv)
  moreover have "card (di_hash ` set g) \<le> Suc 0 \<longleftrightarrow> (\<forall>a \<in> set g. \<forall>b \<in> set g. di_hash a = di_hash b)"
    by (subst card_le_Suc0_iff_eq) auto
  ultimately show ?thesis by (simp add: less_Suc_eq_le numeral_2_eq_2)
qed

definition key_at :: "divergence_input list \<Rightarrow> int \<Rightarrow> string" where
  "key_at inputs q = dedup_key q (distinct_hashes (group_at q inputs))"

definition reports_seq :: "finding \<Rightarrow> int \<Rightarrow> bool" where
  "reports_seq f q \<longleftrightarrow> fd_kind f = KindStateDivergence \<and> fd_evidence f =
     Some \<lparr>ev_range = (word_of_int q, word_of_int q), ev_keys = [''validated_ledger:'' @ int_dec q]\<rparr>"

lemma attach_diff_keeps:
  "fd_id (attach_diff fe ma q g f) = fd_id f" "fd_kind (attach_diff fe ma q g f) = fd_kind f"
  "fd_evidence (attach_diff fe ma q g f) = fd_evidence f"
  by (simp_all add: attach_diff_def Let_def case_prod_unfold split: option.splits sum.splits)

definition draws_fresh :: "(store \<Rightarrow> string) \<Rightarrow> bool" where
  "draws_fresh fresh \<longleftrightarrow> (\<forall>s. store_ok s \<longrightarrow> fresh s \<notin> ids_of s)"

lemma store_ok_fresh: "draws_fresh fresh \<Longrightarrow> store_ok s \<Longrightarrow> fd_id f = fresh s \<Longrightarrow> store_ok (store_add f s)"
  using sink.ok_add by (simp add: draws_fresh_def)

lemma divergence_fold:
  assumes "draws_fresh (de_fresh env)" and "distinct order" and "store_ok s"
  shows "\<exists>fs. fold (tick_seq env now inputs) order (seen, s) =
      (rev (map (key_at inputs) (filter (\<lambda>q. disagree inputs q \<and> key_at inputs q \<notin> set seen) order)) @ seen,
       fold store_add fs s)
    \<and> list_all2 reports_seq fs (filter (\<lambda>q. disagree inputs q \<and> key_at inputs q \<notin> set seen) order)
    \<and> store_ok (fold store_add fs s)"
  using assms(2, 3)
proof (induction order arbitrary: seen s)
  case Nil
  then show ?case by (intro exI [of _ "[]"]) simp
next
  case (Cons q order)
  show ?case
  proof (cases "disagree inputs q \<and> key_at inputs q \<notin> set seen")
    case False
    have "length (distinct_hashes (group_at q inputs)) < 2 \<longleftrightarrow> \<not> disagree inputs q"
      using less_two_hashes [of "group_at q inputs"] by (auto simp: disagree_def)
    with False have "tick_seq env now inputs q (seen, s) = (seen, s)"
      by (auto simp: tick_seq_def key_at_def Let_def)
    with False Cons show ?thesis by auto
  next
    case True
    let ?f = "attach_diff (de_fetcher env) (de_marshal env) q (group_at q inputs)
      (divergence_finding (de_fresh env s) now q (group_at q inputs))"
    have "\<not> length (distinct_hashes (group_at q inputs)) < 2"
      using True less_two_hashes [of "group_at q inputs"] by (auto simp: disagree_def)
    with True have step: "tick_seq env now inputs q (seen, s) = (key_at inputs q # seen, store_add ?f s)"
      by (simp add: tick_seq_def key_at_def Let_def)
    have rep: "reports_seq ?f q" by (simp add: reports_seq_def attach_diff_keeps divergence_finding_def)
    have ok: "store_ok (store_add ?f s)"
      by (rule store_ok_fresh [OF assms(1) Cons.prems(2)]) (simp add: attach_diff_keeps divergence_finding_def)
    have "key_at inputs p = key_at inputs q \<longleftrightarrow> p = q" for p using dedup_key_seq by (auto simp: key_at_def)
    then have rest: "filter (\<lambda>p. disagree inputs p \<and> key_at inputs p \<notin> set (key_at inputs q # seen)) order =
        filter (\<lambda>p. disagree inputs p \<and> key_at inputs p \<notin> set seen) order"
      using Cons.prems(1) by (intro filter_cong) auto
    from Cons.IH [OF _ ok, of "key_at inputs q # seen"] Cons.prems(1) obtain fs where
      fs: "fold (tick_seq env now inputs) order (key_at inputs q # seen, store_add ?f s) =
        (rev (map (key_at inputs) (filter (\<lambda>q. disagree inputs q \<and> key_at inputs q \<notin> set seen) order))
           @ key_at inputs q # seen, fold store_add fs (store_add ?f s))"
      "list_all2 reports_seq fs (filter (\<lambda>q. disagree inputs q \<and> key_at inputs q \<notin> set seen) order)"
      "store_ok (fold store_add fs (store_add ?f s))"
      unfolding rest by auto
    show ?thesis
      by (rule exI [of _ "?f # fs"]) (use True step rep fs in simp)
  qed
qed

section \<open>Facts about the consensus-progress oracle\<close>

lemma progress_visit_facts:
  assumes "progress_visit gap now i (st, w, d) = (st', w', d')"
  shows "d' = d @ (if gap < gap_of i then [i] else [])"
    and "w' = w \<or> gap < gap_of i \<and> w < w' \<and> (\<exists>t. w' = now - t \<and> (map_of st (pi_node i) = Some t \<or> t = now))"
    and "map_of st' n = (if n = pi_node i then
        (if gap < gap_of i then Some (case map_of st n of None \<Rightarrow> now | Some t \<Rightarrow> t) else None) else map_of st n)"
    and "gap < gap_of i \<Longrightarrow> now - (case map_of st (pi_node i) of None \<Rightarrow> now | Some t \<Rightarrow> t) \<le> w'"
  using assms by (auto simp: progress_visit_def update_conv' delete_conv' split: if_splits option.splits)

lemma progress_scan_snoc:
  "progress_scan gap now (is @ [i]) acc = progress_visit gap now i (progress_scan gap now is acc)"
  by (simp add: progress_scan_def)

lemma progress_scan_stalled:
  "progress_scan gap now is (st, w, d) = (st', w', d') \<Longrightarrow> d' = d @ filter (\<lambda>i. gap < gap_of i) is"
proof (induction "is" arbitrary: st' w' d' rule: rev_induct)
  case (snoc i "is")
  obtain a b c where m: "progress_scan gap now is (st, w, d) = (a, b, c)" by (metis surj_pair)
  with snoc show ?case using progress_visit_facts(1) [of gap now i a b c]
    by (simp add: progress_scan_snoc)
qed (simp add: progress_scan_def)

lemma progress_scan_starts:
  "progress_scan gap now is (st, w, d) = (st', w', d') \<Longrightarrow> map_of st' n = Some t \<Longrightarrow>
     (n \<in> pi_node ` set is \<longrightarrow> (\<exists>i \<in> set is. pi_node i = n \<and> gap < gap_of i)) \<and> (map_of st n = Some t \<or> t = now)"
proof (induction "is" arbitrary: st' w' d' t rule: rev_induct)
  case (snoc i "is")
  obtain a b c where m: "progress_scan gap now is (st, w, d) = (a, b, c)" by (metis surj_pair)
  have v: "progress_visit gap now i (a, b, c) = (st', w', d')"
    using snoc.prems(1) by (simp add: progress_scan_snoc m)
  note st' = progress_visit_facts(3) [OF v, of n]
  show ?case
  proof (cases "n = pi_node i")
    case True
    with st' snoc.prems(2) have "gap < gap_of i" "t = now \<or> map_of a n = Some t"
      by (auto split: if_splits option.splits)
    with True snoc.IH [OF m, of t] show ?thesis by auto
  next
    case False
    with st' snoc.prems(2) have "map_of a n = Some t" by simp
    from snoc.IH [OF m this] False show ?thesis by auto
  qed
qed (simp add: progress_scan_def)

lemma progress_scan_worst:
  "progress_scan gap now is (st, w, d) = (st', w', d') \<Longrightarrow> w' = w \<or> (\<exists>i \<in> set is. gap < gap_of i \<and>
      (\<exists>t. w' = now - t \<and> (map_of st (pi_node i) = Some t \<or> t = now)))"
proof (induction "is" arbitrary: st' w' d' rule: rev_induct)
  case (snoc i "is")
  obtain a b c where m: "progress_scan gap now is (st, w, d) = (a, b, c)" by (metis surj_pair)
  have v: "progress_visit gap now i (a, b, c) = (st', w', d')"
    using snoc.prems(1) by (simp add: progress_scan_snoc m)
  from progress_visit_facts(2) [OF v] show ?case
  proof
    assume "w' = b"
    with snoc.IH [OF m] show ?thesis by auto
  next
    assume "gap < gap_of i \<and> b < w' \<and> (\<exists>t. w' = now - t \<and> (map_of a (pi_node i) = Some t \<or> t = now))"
    then show ?thesis using progress_scan_starts [OF m] by (metis in_set_conv_decomp)
  qed
qed (simp add: progress_scan_def)

text \<open>With one entry per node the start of a node that was stalled already is kept.\<close>

lemma progress_scan_kept:
  "progress_scan gap now is (st, w, d) = (st', w', d') \<Longrightarrow> distinct (map pi_node is) \<Longrightarrow>
     (\<forall>n. n \<notin> pi_node ` set is \<longrightarrow> map_of st' n = map_of st n)
   \<and> (\<forall>i \<in> set is. gap < gap_of i \<longrightarrow>
        map_of st' (pi_node i) = Some (case map_of st (pi_node i) of None \<Rightarrow> now | Some t \<Rightarrow> t)
      \<and> now - (case map_of st (pi_node i) of None \<Rightarrow> now | Some t \<Rightarrow> t) \<le> w')"
proof (induction "is" arbitrary: st' w' d' rule: rev_induct)
  case (snoc i "is")
  obtain a b c where m: "progress_scan gap now is (st, w, d) = (a, b, c)" by (metis surj_pair)
  have v: "progress_visit gap now i (a, b, c) = (st', w', d')"
    using snoc.prems(1) by (simp add: progress_scan_snoc m)
  have d: "distinct (map pi_node is)" "pi_node i \<notin> pi_node ` set is" using snoc.prems(2) by auto
  note IH = snoc.IH [OF m d(1)]
  have w: "b \<le> w'" using progress_visit_facts(2) [OF v] by auto
  note st' = progress_visit_facts(3) [OF v]
  have old: "map_of a (pi_node i) = map_of st (pi_node i)" using IH d(2) by simp
  show ?case
  proof (intro conjI allI ballI impI)
    fix n assume "n \<notin> pi_node ` set (is @ [i])"
    then show "map_of st' n = map_of st n" using IH st' [of n] by simp
  next
    fix k assume k: "k \<in> set (is @ [i])" "gap < gap_of k"
    let ?t = "case map_of st (pi_node k) of None \<Rightarrow> now | Some t \<Rightarrow> t"
    have "map_of st' (pi_node k) = Some ?t \<and> now - ?t \<le> w'"
    proof (cases "k = i")
      case True
      then show ?thesis using st' [of "pi_node i"] old k(2) progress_visit_facts(4) [OF v] by simp
    next
      case False
      with k have mem: "k \<in> set is" by simp
      with d(2) have "pi_node k \<noteq> pi_node i" by (metis image_eqI)
      with IH mem k(2) st' [of "pi_node k"] have "map_of st' (pi_node k) = Some ?t" "now - ?t \<le> b" by auto
      with w show ?thesis by simp
    qed
    then show "map_of st' (pi_node k) = Some ?t" "now - ?t \<le> w'" by auto
  qed
qed (simp add: progress_scan_def)

section \<open>Runs of the consensus-progress oracle\<close>

text \<open>A run: ticks newest first, with what each saw and raised.\<close>

type_synonym ptick = "int \<times> progress_input list \<times> finding option"

inductive progress_run :: "(store \<Rightarrow> string) \<Rightarrow> progress_cfg \<Rightarrow> ptick list \<Rightarrow> progress_state \<times> store \<Rightarrow> bool"
  for fresh cfg where
  start: "progress_run fresh cfg [] (progress_init, NewStore)"
| tick: "progress_run fresh cfg ts ps \<Longrightarrow> progress_tick fresh cfg now inputs ps = (ev, ps') \<Longrightarrow>
     (case ts of [] \<Rightarrow> True | t # _ \<Rightarrow> fst t \<le> now) \<Longrightarrow> progress_run fresh cfg ((now, inputs, ev) # ts) ps'"

inductive_cases progress_run_ConsE: "progress_run fresh cfg (t # ts) ps"

definition lagging :: "progress_cfg \<Rightarrow> string \<Rightarrow> ptick \<Rightarrow> bool" where
  "lagging cfg n t = (\<exists>i \<in> set (fst (snd t)). pi_node i = n \<and> pc_gap cfg < gap_of i)"

definition calm :: "progress_cfg \<Rightarrow> ptick \<Rightarrow> bool" where
  "calm cfg t = (\<forall>i \<in> set (fst (snd t)). gap_of i \<le> pc_gap cfg)"

definition raised :: "ptick \<Rightarrow> bool" where
  "raised t \<longleftrightarrow> snd (snd t) \<noteq> None"

lemma map_of_filter_keys: "map_of (filter (\<lambda>(k, _). P k) xs) k = (if P k then map_of xs k else None)"
  by (induction xs) auto

text \<open>The cases of one tick.\<close>

lemma progress_tick_cases:
  assumes "progress_tick fresh cfg now inputs (st, s) = (ev, st', s')"
  obtains (gone) "inputs = []" "ev = None" "ps_starts st' = []" "\<not> ps_open st'" "s' = s"
  | (seen) starts worst stalled where "inputs \<noteq> []"
      "progress_scan (pc_gap cfg) now inputs (ps_starts st, 0, []) = (starts, worst, stalled)"
      "ps_starts st' = filter (\<lambda>(n, _). n \<in> pi_node ` set inputs) starts"
      "ps_open st' \<longleftrightarrow> \<not> calm cfg (now, inputs, ev) \<and> (ps_open st \<or> pc_sustain cfg \<le> worst)"
      "ev \<noteq> None \<longleftrightarrow> \<not> calm cfg (now, inputs, ev) \<and> \<not> ps_open st \<and> pc_sustain cfg \<le> worst"
      "s' = (case ev of None \<Rightarrow> s | Some f \<Rightarrow> store_add f s)"
      "\<And>f. ev = Some f \<Longrightarrow> fd_id f = fresh s"
proof (cases "inputs = []")
  case True
  with assms gone show thesis by (auto simp: progress_tick_def)
next
  case False
  obtain starts worst stalled where scan:
    "progress_scan (pc_gap cfg) now inputs (ps_starts st, 0, []) = (starts, worst, stalled)" by (metis surj_pair)
  have "stalled = [] \<longleftrightarrow> calm cfg (now, inputs, ev)"
    using progress_scan_stalled [OF scan] by (auto simp: calm_def filter_empty_conv not_less)
  with False scan assms show thesis
    by (intro seen [OF False scan]) (auto simp: progress_tick_def Let_def stall_finding_def split: if_splits)
qed

text \<open>What the state remembers: a start is the time from which the node lagged at every tick.\<close>

definition since :: "progress_cfg \<Rightarrow> ptick list \<Rightarrow> string \<Rightarrow> int \<Rightarrow> bool" where
  "since cfg ts n t \<longleftrightarrow> (\<exists>recent older. ts = recent @ older \<and> recent \<noteq> [] \<and> fst (last recent) = t
     \<and> (\<forall>k \<in> set recent. lagging cfg n k))"

lemma since_Cons: "since cfg ts n t \<Longrightarrow> lagging cfg n k \<Longrightarrow> since cfg (k # ts) n t"
  unfolding since_def by (metis append_Cons last_ConsR list.distinct(1) set_ConsD)

lemma since_now: "lagging cfg n (now, inputs, ev) \<Longrightarrow> since cfg ((now, inputs, ev) # ts) n now"
  unfolding since_def by (rule exI [of _ "[(now, inputs, ev)]"]) auto

lemma starts_since:
  "progress_run fresh cfg ts ps \<Longrightarrow> map_of (ps_starts (fst ps)) n = Some t \<Longrightarrow> since cfg ts n t"
proof (induction arbitrary: n t rule: progress_run.induct)
  case start
  then show ?case by (simp add: progress_init_def)
next
  case (tick ts ps now inputs ev ps')
  obtain st s st' s' where ps: "ps = (st, s)" "ps' = (st', s')" by (metis surj_pair)
  from tick.hyps(2) [unfolded ps] show ?case
  proof (cases rule: progress_tick_cases)
    case gone
    with tick.prems ps show ?thesis by simp
  next
    case (seen starts worst stalled)
    with tick.prems ps have n: "n \<in> pi_node ` set inputs" "map_of starts n = Some t"
      by (auto simp: map_of_filter_keys split: if_splits)
    from progress_scan_starts [OF seen(2) n(2)] n(1)
    have "lagging cfg n (now, inputs, ev)" and "map_of (ps_starts st) n = Some t \<or> t = now"
      by (auto simp: lagging_def)
    then show ?thesis using since_Cons since_now tick.IH [of n t] ps by auto
  qed
qed

text \<open>A finding is raised only after one node lagged at every tick for the full period.\<close>

lemma raised_since:
  assumes "progress_run fresh cfg ((now, inputs, ev) # ts) ps" and "raised (now, inputs, ev)"
    and "0 < pc_sustain cfg"
  shows "\<exists>n t. since cfg ((now, inputs, ev) # ts) n t \<and> pc_sustain cfg \<le> now - t"
proof -
  obtain ps0 where tick: "progress_run fresh cfg ts ps0" "progress_tick fresh cfg now inputs ps0 = (ev, ps)"
    using assms(1) by (auto elim: progress_run_ConsE)
  obtain st s st' s' where ps: "ps0 = (st, s)" "ps = (st', s')" by (metis surj_pair)
  from tick(2) [unfolded ps] show ?thesis
  proof (cases rule: progress_tick_cases)
    case gone
    with assms(2) show ?thesis by (simp add: raised_def)
  next
    case (seen starts worst stalled)
    then have w: "pc_sustain cfg \<le> worst" using assms(2) by (simp add: raised_def)
    with progress_scan_worst [OF seen(2)] assms(3) obtain i t where
      i: "i \<in> set inputs" "pc_gap cfg < gap_of i" "worst = now - t"
      "map_of (ps_starts st) (pi_node i) = Some t \<or> t = now" by auto
    have "lagging cfg (pi_node i) (now, inputs, ev)" using i by (auto simp: lagging_def)
    then have "since cfg ((now, inputs, ev) # ts) (pi_node i) t"
      using i(4) since_Cons since_now starts_since [OF tick(1)] ps by auto
    with w i(3) show ?thesis by auto
  qed
qed

lemma raised_open:
  "progress_run fresh cfg ts ps \<Longrightarrow> ts = ts1 @ a # ts2 \<Longrightarrow> raised a \<Longrightarrow>
     ps_open (fst ps) \<or> (\<exists>c \<in> set ts1. calm cfg c)"
proof (induction arbitrary: ts1 rule: progress_run.induct)
  case (tick ts ps now inputs ev ps')
  obtain st s st' s' where ps: "ps = (st, s)" "ps' = (st', s')" by (metis surj_pair)
  from tick.hyps(2) [unfolded ps] show ?case
  proof (cases rule: progress_tick_cases)
    case gone
    then have "calm cfg (now, inputs, ev)" "\<not> raised (now, inputs, ev)" by (simp_all add: calm_def raised_def)
    with tick.prems show ?thesis by (cases ts1) auto
  next
    case (seen starts worst stalled)
    show ?thesis
    proof (cases ts1)
      case Nil
      with tick.prems seen ps show ?thesis by (auto simp: raised_def)
    next
      case (Cons b bs)
      with tick.prems tick.IH [of bs] seen ps show ?thesis by auto
    qed
  qed
qed simp

text \<open>Two findings have a calm tick between them.\<close>

lemma raised_apart:
  assumes "progress_run fresh cfg (b # ts1 @ a # ts2) ps" and "raised a" and "raised b"
  shows "\<exists>c \<in> set ts1. calm cfg c"
proof -
  obtain ps0 now inputs ev where tick: "b = (now, inputs, ev)" "progress_run fresh cfg (ts1 @ a # ts2) ps0"
    "progress_tick fresh cfg now inputs ps0 = (ev, ps)"
    using assms(1) by (auto elim: progress_run_ConsE)
  obtain st s st' s' where ps: "ps0 = (st, s)" "ps = (st', s')" by (metis surj_pair)
  from tick(3) [unfolded ps] have "\<not> ps_open st"
    by (cases rule: progress_tick_cases) (use assms(3) tick(1) in \<open>auto simp: raised_def\<close>)
  with raised_open [OF tick(2) refl assms(2)] ps show ?thesis by simp
qed

text \<open>And a stall that lasts is raised: with one entry per node and lagging at every tick of
  the last period, the episode is open.\<close>

lemma progress_run_times:
  "progress_run fresh cfg ts ps \<Longrightarrow> sorted_wrt (\<lambda>a b. fst b \<le> fst a) ts"
proof (induction rule: progress_run.induct)
  case (tick ts ps now inputs ev ps')
  then show ?case by (cases ts) auto
qed simp

lemma lagging_starts:
  assumes "progress_run fresh cfg ts ps" and "\<forall>k \<in> set ts. distinct (map pi_node (fst (snd k)))"
    and "ts = recent @ older" and "recent \<noteq> []" and "\<forall>k \<in> set recent. lagging cfg n k"
  shows "\<exists>t. map_of (ps_starts (fst ps)) n = Some t \<and> t \<le> fst (last recent)"
  using assms
proof (induction arbitrary: recent rule: progress_run.induct)
  case (tick ts ps now inputs ev ps')
  obtain st s st' s' where ps: "ps = (st, s)" "ps' = (st', s')" by (metis surj_pair)
  from tick.prems obtain r where r: "recent = (now, inputs, ev) # r" "ts = r @ older" by (cases recent) auto
  with tick.prems(4) have "lagging cfg n (now, inputs, ev)" by simp
  then obtain i where i: "i \<in> set inputs" "pi_node i = n" "pc_gap cfg < gap_of i" by (auto simp: lagging_def)
  from tick.hyps(2) [unfolded ps] show ?case
  proof (cases rule: progress_tick_cases)
    case gone
    with i show ?thesis by simp
  next
    case (seen starts worst stalled)
    have "distinct (map pi_node inputs)" using tick.prems(1) by simp
    from progress_scan_kept [OF seen(2) this] i seen(3) ps
    have new: "map_of (ps_starts (fst ps')) n = Some (case map_of (ps_starts st) n of None \<Rightarrow> now | Some t \<Rightarrow> t)"
      by (auto simp: map_of_filter_keys)
    show ?thesis
    proof (cases "r = []")
      case False
      with tick.IH [of r] tick.prems r ps obtain t where
        "map_of (ps_starts st) n = Some t" "t \<le> fst (last r)" by auto
      with new False r show ?thesis by simp
    next
      case True
      have "t \<le> now" if "map_of (ps_starts st) n = Some t" for t
      proof -
        have "since cfg ts n t" using starts_since [OF tick.hyps(1)] that ps by simp
        moreover have "k \<in> set ts \<Longrightarrow> fst k \<le> now" for k
          using progress_run_times [OF tick.hyps(1)] tick.hyps(3) by (cases ts) auto
        ultimately show ?thesis unfolding since_def by (metis Un_iff last_in_set set_append)
      qed
      with new True r show ?thesis by (cases "map_of (ps_starts st) n") auto
    qed
  qed
qed simp

lemma lasting_stall_open:
  assumes "progress_run fresh cfg ((now, inputs, ev) # ts) ps"
    and "\<forall>k \<in> set ((now, inputs, ev) # ts). distinct (map pi_node (fst (snd k)))"
    and "(now, inputs, ev) # ts = recent @ older" "recent \<noteq> []" "\<forall>k \<in> set recent. lagging cfg n k"
    and "pc_sustain cfg \<le> now - fst (last recent)"
  shows "ps_open (fst ps)"
proof -
  obtain st s st' s' where "progress_run fresh cfg ts (st, s)" and ps: "ps = (st', s')"
    and tick: "progress_tick fresh cfg now inputs (st, s) = (ev, st', s')"
  proof -
    obtain ps0 where "progress_run fresh cfg ts ps0" "progress_tick fresh cfg now inputs ps0 = (ev, ps)"
      using assms(1) by (auto elim: progress_run_ConsE)
    then show thesis using that by (cases ps0, cases ps) auto
  qed
  from lagging_starts [OF assms(1-5)] obtain t where
    t: "map_of (ps_starts st') n = Some t" "t \<le> fst (last recent)" using ps by auto
  have lag: "lagging cfg n (now, inputs, ev)" using assms(3-5) by (cases recent) auto
  then obtain i where i: "i \<in> set inputs" "pi_node i = n" "pc_gap cfg < gap_of i" by (auto simp: lagging_def)
  from tick show ?thesis
  proof (cases rule: progress_tick_cases)
    case gone
    with i show ?thesis by simp
  next
    case (seen starts worst stalled)
    have "distinct (map pi_node inputs)" using assms(2) by simp
    from progress_scan_kept [OF seen(2) this] i have
      "map_of starts n = Some (case map_of (ps_starts st) n of None \<Rightarrow> now | Some t \<Rightarrow> t)"
      "now - (case map_of (ps_starts st) n of None \<Rightarrow> now | Some t \<Rightarrow> t) \<le> worst" by auto
    with t(1) seen(3) have "now - t \<le> worst" by (auto simp: map_of_filter_keys split: if_splits)
    with t(2) assms(6) have "pc_sustain cfg \<le> worst" by simp
    moreover have "\<not> calm cfg (now, inputs, ev)" using i by (force simp: calm_def)
    ultimately show ?thesis using seen(4) ps by simp
  qed
qed

section \<open>Facts about the disk watcher\<close>

definition is_json :: "dir_entry \<Rightarrow> bool" where
  "is_json e \<longleftrightarrow> \<not> en_dir e \<and> filepath_ext (en_name e) = ''.json''"

lemma scan_entries_Cons:
  "scan_entries env dir (e # es) (seen, s) =
     (if is_json e \<and> en_name e \<notin> set seen
      then scan_entries env dir es (en_name e # seen, watcher_ingest env (path_join [dir, en_name e]) s)
      else scan_entries env dir es (seen, s))"
  by (simp add: is_json_def)

lemma scan_entries_spec:
  "scan_entries env dir es (seen, s) =
     (let names = filter (\<lambda>n. n \<notin> set seen) (map en_name (filter is_json es))
      in (rev names @ seen, fold (\<lambda>n. watcher_ingest env (path_join [dir, n])) names s))"
  if "distinct (map en_name es)"
  using that
proof (induction es arbitrary: seen s)
  case (Cons e es)
  have "filter (\<lambda>n. n \<notin> set (en_name e # seen)) (map en_name (filter is_json es)) =
      filter (\<lambda>n. n \<notin> set seen) (map en_name (filter is_json es))"
  proof (intro filter_cong refl)
    fix n assume "n \<in> set (map en_name (filter is_json es))"
    then have "n \<in> en_name ` set es" by auto
    moreover have "en_name e \<notin> en_name ` set es" using Cons.prems by simp
    ultimately have "n \<noteq> en_name e" by metis
    then show "n \<notin> set (en_name e # seen) \<longleftrightarrow> n \<notin> set seen" by simp
  qed
  then show ?case using Cons by (simp add: scan_entries_Cons Let_def del: scan_entries.simps(2))
qed simp

lemma scan_entries_seen:
  "set (fst (scan_entries env dir es (seen, s))) = set seen \<union> en_name ` set (filter is_json es)"
  by (induction es arbitrary: seen s) (auto simp: is_json_def)

lemma scan_entries_idle:
  "(\<And>e. e \<in> set es \<Longrightarrow> is_json e \<Longrightarrow> en_name e \<in> set seen) \<Longrightarrow> scan_entries env dir es (seen, s) = (seen, s)"
  by (induction es) (auto simp: is_json_def)

lemma watcher_ingest_ok:
  assumes "draws_fresh (we_fresh env)" and "store_ok s"
  shows "store_ok (watcher_ingest env path s)"
proof (cases "ebind (we_read env path) (\<lambda>data. ebind (we_parse env data)
    (MapDivergence (we_marshal env) (we_zero env) (we_fresh env s)))")
  case (Inl e)
  with assms(2) show ?thesis by (simp add: watcher_ingest_def)
next
  case (Inr f)
  then have "fd_id f = we_fresh env s"
    by (auto simp: ebind_Inr_iff MapDivergence_def split: if_splits)
  with Inr show ?thesis
    using store_ok_fresh [OF assms] by (simp add: watcher_ingest_def split: option.splits)
qed

lemma scan_entries_ok:
  "draws_fresh (we_fresh env) \<Longrightarrow> store_ok s \<Longrightarrow> store_ok (snd (scan_entries env dir es (seen, s)))"
  by (induction es arbitrary: seen s) (simp_all add: watcher_ingest_ok)

lemma mapKind_divergence:
  "mapKind k = KindStateDivergence \<longleftrightarrow> k \<in> {''state_hash'', ''tx_result'', ''metadata''}"
  by (simp add: mapKind_def KindStateDivergence_def KindConsensusStall_def KindPeerDrop_def
      KindChaosViolation_def KindNodeCrash_def KindFuzzFailure_def)

section \<open>Open episodes\<close>

lemma open_raised:
  "progress_run fresh cfg ts ps \<Longrightarrow> ps_open (fst ps) \<Longrightarrow>
     \<exists>ts1 a ts2. ts = ts1 @ a # ts2 \<and> raised a \<and> (\<forall>c \<in> set ts1. \<not> calm cfg c)"
proof (induction rule: progress_run.induct)
  case start
  then show ?case by (simp add: progress_init_def)
next
  case (tick ts ps now inputs ev ps')
  obtain st s st' s' where ps: "ps = (st, s)" "ps' = (st', s')" by (metis surj_pair)
  from tick.hyps(2) [unfolded ps] show ?case
  proof (cases rule: progress_tick_cases)
    case gone
    with tick.prems ps show ?thesis by simp
  next
    case (seen starts worst stalled)
    show ?thesis
    proof (cases "raised (now, inputs, ev)")
      case True
      then show ?thesis by (intro exI [of _ "[]"]) auto
    next
      case False
      with seen tick.prems ps have "ps_open st" and nc: "\<not> calm cfg (now, inputs, ev)" by (auto simp: raised_def)
      with tick.IH ps obtain ts1 a ts2 where "ts = ts1 @ a # ts2" "raised a" "\<forall>c \<in> set ts1. \<not> calm cfg c" by auto
      with nc show ?thesis by (intro exI [of _ "(now, inputs, ev) # ts1"]) auto
    qed
  qed
qed

lemma progress_run_suffix: "progress_run fresh cfg (xs @ ys) ps \<Longrightarrow> \<exists>ps'. progress_run fresh cfg ys ps'"
proof (induction xs arbitrary: ps)
  case (Cons x xs)
  then show ?case by (auto elim!: progress_run_ConsE)
qed auto

end
