(* ===== verification/Oracle_Properties.thy ===== *)
theory Oracle_Properties
  imports Detectors
begin

text \<open>
  The properties of the oracles, the corpus and the findings, each a short application of the
  lemmas of its component's theory, with a witness at a concrete input where the property has
  hypotheses.
\<close>

section \<open>Sample data\<close>

text \<open>A node that answers every method with one document.\<close>

definition canned :: "(string \<times> go_value) list \<Rightarrow> unit caller" where
  "canned docs meth params s = (case map_of docs meth of
      None \<Rightarrow> (Inl ''no reply'', s)
    | Some v \<Rightarrow> (Inr \<lparr>doc = Some v, verbatim = (\<lambda>_. None)\<rparr>, s))"

definition sample_ledger_node :: "string \<Rightarrow> string \<Rightarrow> unit node" where
  "sample_ledger_node name h = (name, canned
     [(''server_info'', GMap [(''info'', GMap [(''validated_ledger'', GMap [(''seq'', GInt 9)])])]),
      (''ledger'', GMap [(''ledger'', GMap [(''ledger_hash'', GStr h)])]),
      (''tx'', GMap [(''validated'', GBool True), (''meta'', GMap [(''TransactionResult'', GStr h)])])])"

lemmas canned_simps = canned_def sample_ledger_node_def with_reply_def ebind_def ewrap_def
  ServerInfo_def parse_server_info_def dec_ledger_ref_def dec_last_close_def Ledger_def parse_ledger_def
  Tx_def parse_tx_def

section \<open>The cross-node oracle\<close>

text \<open>C9: \<open>CompareAtSequence\<close> reports agreement exactly when no node failed, every node
  contributed its hashes in node order, and all three root hashes agree on every pair of
  nodes.\<close>

theorem compare_agreed_iff:
  assumes "CompareAtSequence cancelled polls nodes seq s = (c, s')"
  shows "cp_agreed c \<longleftrightarrow> cp_errors c = [] \<and> map nh_name (cp_hashes c) = map fst nodes
    \<and> (\<forall>a \<in> set (cp_hashes c). \<forall>b \<in> set (cp_hashes c).
         nh_ledger a = nh_ledger b \<and> nh_account a = nh_account b \<and> nh_tx a = nh_tx b)"
  using CompareAtSequence_agreed [OF assms] by (simp add: same_hashes_def)

theorem compare_agreed_iff_witness:
  "\<not> cp_agreed (fst (CompareAtSequence (\<lambda>_. False) 1 [sample_ledger_node ''a'' ''X'', sample_ledger_node ''b'' ''Y''] 5 ()))"
proof -
  let ?c = "CompareAtSequence (\<lambda>_. False) 1 [sample_ledger_node ''a'' ''X'', sample_ledger_node ''b'' ''Y''] 5 ()"
  have "map nh_ledger (cp_hashes (fst ?c)) = [''X'', ''Y'']"
    by (simp add: CompareAtSequence_def compare_hashes_def compare_one_def add_div_def canned_simps)
  then have "\<exists>a \<in> set (cp_hashes (fst ?c)). \<exists>b \<in> set (cp_hashes (fst ?c)). nh_ledger a \<noteq> nh_ledger b"
    by (cases "cp_hashes (fst ?c)"; cases "tl (cp_hashes (fst ?c))") auto
  with compare_agreed_iff [of "\<lambda>_. False" 1 _ 5 "()" "fst ?c" "snd ?c", OF prod.collapse [symmetric]]
  show ?thesis by blast
qed

text \<open>\<open>CompareTxResult\<close> and \<open>CompareTxMetadata\<close> report agreement exactly when every node
  answered and all answers are equal, and one value per node, in node order, is kept then.\<close>

theorem tx_comparison_agreed_iff:
  assumes "CompareTxResult cancelled nodes hash s = (r, s')" and "CompareTxMetadata cancelled nodes hash s = (m, s'')"
  shows "(tc_agreed r \<longleftrightarrow> tc_errors r = [] \<and> map fst (tc_values r) = map fst nodes
      \<and> (\<forall>a \<in> set (tc_values r). \<forall>b \<in> set (tc_values r). snd a = snd b))
    \<and> (tc_agreed m \<longleftrightarrow> tc_errors m = [] \<and> map fst (tc_values m) = map fst nodes
      \<and> (\<forall>a \<in> set (tc_values m). \<forall>b \<in> set (tc_values m). snd a = snd b))"
  by (intro conjI compare_tx_agreed [OF assms(1) [unfolded CompareTxResult_def]]
      compare_tx_agreed [OF assms(2) [unfolded CompareTxMetadata_def]])

theorem tx_comparison_agreed_iff_witness:
  "tc_agreed (fst (CompareTxResult (\<lambda>_. False) [sample_ledger_node ''a'' ''tesSUCCESS'', sample_ledger_node ''b'' ''tesSUCCESS''] ''H'' ()))"
proof -
  let ?n = "[sample_ledger_node ''a'' ''tesSUCCESS'', sample_ledger_node ''b'' ''tesSUCCESS'']"
  let ?c = "fst (CompareTxResult (\<lambda>_. False) ?n ''H'' ())"
  have "tc_values ?c = [(''a'', ''tesSUCCESS''), (''b'', ''tesSUCCESS'')]" "tc_errors ?c = []"
    by (simp_all add: CompareTxResult_def compare_tx_def compare_values_def canned_simps)
  then show ?thesis
    using tx_comparison_agreed_iff [OF prod.collapse [symmetric] prod.collapse [symmetric], of "\<lambda>_. False" ?n "''H''" "()"]
    by (simp add: sample_ledger_node_def)
qed

section \<open>The liveness monitor\<close>

text \<open>A consensus stall is raised only when for at least the threshold no node's validated
  sequence passed the highest one seen: no earlier tick and not the current one saw a sequence
  above it, and any earlier stall is at least a cooldown away.\<close>

theorem monitor_stall_sound:
  assumes "monitor_run cfg start ((now, snaps, ev) # ts) st" and "is_stall (now, snaps, ev)"
  shows "max_seq snaps \<le> ms_high_seq st
    \<and> stall_threshold cfg \<le> now - ms_high_time st
    \<and> (\<forall>(t, sn, e) \<in> set ts. max_seq sn \<le> ms_high_seq st
         \<and> (is_stall (t, sn, e) \<longrightarrow> event_cooldown cfg \<le> now - t))"
proof -
  obtain st0 where run: "monitor_run cfg start ts st0" and tick: "monitor_tick cfg now snaps st0 = (ev, st)"
    using assms(1) by (auto elim: monitor_run_ConsE)
  have stall: "max_seq snaps \<le> ms_high_seq st0" "stall_threshold cfg \<le> now - ms_high_time st0"
    using monitor_tick_stall [OF tick] assms(2) by auto
  then have same: "ms_high_seq st = ms_high_seq st0" "ms_high_time st = ms_high_time st0"
    using monitor_tick_state [OF tick] by auto
  have "sorted_wrt (\<lambda>a b. is_stall a \<longrightarrow> is_stall b \<longrightarrow> event_cooldown cfg \<le> fst a - fst b) ((now, snaps, ev) # ts)"
    by (rule stalls_spaced [OF assms(1)])
  with assms(2) stall monitor_run_invariant [OF run] show ?thesis
    unfolding same remembers_def by auto
qed

definition sample_snapshots :: "int \<Rightarrow> node_snapshot list" where
  "sample_snapshots q = [\<lparr>sn_name = ''a'', sn_seq = q, sn_peers = 1, sn_converge = 0, sn_state = ''full'', sn_err = []\<rparr>]"

definition sample_liveness :: liveness_config where
  "sample_liveness = \<lparr>lf_threshold = 0, lf_peers = 0, lf_cooldown = 0\<rparr>"

theorem monitor_stall_sound_witness:
  "\<exists>ev st. monitor_run sample_liveness 0 [(61 * second, sample_snapshots 7, ev), (1, sample_snapshots 7, None)] st
     \<and> 60 * second \<le> 61 * second - ms_high_time st"
proof -
  define st1 where "st1 = snd (monitor_tick sample_liveness 1 (sample_snapshots 7) (monitor_init 0))"
  define r where "r = monitor_tick sample_liveness (61 * second) (sample_snapshots 7) st1"
  have 1: "monitor_tick sample_liveness 1 (sample_snapshots 7) (monitor_init 0) = (None, st1)"
    by (simp add: st1_def monitor_tick_def monitor_init_def max_seq_def sample_snapshots_def sample_liveness_def
        stall_threshold_def second_def Let_def)
  have stall: "is_stall (61 * second, sample_snapshots 7, fst r)"
    by (simp add: r_def st1_def is_stall_def monitor_tick_def monitor_init_def max_seq_def sample_snapshots_def
        sample_liveness_def stall_threshold_def second_def cooled_def Let_def)
  have "monitor_run sample_liveness 0 [(1, sample_snapshots 7, None)] st1"
    by (rule monitor_run.tick [OF monitor_run.start 1]) simp
  then have run: "monitor_run sample_liveness 0 [(61 * second, sample_snapshots 7, fst r), (1, sample_snapshots 7, None)] (snd r)"
    by (rule monitor_run.tick) (simp_all add: r_def second_def)
  from monitor_stall_sound [OF run stall] run show ?thesis
    by (auto simp: sample_liveness_def stall_threshold_def)
qed

section \<open>The corpus\<close>

text \<open>A signature without wildcards matches exactly the divergences whose own signature it
  is, and every divergence matches its own signature.\<close>

theorem matches_iff_signature:
  assumes "concrete s"
  shows "(Matches s (Some d) \<longleftrightarrow> Signature (Some d) = s) \<and> Matches (Signature (Some d)) (Some d) \<and> \<not> Matches s None"
  by (intro conjI Matches_iff_Signature [OF assms] Matches_Signature) (simp add: Matches_def)

definition sample_divergence :: divergence where
  "sample_divergence = \<lparr>dg_seed = 1, dg_kind = ''tx_result'', dg_description = [],
     dg_details = [(''tx_type'', GStr ''Payment'')], dg_time = Some 5\<rparr>"

definition sample_signature :: signature where
  "sample_signature = \<lparr>sg_kind = ''tx_result'', sg_tx_type = ''Payment'', sg_field = [], sg_invariant = []\<rparr>"

lemma sample_concrete: "concrete sample_signature"
  by (simp add: concrete_def sample_signature_def)

theorem matches_iff_signature_witness: "Matches sample_signature (Some sample_divergence)"
  using matches_iff_signature [OF sample_concrete, of sample_divergence]
  by (simp add: Signature_def sample_divergence_def sample_signature_def string_field_def)

section \<open>Conservation of XRP\<close>

text \<open>With every account of the pool found, \<open>CheckLedger\<close> fails exactly when the sum of
  the balances passed the last sum, and in each case remembers the sum.\<close>

theorem check_ledger_exact:
  assumes "all_known call (pb_addresses b) bal" and "CheckLedger call b s = (r, b', s')"
  shows "(r \<noteq> Inr () \<longleftrightarrow> (\<exists>prev. pb_last b = Some prev \<and> prev < (\<Sum>a \<leftarrow> pb_addresses b. bal a)))
    \<and> LastSum b' = Some (\<Sum>a \<leftarrow> pb_addresses b. bal a) \<and> pb_addresses b' = pb_addresses b"
proof -
  obtain s1 where "sum_balances call (pb_addresses b) 0 s = (Inr (\<Sum>a \<leftarrow> pb_addresses b. bal a), s1)"
    using sum_balances_known [OF assms(1), of 0 s] by (metis add_0 prod.collapse)
  with assms(2) show ?thesis by (auto simp: CheckLedger_def LastSum_def split: option.splits if_splits)
qed

text \<open>A node that knows the balances of some accounts.\<close>

definition balance_node :: "(string \<times> nat) list \<Rightarrow> unit caller" where
  "balance_node bals meth params s =
     (case as_string (map_of params ''account'') of
        Some a \<Rightarrow> (case map_of bals a of
            Some n \<Rightarrow> canned [(''account_info'', GMap [(''account_data'', GMap
                 [(''Account'', GStr a), (''Balance'', GStr (nat_dec n))])])] meth params s
          | None \<Rightarrow> (Inl ''actNotFound'', s))
      | None \<Rightarrow> (Inl ''no account'', s))"

lemma AccountInfo_balance_node:
  "AccountInfo (balance_node bals) a s =
     (case map_of bals a of
        Some n \<Rightarrow> if a = [] then (Inl (''account_info '' @ a @ '': empty account_data in response''), s)
                  else (Inr \<lparr>ai_account = a, ai_balance = nat_dec n, ai_sequence = 0\<rparr>, s)
      | None \<Rightarrow> (Inl ''actNotFound'', s))"
  by (simp add: AccountInfo_def AccountInfoAt_def with_reply_def balance_node_def canned_def parse_account_info_def
      ebind_def ewrap_def Let_def split: option.split)

lemma parse_big_nat_dec: "parse_big (nat_dec n) = Some (int n)"
proof -
  obtain c cs where c: "nat_dec n = c # cs" using nat_dec_not_Nil [of n] by (cases "nat_dec n") auto
  then have "of_char c \<in> {48 :: nat .. 57}" using nat_dec_digits [of c n] by simp
  then have "c \<noteq> CHR ''-''" "c \<noteq> CHR ''+''" by auto
  with c have "scan_sign (nat_dec n) = (False, nat_dec n)" by simp
  then show ?thesis by (simp add: parse_big_def)
qed

theorem check_ledger_exact_witness:
  "fst (CheckLedger (balance_node [(''rA'', 5), (''rB'', 9)]) \<lparr>pb_addresses = [''rA'', ''rB''], pb_last = Some 13\<rparr> ()) \<noteq> Inr ()"
proof -
  let ?n = "balance_node [(''rA'', 5), (''rB'', 9)]" and ?b = "\<lparr>pb_addresses = [''rA'', ''rB''], pb_last = Some 13\<rparr>"
  have "all_known ?n (pb_addresses ?b) (\<lambda>a. if a = ''rA'' then 5 else 9)"
    by (simp add: all_known_def AccountInfo_balance_node parse_big_nat_dec)
  from check_ledger_exact [OF this, of "()" "fst (CheckLedger ?n ?b ())" "fst (snd (CheckLedger ?n ?b ()))" "()"]
  show ?thesis by (simp add: prod_eq_iff)
qed

text \<open>One failed lookup is enough for a false alarm: the balances of two accounts do not
  change, the first check misses the second account, and the next check reports a violated
  conservation of XRP.\<close>

theorem check_ledger_false_alarm:
  "let missed = fst (snd (CheckLedger (balance_node [(''rA'', x)]) (NewInvariantPoolBalance [''rA'', ''rB'']) ()))
   in fst (CheckLedger (balance_node [(''rA'', x), (''rB'', y)]) missed ()) =
      (if 0 < y then Inl (''XRP conservation violated: prev='' @ int_dec (int x) @ '' current='' @ int_dec (int x + int y)
            @ '' (increase of '' @ int_dec (int y) @ '' drops)'')
       else Inr ())"
  by (simp add: CheckLedger_def NewInvariantPoolBalance_def AccountInfo_balance_node parse_big_nat_dec Let_def)

section \<open>Results of unknown transactions\<close>

text \<open>A node that answers \<open>tx\<close> with an error document (here \<open>txnNotFound\<close>) contributes the
  empty result and no error, so a comparison right after the submission is a divergence as
  soon as one node has the transaction and another does not have it yet.\<close>

theorem unknown_tx_is_a_result:
  "CompareTxResult (\<lambda>_. False) [sample_ledger_node ''a'' r,
      (''b'', canned [(''tx'', GMap [(''error'', GStr ''txnNotFound''), (''status'', GStr ''error'')])])] h () =
   (\<lparr>tc_hash = h, tc_agreed = (r = []), tc_values = [(''a'', r), (''b'', [])], tc_errors = []\<rparr>, ())"
  by (auto simp: CompareTxResult_def compare_tx_def compare_values_def canned_simps)



text \<open>Two file names of one run are equal only for the same value of the counter, whatever
  the time stamps, as long as the stamps hold no underscore.\<close>

theorem file_names_unique:
  assumes "\<And>t. CHR ''_'' \<notin> set (stamp t)"
  shows "file_name stamp t m = file_name stamp t' n \<Longrightarrow> m = n"
  using file_name_inj assms by blast

theorem file_names_unique_witness: "file_name (\<lambda>_. ''t'') 1 7 \<noteq> file_name (\<lambda>_. ''t'') 2 (8 :: 64 word)"
  using file_names_unique [of "\<lambda>_. ''t''" 1 7 2 8] by auto

section \<open>The finding store\<close>

text \<open>C5: The store refines the plain list of all findings added: with distinct identifiers it
  holds the last thousand of them in order, and \<open>GetByID\<close> never panics and finds exactly
  those.\<close>

theorem store_refines_last_findings:
  assumes "distinct (map fd_id fs)"
  shows "st_findings (fold store_add fs NewStore) = drop (length fs - 1000) fs
    \<and> GetByID (fold store_add fs NewStore) i = Some (find (\<lambda>f. fd_id f = i) (drop (length fs - 1000) fs))"
  using store_holds_last [OF assms] GetByID_ok [of "fold store_add fs NewStore" i]
  by (simp add: last_findings_def maxCapacity_def)

definition sample_finding :: "string \<Rightarrow> string \<Rightarrow> int \<Rightarrow> finding" where
  "sample_finding i k t = \<lparr>fd_id = i, fd_run = [], fd_kind = k, fd_severity = SeverityError, fd_opened = t,
     fd_summary = [], fd_detail = None, fd_evidence = None, fd_repro = None, fd_suspects = []\<rparr>"

theorem store_refines_last_findings_witness:
  "GetByID (fold store_add [sample_finding ''x'' KindPeerDrop 1, sample_finding ''y'' KindPeerDrop 2] NewStore) ''y''
     = Some (Some (sample_finding ''y'' KindPeerDrop 2))"
proof -
  let ?fs = "[sample_finding ''x'' KindPeerDrop 1, sample_finding ''y'' KindPeerDrop 2]"
  have "distinct (map fd_id ?fs)" by (simp add: sample_finding_def)
  from store_refines_last_findings [OF this, of "''y''"] show ?thesis by (simp add: sample_finding_def)
qed

text \<open>\<open>List\<close> of a sound store whose findings were added in the order of their times gives
  the newest findings first: those of the kind asked for and younger than the marker, cut at
  the limit (100 by default, 1000 at most), and never panics.\<close>

theorem list_gives_newest_first:
  assumes "store_ok s" and "sorted (map fd_opened (st_findings s))"
  shows "store_list s opts = Some (take (list_limit opts) (filter (shows_finding s opts) (rev (st_findings s))))
    \<and> 0 < list_limit opts \<and> list_limit opts \<le> 1000"
  using store_list_newest [OF assms] by (auto simp: list_limit_def maxCapacity_def Let_def)

theorem list_gives_newest_first_witness:
  "store_list (fold store_add [sample_finding ''x'' KindPeerDrop 1, sample_finding ''y'' KindNodeCrash 2,
       sample_finding ''z'' KindPeerDrop 3] NewStore) \<lparr>lo_since = ''x'', lo_kind = [], lo_limit = 1\<rparr>
     = Some [sample_finding ''z'' KindPeerDrop 3]"
proof -
  let ?fs = "[sample_finding ''x'' KindPeerDrop 1, sample_finding ''y'' KindNodeCrash 2, sample_finding ''z'' KindPeerDrop 3]"
  have "distinct (map fd_id ?fs)" by (simp add: sample_finding_def)
  from store_holds_last [OF this] have s: "store_ok (fold store_add ?fs NewStore)"
    "st_findings (fold store_add ?fs NewStore) = ?fs"
    by (simp_all add: last_findings_def maxCapacity_def)
  define st where "st = fold store_add ?fs NewStore"
  have "sorted (map fd_opened (st_findings st))" using s(2) by (simp add: st_def sample_finding_def)
  with s have "store_list st \<lparr>lo_since = ''x'', lo_kind = [], lo_limit = 1\<rparr> =
      Some (take 1 (filter (shows_finding st \<lparr>lo_since = ''x'', lo_kind = [], lo_limit = 1\<rparr>) (rev ?fs)))"
    using list_gives_newest_first [of st "\<lparr>lo_since = ''x'', lo_kind = [], lo_limit = 1\<rparr>"]
    by (simp add: st_def list_limit_def maxCapacity_def del: fold.simps)
  moreover have "st_findings st = ?fs" using s(2) by (simp add: st_def)
  ultimately have "store_list st \<lparr>lo_since = ''x'', lo_kind = [], lo_limit = 1\<rparr> = Some [sample_finding ''z'' KindPeerDrop 3]"
    by (simp add: shows_finding_def sample_finding_def)
  then show ?thesis by (simp only: st_def)
qed

section \<open>The ledger diff\<close>


definition sample_snapshot :: "string \<Rightarrow> string list \<Rightarrow> ledger_snapshot" where
  "sample_snapshot n hs = \<lparr>ls_node = n, ls_seq = 7, ls_ledger_hash = n, ls_account_hash = [], ls_tx_hash = [],
     ls_txs = map (\<lambda>h. \<lparr>dt_hash = h, dt_type = ''Payment'', dt_account = [], dt_meta = []\<rparr>) hs\<rparr>"

definition sample_snaps :: "ledger_snapshot option list" where
  "sample_snaps = [Some (sample_snapshot ''a'' [''P'', ''Q'']), None, Some (sample_snapshot ''b'' [''Q''])]"

lemma present_sample: "present sample_snaps = [sample_snapshot ''a'' [''P'', ''Q''], sample_snapshot ''b'' [''Q'']]"
  by (simp add: present_def sample_snaps_def sample_snapshot_def less_list_code less_char_def)


text \<open>When the nodes agree on the type of each transaction, the suspect types of a diff
  are exactly the types of the transactions that some node lacks.\<close>

theorem suspect_types_correct:
  assumes "2 \<le> length (present snaps)"
    and "\<And>s t u v. Some s \<in> set snaps \<Longrightarrow> t \<in> set (ls_txs s) \<Longrightarrow> Some u \<in> set snaps \<Longrightarrow>
      v \<in> set (ls_txs u) \<Longrightarrow> dt_hash t = dt_hash v \<Longrightarrow> dt_type t = dt_type v"
  shows "set (ld_suspects (computeLedgerDiff seq snaps errs)) =
    {dt_type t |s t. Some s \<in> set snaps \<and> t \<in> set (ls_txs s) \<and> (\<exists>u. Some u \<in> set snaps \<and> dt_hash t \<notin> hashes u)
       \<and> dt_type t \<noteq> []}"
proof -
  have "set (ld_suspects (computeLedgerDiff seq snaps errs)) =
    {dt_type t |s t. s \<in> set (present snaps) \<and> t \<in> set (ls_txs s) \<and> \<not> everywhere (present snaps) (dt_hash t)
       \<and> dt_type t \<noteq> []}"
  proof (rule suspects [OF assms(1)])
    fix s t u v
    assume "s \<in> set (present snaps)" "t \<in> set (ls_txs s)" "u \<in> set (present snaps)" "v \<in> set (ls_txs u)"
      and "dt_hash t = dt_hash v"
    then show "dt_type t = dt_type v" by (intro assms(2) [of s t u v]) (simp_all only: set_present mem_Collect_eq)
  qed
  then show ?thesis unfolding everywhere_def set_present by simp
qed

theorem suspect_types_correct_witness: "set (ld_suspects (computeLedgerDiff 7 sample_snaps [])) = {''Payment''}"
proof -
  have pay: "\<And>s t. Some s \<in> set sample_snaps \<Longrightarrow> t \<in> set (ls_txs s) \<Longrightarrow> dt_type t = ''Payment''"
    by (auto simp: sample_snaps_def sample_snapshot_def)
  then have "set (ld_suspects (computeLedgerDiff 7 sample_snaps [])) =
    {dt_type t |s t. Some s \<in> set sample_snaps \<and> t \<in> set (ls_txs s) \<and> (\<exists>u. Some u \<in> set sample_snaps \<and> dt_hash t \<notin> hashes u)
       \<and> dt_type t \<noteq> []}"
    by (intro suspect_types_correct) (simp_all add: present_sample)
  also have "\<dots> = {''Payment''}"
  proof (intro equalityI subsetI)
    fix x assume "x \<in> {''Payment''}"
    moreover have "Some (sample_snapshot ''a'' [''P'', ''Q'']) \<in> set sample_snaps"
      "Some (sample_snapshot ''b'' [''Q'']) \<in> set sample_snaps" by (simp_all add: sample_snaps_def)
    moreover have "\<lparr>dt_hash = ''P'', dt_type = ''Payment'', dt_account = [], dt_meta = []\<rparr>
        \<in> set (ls_txs (sample_snapshot ''a'' [''P'', ''Q'']))" by (simp add: sample_snapshot_def)
    moreover have "''P'' \<notin> hashes (sample_snapshot ''b'' [''Q''])" by (simp add: hashes_def sample_snapshot_def)
    ultimately show "x \<in> {dt_type t |s t. Some s \<in> set sample_snaps \<and> t \<in> set (ls_txs s)
        \<and> (\<exists>u. Some u \<in> set sample_snaps \<and> dt_hash t \<notin> hashes u) \<and> dt_type t \<noteq> []}" by force
  qed (auto simp: pay)
  finally show ?thesis .
qed

section \<open>The divergence oracle\<close>

text \<open>C4: One tick adds to the store exactly one state-divergence finding for each ledger
  sequence at which two nodes report different hashes and whose key was not seen before, in
  the order of the iteration; it remembers the keys of all disagreements and keeps the store
  sound.\<close>

theorem divergence_tick_reports:
  assumes "draws_fresh (de_fresh env)" and "store_ok s" and "ranges_over inputs order"
  shows "\<exists>fs. snd (divergence_tick env order now inputs (seen, s)) = fold store_add fs s
    \<and> list_all2 reports_seq fs (filter (\<lambda>q. disagree inputs q \<and> key_at inputs q \<notin> set seen) order)
    \<and> store_ok (fold store_add fs s)
    \<and> set (fst (divergence_tick env order now inputs (seen, s))) = set seen \<union> key_at inputs ` {q. disagree inputs q}"
proof -
  have order: "distinct order" "disagree inputs q \<Longrightarrow> q \<in> set order" for q
    using assms(3) by (auto simp: ranges_over_def disagree_def group_at_def)
  obtain fs where fs: "divergence_tick env order now inputs (seen, s) =
      (rev (map (key_at inputs) (filter (\<lambda>q. disagree inputs q \<and> key_at inputs q \<notin> set seen) order)) @ seen,
       fold store_add fs s)"
    "list_all2 reports_seq fs (filter (\<lambda>q. disagree inputs q \<and> key_at inputs q \<notin> set seen) order)"
    "store_ok (fold store_add fs s)"
    using divergence_fold [OF assms(1) order(1) assms(2)] unfolding divergence_tick_def by blast
  moreover have "set (rev (map (key_at inputs) (filter (\<lambda>q. disagree inputs q \<and> key_at inputs q \<notin> set seen) order)) @ seen)
      = set seen \<union> key_at inputs ` {q. disagree inputs q}"
    using order(2) by auto
  ultimately show ?thesis by (intro exI [of _ fs]) simp
qed

text \<open>Identifiers longer than any in the store.\<close>

definition long_id :: "store \<Rightarrow> string" where
  "long_id s = replicate (Suc (fold max (map (\<lambda>f. length (fd_id f)) (st_findings s)) 0)) (CHR ''f'')"

lemma fold_max_upper: "(x :: nat) \<in> set xs \<Longrightarrow> x \<le> fold max xs a"
proof (induction xs arbitrary: a)
  case (Cons y ys)
  have "b \<le> fold max zs b" for zs and b :: nat
    by (induction zs arbitrary: b) (auto intro: order_trans [OF max.cobounded2])
  then have "max y a \<le> fold max ys (max y a)" .
  with Cons show ?case by auto
qed simp

lemma long_id_fresh: "draws_fresh long_id"
proof -
  have "long_id s \<noteq> fd_id f" if "f \<in> set (st_findings s)" for s f
  proof -
    have "length (fd_id f) \<le> fold max (map (\<lambda>f. length (fd_id f)) (st_findings s)) 0"
      using that by (intro fold_max_upper) simp
    then have "length (fd_id f) < length (long_id s)" by (simp add: long_id_def)
    then show ?thesis by auto
  qed
  then show ?thesis by (auto simp: draws_fresh_def ids_of_def)
qed

definition sample_env :: detector_env where
  "sample_env = \<lparr>de_fresh = long_id, de_fetcher = None, de_marshal = (\<lambda>_. Inl ''none'')\<rparr>"

definition sample_inputs :: "divergence_input list" where
  "sample_inputs = [\<lparr>di_node = ''a'', di_seq = 7, di_hash = ''X''\<rparr>, \<lparr>di_node = ''b'', di_seq = 7, di_hash = ''Y''\<rparr>,
     \<lparr>di_node = ''c'', di_seq = 6, di_hash = ''Z''\<rparr>]"

lemma sample_ranges: "ranges_over sample_inputs [7, 6]" "ranges_over sample_inputs [6, 7]"
  by (auto simp: ranges_over_def sample_inputs_def)

lemma sample_disagree: "disagree sample_inputs q \<longleftrightarrow> q = 7"
  by (auto simp: disagree_def group_at_def sample_inputs_def)

theorem divergence_tick_reports_witness:
  "\<exists>f. snd (divergence_tick sample_env [7, 6] 0 sample_inputs ([], NewStore)) = store_add f NewStore \<and> reports_seq f 7"
proof -
  have "draws_fresh (de_fresh sample_env)" by (simp add: sample_env_def long_id_fresh)
  from divergence_tick_reports [OF this store_ok_New sample_ranges(1), of 0 "[]"] obtain fs where
    "snd (divergence_tick sample_env [7, 6] 0 sample_inputs ([], NewStore)) = fold store_add fs NewStore"
    "list_all2 reports_seq fs [7]" by (auto simp: sample_disagree)
  then show ?thesis by (auto simp: list_all2_Cons2)
qed

text \<open>A disagreement is reported once: a later tick that sees the same inputs, in whatever
  order Go ranges and at whatever time, changes neither the store nor the keys.\<close>

theorem divergence_reported_once:
  assumes "draws_fresh (de_fresh env)" and "store_ok s" and "ranges_over inputs order" and "ranges_over inputs order'"
  shows "divergence_tick env order' now' inputs (divergence_tick env order now inputs (seen, s))
    = divergence_tick env order now inputs (seen, s)"
proof -
  obtain seen1 s1 where one: "divergence_tick env order now inputs (seen, s) = (seen1, s1)" by fastforce
  have d: "distinct order" "distinct order'" and mem: "disagree inputs q \<Longrightarrow> q \<in> set order" for q
    using assms(3, 4) by (auto simp: ranges_over_def disagree_def group_at_def)
  from divergence_fold [OF assms(1) d(1) assms(2), of now inputs seen] one mem
  have seen1: "disagree inputs q \<Longrightarrow> key_at inputs q \<in> set seen1" and s1: "store_ok s1" for q
    unfolding divergence_tick_def by auto
  then have none: "filter (\<lambda>q. disagree inputs q \<and> key_at inputs q \<notin> set seen1) order' = []"
    by (auto simp: filter_empty_conv)
  from divergence_fold [OF assms(1) d(2) s1, of now' inputs seen1] show ?thesis
    unfolding one none by (auto simp: divergence_tick_def)
qed

theorem divergence_reported_once_witness:
  "divergence_tick sample_env [6, 7] 9 sample_inputs (divergence_tick sample_env [7, 6] 0 sample_inputs ([], NewStore))
     = divergence_tick sample_env [7, 6] 0 sample_inputs ([], NewStore)"
  by (rule divergence_reported_once [OF _ store_ok_New sample_ranges])
    (simp add: sample_env_def long_id_fresh)

text \<open>The key under which a disagreement is remembered tells apart any two disagreements
  that differ in the ledger sequence or in the set of hashes, for hashes without the
  separator.\<close>

theorem dedup_key_faithful:
  assumes "\<forall>i \<in> set (g @ h). CHR ''|'' \<notin> set (di_hash i)" and "g \<noteq> []" and "h \<noteq> []"
  shows "dedup_key p (distinct_hashes g) = dedup_key q (distinct_hashes h) \<longleftrightarrow> p = q \<and> di_hash ` set g = di_hash ` set h"
proof
  assume eq: "dedup_key p (distinct_hashes g) = dedup_key q (distinct_hashes h)"
  have ne: "distinct_hashes g \<noteq> []" "distinct_hashes h \<noteq> []"
    using assms(2, 3) set_distinct_hashes [of g] set_distinct_hashes [of h] by auto
  have "distinct_hashes g = distinct_hashes h"
    by (rule str_join_inj [where c = "CHR ''|''", OF ne])
      (use assms(1) dedup_key_seq [OF eq] set_distinct_hashes in auto)
  with dedup_key_seq [OF eq] show "p = q \<and> di_hash ` set g = di_hash ` set h"
    by (metis set_distinct_hashes)
next
  assume "p = q \<and> di_hash ` set g = di_hash ` set h"
  moreover from this have "distinct_hashes g = distinct_hashes h"
    by (simp add: distinct_hashes_def sorted_list_of_set_sort_remdups [symmetric])
  ultimately show "dedup_key p (distinct_hashes g) = dedup_key q (distinct_hashes h)" by simp
qed

theorem dedup_key_faithful_witness:
  "dedup_key 7 (distinct_hashes (group_at 7 sample_inputs)) \<noteq> dedup_key 6 (distinct_hashes (group_at 6 sample_inputs))"
  using dedup_key_faithful [of "group_at 7 sample_inputs" "group_at 6 sample_inputs" 7 6]
  by (simp add: group_at_def sample_inputs_def)

section \<open>The consensus-progress oracle\<close>

text \<open>C6: A consensus stall is raised only when one and the same node's gap was above the
  threshold at every tick of a stretch that ends now and began at least the sustain period
  ago.\<close>

theorem progress_raised_sound:
  assumes "progress_run fresh (NewConsensusProgressOracle gap sustain) ((now, inputs, ev) # ts) ps"
    and "raised (now, inputs, ev)"
  shows "\<exists>n recent older. (now, inputs, ev) # ts = recent @ older \<and> recent \<noteq> []
    \<and> (\<forall>k \<in> set recent. lagging (NewConsensusProgressOracle gap sustain) n k)
    \<and> pc_sustain (NewConsensusProgressOracle gap sustain) \<le> now - fst (last recent)"
proof -
  have "0 < pc_sustain (NewConsensusProgressOracle gap sustain)"
    by (simp add: NewConsensusProgressOracle_def second_def)
  from raised_since [OF assms this] show ?thesis unfolding since_def by blast
qed

definition lag_inputs :: "int \<Rightarrow> progress_input list" where
  "lag_inputs g = [\<lparr>pi_node = ''a'', pi_closed = 20, pi_validated = 20 - g\<rparr>,
     \<lparr>pi_node = ''b'', pi_closed = 20, pi_validated = 20\<rparr>]"

abbreviation sample_progress :: progress_cfg where
  "sample_progress \<equiv> NewConsensusProgressOracle 0 5"

lemma sample_scan:
  "progress_scan 10 now (lag_inputs 15) ([], 0, []) = ([(''a'', now)], 0, [hd (lag_inputs 15)])"
  "progress_scan 10 now (lag_inputs 15) ([(''a'', t)], 0, []) = ([(''a'', t)], max 0 (now - t), [hd (lag_inputs 15)])"
  by (simp_all add: progress_scan_def progress_visit_def lag_inputs_def gap_of_def max_def)

definition sample_stall :: finding where
  "sample_stall = stall_finding (long_id NewStore) 6 [hd (lag_inputs 15)] 6 10"

lemma sample_progress_run:
  "progress_run long_id sample_progress [(6, lag_inputs 15, Some sample_stall), (0, lag_inputs 15, None)]
     (\<lparr>ps_starts = [(''a'', 0)], ps_open = True\<rparr>, store_add sample_stall NewStore)"
proof (rule progress_run.tick)
  show "progress_run long_id sample_progress [(0, lag_inputs 15, None)] (\<lparr>ps_starts = [(''a'', 0)], ps_open = False\<rparr>, NewStore)"
    by (rule progress_run.tick [OF progress_run.start])
      (simp_all add: progress_tick_def progress_init_def NewConsensusProgressOracle_def sample_scan, simp add: lag_inputs_def)
  show "progress_tick long_id sample_progress 6 (lag_inputs 15) (\<lparr>ps_starts = [(''a'', 0)], ps_open = False\<rparr>, NewStore) =
      (Some sample_stall, \<lparr>ps_starts = [(''a'', 0)], ps_open = True\<rparr>, store_add sample_stall NewStore)"
    by (simp add: progress_tick_def NewConsensusProgressOracle_def sample_scan sample_stall_def Let_def)
      (simp add: lag_inputs_def)
qed simp

theorem progress_raised_sound_witness:
  "\<exists>n recent older. [(6, lag_inputs 15, Some sample_stall), (0, lag_inputs 15, None)] = recent @ older \<and> recent \<noteq> []
    \<and> (\<forall>k \<in> set recent. lagging sample_progress n k) \<and> 5 \<le> 6 - fst (last recent)"
  using progress_raised_sound [OF sample_progress_run] by (simp add: raised_def) (simp add: NewConsensusProgressOracle_def)

text \<open>C7: A stall that lasts is reported: with one input per node, when some node lagged at
  every tick of a stretch that ends now and began at least the sustain period ago, an episode
  is open after this tick, and then a finding was raised in it.\<close>

theorem progress_lasting_stall_reported:
  assumes "progress_run fresh cfg ((now, inputs, ev) # ts) ps"
    and "\<forall>k \<in> set ((now, inputs, ev) # ts). distinct (map pi_node (fst (snd k)))"
    and "(now, inputs, ev) # ts = recent @ older" "recent \<noteq> []" "\<forall>k \<in> set recent. lagging cfg n k"
    and "pc_sustain cfg \<le> now - fst (last recent)"
  shows "\<exists>ts1 a ts2. (now, inputs, ev) # ts = ts1 @ a # ts2 \<and> raised a \<and> (\<forall>c \<in> set ts1. \<not> calm cfg c)"
  by (rule open_raised [OF assms(1) lasting_stall_open [OF assms]])

theorem progress_lasting_stall_reported_witness:
  "\<exists>ts1 a ts2. [(6, lag_inputs 15, Some sample_stall), (0, lag_inputs 15, None)] = ts1 @ a # ts2 \<and> raised a
     \<and> (\<forall>c \<in> set ts1. \<not> calm sample_progress c)"
proof -
  let ?ts = "[(6, lag_inputs 15, Some sample_stall), (0, lag_inputs 15, None)]"
  have d: "\<forall>k \<in> set ?ts. distinct (map pi_node (fst (snd k)))" by (simp add: lag_inputs_def)
  have a: "\<forall>k \<in> set ?ts. lagging sample_progress ''a'' k"
    by (simp add: lagging_def lag_inputs_def gap_of_def NewConsensusProgressOracle_def)
  have s: "pc_sustain sample_progress \<le> 6 - fst (last ?ts)" by (simp add: NewConsensusProgressOracle_def)
  show ?thesis by (rule progress_lasting_stall_reported [OF sample_progress_run d _ _ a s]) simp_all
qed

text \<open>C8: One finding per episode: between any two findings of a run there is a tick at which
  every node is back at or below the threshold (or none is known). One node recovering while
  another still lags does not end the episode.\<close>

theorem progress_one_per_episode:
  assumes "progress_run fresh cfg (newer @ b # between @ a # older) ps" and "raised a" and "raised b"
  shows "\<exists>c \<in> set between. calm cfg c"
  using raised_apart progress_run_suffix [OF assms(1)] assms(2, 3) by blast

theorem progress_one_per_episode_witness:
  "\<not> (\<exists>f ps. progress_run long_id sample_progress
        [(9, lag_inputs 15, Some f), (6, lag_inputs 15, Some sample_stall), (0, lag_inputs 15, None)] ps)"
  using progress_one_per_episode [of long_id sample_progress "[]" "(9, lag_inputs 15, Some f)" "[]"
      "(6, lag_inputs 15, Some sample_stall)" "[(0, lag_inputs 15, None)]" for f]
  by (auto simp: raised_def)

section \<open>The corpus watcher\<close>

text \<open>The watcher takes every JSON file of a listing once, in listing order, and keeps the
  store sound; a file it has tried is never tried again, not even one that could not be read
  or parsed the first time and could be now.\<close>

theorem watcher_takes_each_file_once:
  assumes "distinct (map en_name es)" and "draws_fresh (we_fresh env)" and "store_ok s"
  shows "watcher_scan env base (Inr es) (seen, s) =
     (let names = filter (\<lambda>n. n \<notin> set seen) (map en_name (filter is_json es))
      in (rev names @ seen, fold (\<lambda>n. watcher_ingest env (path_join [path_join [base, ''divergences''], n])) names s))
    \<and> store_ok (snd (watcher_scan env base (Inr es) (seen, s)))
    \<and> watcher_scan later base (Inr es) (watcher_scan env base (Inr es) (seen, s)) = watcher_scan env base (Inr es) (seen, s)"
proof (intro conjI)
  show "watcher_scan env base (Inr es) (seen, s) =
     (let names = filter (\<lambda>n. n \<notin> set seen) (map en_name (filter is_json es))
      in (rev names @ seen, fold (\<lambda>n. watcher_ingest env (path_join [path_join [base, ''divergences''], n])) names s))"
    by (simp add: watcher_scan_def scan_entries_spec [OF assms(1)])
  show "store_ok (snd (watcher_scan env base (Inr es) (seen, s)))"
    by (simp add: watcher_scan_def scan_entries_ok [OF assms(2, 3)])
  obtain seen1 s1 where one: "scan_entries env (path_join [base, ''divergences'']) es (seen, s) = (seen1, s1)" by fastforce
  then have "set seen1 = set seen \<union> en_name ` set (filter is_json es)" using scan_entries_seen by (metis fst_conv)
  then have "scan_entries later (path_join [base, ''divergences'']) es (seen1, s1) = (seen1, s1)"
    by (intro scan_entries_idle) auto
  then show "watcher_scan later base (Inr es) (watcher_scan env base (Inr es) (seen, s)) = watcher_scan env base (Inr es) (seen, s)"
    by (simp add: watcher_scan_def one)
qed

definition sample_watch :: "string go_result \<Rightarrow> watcher_env" where
  "sample_watch file = \<lparr>we_read = (\<lambda>_. file), we_parse = (\<lambda>_. Inr sample_divergence), we_marshal = (\<lambda>_. Inr ''{}''),
     we_run_id = None, we_fresh = long_id, we_zero = 0\<rparr>"

theorem watcher_takes_each_file_once_witness:
  "watcher_scan (sample_watch (Inr ''ok'')) ''base'' (Inr [\<lparr>en_name = ''d.json'', en_dir = False\<rparr>])
     (watcher_scan (sample_watch (Inl ''busy'')) ''base'' (Inr [\<lparr>en_name = ''d.json'', en_dir = False\<rparr>]) ([], NewStore))
   = ([''d.json''], NewStore)"
proof -
  let ?es = "[\<lparr>en_name = ''d.json'', en_dir = False\<rparr>]"
  have "watcher_scan (sample_watch (Inl ''busy'')) ''base'' (Inr ?es) ([], NewStore) = ([''d.json''], NewStore)"
    by (simp add: watcher_scan_def watcher_ingest_def sample_watch_def ebind_def filepath_ext_def)
  moreover have "distinct (map en_name ?es)" "draws_fresh (we_fresh (sample_watch (Inl ''busy'')))"
    by (simp_all add: sample_watch_def long_id_fresh)
  note watcher_takes_each_file_once [OF this store_ok_New, of "''base''" "[]" "sample_watch (Inr ''ok'')",
      THEN conjunct2, THEN conjunct2]
  ultimately show ?thesis by simp
qed

text \<open>Only the three kinds that mean differing ledgers become a state divergence; every
  unknown kind becomes a fuzz failure.\<close>

theorem mapped_kind:
  "(mapKind k = KindStateDivergence \<longleftrightarrow> k \<in> {''state_hash'', ''tx_result'', ''metadata''})
   \<and> (mapKind k = KindFuzzFailure \<longleftrightarrow>
        k \<notin> {''state_hash'', ''tx_result'', ''metadata'', ''consensus_stall'', ''peer_drop'', ''invariant'', ''chaos'', ''crash''})"
  by (simp add: mapKind_def KindStateDivergence_def KindConsensusStall_def KindPeerDrop_def
      KindChaosViolation_def KindNodeCrash_def KindFuzzFailure_def)

end
