(* ===== verification/Chaos.thy ===== *)
theory Chaos
  imports Rpc
begin

text \<open>
  Scheduled disturbances (\<open>sidecar/internal/fuzz/chaos\<close>): the events (\<open>restart.go\<close>,
  \<open>netem.go\<close>, \<open>amendment.go\<close>), the scheduler (\<open>scheduler.go\<close>), the expansion of recurring
  entries and wildcards (\<open>recurring.go\<close>) and the schedule parser (\<open>schedule_parse.go\<close>).

  The container runtime (Docker) is the record \<open>chaos_env\<close> of its three operations on a state
  of the world; \<open>math/rand\<close> is the argument \<open>intn\<close> on a state of the generator, and \<open>source\<close>
  the state a seed gives. \<open>None\<close> of \<open>intn\<close> is the panic of a non-positive bound. JSON decoding
  has happened: the parser starts from the decoded entries.
\<close>

section \<open>Events\<close>

datatype chaos_event =
    RestartEvent string
  | LatencyEvent string string int
  | PartitionEvent string string
  | AmendmentFlipEvent string string

record 's chaos_env =
  ce_exec :: "string \<Rightarrow> string list \<Rightarrow> 's \<Rightarrow> string go_result \<times> 's"
  ce_stop :: "string \<Rightarrow> 's \<Rightarrow> unit go_result \<times> 's"
  ce_start :: "string \<Rightarrow> 's \<Rightarrow> unit go_result \<times> 's"
  ce_client :: "string \<Rightarrow> 's caller"

fun event_name :: "chaos_event \<Rightarrow> string" where
  "event_name (RestartEvent c) = ''restart:'' @ c"
| "event_name (LatencyEvent c iface ms) = ''latency:'' @ c @ '':'' @ int_dec ms @ ''ms''"
| "event_name (PartitionEvent a b) = ''partition:'' @ a @ ''->'' @ b"
| "event_name (AmendmentFlipEvent target f) = ''amendment:'' @ f"

definition finish :: "string \<Rightarrow> 'a go_result \<times> 's \<Rightarrow> unit go_result \<times> 's" where
  "finish ctx rs = (case rs of (Inl e, s) \<Rightarrow> (Inl (ctx @ e), s) | (Inr _, s) \<Rightarrow> (Inr (), s))"

definition restart_apply :: "'s chaos_env \<Rightarrow> string \<Rightarrow> 's \<Rightarrow> unit go_result \<times> 's" where
  "restart_apply env c s = finish (''stop '' @ c @ '': '') (ce_stop env c s)"

definition restart_recover :: "'s chaos_env \<Rightarrow> string \<Rightarrow> 's \<Rightarrow> unit go_result \<times> 's" where
  "restart_recover env c s = finish (''start '' @ c @ '': '') (ce_start env c s)"

definition latency_apply :: "'s chaos_env \<Rightarrow> string \<Rightarrow> string \<Rightarrow> int \<Rightarrow> 's \<Rightarrow> unit go_result \<times> 's" where
  "latency_apply env c iface ms s =
     finish [] (ce_exec env c [''tc'', ''qdisc'', ''add'', ''dev'', iface, ''root'', ''netem'', ''delay'', int_dec ms @ ''ms''] s)"

definition latency_recover :: "'s chaos_env \<Rightarrow> string \<Rightarrow> string \<Rightarrow> 's \<Rightarrow> unit go_result \<times> 's" where
  "latency_recover env c iface s = finish [] (ce_exec env c [''tc'', ''qdisc'', ''del'', ''dev'', iface, ''root''] s)"

definition partition_apply :: "'s chaos_env \<Rightarrow> string \<Rightarrow> string \<Rightarrow> 's \<Rightarrow> unit go_result \<times> 's" where
  "partition_apply env a b s = finish [] (ce_exec env a [''iptables'', ''-A'', ''OUTPUT'', ''-d'', b, ''-j'', ''DROP''] s)"

definition partition_recover :: "'s chaos_env \<Rightarrow> string \<Rightarrow> string \<Rightarrow> 's \<Rightarrow> unit go_result \<times> 's" where
  "partition_recover env a b s = finish [] (ce_exec env a [''iptables'', ''-D'', ''OUTPUT'', ''-d'', b, ''-j'', ''DROP''] s)"

definition amendment_apply :: "'s chaos_env \<Rightarrow> string \<Rightarrow> string \<Rightarrow> 's \<Rightarrow> unit go_result \<times> 's" where
  "amendment_apply env target f s = finish (''feature vote-yes '' @ f @ '': '')
     (ce_client env target ''feature'' [(''feature'', GStr f), (''vetoed'', GBool False)] s)"

definition amendment_recover :: "'s chaos_env \<Rightarrow> string \<Rightarrow> string \<Rightarrow> 's \<Rightarrow> unit go_result \<times> 's" where
  "amendment_recover env target f s = finish (''feature vote-no '' @ f @ '': '')
     (ce_client env target ''feature'' [(''feature'', GStr f), (''vetoed'', GBool True)] s)"

fun event_apply :: "'s chaos_env \<Rightarrow> chaos_event \<Rightarrow> 's \<Rightarrow> unit go_result \<times> 's" where
  "event_apply env (RestartEvent c) s = restart_apply env c s"
| "event_apply env (LatencyEvent c iface ms) s = latency_apply env c iface ms s"
| "event_apply env (PartitionEvent a b) s = partition_apply env a b s"
| "event_apply env (AmendmentFlipEvent target f) s = amendment_apply env target f s"

fun event_recover :: "'s chaos_env \<Rightarrow> chaos_event \<Rightarrow> 's \<Rightarrow> unit go_result \<times> 's" where
  "event_recover env (RestartEvent c) s = restart_recover env c s"
| "event_recover env (LatencyEvent c iface ms) s = latency_recover env c iface s"
| "event_recover env (PartitionEvent a b) s = partition_recover env a b s"
| "event_recover env (AmendmentFlipEvent target f) s = amendment_recover env target f s"

lemmas event_actions = restart_apply_def restart_recover_def latency_apply_def latency_recover_def
  partition_apply_def partition_recover_def amendment_apply_def amendment_recover_def

section \<open>The scheduler\<close>

record schedule_entry =
  se_trigger :: int
  se_event :: chaos_event
  se_recover_after :: int

record audit_entry =
  au_event :: string
  au_phase :: string
  au_step :: int
  au_error :: string

text \<open>Entries are named by their index, the code's pointers into its own slice; \<open>sc_audit\<close> is
  what \<open>OnAudit\<close> received, oldest first.\<close>

record scheduler =
  sc_schedule :: "schedule_entry list"
  sc_pending :: "(int \<times> nat list) list"
  sc_fired :: "nat list"
  sc_applied :: int
  sc_recovered :: int
  sc_errored :: int
  sc_audit :: "audit_entry list"

definition NewChaosScheduler :: "schedule_entry list \<Rightarrow> scheduler" where
  "NewChaosScheduler es = \<lparr>sc_schedule = es, sc_pending = [], sc_fired = [], sc_applied = 0,
     sc_recovered = 0, sc_errored = 0, sc_audit = []\<rparr>"

definition audit :: "chaos_event \<Rightarrow> string \<Rightarrow> int \<Rightarrow> string \<Rightarrow> scheduler \<Rightarrow> scheduler" where
  "audit ev phase step err c =
     c\<lparr>sc_audit := sc_audit c @ [\<lparr>au_event = event_name ev, au_phase = phase, au_step = step, au_error = err\<rparr>]\<rparr>"

definition pending_at :: "scheduler \<Rightarrow> int \<Rightarrow> nat list" where
  "pending_at c k = (case map_of (sc_pending c) k of None \<Rightarrow> [] | Some ix \<Rightarrow> ix)"

definition fire_entry :: "'s chaos_env \<Rightarrow> int \<Rightarrow> nat \<Rightarrow> scheduler \<times> 's \<Rightarrow> scheduler \<times> 's" where
  "fire_entry env step i cs = (case cs of (c, s) \<Rightarrow>
     (let e = sc_schedule c ! i in
      if i \<in> set (sc_fired c) \<or> step < se_trigger e then (c, s)
      else case event_apply env (se_event e) s of
        (Inl err, s') \<Rightarrow>
          (audit (se_event e) ''apply'' step err (c\<lparr>sc_errored := sc_errored c + 1, sc_fired := i # sc_fired c\<rparr>), s')
      | (Inr _, s') \<Rightarrow>
          (let k = wrap64 (step + se_recover_after e)
           in ((audit (se_event e) ''apply'' step [] (c\<lparr>sc_fired := i # sc_fired c, sc_applied := sc_applied c + 1\<rparr>))
                 \<lparr>sc_pending := AList.update k (pending_at c k @ [i]) (sc_pending c)\<rparr>, s'))))"

definition recover_entry :: "'s chaos_env \<Rightarrow> int \<Rightarrow> nat \<Rightarrow> scheduler \<times> 's \<Rightarrow> scheduler \<times> 's" where
  "recover_entry env step i cs = (case cs of (c, s) \<Rightarrow>
     (let e = sc_schedule c ! i in
      case event_recover env (se_event e) s of
        (Inl err, s') \<Rightarrow> (audit (se_event e) ''recover'' step err (c\<lparr>sc_errored := sc_errored c + 1\<rparr>), s')
      | (Inr _, s') \<Rightarrow> (audit (se_event e) ''recover'' step [] (c\<lparr>sc_recovered := sc_recovered c + 1\<rparr>), s')))"

definition chaos_step :: "'s chaos_env \<Rightarrow> int \<Rightarrow> scheduler \<times> 's \<Rightarrow> scheduler \<times> 's" where
  "chaos_step env step cs =
     (case fold (fire_entry env step) [0 ..< length (sc_schedule (fst cs))] cs of (c1, s1) \<Rightarrow>
       (case map_of (sc_pending c1) step of
          None \<Rightarrow> (c1, s1)
        | Some ix \<Rightarrow>
            (case fold (recover_entry env step) ix (c1, s1) of
               (c2, s2) \<Rightarrow> (c2\<lparr>sc_pending := AList.delete step (sc_pending c2)\<rparr>, s2))))"

section \<open>Recurring entries and wildcards\<close>

record raw_entry =
  re_step :: int
  re_recover_after :: int
  re_type :: string
  re_container :: string
  re_from :: string
  re_to :: string
  re_iface :: string
  re_delay :: int
  re_delay_min :: int
  re_delay_max :: int
  re_feature :: string
  re_target :: string

record recurring =
  rc_every :: int
  rc_start :: int
  rc_count :: int
  rc_until :: int
  rc_jitter :: int
  rc_inner :: raw_entry

text \<open>A decoded row: a plain entry and, where present, its recurring block.\<close>

type_synonym raw_row = "raw_entry \<times> recurring option"

type_synonym 'r intn = "int \<Rightarrow> 'r \<Rightarrow> (int \<times> 'r) option"

definition matchNodes :: "string \<Rightarrow> string list \<Rightarrow> string list" where
  "matchNodes pattern nodes =
     (if pattern = [] \<or> last pattern \<noteq> CHR ''*'' then []
      else filter (\<lambda>n. has_prefix n (butlast pattern)) nodes)"

definition resolve_one :: "'r intn \<Rightarrow> string list \<Rightarrow> string \<Rightarrow> 'r \<Rightarrow> (string \<times> 'r) go_result option" where
  "resolve_one intn nodes p r =
     (if CHR ''*'' \<notin> set p then Some (Inr (p, r))
      else let m = matchNodes p nodes in
        if m = [] then Some (Inl (''no nodes match pattern '' @ go_quote p @ '' (nodes='' @ go_list nodes @ '')''))
        else case intn (int (length m)) r of
          None \<Rightarrow> None | Some (i, r') \<Rightarrow> Some (Inr (m ! nat i, r')))"

definition obind :: "'a go_result option \<Rightarrow> ('a \<Rightarrow> 'b go_result option) \<Rightarrow> 'b go_result option" where
  "obind m f = (case m of None \<Rightarrow> None | Some (Inl e) \<Rightarrow> Some (Inl e) | Some (Inr x) \<Rightarrow> f x)"

definition resolveWildcards :: "'r intn \<Rightarrow> string list \<Rightarrow> raw_entry \<Rightarrow> 'r \<Rightarrow> (raw_entry \<times> 'r) go_result option" where
  "resolveWildcards intn nodes e r =
     obind (resolve_one intn nodes (re_container e) r) (\<lambda>(c, r1).
     obind (resolve_one intn nodes (re_from e) r1) (\<lambda>(f, r2).
     obind (resolve_one intn nodes (re_to e) r2) (\<lambda>(t, r3).
     obind (resolve_one intn nodes (re_target e) r3) (\<lambda>(g, r4).
       Some (Inr (e\<lparr>re_container := c, re_from := f, re_to := t, re_target := g\<rparr>, r4))))))"

text \<open>The jitter and the random delay of one materialised entry.\<close>

definition jittered :: "'r intn \<Rightarrow> recurring \<Rightarrow> int \<Rightarrow> 'r \<Rightarrow> (int \<times> 'r) go_result option" where
  "jittered intn spec step r =
     (if 0 < rc_jitter spec then
        (case intn (wrap64 (2 * rc_jitter spec + 1)) r of
           None \<Rightarrow> None
         | Some (j, r') \<Rightarrow> (let k = wrap64 (step + (j - rc_jitter spec)) in Some (Inr (if k < 0 then 0 else k, r'))))
      else Some (Inr (step, r)))"

definition random_delay :: "'r intn \<Rightarrow> recurring \<Rightarrow> raw_entry \<Rightarrow> 'r \<Rightarrow> (raw_entry \<times> 'r) go_result option" where
  "random_delay intn spec e r =
     (let lo = re_delay_min (rc_inner spec); hi = re_delay_max (rc_inner spec)
      in if re_type e = ''latency'' \<and> re_delay e = 0 \<and> 0 < hi \<and> 0 < lo \<and> lo \<le> hi then
           (case intn (wrap64 (hi - lo + 1)) r of
              None \<Rightarrow> None | Some (j, r') \<Rightarrow> Some (Inr (e\<lparr>re_delay := lo + j\<rparr>, r')))
         else Some (Inr (e, r)))"

definition step_at :: "recurring \<Rightarrow> nat \<Rightarrow> int" where
  "step_at spec i = wrap64 (rc_start spec + int i * rc_every spec)"

definition expand_one :: "'r intn \<Rightarrow> string list \<Rightarrow> recurring \<Rightarrow> nat \<Rightarrow> 'r \<Rightarrow> (raw_entry \<times> 'r) go_result option" where
  "expand_one intn nodes spec i r =
     obind (jittered intn spec (step_at spec i) r) (\<lambda>(step, r1).
     obind (map_option (ewrap (''recurring entry '' @ nat_dec i @ '': ''))
             (resolveWildcards intn nodes ((rc_inner spec)\<lparr>re_step := step\<rparr>) r1)) (\<lambda>(e, r2).
       random_delay intn spec e r2))"

definition expand_stops :: "recurring \<Rightarrow> nat \<Rightarrow> bool" where
  "expand_stops spec i \<longleftrightarrow> 0 < rc_until spec \<and> rc_until spec < step_at spec i
     \<or> 0 < rc_count spec \<and> rc_count spec \<le> int i"

text \<open>The loop \<open>for i := 0; ; i++\<close> with \<open>fuel\<close> rounds; arithmetic is Go's on 64 bits, so a last
  step near the largest integer is never passed and the loop of the code does not end; \<open>None\<close> is a panic or the end of the fuel.\<close>

fun expand_loop :: "'r intn \<Rightarrow> string list \<Rightarrow> recurring \<Rightarrow> nat \<Rightarrow> nat \<Rightarrow> 'r \<Rightarrow> raw_entry list go_result option" where
  "expand_loop intn nodes spec 0 i r = None"
| "expand_loop intn nodes spec (Suc fuel) i r =
     (if expand_stops spec i then Some (Inr [])
      else obind (expand_one intn nodes spec i r) (\<lambda>(e, r').
           obind (expand_loop intn nodes spec fuel (Suc i) r') (\<lambda>es. Some (Inr (e # es)))))"

definition expand_fuel :: "recurring \<Rightarrow> nat" where
  "expand_fuel spec = Suc (if 0 < rc_count spec then nat (rc_count spec) else nat (rc_until spec - rc_start spec) + 1)"

definition ExpandRecurring :: "'r intn \<Rightarrow> string list \<Rightarrow> recurring \<Rightarrow> 'r \<Rightarrow> raw_entry list go_result option" where
  "ExpandRecurring intn nodes spec r =
     (if rc_every spec \<le> 0 then Some (Inl ''recurring: every must be > 0'')
      else if rc_count spec \<le> 0 \<and> rc_until spec \<le> 0 then Some (Inl ''recurring: count or until_step required'')
      else if re_type (rc_inner spec) = [] then Some (Inl ''recurring: event.type required'')
      else expand_loop intn nodes spec (expand_fuel spec) 0 r)"

section \<open>The schedule parser\<close>

definition parse_event :: "nat \<Rightarrow> raw_entry \<Rightarrow> chaos_event go_result" where
  "parse_event i r =
     (let entry = ''entry '' @ nat_dec i in
      if re_type r = ''restart'' then
        (if re_container r = [] then Inl (entry @ '' (restart): container is required'')
         else Inr (RestartEvent (re_container r)))
      else if re_type r = ''latency'' then
        (if re_container r = [] \<or> re_iface r = [] \<or> re_delay r \<le> 0
         then Inl (entry @ '' (latency): container/iface/delay_ms required'')
         else Inr (LatencyEvent (re_container r) (re_iface r) (re_delay r)))
      else if re_type r = ''partition'' then
        (if re_from r = [] \<or> re_to r = [] then Inl (entry @ '' (partition): from/to required'')
         else Inr (PartitionEvent (re_from r) (re_to r)))
      else if re_type r = ''amendment'' then
        (if re_feature r = [] \<or> re_target r = [] then Inl (entry @ '' (amendment): feature/target required'')
         else Inr (AmendmentFlipEvent (re_target r) (re_feature r)))
      else Inl (entry @ '': unknown event type '' @ go_quote (re_type r)))"

fun expand_rows :: "'r intn \<Rightarrow> (64 word \<Rightarrow> 'r) \<Rightarrow> string list \<Rightarrow> 64 word \<Rightarrow> nat \<Rightarrow> raw_row list \<Rightarrow> raw_entry list go_result option" where
  "expand_rows intn source nodes seed i [] = Some (Inr [])"
| "expand_rows intn source nodes seed i ((r, rec) # rows) =
     (if re_type r = ''recurring'' \<or> rec \<noteq> None then
        (case rec of
           None \<Rightarrow> Some (Inl (''entry '' @ nat_dec i @ '' (recurring): recurring{} block required''))
         | Some spec \<Rightarrow>
             obind (map_option (ewrap (''entry '' @ nat_dec i @ '': ''))
               (ExpandRecurring intn nodes spec (source (Bit_Operations.xor seed (of_nat (i + 1)))))) (\<lambda>more.
             obind (expand_rows intn source nodes seed (Suc i) rows) (\<lambda>rest. Some (Inr (more @ rest)))))
      else obind (expand_rows intn source nodes seed (Suc i) rows) (\<lambda>rest. Some (Inr (r # rest))))"

fun parse_entries :: "'r intn \<Rightarrow> (64 word \<Rightarrow> 'r) \<Rightarrow> string list \<Rightarrow> 64 word \<Rightarrow> nat \<Rightarrow> raw_entry list
    \<Rightarrow> schedule_entry list go_result option" where
  "parse_entries intn source nodes seed i [] = Some (Inr [])"
| "parse_entries intn source nodes seed i (r # rs) =
     obind (map_option (ewrap (''entry '' @ nat_dec i @ '': ''))
        (resolveWildcards intn nodes r
          (source (Bit_Operations.xor (Bit_Operations.xor seed (of_nat (i + 1))) 0x5a5a5a5a)))) (\<lambda>(e, _).
     obind (Some (parse_event i e)) (\<lambda>ev.
     obind (parse_entries intn source nodes seed (Suc i) rs) (\<lambda>rest.
       Some (Inr (\<lparr>se_trigger = re_step e, se_event = ev, se_recover_after = re_recover_after e\<rparr> # rest)))))"

text \<open>\<open>ParseSchedule\<close> of a decoded document; \<open>Inl\<close> is the decoding error, an empty text gives no
  entries.\<close>

definition ParseSchedule :: "'r intn \<Rightarrow> (64 word \<Rightarrow> 'r) \<Rightarrow> string \<Rightarrow> raw_row list go_result \<Rightarrow> string list \<Rightarrow> 64 word
    \<Rightarrow> schedule_entry list go_result option" where
  "ParseSchedule intn source raw decoded nodes seed =
     (if raw = [] then Some (Inr [])
      else obind (Some (ewrap ''schedule json: '' decoded)) (\<lambda>rows.
           obind (expand_rows intn source nodes seed 0 rows) (\<lambda>es.
             parse_entries intn source nodes seed 0 es)))"

section \<open>Facts about the scheduler\<close>

definition all_pending :: "scheduler \<Rightarrow> nat list" where
  "all_pending c = concat (map snd (sc_pending c))"

definition audits :: "string \<Rightarrow> scheduler \<Rightarrow> audit_entry list" where
  "audits phase c = filter (\<lambda>a. au_phase a = phase) (sc_audit c)"

text \<open>
  The books of a scheduler: every fired entry has one \<open>apply\<close> audit; every event applied is
  pending or has one \<open>recover\<close> audit; the counters are the counts of the audits.
\<close>

definition books_ok :: "scheduler \<Rightarrow> bool" where
  "books_ok c \<longleftrightarrow> distinct (sc_fired c) \<and> set (sc_fired c) \<subseteq> {..< length (sc_schedule c)}
     \<and> distinct (map fst (sc_pending c))
     \<and> length (audits ''apply'' c) = length (sc_fired c)
     \<and> sc_applied c = int (length (filter (\<lambda>a. au_error a = []) (audits ''apply'' c)))
     \<and> sc_recovered c = int (length (filter (\<lambda>a. au_error a = []) (audits ''recover'' c)))
     \<and> sc_errored c = int (length (filter (\<lambda>a. au_error a \<noteq> []) (sc_audit c)))
     \<and> sc_applied c = int (length (audits ''recover'' c)) + int (length (all_pending c))"

lemma books_ok_New: "books_ok (NewChaosScheduler es)"
  by (simp add: books_ok_def NewChaosScheduler_def audits_def all_pending_def)

lemma length_all_pending_update:
  "distinct (map fst ps) \<Longrightarrow>
     length (concat (map snd (AList.update k ((case map_of ps k of None \<Rightarrow> [] | Some ix \<Rightarrow> ix) @ [i]) ps))) =
     Suc (length (concat (map snd ps)))"
proof (induction ps)
  case (Cons p ps)
  have "k \<notin> fst ` set ps \<Longrightarrow> map_of ps k = None" by (simp add: map_of_eq_None_iff)
  with Cons show ?case by (cases p) auto
qed simp

lemma length_all_pending_delete:
  "distinct (map fst ps) \<Longrightarrow> map_of ps k = Some ix \<Longrightarrow>
     length (concat (map snd (AList.delete k ps))) + length ix = length (concat (map snd ps))"
proof (induction ps)
  case (Cons p ps)
  have "k \<notin> fst ` set ps \<Longrightarrow> AList.delete k ps = ps" by (induction ps) auto
  with Cons show ?case by (cases p) (auto split: if_splits)
qed simp

text \<open>Errors of the events carry a text.\<close>

definition errors_named :: "'s chaos_env \<Rightarrow> bool" where
  "errors_named env \<longleftrightarrow> (\<forall>ev s. fst (event_apply env ev s) \<noteq> Inl [] \<and> fst (event_recover env ev s) \<noteq> Inl [])"

lemma fire_entry_books:
  assumes "errors_named env" and "books_ok c" and "i < length (sc_schedule c)"
  shows "books_ok (fst (fire_entry env step i (c, s)))"
proof (cases "i \<in> set (sc_fired c) \<or> step < se_trigger (sc_schedule c ! i)")
  case True
  with assms(2) show ?thesis by (auto simp: fire_entry_def Let_def)
next
  case False
  obtain r s' where r: "event_apply env (se_event (sc_schedule c ! i)) s = (r, s')" by fastforce
  show ?thesis
  proof (cases r)
    case (Inl e)
    with assms(1) r have "e \<noteq> []" unfolding errors_named_def by (metis fst_conv)
    with False r Inl assms(2, 3) show ?thesis
      by (auto simp: fire_entry_def Let_def audit_def books_ok_def audits_def all_pending_def)
  next
    case (Inr u)
    have "distinct (map fst (sc_pending c))" using assms(2) by (simp add: books_ok_def)
    note len = length_all_pending_update [OF this]
    from False r Inr assms(2, 3) len show ?thesis
      by (auto simp: fire_entry_def Let_def audit_def books_ok_def audits_def all_pending_def pending_at_def
          distinct_update)
  qed
qed

lemma fire_entry_schedule [simp]: "sc_schedule (fst (fire_entry env step i cs)) = sc_schedule (fst cs)"
  by (cases cs) (auto simp: fire_entry_def Let_def audit_def split: sum.splits prod.splits)

lemma fold_fire_books:
  "errors_named env \<Longrightarrow> books_ok (fst cs) \<Longrightarrow> set ix \<subseteq> {..< length (sc_schedule (fst cs))} \<Longrightarrow>
     books_ok (fst (fold (fire_entry env step) ix cs)) \<and> sc_schedule (fst (fold (fire_entry env step) ix cs)) = sc_schedule (fst cs)"
proof (induction ix arbitrary: cs)
  case (Cons i ix)
  have "books_ok (fst (fire_entry env step i cs))"
    using fire_entry_books [of env "fst cs" i step "snd cs"] Cons.prems by simp
  with Cons show ?case by simp
qed simp

text \<open>The recovery loop touches neither the pending table nor the fired set.\<close>

lemma recover_entry_facts:
  assumes "errors_named env"
  shows "sc_schedule (fst (recover_entry env step i cs)) = sc_schedule (fst cs)"
    and "sc_pending (fst (recover_entry env step i cs)) = sc_pending (fst cs)"
    and "sc_fired (fst (recover_entry env step i cs)) = sc_fired (fst cs)"
    and "sc_applied (fst (recover_entry env step i cs)) = sc_applied (fst cs)"
    and "\<exists>a. sc_audit (fst (recover_entry env step i cs)) = sc_audit (fst cs) @ [a] \<and> au_phase a = ''recover''
       \<and> sc_recovered (fst (recover_entry env step i cs)) = sc_recovered (fst cs) + (if au_error a = [] then 1 else 0)
       \<and> sc_errored (fst (recover_entry env step i cs)) = sc_errored (fst cs) + (if au_error a = [] then 0 else 1)"
proof -
  obtain c s where cs: "cs = (c, s)" by fastforce
  obtain r s' where r: "event_recover env (se_event (sc_schedule c ! i)) s = (r, s')" by fastforce
  have "e \<noteq> []" if "r = Inl e" for e using assms r that unfolding errors_named_def by (metis fst_conv)
  with r show "sc_schedule (fst (recover_entry env step i cs)) = sc_schedule (fst cs)"
    and "sc_pending (fst (recover_entry env step i cs)) = sc_pending (fst cs)"
    and "sc_fired (fst (recover_entry env step i cs)) = sc_fired (fst cs)"
    and "sc_applied (fst (recover_entry env step i cs)) = sc_applied (fst cs)"
    and "\<exists>a. sc_audit (fst (recover_entry env step i cs)) = sc_audit (fst cs) @ [a] \<and> au_phase a = ''recover''
       \<and> sc_recovered (fst (recover_entry env step i cs)) = sc_recovered (fst cs) + (if au_error a = [] then 1 else 0)
       \<and> sc_errored (fst (recover_entry env step i cs)) = sc_errored (fst cs) + (if au_error a = [] then 0 else 1)"
    by (cases r; simp add: cs recover_entry_def Let_def audit_def)+
qed

lemma fold_recover_facts:
  assumes "errors_named env"
  shows "\<exists>as. sc_audit (fst (fold (recover_entry env step) ix cs)) = sc_audit (fst cs) @ as
    \<and> length as = length ix \<and> (\<forall>a \<in> set as. au_phase a = ''recover'')
    \<and> sc_recovered (fst (fold (recover_entry env step) ix cs)) = sc_recovered (fst cs) + int (length (filter (\<lambda>a. au_error a = []) as))
    \<and> sc_errored (fst (fold (recover_entry env step) ix cs)) = sc_errored (fst cs) + int (length (filter (\<lambda>a. au_error a \<noteq> []) as))
    \<and> sc_schedule (fst (fold (recover_entry env step) ix cs)) = sc_schedule (fst cs)
    \<and> sc_pending (fst (fold (recover_entry env step) ix cs)) = sc_pending (fst cs)
    \<and> sc_fired (fst (fold (recover_entry env step) ix cs)) = sc_fired (fst cs)
    \<and> sc_applied (fst (fold (recover_entry env step) ix cs)) = sc_applied (fst cs)"
proof (induction ix arbitrary: cs)
  case Nil
  then show ?case by simp
next
  case (Cons i ix)
  note one = recover_entry_facts [OF assms, of step i cs]
  from one(5) obtain a where a: "sc_audit (fst (recover_entry env step i cs)) = sc_audit (fst cs) @ [a]" "au_phase a = ''recover''"
    "sc_recovered (fst (recover_entry env step i cs)) = sc_recovered (fst cs) + (if au_error a = [] then 1 else 0)"
    "sc_errored (fst (recover_entry env step i cs)) = sc_errored (fst cs) + (if au_error a = [] then 0 else 1)" by blast
  from Cons.IH [of "recover_entry env step i cs"] obtain as where
    "sc_audit (fst (fold (recover_entry env step) ix (recover_entry env step i cs))) =
       sc_audit (fst (recover_entry env step i cs)) @ as" and as: "length as = length ix" "\<forall>a \<in> set as. au_phase a = ''recover''"
    "sc_recovered (fst (fold (recover_entry env step) ix (recover_entry env step i cs))) =
       sc_recovered (fst (recover_entry env step i cs)) + int (length (filter (\<lambda>a. au_error a = []) as))"
    "sc_errored (fst (fold (recover_entry env step) ix (recover_entry env step i cs))) =
       sc_errored (fst (recover_entry env step i cs)) + int (length (filter (\<lambda>a. au_error a \<noteq> []) as))"
    "sc_schedule (fst (fold (recover_entry env step) ix (recover_entry env step i cs))) = sc_schedule (fst (recover_entry env step i cs))"
    "sc_pending (fst (fold (recover_entry env step) ix (recover_entry env step i cs))) = sc_pending (fst (recover_entry env step i cs))"
    "sc_fired (fst (fold (recover_entry env step) ix (recover_entry env step i cs))) = sc_fired (fst (recover_entry env step i cs))"
    "sc_applied (fst (fold (recover_entry env step) ix (recover_entry env step i cs))) = sc_applied (fst (recover_entry env step i cs))"
    by blast
  then show ?case using a one(1-4) by (intro exI [of _ "a # as"]) simp
qed

lemma chaos_step_split:
  obtains c1 s1 where "fold (fire_entry env step) [0 ..< length (sc_schedule (fst cs))] cs = (c1, s1)"
    "chaos_step env step cs = (case map_of (sc_pending c1) step of
          None \<Rightarrow> (c1, s1)
        | Some ix \<Rightarrow> (case fold (recover_entry env step) ix (c1, s1) of
               (c2, s2) \<Rightarrow> (c2\<lparr>sc_pending := AList.delete step (sc_pending c2)\<rparr>, s2)))"
  by (cases "fold (fire_entry env step) [0 ..< length (sc_schedule (fst cs))] cs") (simp add: chaos_step_def)

lemma chaos_step_books:
  assumes env: "errors_named env" and ok: "books_ok (fst cs)"
  shows "books_ok (fst (chaos_step env step cs)) \<and> sc_schedule (fst (chaos_step env step cs)) = sc_schedule (fst cs)"
proof -
  obtain c1 s1 where f: "fold (fire_entry env step) [0 ..< length (sc_schedule (fst cs))] cs = (c1, s1)"
    and step: "chaos_step env step cs = (case map_of (sc_pending c1) step of
          None \<Rightarrow> (c1, s1)
        | Some ix \<Rightarrow> (case fold (recover_entry env step) ix (c1, s1) of
               (c2, s2) \<Rightarrow> (c2\<lparr>sc_pending := AList.delete step (sc_pending c2)\<rparr>, s2)))"
    by (rule chaos_step_split)
  have c1: "books_ok c1" "sc_schedule c1 = sc_schedule (fst cs)"
    using fold_fire_books [OF env ok, of "[0 ..< length (sc_schedule (fst cs))]" step] f by (simp_all add: lessThan_atLeast0)
  show ?thesis
  proof (cases "map_of (sc_pending c1) step")
    case None
    with step c1 show ?thesis by simp
  next
    case (Some ix)
    obtain c2 s2 where r: "fold (recover_entry env step) ix (c1, s1) = (c2, s2)" by fastforce
    from fold_recover_facts [OF env, of step ix "(c1, s1)"] r obtain as where
      as: "sc_audit c2 = sc_audit c1 @ as" "length as = length ix" "\<forall>a \<in> set as. au_phase a = ''recover''"
      "sc_recovered c2 = sc_recovered c1 + int (length (filter (\<lambda>a. au_error a = []) as))"
      "sc_errored c2 = sc_errored c1 + int (length (filter (\<lambda>a. au_error a \<noteq> []) as))"
      "sc_schedule c2 = sc_schedule c1" "sc_pending c2 = sc_pending c1" "sc_fired c2 = sc_fired c1" "sc_applied c2 = sc_applied c1"
      by auto
    have rec: "filter (\<lambda>a. au_phase a = ''recover'') as = as" "filter (\<lambda>a. au_phase a = ''apply'') as = []"
      using as(3) by (auto simp: filter_id_conv filter_empty_conv)
    have d: "distinct (map fst (sc_pending c1))" using c1(1) by (simp add: books_ok_def)
    have len: "length (concat (map snd (AList.delete step (sc_pending c1)))) + length ix = length (all_pending c1)"
      using length_all_pending_delete [OF d Some] by (simp add: all_pending_def)
    have "books_ok (c2\<lparr>sc_pending := AList.delete step (sc_pending c2)\<rparr>)"
      using c1(1) as len d unfolding books_ok_def audits_def all_pending_def
      by (simp add: rec distinct_delete)
    with step Some r as(6) c1(2) show ?thesis by simp
  qed
qed

text \<open>The scheduler after the steps \<open>ts\<close>; between steps the world may change in any way.\<close>

inductive chaos_reach :: "'s chaos_env \<Rightarrow> schedule_entry list \<Rightarrow> int list \<Rightarrow> scheduler \<Rightarrow> bool" for env es where
  start: "chaos_reach env es [] (NewChaosScheduler es)"
| tick: "chaos_reach env es ts c \<Longrightarrow> chaos_reach env es (ts @ [t]) (fst (chaos_step env t (c, s)))"

lemma chaos_reach_books:
  "chaos_reach env es ts c \<Longrightarrow> errors_named env \<Longrightarrow> books_ok c \<and> sc_schedule c = es"
proof (induction rule: chaos_reach.induct)
  case start
  then show ?case using books_ok_New by (simp add: NewChaosScheduler_def)
next
  case (tick ts c t s)
  then show ?case using chaos_step_books [of env "(c, s)" t] by simp
qed

text \<open>Which entries have fired.\<close>

lemma fire_entry_fired:
  "set (sc_fired (fst (fire_entry env step i cs))) =
     set (sc_fired (fst cs)) \<union> (if se_trigger (sc_schedule (fst cs) ! i) \<le> step then {i} else {})"
  by (cases cs) (auto simp: fire_entry_def Let_def audit_def split: sum.splits prod.splits)

lemma fold_fire_fired:
  "set (sc_fired (fst (fold (fire_entry env step) ix cs))) =
     set (sc_fired (fst cs)) \<union> {i \<in> set ix. se_trigger (sc_schedule (fst cs) ! i) \<le> step}
   \<and> sc_schedule (fst (fold (fire_entry env step) ix cs)) = sc_schedule (fst cs)"
proof (induction ix arbitrary: cs)
  case (Cons i ix)
  from Cons.IH [of "fire_entry env step i cs"] show ?case
    by (auto simp: fire_entry_fired split: if_splits)
qed simp

lemma chaos_step_fired:
  assumes "errors_named env"
  shows "set (sc_fired (fst (chaos_step env step cs))) =
     set (sc_fired (fst cs)) \<union> {i. i < length (sc_schedule (fst cs)) \<and> se_trigger (sc_schedule (fst cs) ! i) \<le> step}"
proof -
  obtain c1 s1 where f: "fold (fire_entry env step) [0 ..< length (sc_schedule (fst cs))] cs = (c1, s1)"
    and step: "chaos_step env step cs = (case map_of (sc_pending c1) step of
          None \<Rightarrow> (c1, s1)
        | Some ix \<Rightarrow> (case fold (recover_entry env step) ix (c1, s1) of
               (c2, s2) \<Rightarrow> (c2\<lparr>sc_pending := AList.delete step (sc_pending c2)\<rparr>, s2)))"
    by (rule chaos_step_split)
  have "sc_fired (fst (chaos_step env step cs)) = sc_fired c1"
    using fold_recover_facts [OF assms, of step _ "(c1, s1)"] unfolding step
    by (auto split: option.splits prod.splits) (metis fst_conv)+
  then show ?thesis using fold_fire_fired [of env step "[0 ..< length (sc_schedule (fst cs))]" cs] f by auto
qed

lemma chaos_reach_fired:
  "chaos_reach env es ts c \<Longrightarrow> errors_named env \<Longrightarrow>
     set (sc_fired c) = {i. i < length es \<and> (\<exists>t \<in> set ts. se_trigger (es ! i) \<le> t)}"
proof (induction rule: chaos_reach.induct)
  case start
  then show ?case by (simp add: NewChaosScheduler_def)
next
  case (tick ts c t s)
  then show ?case
    using chaos_reach_books [OF tick.hyps] chaos_step_fired [of env t "(c, s)"] by auto
qed

text \<open>Where recoveries wait: at the tick of the application plus the entry's delay.\<close>

definition waits_ok :: "int list \<Rightarrow> scheduler \<Rightarrow> bool" where
  "waits_ok steps c \<longleftrightarrow> fst ` set (sc_pending c) \<subseteq>
     (\<lambda>(t, e). wrap64 (t + se_recover_after e)) ` (set steps \<times> set (sc_schedule c))"

lemma keys_update: "fst ` set (AList.update k v xs) = insert k (fst ` set xs)"
  by (metis dom_map_of_conv_image_fst dom_fun_upd option.distinct(1) update_conv')

lemma fire_entry_waits:
  assumes "waits_ok steps (fst cs)" and "step \<in> set steps" and "i < length (sc_schedule (fst cs))"
  shows "waits_ok steps (fst (fire_entry env step i cs))"
proof -
  let ?e = "sc_schedule (fst cs) ! i"
  have "sc_pending (fst (fire_entry env step i cs)) = sc_pending (fst cs)
      \<or> (\<exists>ix. sc_pending (fst (fire_entry env step i cs)) =
           AList.update (wrap64 (step + se_recover_after ?e)) ix (sc_pending (fst cs)))"
    by (cases cs) (auto simp: fire_entry_def Let_def audit_def split: sum.splits prod.splits)
  then have sub: "fst ` set (sc_pending (fst (fire_entry env step i cs)))
      \<subseteq> insert (wrap64 (step + se_recover_after ?e)) (fst ` set (sc_pending (fst cs)))"
    by (elim disjE exE) (simp_all only: keys_update subset_insertI subset_refl)
  have here: "wrap64 (step + se_recover_after ?e) \<in>
      (\<lambda>(t, e). wrap64 (t + se_recover_after e)) ` (set steps \<times> set (sc_schedule (fst cs)))"
    using assms(2) nth_mem [OF assms(3)] by (intro image_eqI [of _ _ "(step, ?e)"]) simp_all
  have same: "sc_schedule (fst (fire_entry env step i cs)) = sc_schedule (fst cs)"
    by (cases cs) (auto simp: fire_entry_def Let_def audit_def split: sum.splits prod.splits)
  show ?thesis
    unfolding waits_ok_def same
    by (rule order_trans [OF sub]) (use here assms(1) in \<open>simp only: insert_subset waits_ok_def\<close>)
qed

lemma fold_fire_waits:
  "waits_ok steps (fst cs) \<Longrightarrow> step \<in> set steps \<Longrightarrow> set ix \<subseteq> {..< length (sc_schedule (fst cs))} \<Longrightarrow>
     waits_ok steps (fst (fold (fire_entry env step) ix cs))"
proof (induction ix arbitrary: cs)
  case (Cons i ix)
  then have "waits_ok steps (fst (fire_entry env step i cs))" by (intro fire_entry_waits) auto
  with Cons show ?case by simp
qed simp

lemma keys_delete: "fst ` set (AList.delete k xs) = fst ` set xs - {k}"
  by (metis dom_map_of_conv_image_fst dom_fun_upd delete_conv')

lemma fold_fire_keeps_schedule:
  "sc_schedule (fst (fold (fire_entry env step) ix cs)) = sc_schedule (fst cs)"
  using fold_fire_fired [of env step ix cs] by simp

text \<open>One step leaves no recovery waiting at its own number, and adds only keys of its own.\<close>

lemma chaos_step_keys:
  assumes env: "errors_named env"
  obtains c1 s1 where "fold (fire_entry env step) [0 ..< length (sc_schedule (fst cs))] cs = (c1, s1)"
    "fst ` set (sc_pending (fst (chaos_step env step cs))) = fst ` set (sc_pending c1) - {step}"
    "sc_schedule (fst (chaos_step env step cs)) = sc_schedule (fst cs)"
    "step \<notin> fst ` set (sc_pending c1) \<longrightarrow> chaos_step env step cs = (c1, s1)"
proof -
  obtain c1 s1 where f: "fold (fire_entry env step) [0 ..< length (sc_schedule (fst cs))] cs = (c1, s1)"
    and step: "chaos_step env step cs = (case map_of (sc_pending c1) step of
          None \<Rightarrow> (c1, s1)
        | Some ix \<Rightarrow> (case fold (recover_entry env step) ix (c1, s1) of
               (c2, s2) \<Rightarrow> (c2\<lparr>sc_pending := AList.delete step (sc_pending c2)\<rparr>, s2)))"
    by (rule chaos_step_split)
  have sch: "sc_schedule c1 = sc_schedule (fst cs)" using fold_fire_keeps_schedule f by (metis fst_conv)
  show ?thesis
  proof (cases "map_of (sc_pending c1) step")
    case None
    then have "step \<notin> fst ` set (sc_pending c1)" by (simp add: map_of_eq_None_iff)
    with None f step sch show ?thesis by (intro that [of c1 s1]) (simp_all only: Diff_insert0 Diff_empty option.case fst_conv simp_thms)
  next
    case (Some ix)
    obtain c2 s2 where r: "fold (recover_entry env step) ix (c1, s1) = (c2, s2)" by fastforce
    with fold_recover_facts [OF env, of step ix "(c1, s1)"]
    have same: "sc_pending c2 = sc_pending c1" "sc_schedule c2 = sc_schedule c1" by auto
    have "step \<in> fst ` set (sc_pending c1)" using Some by (metis map_of_SomeD image_eqI fst_conv)
    with Some f step r same sch show ?thesis by (intro that [of c1 s1]) (simp_all add: keys_delete)
  qed
qed

lemma chaos_step_waits:
  assumes env: "errors_named env" and ok: "waits_ok steps (fst cs)"
  shows "waits_ok (steps @ [t]) (fst (chaos_step env t cs))"
proof -
  obtain c1 s1 where f: "fold (fire_entry env t) [0 ..< length (sc_schedule (fst cs))] cs = (c1, s1)"
    and k: "fst ` set (sc_pending (fst (chaos_step env t cs))) = fst ` set (sc_pending c1) - {t}"
    and s: "sc_schedule (fst (chaos_step env t cs)) = sc_schedule (fst cs)"
    by (rule chaos_step_keys [OF env, where step = t and cs = cs])
  have "waits_ok (steps @ [t]) (fst cs)" using ok unfolding waits_ok_def by auto
  from fold_fire_waits [OF this, of t "[0 ..< length (sc_schedule (fst cs))]" env] f
  have "waits_ok (steps @ [t]) c1" by (simp add: lessThan_atLeast0)
  moreover have "sc_schedule c1 = sc_schedule (fst cs)" using fold_fire_keeps_schedule f by (metis fst_conv)
  ultimately show ?thesis unfolding waits_ok_def k s by auto
qed

lemma chaos_reach_waits: "chaos_reach env es ts c \<Longrightarrow> errors_named env \<Longrightarrow> waits_ok ts c"
proof (induction rule: chaos_reach.induct)
  case start
  then show ?case by (simp add: NewChaosScheduler_def waits_ok_def)
next
  case (tick ts c t s)
  then show ?case using chaos_step_waits [of env ts "(c, s)" t] by simp
qed

text \<open>With delays that are not negative and consecutive steps every recovery that is due has run.\<close>

lemma fire_entry_due:
  assumes "\<forall>e \<in> set (sc_schedule (fst cs)). 0 \<le> se_recover_after e \<and> t + se_recover_after e < 2 ^ 63"
    and "0 \<le> t" and "\<forall>k \<in> fst ` set (sc_pending (fst cs)). t \<le> k" and "i < length (sc_schedule (fst cs))"
  shows "\<forall>k \<in> fst ` set (sc_pending (fst (fire_entry env t i cs))). t \<le> k"
proof -
  let ?e = "sc_schedule (fst cs) ! i"
  have e: "0 \<le> se_recover_after ?e" "t + se_recover_after ?e < 2 ^ 63" using assms(1) nth_mem [OF assms(4)] by auto
  then have "wrap64 (t + se_recover_after ?e) = t + se_recover_after ?e" using assms(2) by (intro wrap64_id) auto
  then have "sc_pending (fst (fire_entry env t i cs)) = sc_pending (fst cs)
      \<or> (\<exists>ix. sc_pending (fst (fire_entry env t i cs)) = AList.update (t + se_recover_after ?e) ix (sc_pending (fst cs)))"
    by (cases cs) (auto simp: fire_entry_def Let_def audit_def split: sum.splits prod.splits)
  then show ?thesis
    by (elim disjE exE) (use assms(3) e(1) in \<open>simp_all only: keys_update\<close>, auto)
qed

lemma fold_fire_due:
  "\<forall>e \<in> set (sc_schedule (fst cs)). 0 \<le> se_recover_after e \<and> t + se_recover_after e < 2 ^ 63 \<Longrightarrow> 0 \<le> t \<Longrightarrow>
     \<forall>k \<in> fst ` set (sc_pending (fst cs)). t \<le> k \<Longrightarrow> set ix \<subseteq> {..< length (sc_schedule (fst cs))} \<Longrightarrow>
     \<forall>k \<in> fst ` set (sc_pending (fst (fold (fire_entry env t) ix cs))). t \<le> k"
proof (induction ix arbitrary: cs)
  case (Cons i ix)
  have same: "sc_schedule (fst (fire_entry env t i cs)) = sc_schedule (fst cs)"
    using fold_fire_keeps_schedule [of env t "[i]" cs] by simp
  have "\<forall>k \<in> fst ` set (sc_pending (fst (fire_entry env t i cs))). t \<le> k"
    using Cons.prems by (intro fire_entry_due) simp_all
  with Cons.IH [of "fire_entry env t i cs"] Cons.prems show ?case by (simp add: same)
qed simp

lemma fold_fire_recover_audits:
  "audits ''recover'' (fst (fold (fire_entry env t) ix cs)) = audits ''recover'' (fst cs)"
proof (induction ix arbitrary: cs)
  case (Cons i ix)
  have "audits ''recover'' (fst (fire_entry env t i cs)) = audits ''recover'' (fst cs)"
    by (cases cs) (auto simp: fire_entry_def Let_def audit_def audits_def split: sum.splits prod.splits)
  with Cons show ?case by simp
qed simp

end
