(* ===== verification/Chaos_Properties.thy ===== *)
theory Chaos_Properties
  imports Chaos
begin

text \<open>
  What the scheduled disturbances promise: the books of the scheduler balance, an entry fires
  once, recoveries run on time when every step is visited, and never when the soak loop's own
  cadence misses them; the expansion of recurring entries ends and the parser takes exactly the
  entries it can execute.
\<close>

section \<open>Examples\<close>

definition ok_env :: "'s chaos_env" where
  "ok_env = \<lparr>ce_exec = (\<lambda>_ _ s. (Inr [], s)), ce_stop = (\<lambda>_ s. (Inr (), s)), ce_start = (\<lambda>_ s. (Inr (), s)),
     ce_client = (\<lambda>_ _ _ s. (Inl ''refused'', s))\<rparr>"

lemma ok_env_named: "errors_named ok_env"
proof -
  have "fst (event_apply ok_env ev s) \<noteq> Inl [] \<and> fst (event_recover ok_env ev s) \<noteq> Inl []" for ev s
    by (cases ev) (simp_all add: ok_env_def finish_def event_actions)
  then show ?thesis unfolding errors_named_def by blast
qed

definition restart_at :: "int \<Rightarrow> int \<Rightarrow> schedule_entry" where
  "restart_at k d = \<lparr>se_trigger = k, se_event = RestartEvent ''n'', se_recover_after = d\<rparr>"

section \<open>The scheduler\<close>

text \<open>A run over given steps from a given world, the one the examples take.\<close>

definition chaos_run :: "'s chaos_env \<Rightarrow> schedule_entry list \<Rightarrow> int list \<Rightarrow> 's \<Rightarrow> scheduler \<times> 's" where
  "chaos_run env es steps s = fold (chaos_step env) steps (NewChaosScheduler es, s)"

lemma chaos_run_reach: "chaos_reach env es steps (fst (chaos_run env es steps s))"
proof (induction steps rule: rev_induct)
  case Nil
  show ?case by (simp add: chaos_run_def chaos_reach.start)
next
  case (snoc t steps)
  then show ?case
    using chaos_reach.tick [of env es steps "fst (chaos_run env es steps s)" t "snd (chaos_run env es steps s)"]
    by (simp add: chaos_run_def)
qed



text \<open>When every step from 0 is visited and the delays are not negative, every recovery that is
  due has run: what still waits after step \<open>n - 1\<close> waits for step \<open>n\<close> or later, and all other
  applied events have been recovered once.\<close>

theorem chaos_recovers_on_time:
  assumes env: "errors_named env" and reach: "chaos_reach env es (map int [0 ..< n]) c"
    and es: "\<forall>e \<in> set es. 0 \<le> se_recover_after e \<and> int n + se_recover_after e < 2 ^ 63"
  shows "\<forall>k \<in> fst ` set (sc_pending c). int n \<le> k"
  using reach es
proof (induction n arbitrary: c)
  case 0
  then show ?case by (auto simp: NewChaosScheduler_def elim: chaos_reach.cases)
next
  case (Suc n)
  from Suc.prems(1) obtain c0 s where c0: "chaos_reach env es (map int [0 ..< n]) c0"
    and c: "c = fst (chaos_step env (int n) (c0, s))" by (auto elim: chaos_reach.cases)
  let ?cs = "(c0, s)"
  have sch: "sc_schedule (fst ?cs) = es" using chaos_reach_books [OF c0 env] by simp
  obtain c1 s1 where f: "fold (fire_entry env (int n)) [0 ..< length (sc_schedule (fst ?cs))] ?cs = (c1, s1)"
    and k: "fst ` set (sc_pending (fst (chaos_step env (int n) ?cs))) = fst ` set (sc_pending c1) - {int n}"
    by (rule chaos_step_keys [OF env, where step = "int n" and cs = ?cs])
  have due: "\<forall>k \<in> fst ` set (sc_pending (fst ?cs)). int n \<le> k" unfolding fst_conv
    by (rule Suc.IH [OF c0]) (use Suc.prems(2) in \<open>simp only: of_nat_Suc, fastforce\<close>)
  have small: "\<forall>e \<in> set (sc_schedule (fst ?cs)). 0 \<le> se_recover_after e \<and> int n + se_recover_after e < 2 ^ 63"
    unfolding sch using Suc.prems(2) by (simp only: of_nat_Suc) fastforce
  have le: "set [0 ..< length (sc_schedule (fst ?cs))] \<subseteq> {..< length (sc_schedule (fst ?cs))}" by auto
  have "\<forall>k \<in> fst ` set (sc_pending c1). int n \<le> k"
    using fold_fire_due [OF small _ due le, of env] f by simp
  then have "\<forall>k \<in> fst ` set (sc_pending c1) - {int n}. int (Suc n) \<le> k"
    by (metis Diff_iff int_ops(4) insertI1 order_le_less zless_imp_add1_zle add.commute)
  then show ?case by (simp only: k c)
qed

theorem chaos_recovers_on_time_witness:
  "list_all (\<lambda>kv. int 3 \<le> fst kv) (sc_pending (fst (chaos_run ok_env [restart_at 0 1, restart_at 1 9] (map int [0 ..< 3]) ())))"
proof -
  have "\<forall>k \<in> fst ` set (sc_pending (fst (chaos_run ok_env [restart_at 0 1, restart_at 1 9] (map int [0 ..< 3]) ()))). int 3 \<le> k"
    by (rule chaos_recovers_on_time [OF ok_env_named chaos_run_reach]) (simp add: restart_at_def)
  then show ?thesis by (simp add: list_all_iff)
qed

text \<open>The soak loop steps its scheduler at 9, 19, 29 and so on only. At that cadence no event whose
  delay is not a multiple of ten is ever recovered.\<close>

definition soak_ticks :: "nat \<Rightarrow> int list" where
  "soak_ticks n = map (\<lambda>i. 10 * int i + 9) [0 ..< n]"

definition off_cadence :: "schedule_entry \<Rightarrow> bool" where
  "off_cadence e \<longleftrightarrow> 0 \<le> se_recover_after e \<and> se_recover_after e < 2 ^ 62 \<and> se_recover_after e mod 10 \<noteq> 0"

lemma cadence_never_recovers:
  assumes env: "errors_named env" and reach: "chaos_reach env es (soak_ticks n) c"
    and es: "\<forall>e \<in> set es. off_cadence e" and n: "int n < 2 ^ 55"
  shows "audits ''recover'' c = [] \<and> sc_recovered c = 0"
  using reach n
proof (induction n arbitrary: c)
  case 0
  then show ?case by (auto simp: soak_ticks_def NewChaosScheduler_def audits_def elim: chaos_reach.cases)
next
  case (Suc n)
  let ?t = "10 * int n + 9"
  have ticks: "soak_ticks (Suc n) = soak_ticks n @ [?t]" by (simp add: soak_ticks_def)
  from Suc.prems(1) obtain c0 s where c0: "chaos_reach env es (soak_ticks n) c0"
    and c: "c = fst (chaos_step env ?t (c0, s))" unfolding ticks by (auto elim: chaos_reach.cases)
  let ?cs = "(c0, s)"
  have sch: "sc_schedule (fst ?cs) = es" using chaos_reach_books [OF c0 env] by simp
  obtain c1 s1 where f: "fold (fire_entry env ?t) [0 ..< length (sc_schedule (fst ?cs))] ?cs = (c1, s1)"
    and "fst ` set (sc_pending (fst (chaos_step env ?t ?cs))) = fst ` set (sc_pending c1) - {?t}"
    and "sc_schedule (fst (chaos_step env ?t ?cs)) = sc_schedule (fst ?cs)"
    and calm: "?t \<notin> fst ` set (sc_pending c1) \<longrightarrow> chaos_step env ?t ?cs = (c1, s1)"
    by (rule chaos_step_keys [OF env, where step = ?t and cs = ?cs])
  have "waits_ok (soak_ticks n @ [?t]) (fst ?cs)"
    using chaos_reach_waits [OF c0 env] unfolding waits_ok_def by auto
  from fold_fire_waits [OF this, of ?t "[0 ..< length (sc_schedule (fst ?cs))]" env] f
  have waits: "waits_ok (soak_ticks n @ [?t]) c1" by (simp add: lessThan_atLeast0)
  have sch1: "sc_schedule c1 = es" using fold_fire_keeps_schedule f sch by (metis fst_conv)
  have "?t \<notin> fst ` set (sc_pending c1)"
  proof
    assume "?t \<in> fst ` set (sc_pending c1)"
    with waits have "?t \<in> (\<lambda>(t, e). wrap64 (t + se_recover_after e)) ` (set (soak_ticks n @ [?t]) \<times> set es)"
      unfolding waits_ok_def sch1 by (rule subsetD)
    then obtain t e where te: "t \<in> set (soak_ticks n @ [?t])" "e \<in> set es" "?t = wrap64 (t + se_recover_after e)"
      by (elim imageE SigmaE) (simp only: prod.case)
    from te(1) obtain i where i: "t = 10 * int i + 9" "i \<le> n" by (auto simp: soak_ticks_def)
    have "wrap64 (t + se_recover_after e) = t + se_recover_after e"
      using bspec [OF es te(2)] i Suc.prems by (intro wrap64_id) (auto simp: off_cadence_def)
    with te(3) i have "se_recover_after e = 10 * (int n - int i)" by simp
    then have "se_recover_after e mod 10 = 0" by simp
    with bspec [OF es te(2)] show False by (simp add: off_cadence_def)
  qed
  from mp [OF calm this] have step: "c = c1" by (simp add: c)
  have "books_ok c" using chaos_reach_books [OF Suc.prems(1) env] by blast
  moreover have "audits ''recover'' c1 = []"
    using fold_fire_recover_audits [of env ?t "[0 ..< length (sc_schedule (fst ?cs))]" ?cs] f Suc.IH [OF c0] Suc.prems by simp
  ultimately show ?case unfolding step by (simp add: books_ok_def)
qed

section \<open>Recurring entries and the parser\<close>

definition intn_ok :: "'r intn \<Rightarrow> bool" where
  "intn_ok intn \<longleftrightarrow> (\<forall>n r. 0 < n \<longrightarrow> (\<exists>i r'. intn n r = Some (i, r') \<and> 0 \<le> i \<and> i < n))"

lemma intn_okE:
  assumes "intn_ok intn" and "0 < n"
  obtains i r' where "intn n r = Some (i, r')" "0 \<le> i" "i < n"
  using assms unfolding intn_ok_def by blast

lemma obind_total: "m \<noteq> None \<Longrightarrow> (\<And>x. m = Some (Inr x) \<Longrightarrow> f x \<noteq> None) \<Longrightarrow> obind m f \<noteq> None"
  by (auto simp: obind_def split: option.splits sum.splits)

lemma obind_pair_total:
  "m \<noteq> None \<Longrightarrow> (\<And>x r. f x r \<noteq> None) \<Longrightarrow> obind m (\<lambda>(x, r). f x r) \<noteq> None"
  by (rule obind_total) (auto simp del: not_None_eq split: prod.splits)

lemma obind_Inr: "obind m f = Some (Inr y) \<longleftrightarrow> (\<exists>x. m = Some (Inr x) \<and> f x = Some (Inr y))"
  by (auto simp: obind_def split: option.splits sum.splits)

lemma resolve_one_total: "intn_ok intn \<Longrightarrow> resolve_one intn nodes p r \<noteq> None"
  unfolding resolve_one_def Let_def
  by (auto split: option.splits elim!: intn_okE [where n = "int (length (matchNodes p nodes))" and r = r])

lemma resolveWildcards_total: "intn_ok intn \<Longrightarrow> resolveWildcards intn nodes e r \<noteq> None"
  unfolding resolveWildcards_def
  by (intro obind_pair_total resolve_one_total) simp_all

lemma matchNodes_set: "n \<in> set (matchNodes p nodes) \<longleftrightarrow>
    p \<noteq> [] \<and> last p = CHR ''*'' \<and> n \<in> set nodes \<and> has_prefix n (butlast p)"
  by (auto simp: matchNodes_def)

lemma resolve_one_result:
  assumes "intn_ok intn" and "resolve_one intn nodes p r = Some (Inr (q, r'))"
  shows "if CHR ''*'' \<in> set p then q \<in> set (matchNodes p nodes) else q = p"
proof (cases "CHR ''*'' \<in> set p")
  case True
  with assms(2) have m: "matchNodes p nodes \<noteq> []" by (auto simp: resolve_one_def Let_def)
  obtain i r1 where "intn (int (length (matchNodes p nodes))) r = Some (i, r1)" "0 \<le> i" "i < int (length (matchNodes p nodes))"
    using assms(1) m by (auto elim!: intn_okE [where n = "int (length (matchNodes p nodes))" and r = r])
  with True assms(2) m show ?thesis by (auto simp: resolve_one_def Let_def)
next
  case False
  with assms(2) show ?thesis by (simp add: resolve_one_def)
qed

text \<open>Schedules of sensible size: no 64-bit arithmetic wraps.\<close>

definition recurring_small :: "recurring \<Rightarrow> bool" where
  "recurring_small spec \<longleftrightarrow> list_all (\<lambda>i. \<bar>i\<bar> < 2 ^ 30)
     [rc_every spec, rc_start spec, rc_count spec, rc_until spec, rc_jitter spec,
      re_delay_min (rc_inner spec), re_delay_max (rc_inner spec)]"

lemma jittered_total: "intn_ok intn \<Longrightarrow> recurring_small spec \<Longrightarrow> jittered intn spec step r \<noteq> None"
proof -
  assume ok: "intn_ok intn" and small: "recurring_small spec"
  then have "wrap64 (2 * rc_jitter spec + 1) = 2 * rc_jitter spec + 1"
    by (intro wrap64_id) (auto simp: recurring_small_def)
  with ok show ?thesis
    unfolding jittered_def Let_def by (auto split: option.splits elim!: intn_okE [where n = "2 * rc_jitter spec + 1" and r = r])
qed

lemma random_delay_total: "intn_ok intn \<Longrightarrow> recurring_small spec \<Longrightarrow> random_delay intn spec e r \<noteq> None"
proof -
  let ?n = "re_delay_max (rc_inner spec) - re_delay_min (rc_inner spec) + 1"
  assume ok: "intn_ok intn" and small: "recurring_small spec"
  then have "wrap64 ?n = ?n" by (intro wrap64_id) (auto simp: recurring_small_def)
  with ok show ?thesis
    unfolding random_delay_def Let_def by (auto split: option.splits elim!: intn_okE [where n = ?n and r = r])
qed

lemma expand_one_total: "intn_ok intn \<Longrightarrow> recurring_small spec \<Longrightarrow> expand_one intn nodes spec i r \<noteq> None"
  unfolding expand_one_def using resolveWildcards_total jittered_total random_delay_total
  by (intro obind_pair_total) simp_all

lemma expand_loop_total:
  assumes "intn_ok intn" and "recurring_small spec" and "\<exists>j \<le> i + fuel. i \<le> j \<and> expand_stops spec j \<and> j < i + fuel"
  shows "expand_loop intn nodes spec fuel i r \<noteq> None"
  using assms(3)
proof (induction fuel arbitrary: i r)
  case 0
  then show ?case by auto
next
  case (Suc fuel)
  then obtain j where j: "i \<le> j" "expand_stops spec j" "j < i + Suc fuel" by blast
  have "expand_loop intn nodes spec fuel (Suc i) r' \<noteq> None" if "\<not> expand_stops spec i" for r'
    by (rule Suc.IH) (use j that in \<open>intro exI [of _ j], auto simp: le_less_Suc_eq intro: Suc_leI le_neq_implies_less\<close>)
  then have "\<not> expand_stops spec i \<Longrightarrow>
      obind (expand_one intn nodes spec i r) (\<lambda>(e, r').
        obind (expand_loop intn nodes spec fuel (Suc i) r') (\<lambda>es. Some (Inr (e # es)))) \<noteq> None"
    by (intro obind_pair_total obind_total expand_one_total assms(1,2)) simp_all
  then show ?case by simp
qed

lemma expand_fuel_small: "recurring_small spec \<Longrightarrow> expand_fuel spec \<le> 2 ^ 31 + 2"
  by (auto simp: expand_fuel_def recurring_small_def)

lemma step_at_small:
  assumes small: "recurring_small spec" and every: "0 < rc_every spec" and i: "i < expand_fuel spec"
  shows "step_at spec i = rc_start spec + int i * rc_every spec" "\<bar>step_at spec i\<bar> < 2 ^ 62"
proof -
  have "int i \<le> 2 ^ 31 + 1" using expand_fuel_small [OF small] i by simp
  then have "int i * rc_every spec \<le> (2 ^ 31 + 1) * 2 ^ 30"
    using small every by (intro mult_mono) (auto simp: recurring_small_def)
  moreover have "0 \<le> int i * rc_every spec" using every by simp
  moreover have "\<bar>rc_start spec\<bar> < 2 ^ 30" using small by (auto simp: recurring_small_def)
  ultimately have *: "- (2 ^ 30) \<le> rc_start spec + int i * rc_every spec"
    "rc_start spec + int i * rc_every spec < 2 ^ 62" by auto
  then show eq: "step_at spec i = rc_start spec + int i * rc_every spec"
    unfolding step_at_def by (intro wrap64_id) auto
  show "\<bar>step_at spec i\<bar> < 2 ^ 62" unfolding eq using * by auto
qed

lemma expand_stops_in_time:
  assumes small: "recurring_small spec" and "0 < rc_every spec" and "0 < rc_count spec \<or> 0 < rc_until spec"
  shows "\<exists>j. j < expand_fuel spec \<and> expand_stops spec j"
proof (cases "0 < rc_count spec")
  case True
  then show ?thesis by (intro exI [of _ "nat (rc_count spec)"]) (simp add: expand_fuel_def expand_stops_def)
next
  case False
  let ?j = "nat (rc_until spec - rc_start spec) + 1"
  have j: "?j < expand_fuel spec" using False by (simp add: expand_fuel_def)
  have "rc_until spec - rc_start spec < int ?j" by simp
  also have "int ?j \<le> int ?j * rc_every spec"
    using assms(2) mult_left_mono [of 1 "rc_every spec" "int ?j"] by simp
  finally have "rc_until spec < step_at spec ?j" unfolding step_at_small(1) [OF small assms(2) j] by linarith
  with False assms(3) j show ?thesis unfolding expand_stops_def by (intro exI [of _ ?j]) simp
qed

lemma ExpandRecurring_total: "intn_ok intn \<Longrightarrow> recurring_small spec \<Longrightarrow> ExpandRecurring intn nodes spec r \<noteq> None"
  unfolding ExpandRecurring_def
  using expand_loop_total [of intn spec 0 "expand_fuel spec" nodes r] expand_stops_in_time [of spec]
  by (auto simp: not_le) (meson less_imp_le not_le)+

lemma jittered_result:
  assumes "intn_ok intn" and "jittered intn spec k r = Some (Inr (k', r'))"
    and small: "recurring_small spec" and k: "- (2 ^ 62) \<le> k" "k < 2 ^ 62"
  shows "if rc_jitter spec \<le> 0 then k' = k else 0 \<le> k' \<and> (k' = 0 \<or> \<bar>k' - k\<bar> \<le> rc_jitter spec)"
proof (cases "0 < rc_jitter spec")
  case True
  then obtain j r1 where j: "intn (2 * rc_jitter spec + 1) r = Some (j, r1)" "0 \<le> j" "j < 2 * rc_jitter spec + 1"
    by (auto intro: intn_okE [OF assms(1), where n = "2 * rc_jitter spec + 1" and r = r])
  moreover have "rc_jitter spec < 2 ^ 30" using small by (auto simp: recurring_small_def)
  moreover from this have "wrap64 (2 * rc_jitter spec + 1) = 2 * rc_jitter spec + 1"
    "wrap64 (k + (j - rc_jitter spec)) = k + (j - rc_jitter spec)"
    using True j k by (auto intro!: wrap64_id)
  ultimately show ?thesis using True assms(2) by (auto simp: jittered_def Let_def split: if_splits)
qed (use assms(2) in \<open>simp add: jittered_def\<close>)

lemma resolveWildcards_keeps:
  "resolveWildcards intn nodes e r = Some (Inr (e', r')) \<Longrightarrow>
     re_step e' = re_step e \<and> re_type e' = re_type e \<and> re_delay e' = re_delay e \<and> re_recover_after e' = re_recover_after e"
  by (auto simp: resolveWildcards_def obind_Inr)

lemma random_delay_keeps:
  "random_delay intn spec e r = Some (Inr (e', r')) \<Longrightarrow>
     re_step e' = re_step e \<and> re_type e' = re_type e \<and> re_recover_after e' = re_recover_after e"
  by (auto simp: random_delay_def Let_def split: if_splits option.splits)

lemma expand_one_result:
  assumes ok: "intn_ok intn" and small: "recurring_small spec" and every: "0 < rc_every spec"
    and i: "i < expand_fuel spec" and run: "expand_one intn nodes spec i r = Some (Inr (e, r'))"
  shows "re_type e = re_type (rc_inner spec) \<and> re_recover_after e = re_recover_after (rc_inner spec)
    \<and> (if rc_jitter spec \<le> 0 then re_step e = rc_start spec + int i * rc_every spec
       else 0 \<le> re_step e \<and> (re_step e = 0 \<or> \<bar>re_step e - (rc_start spec + int i * rc_every spec)\<bar> \<le> rc_jitter spec))"
proof -
  note at = step_at_small [OF small every i]
  from run obtain k r1 e1 r2 where
    j: "jittered intn spec (step_at spec i) r = Some (Inr (k, r1))"
    and w: "resolveWildcards intn nodes ((rc_inner spec)\<lparr>re_step := k\<rparr>) r1 = Some (Inr (e1, r2))"
    and d: "random_delay intn spec e1 r2 = Some (Inr (e, r'))"
    by (auto simp: expand_one_def obind_Inr ewrap_Inr_iff)
  from jittered_result [OF ok j small] at(2) have "if rc_jitter spec \<le> 0 then k = step_at spec i
      else 0 \<le> k \<and> (k = 0 \<or> \<bar>k - step_at spec i\<bar> \<le> rc_jitter spec)" by auto
  then have "if rc_jitter spec \<le> 0 then k = rc_start spec + int i * rc_every spec
      else 0 \<le> k \<and> (k = 0 \<or> \<bar>k - (rc_start spec + int i * rc_every spec)\<bar> \<le> rc_jitter spec)" unfolding at(1) .
  moreover have "re_step e = k" "re_type e = re_type (rc_inner spec)" "re_recover_after e = re_recover_after (rc_inner spec)"
    using resolveWildcards_keeps [OF w] random_delay_keeps [OF d] by simp_all
  ultimately show ?thesis by (simp only: simp_thms)
qed

lemma expand_loop_result:
  assumes ok: "intn_ok intn"
  shows "expand_loop intn nodes spec fuel i r = Some (Inr es) \<Longrightarrow>
    length es < fuel \<and> expand_stops spec (i + length es) \<and> (\<forall>j < length es. \<not> expand_stops spec (i + j)
      \<and> (\<exists>r0 r1. expand_one intn nodes spec (i + j) r0 = Some (Inr (es ! j, r1))))"
proof (induction fuel arbitrary: i r es)
  case (Suc fuel)
  show ?case
  proof (cases "expand_stops spec i")
    case True
    with Suc.prems show ?thesis by simp
  next
    case False
    with Suc.prems obtain e r' rest where
      e: "expand_one intn nodes spec i r = Some (Inr (e, r'))" and l: "expand_loop intn nodes spec fuel (Suc i) r' = Some (Inr rest)"
      and es: "es = e # rest" by (auto simp: obind_Inr)
    note IH = Suc.IH [OF l]
    have "\<not> expand_stops spec (i + j) \<and> (\<exists>r0 r1. expand_one intn nodes spec (i + j) r0 = Some (Inr (es ! j, r1)))"
      if "j < length es" for j
      using that IH e False unfolding es by (cases j) auto
    then show ?thesis using IH unfolding es by simp
  qed
qed simp

text \<open>Expanding a recurring entry of sensible size always ends; a result has exactly the rounds
  before the count or the last step is reached, in order, each within the jitter of its nominal step
  and with the type and the recovery delay of the inner event.\<close>

theorem recurring_expansion:
  assumes ok: "intn_ok intn" and small: "recurring_small spec"
  shows "\<exists>out. ExpandRecurring intn nodes spec r = Some out \<and> (case out of Inl err \<Rightarrow> True | Inr es \<Rightarrow>
    expand_stops spec (length es)
    \<and> (\<forall>i < length es. \<not> expand_stops spec i
        \<and> re_type (es ! i) = re_type (rc_inner spec) \<and> re_recover_after (es ! i) = re_recover_after (rc_inner spec)
        \<and> (if rc_jitter spec \<le> 0 then re_step (es ! i) = rc_start spec + int i * rc_every spec
           else 0 \<le> re_step (es ! i) \<and> (re_step (es ! i) = 0
             \<or> \<bar>re_step (es ! i) - (rc_start spec + int i * rc_every spec)\<bar> \<le> rc_jitter spec))))"
proof -
  obtain out where out: "ExpandRecurring intn nodes spec r = Some out"
    using ExpandRecurring_total [OF ok small] by blast
  show ?thesis
  proof (cases out)
    case (Inl err)
    with out show ?thesis by simp
  next
    case (Inr es)
    from out have run: "expand_loop intn nodes spec (expand_fuel spec) 0 r = Some (Inr es)" and every: "0 < rc_every spec"
      by (auto simp: ExpandRecurring_def Inr split: if_splits)
    from expand_loop_result [OF ok run] have len: "length es < expand_fuel spec" and stop: "expand_stops spec (length es)"
      and each: "\<forall>i < length es. \<not> expand_stops spec i \<and> (\<exists>r0 r1. expand_one intn nodes spec i r0 = Some (Inr (es ! i, r1)))"
      by simp_all
    have *: "\<forall>i < length es. \<not> expand_stops spec i
        \<and> re_type (es ! i) = re_type (rc_inner spec) \<and> re_recover_after (es ! i) = re_recover_after (rc_inner spec)
        \<and> (if rc_jitter spec \<le> 0 then re_step (es ! i) = rc_start spec + int i * rc_every spec
           else 0 \<le> re_step (es ! i) \<and> (re_step (es ! i) = 0
             \<or> \<bar>re_step (es ! i) - (rc_start spec + int i * rc_every spec)\<bar> \<le> rc_jitter spec))"
    proof (intro allI impI)
      fix i assume i: "i < length es"
      with each obtain r0 r1 where "expand_one intn nodes spec i r0 = Some (Inr (es ! i, r1))" and "\<not> expand_stops spec i"
        by blast
      moreover have "i < expand_fuel spec" using i len by simp
      ultimately show "\<not> expand_stops spec i
        \<and> re_type (es ! i) = re_type (rc_inner spec) \<and> re_recover_after (es ! i) = re_recover_after (rc_inner spec)
        \<and> (if rc_jitter spec \<le> 0 then re_step (es ! i) = rc_start spec + int i * rc_every spec
           else 0 \<le> re_step (es ! i) \<and> (re_step (es ! i) = 0
             \<or> \<bar>re_step (es ! i) - (rc_start spec + int i * rc_every spec)\<bar> \<le> rc_jitter spec))"
        using expand_one_result [OF ok small every] by blast
    qed
    show ?thesis unfolding out Inr by (intro exI [of _ "Inr es"] conjI) (simp, simp only: sum.case, intro conjI stop *)
  qed
qed

definition low_intn :: "unit intn" where
  "low_intn n r = (if 0 < n then Some (0, r) else None)"

lemma low_intn_ok: "intn_ok low_intn"
  by (simp add: intn_ok_def low_intn_def)

definition every_ten :: recurring where
  "every_ten = \<lparr>rc_every = 10, rc_start = 20, rc_count = 3, rc_until = 0, rc_jitter = 0,
     rc_inner = \<lparr>re_step = 0, re_recover_after = 5, re_type = ''restart'', re_container = ''go*'', re_from = [], re_to = [],
       re_iface = [], re_delay = 0, re_delay_min = 0, re_delay_max = 0, re_feature = [], re_target = []\<rparr>\<rparr>"

lemma every_ten_expands:
  "ExpandRecurring low_intn [''rp-0'', ''go-0''] every_ten () = Some (Inr (map (\<lambda>k. (rc_inner every_ten)\<lparr>re_step := k,
     re_container := ''go-0''\<rparr>) [20, 30, 40]))"
  by (code_simp)

theorem recurring_expansion_witness:
  "expand_stops every_ten (length [20 :: int, 30, 40])"
  using recurring_expansion [OF low_intn_ok, of every_ten "[''rp-0'', ''go-0'']" "()"]
  unfolding every_ten_expands by (simp only: sum.case option.inject ex_simps length_map) (simp add: recurring_small_def every_ten_def)

fun event_ready :: "chaos_event \<Rightarrow> bool" where
  "event_ready (RestartEvent c) \<longleftrightarrow> c \<noteq> []"
| "event_ready (LatencyEvent c iface ms) \<longleftrightarrow> c \<noteq> [] \<and> iface \<noteq> [] \<and> 0 < ms"
| "event_ready (PartitionEvent a b) \<longleftrightarrow> a \<noteq> [] \<and> b \<noteq> []"
| "event_ready (AmendmentFlipEvent target f) \<longleftrightarrow> f \<noteq> [] \<and> target \<noteq> []"

fun event_targets :: "chaos_event \<Rightarrow> string list" where
  "event_targets (RestartEvent c) = [c]"
| "event_targets (LatencyEvent c iface ms) = [c]"
| "event_targets (PartitionEvent a b) = [a, b]"
| "event_targets (AmendmentFlipEvent target f) = [target]"

lemma parse_event_ready: "parse_event i r = Inr ev \<Longrightarrow> event_ready ev
    \<and> set (event_targets ev) \<subseteq> {re_container r, re_from r, re_to r, re_target r}"
  by (auto simp: parse_event_def Let_def split: if_splits)

lemma resolved_targets:
  assumes ok: "intn_ok intn" and nodes: "\<forall>n \<in> set nodes. CHR ''*'' \<notin> set n"
    and run: "resolveWildcards intn nodes e r = Some (Inr (e', r'))"
  shows "\<forall>t \<in> {re_container e', re_from e', re_to e', re_target e'}. CHR ''*'' \<notin> set t"
proof -
  have free: "CHR ''*'' \<notin> set q" if "resolve_one intn nodes p s = Some (Inr (q, s'))" for p q s s'
    using resolve_one_result [OF ok that] nodes by (auto simp: matchNodes_set split: if_splits)
  from run obtain r1 r2 r3 where
    "resolve_one intn nodes (re_container e) r = Some (Inr (re_container e', r1))"
    "resolve_one intn nodes (re_from e) r1 = Some (Inr (re_from e', r2))"
    "resolve_one intn nodes (re_to e) r2 = Some (Inr (re_to e', r3))"
    "resolve_one intn nodes (re_target e) r3 = Some (Inr (re_target e', r'))"
    by (auto simp: resolveWildcards_def obind_Inr)
  then show ?thesis using free by blast
qed

lemma wrapped_total: "m \<noteq> None \<Longrightarrow> map_option (ewrap c) m \<noteq> None"
  by simp

lemma if_ok: "(b \<Longrightarrow> x \<noteq> None) \<Longrightarrow> (\<not> b \<Longrightarrow> y \<noteq> None) \<Longrightarrow> (if b then x else y) \<noteq> None"
  by simp

lemma option_ok: "x \<noteq> None \<Longrightarrow> (\<And>z. m = Some z \<Longrightarrow> f z \<noteq> None) \<Longrightarrow> (case m of None \<Rightarrow> x | Some z \<Rightarrow> f z) \<noteq> None"
  by (simp split: option.splits)

definition rows_small :: "raw_row list \<Rightarrow> bool" where
  "rows_small rows \<longleftrightarrow> list_all (\<lambda>row. case snd row of None \<Rightarrow> True | Some spec \<Rightarrow> recurring_small spec) rows"

lemma expand_rows_total: "intn_ok intn \<Longrightarrow> rows_small rows \<Longrightarrow> expand_rows intn source nodes seed i rows \<noteq> None"
proof (induction rows arbitrary: i)
  case (Cons row rows)
  obtain r rec where row: "row = (r, rec)" by fastforce
  have small: "rows_small rows" "\<And>spec. rec = Some spec \<Longrightarrow> recurring_small spec"
    using Cons.prems(2) by (simp_all add: rows_small_def row)
  show ?case unfolding row expand_rows.simps
    by (intro if_ok option_ok obind_total wrapped_total ExpandRecurring_total Cons.IH Cons.prems(1) small) simp_all
qed simp

lemma parse_entries_total: "intn_ok intn \<Longrightarrow> parse_entries intn source nodes seed i es \<noteq> None"
proof (induction es arbitrary: i)
  case (Cons r rs)
  show ?case unfolding parse_entries.simps
    by (intro obind_pair_total obind_total wrapped_total resolveWildcards_total Cons.IH Cons.prems) simp_all
qed simp

lemma parse_entries_result:
  assumes ok: "intn_ok intn" and nodes: "\<forall>n \<in> set nodes. CHR ''*'' \<notin> set n"
  shows "parse_entries intn source nodes seed i rs = Some (Inr es) \<Longrightarrow>
     map se_trigger es = map re_step rs \<and> map se_recover_after es = map re_recover_after rs
     \<and> (\<forall>e \<in> set es. event_ready (se_event e) \<and> (\<forall>t \<in> set (event_targets (se_event e)). CHR ''*'' \<notin> set t))"
proof (induction rs arbitrary: i es)
  case (Cons r rs)
  from Cons.prems obtain e r' ev rest where
    w: "resolveWildcards intn nodes r
          (source (Bit_Operations.xor (Bit_Operations.xor seed (of_nat (i + 1))) 0x5a5a5a5a)) = Some (Inr (e, r'))"
    and ev: "parse_event i e = Inr ev" and rest: "parse_entries intn source nodes seed (Suc i) rs = Some (Inr rest)"
    and es: "es = \<lparr>se_trigger = re_step e, se_event = ev, se_recover_after = re_recover_after e\<rparr> # rest"
    by (auto simp: obind_Inr ewrap_Inr_iff)
  have "\<forall>t \<in> set (event_targets ev). CHR ''*'' \<notin> set t"
    using resolved_targets [OF ok nodes w] parse_event_ready [OF ev] by blast
  then show ?case
    using Cons.IH [OF rest] parse_event_ready [OF ev] resolveWildcards_keeps [OF w] unfolding es by simp
qed simp

text \<open>The schedule parser neither panics nor runs forever, and what it accepts can be executed:
  every event has the fields its command line needs, and no container name is a wildcard any more.\<close>

theorem parsed_schedule_ready:
  assumes "intn_ok intn" and "\<forall>n \<in> set nodes. CHR ''*'' \<notin> set n"
    and small: "case decoded of Inl err \<Rightarrow> True | Inr rows \<Rightarrow> rows_small rows"
  shows "\<exists>out. ParseSchedule intn source raw decoded nodes seed = Some out
    \<and> (case out of Inl err \<Rightarrow> True
       | Inr es \<Rightarrow> list_all (\<lambda>e. event_ready (se_event e) \<and> list_all (\<lambda>t. CHR ''*'' \<notin> set t) (event_targets (se_event e))) es)"
proof -
  have "ParseSchedule intn source raw decoded nodes seed \<noteq> None"
    unfolding ParseSchedule_def
    by (cases "raw = []") (simp, simp only: if_False,
      intro obind_total expand_rows_total parse_entries_total assms(1), simp, use small in \<open>simp add: ewrap_Inr_iff\<close>)
  moreover have "list_all (\<lambda>e. event_ready (se_event e) \<and> list_all (\<lambda>t. CHR ''*'' \<notin> set t) (event_targets (se_event e))) es"
    if "ParseSchedule intn source raw decoded nodes seed = Some (Inr es)" for es
    using that parse_entries_result [OF assms(1,2)] unfolding ParseSchedule_def list_all_iff
    by (fastforce simp: obind_Inr split: if_splits)
  ultimately show ?thesis by (auto split: sum.splits)
qed

theorem parsed_schedule_ready_witness:
  "\<exists>out. ParseSchedule low_intn (\<lambda>_. ()) ''[]'' (Inr [((rc_inner every_ten)\<lparr>re_type := ''recurring''\<rparr>, Some every_ten)]) [''go-0''] 7
     = Some out"
  by (rule exE [OF parsed_schedule_ready [OF low_intn_ok, of "[''go-0'']"
      "Inr [((rc_inner every_ten)\<lparr>re_type := ''recurring''\<rparr>, Some every_ten)]" "\<lambda>_. ()" "''[]''" 7]])
    (simp, simp add: rows_small_def recurring_small_def every_ten_def, rule exI, erule conjunct1)

end
