(* ===== verification/Seq_Manager.thy ===== *)
theory Seq_Manager
  imports Generator
begin

text \<open>
  Client-side sequence numbers (\<open>sidecar/internal/fuzz/runners/seqsubmit.go\<close>): the manager that
  hands out account sequences to concurrent submitters.

  First the operations as the code has them, on the manager's state, with the node as a client whose
  calls pass a state of the world; then the workers as an interleaving of the accesses the code
  makes under its locks. The wallet library (\<open>from_seed\<close>) is a parameter.
\<close>

section \<open>The manager\<close>

text \<open>The interface \<open>seqClient\<close>; signing writes the fields it fills in into the caller's map.\<close>

record 's seq_client =
  sk_sign :: "string \<Rightarrow> fields \<Rightarrow> 's \<Rightarrow> string go_result \<times> fields \<times> 's"
  sk_submit :: "string \<Rightarrow> 's \<Rightarrow> submit_result go_result \<times> 's"
  sk_info :: "string \<Rightarrow> string \<Rightarrow> 's \<Rightarrow> account_info go_result \<times> 's"
  sk_current :: "'s \<Rightarrow> 32 word go_result \<times> 's"

text \<open>A missing key of the Go maps \<open>next\<close> and \<open>known\<close> reads as zero and false.\<close>

record seq_manager =
  sm_rr :: "64 word"
  sm_next :: "string \<Rightarrow> 32 word"
  sm_known :: "string \<Rightarrow> bool"
  sm_addrs :: "string \<rightharpoonup> string"
  sm_last :: "32 word"

definition newSeqManager :: seq_manager where
  "newSeqManager = \<lparr>sm_rr = 0, sm_next = (\<lambda>_. 0), sm_known = (\<lambda>_. False), sm_addrs = Map.empty, sm_last = 0\<rparr>"

text \<open>The list of submitters, with the canonical client for an empty one.\<close>

definition manager_submitters :: "'c \<Rightarrow> 'c list \<Rightarrow> 'c list" where
  "manager_submitters client submitters = (if submitters = [] then [client] else submitters)"

text \<open>Go's \<open>int(i) % n\<close> keeps the sign of \<open>int(i)\<close>; a negative index panics (\<open>None\<close>).\<close>

definition submitter :: "nat \<Rightarrow> seq_manager \<Rightarrow> (nat \<times> seq_manager) option" where
  "submitter n sm =
     (if n = 1 then Some (0, sm)
      else let i = sm_rr sm + 1; k = sint i in
        if k < 0 \<and> k mod int n \<noteq> 0 then None
        else Some (nat (k mod int n), sm\<lparr>sm_rr := i\<rparr>))"

definition refresh_update :: "'s seq_client \<Rightarrow> seq_manager \<Rightarrow> 's \<Rightarrow> seq_manager \<times> 's" where
  "refresh_update client sm s =
     (case sk_current client s of
        (Inr idx, s') \<Rightarrow> (if idx \<noteq> 0 then sm\<lparr>sm_last := idx\<rparr> else sm, s')
      | (Inl _, s') \<Rightarrow> (sm, s'))"

definition accountFor :: "(string \<Rightarrow> string go_result) \<Rightarrow> string \<Rightarrow> fields \<Rightarrow> seq_manager \<Rightarrow> string go_result \<times> seq_manager" where
  "accountFor from_seed secret fs sm =
     (case as_string (map_of fs ''Account'') of
        Some a \<Rightarrow> if a \<noteq> [] then (Inr a, sm) else
          (case sm_addrs sm secret of Some b \<Rightarrow> (Inr b, sm)
           | None \<Rightarrow> (case from_seed secret of Inl e \<Rightarrow> (Inl e, sm)
               | Inr b \<Rightarrow> (Inr b, sm\<lparr>sm_addrs := (sm_addrs sm)(secret \<mapsto> b)\<rparr>)))
      | None \<Rightarrow>
          (case sm_addrs sm secret of Some b \<Rightarrow> (Inr b, sm)
           | None \<Rightarrow> (case from_seed secret of Inl e \<Rightarrow> (Inl e, sm)
               | Inr b \<Rightarrow> (Inr b, sm\<lparr>sm_addrs := (sm_addrs sm)(secret \<mapsto> b)\<rparr>))))"

definition setNext :: "string \<Rightarrow> 32 word \<Rightarrow> seq_manager \<Rightarrow> seq_manager" where
  "setNext account q sm = sm\<lparr>sm_next := (sm_next sm)(account := q), sm_known := (sm_known sm)(account := True)\<rparr>"

definition invalidate :: "string \<Rightarrow> seq_manager \<Rightarrow> seq_manager" where
  "invalidate account sm = sm\<lparr>sm_known := (sm_known sm)(account := False)\<rparr>"

definition peek :: "'s seq_client \<Rightarrow> string \<Rightarrow> seq_manager \<Rightarrow> 's \<Rightarrow> 32 word go_result \<times> seq_manager \<times> 's" where
  "peek client account sm s =
     (if sm_known sm account then (Inr (sm_next sm account), sm, s)
      else case sk_info client account ''current'' s of
        (Inl e, s') \<Rightarrow> (Inl e, sm, s')
      | (Inr info, s') \<Rightarrow>
          (let q = word_of_int (ai_sequence info) in (Inr q, setNext account q sm, s')))"

definition consumesSequence :: "string \<Rightarrow> bool" where
  "consumesSequence er \<longleftrightarrow> er = ''tesSUCCESS'' \<or> er = ''terQUEUED'' \<or> has_prefix er ''tec''"

definition driftedSequence :: "string \<Rightarrow> bool" where
  "driftedSequence er \<longleftrightarrow> er = ''tefPAST_SEQ'' \<or> er = ''terPRE_SEQ''"

text \<open>The fields \<open>submitTx\<close> writes into the transaction.\<close>

definition fill_fields :: "string \<Rightarrow> 32 word \<Rightarrow> 32 word \<Rightarrow> fields \<Rightarrow> fields" where
  "fill_fields account q ll fs =
     (let f1 = fset ''Sequence'' (GInt (uint q)) (fset ''Account'' (GStr account) fs);
          f2 = (if map_of f1 ''Fee'' = None then fset ''Fee'' (GStr ''10'') f1 else f1)
      in if map_of f2 ''LastLedgerSequence'' = None \<and> ll \<noteq> 0
         then fset ''LastLedgerSequence'' (GInt (uint ll + 50)) f2 else f2)"

text \<open>What the answer to a submission of sequence \<open>q\<close> does to the counter.\<close>

definition settle :: "string \<Rightarrow> 32 word \<Rightarrow> submit_result go_result \<Rightarrow> seq_manager \<Rightarrow> seq_manager" where
  "settle account q r sm =
     (case r of
        Inl _ \<Rightarrow> invalidate account sm
      | Inr res \<Rightarrow>
          if consumesSequence (engine_result res) then setNext account (q + 1) sm
          else if driftedSequence (engine_result res) then invalidate account sm
          else sm)"

text \<open>\<open>submitTx\<close> under the account's lock: the answer, the transaction as changed, and the new states;
  \<open>None\<close> is the panic of the submitter's index.\<close>

definition submitTx :: "(string \<Rightarrow> string go_result) \<Rightarrow> 's seq_client \<Rightarrow> 's seq_client list \<Rightarrow> tx \<Rightarrow> seq_manager \<Rightarrow> 's
    \<Rightarrow> (submit_result go_result \<times> tx \<times> seq_manager \<times> 's) option" where
  "submitTx from_seed client submitters t sm s =
     (case accountFor from_seed (tx_secret t) (tx_fields t) sm of
        (Inl e, sm1) \<Rightarrow> Some (Inl e, t, sm1, s)
      | (Inr account, sm1) \<Rightarrow>
          (case peek client account sm1 s of
             (Inl e, sm2, s1) \<Rightarrow> Some (Inl e, t, sm2, s1)
           | (Inr q, sm2, s1) \<Rightarrow>
               (case sk_sign client (tx_secret t) (fill_fields account q (sm_last sm2) (tx_fields t)) s1 of
                  (Inl e, fs, s2) \<Rightarrow> Some (Inl e, t\<lparr>tx_fields := fs\<rparr>, invalidate account sm2, s2)
                | (Inr blob, fs, s2) \<Rightarrow>
                    (let subs = manager_submitters client submitters in
                     case submitter (length subs) sm2 of
                       None \<Rightarrow> None
                     | Some (i, sm3) \<Rightarrow>
                         (case sk_submit (subs ! i) blob s2 of
                            (r, s3) \<Rightarrow> Some (r, t\<lparr>tx_fields := fs\<rparr>, settle account q r sm3, s3))))))"

section \<open>The workers\<close>

text \<open>
  A worker takes a transaction, waits for the lock of its account, reads the counter or fetches it
  from the node, submits, updates the counter and leaves. Each step is one access the code makes
  under \<open>mu\<close>, or one call of the node; the node's answers are arbitrary.
\<close>

datatype worker =
    Idle
  | Wants string
  | Holds string
  | Fetched string "32 word"
  | Ready string "32 word"
  | Sent string "32 word" "submit_result go_result"
  | Leaving string

datatype sm_event =
    Fetch "32 word"
  | Submit "32 word" string
  | Lost

definition sent_event :: "32 word \<Rightarrow> submit_result go_result \<Rightarrow> sm_event" where
  "sent_event q r = (case r of Inl _ \<Rightarrow> Lost | Inr res \<Rightarrow> Submit q (engine_result res))"

text \<open>The state of all workers; \<open>cs_log\<close> is what happened to each account, oldest first.\<close>

record conc =
  cs_sm :: seq_manager
  cs_lock :: "string \<Rightarrow> nat option"
  cs_pc :: "nat \<Rightarrow> worker"
  cs_log :: "(string \<times> sm_event) list"

abbreviation goto :: "nat \<Rightarrow> worker \<Rightarrow> conc \<Rightarrow> conc" where
  "goto w p c \<equiv> c\<lparr>cs_pc := (cs_pc c)(w := p)\<rparr>"

inductive sm_step :: "(string \<Rightarrow> string go_result) \<Rightarrow> conc \<Rightarrow> conc \<Rightarrow> bool" for from_seed where
  take_tx: "cs_pc c w = Idle \<Longrightarrow> accountFor from_seed (tx_secret (t :: tx)) (tx_fields t) (cs_sm c) = (Inr a, sm) \<Longrightarrow>
     sm_step from_seed c (goto w (Wants a) (c\<lparr>cs_sm := sm\<rparr>))"
| lock: "cs_pc c w = Wants a \<Longrightarrow> cs_lock c a = None \<Longrightarrow>
     sm_step from_seed c (goto w (Holds a) (c\<lparr>cs_lock := (cs_lock c)(a := Some w)\<rparr>))"
| known: "cs_pc c w = Holds a \<Longrightarrow> sm_known (cs_sm c) a \<Longrightarrow>
     sm_step from_seed c (goto w (Ready a (sm_next (cs_sm c) a)) c)"
| fetch: "cs_pc c w = Holds a \<Longrightarrow> \<not> sm_known (cs_sm c) a \<Longrightarrow>
     sm_step from_seed c (goto w (Fetched a q) (c\<lparr>cs_log := cs_log c @ [(a, Fetch q)]\<rparr>))"
| fetch_failed: "cs_pc c w = Holds a \<Longrightarrow> \<not> sm_known (cs_sm c) a \<Longrightarrow>
     sm_step from_seed c (goto w (Leaving a) c)"
| remember: "cs_pc c w = Fetched a q \<Longrightarrow>
     sm_step from_seed c (goto w (Ready a q) (c\<lparr>cs_sm := setNext a q (cs_sm c)\<rparr>))"
| send: "cs_pc c w = Ready a q \<Longrightarrow>
     sm_step from_seed c (goto w (Sent a q r) (c\<lparr>cs_sm := (cs_sm c)\<lparr>sm_rr := rr\<rparr>, cs_log := cs_log c @ [(a, sent_event q r)]\<rparr>))"
| update: "cs_pc c w = Sent a q r \<Longrightarrow>
     sm_step from_seed c (goto w (Leaving a) (c\<lparr>cs_sm := settle a q r (cs_sm c)\<rparr>))"
| unlock: "cs_pc c w = Leaving a \<Longrightarrow>
     sm_step from_seed c (goto w Idle (c\<lparr>cs_lock := (cs_lock c)(a := None)\<rparr>))"
| refresh: "sm_step from_seed c (c\<lparr>cs_sm := (cs_sm c)\<lparr>sm_last := ll\<rparr>\<rparr>)"

definition sm_start :: conc where
  "sm_start = \<lparr>cs_sm = newSeqManager, cs_lock = (\<lambda>_. None), cs_pc = (\<lambda>_. Idle), cs_log = []\<rparr>"

abbreviation sm_reach :: "(string \<Rightarrow> string go_result) \<Rightarrow> conc \<Rightarrow> bool" where
  "sm_reach from_seed c \<equiv> (sm_step from_seed)\<^sup>*\<^sup>* sm_start c"

inductive_cases sm_stepE: "sm_step from_seed c c'"

section \<open>The counter each account should see\<close>

text \<open>The sequential specification of one account: after a fetch the fetched sequence comes next, a
  consuming answer moves to its successor, drift and loss ask for a new fetch, any other answer
  keeps the sequence.\<close>

datatype view = Unknown | Upcoming "32 word"

fun view_step :: "sm_event \<Rightarrow> view option \<Rightarrow> view option" where
  "view_step (Fetch q) (Some Unknown) = Some (Upcoming q)"
| "view_step (Submit q er) (Some (Upcoming p)) =
     (if q \<noteq> p then None
      else if consumesSequence er then Some (Upcoming (p + 1))
      else if driftedSequence er then Some Unknown
      else Some (Upcoming p))"
| "view_step Lost (Some (Upcoming p)) = Some Unknown"
| "view_step _ _ = None"

definition view_of :: "sm_event list \<Rightarrow> view option" where
  "view_of es = fold view_step es (Some Unknown)"

definition account_log :: "string \<Rightarrow> (string \<times> sm_event) list \<Rightarrow> sm_event list" where
  "account_log a l = map snd (filter (\<lambda>p. fst p = a) l)"

lemma account_log_append: "account_log a (l @ [(b, e)]) = account_log a l @ (if a = b then [e] else [])"
  by (simp add: account_log_def)

lemma view_of_append [simp]: "view_of (es @ [e]) = view_step e (view_of es)"
  by (simp add: view_of_def)

text \<open>What the manager remembers of an account, and what it must be at each place of the worker that
  holds its lock.\<close>

definition remembered :: "seq_manager \<Rightarrow> string \<Rightarrow> view" where
  "remembered sm a = (if sm_known sm a then Upcoming (sm_next sm a) else Unknown)"

fun place :: "worker \<Rightarrow> string option" where
  "place Idle = None"
| "place (Wants a) = None"
| "place (Holds a) = Some a"
| "place (Fetched a q) = Some a"
| "place (Ready a q) = Some a"
| "place (Sent a q r) = Some a"
| "place (Leaving a) = Some a"

fun at_place :: "worker \<Rightarrow> seq_manager \<Rightarrow> view option \<Rightarrow> bool" where
  "at_place (Fetched a q) sm v \<longleftrightarrow> v = Some (Upcoming q)"
| "at_place (Ready a q) sm v \<longleftrightarrow> v = Some (Upcoming q) \<and> remembered sm a = Upcoming q"
| "at_place (Sent a q r) sm v \<longleftrightarrow> remembered sm a = Upcoming q \<and> v = view_step (sent_event q r) (Some (Upcoming q))"
| "at_place (Holds a) sm v \<longleftrightarrow> v = Some (remembered sm a)"
| "at_place (Leaving a) sm v \<longleftrightarrow> v = Some (remembered sm a)"
| "at_place _ sm v \<longleftrightarrow> True"

definition sm_inv :: "conc \<Rightarrow> bool" where
  "sm_inv c \<longleftrightarrow>
     (\<forall>w a. (place (cs_pc c w) = Some a) = (cs_lock c a = Some w))
   \<and> (\<forall>a. cs_lock c a = None \<longrightarrow> view_of (account_log a (cs_log c)) = Some (remembered (cs_sm c) a))
   \<and> (\<forall>w a. place (cs_pc c w) = Some a \<longrightarrow> at_place (cs_pc c w) (cs_sm c) (view_of (account_log a (cs_log c))))"

section \<open>The invariant of the workers\<close>

lemma remembered_setNext [simp]: "remembered (setNext a q sm) b = (if a = b then Upcoming q else remembered sm b)"
  by (simp add: remembered_def setNext_def)

lemma remembered_invalidate [simp]: "remembered (invalidate a sm) b = (if a = b then Unknown else remembered sm b)"
  by (simp add: remembered_def invalidate_def)

lemma remembered_other [simp]:
  "remembered (sm\<lparr>sm_rr := rr\<rparr>) a = remembered sm a" "remembered (sm\<lparr>sm_last := ll\<rparr>) a = remembered sm a"
  by (simp_all add: remembered_def)

lemma remembered_accountFor: "accountFor from_seed secret fs sm = (r, sm') \<Longrightarrow> remembered sm' = remembered sm"
  by (auto simp: accountFor_def remembered_def fun_eq_iff split: option.splits if_splits sum.splits)

lemma remembered_settle_other: "a \<noteq> b \<Longrightarrow> remembered (settle a q r sm) b = remembered sm b"
  by (simp add: settle_def split: sum.split)

lemma settle_follows_view:
  "remembered sm a = Upcoming q \<Longrightarrow> view_step (sent_event q r) (Some (Upcoming q)) = Some (remembered (settle a q r sm) a)"
  by (auto simp: settle_def sent_event_def split: sum.split)

lemma at_place_cong: "remembered sm' = remembered sm \<Longrightarrow> at_place p sm' v = at_place p sm v"
  by (cases p) simp_all

lemma at_place_other: "place p = Some b \<Longrightarrow> remembered sm' b = remembered sm b \<Longrightarrow> at_place p sm' v = at_place p sm v"
  by (cases p) simp_all

lemma sm_inv_start: "sm_inv sm_start"
  by (simp add: sm_inv_def sm_start_def account_log_def view_of_def remembered_def newSeqManager_def)

text \<open>A worker that holds the lock of \<open>a\<close> moves on without leaving it.\<close>

lemma sm_inv_lock_iff: "sm_inv c \<Longrightarrow> (place (cs_pc c w) = Some a) = (cs_lock c a = Some w)"
  by (simp add: sm_inv_def)

lemma sm_inv_free: "sm_inv c \<Longrightarrow> cs_lock c a = None \<Longrightarrow> view_of (account_log a (cs_log c)) = Some (remembered (cs_sm c) a)"
  by (simp add: sm_inv_def)

lemma sm_inv_held:
  "sm_inv c \<Longrightarrow> place (cs_pc c w) = Some a \<Longrightarrow> at_place (cs_pc c w) (cs_sm c) (view_of (account_log a (cs_log c)))"
  by (simp add: sm_inv_def)

lemma sm_invI:
  assumes "\<And>w a. (place (cs_pc c w) = Some a) = (cs_lock c a = Some w)"
    and "\<And>a. cs_lock c a = None \<Longrightarrow> view_of (account_log a (cs_log c)) = Some (remembered (cs_sm c) a)"
    and "\<And>w a. place (cs_pc c w) = Some a \<Longrightarrow> at_place (cs_pc c w) (cs_sm c) (view_of (account_log a (cs_log c)))"
  shows "sm_inv c"
  using assms by (simp add: sm_inv_def)

lemma sm_inv_move:
  assumes inv: "sm_inv c" and held: "place (cs_pc c w) = Some a" "place p = Some a"
    and sm: "\<And>b. b \<noteq> a \<Longrightarrow> remembered sm b = remembered (cs_sm c) b"
    and log: "\<And>b. b \<noteq> a \<Longrightarrow> account_log b l = account_log b (cs_log c)"
    and there: "at_place p sm (view_of (account_log a l))"
  shows "sm_inv (goto w p (c\<lparr>cs_sm := sm, cs_log := l\<rparr>))"
proof (rule sm_invI)
  have lock: "cs_lock c a = Some w" using sm_inv_lock_iff [OF inv] held(1) by blast
  {
    fix w' b
    show "(place (cs_pc (goto w p (c\<lparr>cs_sm := sm, cs_log := l\<rparr>)) w') = Some b) =
        (cs_lock (goto w p (c\<lparr>cs_sm := sm, cs_log := l\<rparr>)) b = Some w')"
      using held sm_inv_lock_iff [OF inv, of w' b] by (cases "w' = w") simp_all
  next
    fix b assume free: "cs_lock (goto w p (c\<lparr>cs_sm := sm, cs_log := l\<rparr>)) b = None"
    with lock have "b \<noteq> a" by auto
    with free show "view_of (account_log b (cs_log (goto w p (c\<lparr>cs_sm := sm, cs_log := l\<rparr>)))) =
        Some (remembered (cs_sm (goto w p (c\<lparr>cs_sm := sm, cs_log := l\<rparr>))) b)"
      using sm_inv_free [OF inv, of b] sm log by simp
  next
    fix w' b assume at: "place (cs_pc (goto w p (c\<lparr>cs_sm := sm, cs_log := l\<rparr>)) w') = Some b"
    show "at_place (cs_pc (goto w p (c\<lparr>cs_sm := sm, cs_log := l\<rparr>)) w') (cs_sm (goto w p (c\<lparr>cs_sm := sm, cs_log := l\<rparr>)))
        (view_of (account_log b (cs_log (goto w p (c\<lparr>cs_sm := sm, cs_log := l\<rparr>)))))"
    proof (cases "w' = w")
      case True
      with at held there show ?thesis by simp
    next
      case False
      with at have b: "place (cs_pc c w') = Some b" by simp
      with False lock sm_inv_lock_iff [OF inv, of w' b] have "b \<noteq> a" by auto
      then have "at_place (cs_pc c w') sm (view_of (account_log b l))"
        using at_place_other [OF b sm] sm_inv_held [OF inv b] log by simp
      with False show ?thesis by simp
    qed
  }
qed

text \<open>Leaving and taking the lock.\<close>

lemma sm_inv_unlock:
  assumes inv: "sm_inv c" and pc: "cs_pc c w = Leaving a"
  shows "sm_inv (goto w Idle (c\<lparr>cs_lock := (cs_lock c)(a := None)\<rparr>))"
proof (rule sm_invI)
  have held: "place (cs_pc c w) = Some a" by (simp add: pc)
  note iff = sm_inv_lock_iff [OF inv]
  have lock: "cs_lock c a = Some w" using iff held by blast
  {
    fix w' b
    show "(place (cs_pc (goto w Idle (c\<lparr>cs_lock := (cs_lock c)(a := None)\<rparr>)) w') = Some b) =
        (cs_lock (goto w Idle (c\<lparr>cs_lock := (cs_lock c)(a := None)\<rparr>)) b = Some w')"
    proof (cases "w' = w")
      case True
      then show ?thesis using held iff [of w b] by auto
    next
      case False
      then show ?thesis using lock iff [of w' b] by auto
    qed
  next
    fix b assume "cs_lock (goto w Idle (c\<lparr>cs_lock := (cs_lock c)(a := None)\<rparr>)) b = None"
    then show "view_of (account_log b (cs_log (goto w Idle (c\<lparr>cs_lock := (cs_lock c)(a := None)\<rparr>)))) =
        Some (remembered (cs_sm (goto w Idle (c\<lparr>cs_lock := (cs_lock c)(a := None)\<rparr>))) b)"
      using sm_inv_held [OF inv held] sm_inv_free [OF inv, of b] by (cases "b = a") (simp_all add: pc)
  next
    fix w' b assume "place (cs_pc (goto w Idle (c\<lparr>cs_lock := (cs_lock c)(a := None)\<rparr>)) w') = Some b"
    then show "at_place (cs_pc (goto w Idle (c\<lparr>cs_lock := (cs_lock c)(a := None)\<rparr>)) w')
        (cs_sm (goto w Idle (c\<lparr>cs_lock := (cs_lock c)(a := None)\<rparr>)))
        (view_of (account_log b (cs_log (goto w Idle (c\<lparr>cs_lock := (cs_lock c)(a := None)\<rparr>)))))"
      using sm_inv_held [OF inv, of w' b] by (cases "w' = w") simp_all
  }
qed

lemma sm_inv_lock:
  assumes inv: "sm_inv c" and pc: "cs_pc c w = Wants a" and free: "cs_lock c a = None"
  shows "sm_inv (goto w (Holds a) (c\<lparr>cs_lock := (cs_lock c)(a := Some w)\<rparr>))"
proof (rule sm_invI)
  note iff = sm_inv_lock_iff [OF inv]
  {
    fix w' b
    show "(place (cs_pc (goto w (Holds a) (c\<lparr>cs_lock := (cs_lock c)(a := Some w)\<rparr>)) w') = Some b) =
        (cs_lock (goto w (Holds a) (c\<lparr>cs_lock := (cs_lock c)(a := Some w)\<rparr>)) b = Some w')"
      using free iff [of w' b] iff [of w b] by (cases "w' = w"; cases "b = a") (simp_all add: pc)
  next
    fix b assume "cs_lock (goto w (Holds a) (c\<lparr>cs_lock := (cs_lock c)(a := Some w)\<rparr>)) b = None"
    then show "view_of (account_log b (cs_log (goto w (Holds a) (c\<lparr>cs_lock := (cs_lock c)(a := Some w)\<rparr>)))) =
        Some (remembered (cs_sm (goto w (Holds a) (c\<lparr>cs_lock := (cs_lock c)(a := Some w)\<rparr>))) b)"
      using sm_inv_free [OF inv, of b] by (cases "b = a") simp_all
  next
    fix w' b assume "place (cs_pc (goto w (Holds a) (c\<lparr>cs_lock := (cs_lock c)(a := Some w)\<rparr>)) w') = Some b"
    then show "at_place (cs_pc (goto w (Holds a) (c\<lparr>cs_lock := (cs_lock c)(a := Some w)\<rparr>)) w')
        (cs_sm (goto w (Holds a) (c\<lparr>cs_lock := (cs_lock c)(a := Some w)\<rparr>)))
        (view_of (account_log b (cs_log (goto w (Holds a) (c\<lparr>cs_lock := (cs_lock c)(a := Some w)\<rparr>)))))"
      using sm_inv_held [OF inv, of w' b] sm_inv_free [OF inv free] by (cases "w' = w") auto
  }
qed

text \<open>Steps outside every lock.\<close>

lemma sm_inv_outside:
  assumes inv: "sm_inv c" and pc: "place (cs_pc c w) = None" "place p = None" and sm: "remembered sm = remembered (cs_sm c)"
  shows "sm_inv (goto w p (c\<lparr>cs_sm := sm\<rparr>))"
proof (rule sm_invI)
  fix w' b
  show "(place (cs_pc (goto w p (c\<lparr>cs_sm := sm\<rparr>)) w') = Some b) = (cs_lock (goto w p (c\<lparr>cs_sm := sm\<rparr>)) b = Some w')"
    using pc sm_inv_lock_iff [OF inv, of w' b] by (cases "w' = w") simp_all
next
  fix b assume "cs_lock (goto w p (c\<lparr>cs_sm := sm\<rparr>)) b = None"
  then show "view_of (account_log b (cs_log (goto w p (c\<lparr>cs_sm := sm\<rparr>)))) =
      Some (remembered (cs_sm (goto w p (c\<lparr>cs_sm := sm\<rparr>))) b)"
    using sm_inv_free [OF inv, of b] by (simp add: sm)
next
  fix w' b assume "place (cs_pc (goto w p (c\<lparr>cs_sm := sm\<rparr>)) w') = Some b"
  then show "at_place (cs_pc (goto w p (c\<lparr>cs_sm := sm\<rparr>)) w') (cs_sm (goto w p (c\<lparr>cs_sm := sm\<rparr>)))
      (view_of (account_log b (cs_log (goto w p (c\<lparr>cs_sm := sm\<rparr>)))))"
    using pc sm_inv_held [OF inv, of w' b] at_place_cong [OF sm] by (cases "w' = w") simp_all
qed

lemma sm_step_inv: "sm_step from_seed c c' \<Longrightarrow> sm_inv c \<Longrightarrow> sm_inv c'"
proof (induction rule: sm_step.induct)
  case (take_tx c w t a sm)
  then show ?case by (intro sm_inv_outside) (simp_all add: remembered_accountFor)
next
  case (lock c w a)
  then show ?case by (intro sm_inv_lock)
next
  case (known c w a)
  then have "place (cs_pc c w) = Some a" by simp
  note here = this sm_inv_held [OF known.prems this]
  have "sm_inv (goto w (Ready a (sm_next (cs_sm c) a)) (c\<lparr>cs_sm := cs_sm c, cs_log := cs_log c\<rparr>))"
    by (rule sm_inv_move [OF known.prems here(1)]) (use known here in \<open>simp_all add: remembered_def\<close>)
  then show ?case by simp
next
  case (fetch c w a q)
  then have "place (cs_pc c w) = Some a" by simp
  note here = this sm_inv_held [OF fetch.prems this]
  have "sm_inv (goto w (Fetched a q) (c\<lparr>cs_sm := cs_sm c, cs_log := cs_log c @ [(a, Fetch q)]\<rparr>))"
    by (rule sm_inv_move [OF fetch.prems here(1)]) (use fetch here in \<open>simp_all add: remembered_def account_log_append\<close>)
  then show ?case by simp
next
  case (fetch_failed c w a)
  then have "place (cs_pc c w) = Some a" by simp
  note here = this sm_inv_held [OF fetch_failed.prems this]
  have "sm_inv (goto w (Leaving a) (c\<lparr>cs_sm := cs_sm c, cs_log := cs_log c\<rparr>))"
    by (rule sm_inv_move [OF fetch_failed.prems here(1)]) (use fetch_failed here in simp_all)
  then show ?case by simp
next
  case (remember c w a q)
  then have "place (cs_pc c w) = Some a" by simp
  note here = this sm_inv_held [OF remember.prems this]
  have "sm_inv (goto w (Ready a q) (c\<lparr>cs_sm := setNext a q (cs_sm c), cs_log := cs_log c\<rparr>))"
    by (rule sm_inv_move [OF remember.prems here(1)]) (use remember here in simp_all)
  then show ?case by simp
next
  case (send c w a q r rr)
  then have "place (cs_pc c w) = Some a" by simp
  note here = this sm_inv_held [OF send.prems this]
  show ?case by (rule sm_inv_move [OF send.prems here(1)]) (use send here in \<open>simp_all add: account_log_append\<close>)
next
  case (update c w a q r)
  then have "place (cs_pc c w) = Some a" by simp
  note here = this sm_inv_held [OF update.prems this]
  have "sm_inv (goto w (Leaving a) (c\<lparr>cs_sm := settle a q r (cs_sm c), cs_log := cs_log c\<rparr>))"
    by (rule sm_inv_move [OF update.prems here(1)]) (use update here in \<open>simp_all add: settle_follows_view remembered_settle_other\<close>)
  then show ?case by simp
next
  case (unlock c w a)
  then show ?case by (intro sm_inv_unlock)
next
  case (refresh c ll)
  then show ?case using at_place_cong [of "(cs_sm c)\<lparr>sm_last := ll\<rparr>" "cs_sm c"] by (simp add: sm_inv_def fun_eq_iff)
qed

lemma sm_reach_inv: "sm_reach from_seed c \<Longrightarrow> sm_inv c"
  by (induction rule: rtranclp_induct) (use sm_inv_start sm_step_inv in blast)+

end
