(* ===== verification/Runner_Properties.thy ===== *)
theory Runner_Properties
  imports Seq_Manager
begin

text \<open>
  What the submitters promise: every account sees its sequence numbers in order and without gaps,
  however the workers interleave; workers never share an account and never block each other for
  ever; and one worker alone does what the sequential code does.
\<close>

section \<open>Sequence numbers in order\<close>

fun is_fetch :: "sm_event \<Rightarrow> bool" where
  "is_fetch (Fetch q) \<longleftrightarrow> True"
| "is_fetch _ \<longleftrightarrow> False"

fun consumed :: "sm_event list \<Rightarrow> 32 word list" where
  "consumed [] = []"
| "consumed (Submit q er # es) = (if consumesSequence er then q # consumed es else consumed es)"
| "consumed (_ # es) = consumed es"

lemma consumed_append [simp]: "consumed (xs @ ys) = consumed xs @ consumed ys"
  by (induction xs rule: consumed.induct) simp_all

lemma view_None [simp]: "fold view_step es None = None"
  by (induction es) (simp_all split: sm_event.splits)

lemma view_prefix: "view_of (xs @ ys) \<noteq> None \<Longrightarrow> view_of xs \<noteq> None"
  by (cases "view_of xs") (simp_all add: view_of_def)

lemma after_fetch:
  assumes "view_of (pre @ Fetch q # mid) \<noteq> None" and "\<not> list_ex is_fetch mid"
  shows "consumed mid = map (\<lambda>i. q + of_nat i) [0 ..< length (consumed mid)]
    \<and> view_of (pre @ Fetch q # mid) \<in> {Some Unknown, Some (Upcoming (q + of_nat (length (consumed mid))))}"
  using assms
proof (induction mid rule: rev_induct)
  case Nil
  then have "view_step (Fetch q) (view_of pre) \<noteq> None" by simp
  then obtain v where v: "view_of pre = Some v" "view_step (Fetch q) (Some v) \<noteq> None"
    by (cases "view_of pre") simp_all
  then show ?case by (cases v) simp_all
next
  case (snoc e mid)
  let ?es = "pre @ Fetch q # mid" and ?n = "length (consumed mid)"
  have eq: "pre @ Fetch q # mid @ [e] = ?es @ [e]" by simp
  have ok: "view_of ?es \<noteq> None" using snoc.prems(1) view_prefix [of ?es "[e]"] unfolding eq by blast
  from snoc.IH [OF ok] snoc.prems(2) have IH: "consumed mid = map (\<lambda>i. q + of_nat i) [0 ..< ?n]"
    "view_of ?es = Some Unknown \<or> view_of ?es = Some (Upcoming (q + of_nat ?n))" by auto
  have step: "view_step e (view_of ?es) \<noteq> None" using snoc.prems(1) unfolding eq view_of_append .
  have e: "\<not> is_fetch e" using snoc.prems(2) by simp
  have up: "view_of ?es = Some (Upcoming (q + of_nat ?n))" using IH(2) step e by (cases e) auto
  show ?case
  proof (cases e)
    case (Submit p er)
    with step up have "p = q + of_nat ?n" by (auto split: if_splits)
    with Submit IH(1) up show ?thesis unfolding eq view_of_append
      by (auto simp: add.assoc add.commute)
  next
    case Lost
    have "view_of (?es @ [Lost]) = Some Unknown" unfolding view_of_append up by simp
    with Lost IH(1) show ?thesis unfolding eq by simp
  qed (use e in simp)
qed


text \<open>A worker that fetches sequence 7 and gets two successes uses 7 and 8.\<close>

definition ok_result :: submit_result where
  "ok_result = \<lparr>engine_result = ''tesSUCCESS'', engine_code = 0, engine_msg = [], tx_hash = [], tx_seq = 0, sr_status = ''success''\<rparr>"

definition one_tx :: tx where
  "one_tx = \<lparr>tx_fields = [(''Account'', GStr ''rA'')], tx_secret = ''s''\<rparr>"

lemma two_steps: "R x y \<Longrightarrow> R y z \<Longrightarrow> R\<^sup>*\<^sup>* x z"
  by (meson converse_rtranclp_into_rtranclp r_into_rtranclp)

lemma three_steps: "R x y \<Longrightarrow> R y z \<Longrightarrow> R z u \<Longrightarrow> R\<^sup>*\<^sup>* x u"
  by (meson converse_rtranclp_into_rtranclp r_into_rtranclp)

definition walk :: "conc list" where
  "walk = [sm_start,
     goto 0 (Wants ''rA'') sm_start,
     goto 0 (Holds ''rA'') (sm_start\<lparr>cs_lock := (\<lambda>_. None)(''rA'' := Some 0)\<rparr>),
     goto 0 (Fetched ''rA'' 7) (sm_start\<lparr>cs_lock := (\<lambda>_. None)(''rA'' := Some 0), cs_log := [(''rA'', Fetch 7)]\<rparr>),
     goto 0 (Ready ''rA'' 7) (sm_start\<lparr>cs_lock := (\<lambda>_. None)(''rA'' := Some 0), cs_log := [(''rA'', Fetch 7)],
       cs_sm := setNext ''rA'' 7 newSeqManager\<rparr>),
     goto 0 (Sent ''rA'' 7 (Inr ok_result)) (sm_start\<lparr>cs_lock := (\<lambda>_. None)(''rA'' := Some 0),
       cs_log := [(''rA'', Fetch 7), (''rA'', Submit 7 ''tesSUCCESS'')], cs_sm := setNext ''rA'' 7 newSeqManager\<rparr>)]"

lemma walk_steps: "i < 5 \<Longrightarrow> sm_step (\<lambda>_. Inl []) (walk ! i) (walk ! Suc i)"
proof -
  note s = sm_start_def newSeqManager_def walk_def
  have 0: "sm_step (\<lambda>_. Inl []) (walk ! 0) (walk ! 1)"
    using sm_step.take_tx [of sm_start 0 "\<lambda>_. Inl []" one_tx "''rA''" newSeqManager]
    by (simp add: s one_tx_def accountFor_def)
  have 1: "sm_step (\<lambda>_. Inl []) (walk ! 1) (walk ! 2)"
    using sm_step.lock [of "walk ! 1" 0 "''rA''" "\<lambda>_. Inl []"] by (simp add: s)
  have 2: "sm_step (\<lambda>_. Inl []) (walk ! 2) (walk ! 3)"
    using sm_step.fetch [of "walk ! 2" 0 "''rA''" "\<lambda>_. Inl []" 7] by (simp add: s numeral_nat)
  have 3: "sm_step (\<lambda>_. Inl []) (walk ! 3) (walk ! 4)"
    using sm_step.remember [of "walk ! 3" 0 "''rA''" 7 "\<lambda>_. Inl []"] by (simp add: s numeral_nat)
  have 4: "sm_step (\<lambda>_. Inl []) (walk ! 4) (walk ! 5)"
    using sm_step.send [of "walk ! 4" 0 "''rA''" 7 "\<lambda>_. Inl []" "Inr ok_result" 0]
    by (simp add: s numeral_nat sent_event_def ok_result_def setNext_def)
  assume "i < 5"
  then consider "i = 0" | "i = 1" | "i = 2" | "i = 3" | "i = 4" by linarith
  then show ?thesis using 0 1 2 3 4 by cases (simp_all add: numeral_nat)
qed

lemma walk_reach: "i \<le> 5 \<Longrightarrow> sm_reach (\<lambda>_. Inl []) (walk ! i)"
proof (induction i)
  case 0
  then show ?case by (simp add: walk_def)
next
  case (Suc i)
  then show ?case using walk_steps [of i] by (simp add: rtranclp.rtrancl_into_rtrancl)
qed


text \<open>One worker alone, from an idle state: the steps of \<open>submitTx\<close>.\<close>

definition alone :: "nat \<Rightarrow> conc \<Rightarrow> bool" where
  "alone w c \<longleftrightarrow> cs_pc c w = Idle \<and> (\<forall>a. cs_lock c a = None)"

lemma peek_steps:
  assumes pc: "cs_pc c w = Holds a" and run: "peek client a (cs_sm c) s = (Inr q, sm, s')"
  shows "\<exists>l. (sm_step from_seed)\<^sup>*\<^sup>* c (goto w (Ready a q) (c\<lparr>cs_sm := sm, cs_log := l\<rparr>))"
proof (cases "sm_known (cs_sm c) a")
  case True
  with run have q: "q = sm_next (cs_sm c) a" "sm = cs_sm c" by (auto simp: peek_def)
  have "sm_step from_seed c (goto w (Ready a q) (c\<lparr>cs_sm := sm, cs_log := cs_log c\<rparr>))"
    using sm_step.known [of c w a from_seed] pc True q by simp
  then show ?thesis by blast
next
  case False
  with run have sm: "sm = setNext a q (cs_sm c)" by (auto simp: peek_def Let_def split: prod.splits sum.splits)
  let ?c1 = "goto w (Fetched a q) (c\<lparr>cs_log := cs_log c @ [(a, Fetch q)]\<rparr>)"
  let ?c2 = "goto w (Ready a q) (?c1\<lparr>cs_sm := setNext a q (cs_sm ?c1)\<rparr>)"
  have one: "sm_step from_seed c ?c1" using False pc by (intro sm_step.fetch)
  have two: "sm_step from_seed ?c1 ?c2" by (rule sm_step.remember) simp
  have "?c2 = goto w (Ready a q) (c\<lparr>cs_sm := sm, cs_log := cs_log c @ [(a, Fetch q)]\<rparr>)" by (simp add: sm)
  with two_steps [of "sm_step from_seed", OF one two] show ?thesis by (intro exI [of _ "cs_log c @ [(a, Fetch q)]"]) (simp only:)
qed

text \<open>From a place where the counter is read, whatever comes back, to idle again.\<close>

lemma send_steps:
  assumes pc: "cs_pc c w = Ready a q" and lock: "cs_lock c = (\<lambda>_. None)(a := Some w)"
  shows "\<exists>c'. (sm_step from_seed)\<^sup>*\<^sup>* c c' \<and> alone w c' \<and> cs_sm c' = settle a q r ((cs_sm c)\<lparr>sm_rr := rr\<rparr>)"
proof -
  let ?c1 = "goto w (Sent a q r) (c\<lparr>cs_sm := (cs_sm c)\<lparr>sm_rr := rr\<rparr>, cs_log := cs_log c @ [(a, sent_event q r)]\<rparr>)"
  let ?c2 = "goto w (Leaving a) (?c1\<lparr>cs_sm := settle a q r (cs_sm ?c1)\<rparr>)"
  let ?c3 = "goto w Idle (?c2\<lparr>cs_lock := (cs_lock ?c2)(a := None)\<rparr>)"
  have 1: "sm_step from_seed c ?c1" using pc by (rule sm_step.send)
  have 2: "sm_step from_seed ?c1 ?c2" by (rule sm_step.update) simp
  have 3: "sm_step from_seed ?c2 ?c3" by (rule sm_step.unlock) simp
  note three_steps [of "sm_step from_seed", OF 1 2 3]
  moreover have "alone w ?c3" "cs_sm ?c3 = settle a q r ((cs_sm c)\<lparr>sm_rr := rr\<rparr>)" by (simp_all add: alone_def lock)
  ultimately show ?thesis by blast
qed

lemma accountFor_error: "accountFor from_seed secret fs sm = (Inl e, sm') \<Longrightarrow> sm' = sm"
  by (auto simp: accountFor_def split: option.splits if_splits sum.splits)

lemma peek_error: "peek client a sm s = (Inl e, sm', s') \<Longrightarrow> sm' = sm \<and> \<not> sm_known sm a"
  by (auto simp: peek_def Let_def split: if_splits prod.splits sum.splits)

lemma submitter_sm: "submitter n sm = Some (i, sm') \<Longrightarrow> \<exists>rr. sm' = sm\<lparr>sm_rr := rr\<rparr>"
  by (auto simp: submitter_def Let_def split: if_splits intro: exI [of _ "sm_rr sm"])

lemma submitTx_settles:
  assumes run: "submitTx from_seed client submitters t sm s = Some (r, t', sm', s')"
    and "accountFor from_seed (tx_secret t) (tx_fields t) sm = (Inr a, sm1)"
    and "peek client a sm1 s = (Inr q, sm2, s1)"
  shows "\<exists>x rr. sm' = settle a q x (sm2\<lparr>sm_rr := rr\<rparr>)"
proof -
  obtain rb fs s2 where sign: "sk_sign client (tx_secret t) (fill_fields a q (sm_last sm2) (tx_fields t)) s1 = (rb, fs, s2)"
    by (cases "sk_sign client (tx_secret t) (fill_fields a q (sm_last sm2) (tx_fields t)) s1")
  show ?thesis
  proof (cases rb)
    case (Inl e)
    with assms sign have "sm' = settle a q (Inl e) (sm2\<lparr>sm_rr := sm_rr sm2\<rparr>)" by (auto simp: submitTx_def settle_def)
    then show ?thesis by blast
  next
    case (Inr blob)
    with assms sign obtain i sm3 where "submitter (length (manager_submitters client submitters)) sm2 = Some (i, sm3)"
      and "sm' = settle a q (fst (sk_submit (manager_submitters client submitters ! i) blob s2)) sm3"
      by (auto simp: submitTx_def Let_def split: option.splits prod.splits)
    with submitter_sm show ?thesis by blast
  qed
qed

text \<open>What the sequential code of \<open>submitTx\<close> does to the manager is what the steps of one
  worker do, so the interleaving is one of the code's own operations.\<close>

theorem submitTx_is_a_run:
  assumes run: "submitTx from_seed client submitters t (cs_sm c) s = Some (r, t', sm', s')" and "alone w c"
  shows "\<exists>c'. (sm_step from_seed)\<^sup>*\<^sup>* c c' \<and> alone w c' \<and> cs_sm c' = sm'"
proof (cases "accountFor from_seed (tx_secret t) (tx_fields t) (cs_sm c)")
  case (Pair ra sm1)
  show ?thesis
  proof (cases ra)
    case (Inl e)
    with run Pair accountFor_error [of from_seed "tx_secret t" "tx_fields t"] have "sm' = cs_sm c" by (auto simp: submitTx_def)
    with assms(2) show ?thesis by blast
  next
    case (Inr a)
    have pc: "cs_pc c w = Idle" and free: "cs_lock c = (\<lambda>_. None)" using assms(2) by (auto simp: alone_def)
    let ?c1 = "goto w (Wants a) (c\<lparr>cs_sm := sm1\<rparr>)"
    let ?c2 = "goto w (Holds a) (?c1\<lparr>cs_lock := (cs_lock ?c1)(a := Some w)\<rparr>)"
    have 1: "sm_step from_seed c ?c1" using Pair Inr by (intro sm_step.take_tx [OF pc]) simp
    have 2: "sm_step from_seed ?c1 ?c2" by (rule sm_step.lock) (simp_all add: free)
    note to2 = two_steps [of "sm_step from_seed", OF 1 2]
    obtain rq sm2 s1 where p: "peek client a sm1 s = (rq, sm2, s1)" by (cases "peek client a sm1 s")
    show ?thesis
    proof (cases rq)
      case (Inl e)
      let ?c3 = "goto w (Leaving a) ?c2"
      let ?c4 = "goto w Idle (?c3\<lparr>cs_lock := (cs_lock ?c3)(a := None)\<rparr>)"
      have "sm' = sm1" "\<not> sm_known sm1 a" using run Pair Inr p Inl peek_error [of client a sm1 s e sm2 s1] by (auto simp: submitTx_def)
      then have 3: "sm_step from_seed ?c2 ?c3" by (intro sm_step.fetch_failed) simp_all
      have 4: "sm_step from_seed ?c3 ?c4" by (rule sm_step.unlock) simp
      note rtranclp_trans [OF to2 two_steps [of "sm_step from_seed", OF 3 4]]
      moreover have "alone w ?c4" "cs_sm ?c4 = sm'" using \<open>sm' = sm1\<close> free by (simp_all add: alone_def)
      ultimately show ?thesis by (intro exI [of _ ?c4]) (simp only: simp_thms)
    next
      case Inr': (Inr q)
      have "cs_pc ?c2 w = Holds a" "peek client a (cs_sm ?c2) s = (Inr q, sm2, s1)" using p Inr' by simp_all
      from peek_steps [OF this] obtain l where
        to3: "(sm_step from_seed)\<^sup>*\<^sup>* ?c2 (goto w (Ready a q) (?c2\<lparr>cs_sm := sm2, cs_log := l\<rparr>))" by blast
      let ?c3 = "goto w (Ready a q) (?c2\<lparr>cs_sm := sm2, cs_log := l\<rparr>)"
      from submitTx_settles [OF run Pair [unfolded Inr] p [unfolded Inr']] obtain x rr where x: "sm' = settle a q x (sm2\<lparr>sm_rr := rr\<rparr>)" by blast
      have "cs_pc ?c3 w = Ready a q" "cs_lock ?c3 = (\<lambda>_. None)(a := Some w)" "cs_sm ?c3 = sm2" by (simp_all add: free)
      from send_steps [OF this(1,2), of from_seed x rr] this(3) x obtain c' where
        to4: "(sm_step from_seed)\<^sup>*\<^sup>* ?c3 c'" and "alone w c'" "cs_sm c' = sm'" by auto
      with rtranclp_trans [OF rtranclp_trans [OF to2 to3] to4] show ?thesis by blast
    qed
  qed
qed

definition ok_client :: "unit seq_client" where
  "ok_client = \<lparr>sk_sign = (\<lambda>_ fs s. (Inr ''blob'', fs, s)), sk_submit = (\<lambda>_ s. (Inr ok_result, s)),
     sk_info = (\<lambda>a _ s. (Inr \<lparr>ai_account = a, ai_balance = ''1'', ai_sequence = 7\<rparr>, s)), sk_current = (\<lambda>s. (Inr 5, s))\<rparr>"

theorem submitTx_is_a_run_witness:
  "\<exists>c'. (sm_step (\<lambda>_. Inl []))\<^sup>*\<^sup>* sm_start c' \<and> alone 0 c' \<and> remembered (cs_sm c') ''rA'' = Upcoming 8"
proof -
  obtain r t' sm' s' where run: "submitTx (\<lambda>_. Inl []) ok_client [] one_tx newSeqManager () = Some (r, t', sm', s')"
    and "remembered sm' ''rA'' = Upcoming 8"
    by (simp add: submitTx_def ok_client_def one_tx_def accountFor_def peek_def newSeqManager_def setNext_def Let_def
      submitter_def manager_submitters_def settle_def consumesSequence_def ok_result_def remembered_def)
  moreover have "alone 0 sm_start" "cs_sm sm_start = newSeqManager" by (simp_all add: alone_def sm_start_def)
  ultimately show ?thesis using submitTx_is_a_run [of _ ok_client "[]" one_tx sm_start "()" r t' sm' s' 0] by force
qed

section \<open>Mutual exclusion and progress\<close>

lemma holder_moves:
  assumes "place (cs_pc c w) = Some a"
  shows "\<exists>c'. sm_step from_seed c c' \<and> cs_pc c' w \<noteq> cs_pc c w"
proof (cases "cs_pc c w")
  case (Holds b)
  then show ?thesis
    by (intro exI [of _ "if sm_known (cs_sm c) b then goto w (Ready b (sm_next (cs_sm c) b)) c else goto w (Leaving b) c"])
      (simp add: sm_step.known sm_step.fetch_failed)
next
  case (Fetched b q)
  then show ?thesis by (intro exI conjI, rule sm_step.remember) simp_all
next
  case (Ready b q)
  then show ?thesis by (intro exI conjI, rule sm_step.send [where r = "Inl []"]) simp_all
next
  case (Sent b q r)
  then show ?thesis by (intro exI conjI, rule sm_step.update) simp_all
next
  case (Leaving b)
  then show ?thesis by (intro exI conjI, rule sm_step.unlock) simp_all
qed (use assms in simp_all)

text \<open>C27: Two workers are never inside the same account, and no worker waits for ever because of the
  others: when one is busy, it or the one whose lock it wants can move on.\<close>

theorem workers_exclude_and_progress:
  assumes "sm_reach from_seed c"
  shows "(place (cs_pc c w) = Some a \<and> place (cs_pc c w') = Some a \<longrightarrow> w = w')
    \<and> (cs_pc c w \<noteq> Idle \<longrightarrow> (\<exists>v c'. sm_step from_seed c c' \<and> cs_pc c' v \<noteq> cs_pc c v
         \<and> (v = w \<or> cs_pc c w \<in> Wants ` {b. place (cs_pc c v) = Some b})))"
proof -
  note inv = sm_reach_inv [OF assms] and iff = sm_inv_lock_iff [OF sm_reach_inv [OF assms]]
  have "w = w'" if "place (cs_pc c w) = Some a" "place (cs_pc c w') = Some a"
    using that iff [of w a] iff [of w' a] by simp
  moreover have "\<exists>v c'. sm_step from_seed c c' \<and> cs_pc c' v \<noteq> cs_pc c v
      \<and> (v = w \<or> cs_pc c w \<in> Wants ` {b. place (cs_pc c v) = Some b})" if busy: "cs_pc c w \<noteq> Idle"
  proof (cases "place (cs_pc c w)")
    case (Some b)
    with holder_moves show ?thesis by blast
  next
    case None
    with busy obtain b where wants: "cs_pc c w = Wants b" by (cases "cs_pc c w") simp_all
    show ?thesis
    proof (cases "cs_lock c b")
      case None
      have "sm_step from_seed c (goto w (Holds b) (c\<lparr>cs_lock := (cs_lock c)(b := Some w)\<rparr>))"
        using wants None by (rule sm_step.lock)
      moreover have "cs_pc (goto w (Holds b) (c\<lparr>cs_lock := (cs_lock c)(b := Some w)\<rparr>)) w \<noteq> cs_pc c w" by (simp add: wants)
      ultimately show ?thesis by blast
    next
      case (Some v)
      then have v: "place (cs_pc c v) = Some b" using iff by blast
      from holder_moves [OF v] obtain c' where "sm_step from_seed c c'" "cs_pc c' v \<noteq> cs_pc c v" by blast
      with v wants show ?thesis by blast
    qed
  qed
  ultimately show ?thesis by blast
qed

theorem workers_exclude_and_progress_witness:
  "place (cs_pc (walk ! 5) 0) = Some ''rA'' \<and> (\<exists>v c'. sm_step (\<lambda>_. Inl []) (walk ! 5) c' \<and> cs_pc c' v \<noteq> cs_pc (walk ! 5) v)"
proof -
  have "cs_pc (walk ! 5) 0 = Sent ''rA'' 7 (Inr ok_result)" by (simp add: walk_def numeral_nat)
  with workers_exclude_and_progress [OF walk_reach [of 5], of 0 "''rA''" 0] show ?thesis by auto
qed

end
