(* ===== verification/Runlog.thy ===== *)
theory Runlog
  imports Corpus
begin

text \<open>
  The run log (\<open>sidecar/internal/fuzz/corpus/runlog.go\<close>): one JSON row per submission, appended to
  a file of the disk and read back line by line. Encoding and decoding of a row are parameters;
  splitting into lines and its limit are the scanner's of the Go library.
\<close>

section \<open>Writing\<close>

record run_log_entry =
  le_step :: int
  le_type :: string
  le_fields :: fields
  le_secret :: string
  le_result :: string
  le_hash :: string

text \<open>The verb \<open>%x\<close> of an unsigned number.\<close>

fun hex_nat :: "nat \<Rightarrow> string" where
  "hex_nat n = (if n < 16 then to_lower [digit_char n] else hex_nat (n div 16) @ to_lower [digit_char (n mod 16)])"

declare hex_nat.simps [simp del]

definition run_log_path :: "string \<Rightarrow> 64 word \<Rightarrow> string" where
  "run_log_path base seed = path_join [path_join [base, ''runs''], hex_nat (unat seed) @ ''.ndjson'']"

definition NewRunLog :: "(string \<Rightarrow> bool) \<Rightarrow> string \<Rightarrow> 64 word \<Rightarrow> disk \<Rightarrow> string go_result \<times> disk" where
  "NewRunLog refuses base seed d =
     (let dir = path_join [base, ''runs'']; path = run_log_path base seed
      in if refuses dir then (Inl (''mkdir '' @ dir @ '': refused''), d)
         else case disk_write refuses path [] d of
           (Inl e, d') \<Rightarrow> (Inl (''create '' @ path @ '': '' @ e), d')
         | (Inr _, d') \<Rightarrow> (Inr path, d'))"

definition newline :: char where
  "newline = CHR 0x0A"

definition log_content :: "string \<Rightarrow> disk \<Rightarrow> string" where
  "log_content path d = (case map_of d path of None \<Rightarrow> [] | Some content \<Rightarrow> content)"

definition log_Append :: "(run_log_entry \<Rightarrow> string go_result) \<Rightarrow> (string \<Rightarrow> bool) \<Rightarrow> string \<Rightarrow> run_log_entry
    \<Rightarrow> disk \<Rightarrow> unit go_result \<times> disk" where
  "log_Append marshal refuses path e d =
     (case marshal e of
        Inl err \<Rightarrow> (Inl (''marshal run-log entry: '' @ err), d)
      | Inr line \<Rightarrow> disk_write refuses path (log_content path d @ line @ [newline]) d)"

section \<open>Reading\<close>

text \<open>The text between newlines; a last line without one counts when it is not empty.\<close>

fun split_nl :: "string \<Rightarrow> string \<Rightarrow> string list" where
  "split_nl acc [] = (if acc = [] then [] else [rev acc])"
| "split_nl acc (c # cs) = (if c = newline then rev acc # split_nl [] cs else split_nl (c # acc) cs)"

definition drop_cr :: "string \<Rightarrow> string" where
  "drop_cr l = (if l \<noteq> [] \<and> last l = CHR 0x0D then butlast l else l)"

definition maxLine :: nat where
  "maxLine = 4194304"

fun read_rows :: "(string \<Rightarrow> run_log_entry go_result) \<Rightarrow> string list \<Rightarrow> run_log_entry list go_result" where
  "read_rows unmarshal [] = Inr []"
| "read_rows unmarshal (l # ls) =
     (if maxLine \<le> length l then Inl ''bufio.Scanner: token too long''
      else if drop_cr l = [] then read_rows unmarshal ls
      else ebind (ewrap ''parse line: '' (unmarshal (drop_cr l))) (\<lambda>e.
           ebind (read_rows unmarshal ls) (\<lambda>es. Inr (e # es))))"

definition ReadRunLog :: "(string \<Rightarrow> run_log_entry go_result) \<Rightarrow> (string \<Rightarrow> bool) \<Rightarrow> string \<Rightarrow> disk
    \<Rightarrow> run_log_entry list go_result" where
  "ReadRunLog unmarshal refuses path d = ebind (disk_read refuses path d) (\<lambda>content. read_rows unmarshal (split_nl [] content))"

section \<open>What is read is what was written\<close>

text \<open>What the JSON encoder promises of a row: one line of sensible length that decodes to the
  entry's JSON form \<open>json_form\<close>.\<close>

definition row_codec :: "(run_log_entry \<Rightarrow> string go_result) \<Rightarrow> (string \<Rightarrow> run_log_entry go_result)
    \<Rightarrow> (run_log_entry \<Rightarrow> run_log_entry) \<Rightarrow> run_log_entry \<Rightarrow> bool" where
  "row_codec marshal unmarshal json_form e \<longleftrightarrow> (\<exists>line. marshal e = Inr line \<and> line \<noteq> [] \<and> newline \<notin> set line
     \<and> last line \<noteq> CHR 0x0D \<and> length line < maxLine \<and> unmarshal line = Inr (json_form e))"

fun log_all :: "(run_log_entry \<Rightarrow> string go_result) \<Rightarrow> (string \<Rightarrow> bool) \<Rightarrow> string \<Rightarrow> run_log_entry list \<Rightarrow> disk \<Rightarrow> disk" where
  "log_all marshal refuses path [] d = d"
| "log_all marshal refuses path (e # es) d = log_all marshal refuses path es (snd (log_Append marshal refuses path e d))"

lemma split_nl_line: "newline \<notin> set line \<Longrightarrow> split_nl acc (line @ newline # rest) = (rev acc @ line) # split_nl [] rest"
  by (induction line arbitrary: acc) auto

lemma split_nl_lines:
  "\<forall>l \<in> set lines. newline \<notin> set l \<Longrightarrow> split_nl [] (concat (map (\<lambda>l. l @ [newline]) lines)) = lines"
  by (induction lines) (simp_all add: split_nl_line)

lemma log_content_Append:
  assumes "marshal e = Inr line" and "\<not> refuses path"
  shows "map_of (snd (log_Append marshal refuses path e d)) path = Some (log_content path d @ line @ [newline])"
  using assms by (simp add: log_Append_def disk_write_def update_conv')

lemma log_all_content:
  assumes "\<forall>e \<in> set es. marshal e = Inr (line e)" and "\<not> refuses path" and "map_of d path = Some content"
  shows "map_of (log_all marshal refuses path es d) path = Some (content @ concat (map (\<lambda>e. line e @ [newline]) es))"
  using assms(1,3)
proof (induction es arbitrary: d content)
  case (Cons e es)
  have "map_of (snd (log_Append marshal refuses path e d)) path = Some (content @ line e @ [newline])"
    using log_content_Append [of marshal e "line e" refuses path d] Cons.prems assms(2) by (simp add: log_content_def)
  from Cons.IH [OF _ this] Cons.prems(1) show ?case by simp
qed simp

lemma read_rows_lines:
  "\<forall>e \<in> set es. line e \<noteq> [] \<and> last (line e) \<noteq> CHR 0x0D \<and> length (line e) < maxLine \<and> unmarshal (line e) = Inr (json_form e) \<Longrightarrow>
     read_rows unmarshal (map line es) = Inr (map json_form es)"
  by (induction es) (simp_all add: drop_cr_def ebind_def ewrap_def not_le [symmetric])

lemma read_logged:
  assumes "\<forall>e \<in> set es. row_codec marshal unmarshal json_form e" and "\<not> refuses path" and "map_of d path = Some []"
  shows "ReadRunLog unmarshal refuses path (log_all marshal refuses path es d) = Inr (map json_form es)"
proof -
  let ?line = "\<lambda>e. projr (marshal e)"
  have rows: "\<forall>e \<in> set es. marshal e = Inr (?line e)"
    and good: "\<forall>e \<in> set es. ?line e \<noteq> [] \<and> last (?line e) \<noteq> CHR 0x0D \<and> length (?line e) < maxLine \<and> unmarshal (?line e) = Inr (json_form e)"
    and nl: "\<forall>l \<in> set (map ?line es). newline \<notin> set l"
    using assms(1) by (auto simp: row_codec_def)
  have "concat (map (\<lambda>e. ?line e @ [newline]) es) = concat (map (\<lambda>l. l @ [newline]) (map ?line es))" by (simp add: comp_def)
  then have "map_of (log_all marshal refuses path es d) path = Some (concat (map (\<lambda>l. l @ [newline]) (map ?line es)))"
    using log_all_content [where line = ?line and es = es and marshal = marshal and refuses = refuses and path = path, OF rows assms(2,3)] by simp
  then show ?thesis using split_nl_lines [OF nl] read_rows_lines [OF good] assms(2)
    by (simp add: ReadRunLog_def disk_read_def ebind_def)
qed

end
