(* ===== verification/Crash.thy ===== *)
theory Crash
  imports Go_Base
begin

text \<open>
  Process failures and alerts: the crash markers (\<open>sidecar/internal/fuzz/crash/markers.go\<close>), the
  crash poller and the hang detector (\<open>crash/poller.go\<close>) and the webhook
  (\<open>sidecar/internal/fuzz/alert/webhook.go\<close>).

  The container runtime is a record of its operations on a state of the world, and the poller's
  callback a function on that state. Posting to the webhook is the list of the texts posted.
\<close>

section \<open>Crash markers\<close>

record classification =
  cl_kind :: string
  cl_marker :: nat

definition markers :: "(string \<times> string list) list" where
  "markers = [(''go_panic'', [''panic:'', ''fatal error:'']),
     (''rippled_fatal'', [''FATAL:'', ''ASSERT'', ''assertion failed'']),
     (''sigsegv'', [''SIGSEGV'', ''signal SIGSEGV'', ''segmentation violation'']),
     (''sigabrt'', [''SIGABRT'', ''signal SIGABRT'', ''Aborted (core dumped)''])]"

definition line_kind :: "string \<Rightarrow> string option" where
  "line_kind line = map_option fst (find (\<lambda>m. list_ex (contains line) (snd m)) markers)"

fun classify_from :: "nat \<Rightarrow> string list \<Rightarrow> classification" where
  "classify_from i [] = \<lparr>cl_kind = [], cl_marker = 0\<rparr>"
| "classify_from i (line # lines) =
     (case line_kind line of Some k \<Rightarrow> \<lparr>cl_kind = k, cl_marker = i\<rparr> | None \<Rightarrow> classify_from (Suc i) lines)"

definition Classify :: "string list \<Rightarrow> classification" where
  "Classify excerpt = classify_from 0 excerpt"

section \<open>The crash poller\<close>

record 's container_rt =
  cr_list :: "string \<Rightarrow> string \<Rightarrow> 's \<Rightarrow> string list go_result \<times> 's"
  cr_inspect :: "string \<Rightarrow> 's \<Rightarrow> (bool \<times> int) go_result \<times> 's"
  cr_tail :: "string \<Rightarrow> int \<Rightarrow> 's \<Rightarrow> string list go_result \<times> 's"
  cr_signal :: "string \<Rightarrow> string \<Rightarrow> 's \<Rightarrow> unit go_result \<times> 's"

record crash_event =
  ce_container :: string
  ce_exit :: int
  ce_kind :: string
  ce_marker :: nat
  ce_tail :: "string list"

record poller =
  po_key :: string
  po_val :: string
  po_tail :: int
  po_seen :: "string \<rightharpoonup> int"

definition NewPoller :: "string \<Rightarrow> string \<Rightarrow> int \<Rightarrow> poller" where
  "NewPoller key val tail = \<lparr>po_key = key, po_val = val, po_tail = tail, po_seen = Map.empty\<rparr>"

definition crash_report :: "'s container_rt \<Rightarrow> (crash_event \<Rightarrow> 's \<Rightarrow> 's) \<Rightarrow> string \<Rightarrow> int \<Rightarrow> poller \<Rightarrow> 's \<Rightarrow> 's" where
  "crash_report rt on_crash name code p s =
     (case cr_tail rt name (po_tail p) s of (tailed, s') \<Rightarrow>
       (let lines = (case tailed of Inr ls \<Rightarrow> ls | Inl _ \<Rightarrow> []); c = Classify lines
        in on_crash \<lparr>ce_container = name, ce_exit = code, ce_kind = cl_kind c, ce_marker = cl_marker c, ce_tail = lines\<rparr> s'))"

definition poll_one :: "'s container_rt \<Rightarrow> (crash_event \<Rightarrow> 's \<Rightarrow> 's) \<Rightarrow> string \<Rightarrow> poller \<times> 's \<Rightarrow> poller \<times> 's" where
  "poll_one rt on_crash name ps = (case ps of (p, s) \<Rightarrow>
     (case cr_inspect rt name s of
        (Inl _, s1) \<Rightarrow> (p, s1)
      | (Inr (running, code), s1) \<Rightarrow>
          if running \<or> code = 0 then (p, s1)
          else if po_seen p name = Some code then (p, s1)
          else (let p' = p\<lparr>po_seen := (po_seen p)(name \<mapsto> code)\<rparr>
                in (p', crash_report rt on_crash name code p' s1))))"

definition poller_Tick :: "'s container_rt \<Rightarrow> (crash_event \<Rightarrow> 's \<Rightarrow> 's) \<Rightarrow> poller \<times> 's \<Rightarrow> unit go_result \<times> poller \<times> 's" where
  "poller_Tick rt on_crash ps =
     (case cr_list rt (po_key (fst ps)) (po_val (fst ps)) (snd ps) of
        (Inl e, s') \<Rightarrow> (Inl (''list: '' @ e), fst ps, s')
      | (Inr names, s') \<Rightarrow> (Inr (), fold (poll_one rt on_crash) names (fst ps, s')))"

section \<open>The hang detector\<close>

record hang_detector =
  hd_stale_ticks :: int
  hd_last :: "string \<Rightarrow> int"
  hd_stale :: "string \<Rightarrow> int"
  hd_fired :: "string \<Rightarrow> bool"
  hd_seen :: "string \<Rightarrow> bool"

definition NewHangDetector :: "int \<Rightarrow> hang_detector" where
  "NewHangDetector n = \<lparr>hd_stale_ticks = n, hd_last = (\<lambda>_. 0), hd_stale = (\<lambda>_. 0), hd_fired = (\<lambda>_. False), hd_seen = (\<lambda>_. False)\<rparr>"

definition hang_note :: "string \<Rightarrow> int \<Rightarrow> hang_detector \<Rightarrow> hang_detector" where
  "hang_note name v h =
     (if \<not> hd_seen h name then
        h\<lparr>hd_seen := (hd_seen h)(name := True), hd_last := (hd_last h)(name := v), hd_stale := (hd_stale h)(name := 1)\<rparr>
      else if v = hd_last h name then h\<lparr>hd_stale := (hd_stale h)(name := hd_stale h name + 1)\<rparr>
      else h\<lparr>hd_last := (hd_last h)(name := v), hd_stale := (hd_stale h)(name := 1)\<rparr>)"

definition hang_Step :: "(string \<Rightarrow> bool) \<Rightarrow> (string \<Rightarrow> 's \<Rightarrow> int go_result \<times> 's) \<Rightarrow> string
    \<Rightarrow> hang_detector \<times> 's \<Rightarrow> bool \<times> hang_detector \<times> 's" where
  "hang_Step match liveness name hs = (case hs of (h, s) \<Rightarrow>
     if hd_fired h name \<or> \<not> match name then (False, h, s)
     else (case liveness name s of
        (Inl _, s') \<Rightarrow> (False, h, s')
      | (Inr v, s') \<Rightarrow>
          (let h1 = hang_note name v h
           in if hd_stale_ticks h \<le> hd_stale h1 name
              then (True, h1\<lparr>hd_fired := (hd_fired h1)(name := True)\<rparr>, s')
              else (False, h1, s'))))"

section \<open>The webhook\<close>

record webhook =
  wh_seen :: "string list"
  wh_posts :: "string list"

definition NewWebhook :: "string \<Rightarrow> webhook option" where
  "NewWebhook url = (if url = [] then None else Some \<lparr>wh_seen = [], wh_posts = []\<rparr>)"

definition alert_Maybe :: "string \<Rightarrow> string \<Rightarrow> webhook option \<Rightarrow> webhook option" where
  "alert_Maybe sig text w = (case w of None \<Rightarrow> None | Some w \<Rightarrow>
     Some (if sig = [] then w\<lparr>wh_posts := wh_posts w @ [text]\<rparr>
           else if sig \<in> set (wh_seen w) then w
           else w\<lparr>wh_seen := sig # wh_seen w, wh_posts := wh_posts w @ [text]\<rparr>))"

section \<open>Facts\<close>

lemma classify_from_spec:
  "classify_from i lines =
     (case dropWhile (\<lambda>l. line_kind l = None) lines of
        [] \<Rightarrow> \<lparr>cl_kind = [], cl_marker = 0\<rparr>
      | l # _ \<Rightarrow> \<lparr>cl_kind = the (line_kind l), cl_marker = i + length (takeWhile (\<lambda>l. line_kind l = None) lines)\<rparr>)"
proof (induction lines arbitrary: i)
  case (Cons l lines)
  show ?case
  proof (cases "line_kind l")
    case None
    with Cons.IH [of "Suc i"] show ?thesis by (cases "dropWhile (\<lambda>l. line_kind l = None) lines") (simp_all del: dropWhile_eq_Nil_conv)
  qed simp
qed simp

lemma line_kind_markers: "line_kind l = Some k \<Longrightarrow> k \<in> fst ` set markers"
  by (auto simp: line_kind_def find_Some_iff) (metis fst_conv image_eqI nth_mem)

text \<open>A run of samples of one container, oldest first: what \<open>Step\<close> answered.\<close>

fun hang_run :: "(string \<Rightarrow> bool) \<Rightarrow> string \<Rightarrow> int go_result list \<Rightarrow> hang_detector \<Rightarrow> bool list" where
  "hang_run match name [] h = []"
| "hang_run match name (v # vs) h =
     (case hang_Step match (\<lambda>_ s. (v, s)) name (h, ()) of (b, h', _) \<Rightarrow> b # hang_run match name vs h')"

text \<open>The number of latest samples equal to the last one.\<close>

fun tail_run :: "int list \<Rightarrow> nat" where
  "tail_run [] = 0"
| "tail_run (v # vs) = Suc (length (takeWhile (\<lambda>w. w = v) vs))"

definition samples :: "int go_result list \<Rightarrow> int list" where
  "samples vs = map projr (filter (\<lambda>r. \<not> isl r) vs)"

definition hang_inv :: "string \<Rightarrow> int list \<Rightarrow> hang_detector \<Rightarrow> bool" where
  "hang_inv name vs h \<longleftrightarrow> hd_seen h name = (vs \<noteq> []) \<and> hd_stale h name = int (tail_run vs)
     \<and> (vs \<noteq> [] \<longrightarrow> hd_last h name = hd vs)"

lemma hang_inv_New: "hang_inv name [] (NewHangDetector n)"
  by (simp add: hang_inv_def NewHangDetector_def)

lemma hang_inv_note: "hang_inv name vs h \<Longrightarrow> hang_inv name (v # vs) (hang_note name v h)"
  by (cases vs) (auto simp: hang_inv_def hang_note_def)

text \<open>A sample that comes after the detector has fired changes nothing.\<close>

lemma hang_fired_stays: "hd_fired h name \<Longrightarrow> hang_run match name vs h = replicate (length vs) False"
  by (induction vs arbitrary: h) (simp_all add: hang_Step_def)

lemma hang_unmatched: "\<not> match name \<Longrightarrow> hang_run match name vs h = replicate (length vs) False"
  by (induction vs arbitrary: h) (simp_all add: hang_Step_def)

text \<open>The samples seen at index \<open>i\<close> of a run that starts after the samples \<open>old\<close>, latest first.\<close>

definition upto_sample :: "int list \<Rightarrow> int go_result list \<Rightarrow> nat \<Rightarrow> int list" where
  "upto_sample old vs i = rev (samples (take (Suc i) vs)) @ old"

lemma upto_sample_Cons: "upto_sample old (v # vs) (Suc i) = upto_sample (case v of Inl _ \<Rightarrow> old | Inr x \<Rightarrow> x # old) vs i"
  by (cases v) (simp_all add: upto_sample_def samples_def)

lemma hang_run_iff:
  assumes "match name" and "hang_inv name old h" and "\<not> hd_fired h name" and "i < length vs"
    and "int (tail_run old) < hd_stale_ticks h"
  shows "hang_run match name vs h ! i \<longleftrightarrow>
     hd_stale_ticks h \<le> int (tail_run (upto_sample old vs i)) \<and> \<not> isl (vs ! i)
     \<and> (\<forall>j < i. int (tail_run (upto_sample old vs j)) < hd_stale_ticks h)"
  using assms(2-5)
proof (induction vs arbitrary: h old i)
  case (Cons v vs)
  show ?case
  proof (cases v)
    case (Inl e)
    show ?thesis
    proof (cases i)
      case 0
      then show ?thesis using Inl Cons.prems assms(1) by (simp add: hang_Step_def)
    next
      case (Suc j)
      have "(\<forall>k < Suc j. int (tail_run (upto_sample old (v # vs) k)) < hd_stale_ticks h) \<longleftrightarrow>
          (\<forall>k < j. int (tail_run (upto_sample old vs k)) < hd_stale_ticks h)"
        unfolding All_less_Suc2 using Inl Cons.prems by (simp add: upto_sample_Cons) (simp add: upto_sample_def samples_def)
      then show ?thesis using Cons.IH [of old h j] Cons.prems Inl assms(1) Suc
        by (simp add: hang_Step_def upto_sample_Cons)
    qed
  next
    case (Inr x)
    let ?h1 = "hang_note name x h"
    have inv: "hang_inv name (x # old) ?h1" using Cons.prems(1) by (rule hang_inv_note)
    then have stale: "hd_stale ?h1 name = int (tail_run (x # old))" by (simp add: hang_inv_def)
    have same: "hd_stale_ticks ?h1 = hd_stale_ticks h" "hd_fired ?h1 = hd_fired h" by (simp_all add: hang_note_def)
    have first: "upto_sample old (v # vs) 0 = x # old" by (simp add: upto_sample_def samples_def Inr)
    show ?thesis
    proof (cases "hd_stale_ticks h \<le> int (tail_run (x # old))")
      case True
      let ?h2 = "?h1\<lparr>hd_fired := (hd_fired ?h1)(name := True)\<rparr>"
      have "hang_run match name (v # vs) h = True # hang_run match name vs ?h2"
        using Cons.prems Inr assms(1) True stale by (simp add: hang_Step_def Let_def del: tail_run.simps)
      also have "hang_run match name vs ?h2 = replicate (length vs) False" by (rule hang_fired_stays) simp
      finally show ?thesis using True Cons.prems(3) Inr first by (cases i) (auto simp del: tail_run.simps)
    next
      case False
      have run: "hang_run match name (v # vs) h = False # hang_run match name vs ?h1"
        using Cons.prems Inr assms(1) False stale by (simp add: hang_Step_def Let_def del: tail_run.simps)
      show ?thesis
      proof (cases i)
        case 0
        then show ?thesis using run False first by (simp del: tail_run.simps)
      next
        case (Suc j)
        have "(\<forall>k < Suc j. int (tail_run (upto_sample old (v # vs) k)) < hd_stale_ticks h) \<longleftrightarrow>
            (\<forall>k < j. int (tail_run (upto_sample (x # old) vs k)) < hd_stale_ticks h)"
          unfolding All_less_Suc2 using first False Inr by (simp add: upto_sample_Cons del: tail_run.simps)
        then show ?thesis using Cons.IH [OF inv, of j] Cons.prems run Suc False same Inr
          by (simp add: upto_sample_Cons del: tail_run.simps)
      qed
    qed
  qed
qed simp

section \<open>Crash reports\<close>

text \<open>The poller on one container whose inspections answer \<open>rs\<close>: the exit codes reported.\<close>

definition one_rt :: "(bool \<times> int) go_result \<Rightarrow> int list container_rt" where
  "one_rt r = \<lparr>cr_list = (\<lambda>_ _ s. (Inr [], s)), cr_inspect = (\<lambda>_ s. (r, s)), cr_tail = (\<lambda>_ _ s. (Inr [], s)),
     cr_signal = (\<lambda>_ _ s. (Inr (), s))\<rparr>"

definition poll_run :: "string \<Rightarrow> (bool \<times> int) go_result list \<Rightarrow> poller \<Rightarrow> int list" where
  "poll_run name rs p = snd (fold (\<lambda>r. poll_one (one_rt r) (\<lambda>e s. s @ [ce_exit e]) name) rs (p, []))"

definition crash_codes :: "(bool \<times> int) go_result list \<Rightarrow> int list" where
  "crash_codes rs = map snd (filter (\<lambda>rc. \<not> fst rc \<and> snd rc \<noteq> 0) (map projr (filter (\<lambda>r. \<not> isl r) rs)))"

lemma poll_fold:
  "fold (\<lambda>r. poll_one (one_rt r) (\<lambda>e s. s @ [ce_exit e]) name) rs (p, s) = (p', s') \<Longrightarrow>
     s' = s @ (case po_seen p name of None \<Rightarrow> remdups_adj (crash_codes rs) | Some c \<Rightarrow> tl (remdups_adj (c # crash_codes rs)))"
proof (induction rs arbitrary: p s)
  case Nil
  then show ?case by (simp add: crash_codes_def split: option.split)
next
  case (Cons r rs)
  have crash: "crash_report (one_rt r) (\<lambda>e s. s @ [ce_exit e]) name code q s = s @ [code]" for code q
    by (simp add: crash_report_def one_rt_def Let_def)
  have tl_adj: "remdups_adj (c # cs) = c # tl (remdups_adj (c # cs))" for c :: int and cs
    by (metis list.sel(1,3) remdups_adj_Cons remdups_adj_Cons_alt)
  show ?case
  proof (cases "\<exists>code. r = Inr (False, code) \<and> code \<noteq> 0")
    case False
    then have "poll_one (one_rt r) (\<lambda>e s. s @ [ce_exit e]) name (p, s) = (p, s)" "crash_codes (r # rs) = crash_codes rs"
      by (cases r; auto simp: poll_one_def one_rt_def crash_codes_def)+
    with Cons.IH [of p s] Cons.prems show ?thesis by (simp split: option.split)
  next
    case True
    then obtain code where r: "r = Inr (False, code)" "code \<noteq> 0" by blast
    then have codes: "crash_codes (r # rs) = code # crash_codes rs" by (simp add: crash_codes_def)
    show ?thesis
    proof (cases "po_seen p name = Some code")
      case True
      then have "poll_one (one_rt r) (\<lambda>e s. s @ [ce_exit e]) name (p, s) = (p, s)"
        using r by (simp add: poll_one_def one_rt_def)
      with Cons.IH [of p s] Cons.prems True codes show ?thesis by simp
    next
      case False
      let ?q = "p\<lparr>po_seen := (po_seen p)(name \<mapsto> code)\<rparr>"
      have "poll_one (one_rt r) (\<lambda>e s. s @ [ce_exit e]) name (p, s) = (?q, s @ [code])"
        using r False crash by (simp add: poll_one_def one_rt_def Let_def)
      with Cons.IH [of ?q "s @ [code]"] Cons.prems
      have "s' = s @ code # tl (remdups_adj (code # crash_codes rs))" by simp
      then have "s' = s @ remdups_adj (code # crash_codes rs)" by (metis tl_adj)
      with False codes show ?thesis by (auto split: option.split)
    qed
  qed
qed

end
