(* ===== verification/Mainnet.thy ===== *)
theory Mainnet
  imports Accounts
begin

text \<open>
  Replaying mainnet (\<open>sidecar/internal/fuzz/mainnet\<close>): the ledger fetch of \<open>client.go\<close>, the lazy
  iterator over a range of ledgers (\<open>iterator.go\<close>) and the rewriter that maps mainnet addresses onto
  the account pool (\<open>rewriter.go\<close>).

  The HTTP transport is a caller, as in theory Rpc. Ledger numbers are far below the largest
  \<open>int\<close>, so the iterator's counter is a mathematical integer. \<open>None\<close> of the rewriter is the panic
  of a remainder by the size of an empty pool.
\<close>

section \<open>Fetching and iterating\<close>

definition LedgerTransactions :: "'s caller \<Rightarrow> int \<Rightarrow> 's \<Rightarrow> fields list go_result \<times> 's" where
  "LedgerTransactions call seq s =
     with_reply call ''ledger'' [(''ledger_index'', GInt seq), (''transactions'', GBool True), (''expand'', GBool True)]
       (\<lambda>rep. ewrap (''parse ledger '' @ int_dec seq @ '': '')
          (ebind (dec_top (doc rep)) (\<lambda>top.
           ebind (dec_obj (map_of top ''ledger'')) (\<lambda>l.
           ebind (dec_arr (map_of l ''transactions'')) (\<lambda>txs.
             emap (\<lambda>t. dec_obj (Some t)) txs)))))
       s"

record iterator =
  it_end :: int
  it_cur :: int
  it_ledger :: "fields list"
  it_offset :: nat
  it_err :: "string option"
  it_tx :: fields

definition NewIterator :: "int \<Rightarrow> int \<Rightarrow> iterator" where
  "NewIterator start stop = \<lparr>it_end = stop, it_cur = start - 1, it_ledger = [], it_offset = 0, it_err = None, it_tx = []\<rparr>"

function iter_Next :: "'s caller \<Rightarrow> iterator \<times> 's \<Rightarrow> bool \<times> iterator \<times> 's" where
  "iter_Next call (it, s) =
     (if it_offset it < length (it_ledger it)
      then (True, it\<lparr>it_tx := it_ledger it ! it_offset it, it_offset := it_offset it + 1\<rparr>, s)
      else (let it1 = it\<lparr>it_cur := it_cur it + 1\<rparr> in
        if it_end it < it_cur it1 then (False, it1, s)
        else case LedgerTransactions call (it_cur it1) s of
          (Inl e, s') \<Rightarrow> (False, it1\<lparr>it_err := Some e\<rparr>, s')
        | (Inr txs, s') \<Rightarrow> iter_Next call (it1\<lparr>it_ledger := txs, it_offset := 0\<rparr>, s')))"
  by pat_completeness auto
termination
  by (relation "measure (\<lambda>(call, it, s). nat (it_end it + 1 - it_cur it))") auto

declare iter_Next.simps [simp del]

section \<open>Copying\<close>

text \<open>\<open>cloneDeepAny\<close> and \<open>cloneArr\<close>.\<close>

fun clone_value :: "go_value \<Rightarrow> go_value" where
  "clone_value (GMap m) = GMap (map (\<lambda>(k, v). (k, clone_value v)) m)"
| "clone_value (GArr vs) = GArr (map clone_value vs)"
| "clone_value v = v"

definition cloneDeepAny :: "fields \<Rightarrow> fields" where
  "cloneDeepAny m = map (\<lambda>(k, v). (k, clone_value v)) m"

lemma clone_value_id [simp]: "clone_value v = v"
proof (induction v rule: clone_value.induct)
  case (1 m)
  then show ?case by (auto intro!: map_idI)
next
  case (2 vs)
  then show ?case by (auto intro!: map_idI)
qed simp_all

lemma cloneDeepAny_id [simp]: "cloneDeepAny m = m"
  by (simp add: cloneDeepAny_def)

section \<open>The rewriter\<close>

record rewriter =
  rw_pool :: pool
  rw_cache :: "string \<rightharpoonup> nat"
  rw_counter :: nat

definition NewRewriter :: "pool \<Rightarrow> rewriter" where
  "NewRewriter p = \<lparr>rw_pool = p, rw_cache = Map.empty, rw_counter = 0\<rparr>"

definition addressFieldPaths :: "string list" where
  "addressFieldPaths = [''Account'', ''Destination'', ''Owner'', ''RegularKey'', ''Issuer'', ''Authorize'',
     ''Unauthorize'', ''NFTokenMinter'', ''Amendment'']"

definition stripped :: "string list" where
  "stripped = [''Sequence'', ''SigningPubKey'', ''TxnSignature'', ''Signers'', ''hash'', ''Fee'',
     ''LastLedgerSequence'', ''TicketSequence'']"

definition iouShapedFields :: "string list" where
  "iouShapedFields = [''Amount'', ''TakerPays'', ''TakerGets'', ''LimitAmount'', ''SendMax'', ''DeliverMin'', ''FeeBase'']"

definition mapAddress :: "string \<Rightarrow> rewriter \<Rightarrow> (string \<times> rewriter) option" where
  "mapAddress a rw =
     (case rw_cache rw a of
        Some i \<Rightarrow> Some (w_address (rw_pool rw ! i), rw)
      | None \<Rightarrow>
          if rw_pool rw = [] then None
          else (let i = rw_counter rw mod length (rw_pool rw)
                in Some (w_address (rw_pool rw ! i),
                         rw\<lparr>rw_counter := rw_counter rw + 1, rw_cache := (rw_cache rw)(a \<mapsto> i)\<rparr>)))"

definition rewrite_address :: "string \<Rightarrow> fields \<times> rewriter \<Rightarrow> (fields \<times> rewriter) option" where
  "rewrite_address f orw = (case orw of (out, rw) \<Rightarrow>
     (case as_string (map_of out f) of
        Some v \<Rightarrow> if v \<noteq> [] then map_option (\<lambda>(a, rw'). (fset f (GStr a) out, rw')) (mapAddress v rw) else Some (out, rw)
      | None \<Rightarrow> Some (out, rw)))"

definition rewrite_issuer :: "string \<Rightarrow> fields \<times> rewriter \<Rightarrow> (fields \<times> rewriter) option" where
  "rewrite_issuer f orw = (case orw of (out, rw) \<Rightarrow>
     (case as_map (map_of out f) of
        Some m \<Rightarrow>
          (case as_string (map_of m ''issuer'') of
             Some v \<Rightarrow> if v \<noteq> [] then
               map_option (\<lambda>(a, rw'). (fset f (GMap (fset ''issuer'' (GStr a) m)) out, rw')) (mapAddress v rw) else Some (out, rw)
           | None \<Rightarrow> Some (out, rw))
      | None \<Rightarrow> Some (out, rw)))"

fun rewrite_each :: "(string \<Rightarrow> fields \<times> rewriter \<Rightarrow> (fields \<times> rewriter) option) \<Rightarrow> string list
    \<Rightarrow> fields \<times> rewriter \<Rightarrow> (fields \<times> rewriter) option" where
  "rewrite_each step [] orw = Some orw"
| "rewrite_each step (f # fs) orw = (case step f orw of None \<Rightarrow> None | Some orw' \<Rightarrow> rewrite_each step fs orw')"

definition issuer_is :: "string \<Rightarrow> fields \<Rightarrow> string \<Rightarrow> bool" where
  "issuer_is acct out f \<longleftrightarrow>
     (case as_map (map_of out f) of Some m \<Rightarrow> as_string (map_of m ''issuer'') = Some acct | None \<Rightarrow> False)"

definition collapsed :: "fields \<Rightarrow> bool" where
  "collapsed out \<longleftrightarrow> (case as_string (map_of out ''Account'') of
      Some acct \<Rightarrow> list_ex (issuer_is acct out) iouShapedFields | None \<Rightarrow> False)"

definition Rewrite :: "fields \<Rightarrow> rewriter \<Rightarrow> (fields go_result \<times> rewriter) option" where
  "Rewrite tx rw =
     (case rewrite_each rewrite_address addressFieldPaths (fold fdel stripped (cloneDeepAny tx), rw) of
        None \<Rightarrow> None
      | Some orw \<Rightarrow>
          (case rewrite_each rewrite_issuer iouShapedFields orw of
             None \<Rightarrow> None
           | Some (out, rw') \<Rightarrow>
               if collapsed out
               then Some (Inl ''collapsed Account==Issuer after rewrite (pool too small for tx)'', rw')
               else Some (Inr out, rw')))"

definition SecretFor :: "rewriter \<Rightarrow> string \<Rightarrow> string option" where
  "SecretFor rw account = map_option w_seed (find (\<lambda>w. w_address w = account) (rw_pool rw))"

section \<open>Facts about the rewriter\<close>

definition rw_ok :: "rewriter \<Rightarrow> bool" where
  "rw_ok rw \<longleftrightarrow> (\<forall>i \<in> ran (rw_cache rw). i < length (rw_pool rw)) \<and> finite (dom (rw_cache rw))
     \<and> card (dom (rw_cache rw)) = rw_counter rw
     \<and> (rw_counter rw \<le> length (rw_pool rw) \<longrightarrow> inj_on (rw_cache rw) (dom (rw_cache rw))
          \<and> ran (rw_cache rw) = {..< rw_counter rw})"

lemma rw_ok_New: "rw_ok (NewRewriter p)"
  by (simp add: rw_ok_def NewRewriter_def)

lemma mapAddress_total: "rw_pool rw \<noteq> [] \<Longrightarrow> \<exists>b rw'. mapAddress a rw = Some (b, rw')"
  by (simp add: mapAddress_def Let_def split: option.split)

text \<open>A mapped address is one of the pool, remembered, and nothing remembered changes.\<close>

lemma mapAddress_result:
  assumes "mapAddress a rw = Some (b, rw')" and "rw_ok rw"
  shows "b \<in> w_address ` set (rw_pool rw) \<and> rw_pool rw' = rw_pool rw \<and> rw_cache rw \<subseteq>\<^sub>m rw_cache rw'
    \<and> (\<exists>i. rw_cache rw' a = Some i \<and> b = w_address (rw_pool rw ! i))"
proof (cases "rw_cache rw a")
  case None
  with assms(1) show ?thesis by (auto simp: mapAddress_def Let_def map_le_def split: if_splits)
next
  case (Some i)
  with assms have "i < length (rw_pool rw)" by (auto simp: rw_ok_def ran_def)
  with Some assms(1) show ?thesis by (auto simp: mapAddress_def)
qed

lemma mapAddress_ok:
  assumes "mapAddress a rw = Some (b, rw')" and ok: "rw_ok rw"
  shows "rw_ok rw'"
proof (cases "rw_cache rw a")
  case (Some i)
  with assms show ?thesis by (simp add: mapAddress_def)
next
  case None
  let ?n = "length (rw_pool rw)" and ?i = "rw_counter rw mod length (rw_pool rw)"
  from None assms(1) have ne: "rw_pool rw \<noteq> []"
    and rw': "rw' = rw\<lparr>rw_counter := rw_counter rw + 1, rw_cache := (rw_cache rw)(a \<mapsto> ?i)\<rparr>"
    by (auto simp: mapAddress_def Let_def split: if_splits)
  have small: "?i < ?n" using ne by simp
  have dom: "dom ((rw_cache rw)(a \<mapsto> ?i)) = insert a (dom (rw_cache rw))" by simp
  have ran: "ran ((rw_cache rw)(a \<mapsto> ?i)) = insert ?i (ran (rw_cache rw))" using None by (rule ran_map_upd)
  have a: "a \<notin> dom (rw_cache rw)" using None by auto
  have card: "card (insert a (dom (rw_cache rw))) = rw_counter rw + 1" using ok a by (simp add: rw_ok_def)
  have inj: "inj_on ((rw_cache rw)(a \<mapsto> ?i)) (insert a (dom (rw_cache rw)))
      \<and> insert ?i (ran (rw_cache rw)) = {..< rw_counter rw + 1}" if le: "rw_counter rw + 1 \<le> ?n"
  proof -
    have i: "?i = rw_counter rw" using le by simp
    from ok le have old: "inj_on (rw_cache rw) (dom (rw_cache rw))" "ran (rw_cache rw) = {..< rw_counter rw}"
      by (auto simp: rw_ok_def)
    have "rw_cache rw x \<noteq> Some (rw_counter rw)" for x
    proof
      assume "rw_cache rw x = Some (rw_counter rw)"
      then have "rw_counter rw \<in> ran (rw_cache rw)" by (rule ranI)
      with old(2) show False by simp
    qed
    with old a show ?thesis unfolding i by (auto simp: inj_on_def lessThan_Suc)
  qed
  have fields: "rw_pool rw' = rw_pool rw" "rw_cache rw' = (rw_cache rw)(a \<mapsto> ?i)" "rw_counter rw' = rw_counter rw + 1"
    by (simp_all add: rw')
  show ?thesis unfolding rw_ok_def fields dom ran using ok small card inj by (intro conjI impI) (auto simp: rw_ok_def)
qed

text \<open>The loops over the field names.\<close>

text \<open>What holds of the transaction and the rewriter after some fields: the memory grew, and every
  address that is a string at one of them is an address of the pool.\<close>

lemma rewrite_address_result:
  assumes "rewrite_address f (out, rw) = Some (out', rw')" and "rw_ok rw" and "rw_pool rw \<noteq> []"
  shows "rw_ok rw' \<and> rw_pool rw' = rw_pool rw \<and> rw_cache rw \<subseteq>\<^sub>m rw_cache rw'
    \<and> (\<forall>k. k \<noteq> f \<longrightarrow> map_of out' k = map_of out k)
    \<and> (case map_of out f of
         Some (GStr v) \<Rightarrow> if v = [] then map_of out' f = Some (GStr v)
           else (\<exists>i. rw_cache rw' v = Some i \<and> map_of out' f = Some (GStr (w_address (rw_pool rw ! i))) \<and> i < length (rw_pool rw))
       | x \<Rightarrow> map_of out' f = x)"
proof (cases "as_string (map_of out f)")
  case None
  with assms show ?thesis by (auto simp: rewrite_address_def split: option.splits go_value.splits)
next
  case (Some v)
  then have m: "map_of out f = Some (GStr v)" by (simp add: as_string_Some_iff)
  show ?thesis
  proof (cases "v = []")
    case True
    with Some m assms show ?thesis by (auto simp: rewrite_address_def)
  next
    case False
    with Some assms(1) obtain b where b: "mapAddress v rw = Some (b, rw')" "out' = fset f (GStr b) out"
      by (auto simp: rewrite_address_def)
    from mapAddress_result [OF b(1) assms(2)] obtain i where
      i: "rw_cache rw' v = Some i" "b = w_address (rw_pool rw ! i)" and "rw_pool rw' = rw_pool rw" "rw_cache rw \<subseteq>\<^sub>m rw_cache rw'" by blast
    moreover have ok: "rw_ok rw'" by (rule mapAddress_ok [OF b(1) assms(2)])
    moreover have "i < length (rw_pool rw)" using ok i(1) \<open>rw_pool rw' = rw_pool rw\<close> by (auto simp: rw_ok_def ran_def)
    ultimately show ?thesis using m False b(2) by auto
  qed
qed

definition pool_address :: "pool \<Rightarrow> string \<Rightarrow> bool" where
  "pool_address p a \<longleftrightarrow> a \<in> w_address ` set p"

definition address_fields_ok :: "pool \<Rightarrow> string list \<Rightarrow> fields \<Rightarrow> bool" where
  "address_fields_ok p fs out \<longleftrightarrow> (\<forall>f \<in> set fs. \<forall>v. map_of out f = Some (GStr v) \<longrightarrow> v = [] \<or> pool_address p v)"

lemma rewrite_each_total:
  assumes "\<And>f orw. P orw \<Longrightarrow> step f orw \<noteq> None" and "\<And>f orw orw'. P orw \<Longrightarrow> step f orw = Some orw' \<Longrightarrow> P orw'" and "P orw"
  shows "\<exists>orw'. rewrite_each step fs orw = Some orw' \<and> P orw'"
  using assms(3)
proof (induction fs arbitrary: orw)
  case (Cons f fs)
  from assms(1) [OF Cons.prems, of f] obtain orw' where s: "step f orw = Some orw'" by blast
  with Cons.IH [OF assms(2) [OF Cons.prems s]] show ?case by simp
qed simp

lemma rewrite_address_total: "rw_pool (snd orw) \<noteq> [] \<Longrightarrow> rewrite_address f orw \<noteq> None"
proof -
  assume "rw_pool (snd orw) \<noteq> []"
  then have "map_option g (mapAddress v (snd orw)) \<noteq> None" for v g using mapAddress_total [of "snd orw" v] by auto
  then show ?thesis by (cases orw) (simp add: rewrite_address_def split: option.split, blast)
qed

lemma rewrite_issuer_total: "rw_pool (snd orw) \<noteq> [] \<Longrightarrow> rewrite_issuer f orw \<noteq> None"
proof -
  assume "rw_pool (snd orw) \<noteq> []"
  then have "map_option g (mapAddress v (snd orw)) \<noteq> None" for v g using mapAddress_total [of "snd orw" v] by auto
  then show ?thesis by (cases orw) (simp add: rewrite_issuer_def split: option.split, blast)
qed

lemma rewrite_issuer_result:
  assumes "rewrite_issuer f (out, rw) = Some (out', rw')" and "rw_ok rw" and "rw_pool rw \<noteq> []"
  shows "rw_ok rw' \<and> rw_pool rw' = rw_pool rw \<and> rw_cache rw \<subseteq>\<^sub>m rw_cache rw'
    \<and> (\<forall>k. k \<noteq> f \<longrightarrow> map_of out' k = map_of out k) \<and> (as_string (map_of out f) = as_string (map_of out' f))
    \<and> (\<forall>m v. map_of out' f = Some (GMap m) \<longrightarrow> map_of m ''issuer'' = Some (GStr v) \<longrightarrow> v = [] \<or> pool_address (rw_pool rw) v)"
proof (cases "as_map (map_of out f)")
  case None
  with assms show ?thesis by (auto simp: rewrite_issuer_def)
next
  case (Some m)
  then have m: "map_of out f = Some (GMap m)" by (simp add: as_map_Some_iff)
  show ?thesis
  proof (cases "\<exists>v. as_string (map_of m ''issuer'') = Some v \<and> v \<noteq> []")
    case False
    with Some m assms show ?thesis by (auto simp: rewrite_issuer_def split: option.splits if_splits)
  next
    case True
    then obtain v where v: "as_string (map_of m ''issuer'') = Some v" "v \<noteq> []" by blast
    with Some assms(1) obtain b where b: "mapAddress v rw = Some (b, rw')"
      "out' = fset f (GMap (fset ''issuer'' (GStr b) m)) out" by (auto simp: rewrite_issuer_def)
    from mapAddress_result [OF b(1) assms(2)] mapAddress_ok [OF b(1) assms(2)] m b(2) show ?thesis
      by (auto simp: pool_address_def)
  qed
qed

text \<open>What the loop over the address fields does, in terms of the memory it ends with.\<close>

definition address_image :: "rewriter \<Rightarrow> fields \<Rightarrow> fields \<Rightarrow> string \<Rightarrow> bool" where
  "address_image rw out out' f \<longleftrightarrow> (case map_of out f of
      Some (GStr v) \<Rightarrow> if v = [] then map_of out' f = Some (GStr v)
        else (\<exists>i. rw_cache rw v = Some i \<and> map_of out' f = Some (GStr (w_address (rw_pool rw ! i))) \<and> i < length (rw_pool rw))
    | x \<Rightarrow> map_of out' f = x)"

lemma address_image_mono:
  assumes "address_image rw out out' f" and "rw_cache rw \<subseteq>\<^sub>m rw_cache rw'" and "rw_pool rw' = rw_pool rw"
  shows "address_image rw' out out' f"
  using assms unfolding address_image_def map_le_def by (auto split: option.splits go_value.splits if_splits) (metis domI)+

lemma rewrite_addresses:
  assumes "rewrite_each rewrite_address fs (out, rw) = Some (out', rw')" and "rw_ok rw" and "rw_pool rw \<noteq> []" and "distinct fs"
  shows "rw_ok rw' \<and> rw_pool rw' = rw_pool rw \<and> rw_cache rw \<subseteq>\<^sub>m rw_cache rw'
    \<and> (\<forall>k. k \<notin> set fs \<longrightarrow> map_of out' k = map_of out k) \<and> (\<forall>f \<in> set fs. address_image rw' out out' f)"
  using assms
proof (induction fs arbitrary: out rw)
  case (Cons f fs)
  from Cons.prems(1) obtain out1 rw1 where one: "rewrite_address f (out, rw) = Some (out1, rw1)"
    and rest: "rewrite_each rewrite_address fs (out1, rw1) = Some (out', rw')" by (auto split: option.splits)
  from rewrite_address_result [OF one Cons.prems(2,3)] have r: "rw_ok rw1" "rw_pool rw1 = rw_pool rw" "rw_cache rw \<subseteq>\<^sub>m rw_cache rw1"
    "\<forall>k. k \<noteq> f \<longrightarrow> map_of out1 k = map_of out k" by simp_all
  have img: "address_image rw1 out out1 f"
    using rewrite_address_result [OF one Cons.prems(2,3)] unfolding address_image_def r(2) by blast
  from Cons.IH [OF rest] r(1,2) Cons.prems have h: "rw_ok rw'" "rw_pool rw' = rw_pool rw1" "rw_cache rw1 \<subseteq>\<^sub>m rw_cache rw'"
    "\<forall>k. k \<notin> set fs \<longrightarrow> map_of out' k = map_of out1 k" "\<forall>g \<in> set fs. address_image rw' out1 out' g" by auto
  have "address_image rw' out out1 f" by (rule address_image_mono [OF img h(3,2)])
  moreover have "map_of out' f = map_of out1 f" using h(4) Cons.prems(4) by simp
  ultimately have "address_image rw' out out' f" by (simp only: address_image_def)
  moreover have "address_image rw' out out' g" if "g \<in> set fs" for g
  proof -
    have "map_of out1 g = map_of out g" using that r(4) Cons.prems(4) by auto
    with bspec [OF h(5) that] show ?thesis by (simp only: address_image_def)
  qed
  ultimately show ?case using r h by (auto intro: map_le_trans)
qed simp

lemma rewrite_issuers:
  assumes "rewrite_each rewrite_issuer fs (out, rw) = Some (out', rw')" and "rw_ok rw" and "rw_pool rw \<noteq> []" and "distinct fs"
  shows "rw_ok rw' \<and> rw_pool rw' = rw_pool rw \<and> rw_cache rw \<subseteq>\<^sub>m rw_cache rw'
    \<and> (\<forall>k. k \<notin> set fs \<longrightarrow> map_of out' k = map_of out k)
    \<and> (\<forall>f \<in> set fs. \<forall>m v. map_of out' f = Some (GMap m) \<longrightarrow> map_of m ''issuer'' = Some (GStr v) \<longrightarrow> v = [] \<or> pool_address (rw_pool rw) v)"
  using assms
proof (induction fs arbitrary: out rw)
  case (Cons f fs)
  from Cons.prems(1) obtain out1 rw1 where one: "rewrite_issuer f (out, rw) = Some (out1, rw1)"
    and rest: "rewrite_each rewrite_issuer fs (out1, rw1) = Some (out', rw')" by (auto split: option.splits)
  note r = rewrite_issuer_result [OF one Cons.prems(2,3)]
  from Cons.IH [OF rest] r Cons.prems have h: "rw_ok rw'" "rw_pool rw' = rw_pool rw1" "rw_cache rw1 \<subseteq>\<^sub>m rw_cache rw'"
    "\<forall>k. k \<notin> set fs \<longrightarrow> map_of out' k = map_of out1 k"
    "\<forall>g \<in> set fs. \<forall>m v. map_of out' g = Some (GMap m) \<longrightarrow> map_of m ''issuer'' = Some (GStr v) \<longrightarrow> v = [] \<or> pool_address (rw_pool rw) v"
    by auto
  have "map_of out' f = map_of out1 f" using h(4) Cons.prems(4) by simp
  with h(5) r have "\<forall>g \<in> set (f # fs). \<forall>m v. map_of out' g = Some (GMap m) \<longrightarrow> map_of m ''issuer'' = Some (GStr v)
      \<longrightarrow> v = [] \<or> pool_address (rw_pool rw) v" by auto
  then show ?case using r h by (auto intro: map_le_trans)
qed simp

lemma strip_fields: "map_of (fold fdel fs m) k = (if k \<in> set fs then None else map_of m k)"
  by (induction fs arbitrary: m) auto

lemma SecretFor_pool: "pool_address (rw_pool rw) a \<Longrightarrow> \<exists>s. SecretFor rw a = Some s"
  by (auto simp: pool_address_def SecretFor_def find_None_iff image_iff intro: exI)
    (metis (mono_tags, lifting) find_None_iff not_None_eq)

lemma Rewrite_total: "rw_pool rw \<noteq> [] \<Longrightarrow> rw_ok rw \<Longrightarrow> Rewrite tx rw \<noteq> None"
proof -
  assume ne: "rw_pool rw \<noteq> []" and ok: "rw_ok rw"
  let ?P = "\<lambda>orw. rw_pool (snd orw) \<noteq> [] \<and> rw_ok (snd orw)"
  have keep1: "?P orw \<Longrightarrow> rewrite_address f orw = Some orw' \<Longrightarrow> ?P orw'" for f orw orw'
    by (cases orw; cases orw') (use rewrite_address_result in fastforce)
  have keep2: "?P orw \<Longrightarrow> rewrite_issuer f orw = Some orw' \<Longrightarrow> ?P orw'" for f orw orw'
    by (cases orw; cases orw') (use rewrite_issuer_result in fastforce)
  have "\<exists>o1. rewrite_each rewrite_address addressFieldPaths (fold fdel stripped (cloneDeepAny tx), rw) = Some o1 \<and> ?P o1"
  proof (rule rewrite_each_total)
    show "?P orw \<Longrightarrow> rewrite_address f orw \<noteq> None" for f orw by (rule rewrite_address_total) (rule conjunct1)
    show "?P orw \<Longrightarrow> rewrite_address f orw = Some orw' \<Longrightarrow> ?P orw'" for f orw orw' by (rule keep1)
    show "?P (fold fdel stripped (cloneDeepAny tx), rw)" using ne ok by simp
  qed
  then obtain o1 where 1: "rewrite_each rewrite_address addressFieldPaths (fold fdel stripped (cloneDeepAny tx), rw) = Some o1"
    and p1: "?P o1" by blast
  have "\<exists>o2. rewrite_each rewrite_issuer iouShapedFields o1 = Some o2 \<and> ?P o2"
  proof (rule rewrite_each_total)
    show "?P orw \<Longrightarrow> rewrite_issuer f orw \<noteq> None" for f orw by (rule rewrite_issuer_total) (rule conjunct1)
    show "?P orw \<Longrightarrow> rewrite_issuer f orw = Some orw' \<Longrightarrow> ?P orw'" for f orw orw' by (rule keep2)
    show "?P o1" by (rule p1)
  qed
  then obtain o2 where 2: "rewrite_each rewrite_issuer iouShapedFields o1 = Some o2" by blast
  from 1 2 show ?thesis by (simp add: Rewrite_def split: prod.split)
qed

end
