(* ===== verification/Runners.thy ===== *)
theory Runners
  imports Selection Mutator Oracle Liveness Runlog Crash Mainnet Chaos
begin

text \<open>
  The fuzz loops (\<open>sidecar/internal/fuzz/runners\<close>): failure accounting (\<open>failure.go\<close>), the soak loop
  (\<open>soak.go\<close>) with its chaos hook (\<open>chaos.go\<close>), the bounded realtime loop (\<open>realtime.go\<close>), the replay
  of mainnet ledgers (\<open>replay.go\<close>), the replay of a run log (\<open>reproduce.go\<close>) and one probe of the
  shrinker (\<open>shrink.go\<close>).

  One round of a loop is a function on the state of the run: the world behind the JSON-RPC transports,
  the random tape, the generator, the statistics, the recorder and its disk, the webhook. The Prometheus
  metrics and the log lines are left out: nothing reads them back.
\<close>

section \<open>The state of a run\<close>

record run_stats =
  st_seed :: "64 word"
  st_submitted :: int
  st_succeeded :: int
  st_failed :: int
  st_mutated :: int
  st_divergences :: int
  st_compared :: int

record 's run_env =
  rn_submit :: "'s caller"
  rn_nodes :: "'s node list"
  rn_cancelled :: "'s \<Rightarrow> bool"
  rn_polls :: nat
  rn_refuses :: "string \<Rightarrow> bool"
  rn_stamp :: "int \<Rightarrow> string"
  rn_marshal :: "divergence \<Rightarrow> string go_result"
  rn_logline :: "run_log_entry \<Rightarrow> string go_result"
  rn_now :: "'s \<Rightarrow> int"
  rn_ripple :: "'s \<Rightarrow> 32 word"
  rn_from_seed :: "string \<Rightarrow> string go_result"
  rn_sign :: "string \<Rightarrow> fields \<Rightarrow> string go_result"
  rn_codec :: codec
  rn_registry :: registry
  rn_enabled :: "string list"
  rn_strategies :: "strategy list"
  rn_rate :: rat
  rn_local :: bool
  rn_log :: string

record 's run_state =
  rs_world :: 's
  rs_tape :: tape
  rs_gen :: generator
  rs_stats :: run_stats
  rs_rec :: recorder
  rs_disk :: disk
  rs_alert :: "webhook option"
  rs_step :: int
  rs_failseq :: int

abbreviation with_stats :: "(run_stats \<Rightarrow> run_stats) \<Rightarrow> ('s, 'm) run_state_scheme \<Rightarrow> ('s, 'm) run_state_scheme" where
  "with_stats f st \<equiv> st\<lparr>rs_stats := f (rs_stats st)\<rparr>"

abbreviation count_submitted :: "run_stats \<Rightarrow> run_stats" where
  "count_submitted s \<equiv> s\<lparr>st_submitted := st_submitted s + 1\<rparr>"
abbreviation count_succeeded :: "run_stats \<Rightarrow> run_stats" where
  "count_succeeded s \<equiv> s\<lparr>st_succeeded := st_succeeded s + 1\<rparr>"
abbreviation count_failed :: "run_stats \<Rightarrow> run_stats" where
  "count_failed s \<equiv> s\<lparr>st_failed := st_failed s + 1\<rparr>"
abbreviation count_mutated :: "bool \<Rightarrow> run_stats \<Rightarrow> run_stats" where
  "count_mutated did s \<equiv> (if did then s\<lparr>st_mutated := st_mutated s + 1\<rparr> else s)"
abbreviation count_divergence :: "run_stats \<Rightarrow> run_stats" where
  "count_divergence s \<equiv> s\<lparr>st_divergences := st_divergences s + 1\<rparr>"
abbreviation count_compared :: "run_stats \<Rightarrow> run_stats" where
  "count_compared s \<equiv> s\<lparr>st_compared := st_compared s + 1\<rparr>"

section \<open>Failures\<close>

definition failure_codes :: "string list" where
  "failure_codes = [''highFee'', ''noCurrent'', ''notReady'', ''tooBusy'', ''invalidTransaction'', ''internal'',
     ''amendmentBlocked'']"

definition classifyFailure :: "submit_result go_result \<Rightarrow> string" where
  "classifyFailure r = (case r of
      Inl msg \<Rightarrow> (case find (contains msg) failure_codes of Some code \<Rightarrow> code | None \<Rightarrow> ''rpc_error'')
    | Inr res \<Rightarrow> if engine_result res \<noteq> [] then engine_result res else ''unknown'')"

definition append_log :: "('s, 'e) run_env_scheme \<Rightarrow> run_log_entry \<Rightarrow> ('s, 'm) run_state_scheme \<Rightarrow> ('s, 'm) run_state_scheme" where
  "append_log env e st = st\<lparr>rs_disk := snd (log_Append (rn_logline env) (rn_refuses env) (rn_log env) e (rs_disk st))\<rparr>"

definition recordFailure :: "('s, 'e) run_env_scheme \<Rightarrow> int \<Rightarrow> tx \<Rightarrow> submit_result go_result
    \<Rightarrow> ('s, 'm) run_state_scheme \<Rightarrow> ('s, 'm) run_state_scheme" where
  "recordFailure env step t r st =
     (append_log env \<lparr>le_step = step, le_type = TransactionType t, le_fields = tx_fields t, le_secret = tx_secret t,
        le_result = classifyFailure r, le_hash = []\<rparr> st)\<lparr>rs_failseq := rs_failseq st + 1\<rparr>"

text \<open>A recorded divergence: counted, written, and announced under the given key.\<close>

definition report :: "('s, 'e) run_env_scheme \<Rightarrow> (string \<times> string) option \<Rightarrow> divergence
    \<Rightarrow> ('s, 'm) run_state_scheme \<Rightarrow> ('s, 'm) run_state_scheme" where
  "report env alert d st =
     (case RecordDivergence (rn_stamp env) (rn_marshal env) (rn_refuses env) (rn_now env (rs_world st)) d (rs_rec st, rs_disk st) of
        (_, r, dk) \<Rightarrow> (with_stats count_divergence st)\<lparr>rs_rec := r, rs_disk := dk,
          rs_alert := (case alert of None \<Rightarrow> rs_alert st | Some (key, msg) \<Rightarrow> alert_Maybe key msg (rs_alert st))\<rparr>)"

definition by_signature :: "divergence \<Rightarrow> (string \<times> string) option" where
  "by_signature d = Some (Key (Signature (Some d)), ''['' @ dg_kind d @ ''] '' @ dg_description d)"

abbreviation new_divergence :: "string \<Rightarrow> string \<Rightarrow> fields \<Rightarrow> divergence" where
  "new_divergence kind desc details \<equiv>
     \<lparr>dg_seed = 0, dg_kind = kind, dg_description = desc, dg_details = details, dg_time = None\<rparr>"

text \<open>\<open>recordSetupFailure\<close>: written and announced, not counted.\<close>

definition recordSetupFailure :: "('s, 'e) run_env_scheme \<Rightarrow> string \<Rightarrow> string \<Rightarrow> string
    \<Rightarrow> ('s, 'm) run_state_scheme \<Rightarrow> ('s, 'm) run_state_scheme" where
  "recordSetupFailure env mode phase err st =
     (let desc = ''setup aborted in '' @ phase @ '': '' @ err;
          d = new_divergence ''setup_failure'' desc [(''mode'', GStr mode), (''phase'', GStr phase), (''error'', GStr err)];
          st1 = report env (Some (Key (Signature (Some d)), ''[setup_failure] '' @ mode @ '': '' @ desc)) d st
      in st1\<lparr>rs_stats := rs_stats st\<rparr>)"

section \<open>Submitting\<close>

definition submit_tx :: "('s, 'e) run_env_scheme \<Rightarrow> tx \<Rightarrow> 's \<Rightarrow> submit_result go_result \<times> tx \<times> 's" where
  "submit_tx env t s =
     (if rn_local env then
        (case SignLocal (rn_from_seed env) (rn_sign env) (rn_submit env) (tx_secret t) (tx_fields t) s of
           (Inl e, fs, s1) \<Rightarrow> (Inl e, t\<lparr>tx_fields := fs\<rparr>, s1)
         | (Inr blob, fs, s1) \<Rightarrow>
             (case SubmitTxBlob (rn_submit env) blob s1 of (r, s2) \<Rightarrow> (r, t\<lparr>tx_fields := fs\<rparr>, s2)))
      else (case SubmitTxJSON (rn_submit env) (tx_secret t) (tx_fields t) s of (r, s1) \<Rightarrow> (r, t, s1)))"

definition landed :: "submit_result go_result \<Rightarrow> bool" where
  "landed r \<longleftrightarrow> (case r of Inl _ \<Rightarrow> False | Inr res \<Rightarrow> accepted (engine_result res))"

text \<open>Drawing a transaction: the pick, then with a positive rate perhaps a mutation.\<close>

definition draw_tx :: "('s, 'e) run_env_scheme \<Rightarrow> 's \<Rightarrow> generator \<Rightarrow> (tx \<times> bool) rnd" where
  "draw_tx env s g = rbind (PickTx (rn_registry env) (rn_ripple env s) g (rn_enabled env))
     (\<lambda>t. if 0 < rn_rate env then Maybe (rn_strategies env) t (rn_rate env) else rret (t, False))"

definition success_entry :: "int \<Rightarrow> tx \<Rightarrow> submit_result \<Rightarrow> run_log_entry" where
  "success_entry step t res = \<lparr>le_step = step, le_type = TransactionType t, le_fields = tx_fields t, le_secret = tx_secret t,
     le_result = engine_result res, le_hash = tx_hash res\<rparr>"

text \<open>From the submission to the run log: the landed result, or \<open>None\<close> after a failure.\<close>

definition submit_step :: "('s, 'e) run_env_scheme \<Rightarrow> int \<Rightarrow> tx \<times> bool \<Rightarrow> ('s, 'm) run_state_scheme
    \<Rightarrow> (submit_result \<times> tx) option \<times> ('s, 'm) run_state_scheme" where
  "submit_step env step tdid st = (case tdid of (t, did) \<Rightarrow>
     (case submit_tx env t (rs_world st) of (r, t', s') \<Rightarrow>
       (let st1 = (with_stats (\<lambda>x. count_submitted (count_mutated did x)) st)\<lparr>rs_world := s'\<rparr>
        in if landed r
           then (Some (projr r, t'), append_log env (success_entry step t' (projr r)) (with_stats count_succeeded st1))
           else (None, recordFailure env step t' r (with_stats count_failed st1)))))"

section \<open>Comparing the nodes on a transaction\<close>

definition node_results :: "string tx_comparison \<Rightarrow> go_value" where
  "node_results c = GArr (map (\<lambda>(n, v). GStruct [(''name'', GStr n), (''result'', GStr v)]) (tc_values c))"

text \<open>The raw JSON of the affected nodes stands as its text.\<close>

definition node_meta :: "string tx_comparison \<Rightarrow> go_value" where
  "node_meta c = GArr (map (\<lambda>(n, v). GStruct [(''name'', GStr n), (''affected_nodes'', GStr v)]) (tc_values c))"

definition check_result :: "('s, 'e) run_env_scheme \<Rightarrow> (string tx_comparison \<Rightarrow> divergence) \<Rightarrow> bool \<Rightarrow> string
    \<Rightarrow> ('s, 'm) run_state_scheme \<Rightarrow> ('s, 'm) run_state_scheme" where
  "check_result env mk alerts hash st =
     (case CompareTxResult (rn_cancelled env) (rn_nodes env) hash (rs_world st) of (c, s') \<Rightarrow>
       (let st1 = st\<lparr>rs_world := s'\<rparr> in
        if tc_agreed c then st1 else report env (if alerts then by_signature (mk c) else None) (mk c) st1))"

definition check_metadata :: "('s, 'e) run_env_scheme \<Rightarrow> (string tx_comparison \<Rightarrow> divergence) \<Rightarrow> bool \<Rightarrow> string
    \<Rightarrow> ('s, 'm) run_state_scheme \<Rightarrow> ('s, 'm) run_state_scheme" where
  "check_metadata env mk alerts hash st =
     (case CompareTxMetadata (rn_cancelled env) (rn_nodes env) hash (rs_world st) of (c, s') \<Rightarrow>
       (let st1 = st\<lparr>rs_world := s'\<rparr> in
        if tc_agreed c then st1 else report env (if alerts then by_signature (mk c) else None) (mk c) st1))"

definition record_success :: "('s, 'e) run_env_scheme \<Rightarrow> tx \<Rightarrow> submit_result \<Rightarrow> ('s, 'm) run_state_scheme
    \<Rightarrow> ('s, 'm) run_state_scheme" where
  "record_success env t res st =
     (case RecordSuccess (rn_codec env) (Some (AccountNFTs (rn_submit env))) (Some t) (tx_seq res) (rs_gen st) (rs_world st) of
        (g, s') \<Rightarrow> st\<lparr>rs_gen := g, rs_world := s'\<rparr>)"

section \<open>Watching the containers\<close>

text \<open>The crash poller and the hang detector of a run, on the whole state of the run.\<close>

record 's soak_env = "'s run_env" +
  so_rt :: "'s container_rt"
  so_state_diff :: bool
  so_rotate :: int

record ('s, 'h) soak_state = "'s run_state" +
  ss_watch :: "(poller \<times> hang_detector) option"
  ss_hook :: 'h

definition lift_rt :: "'s container_rt \<Rightarrow> ('s, 'm) run_state_scheme container_rt" where
  "lift_rt rt = \<lparr>
     cr_list = (\<lambda>k v st. case cr_list rt k v (rs_world st) of (r, s) \<Rightarrow> (r, st\<lparr>rs_world := s\<rparr>)),
     cr_inspect = (\<lambda>n st. case cr_inspect rt n (rs_world st) of (r, s) \<Rightarrow> (r, st\<lparr>rs_world := s\<rparr>)),
     cr_tail = (\<lambda>n k st. case cr_tail rt n k (rs_world st) of (r, s) \<Rightarrow> (r, st\<lparr>rs_world := s\<rparr>)),
     cr_signal = (\<lambda>n sg st. case cr_signal rt n sg (rs_world st) of (r, s) \<Rightarrow> (r, st\<lparr>rs_world := s\<rparr>))\<rparr>"

definition new_watch :: "bool \<Rightarrow> string \<Rightarrow> string \<Rightarrow> int \<Rightarrow> (poller \<times> hang_detector) option" where
  "new_watch has_rt key val tail =
     (if has_rt \<and> val \<noteq> [] then Some (NewPoller key val (if tail = 0 then 200 else tail), NewHangDetector 60) else None)"

definition on_crash :: "('s, 'e) run_env_scheme \<Rightarrow> crash_event \<Rightarrow> ('s, 'm) run_state_scheme \<Rightarrow> ('s, 'm) run_state_scheme" where
  "on_crash env e st =
     (let desc = ce_container e @ '' exited '' @ int_dec (ce_exit e) @ '' ('' @ ce_kind e @ '')'' in
      report env (Some ([], ''crash: '' @ desc))
        (new_divergence ''crash'' desc
          [(''container'', GStr (ce_container e)), (''exit_code'', GInt (ce_exit e)), (''crash_kind'', GStr (ce_kind e)),
           (''marker_line'', GInt (int (ce_marker e))), (''log_tail'', GArr (map GStr (ce_tail e)))]) st)"

definition node_liveness :: "'s node list \<Rightarrow> string \<Rightarrow> 's \<Rightarrow> int go_result \<times> 's" where
  "node_liveness nodes name s =
     (case find (\<lambda>n. fst n = name) nodes of
        None \<Rightarrow> (Inl (''unknown node '' @ go_quote name), s)
      | Some n \<Rightarrow> (case ServerInfo (snd n) s of
          (Inl e, s') \<Rightarrow> (Inl e, s') | (Inr info, s') \<Rightarrow> (Inr (lr_seq (si_validated info)), s')))"

definition watched_name :: "string \<Rightarrow> bool" where
  "watched_name name \<longleftrightarrow> has_prefix name ''goxrpl-''"

definition hang_visit :: "('s, 'e) run_env_scheme \<Rightarrow> 's container_rt \<Rightarrow> 's node \<Rightarrow> hang_detector \<times> ('s, 'm) run_state_scheme
    \<Rightarrow> hang_detector \<times> ('s, 'm) run_state_scheme" where
  "hang_visit env rt n hst = (case hst of (h, st) \<Rightarrow>
     (case hang_Step watched_name (node_liveness (rn_nodes env)) (fst n) (h, rs_world st) of
        (hung, h', s1) \<Rightarrow>
          (h', if hung then st\<lparr>rs_world := snd (cr_signal rt (fst n) ''QUIT'' s1)\<rparr> else st\<lparr>rs_world := s1\<rparr>)))"

definition watch_tick :: "('s, 'e) run_env_scheme \<Rightarrow> 's container_rt \<Rightarrow> poller \<times> hang_detector \<Rightarrow> ('s, 'm) run_state_scheme
    \<Rightarrow> (poller \<times> hang_detector) \<times> ('s, 'm) run_state_scheme" where
  "watch_tick env rt ph st =
     (case fold (hang_visit env rt) (rn_nodes env) (snd ph, st) of (h, st1) \<Rightarrow>
       (case poller_Tick (lift_rt rt) (on_crash env) (fst ph, st1) of (_, p, st2) \<Rightarrow> ((p, h), st2)))"

section \<open>The soak loop\<close>

text \<open>\<open>hook\<close> is \<open>OnPeriodic\<close>; it has its own part \<open>ss_hook\<close> of the state.\<close>

type_synonym ('s, 'h) hook = "(int \<Rightarrow> ('s, 'h) soak_state \<Rightarrow> ('s, 'h) soak_state) option"

definition soak_result_div :: "string \<Rightarrow> tx \<Rightarrow> string tx_comparison \<Rightarrow> divergence" where
  "soak_result_div hash t c = new_divergence ''tx_result'' (''tx '' @ hash @ '' disagreed'')
     [(''tx_hash'', GStr hash), (''tx_type'', GStr (TransactionType t)), (''node_results'', node_results c)]"

definition soak_meta_div :: "string \<Rightarrow> tx \<Rightarrow> string tx_comparison \<Rightarrow> divergence" where
  "soak_meta_div hash t c = new_divergence ''metadata'' (''tx '' @ hash @ '' metadata diverged'')
     [(''tx_hash'', GStr hash), (''tx_type'', GStr (TransactionType t)), (''node_meta'', node_meta c)]"

definition soak_check :: "'s soak_env \<Rightarrow> submit_result \<times> tx \<Rightarrow> ('s, 'h) soak_state \<Rightarrow> ('s, 'h) soak_state" where
  "soak_check env rt st = (case rt of (res, t) \<Rightarrow>
     if tx_hash res \<noteq> [] \<and> so_state_diff env
     then check_metadata env (soak_meta_div (tx_hash res) t) True (tx_hash res)
            (check_result env (soak_result_div (tx_hash res) t) True (tx_hash res) st)
     else st)"

definition soak_periodic :: "'s soak_env \<Rightarrow> ('s, 'h) hook \<Rightarrow> ('s, 'h) soak_state \<Rightarrow> ('s, 'h) soak_state" where
  "soak_periodic env hook st =
     (if rs_step st mod 10 = 9 then
        (let st1 = (case ss_watch st of
              None \<Rightarrow> st
            | Some ph \<Rightarrow> (case watch_tick env (so_rt env) ph st of (ph', st') \<Rightarrow> st'\<lparr>ss_watch := Some ph'\<rparr>))
         in case hook of None \<Rightarrow> st1 | Some f \<Rightarrow> f (rs_step st) st1)
      else st)"

definition soak_rotate :: "'s soak_env \<Rightarrow> ('s, 'h) soak_state \<Rightarrow> ('s, 'h) soak_state" where
  "soak_rotate env st =
     (if 0 < so_rotate env \<and> st_succeeded (rs_stats st) mod so_rotate env = 0
      then st\<lparr>rs_world := snd (RotateTiers (rn_submit env) (g_pool (rs_gen st)) (rs_world st))\<rparr> else st)"

definition soak_landed :: "'s soak_env \<Rightarrow> ('s, 'h) hook \<Rightarrow> submit_result \<times> tx \<Rightarrow> ('s, 'h) soak_state \<Rightarrow> ('s, 'h) soak_state" where
  "soak_landed env hook rt st =
     soak_rotate env (soak_periodic env hook (soak_check env rt
       (record_success env (snd rt) (fst rt) (st\<lparr>rs_step := rs_step st + 1\<rparr>))))"

text \<open>One round of the loop.\<close>

definition soak_iter :: "'s soak_env \<Rightarrow> ('s, 'h) hook \<Rightarrow> ('s, 'h) soak_state \<Rightarrow> ('s, 'h) soak_state outcome" where
  "soak_iter env hook st =
     (case draw_tx env (rs_world st) (rs_gen st) (rs_tape st) of
        (Failed _, tp) \<Rightarrow> Done (with_stats count_failed (st\<lparr>rs_tape := tp\<rparr>))
      | (Panicked e, _) \<Rightarrow> Panicked e
      | (Starved, _) \<Rightarrow> Starved
      | (Done tdid, tp) \<Rightarrow>
          (case submit_step env (rs_step st) tdid (st\<lparr>rs_tape := tp\<rparr>) of
             (None, st1) \<Rightarrow> Done st1
           | (Some rt, st1) \<Rightarrow> Done (soak_landed env hook rt st1)))"

text \<open>At most \<open>n\<close> rounds; the loop of the code ends only when the context is done.\<close>

fun soak_loop :: "'s soak_env \<Rightarrow> ('s, 'h) hook \<Rightarrow> nat \<Rightarrow> ('s, 'h) soak_state \<Rightarrow> ('s, 'h) soak_state outcome" where
  "soak_loop env hook 0 st = Done st"
| "soak_loop env hook (Suc n) st =
     (if rn_cancelled env (rs_world st) then Done st
      else case soak_iter env hook st of
        Done st' \<Rightarrow> soak_loop env hook n st' | Failed e \<Rightarrow> Failed e | Panicked e \<Rightarrow> Panicked e | Starved \<Rightarrow> Starved)"

section \<open>The chaos hook\<close>

text \<open>\<open>ChaosRun\<close>: a scheduler and a recorder of its own over the same disk. \<open>audit_json\<close> is the raw
  JSON of an audit entry.\<close>

record chaos_part =
  cp_sched :: scheduler
  cp_rec :: recorder

definition chaos_audit_one :: "'s soak_env \<Rightarrow> (audit_entry \<Rightarrow> go_value) \<Rightarrow> audit_entry
    \<Rightarrow> ('s, chaos_part) soak_state \<Rightarrow> ('s, chaos_part) soak_state" where
  "chaos_audit_one env audit_json a st =
     (let d = new_divergence ''chaos'' (au_event a @ ''/'' @ au_phase a @ '' at step '' @ int_dec (au_step a)) [(''audit'', audit_json a)]
      in case RecordDivergence (rn_stamp env) (rn_marshal env) (rn_refuses env) (rn_now env (rs_world st)) d
                (cp_rec (ss_hook st), rs_disk st) of
           (_, r, dk) \<Rightarrow> st\<lparr>rs_disk := dk, ss_hook := (ss_hook st)\<lparr>cp_rec := r\<rparr>,
             rs_alert := (if au_error a \<noteq> [] then alert_Maybe (''chaos:'' @ au_event a)
                 (''chaos event errored: '' @ au_event a @ ''/'' @ au_phase a @ '' step '' @ int_dec (au_step a) @ '': '' @ au_error a)
                 (rs_alert st) else rs_alert st)\<rparr>)"

text \<open>The audits of one step are handed on in their order; the scheduler does not read what they
  write.\<close>

definition chaos_hook :: "'s soak_env \<Rightarrow> 's chaos_env \<Rightarrow> (audit_entry \<Rightarrow> go_value) \<Rightarrow> int
    \<Rightarrow> ('s, chaos_part) soak_state \<Rightarrow> ('s, chaos_part) soak_state" where
  "chaos_hook env cenv audit_json step st =
     (case chaos_step cenv step (cp_sched (ss_hook st), rs_world st) of (c, s') \<Rightarrow>
       fold (chaos_audit_one env audit_json) (drop (length (sc_audit (cp_sched (ss_hook st)))) (sc_audit c))
         (st\<lparr>rs_world := s', ss_hook := (ss_hook st)\<lparr>cp_sched := c\<rparr>\<rparr>))"

definition chaos_part_start :: "schedule_entry list \<Rightarrow> string \<Rightarrow> 64 word \<Rightarrow> chaos_part" where
  "chaos_part_start es base seed = \<lparr>cp_sched = NewChaosScheduler es, cp_rec = NewRecorder base seed\<rparr>"

section \<open>The realtime loop\<close>

record 's rt_state = "'s run_state" +
  rt_watch :: "(poller \<times> hang_detector) option"
  rt_last :: int
  rt_balance :: pool_balance

text \<open>\<open>nodeName\<close>: the host of a URL.\<close>

definition trim_prefix :: "string \<Rightarrow> string \<Rightarrow> string" where
  "trim_prefix p s = (if has_prefix s p then drop (length p) s else s)"

definition nodeName :: "string \<Rightarrow> string" where
  "nodeName u = (let name = trim_prefix ''https://'' (trim_prefix ''http://'' u); host = takeWhile (\<lambda>c. c \<noteq> CHR '':'') name
     in if host = [] \<or> length host = length name then name else host)"

text \<open>A comparison as the details of a divergence: a pointer to a struct, with its JSON fields.\<close>

definition comparison_value :: "comparison \<Rightarrow> go_value" where
  "comparison_value c = GStruct [(''sequence'', GInt (cp_seq c)), (''agreed'', GBool (cp_agreed c)),
     (''node_hashes'', GArr (map (\<lambda>h. GStruct [(''name'', GStr (nh_name h)), (''ledger_hash'', GStr (nh_ledger h)),
        (''account_hash'', GStr (nh_account h)), (''transaction_hash'', GStr (nh_tx h))]) (cp_hashes c))),
     (''divergences'', GArr (map (\<lambda>d. GStruct [(''field'', GStr (dv_field d)), (''node_a'', GStr (dv_node_a d)),
        (''hash_a'', GStr (dv_hash_a d)), (''node_b'', GStr (dv_node_b d)), (''hash_b'', GStr (dv_hash_b d))]) (cp_divs c))),
     (''errors'', GArr (map GStr (cp_errors c)))]"

definition state_hash_div :: "string \<Rightarrow> comparison \<Rightarrow> divergence" where
  "state_hash_div sfx c = new_divergence ''state_hash'' (''ledger '' @ int_dec (cp_seq c) @ '' diverged'' @ sfx)
     [(''comparison'', comparison_value c)]"

definition compare_ledger :: "('s, 'e) run_env_scheme \<Rightarrow> string \<Rightarrow> bool \<Rightarrow> int \<Rightarrow> ('s, 'm) run_state_scheme
    \<Rightarrow> ('s, 'm) run_state_scheme" where
  "compare_ledger env sfx alerts seq st =
     (case CompareAtSequence (rn_cancelled env) (rn_polls env) (rn_nodes env) seq (rs_world st) of (c, s') \<Rightarrow>
       (let st1 = (with_stats count_compared st)\<lparr>rs_world := s'\<rparr> in
        if cp_agreed c then st1
        else report env (if alerts then by_signature (state_hash_div sfx c) else None) (state_hash_div sfx c) st1))"

definition compare_range :: "('s, 'e) run_env_scheme \<Rightarrow> string \<Rightarrow> bool \<Rightarrow> int \<Rightarrow> int \<Rightarrow> ('s, 'm) run_state_scheme
    \<Rightarrow> ('s, 'm) run_state_scheme" where
  "compare_range env sfx alerts lo hi st = fold (compare_ledger env sfx alerts) [lo .. hi] st"

definition invariant_div :: "string \<Rightarrow> divergence" where
  "invariant_div err = new_divergence ''invariant'' err [(''invariant'', GStr ''pool_balance_monotone'')]"

definition check_balance :: "'s run_env \<Rightarrow> bool \<Rightarrow> 's rt_state \<Rightarrow> 's rt_state" where
  "check_balance env alerts st =
     (case CheckLedger (rn_submit env) (rt_balance st) (rs_world st) of (r, b, s') \<Rightarrow>
       (let st1 = st\<lparr>rs_world := s', rt_balance := b\<rparr> in
        case r of Inr _ \<Rightarrow> st1
        | Inl e \<Rightarrow> report env (if alerts then by_signature (invariant_div e) else None) (invariant_div e) st1))"

text \<open>The layer-1 block: new ledgers, then the balance, unless \<open>server_info\<close> fails.\<close>

definition compare_new_ledgers :: "'s run_env \<Rightarrow> string \<Rightarrow> bool \<Rightarrow> 's rt_state \<Rightarrow> 's rt_state" where
  "compare_new_ledgers env sfx alerts st =
     (case ServerInfo (rn_submit env) (rs_world st) of
        (Inl _, s') \<Rightarrow> st\<lparr>rs_world := s'\<rparr>
      | (Inr info, s') \<Rightarrow>
          (let seq = lr_seq (si_validated info)
           in check_balance env alerts ((compare_range env sfx alerts (rt_last st + 1) seq (st\<lparr>rs_world := s'\<rparr>))\<lparr>rt_last := seq\<rparr>)))"

definition rt_result_div :: "string \<Rightarrow> tx \<Rightarrow> string tx_comparison \<Rightarrow> divergence" where
  "rt_result_div hash t c = new_divergence ''tx_result'' (''tx '' @ hash @ '' disagreed across nodes'')
     [(''tx_hash'', GStr hash), (''tx_type'', GStr (TransactionType t)), (''node_results'', node_results c)]"

definition rt_check :: "'s run_env \<Rightarrow> submit_result \<times> tx \<Rightarrow> 's rt_state \<Rightarrow> 's rt_state" where
  "rt_check env rt st = (case rt of (res, t) \<Rightarrow>
     if tx_hash res \<noteq> []
     then check_metadata env (soak_meta_div (tx_hash res) t) True (tx_hash res)
            (check_result env (rt_result_div (tx_hash res) t) True (tx_hash res) st)
     else st)"

definition rt_periodic :: "'s run_env \<Rightarrow> 's container_rt \<Rightarrow> bool \<Rightarrow> int \<Rightarrow> 's rt_state \<Rightarrow> 's rt_state" where
  "rt_periodic env rt batch i st =
     (if batch \<and> i mod 10 = 9 then
        compare_new_ledgers env [] True
          (case rt_watch st of None \<Rightarrow> st
           | Some ph \<Rightarrow> (case watch_tick env rt ph st of (ph', st') \<Rightarrow> st'\<lparr>rt_watch := Some ph'\<rparr>))
      else st)"

definition rt_iter :: "'s run_env \<Rightarrow> 's container_rt \<Rightarrow> bool \<Rightarrow> int \<Rightarrow> 's rt_state \<Rightarrow> 's rt_state outcome" where
  "rt_iter env rt batch i st =
     (case draw_tx env (rs_world st) (rs_gen st) (rs_tape st) of
        (Failed _, tp) \<Rightarrow> Done (with_stats count_failed (st\<lparr>rs_tape := tp\<rparr>))
      | (Panicked e, _) \<Rightarrow> Panicked e
      | (Starved, _) \<Rightarrow> Starved
      | (Done tdid, tp) \<Rightarrow>
          (case submit_step env i tdid (st\<lparr>rs_tape := tp\<rparr>) of
             (None, st1) \<Rightarrow> Done st1
           | (Some rt1, st1) \<Rightarrow> Done (rt_periodic env rt batch i (record_success env (snd rt1) (fst rt1) (rt_check env rt1 st1)))))"

fun rt_loop :: "'s run_env \<Rightarrow> 's container_rt \<Rightarrow> bool \<Rightarrow> int \<Rightarrow> nat \<Rightarrow> 's rt_state \<Rightarrow> 's rt_state outcome" where
  "rt_loop env rt batch i 0 st = Done st"
| "rt_loop env rt batch i (Suc n) st =
     (if rn_cancelled env (rs_world st) then Done st
      else case rt_iter env rt batch i st of
        Done st' \<Rightarrow> rt_loop env rt batch (i + 1) n st' | Failed e \<Rightarrow> Failed e | Panicked e \<Rightarrow> Panicked e | Starved \<Rightarrow> Starved)"

section \<open>Reproducing a run log\<close>

definition log_tx :: "run_log_entry \<Rightarrow> tx" where
  "log_tx e = \<lparr>tx_fields = le_fields e, tx_secret = le_secret e\<rparr>"

definition repro_result_div :: "int \<Rightarrow> run_log_entry \<Rightarrow> string \<Rightarrow> string tx_comparison \<Rightarrow> divergence" where
  "repro_result_div i e hash c = new_divergence ''tx_result''
     (''tx '' @ hash @ '' disagreed at step '' @ int_dec i @ '' (reproduce)'')
     [(''step'', GInt i), (''tx_type'', GStr (le_type e)), (''node_results'', node_results c)]"

definition repro_meta_div :: "int \<Rightarrow> run_log_entry \<Rightarrow> string \<Rightarrow> string tx_comparison \<Rightarrow> divergence" where
  "repro_meta_div i e hash c = new_divergence ''metadata''
     (''tx '' @ hash @ '' metadata diverged at step '' @ int_dec i @ '' (reproduce)'')
     [(''step'', GInt i), (''tx_type'', GStr (le_type e)), (''node_meta'', node_meta c)]"

definition repro_entry :: "'s run_env \<Rightarrow> int \<Rightarrow> run_log_entry \<Rightarrow> 's run_state \<Rightarrow> 's run_state" where
  "repro_entry env i e st =
     (case SubmitTxJSON (rn_submit env) (le_secret e) (le_fields e) (rs_world st) of (r, s') \<Rightarrow>
       (let st1 = (with_stats count_submitted st)\<lparr>rs_world := s'\<rparr> in
        if \<not> landed r then with_stats count_failed st1
        else (let st2 = with_stats count_succeeded st1; hash = tx_hash (projr r) in
              if hash = [] then st2
              else check_metadata env (repro_meta_div i e hash) False hash
                     (check_result env (repro_result_div i e hash) False hash st2))))"

fun repro_loop :: "'s run_env \<Rightarrow> int \<Rightarrow> run_log_entry list \<Rightarrow> 's run_state \<Rightarrow> 's run_state" where
  "repro_loop env i [] st = st"
| "repro_loop env i (e # es) st =
     (if rn_cancelled env (rs_world st) then st else repro_loop env (i + 1) es (repro_entry env i e st))"

definition Reproduce :: "(string \<Rightarrow> run_log_entry go_result) \<Rightarrow> 's run_env \<Rightarrow> 's run_state \<Rightarrow> 's run_state go_result" where
  "Reproduce unmarshal env st =
     (if length (rn_nodes env) < 2 then Inl ''need >= 2 NodeURLs for oracle comparison''
      else ebind (ewrap ''read run log: '' (ReadRunLog unmarshal (rn_refuses env) (rn_log env) (rs_disk st))) (\<lambda>es.
        Inr (repro_loop env 0 es st)))"

section \<open>Shrinking\<close>

record shrink_result =
  sh_matched :: bool
  sh_max :: int
  sh_at :: int
  sh_signature :: signature
  sh_observed :: "string list"
  sh_submitted :: int
  sh_succeeded :: int

definition shrink_div :: "string \<Rightarrow> string \<Rightarrow> go_value \<Rightarrow> string \<Rightarrow> string \<Rightarrow> divergence" where
  "shrink_div kind field v hash ty = new_divergence kind [] [(''tx_hash'', GStr hash), (''tx_type'', GStr ty), (field, v)]"

definition observe :: "divergence \<Rightarrow> int \<Rightarrow> shrink_result \<Rightarrow> shrink_result" where
  "observe d step res =
     (let res1 = res\<lparr>sh_observed := sh_observed res @ [dg_kind d]\<rparr> in
      if \<not> sh_matched res \<and> Matches (sh_signature res) (Some d) then res1\<lparr>sh_matched := True, sh_at := step\<rparr> else res1)"

definition compareTxResultDivergence :: "'s run_env \<Rightarrow> string \<Rightarrow> string \<Rightarrow> 's \<Rightarrow> divergence option \<times> 's" where
  "compareTxResultDivergence env hash ty s =
     (case CompareTxResult (rn_cancelled env) (rn_nodes env) hash s of (c, s') \<Rightarrow>
       (if tc_agreed c then None else Some (shrink_div ''tx_result'' ''node_results'' (node_results c) hash ty), s'))"

definition compareTxMetadataDivergence :: "'s run_env \<Rightarrow> string \<Rightarrow> string \<Rightarrow> 's \<Rightarrow> divergence option \<times> 's" where
  "compareTxMetadataDivergence env hash ty s =
     (case CompareTxMetadata (rn_cancelled env) (rn_nodes env) hash s of (c, s') \<Rightarrow>
       (if tc_agreed c then None else Some (shrink_div ''metadata'' ''node_meta'' (node_meta c) hash ty), s'))"

definition observe_opt :: "divergence option \<Rightarrow> int \<Rightarrow> shrink_result \<Rightarrow> shrink_result" where
  "observe_opt d step res = (case d of None \<Rightarrow> res | Some d \<Rightarrow> observe d step res)"

definition shrink_entry :: "'s run_env \<Rightarrow> (string \<Rightarrow> nat) \<Rightarrow> run_log_entry \<Rightarrow> shrink_result \<times> 's \<Rightarrow> shrink_result \<times> 's" where
  "shrink_entry env polls e rs = (case rs of (res, s) \<Rightarrow>
     (case SubmitTxJSON (rn_submit env) (le_secret e) (le_fields e) s of (r, s1) \<Rightarrow>
       (let res1 = res\<lparr>sh_submitted := sh_submitted res + 1\<rparr> in
        if \<not> landed r then (res1, s1)
        else (let res2 = res1\<lparr>sh_succeeded := sh_succeeded res1 + 1\<rparr>; hash = tx_hash (projr r) in
          if hash = [] then (res2, s1)
          else case WaitTxValidated (rn_cancelled env) (map (\<lambda>n. (n, polls (fst n))) (rn_nodes env)) hash s1 of
            (Inl _, s2) \<Rightarrow> (res2, s2)
          | (Inr _, s2) \<Rightarrow>
              (case compareTxResultDivergence env hash (le_type e) s2 of (d1, s3) \<Rightarrow>
               (case compareTxMetadataDivergence env hash (le_type e) s3 of (d2, s4) \<Rightarrow>
                 (observe_opt d2 (le_step e) (observe_opt d1 (le_step e) res2), s4)))))))"

fun shrink_loop :: "'s run_env \<Rightarrow> (string \<Rightarrow> nat) \<Rightarrow> run_log_entry list \<Rightarrow> shrink_result \<times> 's \<Rightarrow> shrink_result \<times> 's" where
  "shrink_loop env polls [] rs = rs"
| "shrink_loop env polls (e # es) rs =
     (if rn_cancelled env (snd rs) \<or> sh_max (fst rs) < le_step e then rs
      else shrink_loop env polls es (shrink_entry env polls e rs))"

definition Shrink :: "(string \<Rightarrow> divergence go_result) \<Rightarrow> (string \<Rightarrow> run_log_entry go_result) \<Rightarrow> 's run_env
    \<Rightarrow> (string \<Rightarrow> nat) \<Rightarrow> string go_result \<Rightarrow> int \<Rightarrow> disk \<Rightarrow> 's \<Rightarrow> shrink_result go_result \<times> 's" where
  "Shrink undiv unmarshal env polls file max_step d s =
     (if length (rn_nodes env) < 2 then (Inl ''need >= 2 NodeURLs for oracle comparison'', s)
      else case ewrap ''signature: '' (LoadDivergenceSignature undiv file) of
        Inl e \<Rightarrow> (Inl e, s)
      | Inr sig \<Rightarrow> (case ewrap ''read run log: '' (ReadRunLog unmarshal (rn_refuses env) (rn_log env) d) of
          Inl e \<Rightarrow> (Inl e, s)
        | Inr es \<Rightarrow>
            (case shrink_loop env polls es (\<lparr>sh_matched = False, sh_max = max_step, sh_at = 0, sh_signature = sig,
                sh_observed = [], sh_submitted = 0, sh_succeeded = 0\<rparr>, s) of (res, s') \<Rightarrow> (Inr res, s'))))"

section \<open>Replaying mainnet\<close>

record 's replay_state = "'s rt_state" +
  rp_iter :: iterator
  rp_rewriter :: rewriter

definition replay_result_div :: "string \<Rightarrow> string tx_comparison \<Rightarrow> divergence" where
  "replay_result_div hash c = new_divergence ''tx_result'' (''tx '' @ hash @ '' disagreed (replay)'')
     [(''tx_hash'', GStr hash), (''node_results'', node_results c)]"

definition replay_meta_div :: "string \<Rightarrow> string tx_comparison \<Rightarrow> divergence" where
  "replay_meta_div hash c = new_divergence ''metadata'' (''tx '' @ hash @ '' metadata diverged (replay)'')
     [(''tx_hash'', GStr hash), (''node_meta'', node_meta c)]"

definition replay_check :: "'s run_env \<Rightarrow> submit_result \<Rightarrow> 's replay_state \<Rightarrow> 's replay_state" where
  "replay_check env res st =
     (if tx_hash res \<noteq> []
      then check_metadata env (replay_meta_div (tx_hash res)) False (tx_hash res)
             (check_result env (replay_result_div (tx_hash res)) False (tx_hash res) st)
      else st)"

text \<open>The layer-1 block works on the realtime part of the state.\<close>

definition replay_periodic :: "'s run_env \<Rightarrow> bool \<Rightarrow> 's replay_state \<Rightarrow> 's replay_state" where
  "replay_periodic env batch st =
     (if batch \<and> rs_step st mod 10 = 9
      then rt_state.extend (compare_new_ledgers env '' (replay)'' False (rt_state.truncate st))
             (replay_state.fields (rp_iter st) (rp_rewriter st))
      else st)"

definition replay_tx :: "'s run_env \<Rightarrow> bool \<Rightarrow> fields \<Rightarrow> 's replay_state \<Rightarrow> 's replay_state outcome" where
  "replay_tx env batch raw st =
     (case Rewrite raw (rp_rewriter st) of
        None \<Rightarrow> Panicked ''integer divide by zero''
      | Some (r, rw) \<Rightarrow>
         (let st0 = st\<lparr>rp_rewriter := rw\<rparr> in
          case r of
            Inl _ \<Rightarrow> Done (with_stats count_failed st0)
          | Inr out \<Rightarrow>
              (case SecretFor rw (case as_string (map_of out ''Account'') of Some a \<Rightarrow> a | None \<Rightarrow> []) of
                 None \<Rightarrow> Done (with_stats count_failed st0)
               | Some secret \<Rightarrow>
                   (case submit_step (env\<lparr>rn_local := False\<rparr>) (rs_step st0) (\<lparr>tx_fields = out, tx_secret = secret\<rparr>, False) st0 of
                      (None, st1) \<Rightarrow> Done st1
                    | (Some (res, _), st1) \<Rightarrow>
                        (let st2 = replay_periodic env batch (replay_check env res st1)
                         in Done (st2\<lparr>rs_step := rs_step st2 + 1\<rparr>))))))"

text \<open>At most \<open>n\<close> transactions of the range; the flag says whether the loop stopped.\<close>

fun replay_loop :: "'s run_env \<Rightarrow> 's caller \<Rightarrow> bool \<Rightarrow> nat \<Rightarrow> 's replay_state \<Rightarrow> (bool \<times> 's replay_state) outcome" where
  "replay_loop env mcall batch 0 st = Done (False, st)"
| "replay_loop env mcall batch (Suc n) st =
     (case iter_Next mcall (rp_iter st, rs_world st) of (got, it, s') \<Rightarrow>
       (let st1 = st\<lparr>rp_iter := it, rs_world := s'\<rparr> in
        if \<not> got \<or> rn_cancelled env s' then Done (True, st1)
        else case replay_tx env batch (it_tx it) st1 of
          Done st2 \<Rightarrow> replay_loop env mcall batch n st2
        | Failed e \<Rightarrow> Failed e | Panicked e \<Rightarrow> Panicked e | Starved \<Rightarrow> Starved))"

section \<open>Setting up a run\<close>

text \<open>Funding and the trust-line mesh, each unless skipped; a failure is recorded and ends the run.\<close>

definition fund_step :: "'s run_env \<Rightarrow> string \<Rightarrow> string \<Rightarrow> pool \<Rightarrow> ('s, 'm) run_state_scheme \<Rightarrow> unit go_result \<times> ('s, 'm) run_state_scheme" where
  "fund_step env mode msg p st =
     (case FundFromGenesis (rn_submit env) p 10000000000 (rs_world st) of
        (Inl e, s') \<Rightarrow> (Inl (msg @ '': '' @ e), recordSetupFailure env mode ''fund'' e (st\<lparr>rs_world := s'\<rparr>))
      | (Inr _, s') \<Rightarrow> (Inr (), st\<lparr>rs_world := s'\<rparr>))"

definition mesh_step :: "'s run_env \<Rightarrow> string \<Rightarrow> nat \<Rightarrow> nat \<Rightarrow> pool \<Rightarrow> ('s, 'm) run_state_scheme
    \<Rightarrow> unit go_result \<times> ('s, 'm) run_state_scheme" where
  "mesh_step env mode polls3 polls2 p st =
     (case SetupState (rn_submit env) p polls3 polls2 (rs_world st) of
        (Inl e, s') \<Rightarrow> (Inl (''setup state: '' @ e), recordSetupFailure env mode ''setup_state'' e (st\<lparr>rs_world := s'\<rparr>))
      | (Inr _, s') \<Rightarrow> (Inr (), st\<lparr>rs_world := s'\<rparr>))"

definition discover_step :: "'s run_env \<Rightarrow> string \<Rightarrow> ('s, 'm) run_state_scheme \<Rightarrow> string list go_result \<times> ('s, 'm) run_state_scheme" where
  "discover_step env mode st =
     (case DiscoverEnabledAmendments (rn_submit env) (rs_world st) of
        (Inl e, s') \<Rightarrow> (Inl e, recordSetupFailure env mode ''discover_amendments'' e (st\<lparr>rs_world := s'\<rparr>))
      | (Inr names, s') \<Rightarrow> (Inr names, st\<lparr>rs_world := s'\<rparr>))"

text \<open>What \<open>SoakRun\<close> does before its loop: the amendments are asked for only when the mesh is set up.\<close>

definition soak_setup :: "'s run_env \<Rightarrow> bool \<Rightarrow> bool \<Rightarrow> nat \<Rightarrow> nat \<Rightarrow> pool \<Rightarrow> ('s, 'm) run_state_scheme
    \<Rightarrow> string list go_result \<times> ('s, 'm) run_state_scheme" where
  "soak_setup env skip_fund skip_setup polls3 polls2 p st =
     (case (if skip_fund then (Inr (), st) else fund_step env ''soak'' ''fund'' p st) of
        (Inl e, st1) \<Rightarrow> (Inl e, st1)
      | (Inr _, st1) \<Rightarrow>
          if skip_setup then (Inr [], st1)
          else (case mesh_step env ''soak'' polls3 polls2 p st1 of
             (Inl e, st2) \<Rightarrow> (Inl e, st2)
           | (Inr _, st2) \<Rightarrow> discover_step env ''soak'' st2))"

definition rt_setup :: "'s run_env \<Rightarrow> bool \<Rightarrow> bool \<Rightarrow> nat \<Rightarrow> nat \<Rightarrow> pool \<Rightarrow> ('s, 'm) run_state_scheme
    \<Rightarrow> string list go_result \<times> ('s, 'm) run_state_scheme" where
  "rt_setup env skip_fund skip_setup polls3 polls2 p st =
     (case (if skip_fund then (Inr (), st) else fund_step env ''realtime'' ''fund pool'' p st) of
        (Inl e, st1) \<Rightarrow> (Inl e, st1)
      | (Inr _, st1) \<Rightarrow>
          (case (if skip_setup then (Inr (), st1) else mesh_step env ''realtime'' polls3 polls2 p st1) of
             (Inl e, st2) \<Rightarrow> (Inl e, st2)
           | (Inr _, st2) \<Rightarrow>
               (case discover_step env ''realtime'' st2 of (r, st3) \<Rightarrow> (ewrap ''amendments: '' r, st3))))"

definition oracleEnabled :: "string list \<Rightarrow> string \<Rightarrow> bool" where
  "oracleEnabled enabled name \<longleftrightarrow> enabled = [] \<or> name \<in> set enabled"

end
