(* ===== verification/Loop_Properties.thy ===== *)
theory Loop_Properties
  imports Runners Chaos_Properties Account_Properties
begin

text \<open>
  The fuzz loops as a whole: what a soak run leaves in its run log and its counters, how the chaos
  scheduler lives in the loop, what reproducing and shrinking make of a run log.
\<close>

section \<open>What leaves the run log alone\<close>

text \<open>The path of a run log is none of the paths the recorder writes.\<close>

definition is_log_path :: "string \<Rightarrow> bool" where
  "is_log_path p \<longleftrightarrow> (\<exists>q. p = q @ ''.ndjson'')"

lemma run_log_path_ok: "is_log_path (run_log_path base seed)"
  by (simp add: is_log_path_def run_log_path_def path_join_def)

lemma log_path_differs:
  assumes "is_log_path p"
  shows "p \<noteq> path_join [dir, file_name dt t n]" "p \<noteq> path_join [dir, ''first.json'']" "p \<noteq> path_join [dir, ''count.txt'']"
proof -
  obtain q where "p = q @ ''.ndjson''" using assms by (auto simp: is_log_path_def)
  then have r: "rev p = ''nosjdn.'' @ rev q" by simp
  show "p \<noteq> path_join [dir, file_name dt t n]" "p \<noteq> path_join [dir, ''first.json'']" "p \<noteq> path_join [dir, ''count.txt'']"
    using arg_cong [where f = rev, of p] r by (auto simp: path_join_def file_name_def)
qed

lemma disk_write_other: "p \<noteq> q \<Longrightarrow> map_of (snd (disk_write refuses q data d)) p = map_of d p"
  by (simp add: disk_write_def update_conv')

lemma mirror_write_other: "is_log_path p \<Longrightarrow> map_of (mirror_write refuses r (file_name dt t n) data d) p = map_of d p"
  by (simp add: mirror_write_def Let_def disk_write_other log_path_differs)

lemma RecordDivergence_keeps_log:
  assumes "RecordDivergence dt marshal refuses now dv (r, d) = (res, r', d')" and p: "is_log_path p"
  shows "map_of d' p = map_of d p"
proof -
  have index: "map_of d2 p = map_of d1 p" if "updateSignatureIndex refuses r1 dv1 data d1 = (b, d2)" for r1 dv1 data d1 b d2
    using updateSignatureIndex_frame [OF that] log_path_differs [OF p] by blast
  show ?thesis using assms(1) log_path_differs [OF p] mirror_write_other [OF p]
    by (auto simp: RecordDivergence_def Let_def disk_write_def update_conv' dest!: index split: if_splits sum.splits prod.splits)
qed

text \<open>The books of a run: its step, its counts of submissions and successes, and its log. \<open>quiet\<close>
  operations leave them alone, and the state the particular loop adds as well.\<close>

definition same_books :: "('s, 'e) run_env_scheme \<Rightarrow> ('s, 'm) run_state_scheme \<Rightarrow> ('s, 'm) run_state_scheme \<Rightarrow> bool" where
  "same_books env st st' \<longleftrightarrow> rs_step st' = rs_step st \<and> st_submitted (rs_stats st') = st_submitted (rs_stats st)
     \<and> st_succeeded (rs_stats st') = st_succeeded (rs_stats st)
     \<and> map_of (rs_disk st') (rn_log env) = map_of (rs_disk st) (rn_log env)"

definition quiet :: "('s, 'e) run_env_scheme \<Rightarrow> ('s, 'm) run_state_scheme \<Rightarrow> ('s, 'm) run_state_scheme \<Rightarrow> bool" where
  "quiet env st st' \<longleftrightarrow> same_books env st st' \<and> run_state.more st' = run_state.more st"

lemmas quiet_defs = quiet_def same_books_def

lemma same_books_trans: "same_books env a b \<Longrightarrow> same_books env b c \<Longrightarrow> same_books env a c"
  by (simp add: same_books_def)

lemma quiet_refl [simp]: "quiet env st st"
  by (simp add: quiet_defs)

lemma quiet_trans: "quiet env a b \<Longrightarrow> quiet env b c \<Longrightarrow> quiet env a c"
  by (simp add: quiet_defs)

lemma quiet_world: "quiet env (st\<lparr>rs_world := s\<rparr>) st' = quiet env st st'" "quiet env st (st'\<lparr>rs_world := s\<rparr>) = quiet env st st'"
  by (auto simp: quiet_defs)

lemma quiet_fold: "(\<And>x st. quiet env st (f x st)) \<Longrightarrow> quiet env st (fold f xs st)"
  by (induction xs arbitrary: st) (auto intro: quiet_trans)

lemma report_quiet: "is_log_path (rn_log env) \<Longrightarrow> quiet env st (report env alert d st)"
  using RecordDivergence_keeps_log [of "rn_stamp env" "rn_marshal env" "rn_refuses env" "rn_now env (rs_world st)" d "rs_rec st" "rs_disk st"]
  by (auto simp: report_def quiet_defs split: prod.splits)

lemma check_quiet:
  assumes "is_log_path (rn_log env)"
  shows "quiet env st (check_result env mk al h st)" "quiet env st (check_metadata env mk al h st)"
proof -
  have rep: "quiet env st (report env al d (st\<lparr>rs_world := s\<rparr>))" for al d s
    using report_quiet [OF assms, of "st\<lparr>rs_world := s\<rparr>"] by (simp only: quiet_world)
  show "quiet env st (check_result env mk al h st)" "quiet env st (check_metadata env mk al h st)"
    by (auto simp: check_result_def check_metadata_def Let_def quiet_world rep split: prod.splits)
qed

lemma record_success_quiet: "quiet env st (record_success env t res st)"
  by (simp add: record_success_def quiet_defs split: prod.splits)

lemma on_crash_quiet: "is_log_path (rn_log env) \<Longrightarrow> quiet env st (on_crash env e st)"
  by (simp add: on_crash_def Let_def report_quiet)

lemma hang_visit_quiet: "quiet env st (snd (hang_visit env rt n (h, st)))"
  by (simp add: hang_visit_def quiet_defs split: prod.splits)

lemma fold_hang_quiet: "quiet env (snd hst) (snd (fold (hang_visit env rt) ns hst))"
proof (induction ns arbitrary: hst)
  case (Cons n ns)
  have "quiet env (snd hst) (snd (hang_visit env rt n hst))" using hang_visit_quiet [of env "snd hst" rt n "fst hst"] by simp
  from quiet_trans [OF this Cons] show ?case by simp
qed simp

lemma on_crash_world_quiet: "is_log_path (rn_log env) \<Longrightarrow> quiet env st (on_crash env e (st\<lparr>rs_world := s\<rparr>))"
  using on_crash_quiet [of env "st\<lparr>rs_world := s\<rparr>"] by (simp only: quiet_world)

lemma poll_one_quiet:
  assumes "is_log_path (rn_log env)"
  shows "quiet env (snd ps) (snd (poll_one (lift_rt rt) (on_crash env) n ps))"
  by (cases ps) (auto simp: poll_one_def lift_rt_def crash_report_def Let_def quiet_world on_crash_world_quiet [OF assms]
      split: prod.splits sum.splits)

lemma fold_poll_quiet:
  assumes "is_log_path (rn_log env)"
  shows "quiet env (snd ps) (snd (fold (poll_one (lift_rt rt) (on_crash env)) ns ps))"
proof (induction ns arbitrary: ps)
  case (Cons n ns)
  from quiet_trans [OF poll_one_quiet [OF assms] Cons] show ?case by simp
qed simp

section \<open>The books of the soak loop\<close>

text \<open>A row of the log tells by itself whether its transaction was accepted.\<close>

definition row_ok :: "run_log_entry \<Rightarrow> bool" where
  "row_ok e \<longleftrightarrow> accepted (le_result e)"

lemma failure_not_accepted: "\<not> landed r \<Longrightarrow> \<not> accepted (classifyFailure r)"
proof (cases r)
  case (Inl msg)
  have "\<not> accepted code" if "find (contains msg) failure_codes = Some code" for code
    using that by (auto simp: find_Some_iff failure_codes_def accepted_def nth_Cons' split: if_splits)
  with Inl show ?thesis by (auto simp: classifyFailure_def accepted_def split: option.splits)
qed (auto simp: classifyFailure_def landed_def accepted_def)

lemma submit_step_books:
  assumes line: "\<forall>e. rn_logline env e = Inr (line e)" and open_log: "\<not> rn_refuses env (rn_log env)"
    and content: "map_of (rs_disk st) (rn_log env) = Some content"
    and step: "submit_step env k tdid st = (r, st1)"
  obtains e where "le_step e = k" "row_ok e \<longleftrightarrow> r \<noteq> None"
    "map_of (rs_disk st1) (rn_log env) = Some (content @ line e @ [newline])"
    "st_submitted (rs_stats st1) = st_submitted (rs_stats st) + 1"
    "st_succeeded (rs_stats st1) = st_succeeded (rs_stats st) + (if r = None then 0 else 1)"
    "rs_step st1 = rs_step st" "run_state.more st1 = run_state.more st"
proof -
  obtain t did where td: "tdid = (t, did)" by fastforce
  obtain res t' s' where sub: "submit_tx env t (rs_world st) = (res, t', s')" by (metis prod_cases3)
  have app: "map_of (snd (log_Append (rn_logline env) (rn_refuses env) (rn_log env) e (rs_disk st))) (rn_log env)
      = Some (content @ line e @ [newline])" for e
    using log_content_Append [where marshal = "rn_logline env" and e = e and line = "line e" and path = "rn_log env"] line open_log content
    by (simp add: log_content_def)
  show thesis
  proof (cases "landed res")
    case True
    then have "row_ok (success_entry k t' (projr res))"
      by (auto simp: row_ok_def success_entry_def landed_def split: sum.splits)
    with step True show thesis
      by (intro that [of "success_entry k t' (projr res)"])
        (auto simp: submit_step_def td sub Let_def append_log_def app success_entry_def)
  next
    case False
    let ?e = "\<lparr>le_step = k, le_type = TransactionType t', le_fields = tx_fields t', le_secret = tx_secret t',
        le_result = classifyFailure res, le_hash = []\<rparr>"
    have "\<not> row_ok ?e" using failure_not_accepted [OF False] by (simp add: row_ok_def)
    with step False show thesis
      by (intro that [of ?e]) (auto simp: submit_step_def td sub Let_def append_log_def recordFailure_def app)
  qed
qed

text \<open>The books balance: the log holds one row per submission, the counters are the counts of its
  rows, and a row's step is the number of acceptances before it.\<close>

definition log_text :: "(run_log_entry \<Rightarrow> string) \<Rightarrow> run_log_entry list \<Rightarrow> string" where
  "log_text line rows = concat (map (\<lambda>e. line e @ [newline]) rows)"

definition accepted_rows :: "run_log_entry list \<Rightarrow> int" where
  "accepted_rows rows = int (length (filter row_ok rows))"

fun steps_follow :: "int \<Rightarrow> run_log_entry list \<Rightarrow> bool" where
  "steps_follow k [] = True"
| "steps_follow k (e # es) = (le_step e = k \<and> steps_follow (if row_ok e then k + 1 else k) es)"

definition booked :: "('s, 'e) run_env_scheme \<Rightarrow> (run_log_entry \<Rightarrow> string) \<Rightarrow> run_log_entry list
    \<Rightarrow> ('s, 'm) run_state_scheme \<Rightarrow> bool" where
  "booked env line rows st \<longleftrightarrow> map_of (rs_disk st) (rn_log env) = Some (log_text line rows)
     \<and> st_submitted (rs_stats st) = int (length rows) \<and> st_succeeded (rs_stats st) = accepted_rows rows
     \<and> rs_step st = accepted_rows rows \<and> steps_follow 0 rows"

lemma booked_same: "booked env line rows st \<Longrightarrow> same_books env st st' \<Longrightarrow> booked env line rows st'"
  by (simp add: booked_def same_books_def)

lemma steps_follow_append: "steps_follow k (xs @ ys) \<longleftrightarrow> steps_follow k xs \<and> steps_follow (k + accepted_rows xs) ys"
  by (induction xs arbitrary: k) (auto simp: accepted_rows_def algebra_simps)

lemma lift_rt_list: "cr_list (lift_rt rt) k v st = (r, st1) \<Longrightarrow> \<exists>s. st1 = st\<lparr>rs_world := s\<rparr>"
  by (auto simp: lift_rt_def split: prod.splits)

lemma poller_Tick_quiet:
  assumes log: "is_log_path (rn_log env)" and tick: "poller_Tick (lift_rt rt) (on_crash env) (p, st) = (r, p', st')"
  shows "quiet env st st'"
proof -
  obtain names s where list: "cr_list (lift_rt rt) (po_key p) (po_val p) st = (names, st\<lparr>rs_world := s\<rparr>)"
    using lift_rt_list by (metis surj_pair)
  show ?thesis
  proof (cases names)
    case (Inl e)
    with tick list show ?thesis by (auto simp: poller_Tick_def quiet_world)
  next
    case (Inr ns)
    with tick list have "st' = snd (fold (poll_one (lift_rt rt) (on_crash env)) ns (p, st\<lparr>rs_world := s\<rparr>))"
      by (simp add: poller_Tick_def)
    then show ?thesis using fold_poll_quiet [OF log, of "(p, st\<lparr>rs_world := s\<rparr>)" rt ns] by (simp add: quiet_world)
  qed
qed

text \<open>What the loop asks of \<open>OnPeriodic\<close>: it leaves the books of the run alone.\<close>

locale periodic_hook =
  fixes hook :: "'s soak_env \<Rightarrow> ('s, 'h) hook"
  assumes hook_books: "is_log_path (rn_log env) \<Longrightarrow> hook env = Some f \<Longrightarrow> same_books env st (f k st)"
begin

lemma watched_quiet:
  assumes "is_log_path (rn_log env)" and "ss_watch st = Some ph" and "watch_tick env rt ph st = (ph', st')"
  shows "quiet env st st'"
proof -
  obtain h st1 where v: "fold (hang_visit env rt) (rn_nodes env) (snd ph, st) = (h, st1)" by fastforce
  obtain x p st2 where t: "poller_Tick (lift_rt rt) (on_crash env) (fst ph, st1) = (x, p, st2)" by (metis prod_cases3)
  have "quiet env st st1" using fold_hang_quiet [of env "(snd ph, st)" rt "rn_nodes env"] v by simp
  moreover have "quiet env st1 st2" by (rule poller_Tick_quiet [OF assms(1) t])
  ultimately have "quiet env st st2" by (rule quiet_trans)
  with assms(3) v t show ?thesis by (simp add: watch_tick_def)
qed

lemma watched_books:
  assumes "is_log_path (rn_log env)"
  shows "same_books env st (case ss_watch st of None \<Rightarrow> st
     | Some ph \<Rightarrow> (case watch_tick env rt ph st of (ph', st') \<Rightarrow> st'\<lparr>ss_watch := Some ph'\<rparr>))"
proof (cases "ss_watch st")
  case (Some ph)
  obtain ph' st' where t: "watch_tick env rt ph st = (ph', st')" by fastforce
  from watched_quiet [OF assms Some t] Some t show ?thesis by (simp add: quiet_defs)
qed (simp add: same_books_def)

lemma more_hook: "run_state.more st' = run_state.more st \<Longrightarrow> ss_hook st' = ss_hook st"
  by (cases st; cases st') simp

lemma watched_hook:
  assumes "is_log_path (rn_log env)"
  shows "ss_hook (case ss_watch st of None \<Rightarrow> st
     | Some ph \<Rightarrow> (case watch_tick env rt ph st of (ph', st') \<Rightarrow> st'\<lparr>ss_watch := Some ph'\<rparr>)) = ss_hook st"
proof (cases "ss_watch st")
  case (Some ph)
  obtain ph' st' where t: "watch_tick env rt ph st = (ph', st')" by fastforce
  from watched_quiet [OF assms Some t] have "ss_hook st' = ss_hook st" by (intro more_hook) (simp add: quiet_def)
  with Some t show ?thesis by simp
qed simp

lemma landed_books:
  assumes "is_log_path (rn_log env)" and "soak_landed env (hook env) rt st = st'"
  shows "same_books env (st\<lparr>rs_step := rs_step st + 1\<rparr>) st'"
proof -
  let ?st1 = "st\<lparr>rs_step := rs_step st + 1\<rparr>"
  let ?st2 = "record_success env (snd rt) (fst rt) ?st1"
  let ?st3 = "soak_check env rt ?st2"
  let ?st4 = "soak_periodic env (hook env) ?st3"
  have "same_books env ?st1 ?st2" using record_success_quiet quiet_def by blast
  moreover have q3: "quiet env ?st2 ?st3" unfolding soak_check_def
    by (auto split: prod.splits intro: quiet_trans [OF check_quiet(1) check_quiet(2)] assms(1))
  ultimately have "same_books env ?st1 ?st3" using same_books_trans quiet_def by blast
  moreover have "same_books env ?st3 ?st4"
    using watched_books [OF assms(1), of ?st3 "so_rt env"] hook_books [OF assms(1)]
    by (auto simp: soak_periodic_def same_books_def Let_def split: option.splits prod.splits)
  moreover have "same_books env ?st4 st'" using assms(2) by (auto simp: soak_landed_def soak_rotate_def same_books_def)
  ultimately show ?thesis by (blast intro: same_books_trans)
qed

lemma soak_iter_books:
  assumes log: "is_log_path (rn_log env)" and line: "\<forall>e. rn_logline env e = Inr (line e)" and open_log: "\<not> rn_refuses env (rn_log env)"
    and booked: "booked env line rows st" and step: "soak_iter env (hook env) st = Done st'"
  shows "\<exists>rows'. booked env line rows' st'"
proof -
  obtain got tp where draw: "draw_tx env (rs_world st) (rs_gen st) (rs_tape st) = (got, tp)" by fastforce
  show ?thesis
  proof (cases got)
    case (Done tdid)
    obtain r st1 where sub: "submit_step env (rs_step st) tdid (st\<lparr>rs_tape := tp\<rparr>) = (r, st1)" by fastforce
    obtain e where e: "le_step e = rs_step st" "row_ok e \<longleftrightarrow> r \<noteq> None"
      "map_of (rs_disk st1) (rn_log env) = Some (log_text line rows @ line e @ [newline])"
      "st_submitted (rs_stats st1) = st_submitted (rs_stats st) + 1"
      "st_succeeded (rs_stats st1) = st_succeeded (rs_stats st) + (if r = None then 0 else 1)"
      "rs_step st1 = rs_step st" "run_state.more st1 = run_state.more st"
      by (rule submit_step_books [OF line open_log _ sub, of "log_text line rows"]) (use booked in \<open>simp_all add: booked_def\<close>)
    from booked e have after: "map_of (rs_disk st1) (rn_log env) = Some (log_text line (rows @ [e]))"
      "steps_follow 0 (rows @ [e])" "accepted_rows (rows @ [e]) = accepted_rows rows + (if r = None then 0 else 1)"
      by (simp_all add: booked_def log_text_def steps_follow_append accepted_rows_def)
    show ?thesis
    proof (cases r)
      case None
      then have "booked env line (rows @ [e]) st1" using booked e after by (simp add: booked_def)
      moreover have "st' = st1" using step draw Done sub None by (simp add: soak_iter_def)
      ultimately show ?thesis by blast
    next
      case (Some rt)
      then have "booked env line (rows @ [e]) (st1\<lparr>rs_step := rs_step st1 + 1\<rparr>)" using booked e after by (simp add: booked_def)
      moreover have "soak_landed env (hook env) rt st1 = st'" using step draw Done sub Some by (simp add: soak_iter_def)
      ultimately show ?thesis using landed_books [OF log] booked_same by blast
    qed
  next
    case (Failed e)
    then have "same_books env st st'" using step draw by (auto simp: soak_iter_def same_books_def)
    with booked show ?thesis by (blast intro: booked_same)
  qed (use step draw in \<open>simp_all add: soak_iter_def\<close>)
qed

lemma soak_loop_books:
  assumes "is_log_path (rn_log env)" and "\<forall>e. rn_logline env e = Inr (line e)" and "\<not> rn_refuses env (rn_log env)"
    and "booked env line rows st" and "soak_loop env (hook env) n st = Done st'"
  shows "\<exists>rows'. booked env line rows' st'"
  using assms(4,5)
proof (induction n arbitrary: rows st)
  case (Suc n)
  show ?case
  proof (cases "rn_cancelled env (rs_world st)")
    case False
    with Suc.prems(2) obtain st1 where it: "soak_iter env (hook env) st = Done st1" "soak_loop env (hook env) n st1 = Done st'"
      by (auto split: outcome.splits)
    with soak_iter_books [OF assms(1-3) Suc.prems(1)] Suc.IH show ?thesis by blast
  qed (use Suc.prems in auto)
qed auto

text \<open>How the part of the hook moves: only at the steps 9, 19, 29 and so on.\<close>

lemma landed_hook:
  assumes log: "is_log_path (rn_log env)" and land: "soak_landed env (hook env) rt st = st'"
  obtains st2 where "ss_hook st2 = ss_hook st" "ss_hook st' = (if (rs_step st + 1) mod 10 = 9
       then (case hook env of None \<Rightarrow> ss_hook st2 | Some f \<Rightarrow> ss_hook (f (rs_step st + 1) st2)) else ss_hook st)"
proof -
  let ?st1 = "st\<lparr>rs_step := rs_step st + 1\<rparr>"
  let ?st2 = "record_success env (snd rt) (fst rt) ?st1"
  let ?st3 = "soak_check env rt ?st2"
  let ?st4 = "case ss_watch ?st3 of None \<Rightarrow> ?st3
     | Some ph \<Rightarrow> (case watch_tick env (so_rt env) ph ?st3 of (ph', st') \<Rightarrow> st'\<lparr>ss_watch := Some ph'\<rparr>)"
  have q3: "quiet env ?st1 ?st3" unfolding soak_check_def
    by (auto split: prod.splits intro: quiet_trans [OF check_quiet(1) check_quiet(2)] log record_success_quiet quiet_trans [OF record_success_quiet])
  then have 3: "rs_step ?st3 = rs_step st + 1" "ss_hook ?st3 = ss_hook st"
    using more_hook [of ?st3 ?st1] by (simp_all add: quiet_defs)
  have 4: "ss_hook ?st4 = ss_hook st"
    using watched_hook [OF log, of ?st3 "so_rt env"] 3(2) by simp
  show thesis
    by (rule that [OF 4]) (use land 3 in \<open>auto simp: soak_landed_def soak_rotate_def soak_periodic_def Let_def split: option.splits\<close>)
qed

lemma soak_iter_hook:
  assumes log: "is_log_path (rn_log env)" and f: "hook env = Some f"
    and calm: "\<And>k h. P k h \<Longrightarrow> (k + 1) mod 10 \<noteq> 9 \<Longrightarrow> P (k + 1) h"
    and tick: "\<And>k st2. P k (ss_hook st2) \<Longrightarrow> (k + 1) mod 10 = 9 \<Longrightarrow> P (k + 1) (ss_hook (f (k + 1) st2))"
    and inv: "P (rs_step st) (ss_hook st)" and step: "soak_iter env (hook env) st = Done st'"
  shows "P (rs_step st') (ss_hook st')"
proof -
  obtain got tp where draw: "draw_tx env (rs_world st) (rs_gen st) (rs_tape st) = (got, tp)" by fastforce
  show ?thesis
  proof (cases got)
    case (Done tdid)
    obtain r st1 where sub: "submit_step env (rs_step st) tdid (st\<lparr>rs_tape := tp\<rparr>) = (r, st1)" by fastforce
    then have st1: "rs_step st1 = rs_step st" "ss_hook st1 = ss_hook st"
      by (auto simp: submit_step_def append_log_def recordFailure_def Let_def split: prod.splits if_splits)
    show ?thesis
    proof (cases r)
      case (Some rt)
      then have land: "soak_landed env (hook env) rt st1 = st'" using step draw Done sub by (simp add: soak_iter_def)
      obtain st2 where st2: "ss_hook st2 = ss_hook st1" "ss_hook st' = (if (rs_step st1 + 1) mod 10 = 9
         then (case hook env of None \<Rightarrow> ss_hook st2 | Some f \<Rightarrow> ss_hook (f (rs_step st1 + 1) st2)) else ss_hook st1)"
        by (rule landed_hook [OF log land])
      have "rs_step st' = rs_step st + 1" using landed_books [OF log land] st1 by (simp add: same_books_def)
      with st2 st1 f inv show ?thesis using calm tick [of "rs_step st" st2] by (auto split: if_splits)
    qed (use step draw Done sub st1 inv in \<open>simp add: soak_iter_def\<close>)
  qed (use step draw inv in \<open>auto simp: soak_iter_def\<close>)
qed

lemma soak_loop_hook:
  assumes log: "is_log_path (rn_log env)" and f: "hook env = Some f"
    and calm: "\<And>k h. P k h \<Longrightarrow> (k + 1) mod 10 \<noteq> 9 \<Longrightarrow> P (k + 1) h"
    and tick: "\<And>k st2. P k (ss_hook st2) \<Longrightarrow> (k + 1) mod 10 = 9 \<Longrightarrow> P (k + 1) (ss_hook (f (k + 1) st2))"
    and inv: "P (rs_step st) (ss_hook st)" and loop: "soak_loop env (hook env) n st = Done st'"
  shows "P (rs_step st') (ss_hook st')"
  using inv loop
proof (induction n arbitrary: st)
  case (Suc n)
  show ?case
  proof (cases "rn_cancelled env (rs_world st)")
    case False
    with Suc.prems(2) obtain st1 where it: "soak_iter env (hook env) st = Done st1" "soak_loop env (hook env) n st1 = Done st'"
      by (auto split: outcome.splits)
    from soak_iter_hook [OF log f calm tick Suc.prems(1) it(1)] have "P (rs_step st1) (ss_hook st1)" .
    from Suc.IH [OF this it(2)] show ?thesis .
  qed (use Suc.prems in auto)
qed auto

end

section \<open>A run with no hook, a run with chaos\<close>

interpretation plain: periodic_hook "\<lambda>_. None"
  by unfold_locales simp

lemma chaos_audit_one_books:
  assumes "is_log_path (rn_log env)"
  shows "same_books env st (chaos_audit_one env aj a st)" "cp_sched (ss_hook (chaos_audit_one env aj a st)) = cp_sched (ss_hook st)"
  using RecordDivergence_keeps_log [OF _ assms]
  by (auto simp: chaos_audit_one_def same_books_def Let_def split: prod.splits)

lemma fold_audit_books:
  assumes "is_log_path (rn_log env)"
  shows "same_books env st (fold (chaos_audit_one env aj) as st) \<and> cp_sched (ss_hook (fold (chaos_audit_one env aj) as st)) = cp_sched (ss_hook st)"
proof (induction as arbitrary: st)
  case (Cons a as)
  from chaos_audit_one_books [OF assms, where st = st and aj = aj and a = a] Cons [of "chaos_audit_one env aj a st"] show ?case
    by (auto intro: same_books_trans)
qed (simp add: same_books_def)

lemma chaos_hook_facts:
  assumes "is_log_path (rn_log env)"
  shows "same_books env st (chaos_hook env cenv aj k st)"
    and "cp_sched (ss_hook (chaos_hook env cenv aj k st)) = fst (chaos_step cenv k (cp_sched (ss_hook st), rs_world st))"
proof -
  obtain c s' where c: "chaos_step cenv k (cp_sched (ss_hook st), rs_world st) = (c, s')" by fastforce
  let ?st = "st\<lparr>rs_world := s', ss_hook := (ss_hook st)\<lparr>cp_sched := c\<rparr>\<rparr>"
  have "same_books env st ?st" by (simp add: same_books_def)
  with fold_audit_books [OF assms, of ?st aj] c
  show "same_books env st (chaos_hook env cenv aj k st)"
    and "cp_sched (ss_hook (chaos_hook env cenv aj k st)) = fst (chaos_step cenv k (cp_sched (ss_hook st), rs_world st))"
    by (auto simp: chaos_hook_def intro: same_books_trans)
qed

interpretation chaotic: periodic_hook "\<lambda>env. Some (chaos_hook env cenv aj)" for cenv aj
  by unfold_locales (auto intro: chaos_hook_facts(1))

text \<open>A run that starts: an empty log, nothing counted.\<close>

definition fresh_run :: "('s, 'e) run_env_scheme \<Rightarrow> ('s, 'm) run_state_scheme \<Rightarrow> bool" where
  "fresh_run env st \<longleftrightarrow> map_of (rs_disk st) (rn_log env) = Some [] \<and> rs_step st = 0
     \<and> st_submitted (rs_stats st) = 0 \<and> st_succeeded (rs_stats st) = 0"

lemma fresh_booked: "fresh_run env st \<Longrightarrow> booked env line [] st"
  by (simp add: fresh_run_def booked_def log_text_def accepted_rows_def)

lemma soak_run_books:
  assumes "is_log_path (rn_log env)" and "\<forall>e. rn_logline env e = Inr (line e)" and "\<not> rn_refuses env (rn_log env)"
    and "fresh_run env st" and "hook = None \<or> hook = Some (chaos_hook env cenv aj)" and "soak_loop env hook n st = Done st'"
  shows "\<exists>rows. booked env line rows st'"
  using plain.soak_loop_books [OF assms(1-3) fresh_booked [OF assms(4)]] chaotic.soak_loop_books [OF assms(1-3) fresh_booked [OF assms(4)]]
    assms(5,6) by blast

text \<open>The books of a soak run, with or without chaos, balance at any time: the run log holds one
  row per submission; the counters of submissions and successes and the step are the counts of its
  rows; and the step of a row is the number of accepted rows before it.\<close>

theorem soak_books_balance:
  assumes "is_log_path (rn_log env)" and "\<forall>e. rn_logline env e = Inr (line e)" and "\<not> rn_refuses env (rn_log env)"
    and "fresh_run env st" and "hook = None \<or> hook = Some (chaos_hook env cenv aj)" and "soak_loop env hook n st = Done st'"
  shows "\<exists>rows. map_of (rs_disk st') (rn_log env) = Some (log_text line rows)
     \<and> st_submitted (rs_stats st') = int (length rows) \<and> st_succeeded (rs_stats st') = accepted_rows rows
     \<and> rs_step st' = accepted_rows rows \<and> steps_follow 0 rows"
  using soak_run_books [OF assms] unfolding booked_def .

section \<open>Chaos at the cadence of the soak loop\<close>

text \<open>With delays that are multiples of ten nothing is overdue.\<close>

definition on_cadence :: "schedule_entry \<Rightarrow> bool" where
  "on_cadence e \<longleftrightarrow> 0 \<le> se_recover_after e \<and> se_recover_after e < 2 ^ 62 \<and> se_recover_after e mod 10 = 0"

lemma cadence_on_time:
  assumes env: "errors_named env" and reach: "chaos_reach env es (soak_ticks n) c"
    and es: "\<forall>e \<in> set es. on_cadence e" and n: "int n < 2 ^ 55"
  shows "\<forall>k \<in> fst ` set (sc_pending c). 10 * int n + 9 \<le> k"
  using reach n
proof (induction n arbitrary: c)
  case 0
  then show ?case by (auto simp: soak_ticks_def NewChaosScheduler_def elim: chaos_reach.cases)
next
  case (Suc n)
  let ?t = "10 * int n + 9"
  have ticks: "soak_ticks (Suc n) = soak_ticks n @ [?t]" by (simp add: soak_ticks_def)
  from Suc.prems(1) obtain c0 s where c0: "chaos_reach env es (soak_ticks n) c0"
    and c: "c = fst (chaos_step env ?t (c0, s))" unfolding ticks by (auto elim: chaos_reach.cases)
  let ?cs = "(c0, s)"
  have sch: "sc_schedule (fst ?cs) = es" using chaos_reach_books [OF c0 env] by simp
  obtain c1 s1 where f: "fold (fire_entry env ?t) [0 ..< length (sc_schedule (fst ?cs))] ?cs = (c1, s1)"
    and k: "fst ` set (sc_pending (fst (chaos_step env ?t ?cs))) = fst ` set (sc_pending c1) - {?t}"
    by (rule chaos_step_keys [OF env, where step = ?t and cs = ?cs])
  have due: "\<forall>k \<in> fst ` set (sc_pending (fst ?cs)). ?t \<le> k" using Suc.IH [OF c0] Suc.prems(2) by simp
  have small: "\<forall>e \<in> set (sc_schedule (fst ?cs)). 0 \<le> se_recover_after e \<and> ?t + se_recover_after e < 2 ^ 63"
    unfolding sch using es Suc.prems(2) by (auto simp: on_cadence_def dest!: bspec)
  have le: "set [0 ..< length (sc_schedule (fst ?cs))] \<subseteq> {..< length (sc_schedule (fst ?cs))}" by auto
  have late: "\<forall>k \<in> fst ` set (sc_pending c1). ?t \<le> k" using fold_fire_due [OF small _ due le, of env] f by simp
  have waits: "waits_ok (soak_ticks (Suc n)) c" by (rule chaos_reach_waits [OF Suc.prems(1) env])
  have sch': "sc_schedule c = es" using chaos_reach_books [OF Suc.prems(1) env] by simp
  show ?case
  proof
    fix j assume j: "j \<in> fst ` set (sc_pending c)"
    have "j \<in> (\<lambda>(t, e). wrap64 (t + se_recover_after e)) ` (set (soak_ticks (Suc n)) \<times> set es)"
      using waits [unfolded waits_ok_def sch'] j by (rule subsetD)
    then obtain t e where te: "t \<in> set (soak_ticks (Suc n))" "e \<in> set es" "j = wrap64 (t + se_recover_after e)"
      by (elim imageE SigmaE) (simp only: prod.case)
    then obtain i where i: "t = 10 * int i + 9" "i \<le> n" by (auto simp: soak_ticks_def less_Suc_eq_le)
    have "wrap64 (t + se_recover_after e) = t + se_recover_after e"
      using bspec [OF es te(2)] i Suc.prems by (intro wrap64_id) (auto simp: on_cadence_def)
    with te(3) i bspec [OF es te(2)] have "j mod 10 = 9" unfolding on_cadence_def by presburger
    moreover have "?t \<le> j" "j \<noteq> ?t" using j late unfolding c k by auto
    ultimately show "10 * int (Suc n) + 9 \<le> j" by presburger
  qed
qed

lemma next_tick:
  fixes j :: int
  shows "j mod 10 \<noteq> 9 \<Longrightarrow> (j + 1) div 10 = j div 10" "j mod 10 = 9 \<Longrightarrow> (j + 1) div 10 = j div 10 + 1"
    "j mod 10 = 9 \<Longrightarrow> j = 10 * (j div 10) + 9"
proof -
  have j: "j = 10 * (j div 10) + j mod 10" "0 \<le> j mod 10" "j mod 10 < 10" by simp_all
  show "(j + 1) div 10 = j div 10" if "j mod 10 \<noteq> 9"
    by (rule int_div_pos_eq [where r = "j mod 10 + 1"]) (use j that in linarith)+
  show "(j + 1) div 10 = j div 10 + 1" if "j mod 10 = 9"
    by (rule int_div_pos_eq [where r = 0]) (use j that in \<open>linarith | simp\<close>)+
  show "j = 10 * (j div 10) + 9" if "j mod 10 = 9" using j that by linarith
qed
text \<open>The ticks of the scheduler in a soak run: one at each step 9, 19, 29 and so on so far.\<close>

lemma soak_reach:
  assumes log: "is_log_path (rn_log env)" and start: "rs_step st = 0" "ss_hook st = chaos_part_start es base seed"
    and loop: "soak_loop env (Some (chaos_hook env cenv aj)) n st = Done st'"
  shows "0 \<le> rs_step st' \<and> chaos_reach cenv es (soak_ticks (nat ((rs_step st' + 1) div 10))) (cp_sched (ss_hook st'))"
proof -
  let ?P = "\<lambda>k h. 0 \<le> k \<and> chaos_reach cenv es (soak_ticks (nat ((k + 1) div 10))) (cp_sched h)"
  have calm: "?P (k + 1) h" if "?P k h" "(k + 1) mod 10 \<noteq> 9" for k h
  proof -
    note next_tick(1) [OF that(2)]
    with that show ?thesis by simp
  qed
  have tick: "?P (k + 1) (ss_hook (chaos_hook env cenv aj (k + 1) st2))" if "?P k (ss_hook st2)" "(k + 1) mod 10 = 9" for k st2
  proof -
    have d: "nat ((k + 1 + 1) div 10) = Suc (nat ((k + 1) div 10))" "k + 1 = 10 * int (nat ((k + 1) div 10)) + 9"
      using that(1) next_tick(2,3) [OF that(2)] pos_imp_zdiv_nonneg_iff [of 10 "k + 1"] by linarith+
    have "chaos_reach cenv es (soak_ticks (nat ((k + 1) div 10)) @ [k + 1]) (fst (chaos_step cenv (k + 1) (cp_sched (ss_hook st2), rs_world st2)))"
      using that(1) by (intro chaos_reach.tick) simp
    moreover have "soak_ticks (nat ((k + 1 + 1) div 10)) = soak_ticks (nat ((k + 1) div 10)) @ [k + 1]"
      unfolding d(1) using d(2) by (simp add: soak_ticks_def)
    ultimately show ?thesis using that(1) chaos_hook_facts(2) [OF log, of cenv aj "k + 1" st2] by simp
  qed
  have "?P (rs_step st) (ss_hook st)" by (simp add: start soak_ticks_def chaos_part_start_def chaos_reach.start)
  from chaotic.soak_loop_hook [where P = ?P and cenv = cenv and aj = aj, OF log refl calm tick this loop] show ?thesis by blast
qed

section \<open>Two concrete runs\<close>

text \<open>One type of transaction, replies from a script, every row a line \<open>{}\<close>.\<close>

definition only_AccountSet :: candidate where
  "only_AccountSet = \<lparr>c_type = ''AccountSet'', c_requires = [], c_can = None,
     c_build = (\<lambda>_ _. rret \<lparr>tx_fields = [(''TransactionType'', GStr ''AccountSet''), (''Account'', GStr ''rA'')], tx_secret = ''sA''\<rparr>)\<rparr>"

definition short_reply :: "string \<Rightarrow> reply" where
  "short_reply code = \<lparr>doc = Some (GMap [(''engine_result'', GStr code)]), verbatim = (\<lambda>_. None)\<rparr>"

definition sample_soak :: "reply list soak_env" where
  "sample_soak = \<lparr>rn_submit = scripted, rn_nodes = [], rn_cancelled = (\<lambda>s. s = []), rn_polls = 0, rn_refuses = (\<lambda>_. False),
     rn_stamp = (\<lambda>_. ''now''), rn_marshal = (\<lambda>_. Inr ''{}''), rn_logline = (\<lambda>_. Inr ''{}''), rn_now = (\<lambda>_. 0),
     rn_ripple = (\<lambda>_. 0), rn_from_seed = (\<lambda>_. Inl []), rn_sign = (\<lambda>_ _. Inl []),
     rn_codec = \<lparr>sha512 = id, decode_address = (\<lambda>_. Inl [])\<rparr>, rn_registry = [only_AccountSet], rn_enabled = [],
     rn_strategies = [], rn_rate = 0, rn_local = False, rn_log = run_log_path ''c'' 7,
     so_rt = \<lparr>cr_list = (\<lambda>_ _ s. (Inr [], s)), cr_inspect = (\<lambda>_ s. (Inl [], s)), cr_tail = (\<lambda>_ _ s. (Inr [], s)),
       cr_signal = (\<lambda>_ _ s. (Inr (), s))\<rparr>,
     so_state_diff = True, so_rotate = 0\<rparr>"

definition sample_start :: "reply list \<Rightarrow> 'h \<Rightarrow> (reply list, 'h) soak_state" where
  "sample_start script h = \<lparr>rs_world = script, rs_tape = map (\<lambda>_. 0) script, rs_gen = NewGenerator [],
     rs_stats = \<lparr>st_seed = 7, st_submitted = 0, st_succeeded = 0, st_failed = 0, st_mutated = 0, st_divergences = 0, st_compared = 0\<rparr>,
     rs_rec = NewRecorder ''c'' 7, rs_disk = [(run_log_path ''c'' 7, [])], rs_alert = None, rs_step = 0, rs_failseq = 0,
     ss_watch = None, ss_hook = h\<rparr>"

abbreviation sample_tx :: tx where
  "sample_tx \<equiv> \<lparr>tx_fields = [(''TransactionType'', GStr ''AccountSet''), (''Account'', GStr ''rA'')], tx_secret = ''sA''\<rparr>"

abbreviation short_result :: "string \<Rightarrow> submit_result" where
  "short_result code \<equiv> \<lparr>engine_result = code, engine_code = 0, engine_msg = [], tx_hash = [], tx_seq = 0, sr_status = []\<rparr>"

lemma sample_draw: "draw_tx sample_soak s g (0 # tp) = (Done (sample_tx, False), tp)"
  by (simp add: draw_tx_def sample_soak_def PickTx_def eligible_def only_AccountSet_def Let_def rbind_def rret_def IntN_def allIn_def)

lemma sample_submit: "code \<noteq> [] \<Longrightarrow> submit_tx sample_soak sample_tx (short_reply code # w) = (Inr (short_result code), sample_tx, w)"
  by (simp add: submit_tx_def sample_soak_def SubmitTxJSON_def with_reply_def scripted_def short_reply_def parseSubmitResult_def ebind_def ewrap_def)

lemma sample_recorded: "record_success sample_soak sample_tx (short_result code) st = st"
  by (simp add: record_success_def RecordSuccess_def Let_def TransactionType_def fieldString_def record_in_def sample_soak_def)

text \<open>One accepted round, and one refused.\<close>

definition logged_round :: "bool \<Rightarrow> run_log_entry \<Rightarrow> reply list \<Rightarrow> tape \<Rightarrow> (reply list, 'h) soak_state \<Rightarrow> (reply list, 'h) soak_state" where
  "logged_round ok e w tp st = append_log sample_soak e (st\<lparr>rs_world := w, rs_tape := tp,
     rs_stats := (if ok then count_succeeded else count_failed) (count_submitted (rs_stats st)),
     rs_step := rs_step st + (if ok then 1 else 0), rs_failseq := rs_failseq st + (if ok then 0 else 1)\<rparr>)"

lemma sample_quiet_parts: "soak_rotate sample_soak st = st" "soak_check sample_soak (short_result code, t) st = st"
  by (simp_all add: soak_rotate_def soak_check_def sample_soak_def)

lemma sample_accepted_round:
  assumes "rs_world st = short_reply ''tesSUCCESS'' # w" and "rs_tape st = 0 # tp"
  shows "soak_iter sample_soak hook st = Done (soak_periodic sample_soak hook
     (logged_round True (success_entry (rs_step st) sample_tx (short_result ''tesSUCCESS'')) w tp st))"
  using assms
  by (cases st) (simp add: soak_iter_def sample_draw submit_step_def sample_submit Let_def landed_def accepted_def soak_landed_def
      sample_quiet_parts sample_recorded logged_round_def append_log_def)

lemma sample_refused_round:
  assumes "rs_world st = short_reply ''tecPATH_DRY'' # w" and "rs_tape st = 0 # tp"
  shows "\<exists>e. soak_iter sample_soak hook st = Done (logged_round False e w tp st)"
  using assms
  by (simp add: soak_iter_def sample_draw submit_step_def sample_submit Let_def landed_def accepted_def
      recordFailure_def logged_round_def append_log_def) (cases st, simp, blast)

lemma off_tick: "rs_step st mod 10 \<noteq> 9 \<Longrightarrow> soak_periodic env hook st = st"
  by (simp add: soak_periodic_def)

lemma logged_round_parts:
  "rs_world (logged_round ok e w tp st) = w" "rs_tape (logged_round ok e w tp st) = tp"
  "ss_hook (logged_round ok e w tp st) = ss_hook st" "ss_watch (logged_round ok e w tp st) = ss_watch st"
  "rs_step (logged_round ok e w tp st) = rs_step st + (if ok then 1 else 0)"
  "st_submitted (rs_stats (logged_round ok e w tp st)) = st_submitted (rs_stats st) + 1"
  by (simp_all add: logged_round_def append_log_def)

lemma sample_not_cancelled: "rn_cancelled sample_soak s \<longleftrightarrow> s = []"
  by (simp add: sample_soak_def)

lemma sample_rounds:
  "rs_world st = replicate m (short_reply ''tesSUCCESS'') @ w \<Longrightarrow> rs_tape st = replicate m 0 @ tp \<Longrightarrow> ss_watch st = None \<Longrightarrow>
     0 \<le> rs_step st \<Longrightarrow> rs_step st + int m \<le> 8 \<Longrightarrow>
     \<exists>st'. soak_loop sample_soak hook (m + n) st = soak_loop sample_soak hook n st' \<and> rs_world st' = w \<and> rs_tape st' = tp
       \<and> ss_watch st' = None \<and> rs_step st' = rs_step st + int m \<and> ss_hook st' = ss_hook st"
proof (induction m arbitrary: st)
  case (Suc m)
  let ?st1 = "logged_round True (success_entry (rs_step st) sample_tx (short_result ''tesSUCCESS''))
     (replicate m (short_reply ''tesSUCCESS'') @ w) (replicate m 0 @ tp) st"
  have "rs_step ?st1 mod 10 \<noteq> 9" using Suc.prems(4,5) by (simp add: logged_round_parts)
  then have "soak_iter sample_soak hook st = Done ?st1"
    using sample_accepted_round [of st "replicate m (short_reply ''tesSUCCESS'') @ w" "replicate m 0 @ tp" hook] Suc.prems(1,2)
    by (simp add: off_tick)
  then have "soak_loop sample_soak hook (Suc m + n) st = soak_loop sample_soak hook (m + n) ?st1"
    using Suc.prems(1) by (simp add: sample_not_cancelled)
  moreover have "\<exists>st'. soak_loop sample_soak hook (m + n) ?st1 = soak_loop sample_soak hook n st' \<and> rs_world st' = w \<and> rs_tape st' = tp
       \<and> ss_watch st' = None \<and> rs_step st' = rs_step ?st1 + int m \<and> ss_hook st' = ss_hook ?st1"
    by (rule Suc.IH) (use Suc.prems in \<open>simp_all add: logged_round_parts\<close>)
  ultimately show ?case by (simp add: logged_round_parts add.assoc)
qed (simp, blast)

abbreviation two_submissions :: "(reply list, chaos_part) soak_state" where
  "two_submissions \<equiv> sample_start [short_reply ''tesSUCCESS'', short_reply ''tecPATH_DRY''] (chaos_part_start [] ''c'' 7)"

lemma sample_run: "\<exists>st'. soak_loop sample_soak None 2 two_submissions = Done st'
   \<and> st_submitted (rs_stats st') = 2 \<and> st_succeeded (rs_stats st') = 1"
proof -
  let ?st1 = "logged_round True (success_entry 0 sample_tx (short_result ''tesSUCCESS'')) [short_reply ''tecPATH_DRY''] [0] two_submissions"
  have "soak_iter sample_soak None two_submissions = Done ?st1"
    using sample_accepted_round [of two_submissions "[short_reply ''tecPATH_DRY'']" "[0]" None]
    by (simp add: sample_start_def off_tick logged_round_parts)
  moreover obtain e where "soak_iter sample_soak None ?st1 = Done (logged_round False e [] [] ?st1)"
    using sample_refused_round [of ?st1 "[]" "[]" None] by (auto simp: logged_round_parts)
  ultimately have "soak_loop sample_soak None 2 two_submissions = Done (logged_round False e [] [] ?st1)"
    by (simp add: numeral_2_eq_2 sample_not_cancelled logged_round_parts sample_start_def)
  moreover have "st_succeeded (rs_stats (logged_round False e [] [] ?st1)) = 1"
    by (simp add: logged_round_def append_log_def sample_start_def)
  ultimately show ?thesis by (simp add: logged_round_parts sample_start_def)
qed

lemma sample_ready: "is_log_path (rn_log sample_soak)" "\<forall>e. rn_logline sample_soak e = Inr ''{}''"
  "\<not> rn_refuses sample_soak p" "fresh_run sample_soak (sample_start script h)"
  by (simp_all add: sample_soak_def run_log_path_ok fresh_run_def sample_start_def)

text \<open>One acceptance and one refusal: two rows, one success.\<close>

theorem soak_books_balance_witness:
  "\<exists>st' rows. soak_loop sample_soak None 2 two_submissions = Done st'
     \<and> map_of (rs_disk st') (rn_log sample_soak) = Some (log_text (\<lambda>_. ''{}'') rows)
     \<and> length rows = 2 \<and> accepted_rows rows = 1 \<and> steps_follow 0 rows"
proof -
  obtain st' where st': "soak_loop sample_soak None 2 two_submissions = Done st'" "st_submitted (rs_stats st') = 2" "st_succeeded (rs_stats st') = 1"
    using sample_run by blast
  from soak_books_balance [OF sample_ready(1,2,3) sample_ready(4) disjI1 [OF refl] st'(1)] st' show ?thesis by auto
qed



end
