(* ===== verification/Log_Properties.thy ===== *)
theory Log_Properties
  imports Loop_Properties Oracle_Properties
begin

text \<open>
  What becomes of a run afterwards: the run log read back and submitted again, the shrinker's probes,
  the crash reports and hang signals of a run, the mainnet rewriter, and the alerts of the realtime loop.
\<close>

section \<open>Shrinking\<close>

text \<open>A probe differs from a longer one only in where it stops.\<close>

abbreviation with_max :: "int \<Rightarrow> shrink_result \<Rightarrow> shrink_result" where
  "with_max k r \<equiv> r\<lparr>sh_max := k\<rparr>"

lemma observe_max: "observe d i (with_max k r) = with_max k (observe d i r)"
  by (simp add: observe_def Let_def)

lemma observe_opt_max: "observe_opt d i (with_max k r) = with_max k (observe_opt d i r)"
  by (cases d) (simp_all add: observe_opt_def observe_max)

lemma max_commutes:
  "(with_max k r)\<lparr>sh_submitted := a\<rparr> = with_max k (r\<lparr>sh_submitted := a\<rparr>)"
  "(with_max k r)\<lparr>sh_succeeded := a\<rparr> = with_max k (r\<lparr>sh_succeeded := a\<rparr>)"
  by simp_all

lemma shrink_entry_max: "shrink_entry env polls e (with_max k r, s) = map_prod (with_max k) id (shrink_entry env polls e (r, s))"
  by (simp add: shrink_entry_def Let_def observe_opt_max max_commutes split: prod.split sum.split)

lemma observe_keeps:
  "(sh_matched r \<longrightarrow> sh_matched (observe d i r) \<and> sh_at (observe d i r) = sh_at r)
     \<and> (\<not> sh_matched r \<longrightarrow> sh_matched (observe d i r) \<longrightarrow> sh_at (observe d i r) = i)"
  by (simp add: observe_def Let_def)

lemma observe_opt_keeps:
  "(sh_matched r \<longrightarrow> sh_matched (observe_opt d i r) \<and> sh_at (observe_opt d i r) = sh_at r)
     \<and> (\<not> sh_matched r \<longrightarrow> sh_matched (observe_opt d i r) \<longrightarrow> sh_at (observe_opt d i r) = i)"
  using observe_keeps by (cases d) (auto simp: observe_opt_def)

lemma observe_twice_keeps:
  "(sh_matched r \<longrightarrow> sh_matched (observe_opt d2 i (observe_opt d1 i r)) \<and> sh_at (observe_opt d2 i (observe_opt d1 i r)) = sh_at r)
     \<and> (\<not> sh_matched r \<longrightarrow> sh_matched (observe_opt d2 i (observe_opt d1 i r)) \<longrightarrow> sh_at (observe_opt d2 i (observe_opt d1 i r)) = i)"
  using observe_opt_keeps [of r d1 i] observe_opt_keeps [of "observe_opt d1 i r" d2 i] by auto

lemma shrink_entry_keeps:
  assumes "shrink_entry env polls e (r, s) = (r', s')"
  shows "(sh_matched r \<longrightarrow> sh_matched r' \<and> sh_at r' = sh_at r) \<and> (\<not> sh_matched r \<longrightarrow> sh_matched r' \<longrightarrow> sh_at r' = le_step e)"
  using assms observe_twice_keeps [of "r\<lparr>sh_submitted := sh_submitted r + 1, sh_succeeded := sh_succeeded r + 1\<rparr>" _ "le_step e"]
  by (auto simp: shrink_entry_def Let_def split: prod.splits sum.splits if_splits)

lemma shrink_loop_keeps:
  assumes "shrink_loop env polls es (r, s) = (r', s')"
  shows "(sh_matched r \<longrightarrow> sh_matched r' \<and> sh_at r' = sh_at r)
     \<and> (\<not> sh_matched r \<longrightarrow> sh_matched r' \<longrightarrow> sh_at r' \<in> le_step ` set es)"
  using assms
proof (induction es arbitrary: r s)
  case (Cons e es)
  obtain r1 s1 where one: "shrink_entry env polls e (r, s) = (r1, s1)" by fastforce
  show ?case
  proof (cases "rn_cancelled env s \<or> sh_max r < le_step e")
    case False
    with Cons.prems one have "shrink_loop env polls es (r1, s1) = (r', s')" by simp
    from Cons.IH [OF this] shrink_entry_keeps [OF one] show ?thesis by auto
  qed (use Cons.prems in auto)
qed simp

text \<open>Bisection works on a log with ascending steps: a probe up to step \<open>k\<close> matches exactly when the
  longer one matched at a step not after \<open>k\<close>, and then at the same step.\<close>

lemma shrink_loop_threshold:
  assumes "sorted (map le_step es)" and "k \<le> K" and "\<not> sh_matched r"
    and "shrink_loop env polls es (with_max k r, s) = (r1, s1)" and "shrink_loop env polls es (with_max K r, s) = (r2, s2)"
  shows "(sh_matched r1 \<longleftrightarrow> sh_matched r2 \<and> sh_at r2 \<le> k) \<and> (sh_matched r1 \<longrightarrow> sh_at r1 = sh_at r2)"
  using assms(1,3-5)
proof (induction es arbitrary: r s)
  case (Cons e es)
  obtain r' s' where one: "shrink_entry env polls e (r, s) = (r', s')" by fastforce
  show ?case
  proof (cases "rn_cancelled env s")
    case False
    show ?thesis
    proof (cases "k < le_step e")
      case True
      then have "r1 = with_max k r" using Cons.prems False by simp
      moreover have "\<forall>i \<in> le_step ` set (e # es). k < i" using True Cons.prems(1) by auto
      ultimately show ?thesis using shrink_loop_keeps [OF Cons.prems(4)] Cons.prems(2) by fastforce
    next
      case here: False
      with False assms(2) Cons.prems(3,4) one
      have loops: "shrink_loop env polls es (with_max k r', s') = (r1, s1)" "shrink_loop env polls es (with_max K r', s') = (r2, s2)"
        by (simp_all add: shrink_entry_max)
      show ?thesis
      proof (cases "sh_matched r'")
        case True
        then have "sh_at r' = le_step e" using shrink_entry_keeps [OF one] Cons.prems(2) by blast
        with True here shrink_loop_keeps [OF loops(1)] shrink_loop_keeps [OF loops(2)] show ?thesis by simp
      qed (use Cons.IH [OF _ _ loops] Cons.prems(1) in simp)
    qed
  qed (use Cons.prems in auto)
qed auto

text \<open>The rows of a soak run have ascending steps.\<close>

lemma steps_follow_sorted: "steps_follow k es \<Longrightarrow> sorted (map le_step es) \<and> (\<forall>e \<in> set es. k \<le> le_step e)"
  by (induction es arbitrary: k) (fastforce split: if_splits)+


definition split_env :: "unit run_env" where
  "split_env = \<lparr>rn_submit = canned [(''submit'', GMap [(''engine_result'', GStr ''tesSUCCESS''), (''tx_json'', GMap [(''hash'', GStr ''H'')])])],
     rn_nodes = [sample_ledger_node ''a'' ''tesSUCCESS'', sample_ledger_node ''b'' ''tecPATH_DRY''],
     rn_cancelled = (\<lambda>_. False), rn_polls = 1, rn_refuses = (\<lambda>_. False),
     rn_stamp = (\<lambda>_. ''now''), rn_marshal = (\<lambda>_. Inr ''{}''), rn_logline = (\<lambda>_. Inr ''{}''), rn_now = (\<lambda>_. 0),
     rn_ripple = (\<lambda>_. 0), rn_from_seed = (\<lambda>_. Inl []), rn_sign = (\<lambda>_ _. Inl []),
     rn_codec = \<lparr>sha512 = id, decode_address = (\<lambda>_. Inl [])\<rparr>, rn_registry = [], rn_enabled = [],
     rn_strategies = [], rn_rate = 0, rn_local = False, rn_log = ''log''\<rparr>"

definition row_at :: "int \<Rightarrow> string \<Rightarrow> run_log_entry" where
  "row_at k ty = \<lparr>le_step = k, le_type = ty, le_fields = [], le_secret = [], le_result = ''tesSUCCESS'', le_hash = ''H''\<rparr>"

definition two_rows :: "string \<Rightarrow> run_log_entry go_result" where
  "two_rows l = Inr (if l = ''p'' then row_at 5 ''Payment'' else row_at 0 ''AccountSet'')"

definition payment_div :: "string \<Rightarrow> divergence go_result" where
  "payment_div _ = Inr (new_divergence ''tx_result'' [] [(''tx_type'', GStr ''Payment'')])"

abbreviation probe :: "int \<Rightarrow> shrink_result go_result \<times> unit" where
  "probe k \<equiv> Shrink payment_div two_rows split_env (\<lambda>_. 1) (Inr []) k [(''log'', [CHR ''a'', newline, CHR ''p''])] ()"

lemma two_rows_read: "ReadRunLog two_rows (rn_refuses split_env) (rn_log split_env) [(''log'', [CHR ''a'', newline, CHR ''p''])] = Inr [row_at 0 ''AccountSet'', row_at 5 ''Payment'']"
  by (simp add: ReadRunLog_def split_env_def disk_read_def newline_def two_rows_def ebind_def ewrap_def drop_cr_def maxLine_def)

lemma split_parts:
  "length (rn_nodes split_env) = 2" "rn_cancelled split_env s = False"
  "SubmitTxJSON (rn_submit split_env) sec fs s = (Inr \<lparr>engine_result = ''tesSUCCESS'', engine_code = 0, engine_msg = [], tx_hash = ''H'', tx_seq = 0, sr_status = []\<rparr>, s)"
  "WaitTxValidated (rn_cancelled split_env) (map (\<lambda>n. (n, Suc 0)) (rn_nodes split_env)) ''H'' s = (Inr (), s)"
  "compareTxResultDivergence split_env ''H'' ty s = (Some (shrink_div ''tx_result'' ''node_results''
     (GArr [GStruct [(''name'', GStr ''a''), (''result'', GStr ''tesSUCCESS'')], GStruct [(''name'', GStr ''b''), (''result'', GStr ''tecPATH_DRY'')]]) ''H'' ty), s)"
  "compareTxMetadataDivergence split_env ''H'' ty s = (None, s)"
  by (simp_all add: split_env_def SubmitTxJSON_def parseSubmitResult_def WaitTxValidated_def compareTxResultDivergence_def
      compareTxMetadataDivergence_def CompareTxResult_def CompareTxMetadata_def compare_tx_def compare_values_def node_results_def raw_text_def canned_simps)

lemmas probe_simps = Shrink_def two_rows_read shrink_entry_def split_parts Let_def row_at_def landed_def accepted_def
  observe_opt_def observe_def Matches_def Signature_def shrink_div_def string_field_def ewrap_def


section \<open>Reproducing\<close>

lemma repro_loop_fold:
  assumes "\<And>s. \<not> rn_cancelled env s"
  shows "repro_loop env (int k) es st = fold (\<lambda>(i, e). repro_entry env (int i) e) (enumerate k es) st"
proof (induction es arbitrary: k st)
  case (Cons e es)
  from Cons [of "Suc k" "repro_entry env (int k) e st"] assms show ?case by (simp add: add.commute)
qed simp

lemma read_log_text:
  assumes "\<forall>e \<in> set rows. row_codec marshal unmarshal json_form e" and "\<forall>e. marshal e = Inr (line e)"
    and "map_of d path = Some (log_text line rows)" and "\<not> refuses path"
  shows "ReadRunLog unmarshal refuses path d = Inr (map json_form rows)"
proof -
  have good: "\<forall>e \<in> set rows. line e \<noteq> [] \<and> last (line e) \<noteq> CHR 0x0D \<and> length (line e) < maxLine \<and> unmarshal (line e) = Inr (json_form e)"
    and nl: "\<forall>l \<in> set (map line rows). newline \<notin> set l"
    using assms(1,2) by (auto simp: row_codec_def)
  have "log_text line rows = concat (map (\<lambda>l. l @ [newline]) (map line rows))" by (simp add: log_text_def comp_def)
  then show ?thesis using split_nl_lines [OF nl] read_rows_lines [OF good] assms(3,4)
    by (simp add: ReadRunLog_def disk_read_def ebind_def)
qed


definition later :: "disk \<Rightarrow> unit run_state" where
  "later dk = \<lparr>rs_world = (), rs_tape = [], rs_gen = NewGenerator [],
     rs_stats = \<lparr>st_seed = 7, st_submitted = 0, st_succeeded = 0, st_failed = 0, st_mutated = 0, st_divergences = 0, st_compared = 0\<rparr>,
     rs_rec = NewRecorder ''c'' 7, rs_disk = dk, rs_alert = None, rs_step = 0, rs_failseq = 0\<rparr>"


section \<open>Alerts of the realtime loop\<close>

lemma state_hash_signature: "Signature (Some (state_hash_div sfx c)) = \<lparr>sg_kind = ''state_hash'', sg_tx_type = [], sg_field = [], sg_invariant = []\<rparr>"
  by (simp add: Signature_def state_hash_div_def stateHashField_def comparison_value_def string_field_def Let_def)

text \<open>C33: The details of a ledger divergence hold the comparison as a struct, in which the signature finds
  no field. All ledger divergences of a run have one signature key, whatever hashes differ: once one
  has been announced the webhook stays silent about every later one.\<close>

theorem state_hash_alerts_once:
  assumes "alert_Maybe (Key (Signature (Some (state_hash_div sfx c1)))) msg1 w = w1"
  shows "Key (Signature (Some (state_hash_div sfx c1))) = Key (Signature (Some (state_hash_div sfx' c2)))
     \<and> alert_Maybe (Key (Signature (Some (state_hash_div sfx' c2)))) msg2 w1 = w1"
proof -
  have key: "Key (Signature (Some (state_hash_div sfx c))) = Key \<lparr>sg_kind = ''state_hash'', sg_tx_type = [], sg_field = [], sg_invariant = []\<rparr>"
    for sfx c by (simp only: state_hash_signature)
  moreover have "Key \<lparr>sg_kind = ''state_hash'', sg_tx_type = [], sg_field = [], sg_invariant = []\<rparr> \<noteq> []" by (simp add: Key_def)
  ultimately show ?thesis using assms by (auto simp: alert_Maybe_def split: option.splits)
qed

definition ledger_split :: "int \<Rightarrow> string \<Rightarrow> comparison" where
  "ledger_split q field = \<lparr>cp_seq = q, cp_agreed = False, cp_hashes = [],
     cp_divs = [\<lparr>dv_field = field, dv_node_a = ''a'', dv_hash_a = ''A'', dv_node_b = ''b'', dv_hash_b = ''B''\<rparr>], cp_errors = []\<rparr>"

theorem state_hash_alerts_once_witness:
  "map_option wh_posts (alert_Maybe (Key (Signature (Some (state_hash_div [] (ledger_split 8 ''account_hash''))))) ''second''
     (alert_Maybe (Key (Signature (Some (state_hash_div [] (ledger_split 7 ''ledger_hash''))))) ''first'' (NewWebhook ''u''))) = Some [''first'']"
proof -
  let ?w1 = "alert_Maybe (Key (Signature (Some (state_hash_div [] (ledger_split 7 ''ledger_hash''))))) ''first'' (NewWebhook ''u'')"
  have "map_option wh_posts ?w1 = Some [''first'']" by (simp add: alert_Maybe_def NewWebhook_def)
  then show ?thesis by (simp only: state_hash_alerts_once [OF refl, THEN conjunct2])
qed

section \<open>Crashes and hangs\<close>

text \<open>Of one container the poller reports exactly the exit codes its inspections show, each once per
  stretch of equal codes. A container that ran again in between is no new stretch: a second crash with
  the same code is not reported.\<close>

theorem crash_reports: "poll_run name rs (NewPoller key val n) = remdups_adj (crash_codes rs)"
proof -
  obtain p' s' where f: "fold (\<lambda>r. poll_one (one_rt r) (\<lambda>e s. s @ [ce_exit e]) name) rs (NewPoller key val n, []) = (p', s')"
    by fastforce
  from poll_fold [OF f] f show ?thesis by (simp add: poll_run_def NewPoller_def)
qed

text \<open>The hang detector fires for a container exactly at the first sample that ends a run of equal
  ledger sequences of the required length, at most once; failed queries neither count nor reset.\<close>

theorem hang_fires_iff:
  assumes "match name" and "i < length vs" and "0 < n"
  shows "hang_run match name vs (NewHangDetector n) ! i \<longleftrightarrow>
     n \<le> int (tail_run (rev (samples (take (Suc i) vs)))) \<and> \<not> isl (vs ! i)
     \<and> (\<forall>j < i. int (tail_run (rev (samples (take (Suc j) vs)))) < n)"
  using hang_run_iff [of match name "[]" "NewHangDetector n" i vs] hang_inv_New [of name n] assms
  by (simp add: upto_sample_def NewHangDetector_def)

theorem hang_fires_iff_witness:
  "hang_run (\<lambda>_. True) ''goxrpl-1'' [Inr 5, Inl ''refused'', Inr 5] (NewHangDetector 2) ! 2"
  using hang_fires_iff [of "\<lambda>_. True" "''goxrpl-1''" 2 "[Inr 5, Inl ''refused'', Inr 5]" 2]
  by (simp add: samples_def numeral_2_eq_2 All_less_Suc)

section \<open>Rewriting mainnet transactions\<close>

lemma Rewrite_parts:
  assumes "Rewrite t rw = Some (Inr res, rw')" and "rw_ok rw" and "rw_pool rw \<noteq> []"
  obtains mid rw1 where "rw_pool rw' = rw_pool rw" "rw_ok rw'" "\<not> collapsed res"
    "\<forall>f \<in> set addressFieldPaths. address_image rw1 (fold fdel stripped t) mid f"
    "\<forall>k. k \<notin> set addressFieldPaths \<longrightarrow> map_of mid k = map_of (fold fdel stripped t) k"
    "\<forall>k. k \<notin> set iouShapedFields \<longrightarrow> map_of res k = map_of mid k" "rw_pool rw1 = rw_pool rw" "rw_cache rw1 \<subseteq>\<^sub>m rw_cache rw'"
    "\<forall>f \<in> set iouShapedFields. \<forall>m v. map_of res f = Some (GMap m) \<longrightarrow> map_of m ''issuer'' = Some (GStr v) \<longrightarrow> v = [] \<or> pool_address (rw_pool rw) v"
proof -
  obtain mid rw1 where 1: "rewrite_each rewrite_address addressFieldPaths (fold fdel stripped t, rw) = Some (mid, rw1)"
    and 2: "rewrite_each rewrite_issuer iouShapedFields (mid, rw1) = Some (res, rw')" and "\<not> collapsed res"
    using assms(1) by (auto simp: Rewrite_def split: option.splits prod.splits if_splits)
  have "distinct addressFieldPaths" "distinct iouShapedFields" by (simp_all add: addressFieldPaths_def iouShapedFields_def)
  with rewrite_addresses [OF 1 assms(2,3)] rewrite_issuers [OF 2] assms(3) \<open>\<not> collapsed res\<close> show thesis
    by (intro that [of rw1 mid]) auto
qed

text \<open>What the rewriter accepts can be submitted from the pool: the account is a pool address with a
  known secret, no signature or sequence field is left, every address is of the pool, an address keeps
  the wallet it was given first, and no currency is issued by the account itself.\<close>

theorem rewritten_tx_submittable:
  assumes "Rewrite t rw = Some (Inr res, rw')" and "rw_ok rw" and "rw_pool rw \<noteq> []"
    and "map_of t ''Account'' = Some (GStr a)" and "a \<noteq> []"
  shows "(\<exists>i s. rw_cache rw' a = Some i \<and> i < length (rw_pool rw) \<and> SecretFor rw' (w_address (rw_pool rw ! i)) = Some s
      \<and> map_of res ''Account'' = Some (GStr (w_address (rw_pool rw ! i))))
    \<and> (\<forall>f \<in> set stripped. map_of res f = None)
    \<and> (\<forall>f \<in> set addressFieldPaths. \<forall>v. map_of res f = Some (GStr v) \<longrightarrow> v = [] \<or> pool_address (rw_pool rw) v)
    \<and> (\<forall>f \<in> set iouShapedFields. \<forall>m v. map_of res f = Some (GMap m) \<longrightarrow> map_of m ''issuer'' = Some (GStr v) \<longrightarrow>
         v = [] \<or> pool_address (rw_pool rw) v \<and> map_of res ''Account'' \<noteq> Some (GStr v))"
proof -
  obtain mid rw1 where r: "rw_pool rw' = rw_pool rw" "rw_ok rw'" "\<not> collapsed res"
    "\<forall>f \<in> set addressFieldPaths. address_image rw1 (fold fdel stripped t) mid f"
    "\<forall>k. k \<notin> set addressFieldPaths \<longrightarrow> map_of mid k = map_of (fold fdel stripped t) k"
    "\<forall>k. k \<notin> set iouShapedFields \<longrightarrow> map_of res k = map_of mid k" "rw_pool rw1 = rw_pool rw" "rw_cache rw1 \<subseteq>\<^sub>m rw_cache rw'"
    "\<forall>f \<in> set iouShapedFields. \<forall>m v. map_of res f = Some (GMap m) \<longrightarrow> map_of m ''issuer'' = Some (GStr v) \<longrightarrow> v = [] \<or> pool_address (rw_pool rw) v"
    by (rule Rewrite_parts [OF assms(1-3)])
  have apart: "f \<notin> set iouShapedFields" "f \<notin> set stripped" if "f \<in> set addressFieldPaths" for f
    using that by (auto simp: addressFieldPaths_def iouShapedFields_def stripped_def)
  have addr: "map_of res f = map_of mid f" "map_of (fold fdel stripped t) f = map_of t f" if "f \<in> set addressFieldPaths" for f
    using r(6) apart [OF that] by (simp_all add: strip_fields)
  have acct: "''Account'' \<in> set addressFieldPaths" by (simp add: addressFieldPaths_def)
  with r(4) addr assms(4,5) obtain i where i: "rw_cache rw1 a = Some i" "i < length (rw_pool rw)"
    "map_of res ''Account'' = Some (GStr (w_address (rw_pool rw ! i)))"
    unfolding address_image_def r(7) by (auto dest!: bspec)
  have "rw_cache rw' a = Some i" using i(1) r(8) by (auto simp: map_le_def dom_def)
  moreover obtain s where "SecretFor rw' (w_address (rw_pool rw ! i)) = Some s"
    using SecretFor_pool [of rw' "w_address (rw_pool rw ! i)"] i(2) r(1) by (auto simp: pool_address_def)
  moreover have "map_of res f = None" if "f \<in> set stripped" for f
  proof -
    have "f \<notin> set iouShapedFields" "f \<notin> set addressFieldPaths"
      using that by (auto simp: addressFieldPaths_def iouShapedFields_def stripped_def)
    with r(5,6) that show ?thesis by (simp add: strip_fields)
  qed
  moreover have "v = [] \<or> pool_address (rw_pool rw) v" if f: "f \<in> set addressFieldPaths" and "map_of res f = Some (GStr v)" for f v
    using bspec [OF r(4) f] that(2) r(7) addr(1) [OF f]
    by (auto simp: address_image_def pool_address_def split: option.splits go_value.splits if_splits)
  moreover have "map_of res ''Account'' \<noteq> Some (GStr v)" if "f \<in> set iouShapedFields" "map_of res f = Some (GMap m)" "map_of m ''issuer'' = Some (GStr v)" for f m v
  proof
    assume "map_of res ''Account'' = Some (GStr v)"
    with that have "collapsed res" by (auto simp: collapsed_def issuer_is_def list_ex_iff intro!: bexI [of _ f])
    with r(3) show False by blast
  qed
  ultimately show ?thesis using i(2,3) r(9) by blast
qed

theorem rewritten_tx_submittable_witness:
  "\<exists>res rw'. Rewrite [(''Account'', GStr ''rM''), (''Fee'', GStr ''10''), (''TransactionType'', GStr ''AccountSet'')] (NewRewriter [sample_wallet 0 ''rA'']) = Some (Inr res, rw')
     \<and> map_of res ''Account'' = Some (GStr ''rA'') \<and> map_of res ''Fee'' = None"
proof -
  let ?t = "[(''Account'', GStr ''rM''), (''Fee'', GStr ''10''), (''TransactionType'', GStr ''AccountSet'')]"
  let ?rw = "NewRewriter [sample_wallet 0 ''rA'']"
  obtain res rw' where r: "Rewrite ?t ?rw = Some (Inr res, rw')" 
    by (simp add: Rewrite_def addressFieldPaths_def iouShapedFields_def stripped_def rewrite_address_def rewrite_issuer_def mapAddress_def
        NewRewriter_def Let_def collapsed_def issuer_is_def)
  have "\<exists>i s. rw_cache rw' ''rM'' = Some i \<and> i < length (rw_pool ?rw) \<and> SecretFor rw' (w_address (rw_pool ?rw ! i)) = Some s
      \<and> map_of res ''Account'' = Some (GStr (w_address (rw_pool ?rw ! i)))" "\<forall>f \<in> set stripped. map_of res f = None"
    using rewritten_tx_submittable [OF r rw_ok_New, of "''rM''"] by (simp_all add: NewRewriter_def)
  with r show ?thesis by (auto simp: NewRewriter_def sample_wallet_def stripped_def)
qed

end
