(* ===== verification/Scenario.thy ===== *)
theory Scenario
  imports Go_Base
begin

text \<open>
  The scenario document (\<open>sidecar/internal/api/scenario.go\<close>), its validator
  (\<open>sidecar/internal/scenario/validate.go\<close>) and its compiler to the arguments of \<open>kurtosis run\<close>
  (\<open>sidecar/internal/scenario/compile.go\<close>).

  An absent pointer, slice or map is \<open>None\<close>; a map is an association list in the order in which
  \<open>range\<close> visits it. The decoder of YAML, \<open>time.ParseDuration\<close> and the JSON encoder are parameters.
\<close>

section \<open>The document\<close>

type_synonym config = "(string \<times> string list option) list"

record amendment =
  am_id :: string
  am_name :: string

record node_override =
  no_image :: "string option"
  no_entrypoint :: "string list option"
  no_config :: "config option"

record node_group =
  ng_count :: int
  ng_image :: string
  ng_entrypoint :: "string list option"
  ng_config :: "config option"
  ng_nodes :: "node_override list option"

record network_config =
  nc_id :: "int option"
  nc_amendments :: "amendment list option"
  nc_vetoes :: "amendment list option"

record services_config =
  sv_dashboard :: "bool option"
  sv_control :: "bool option"
  sv_image :: string

datatype wire_event = WireEvent (wv_step: int) (wv_recover: int) (wv_type: string) (wv_container: string) (wv_from: string)
    (wv_to: string) (wv_iface: string) (wv_delay: int) (wv_delay_min: int) (wv_delay_max: int) (wv_feature: string)
    (wv_target: string) (wv_recurring: "wire_recurring option")
  and wire_recurring = WireRecurring (wc_every: int) (wc_until: int) (wc_jitter: int) (wc_event: "wire_event option")

record workload =
  wl_kind :: string
  wl_rate :: int
  wl_accounts :: int
  wl_rotate :: int
  wl_mutation :: rat
  wl_workers :: int
  wl_reproducer :: "string option"

record scenario =
  sn_api :: string
  sn_kind :: string
  sn_name :: string
  sn_rippled :: node_group
  sn_goxrpl :: node_group
  sn_network :: "network_config option"
  sn_workload :: workload
  sn_schedule :: "wire_event list"
  sn_observed :: bool
  sn_webhook :: string
  sn_services :: "services_config option"
  sn_duration :: string
  sn_stop_on :: "string list"
  sn_oracles :: "string list"

definition EffectiveNetworkID :: "scenario \<Rightarrow> int" where
  "EffectiveNetworkID s = (case sn_network s of None \<Rightarrow> 10000
     | Some n \<Rightarrow> (case nc_id n of None \<Rightarrow> 10000 | Some i \<Rightarrow> i))"

section \<open>Errors and patterns\<close>

record api_error =
  ae_code :: string
  ae_message :: string
  ae_field :: string
  ae_hint :: string

definition bad :: "string \<Rightarrow> string \<Rightarrow> string \<Rightarrow> api_error list" where
  "bad field msg hint = [\<lparr>ae_code = ''scenario_invalid'', ae_message = msg, ae_field = field, ae_hint = hint\<rparr>]"

definition char_in :: "char \<Rightarrow> nat \<Rightarrow> nat \<Rightarrow> bool" where
  "char_in c lo hi \<longleftrightarrow> lo \<le> of_char c \<and> of_char c \<le> hi"

definition is_digit :: "char \<Rightarrow> bool" where
  "is_digit c = char_in c 48 57"

fun split_on :: "char \<Rightarrow> string \<Rightarrow> string list" where
  "split_on d [] = [[]]"
| "split_on d (c # cs) = (if c = d then [] # split_on d cs
     else (case split_on d cs of [] \<Rightarrow> [[c]] | w # ws \<Rightarrow> (c # w) # ws))"

text \<open>\<open>kebabRE\<close>, \<open>amendmentIDRE\<close> and \<open>amendmentNameRE\<close>.\<close>

definition kebab :: "string \<Rightarrow> bool" where
  "kebab s = list_all (\<lambda>w. w \<noteq> [] \<and> list_all (\<lambda>c. char_in c 97 122 \<or> is_digit c) w) (split_on (CHR ''-'') s)"

definition amendment_id :: "string \<Rightarrow> bool" where
  "amendment_id s \<longleftrightarrow> length s = 64 \<and> list_all (\<lambda>c. is_digit c \<or> char_in c 97 102 \<or> char_in c 65 70) s"

definition amendment_name :: "string \<Rightarrow> bool" where
  "amendment_name s \<longleftrightarrow> s \<noteq> [] \<and> list_all (\<lambda>c. char_in c 65 90 \<or> char_in c 97 122 \<or> is_digit c \<or> c = CHR ''_'') s"

definition contains_any :: "string \<Rightarrow> string \<Rightarrow> bool" where
  "contains_any s cs = list_ex (\<lambda>c. c \<in> set cs) s"

definition indexed :: "string \<Rightarrow> nat \<Rightarrow> string" where
  "indexed field i = field @ ''['' @ nat_dec i @ '']''"

section \<open>Node groups\<close>

definition guardedConfigSections :: "string list" where
  "guardedConfigSections = [''server'', ''port_peer'', ''port_rpc'', ''port_ws'', ''node_db'', ''database_path'', ''debug_logfile'',
     ''ips_fixed'', ''validation_seed'', ''validation_quorum'', ''validators_file'', ''network_id'', ''amendments'', ''veto_amendments'']"

definition validateImage :: "string \<Rightarrow> string \<Rightarrow> bool \<Rightarrow> api_error list" where
  "validateImage field img supplied =
     (if \<not> supplied then []
      else if trim_space img = [] then
        bad field ''image must be non-empty; whitespace-only values are invalid''
          ''omit the image to use the Starlark default or provide a valid image reference''
      else if trim_space img \<noteq> img then
        bad field ''image must not contain leading or trailing whitespace'' ''use a valid image reference''
      else [])"

text \<open>The errors of the elements of a list, each with its index.\<close>

definition each_error :: "(nat \<Rightarrow> 'a \<Rightarrow> api_error list) \<Rightarrow> 'a list \<Rightarrow> api_error list" where
  "each_error f xs = concat (map (\<lambda>(i, x). f i x) (enumerate 0 xs))"

definition validateEntrypoint :: "string \<Rightarrow> string list option \<Rightarrow> api_error list" where
  "validateEntrypoint field entrypoint = (case entrypoint of
      None \<Rightarrow> []
    | Some [] \<Rightarrow> bad field ''entrypoint must contain at least one command'' ''omit entrypoint or provide a non-empty command list''
    | Some cmds \<Rightarrow> each_error (\<lambda>i c. if trim_space c = [] then
        bad (indexed field i) ''entrypoint command must be non-empty'' ''provide an executable or argument'' else []) cmds)"

definition config_line :: "string \<Rightarrow> nat \<Rightarrow> string \<Rightarrow> api_error list" where
  "config_line sectionField i line =
     (if contains_any line [CHR 0x0D, CHR 0x0A] then
        bad (indexed sectionField i) ''config entries must be single-line values'' ''split multiline configuration into separate list entries''
      else if has_prefix (trim_space line) ''['' then
        bad (indexed sectionField i) ''config entries must not inject an INI section'' ''put each section under its own config key''
      else [])"

definition config_section :: "string \<Rightarrow> string \<times> string list option \<Rightarrow> api_error list" where
  "config_section field sl = (case sl of (sec, lines) \<Rightarrow>
     (let sectionField = field @ ''.'' @ sec in
      if trim_space sec = [] then bad sectionField ''config section name must be non-empty'' ''use an INI section name''
      else
        (if trim_space sec \<noteq> sec \<or> contains_any sec [CHR 0x0D, CHR 0x0A, CHR ''['', CHR '']''] then
           bad sectionField ''config section name contains invalid whitespace, newline, or section delimiters''
             ''use a plain INI section name without brackets'' else [])
        @ (if to_lower sec \<in> set guardedConfigSections then
           bad sectionField (''config section '' @ go_quote sec @ '' is reserved; use the dedicated scenario field'')
             ''set network.network_id, network.amendments, or network.veto_amendments where applicable'' else [])
        @ (case lines of
             None \<Rightarrow> bad sectionField ''config section entries must be a list, not null'' ''use [] for an explicitly empty section''
           | Some ls \<Rightarrow> each_error (config_line sectionField) ls)))"

definition entries :: "config option \<Rightarrow> config" where
  "entries c = (case c of None \<Rightarrow> [] | Some ss \<Rightarrow> ss)"

definition validateConfig :: "string \<Rightarrow> config option \<Rightarrow> api_error list" where
  "validateConfig field config = concat (map (config_section field) (entries config))"

definition node_errors :: "string \<Rightarrow> nat \<Rightarrow> node_override \<Rightarrow> api_error list" where
  "node_errors field i node = (let nodeField = field @ ''.nodes['' @ nat_dec i @ '']'' in
     (case no_image node of None \<Rightarrow> [] | Some img \<Rightarrow> validateImage (nodeField @ ''.image'') img True)
     @ validateEntrypoint (nodeField @ ''.entrypoint'') (no_entrypoint node)
     @ validateConfig (nodeField @ ''.config'') (no_config node))"

definition nodes_of :: "node_group \<Rightarrow> node_override list" where
  "nodes_of g = (case ng_nodes g of None \<Rightarrow> [] | Some ns \<Rightarrow> ns)"

definition validateNodeGroup :: "string \<Rightarrow> node_group \<Rightarrow> api_error list" where
  "validateNodeGroup field g =
     validateImage (field @ ''.image'') (ng_image g) (ng_image g \<noteq> [])
     @ (case ng_nodes g of None \<Rightarrow> []
        | Some ns \<Rightarrow> if int (length ns) \<noteq> ng_count g then
            bad (field @ ''.nodes'') (''nodes must contain exactly count entries (got '' @ nat_dec (length ns) @ '', count '' @ int_dec (ng_count g) @ '')'')
              ''provide one node override for every rippled node'' else [])
     @ validateEntrypoint (field @ ''.entrypoint'') (ng_entrypoint g)
     @ validateConfig (field @ ''.config'') (ng_config g)
     @ each_error (node_errors field) (nodes_of g)"

section \<open>Amendments\<close>

text \<open>\<open>seen\<close> maps an upper-case id to the index of its first entry.\<close>

fun amendment_errors :: "string \<Rightarrow> nat \<Rightarrow> (string \<times> nat) list \<Rightarrow> amendment list \<Rightarrow> api_error list" where
  "amendment_errors field i seen [] = []"
| "amendment_errors field i seen (a # as) =
     (let entryField = indexed field i; key = to_upper (am_id a) in
      (if \<not> amendment_id (am_id a) then
         bad (entryField @ ''.id'') (''amendment id must be exactly 64 hexadecimal characters (got '' @ go_quote (am_id a) @ '')'')
           ''use the amendment's 64-character SHA-512-half ID'' else [])
      @ (if \<not> amendment_name (am_name a) then
         bad (entryField @ ''.name'') (''amendment name must contain only letters, digits, and underscores (got '' @ go_quote (am_name a) @ '')'')
           ''use the rippled amendment name'' else [])
      @ (case map_of seen key of
           Some prior \<Rightarrow> bad (entryField @ ''.id'') (''amendment id duplicates '' @ indexed field prior) ''list each amendment ID once''
                          @ amendment_errors field (Suc i) seen as
         | None \<Rightarrow> amendment_errors field (Suc i) ((key, i) # seen) as))"

definition validateAmendments :: "string \<Rightarrow> amendment list option \<Rightarrow> api_error list" where
  "validateAmendments field ams = (case ams of None \<Rightarrow> [] | Some as \<Rightarrow> amendment_errors field 0 [] as)"

text \<open>The index table of the upvotes: a later entry replaces an earlier one.\<close>

definition upvote_ids :: "amendment list \<Rightarrow> (string \<times> nat) list" where
  "upvote_ids as = rev (map (\<lambda>(i, a). (to_upper (am_id a), i)) (enumerate 0 as))"

definition validateAmendmentOverlap :: "amendment list option \<Rightarrow> amendment list option \<Rightarrow> api_error list" where
  "validateAmendmentOverlap upvotes vetoes = (case (upvotes, vetoes) of
      (Some us, Some vs) \<Rightarrow>
        each_error (\<lambda>i a. case map_of (upvote_ids us) (to_upper (am_id a)) of
            Some prior \<Rightarrow> bad (indexed ''network.veto_amendments'' i @ ''.id'')
              (''amendment id also appears in '' @ indexed ''network.amendments'' prior) ''an amendment cannot be both upvoted and vetoed''
          | None \<Rightarrow> []) vs
    | _ \<Rightarrow> [])"

section \<open>The validator\<close>

text \<open>The blocks of \<open>Validate\<close>, in its order.\<close>

definition head_errors :: "scenario \<Rightarrow> api_error list" where
  "head_errors s =
     (if sn_api s \<noteq> ''confluence/v1'' then
        bad ''apiVersion'' (''apiVersion must be '' @ go_quote ''confluence/v1'' @ '', got '' @ go_quote (sn_api s)) ''set apiVersion: confluence/v1'' else [])
     @ (if sn_kind s \<noteq> ''Scenario'' then
        bad ''kind'' (''kind must be '' @ go_quote ''Scenario'' @ '', got '' @ go_quote (sn_kind s)) ''set kind: Scenario'' else [])
     @ (if sn_name s = [] then bad ''metadata.name'' ''metadata.name is required'' []
        else if \<not> kebab (sn_name s) then
          bad ''metadata.name'' (''metadata.name must be kebab-case (got '' @ go_quote (sn_name s) @ '')'') ''use lowercase letters, digits, and single hyphens''
        else [])"

definition topology_errors :: "scenario \<Rightarrow> api_error list" where
  "topology_errors s =
     (let r = sn_rippled s; g = sn_goxrpl s; total = wrap64 (ng_count r + ng_count g);
          hint = ''set topology.rippled.count + topology.goxrpl.count between 2 and 10'' in
      (if ng_count r < 0 then bad ''topology.rippled.count'' ''topology.rippled.count must be >= 0'' [] else [])
      @ (if ng_count g < 0 then bad ''topology.goxrpl.count'' ''topology.goxrpl.count must be >= 0'' [] else [])
      @ (if total < 2 then bad ''topology'' (''topology must declare at least 2 total nodes (got '' @ int_dec total @ '')'') hint
         else if 10 < total then bad ''topology'' (''topology must declare at most 10 total nodes (got '' @ int_dec total @ '')'') hint else [])
      @ validateNodeGroup ''topology.rippled'' r
      @ validateImage ''topology.goxrpl.image'' (ng_image g) (ng_image g \<noteq> [])
      @ (if ng_entrypoint g \<noteq> None then bad ''topology.goxrpl.entrypoint'' ''topology.goxrpl.entrypoint is not supported'' ''set entrypoint under topology.rippled'' else [])
      @ (if ng_config g \<noteq> None then bad ''topology.goxrpl.config'' ''topology.goxrpl.config is not supported'' ''set config under topology.rippled'' else [])
      @ (if ng_nodes g \<noteq> None then bad ''topology.goxrpl.nodes'' ''topology.goxrpl.nodes is not supported'' ''set nodes under topology.rippled'' else []))"

definition maxNetworkID :: int where
  "maxNetworkID = 4294967295"

definition network_errors :: "scenario \<Rightarrow> api_error list" where
  "network_errors s = (case sn_network s of None \<Rightarrow> []
    | Some n \<Rightarrow>
        (case nc_id n of None \<Rightarrow> []
         | Some i \<Rightarrow> if i < 0 \<or> maxNetworkID < i then
             bad ''network.network_id'' (''network.network_id must be between 0 and '' @ int_dec maxNetworkID @ '' (got '' @ int_dec i @ '')'')
               ''use a non-negative 32-bit network ID'' else [])
        @ validateAmendments ''network.amendments'' (nc_amendments n)
        @ validateAmendments ''network.veto_amendments'' (nc_vetoes n)
        @ validateAmendmentOverlap (nc_amendments n) (nc_vetoes n))"

definition customRippledConfig :: "scenario \<Rightarrow> bool" where
  "customRippledConfig s \<longleftrightarrow> entries (ng_config (sn_rippled s)) \<noteq> [] \<or> list_ex (\<lambda>n. entries (no_config n) \<noteq> []) (nodes_of (sn_rippled s))"

definition local_only :: "scenario \<Rightarrow> bool" where
  "local_only s \<longleftrightarrow> sn_network s \<noteq> None \<or> customRippledConfig s"

definition local_errors :: "scenario \<Rightarrow> api_error list" where
  "local_errors s =
     (let other = (wl_kind (sn_workload s) \<noteq> ''none'' \<or> ng_count (sn_goxrpl s) \<noteq> 0);
          hint = ''run a rippled-only local network before changing genesis settings'' in
      (if sn_network s \<noteq> None \<and> other then
         bad ''network'' ''custom network settings require workload.kind=none with topology.goxrpl.count=0'' hint else [])
      @ (if customRippledConfig s \<and> other then
         bad ''topology.rippled.config'' ''custom rippled config requires workload.kind=none with topology.goxrpl.count=0'' hint else []))"

definition workload_errors :: "scenario \<Rightarrow> api_error list" where
  "workload_errors s =
     (let k = wl_kind (sn_workload s) in
      if k = ''soak'' \<or> k = ''none'' then []
      else if k = ''fuzz'' then
        (if sn_schedule s = [] then
           bad ''workload.kind'' ''workload.kind=fuzz requires chaos.schedule entries in M1''
             ''either add chaos.schedule entries (becomes a chaos run) or pick a different workload'' else [])
      else if k = ''shrink'' then
        bad ''workload.kind'' ''workload.kind=shrink is not yet supported by the M1 scenario schema'' ''use confluence shrink directly until M2 adds shrink_args''
      else if k = ''replay'' then
        (if wl_reproducer (sn_workload s) = None \<or> wl_reproducer (sn_workload s) = Some [] then
           bad ''workload.reproducer.id'' ''workload.kind=replay requires reproducer.id'' ''set workload.reproducer.id or change workload.kind'' else [])
      else if k = [] then bad ''workload.kind'' ''workload.kind is required'' ''one of: soak, fuzz, replay, none''
      else bad ''workload.kind'' (''unknown workload.kind '' @ go_quote k) ''one of: soak, fuzz, replay, none'')"

definition budget_errors :: "(string \<Rightarrow> int go_result) \<Rightarrow> scenario \<Rightarrow> api_error list" where
  "budget_errors parse s =
     (if sn_duration s = [] then
        (if wl_kind (sn_workload s) \<noteq> ''none'' then bad ''budget.duration'' ''budget.duration is required'' (''e.g. '' @ go_quote ''10m'') else [])
      else (case parse (sn_duration s) of
          Inl e \<Rightarrow> bad ''budget.duration'' (''budget.duration is not a valid Go duration: '' @ e)
            (''use values like '' @ go_quote ''30s'' @ '', '' @ go_quote ''10m'' @ '', '' @ go_quote ''2h'')
        | Inr d \<Rightarrow> if d \<le> 0 then bad ''budget.duration'' ''budget.duration must be positive''
            (''use a duration greater than 0, such as '' @ go_quote ''10m'') else []))"

definition allowedStopOn :: "string list" where
  "allowedStopOn = [''first_divergence'', ''first_crash'', ''none'']"

definition allowedOracle :: "string list" where
  "allowedOracle = [''state_diff'', ''consensus_liveness'', ''peer_health'']"

definition name_errors :: "string \<Rightarrow> string \<Rightarrow> string list \<Rightarrow> string \<Rightarrow> string list \<Rightarrow> api_error list" where
  "name_errors field what allowed hint xs = each_error (\<lambda>i v. if v \<notin> set allowed then
     bad (indexed field i) (''unknown '' @ what @ '' '' @ go_quote v) hint else []) xs"

definition services_errors :: "scenario \<Rightarrow> api_error list" where
  "services_errors s = (case sn_services s of None \<Rightarrow> []
    | Some sv \<Rightarrow>
        validateImage ''services.sidecar_image'' (sv_image sv) (sv_image sv \<noteq> [])
        @ (if wl_kind (sn_workload s) \<noteq> ''none'' \<and> sv_control sv = Some False then
             bad ''services.control'' ''services.control must be enabled for workload runs''
               ''omit services.control or set it to true; only workload.kind=none may disable control'' else []))"

definition Validate :: "(string \<Rightarrow> int go_result) \<Rightarrow> scenario option \<Rightarrow> api_error list" where
  "Validate parse so = (case so of
      None \<Rightarrow> bad ''scenario'' ''scenario is required'' ''provide a Scenario document''
    | Some s \<Rightarrow>
        head_errors s @ topology_errors s @ network_errors s @ local_errors s @ workload_errors s @ budget_errors parse s
        @ name_errors ''budget.stop_on'' ''stop_on value'' allowedStopOn ''one of: first_divergence, first_crash, none'' (sn_stop_on s)
        @ name_errors ''oracles'' ''oracle'' allowedOracle ''one of: state_diff, consensus_liveness, peer_health'' (sn_oracles s)
        @ services_errors s)"

section \<open>The compiler\<close>

definition workloadToTestSuite :: "string \<Rightarrow> bool \<Rightarrow> string" where
  "workloadToTestSuite kind hasSchedule =
     (if kind = ''soak'' then ''soak''
      else if kind = ''fuzz'' then (if hasSchedule then ''chaos'' else ''fuzz'')
      else if kind = ''none'' then ''none'' else kind)"

text \<open>\<open>key\<close> present with the value of \<open>f\<close> when the option is, absent otherwise.\<close>

definition optional :: "string \<Rightarrow> ('a \<Rightarrow> go_value) \<Rightarrow> 'a option \<Rightarrow> fields" where
  "optional key f x = (case x of None \<Rightarrow> [] | Some v \<Rightarrow> [(key, f v)])"

definition nonempty :: "string \<Rightarrow> string option" where
  "nonempty s = (if s = [] then None else Some s)"

definition strings_value :: "string list \<Rightarrow> go_value" where
  "strings_value xs = GArr (map GStr xs)"

text \<open>\<open>cloneConfig\<close>, \<open>cloneStrings\<close> and \<open>cloneAmendments\<close> copy.\<close>

definition config_value :: "config \<Rightarrow> go_value" where
  "config_value c = GMap (map (\<lambda>(sec, ls). (sec, case ls of None \<Rightarrow> GNil | Some xs \<Rightarrow> strings_value xs)) c)"

definition amendments_value :: "amendment list \<Rightarrow> go_value" where
  "amendments_value as = GArr (map (\<lambda>a. GStruct [(''id'', GStr (am_id a)), (''name'', GStr (am_name a))]) as)"

definition node_value :: "nat \<Rightarrow> node_override \<Rightarrow> go_value" where
  "node_value i n = GMap ((''name'', GStr (''rippled-'' @ nat_dec i))
     # optional ''image'' GStr (Option.bind (no_image n) nonempty)
     @ optional ''entrypoint'' strings_value (no_entrypoint n)
     @ optional ''config'' config_value (no_config n))"

definition network_value :: "scenario \<Rightarrow> network_config \<Rightarrow> go_value" where
  "network_value s n = GMap ((''network_id'', GInt (EffectiveNetworkID s))
     # optional ''amendments'' amendments_value (nc_amendments n)
     @ optional ''veto_amendments'' amendments_value (nc_vetoes n))"

definition work_args :: "scenario \<Rightarrow> fields" where
  "work_args s = (let w = sn_workload s in
     [(''tx_rate'', GInt (wl_rate w)), (''accounts'', GInt (wl_accounts w)), (''rotate_every'', GInt (wl_rotate w)),
      (''mutation_rate'', GFloat (wl_mutation w)), (''submit_workers'', GInt (wl_workers w)),
      (''enable_observability'', GBool (sn_observed s)), (''alert_webhook_url'', GStr (sn_webhook s)),
      (''oracles'', GStr (str_join '','' (sn_oracles s)))])"

definition base_args :: "scenario \<Rightarrow> fields" where
  "base_args s = (let r = sn_rippled s; g = sn_goxrpl s in
     [(''test_suite'', GStr (workloadToTestSuite (wl_kind (sn_workload s)) (sn_schedule s \<noteq> []))),
      (''goxrpl_count'', GInt (ng_count g)), (''rippled_count'', GInt (ng_count r))]
     @ optional ''rippled_image'' GStr (nonempty (ng_image r))
     @ optional ''goxrpl_image'' GStr (nonempty (ng_image g))
     @ optional ''rippled_entrypoint'' strings_value (ng_entrypoint r)
     @ optional ''rippled_config'' config_value (ng_config r)
     @ (if nodes_of r \<noteq> [] then [(''rippled_nodes'', GArr (map (\<lambda>(i, n). node_value i n) (enumerate 0 (nodes_of r))))] else [])
     @ optional ''network_config'' (network_value s) (sn_network s)
     @ (case sn_services s of None \<Rightarrow> []
        | Some sv \<Rightarrow> optional ''enable_dashboard'' GBool (sv_dashboard sv) @ optional ''enable_control'' GBool (sv_control sv)
                    @ optional ''sidecar_image'' GStr (nonempty (sv_image sv))))"

text \<open>\<open>wire\<close> encodes the schedule, \<open>marshal\<close> the arguments. The work arguments are written into the chaos
  arguments after the schedule, key by key.\<close>

definition Compile :: "(string \<Rightarrow> int go_result) \<Rightarrow> (wire_event list \<Rightarrow> string go_result) \<Rightarrow> (fields \<Rightarrow> string go_result)
    \<Rightarrow> scenario option \<Rightarrow> string go_result" where
  "Compile parse wire marshal so =
     (case (Validate parse so, so) of
        (e # es, _) \<Rightarrow> Inl (''scenario invalid: '' @ nat_dec (Suc (length es)) @ '' error(s); first: '' @ ae_message e @ '' ('' @ ae_field e @ '')'')
      | ([], None) \<Rightarrow> Inl ''unreachable''
      | ([], Some s) \<Rightarrow>
          if wl_kind (sn_workload s) = ''replay'' then
            Inl ''scenario: replay workloads are not compiled directly; use confluence replay''
          else if wl_kind (sn_workload s) = ''soak'' then marshal (fset ''soak_args'' (GMap (work_args s)) (base_args s))
          else if wl_kind (sn_workload s) = ''fuzz'' then
            ebind (ewrap ''scenario: marshal chaos schedule: '' (wire (sn_schedule s))) (\<lambda>js.
              marshal (fset ''chaos_args'' (GMap (fold (\<lambda>(k, v). fset k v) (work_args s) [(''schedule'', GStr js)])) (base_args s)))
          else marshal (base_args s))"

end
