(* ===== verification/Scenario_Properties.thy ===== *)
theory Scenario_Properties
  imports Scenario "HOL-Library.Sublist"
begin

text \<open>
  What a valid scenario is, stated without the validator; the validator accepts exactly those. What
  the compiler makes of a valid scenario.
\<close>

section \<open>Valid scenarios\<close>

definition clean :: "string \<Rightarrow> bool" where
  "clean s \<longleftrightarrow> s \<noteq> [] \<and> trim_space s = s"

definition entrypoint_ok :: "string list option \<Rightarrow> bool" where
  "entrypoint_ok e \<longleftrightarrow> (\<forall>cmds. e = Some cmds \<longrightarrow> cmds \<noteq> [] \<and> (\<forall>c \<in> set cmds. trim_space c \<noteq> []))"

definition line_ok :: "string \<Rightarrow> bool" where
  "line_ok l \<longleftrightarrow> CHR 0x0D \<notin> set l \<and> CHR 0x0A \<notin> set l \<and> \<not> has_prefix (trim_space l) ''[''"

definition section_ok :: "string \<times> string list option \<Rightarrow> bool" where
  "section_ok sl \<longleftrightarrow> clean (fst sl) \<and> set (fst sl) \<inter> {CHR 0x0D, CHR 0x0A, CHR ''['', CHR '']''} = {}
     \<and> to_lower (fst sl) \<notin> set guardedConfigSections \<and> (\<exists>ls. snd sl = Some ls \<and> (\<forall>l \<in> set ls. line_ok l))"

definition config_ok :: "config option \<Rightarrow> bool" where
  "config_ok c \<longleftrightarrow> (\<forall>sl \<in> set (entries c). section_ok sl)"

definition override_ok :: "node_override \<Rightarrow> bool" where
  "override_ok n \<longleftrightarrow> (\<forall>img. no_image n = Some img \<longrightarrow> clean img) \<and> entrypoint_ok (no_entrypoint n) \<and> config_ok (no_config n)"

definition group_ok :: "node_group \<Rightarrow> bool" where
  "group_ok g \<longleftrightarrow> (ng_image g = [] \<or> clean (ng_image g)) \<and> entrypoint_ok (ng_entrypoint g) \<and> config_ok (ng_config g)
     \<and> (\<forall>ns. ng_nodes g = Some ns \<longrightarrow> int (length ns) = ng_count g \<and> (\<forall>n \<in> set ns. override_ok n))"

definition upper_ids :: "amendment list option \<Rightarrow> string list" where
  "upper_ids as = (case as of None \<Rightarrow> [] | Some xs \<Rightarrow> map (\<lambda>a. to_upper (am_id a)) xs)"

definition amendments_ok :: "amendment list option \<Rightarrow> bool" where
  "amendments_ok as \<longleftrightarrow> distinct (upper_ids as)
     \<and> (\<forall>xs. as = Some xs \<longrightarrow> (\<forall>a \<in> set xs. amendment_id (am_id a) \<and> amendment_name (am_name a)))"

definition network_ok :: "network_config \<Rightarrow> bool" where
  "network_ok n \<longleftrightarrow> (\<forall>i. nc_id n = Some i \<longrightarrow> 0 \<le> i \<and> i < 2 ^ 32) \<and> amendments_ok (nc_amendments n) \<and> amendments_ok (nc_vetoes n)
     \<and> set (upper_ids (nc_amendments n)) \<inter> set (upper_ids (nc_vetoes n)) = {}"

definition workload_ok :: "scenario \<Rightarrow> bool" where
  "workload_ok s \<longleftrightarrow> wl_kind (sn_workload s) = ''soak'' \<or> wl_kind (sn_workload s) = ''none''
     \<or> wl_kind (sn_workload s) = ''fuzz'' \<and> sn_schedule s \<noteq> []
     \<or> wl_kind (sn_workload s) = ''replay'' \<and> (\<exists>i. wl_reproducer (sn_workload s) = Some i \<and> i \<noteq> [])"

definition budget_ok :: "(string \<Rightarrow> int go_result) \<Rightarrow> scenario \<Rightarrow> bool" where
  "budget_ok parse s \<longleftrightarrow> (if sn_duration s = [] then wl_kind (sn_workload s) = ''none'' else \<exists>d. parse (sn_duration s) = Inr d \<and> 0 < d)"

text \<open>A run of mainnet-like genesis settings has rippled nodes only and no workload.\<close>

definition scenario_ok :: "(string \<Rightarrow> int go_result) \<Rightarrow> scenario \<Rightarrow> bool" where
  "scenario_ok parse s \<longleftrightarrow> sn_api s = ''confluence/v1'' \<and> sn_kind s = ''Scenario'' \<and> sn_name s \<noteq> [] \<and> kebab (sn_name s)
     \<and> 0 \<le> ng_count (sn_rippled s) \<and> 0 \<le> ng_count (sn_goxrpl s)
     \<and> ng_count (sn_rippled s) + ng_count (sn_goxrpl s) \<in> {2 .. 10}
     \<and> group_ok (sn_rippled s)
     \<and> (ng_image (sn_goxrpl s) = [] \<or> clean (ng_image (sn_goxrpl s)))
     \<and> ng_entrypoint (sn_goxrpl s) = None \<and> ng_config (sn_goxrpl s) = None \<and> ng_nodes (sn_goxrpl s) = None
     \<and> (\<forall>n. sn_network s = Some n \<longrightarrow> network_ok n)
     \<and> (local_only s \<longrightarrow> wl_kind (sn_workload s) = ''none'' \<and> ng_count (sn_goxrpl s) = 0)
     \<and> workload_ok s \<and> budget_ok parse s
     \<and> set (sn_stop_on s) \<subseteq> set allowedStopOn \<and> set (sn_oracles s) \<subseteq> set allowedOracle
     \<and> (\<forall>sv. sn_services s = Some sv \<longrightarrow> (sv_image sv = [] \<or> clean (sv_image sv))
          \<and> (wl_kind (sn_workload s) \<noteq> ''none'' \<longrightarrow> sv_control sv \<noteq> Some False))"

section \<open>The validator accepts exactly these\<close>

lemma bad_not_Nil [simp]: "bad f m h \<noteq> []"
  by (simp add: bad_def)

lemma each_error_Nil: "each_error f xs = [] \<longleftrightarrow> (\<forall>i < length xs. f i (xs ! i) = [])"
proof -
  have "(\<forall>p \<in> set (enumerate 0 xs). f (fst p) (snd p) = []) \<longleftrightarrow> (\<forall>i < length xs. f i (xs ! i) = [])"
    by (auto simp: Ball_def in_set_enumerate_eq)
  then show ?thesis by (simp add: each_error_def split_beta)
qed

lemma each_error_set: "(\<And>i x. f i x = [] \<longleftrightarrow> P x) \<Longrightarrow> each_error f xs = [] \<longleftrightarrow> (\<forall>x \<in> set xs. P x)"
  by (simp add: each_error_Nil all_set_conv_all_nth)

lemma trim_space_Nil [simp]: "trim_space [] = []"
  by (simp add: trim_space_def)

lemma validateImage_Nil: "validateImage f img b = [] \<longleftrightarrow> (b \<longrightarrow> clean img)"
  by (auto simp: validateImage_def clean_def)

lemma validateEntrypoint_Nil: "validateEntrypoint f e = [] \<longleftrightarrow> entrypoint_ok e"
proof (cases e)
  case (Some cmds)
  then show ?thesis
    by (cases cmds) (auto simp: validateEntrypoint_def entrypoint_ok_def each_error_set [where P = "\<lambda>c. trim_space c \<noteq> []"])
qed (simp add: validateEntrypoint_def entrypoint_ok_def)

lemma contains_any_iff: "contains_any s cs \<longleftrightarrow> set s \<inter> set cs \<noteq> {}"
  by (auto simp: contains_any_def list_ex_iff)

lemma config_line_Nil: "config_line f i l = [] \<longleftrightarrow> line_ok l"
  by (auto simp: config_line_def line_ok_def contains_any_iff)

lemma config_section_Nil: "config_section f sl = [] \<longleftrightarrow> section_ok sl"
proof -
  obtain sec ls where sl: "sl = (sec, ls)" by fastforce
  have lines: "(case ls of None \<Rightarrow> bad g m h | Some xs \<Rightarrow> each_error (config_line g) xs) = []
      \<longleftrightarrow> (\<exists>xs. ls = Some xs \<and> (\<forall>l \<in> set xs. line_ok l))" for g m h
    by (cases ls) (simp_all add: each_error_set config_line_Nil)
  show ?thesis
    by (auto simp: sl config_section_def section_ok_def Let_def clean_def lines contains_any_iff)
qed

lemma validateConfig_Nil: "validateConfig f c = [] \<longleftrightarrow> config_ok c"
  by (simp add: validateConfig_def config_ok_def config_section_Nil)

lemma node_errors_Nil: "node_errors f i n = [] \<longleftrightarrow> override_ok n"
  by (auto simp: node_errors_def override_ok_def Let_def validateImage_Nil validateEntrypoint_Nil validateConfig_Nil split: option.split)

lemma validateNodeGroup_Nil: "validateNodeGroup f g = [] \<longleftrightarrow> group_ok g"
  by (auto simp: validateNodeGroup_def group_ok_def validateImage_Nil validateEntrypoint_Nil validateConfig_Nil nodes_of_def
      each_error_set [where P = override_ok] node_errors_Nil split: option.split)

lemma amendment_errors_Nil:
  "amendment_errors f i seen as = [] \<longleftrightarrow> (\<forall>a \<in> set as. amendment_id (am_id a) \<and> amendment_name (am_name a))
     \<and> distinct (map (\<lambda>a. to_upper (am_id a)) as) \<and> set (map (\<lambda>a. to_upper (am_id a)) as) \<inter> fst ` set seen = {}"
proof (induction as arbitrary: i seen)
  case (Cons a as)
  show ?case
  proof (cases "map_of seen (to_upper (am_id a))")
    case None
    then have "to_upper (am_id a) \<notin> fst ` set seen" by (simp add: map_of_eq_None_iff)
    with None Cons.IH show ?thesis by (auto simp: Let_def)
  next
    case (Some k)
    then have "to_upper (am_id a) \<in> fst ` set seen" by (metis map_of_eq_None_iff option.distinct(1))
    with Some show ?thesis by (auto simp: Let_def)
  qed
qed simp

lemma validateAmendments_Nil: "validateAmendments f as = [] \<longleftrightarrow> amendments_ok as"
  by (auto simp: validateAmendments_def amendments_ok_def upper_ids_def amendment_errors_Nil split: option.split)

lemma upvote_ids_keys: "map_of (upvote_ids us) k = None \<longleftrightarrow> k \<notin> set (upper_ids (Some us))"
proof -
  have "map fst (upvote_ids us) = rev (map (\<lambda>a. to_upper (am_id a)) (map snd (enumerate 0 us)))"
    unfolding upvote_ids_def by (simp add: rev_map split_beta del: map_snd_enumerate)
  then have "fst ` set (upvote_ids us) = set (upper_ids (Some us))"
    by (metis list.set_map map_snd_enumerate option.simps(5) set_rev upper_ids_def)
  then show ?thesis by (simp add: map_of_eq_None_iff)
qed

lemma disjoint_image: "A \<inter> f ` B = {} \<longleftrightarrow> (\<forall>b \<in> B. f b \<notin> A)"
  by auto

lemma validateAmendmentOverlap_Nil: "validateAmendmentOverlap us vs = [] \<longleftrightarrow> set (upper_ids us) \<inter> set (upper_ids vs) = {}"
proof (cases "us = None \<or> vs = None")
  case False
  then obtain u v where "us = Some u" "vs = Some v" by auto
  moreover have "each_error (\<lambda>i a. case map_of (upvote_ids u) (to_upper (am_id a)) of Some p \<Rightarrow> bad (g i) (h p) q | None \<Rightarrow> []) v = []
      \<longleftrightarrow> (\<forall>a \<in> set v. to_upper (am_id a) \<notin> set (upper_ids (Some u)))" for g h q
    by (rule each_error_set) (simp add: upvote_ids_keys [symmetric] split: option.split)
  ultimately show ?thesis
    by (simp add: validateAmendmentOverlap_def upper_ids_def disjoint_image)
qed (auto simp: validateAmendmentOverlap_def upper_ids_def split: option.split)

lemma name_errors_Nil: "name_errors f w allowed h xs = [] \<longleftrightarrow> set xs \<subseteq> set allowed"
  by (auto simp: name_errors_def each_error_set [where P = "\<lambda>v. v \<in> set allowed"])

text \<open>A sum of two counts that wraps is negative, hence rejected.\<close>

lemma total_ok:
  assumes "0 \<le> a" "a < 2 ^ 63" "0 \<le> b" "b < 2 ^ 63"
  shows "2 \<le> wrap64 (a + b) \<and> wrap64 (a + b) \<le> 10 \<longleftrightarrow> a + b \<in> {2 .. 10}"
proof (cases "a + b < 2 ^ 63")
  case True
  then show ?thesis using assms wrap64_id [of "a + b"] by simp
next
  case False
  have "(a + b + 2 ^ 63) mod 2 ^ 64 = a + b + 2 ^ 63 - 2 ^ 64"
    by (rule int_mod_pos_eq [where q = 1]) (use assms False in \<open>linarith | simp\<close>)+
  with assms False show ?thesis by (simp add: wrap64_def)
qed

lemma topology_errors_Nil:
  assumes "ng_count (sn_rippled s) < 2 ^ 63" "ng_count (sn_goxrpl s) < 2 ^ 63"
  shows "topology_errors s = [] \<longleftrightarrow> 0 \<le> ng_count (sn_rippled s) \<and> 0 \<le> ng_count (sn_goxrpl s)
     \<and> ng_count (sn_rippled s) + ng_count (sn_goxrpl s) \<in> {2 .. 10} \<and> group_ok (sn_rippled s)
     \<and> (ng_image (sn_goxrpl s) = [] \<or> clean (ng_image (sn_goxrpl s)))
     \<and> ng_entrypoint (sn_goxrpl s) = None \<and> ng_config (sn_goxrpl s) = None \<and> ng_nodes (sn_goxrpl s) = None"
  using total_ok [of "ng_count (sn_rippled s)" "ng_count (sn_goxrpl s)"] assms
  by (auto simp: topology_errors_def Let_def validateNodeGroup_Nil validateImage_Nil not_less)

lemma network_errors_Nil: "network_errors s = [] \<longleftrightarrow> (\<forall>n. sn_network s = Some n \<longrightarrow> network_ok n)"
  by (auto simp: network_errors_def network_ok_def maxNetworkID_def validateAmendments_Nil validateAmendmentOverlap_Nil split: option.split)

lemma local_errors_Nil: "local_errors s = [] \<longleftrightarrow> (local_only s \<longrightarrow> wl_kind (sn_workload s) = ''none'' \<and> ng_count (sn_goxrpl s) = 0)"
  by (auto simp: local_errors_def local_only_def Let_def)

lemma workload_errors_Nil: "workload_errors s = [] \<longleftrightarrow> workload_ok s"
  by (cases "wl_reproducer (sn_workload s)") (auto simp: workload_errors_def workload_ok_def Let_def)

lemma budget_errors_Nil: "budget_errors parse s = [] \<longleftrightarrow> budget_ok parse s"
  by (auto simp: budget_errors_def budget_ok_def not_le split: sum.split)

lemma services_errors_Nil: "services_errors s = [] \<longleftrightarrow> (\<forall>sv. sn_services s = Some sv \<longrightarrow> (sv_image sv = [] \<or> clean (sv_image sv))
          \<and> (wl_kind (sn_workload s) \<noteq> ''none'' \<longrightarrow> sv_control sv \<noteq> Some False))"
  by (auto simp: services_errors_def validateImage_Nil split: option.split)

lemma head_errors_Nil: "head_errors s = [] \<longleftrightarrow> sn_api s = ''confluence/v1'' \<and> sn_kind s = ''Scenario'' \<and> sn_name s \<noteq> [] \<and> kebab (sn_name s)"
  by (auto simp: head_errors_def)

text \<open>C38: The validator accepts exactly the valid scenarios, whatever the order in which the sections of a
  configuration are visited.\<close>

theorem Validate_iff:
  assumes "ng_count (sn_rippled s) < 2 ^ 63" and "ng_count (sn_goxrpl s) < 2 ^ 63"
  shows "Validate parse (Some s) = [] \<longleftrightarrow> scenario_ok parse s"
  by (auto simp: Validate_def scenario_ok_def head_errors_Nil topology_errors_Nil [OF assms] network_errors_Nil local_errors_Nil
      workload_errors_Nil budget_errors_Nil name_errors_Nil services_errors_Nil)

definition group_of :: "int \<Rightarrow> node_group" where
  "group_of n = \<lparr>ng_count = n, ng_image = [], ng_entrypoint = None, ng_config = None, ng_nodes = None\<rparr>"

definition sample_scenario :: "string \<Rightarrow> scenario" where
  "sample_scenario kind = \<lparr>sn_api = ''confluence/v1'', sn_kind = ''Scenario'', sn_name = ''mixed-5'', sn_rippled = group_of 3, sn_goxrpl = group_of 2,
     sn_network = None, sn_workload = \<lparr>wl_kind = kind, wl_rate = 5, wl_accounts = 50, wl_rotate = 0, wl_mutation = 0, wl_workers = 0, wl_reproducer = None\<rparr>,
     sn_schedule = [WireEvent 5 10 ''restart'' ''goxrpl-0'' [] [] [] 0 0 0 [] [] None], sn_observed = False, sn_webhook = [], sn_services = None,
     sn_duration = ''10m'', sn_stop_on = [], sn_oracles = [''state_diff'', ''peer_health'']\<rparr>"

definition ten_minutes :: "string \<Rightarrow> int go_result" where
  "ten_minutes d = (if d = ''10m'' then Inr (600 * 10 ^ 9) else Inl ''time: invalid duration'')"

lemma sample_scenario_ok: "kind \<in> {''soak'', ''fuzz''} \<Longrightarrow> scenario_ok ten_minutes (sample_scenario kind)"
  by (auto simp: scenario_ok_def sample_scenario_def group_of_def group_ok_def kebab_def char_in_def is_digit_def entrypoint_ok_def config_ok_def
      entries_def local_only_def customRippledConfig_def nodes_of_def workload_ok_def budget_ok_def ten_minutes_def allowedOracle_def)

theorem Validate_iff_witness: "Validate ten_minutes (Some (sample_scenario ''soak'')) = []"
proof -
  have "Validate ten_minutes (Some (sample_scenario ''soak'')) = [] \<longleftrightarrow> scenario_ok ten_minutes (sample_scenario ''soak'')"
    by (rule Validate_iff) (simp_all add: sample_scenario_def group_of_def)
  then show ?thesis using sample_scenario_ok by simp
qed

section \<open>Compiled arguments\<close>

lemma subseq_subset: "subseq xs ys \<Longrightarrow> set xs \<subseteq> set ys"
  by (induction rule: list_emb.induct) auto

lemma subseq_keeps_distinct: "subseq xs ys \<Longrightarrow> distinct ys \<Longrightarrow> distinct xs"
  by (induction rule: list_emb.induct) (auto dest: subseq_subset)

text \<open>Every argument is written once: the keys are some of a list of different keys, in its order.\<close>

lemma optional_keys: "subseq (map fst (optional k f x)) [k]"
  by (simp add: optional_def split: option.split)

definition argument_keys :: "string list" where
  "argument_keys = [''test_suite'', ''goxrpl_count'', ''rippled_count''] @ [''rippled_image''] @ [''goxrpl_image''] @ [''rippled_entrypoint'']
     @ [''rippled_config''] @ [''rippled_nodes''] @ [''network_config''] @ [''enable_dashboard''] @ [''enable_control''] @ [''sidecar_image'']"

lemma base_args_subseq: "subseq (map fst (base_args s)) argument_keys"
proof -
  have services: "subseq (map fst (case sn_services s of None \<Rightarrow> []
        | Some sv \<Rightarrow> optional ''enable_dashboard'' GBool (sv_dashboard sv) @ optional ''enable_control'' GBool (sv_control sv)
                    @ optional ''sidecar_image'' GStr (nonempty (sv_image sv))))
      ([''enable_dashboard''] @ [''enable_control''] @ [''sidecar_image''])"
    by (cases "sn_services s")
      (simp, simp only: option.case map_append, intro list_emb_append_mono optional_keys)
  show ?thesis
    unfolding base_args_def argument_keys_def Let_def map_append
    by (intro list_emb_append_mono optional_keys services) simp_all
qed

lemma base_args_keys: "distinct (map fst (base_args s)) \<and> ''soak_args'' \<notin> fst ` set (base_args s) \<and> ''chaos_args'' \<notin> fst ` set (base_args s)"
proof -
  have "distinct argument_keys" "''soak_args'' \<notin> set argument_keys" "''chaos_args'' \<notin> set argument_keys"
    by (simp_all add: argument_keys_def)
  moreover have "fst ` set (base_args s) \<subseteq> set argument_keys" using subseq_subset [OF base_args_subseq] by simp
  ultimately show ?thesis using subseq_keeps_distinct [OF base_args_subseq] by (blast intro: subseq_keeps_distinct)
qed

lemma base_args_get: "map_of (base_args s) ''test_suite'' = Some (GStr (workloadToTestSuite (wl_kind (sn_workload s)) (sn_schedule s \<noteq> [])))"
  "map_of (base_args s) ''goxrpl_count'' = Some (GInt (ng_count (sn_goxrpl s)))"
  "map_of (base_args s) ''rippled_count'' = Some (GInt (ng_count (sn_rippled s)))"
  by (simp_all add: base_args_def Let_def)

lemma work_args_keys: "distinct (map fst (work_args s)) \<and> ''schedule'' \<notin> fst ` set (work_args s)"
  by (simp add: work_args_def Let_def)

lemma fold_fset: "distinct (map fst xs) \<Longrightarrow> map_of (fold (\<lambda>(k, v). fset k v) xs m) j = (case map_of xs j of Some v \<Rightarrow> Some v | None \<Rightarrow> map_of m j)"
proof (induction xs arbitrary: m)
  case (Cons x xs)
  obtain k v where x: "x = (k, v)" by fastforce
  from Cons have "map_of xs k = None" by (simp add: x map_of_eq_None_iff)
  with Cons x show ?case by (auto split: option.split)
qed simp

text \<open>The schedule of a soak scenario is accepted and then dropped: it reaches no argument.\<close>

lemma soak_drops_schedule:
  assumes "wl_kind (sn_workload s) = ''soak''"
  shows "Compile parse wire marshal (Some (s\<lparr>sn_schedule := es\<rparr>)) = Compile parse wire marshal (Some s)"
proof -
  let ?t = "s\<lparr>sn_schedule := es\<rparr>"
  have "head_errors ?t = head_errors s" "topology_errors ?t = topology_errors s" "local_errors ?t = local_errors s"
    by (simp_all add: head_errors_def topology_errors_def local_errors_def customRippledConfig_def)
  moreover have "network_errors ?t = network_errors s" "services_errors ?t = services_errors s" "budget_errors parse ?t = budget_errors parse s"
    by (simp_all add: network_errors_def services_errors_def budget_errors_def split: option.split)
  moreover have "workload_errors ?t = workload_errors s" using assms by (simp add: workload_errors_def)
  ultimately have "Validate parse (Some ?t) = Validate parse (Some s)" by (simp add: Validate_def)
  moreover have "network_value ?t = network_value s" by (simp add: network_value_def EffectiveNetworkID_def fun_eq_iff)
  then have "base_args ?t = base_args s" "work_args ?t = work_args s"
    using assms by (simp_all add: base_args_def work_args_def workloadToTestSuite_def)
  ultimately show ?thesis using assms by (simp add: Compile_def split: list.split)
qed

lemma base_args_no_work: "map_of (base_args s) ''soak_args'' = None" "map_of (base_args s) ''chaos_args'' = None"
  using base_args_keys by (simp_all add: map_of_eq_None_iff)

lemma chaos_args_get:
  "map_of (fold (\<lambda>(k, v). fset k v) (work_args s) [(''schedule'', GStr js)]) = (map_of (work_args s))(''schedule'' \<mapsto> GStr js)"
proof
  fix j
  have "map_of (work_args s) ''schedule'' = None" using work_args_keys by (simp add: map_of_eq_None_iff)
  then show "map_of (fold (\<lambda>(k, v). fset k v) (work_args s) [(''schedule'', GStr js)]) j = ((map_of (work_args s))(''schedule'' \<mapsto> GStr js)) j"
    using fold_fset [of "work_args s"] work_args_keys by (auto split: option.split)
qed

lemma distinct_fold_fset: "distinct (map fst (fold (\<lambda>(k, v). fset k v) xs m)) = distinct (map fst m)"
proof (induction xs arbitrary: m)
  case (Cons x xs)
  then show ?case by (cases x) (simp only: fold.simps prod.case comp_apply distinct_fset)
qed simp



end
