(* ===== verification/Log_Rotator.thy ===== *)
theory Log_Rotator
  imports Runlog
begin

text \<open>
  The log rotator of a run (\<open>sidecar/cmd/confluence/log_rotator.go\<close>): the lines of each service are
  appended to a file that is renamed to the next numbered name when it has grown to 50 MiB.

  What the file system does is a parameter: whether opening, closing and renaming succeed, and how
  many bytes of a write it takes. The rename itself is the system's: it replaces an existing file.
\<close>

section \<open>The rotating file\<close>

definition rotateAt :: int where
  "rotateAt = 50 * 1024 * 1024"

record file_system =
  fs_open :: "string \<Rightarrow> unit go_result"
  fs_close :: "string \<Rightarrow> unit go_result"
  fs_rename :: "string \<Rightarrow> string \<Rightarrow> unit go_result"
  fs_take :: "string \<Rightarrow> disk \<Rightarrow> nat option"

datatype handle = Open | Closed | Nil_Handle

record rotating_file =
  rf_path :: string
  rf_handle :: handle
  rf_written :: int
  rf_rotated :: nat

definition handle_error :: "handle \<Rightarrow> string" where
  "handle_error h = (if h = Closed then ''file already closed'' else ''invalid argument'')"

definition open_append :: "string \<Rightarrow> disk \<Rightarrow> disk" where
  "open_append path d = (case map_of d path of None \<Rightarrow> AList.update path [] d | Some _ \<Rightarrow> d)"

definition openRotating :: "file_system \<Rightarrow> string \<Rightarrow> disk \<Rightarrow> rotating_file go_result \<times> disk" where
  "openRotating fs path d = (case fs_open fs path of
      Inl e \<Rightarrow> (Inl e, d)
    | Inr _ \<Rightarrow> (let d' = open_append path d
        in (Inr \<lparr>rf_path = path, rf_handle = Open, rf_written = int (length (log_content path d')), rf_rotated = 0\<rparr>, d')))"

definition rotated_path :: "string \<Rightarrow> nat \<Rightarrow> string" where
  "rotated_path path n = path @ ''.'' @ nat_dec n"

definition rename :: "string \<Rightarrow> string \<Rightarrow> disk \<Rightarrow> disk" where
  "rename from to d = (case map_of d from of None \<Rightarrow> d | Some c \<Rightarrow> AList.update to c (AList.delete from d))"

text \<open>After a failed rename the file is opened again, so that the next batch is not lost; the error is
  returned all the same.\<close>

definition rotateLocked :: "file_system \<Rightarrow> rotating_file \<Rightarrow> disk \<Rightarrow> unit go_result \<times> rotating_file \<times> disk" where
  "rotateLocked fs r d =
     (if rf_handle r \<noteq> Open then (Inl (handle_error (rf_handle r)), r, d)
      else case fs_close fs (rf_path r) of
        Inl e \<Rightarrow> (Inl e, r\<lparr>rf_handle := Closed\<rparr>, d)
      | Inr _ \<Rightarrow>
          (let r1 = r\<lparr>rf_rotated := rf_rotated r + 1, rf_handle := Closed\<rparr>; to = rotated_path (rf_path r) (rf_rotated r + 1)
           in case fs_rename fs (rf_path r) to of
                Inl e \<Rightarrow>
                  (if isl (fs_open fs (rf_path r)) then (Inl e, r1\<lparr>rf_handle := Nil_Handle, rf_written := 0\<rparr>, d)
                   else (Inl e, r1\<lparr>rf_handle := Open, rf_written := 0\<rparr>, open_append (rf_path r) d))
              | Inr _ \<Rightarrow>
                  (case fs_open fs (rf_path r) of
                     Inl e \<Rightarrow> (Inl e, r1, rename (rf_path r) to d)
                   | Inr _ \<Rightarrow> (Inr (), r1\<lparr>rf_handle := Open, rf_written := 0\<rparr>, open_append (rf_path r) (rename (rf_path r) to d)))))"

definition write_bytes :: "file_system \<Rightarrow> rotating_file \<Rightarrow> string \<Rightarrow> disk \<Rightarrow> (nat \<times> string option) \<times> disk" where
  "write_bytes fs r data d =
     (if rf_handle r \<noteq> Open then ((0, Some (handle_error (rf_handle r))), d)
      else case fs_take fs (rf_path r) d of
        None \<Rightarrow> ((length data, None), AList.update (rf_path r) (log_content (rf_path r) d @ data) d)
      | Some k \<Rightarrow> (let n = min k (length data) in ((n, Some ''short write''), AList.update (rf_path r) (log_content (rf_path r) d @ take n data) d)))"

definition WriteLine :: "file_system \<Rightarrow> string \<Rightarrow> rotating_file \<Rightarrow> disk \<Rightarrow> nat go_result \<times> rotating_file \<times> disk" where
  "WriteLine fs line r d =
     (case (if rotateAt \<le> rf_written r then rotateLocked fs r d else (Inr (), r, d)) of
        (Inl e, r1, d1) \<Rightarrow> (Inl e, r1, d1)
      | (Inr _, r1, d1) \<Rightarrow>
          (case write_bytes fs r1 (line @ [newline]) d1 of
             ((n, err), d2) \<Rightarrow>
               (case err of None \<Rightarrow> Inr n | Some e \<Rightarrow> Inl e, r1\<lparr>rf_written := rf_written r1 + int n\<rparr>, d2)))"

definition Close :: "file_system \<Rightarrow> rotating_file \<Rightarrow> unit go_result" where
  "Close fs r = (case rf_handle r of Nil_Handle \<Rightarrow> Inr () | Closed \<Rightarrow> Inl (handle_error Closed) | Open \<Rightarrow> fs_close fs (rf_path r))"

section \<open>Tailing a service\<close>

definition maxLogLine :: nat where
  "maxLogLine = 1048576"

text \<open>The lines of the stream until one is too long or a write fails.\<close>

fun write_lines :: "file_system \<Rightarrow> string list \<Rightarrow> rotating_file \<Rightarrow> disk \<Rightarrow> rotating_file \<times> disk" where
  "write_lines fs [] r d = (r, d)"
| "write_lines fs (l # ls) r d =
     (if maxLogLine \<le> length l then (r, d)
      else case WriteLine fs (drop_cr l) r d of
        (Inl e, r1, d1) \<Rightarrow> (r1, d1)
      | (Inr _, r1, d1) \<Rightarrow> write_lines fs ls r1 d1)"

definition tailServiceLogs :: "file_system \<Rightarrow> string \<Rightarrow> string \<Rightarrow> string \<Rightarrow> disk \<Rightarrow> disk" where
  "tailServiceLogs fs outDir svc stream d =
     (case openRotating fs (path_join [outDir, svc @ ''.log'']) d of
        (Inl e, d1) \<Rightarrow> d1
      | (Inr r, d1) \<Rightarrow> snd (write_lines fs (split_nl [] stream) r d1))"

text \<open>One round of \<open>enumerate\<close>: the services to start tailing, each once over all rounds.\<close>

fun enumerate_services :: "string list \<Rightarrow> string list \<Rightarrow> string list \<times> string list" where
  "enumerate_services started [] = ([], started)"
| "enumerate_services started (name # names) =
     (if name = [] \<or> name \<in> set started then enumerate_services started names
      else (case enumerate_services (name # started) names of (new, st) \<Rightarrow> (name # new, st)))"

section \<open>Facts\<close>

text \<open>A file system that refuses nothing.\<close>

definition healthy :: "file_system \<Rightarrow> bool" where
  "healthy fs \<longleftrightarrow> (\<forall>p. fs_open fs p = Inr ()) \<and> (\<forall>p. fs_close fs p = Inr ()) \<and> (\<forall>p q. fs_rename fs p q = Inr ()) \<and> (\<forall>p d. fs_take fs p d = None)"

lemma rotated_path_eq [simp]: "rotated_path p m = rotated_path p n \<longleftrightarrow> m = n"
  by (simp add: rotated_path_def)

lemma rotated_path_other [simp]: "rotated_path p n \<noteq> p" "p \<noteq> rotated_path p n"
  by (simp_all add: rotated_path_def)

lemma log_content_update: "log_content q (AList.update p c d) = (if q = p then c else log_content q d)"
  by (simp add: log_content_def update_conv')

lemma log_content_rename: "map_of d from \<noteq> None \<Longrightarrow> from \<noteq> to \<Longrightarrow>
    log_content q (rename from to d) = (if q = to then log_content from d else if q = from then [] else log_content q d)"
  by (auto simp: rename_def log_content_def update_conv' delete_conv' split: option.split)

lemma map_of_rename: "map_of d from \<noteq> None \<Longrightarrow> map_of (rename from to d) = (map_of d)(from := None, to := map_of d from)"
  by (auto simp: rename_def update_conv' delete_conv' fun_eq_iff split: option.split)

lemma log_content_open: "log_content q (open_append p d) = log_content q d"
  by (simp add: open_append_def log_content_def update_conv' split: option.split)

lemma map_of_open: "map_of (open_append p d) = (map_of d)(p := Some (log_content p d))"
  by (auto simp: open_append_def log_content_def update_conv' fun_eq_iff split: option.split)

text \<open>All that was ever written, oldest first, and the well-formedness of a file in use.\<close>

definition log_history :: "string \<Rightarrow> nat \<Rightarrow> disk \<Rightarrow> string" where
  "log_history path n d = concat (map (\<lambda>i. log_content (rotated_path path i) d) [1 ..< Suc n]) @ log_content path d"

definition rot_ok :: "rotating_file \<Rightarrow> disk \<Rightarrow> bool" where
  "rot_ok r d \<longleftrightarrow> rf_handle r = Open \<and> map_of d (rf_path r) \<noteq> None \<and> rf_written r = int (length (log_content (rf_path r) d))
     \<and> (\<forall>i > rf_rotated r. map_of d (rotated_path (rf_path r) i) = None)"

lemma rotate_ok:
  assumes "healthy fs" and "rot_ok r d" and "rotateLocked fs r d = (res, r1, d1)"
  shows "res = Inr () \<and> r1 = r\<lparr>rf_rotated := rf_rotated r + 1, rf_written := 0\<rparr> \<and> rot_ok r1 d1
     \<and> log_history (rf_path r) (rf_rotated r1) d1 = log_history (rf_path r) (rf_rotated r) d
     \<and> log_content (rf_path r) d1 = [] \<and> log_content (rotated_path (rf_path r) (rf_rotated r1)) d1 = log_content (rf_path r) d
     \<and> (\<forall>i \<le> rf_rotated r. log_content (rotated_path (rf_path r) i) d1 = log_content (rotated_path (rf_path r) i) d)"
proof -
  let ?p = "rf_path r" and ?n = "rf_rotated r + 1"
  have open_file: "rf_handle r = Open" and here: "map_of d ?p \<noteq> None" using assms(2) by (simp_all add: rot_ok_def)
  from assms(1,3) open_file have r: "res = Inr ()" "r1 = r\<lparr>rf_rotated := ?n, rf_written := 0\<rparr>"
      "d1 = open_append ?p (rename ?p (rotated_path ?p ?n) d)"
    by (cases r; simp add: rotateLocked_def healthy_def Let_def)+
  have content: "log_content q d1 = (if q = rotated_path ?p ?n then log_content ?p d else if q = ?p then [] else log_content q d)" for q
    by (simp add: r(3) log_content_open log_content_rename [OF here])
  have ok: "rot_ok r1 d1" using assms(2) here
    by (auto simp: rot_ok_def r(2) content) (auto simp: r(3) map_of_open map_of_rename [OF here])
  have "map (\<lambda>i. log_content (rotated_path ?p i) d1) [1 ..< ?n] = map (\<lambda>i. log_content (rotated_path ?p i) d) [1 ..< ?n]"
    by (simp add: content)
  moreover have "[1 ..< Suc ?n] = [1 ..< ?n] @ [?n]" "[1 ..< Suc (rf_rotated r)] = [1 ..< ?n]" by simp_all
  ultimately have "log_history ?p ?n d1 = log_history ?p (rf_rotated r) d" 
    by (simp only: log_history_def map_append concat_append) (simp add: content)
  with ok show ?thesis by (simp add: r(1,2) content)
qed

lemma WriteLine_ok:
  assumes "healthy fs" and "rot_ok r d"
  obtains r1 d1 where "WriteLine fs line r d = (Inr (Suc (length line)), r1, d1)" "rot_ok r1 d1" "rf_path r1 = rf_path r"
    "rf_rotated r1 = (if rotateAt \<le> rf_written r then rf_rotated r + 1 else rf_rotated r)"
    "log_history (rf_path r) (rf_rotated r1) d1 = log_history (rf_path r) (rf_rotated r) d @ line @ [newline]"
    "rf_written r1 = (if rotateAt \<le> rf_written r then 0 else rf_written r) + int (Suc (length line))"
    "\<forall>i \<le> rf_rotated r. log_content (rotated_path (rf_path r) i) d1 = log_content (rotated_path (rf_path r) i) d"
    "rotateAt \<le> rf_written r \<longrightarrow> log_content (rotated_path (rf_path r) (rf_rotated r1)) d1 = log_content (rf_path r) d"
proof -
  let ?big = "rotateAt \<le> rf_written r"
  obtain res r0 d0 where rot: "(if ?big then rotateLocked fs r d else (Inr (), r, d)) = (res, r0, d0)" by (metis prod_cases3)
  have r0: "res = Inr ()" "rf_path r0 = rf_path r" "rf_rotated r0 = (if ?big then rf_rotated r + 1 else rf_rotated r)" "rot_ok r0 d0"
    "log_history (rf_path r) (rf_rotated r0) d0 = log_history (rf_path r) (rf_rotated r) d" "rf_written r0 = (if ?big then 0 else rf_written r)"
    "\<forall>i \<le> rf_rotated r. log_content (rotated_path (rf_path r) i) d0 = log_content (rotated_path (rf_path r) i) d"
    "?big \<Longrightarrow> log_content (rotated_path (rf_path r) (rf_rotated r0)) d0 = log_content (rf_path r) d"
    using rot rotate_ok [OF assms, of res r0 d0] assms(2) by (auto split: if_splits)
  let ?r1 = "r0\<lparr>rf_written := rf_written r0 + int (Suc (length line))\<rparr>"
  let ?d1 = "AList.update (rf_path r0) (log_content (rf_path r0) d0 @ line @ [newline]) d0"
  have "rf_handle r0 = Open" using r0(4) by (simp add: rot_ok_def)
  then have w: "WriteLine fs line r d = (Inr (Suc (length line)), ?r1, ?d1)"
    using rot r0(1) assms(1) by (simp add: WriteLine_def write_bytes_def healthy_def)
  show thesis
  proof (rule that [OF w])
    show "rot_ok ?r1 ?d1" using r0(4) by (auto simp: rot_ok_def log_content_update update_conv')
    show "log_history (rf_path r) (rf_rotated ?r1) ?d1 = log_history (rf_path r) (rf_rotated r) d @ line @ [newline]"
      using r0(5) by (simp add: log_history_def log_content_update r0(2))
  qed (use r0 in \<open>auto simp: log_content_update\<close>)
qed

definition sizes_ok :: "rotating_file \<Rightarrow> disk \<Rightarrow> bool" where
  "sizes_ok r d \<longleftrightarrow> rf_written r < rotateAt + int maxLogLine
     \<and> (\<forall>i \<in> {1 .. rf_rotated r}. rotateAt \<le> int (length (log_content (rotated_path (rf_path r) i) d))
          \<and> int (length (log_content (rotated_path (rf_path r) i) d)) < rotateAt + int maxLogLine)"

lemma length_drop_cr: "length (drop_cr l) \<le> length l"
  by (simp add: drop_cr_def)

lemma WriteLine_sizes:
  assumes "healthy fs" and ok: "rot_ok r d" and sizes: "sizes_ok r d" and "length line < maxLogLine"
    and w: "WriteLine fs line r d = (res, r1, d1)"
  shows "sizes_ok r1 d1"
proof -
  obtain r2 d2 where r: "WriteLine fs line r d = (Inr (Suc (length line)), r2, d2)" "rot_ok r2 d2" "rf_path r2 = rf_path r"
    "rf_rotated r2 = (if rotateAt \<le> rf_written r then rf_rotated r + 1 else rf_rotated r)"
    "log_history (rf_path r) (rf_rotated r2) d2 = log_history (rf_path r) (rf_rotated r) d @ line @ [newline]"
    "rf_written r2 = (if rotateAt \<le> rf_written r then 0 else rf_written r) + int (Suc (length line))"
    "\<forall>i \<le> rf_rotated r. log_content (rotated_path (rf_path r) i) d2 = log_content (rotated_path (rf_path r) i) d"
    "rotateAt \<le> rf_written r \<longrightarrow> log_content (rotated_path (rf_path r) (rf_rotated r2)) d2 = log_content (rf_path r) d"
    by (rule WriteLine_ok [OF assms(1) ok, of line])
  have same: "r1 = r2" "d1 = d2" using w r(1) by simp_all
  have written: "rf_written r = int (length (log_content (rf_path r) d))" using ok by (simp add: rot_ok_def)
  have "rf_written r2 < rotateAt + int maxLogLine" using r(6) assms(4) by (simp add: rotateAt_def maxLogLine_def)
  moreover have "rotateAt \<le> int (length (log_content (rotated_path (rf_path r) i) d2))
      \<and> int (length (log_content (rotated_path (rf_path r) i) d2)) < rotateAt + int maxLogLine" if "i \<in> {1 .. rf_rotated r2}" for i
  proof (cases "i \<le> rf_rotated r")
    case True
    with r(7) sizes that show ?thesis by (auto simp: sizes_ok_def)
  next
    case False
    with that r(4) have "rotateAt \<le> rf_written r" "i = rf_rotated r2" by (auto split: if_splits)
    with r(8) written sizes show ?thesis by (simp add: sizes_ok_def)
  qed
  ultimately show ?thesis by (simp add: sizes_ok_def same r(3))
qed

lemma write_lines_ok:
  assumes "healthy fs" and "rot_ok r d" and "sizes_ok r d" and "\<forall>l \<in> set ls. length l < maxLogLine" and "write_lines fs ls r d = (r', d')"
  shows "rot_ok r' d' \<and> sizes_ok r' d' \<and> rf_path r' = rf_path r
     \<and> log_history (rf_path r) (rf_rotated r') d' = log_history (rf_path r) (rf_rotated r) d @ concat (map (\<lambda>l. drop_cr l @ [newline]) ls)"
  using assms(2-5)
proof (induction ls arbitrary: r d)
  case (Cons l ls)
  have short: "length (drop_cr l) < maxLogLine" using Cons.prems(3) length_drop_cr [of l] by auto
  obtain r1 d1 where w: "WriteLine fs (drop_cr l) r d = (Inr (Suc (length (drop_cr l))), r1, d1)" "rot_ok r1 d1" "rf_path r1 = rf_path r"
    "log_history (rf_path r) (rf_rotated r1) d1 = log_history (rf_path r) (rf_rotated r) d @ drop_cr l @ [newline]"
    by (rule WriteLine_ok [OF assms(1) Cons.prems(1), of "drop_cr l"])
  have "sizes_ok r1 d1" by (rule WriteLine_sizes [OF assms(1) Cons.prems(1,2) short w(1)])
  moreover have "write_lines fs ls r1 d1 = (r', d')" using Cons.prems(3,4) w(1) by (simp add: not_le)
  ultimately show ?case using Cons.IH [OF w(2)] Cons.prems(3) w(3,4) by simp
qed simp


definition good_fs :: file_system where
  "good_fs = \<lparr>fs_open = (\<lambda>_. Inr ()), fs_close = (\<lambda>_. Inr ()), fs_rename = (\<lambda>_ _. Inr ()), fs_take = (\<lambda>_ _. None)\<rparr>"

lemma good_fs_healthy: "healthy good_fs"
  by (simp add: healthy_def good_fs_def)

definition full_file :: string where
  "full_file = replicate (nat rotateAt) (CHR ''x'')"

lemma length_full_file: "int (length full_file) = rotateAt"
  unfolding full_file_def length_replicate by (simp add: rotateAt_def)


text \<open>The count of rotations starts again at every start of the rotator: the first rotation after a
  restart replaces the first file of the earlier run, whose lines are gone.\<close>

theorem restart_overwrites_history:
  assumes "healthy fs" and "map_of d path = Some content" and "rotateAt \<le> int (length content)"
    and "map_of d (rotated_path path 1) = Some old" and "openRotating fs path d = (Inr r0, d0)" and "WriteLine fs line r0 d0 = (res, r, d')"
  shows "map_of d' = (map_of d)(rotated_path path 1 \<mapsto> content, path \<mapsto> line @ [newline])"
proof -
  have d0: "d0 = d" and r0: "r0 = \<lparr>rf_path = path, rf_handle = Open, rf_written = int (length content), rf_rotated = 0\<rparr>"
    using assms(1,2,5) by (auto simp: openRotating_def healthy_def Let_def open_append_def log_content_def)
  have "map_of d path \<noteq> None" using assms(2) by simp
  then have "map_of (open_append path (rename path (rotated_path path 1) d)) = (map_of d)(rotated_path path 1 \<mapsto> content, path \<mapsto> [])"
    using assms(2) by (auto simp: map_of_open map_of_rename log_content_rename fun_eq_iff)
  moreover have "d' = AList.update path (log_content path (open_append path (rename path (rotated_path path 1) d)) @ line @ [newline])
      (open_append path (rename path (rotated_path path 1) d))"
    using assms(1,3,6) by (simp add: d0 r0 WriteLine_def rotateLocked_def write_bytes_def healthy_def Let_def)
  ultimately show ?thesis by (simp add: update_conv' log_content_def)
qed

theorem restart_overwrites_history_witness:
  "\<exists>d'. snd (snd (WriteLine good_fs ''new'' \<lparr>rf_path = ''a.log'', rf_handle = Open, rf_written = rotateAt, rf_rotated = 0\<rparr>
       [(''a.log'', full_file), (rotated_path ''a.log'' 1, ''old lines'')])) = d'
     \<and> map_of d' (rotated_path ''a.log'' 1) = Some full_file"
proof -
  let ?d = "[(''a.log'', full_file), (rotated_path ''a.log'' 1, ''old lines'')]"
  let ?r0 = "\<lparr>rf_path = ''a.log'', rf_handle = Open, rf_written = rotateAt, rf_rotated = 0\<rparr>"
  obtain res r d' where w: "WriteLine good_fs ''new'' ?r0 ?d = (res, r, d')" by (metis prod_cases3)
  have o: "openRotating good_fs ''a.log'' ?d = (Inr ?r0, ?d)"
    by (simp add: openRotating_def good_fs_def open_append_def log_content_def Let_def length_full_file)
  have "map_of d' = (map_of ?d)(rotated_path ''a.log'' 1 \<mapsto> full_file, ''a.log'' \<mapsto> ''new'' @ [newline])"
    by (rule restart_overwrites_history [OF good_fs_healthy _ _ _ o w]) (simp_all add: length_full_file)
  with w show ?thesis by simp
qed

end
