(* ===== verification/Nodes.thy ===== *)
theory Nodes
  imports Detectors Scenario
begin

text \<open>
  The node poller of the control service (\<open>sidecar/internal/server/nodes.go\<close>) and \<open>GET /v1/state/diff\<close>
  (\<open>state.go\<close>). Maps are association lists; the JSON-RPC transport of each node is a parameter. An HTTP
  response is the status and error, or the body of status 200.
\<close>

lemma set_update: "p \<in> set (AList.update k v xs) \<Longrightarrow> p = (k, v) \<or> p \<in> set xs"
  by (induction xs) (auto split: if_splits)

section \<open>Node snapshots\<close>

record node_config =
  nk_name :: string
  nk_type :: string
  nk_rpc :: string

record node_view =
  nv_name :: string
  nv_type :: string
  nv_status :: string
  nv_state :: string
  nv_build :: string
  nv_uptime :: int
  nv_peers :: int
  nv_complete :: string
  nv_validated :: "ledger_ref option"
  nv_closed :: "ledger_ref option"
  nv_current :: int
  nv_network :: int
  nv_pubkey :: string
  nv_last_close :: "last_close option"
  nv_error :: string

definition unreachable :: "node_config \<Rightarrow> string \<Rightarrow> node_view" where
  "unreachable c err = \<lparr>nv_name = nk_name c, nv_type = nk_type c, nv_status = ''unreachable'', nv_state = [], nv_build = [],
     nv_uptime = 0, nv_peers = 0, nv_complete = [], nv_validated = None, nv_closed = None, nv_current = 0, nv_network = 0,
     nv_pubkey = [], nv_last_close = None, nv_error = err\<rparr>"

type_synonym history = "(string \<times> (int \<times> string) list) list"

record node_poller =
  np_cfgs :: "node_config list"
  np_nodes :: "(string \<times> node_view) list"
  np_history :: history

definition NewNodePoller :: "node_config list \<Rightarrow> node_poller" where
  "NewNodePoller cfgs = \<lparr>np_cfgs = cfgs, np_nodes = fold (\<lambda>c. AList.update (nk_name c) (unreachable c [])) cfgs [], np_history = []\<rparr>"

definition maxValidatedHistorySeqs :: int where
  "maxValidatedHistorySeqs = 512"

definition seqs_of :: "history \<Rightarrow> string \<Rightarrow> (int \<times> string) list" where
  "seqs_of hist n = (case map_of hist n of None \<Rightarrow> [] | Some h \<Rightarrow> h)"

definition recordValidatedLocked :: "string \<Rightarrow> int \<Rightarrow> string \<Rightarrow> history \<Rightarrow> history" where
  "recordValidatedLocked n seq hash hist =
     (let h = AList.update seq hash (seqs_of hist n); cutoff = seq - maxValidatedHistorySeqs
      in AList.update n (if cutoff \<le> 0 then h else filter (\<lambda>p. cutoff < fst p) h) hist)"

definition seen_ledger :: "ledger_ref \<Rightarrow> ledger_ref option" where
  "seen_ledger r = (if 0 < lr_seq r \<or> lr_hash r \<noteq> [] then Some r else None)"

definition node_ok :: "node_config \<Rightarrow> server_info \<Rightarrow> node_view" where
  "node_ok c info = \<lparr>nv_name = nk_name c, nv_type = nk_type c, nv_status = ''ok'', nv_state = si_state info, nv_build = si_build info,
     nv_uptime = si_uptime info, nv_peers = si_peers info, nv_complete = si_complete info,
     nv_validated = seen_ledger (si_validated info), nv_closed = seen_ledger (si_closed info), nv_current = si_current info,
     nv_network = si_network info, nv_pubkey = si_pubkey info,
     nv_last_close = (let lc = si_last_close info in if 0 < lc_proposers lc \<or> lc_converge lc \<noteq> 0 then Some lc else None), nv_error = []\<rparr>"

definition snapshot :: "node_poller \<Rightarrow> node_view option list" where
  "snapshot p = map (\<lambda>c. map_of (np_nodes p) (nk_name c)) (np_cfgs p)"

text \<open>What one poll makes of the reply; the second component is the snapshot published on the bus, if
  there is one.\<close>

definition poll_reply :: "bool \<Rightarrow> node_config \<Rightarrow> server_info go_result \<Rightarrow> node_poller \<Rightarrow> node_poller \<times> node_view option list option" where
  "poll_reply has_bus c r p = (case r of
      Inl e \<Rightarrow> (p\<lparr>np_nodes := AList.update (nk_name c) (unreachable c e) (np_nodes p)\<rparr>, None)
    | Inr info \<Rightarrow>
        (let v = si_validated info;
             hist = (if 0 < lr_seq v \<and> lr_hash v \<noteq> [] then recordValidatedLocked (nk_name c) (lr_seq v) (lr_hash v) (np_history p)
                     else np_history p);
             p1 = p\<lparr>np_history := hist, np_nodes := AList.update (nk_name c) (node_ok c info) (np_nodes p)\<rparr>
         in (p1, if has_bus then Some (snapshot p1) else None)))"

definition poll :: "bool \<Rightarrow> (string \<Rightarrow> 's caller) \<Rightarrow> node_config \<Rightarrow> node_poller \<times> 's \<Rightarrow> (node_poller \<times> 's) \<times> node_view option list option" where
  "poll has_bus dial c ps = (case ServerInfo (dial (nk_rpc c)) (snd ps) of (r, s') \<Rightarrow>
     (case poll_reply has_bus c r (fst ps) of (p', ev) \<Rightarrow> ((p', s'), ev)))"

definition DivergenceSnapshot :: "node_poller \<Rightarrow> divergence_input list" where
  "DivergenceSnapshot p = concat (map (\<lambda>(n, h). map (\<lambda>(q, hash). \<lparr>di_node = n, di_seq = q, di_hash = hash\<rparr>) h) (np_history p))"

definition progress_of :: "node_view \<Rightarrow> progress_input list" where
  "progress_of v =
     (let closed = (case nv_closed v of None \<Rightarrow> 0 | Some r \<Rightarrow> lr_seq r); validated = (case nv_validated v of None \<Rightarrow> 0 | Some r \<Rightarrow> lr_seq r)
      in if nv_status v \<noteq> ''ok'' \<or> closed = 0 \<and> validated = 0 then []
         else [\<lparr>pi_node = nv_name v, pi_closed = closed, pi_validated = validated\<rparr>])"

definition ConsensusProgressSnapshot :: "node_poller \<Rightarrow> progress_input list" where
  "ConsensusProgressSnapshot p = concat (map (\<lambda>(_, v). progress_of v) (np_nodes p))"

text \<open>\<open>validatedHashesBySeq\<close>: the history turned around.\<close>

definition add_hash :: "string \<Rightarrow> int \<times> string \<Rightarrow> (int \<times> (string \<times> string) list) list \<Rightarrow> (int \<times> (string \<times> string) list) list" where
  "add_hash n qh m = (case qh of (q, hash) \<Rightarrow>
     AList.update q (AList.update n hash (case map_of m q of None \<Rightarrow> [] | Some b \<Rightarrow> b)) m)"

definition validatedHashesBySeq :: "history \<Rightarrow> (int \<times> (string \<times> string) list) list" where
  "validatedHashesBySeq hist = fold (\<lambda>(n, h). fold (add_hash n) h) hist []"

section \<open>\<open>GET /v1/state/diff\<close>\<close>

definition distinct_values :: "(string \<times> string) list \<Rightarrow> string list" where
  "distinct_values m = remdups (map snd m)"

definition count_seq :: "node_view option \<Rightarrow> (int \<times> nat) list \<Rightarrow> (int \<times> nat) list" where
  "count_seq v m = (case Option.bind v nv_validated of
      None \<Rightarrow> m
    | Some r \<Rightarrow> if 0 < lr_seq r then AList.update (lr_seq r) (Suc (case map_of m (lr_seq r) of None \<Rightarrow> 0 | Some k \<Rightarrow> k)) m else m)"

definition better_seq :: "int \<times> nat \<Rightarrow> int \<times> nat \<Rightarrow> int \<times> nat" where
  "better_seq sc best = (if snd best < snd sc \<or> snd sc = snd best \<and> fst best < fst sc then sc else best)"

definition pickSeq :: "node_view option list \<Rightarrow> int" where
  "pickSeq nodes = fst (fold better_seq (fold count_seq nodes []) (0, 0))"

definition fork_visit :: "int \<times> (string \<times> string) list \<Rightarrow> (int \<times> (string \<times> string) list) option \<Rightarrow> (int \<times> (string \<times> string) list) option" where
  "fork_visit qb found =
     (if length (snd qb) < 2 \<or> length (distinct_values (snd qb)) < 2 then found
      else (case found of None \<Rightarrow> Some qb | Some best \<Rightarrow> if fst qb < fst best then Some qb else found))"

definition earliestForkedSeq :: "(int \<times> (string \<times> string) list) list \<Rightarrow> (int \<times> (string \<times> string) list) option" where
  "earliestForkedSeq m = fold fork_visit m None"

record state_diff =
  sd_ledger :: int
  sd_hashes :: "(string \<times> string) list"
  sd_diverged :: bool

type_synonym 'a http = "(nat \<times> api_error) + 'a"

definition http_error :: "nat \<Rightarrow> string \<Rightarrow> string \<Rightarrow> string \<Rightarrow> 'a http" where
  "http_error status code msg field = Inl (status, \<lparr>ae_code = code, ae_message = msg, ae_field = field, ae_hint = []\<rparr>)"

text \<open>\<open>strconv.Atoi\<close>: an optional sign and digits, in the range of \<open>int64\<close>.\<close>

definition atoi :: "string \<Rightarrow> int go_result" where
  "atoi s = (case scan_sign s of (neg, ds) \<Rightarrow>
     (if ds = [] then Inl ''invalid syntax''
      else case parse_nat ds of
        None \<Rightarrow> Inl ''invalid syntax''
      | Some n \<Rightarrow> (let i = (if neg then - int n else int n) in if - (2 ^ 63) \<le> i \<and> i < 2 ^ 63 then Inr i else Inl ''value out of range'')))"

definition add_tip :: "int \<Rightarrow> node_view option \<Rightarrow> (string \<times> string) list \<Rightarrow> (string \<times> string) list" where
  "add_tip q v m = (case v of None \<Rightarrow> m
     | Some v \<Rightarrow> (case nv_validated v of None \<Rightarrow> m
        | Some r \<Rightarrow> if lr_seq r = q \<and> lr_hash r \<noteq> [] then AList.update (nv_name v) (lr_hash r) m else m))"

definition tip_hashes :: "int \<Rightarrow> node_view option list \<Rightarrow> (string \<times> string) list" where
  "tip_hashes q nodes = fold (add_tip q) nodes []"

definition keep_tip :: "string \<times> string \<Rightarrow> (string \<times> string) list \<Rightarrow> (string \<times> string) list" where
  "keep_tip nh m = (if map_of m (fst nh) = None then AList.update (fst nh) (snd nh) m else m)"

definition with_history :: "(string \<times> string) list \<Rightarrow> (string \<times> string) list \<Rightarrow> (string \<times> string) list" where
  "with_history extra m = fold keep_tip extra m"

definition diff_at :: "node_poller \<Rightarrow> int option \<Rightarrow> state_diff" where
  "diff_at p seq =
     (let by = validatedHashesBySeq (np_history p);
          q = (case seq of Some q \<Rightarrow> q | None \<Rightarrow> pickSeq (snapshot p));
          m = with_history (case map_of by q of None \<Rightarrow> [] | Some b \<Rightarrow> b) (tip_hashes q (snapshot p));
          diverged = (2 \<le> length (distinct_values m))
      in if \<not> diverged \<and> seq = None then
           (case earliestForkedSeq by of
              Some (fq, fm) \<Rightarrow> \<lparr>sd_ledger = fq, sd_hashes = fm, sd_diverged = True\<rparr>
            | None \<Rightarrow> \<lparr>sd_ledger = q, sd_hashes = m, sd_diverged = diverged\<rparr>)
         else \<lparr>sd_ledger = q, sd_hashes = m, sd_diverged = diverged\<rparr>)"

definition stateDiff :: "node_poller option \<Rightarrow> string \<Rightarrow> state_diff http" where
  "stateDiff po rawAt =
     (let answer = (\<lambda>seq. case po of None \<Rightarrow> Inr \<lparr>sd_ledger = 0, sd_hashes = [], sd_diverged = False\<rparr> | Some p \<Rightarrow> Inr (diff_at p seq))
      in if rawAt = [] then answer None
         else (case atoi rawAt of
             Inl _ \<Rightarrow> http_error 400 ''bad_request'' ''at must be a positive integer'' []
           | Inr n \<Rightarrow> if n \<le> 0 then http_error 400 ''bad_request'' ''at must be a positive integer'' [] else answer (Some n)))"

end
