(* ===== verification/Node_Properties.thy ===== *)
theory Node_Properties
  imports Nodes Oracle_Properties
begin

text \<open>
  The poller's window of validated ledgers, what \<open>GET /v1/state/diff\<close> says about forks, and the path of a
  fork from the polls to a finding.
\<close>

section \<open>The window of validated ledgers\<close>

lemma map_of_filter_key: "map_of (filter (\<lambda>p. P (fst p)) xs) k = (if P k then map_of xs k else None)"
  by (induction xs) auto

lemma seqs_of_update: "seqs_of (AList.update n h hist) m = (if m = n then h else seqs_of hist m)"
  by (simp add: seqs_of_def update_conv')

lemma recorded_seq:
  assumes "0 < q"
  shows "map_of (seqs_of (recordValidatedLocked n q hash hist) m) s =
     (if m = n then (if 0 < q - 512 \<and> s \<le> q - 512 then None else ((map_of (seqs_of hist n))(q \<mapsto> hash)) s) else map_of (seqs_of hist m) s)"
  using assms by (auto simp: recordValidatedLocked_def Let_def seqs_of_update maxValidatedHistorySeqs_def map_of_filter_key update_conv')

lemma recorded_distinct:
  "distinct (map fst (seqs_of hist m)) \<Longrightarrow> distinct (map fst (seqs_of hist n)) \<Longrightarrow> distinct (map fst (seqs_of (recordValidatedLocked n q hash hist) m))"
  by (auto simp: recordValidatedLocked_def Let_def seqs_of_update distinct_update intro: distinct_map_filter)

lemma seqs_of_Nil [simp]: "seqs_of [] n = []"
  by (simp add: seqs_of_def)

lemma sorted_le_last: "sorted (map f xs) \<Longrightarrow> x \<in> set xs \<Longrightarrow> f x \<le> f (last xs)"
  by (induction xs) auto

definition record_all_seqs :: "string \<Rightarrow> (int \<times> string) list \<Rightarrow> history \<Rightarrow> history" where
  "record_all_seqs n obs hist = fold (\<lambda>(q, hash). recordValidatedLocked n q hash) obs hist"

lemma window_content:
  assumes "\<forall>p \<in> set obs. 0 < fst p" and "sorted (map fst obs)" and "obs \<noteq> []"
  shows "map_of (seqs_of (record_all_seqs n obs []) n) s = (if fst (last obs) - 512 < s then map_of (rev obs) s else None)
     \<and> distinct (map fst (seqs_of (record_all_seqs n obs []) n))"
  using assms
proof (induction obs rule: rev_induct)
  case (snoc p obs)
  obtain q hash where p: "p = (q, hash)" by fastforce
  have step: "record_all_seqs n (obs @ [p]) [] = recordValidatedLocked n q hash (record_all_seqs n obs [])"
    by (simp add: record_all_seqs_def p)
  have q: "0 < q" and pos: "\<forall>p \<in> set obs. 0 < fst p" and le: "\<forall>p \<in> set obs. fst p \<le> q" and sorted: "sorted (map fst obs)"
    using snoc.prems by (auto simp: p sorted_append)
  show ?case
  proof (cases "obs = []")
    case True
    then have none: "record_all_seqs n obs [] = []" by (simp add: record_all_seqs_def)
    show ?thesis using q recorded_distinct [of "[]" n n q hash] unfolding step none by (simp add: True p recorded_seq)
  next
    case False
    from snoc.IH [OF pos sorted False] have ih: "map_of (seqs_of (record_all_seqs n obs []) n) s = (if fst (last obs) - 512 < s then map_of (rev obs) s else None)"
      "distinct (map fst (seqs_of (record_all_seqs n obs []) n))" by simp_all
    have last_le: "fst (last obs) \<le> q" using le False by simp
    have none: "map_of (rev obs) s = None" if "s \<le> 0"
      using pos that by (force simp: map_of_eq_None_iff)
    show ?thesis unfolding step
      using ih recorded_distinct [OF ih(2,2)] q last_le none by (auto simp: p recorded_seq)
  qed
qed simp

text \<open>A node whose validated sequence never falls keeps exactly its last 512 sequences, each with
  the hash it reported last, and so at most 512 entries.\<close>

theorem validated_window:
  assumes "\<forall>p \<in> set obs. 0 < fst p" and "sorted (map fst obs)" and "obs \<noteq> []"
  shows "map_of (seqs_of (record_all_seqs n obs []) n) s = (if fst (last obs) - maxValidatedHistorySeqs < s then map_of (rev obs) s else None)
     \<and> int (length (seqs_of (record_all_seqs n obs []) n)) \<le> maxValidatedHistorySeqs"
proof -
  let ?h = "seqs_of (record_all_seqs n obs []) n" and ?L = "fst (last obs)"
  have content: "map_of ?h s = (if ?L - 512 < s then map_of (rev obs) s else None)" for s using window_content [OF assms] by blast
  have dist: "distinct (map fst ?h)" using window_content [OF assms] by blast
  have "fst ` set ?h \<subseteq> {?L - 512 <.. ?L}"
  proof
    fix s assume "s \<in> fst ` set ?h"
    then have "map_of ?h s \<noteq> None" by (simp add: map_of_eq_None_iff)
    then have "?L - 512 < s" "map_of (rev obs) s \<noteq> None" unfolding content by (auto split: if_splits)
    then have "?L - 512 < s" "s \<in> fst ` set obs" by (simp_all add: map_of_eq_None_iff)
    moreover have "fst p \<le> ?L" if "p \<in> set obs" for p
      by (rule sorted_le_last [OF assms(2) that])
    ultimately show "s \<in> {?L - 512 <.. ?L}" by auto
  qed
  then have "card (fst ` set ?h) \<le> card {?L - 512 <.. ?L}" by (rule card_mono [rotated]) simp
  then have "length ?h \<le> 512" using distinct_card [OF dist] by simp
  with content show ?thesis by (simp add: maxValidatedHistorySeqs_def)
qed

section \<open>The history as the polls leave it\<close>

definition history_ok :: "history \<Rightarrow> bool" where
  "history_ok hist \<longleftrightarrow> distinct (map fst hist) \<and> (\<forall>p \<in> set hist. distinct (map fst (snd p)))"

definition tip_recorded :: "history \<Rightarrow> string \<Rightarrow> node_view \<Rightarrow> bool" where
  "tip_recorded hist k v \<longleftrightarrow> nv_name v = k \<and> (case nv_validated v of None \<Rightarrow> True
     | Some r \<Rightarrow> 0 < lr_seq r \<and> lr_hash r \<noteq> [] \<longrightarrow> map_of (seqs_of hist k) (lr_seq r) = Some (lr_hash r))"

definition poller_ok :: "node_poller \<Rightarrow> bool" where
  "poller_ok p \<longleftrightarrow> history_ok (np_history p) \<and> (\<forall>k v. map_of (np_nodes p) k = Some v \<longrightarrow> tip_recorded (np_history p) k v)"

inductive polled :: "node_poller \<Rightarrow> bool" where
  start: "polled (NewNodePoller cfgs)"
| reply: "polled p \<Longrightarrow> polled (fst (poll_reply has_bus c r p))"

lemma seqs_of_distinct: "history_ok hist \<Longrightarrow> distinct (map fst (seqs_of hist n))"
  by (auto simp: seqs_of_def history_ok_def split: option.splits dest: map_of_SomeD)

lemma history_ok_update: "history_ok hist \<Longrightarrow> distinct (map fst h) \<Longrightarrow> history_ok (AList.update n h hist)"
  by (auto simp: history_ok_def distinct_update dest!: set_update)

lemma history_ok_recorded: "history_ok hist \<Longrightarrow> history_ok (recordValidatedLocked n q x hist)"
  using seqs_of_distinct [of hist n]
  by (auto simp: recordValidatedLocked_def Let_def distinct_update intro!: history_ok_update intro: distinct_map_filter)

lemma tip_recorded_other:
  "k \<noteq> n \<Longrightarrow> tip_recorded hist k v \<Longrightarrow> tip_recorded (recordValidatedLocked n q x hist) k v"
  by (auto simp: tip_recorded_def recordValidatedLocked_def Let_def seqs_of_update split: option.splits)

lemma initial_nodes:
  assumes "\<forall>k v. map_of ns k = Some v \<longrightarrow> nv_name v = k \<and> nv_validated v = None"
    and "map_of (fold (\<lambda>c. AList.update (nk_name c) (unreachable c [])) cfgs ns) k = Some v"
  shows "nv_name v = k \<and> nv_validated v = None"
  using assms
proof (induction cfgs arbitrary: ns)
  case (Cons c cfgs)
  show ?case
    by (rule Cons.IH [OF _ Cons.prems(2) [unfolded fold_Cons comp_apply]])
      (use Cons.prems(1) in \<open>auto simp: update_conv' unreachable_def split: if_splits\<close>)
qed auto

lemma polled_ok: "polled p \<Longrightarrow> poller_ok p"
proof (induction rule: polled.induct)
  case (start cfgs)
  then show ?case using initial_nodes [of "[]"]
    by (auto simp: poller_ok_def NewNodePoller_def history_ok_def tip_recorded_def)
next
  case (reply p has_bus c r)
  then have hist: "history_ok (np_history p)" and tips: "\<And>k v. map_of (np_nodes p) k = Some v \<Longrightarrow> tip_recorded (np_history p) k v"
    by (auto simp: poller_ok_def)
  show ?case
  proof (cases r)
    case (Inl e)
    then show ?thesis using hist tips by (auto simp: poller_ok_def poll_reply_def update_conv' tip_recorded_def unreachable_def split: if_splits)
  next
    case (Inr info)
    let ?v = "si_validated info"
    show ?thesis
    proof (cases "0 < lr_seq ?v \<and> lr_hash ?v \<noteq> []")
      case True
      then have "tip_recorded (recordValidatedLocked (nk_name c) (lr_seq ?v) (lr_hash ?v) (np_history p)) (nk_name c) (node_ok c info)"
        by (auto simp: tip_recorded_def node_ok_def seen_ledger_def recorded_seq maxValidatedHistorySeqs_def)
      then show ?thesis using hist tips True Inr
        by (auto simp: poller_ok_def poll_reply_def Let_def update_conv' history_ok_recorded tip_recorded_other split: if_splits)
    next
      case False
      then have "tip_recorded (np_history p) (nk_name c) (node_ok c info)"
        by (auto simp: tip_recorded_def node_ok_def seen_ledger_def)
      then show ?thesis using hist tips False Inr
        by (auto simp: poller_ok_def poll_reply_def Let_def update_conv' split: if_splits)
    qed
  qed
qed

section \<open>The history turned around\<close>

definition row :: "(int \<times> (string \<times> string) list) list \<Rightarrow> int \<Rightarrow> (string \<times> string) list" where
  "row m q = (case map_of m q of None \<Rightarrow> [] | Some b \<Rightarrow> b)"

definition rows_ok :: "(int \<times> (string \<times> string) list) list \<Rightarrow> bool" where
  "rows_ok m \<longleftrightarrow> distinct (map fst m) \<and> (\<forall>p \<in> set m. distinct (map fst (snd p)))"

lemma rows_distinct: "rows_ok m \<Longrightarrow> distinct (map fst (row m q))"
  by (auto simp: row_def rows_ok_def split: option.splits dest: map_of_SomeD)

lemma row_add: "row (add_hash n (q, x) m) q' = (if q' = q then AList.update n x (row m q) else row m q')"
  by (simp add: add_hash_def row_def update_conv')

lemma rows_ok_add: "rows_ok m \<Longrightarrow> rows_ok (add_hash n qx m)"
  using rows_distinct [of m "fst qx"]
  by (cases qx) (auto simp: add_hash_def rows_ok_def row_def distinct_update dest!: set_update)

lemma add_node:
  assumes "distinct (map fst h)"
  shows "rows_ok m \<Longrightarrow> rows_ok (fold (add_hash n) h m)"
    and "map_of (row (fold (add_hash n) h m) q) k = (if k = n then case map_of h q of None \<Rightarrow> map_of (row m q) k | Some y \<Rightarrow> Some y else map_of (row m q) k)"
  using assms
proof (induction h arbitrary: m)
  case (Cons qx h)
  obtain q' x where qx: "qx = (q', x)" by fastforce
  { case 1 then show ?case using Cons.IH(1) by (simp add: rows_ok_add) }
  { case 2
    then have "map_of h q' = None" by (simp add: qx map_of_eq_None_iff)
    then show ?case using 2 Cons.IH(2) [of "add_hash n qx m"] by (auto simp: qx row_add update_conv' split: option.split) }
qed simp_all

lemma turned_around:
  assumes "history_ok hist"
  shows "rows_ok (validatedHashesBySeq hist)" and "map_of (row (validatedHashesBySeq hist) q) k = map_of (seqs_of hist k) q"
proof -
  have "rows_ok m \<Longrightarrow> rows_ok (fold (\<lambda>(n, h). fold (add_hash n) h) hist m)"
    "map_of (row (fold (\<lambda>(n, h). fold (add_hash n) h) hist m) q) k =
       (case map_of (seqs_of hist k) q of None \<Rightarrow> map_of (row m q) k | Some y \<Rightarrow> Some y)" for m
    using assms
  proof (induction hist arbitrary: m)
    case (Cons nh hist)
    obtain n h where nh: "nh = (n, h)" by fastforce
    have parts: "distinct (map fst h)" "history_ok hist" "map_of hist n = None" if "history_ok ((n, h) # hist)"
      using that by (auto simp: history_ok_def map_of_eq_None_iff)
    { case 1 then show ?case using Cons.IH(1) add_node(1) parts by (simp add: nh) }
    { case 2 then show ?case using Cons.IH(2) parts by (simp add: nh seqs_of_def add_node(2) split: option.split) }
  qed (simp_all add: seqs_of_def)
  from this(1) [of "[]"] this(2) [of "[]"] show "rows_ok (validatedHashesBySeq hist)"
    "map_of (row (validatedHashesBySeq hist) q) k = map_of (seqs_of hist k) q"
    by (simp_all add: validatedHashesBySeq_def rows_ok_def row_def split: option.splits)
qed

section \<open>What the state diff says about forks\<close>

text \<open>Two nodes whose histories hold different hashes for the sequence.\<close>

definition forked :: "history \<Rightarrow> int \<Rightarrow> bool" where
  "forked hist q \<longleftrightarrow> (\<exists>a b x y. map_of (seqs_of hist a) q = Some x \<and> map_of (seqs_of hist b) q = Some y \<and> x \<noteq> y)"

lemma two_values:
  assumes "distinct (map fst m)"
  shows "2 \<le> length (distinct_values m) \<longleftrightarrow> (\<exists>a b x y. map_of m a = Some x \<and> map_of m b = Some y \<and> x \<noteq> y)"
proof -
  have "length (distinct_values m) = card (snd ` set m)"
    by (simp add: distinct_values_def length_remdups_card_conv)
  moreover have "snd ` set m = ran (map_of m)" using ran_distinct [OF assms] by simp
  moreover have "card (ran (map_of m)) \<le> Suc 0 \<longleftrightarrow> (\<forall>x \<in> ran (map_of m). \<forall>y \<in> ran (map_of m). x = y)"
    by (rule card_le_Suc0_iff_eq) (rule finite_ran [OF finite_dom_map_of])
  ultimately show ?thesis by (auto simp: ran_def not_less_eq_eq [symmetric] numeral_2_eq_2)
qed

lemma forked_row: "history_ok hist \<Longrightarrow> 2 \<le> length (distinct_values (row (validatedHashesBySeq hist) q)) \<longleftrightarrow> forked hist q"
  by (subst two_values [OF rows_distinct [OF turned_around(1)]]) (simp_all add: turned_around(2) forked_def)

lemma fork_scan:
  assumes "distinct (map fst m)"
  shows "case fold fork_visit m found of
      None \<Rightarrow> found = None \<and> (\<forall>p \<in> set m. length (distinct_values (snd p)) < 2)
    | Some best \<Rightarrow> (Some best = found \<or> best \<in> set m \<and> 2 \<le> length (distinct_values (snd best)))
        \<and> (\<forall>p \<in> set m. 2 \<le> length (distinct_values (snd p)) \<longrightarrow> fst best \<le> fst p) \<and> (\<forall>f. found = Some f \<longrightarrow> fst best \<le> fst f)"
  using assms
proof (induction m arbitrary: found)
  case (Cons qb m)
  have short: "length (snd qb) < 2 \<Longrightarrow> length (distinct_values (snd qb)) < 2"
    by (rule le_less_trans [OF length_remdups_leq [of "map snd (snd qb)", folded distinct_values_def]]) simp
  have d: "distinct (map fst m)" using Cons.prems by simp
  show ?case
  proof (cases "length (distinct_values (snd qb)) < 2")
    case True
    then have "fork_visit qb found = found" by (simp add: fork_visit_def)
    then show ?thesis using Cons.IH [OF d, of found] True by (auto split: option.splits)
  next
    case False
    then have visit: "fork_visit qb found = (case found of None \<Rightarrow> Some qb | Some best \<Rightarrow> if fst qb < fst best then Some qb else found)"
      using short by (auto simp: fork_visit_def)
    show ?thesis
    proof (cases "fold fork_visit m (fork_visit qb found)")
      case None
      then show ?thesis using Cons.IH [OF d, of "fork_visit qb found"] visit by (cases found) (auto split: if_splits)
    next
      case (Some best)
      then show ?thesis using Cons.IH [OF d, of "fork_visit qb found"] visit False
        by (cases found; cases qb) (auto split: if_splits)
    qed
  qed
qed (simp split: option.split)

lemma earliest_fork:
  assumes "history_ok hist"
  shows "case earliestForkedSeq (validatedHashesBySeq hist) of
      None \<Rightarrow> \<forall>q. \<not> forked hist q
    | Some (fq, fm) \<Rightarrow> forked hist fq \<and> fm = row (validatedHashesBySeq hist) fq \<and> (\<forall>q. forked hist q \<longrightarrow> fq \<le> q)"
proof -
  let ?m = "validatedHashesBySeq hist"
  have d: "distinct (map fst ?m)" using turned_around(1) [OF assms] by (simp add: rows_ok_def)
  have in_row: "b = row ?m q" if "(q, b) \<in> set ?m" for q b using that d by (simp add: row_def map_of_is_SomeI)
  have forked_in: "(q, row ?m q) \<in> set ?m" if "forked hist q" for q
    using that forked_row [OF assms, of q] by (auto simp: row_def distinct_values_def split: option.splits dest: map_of_SomeD)
  show ?thesis
  proof (cases "earliestForkedSeq ?m")
    case None
    then have "\<forall>p \<in> set ?m. length (distinct_values (snd p)) < 2"
      using fork_scan [OF d, of None] by (simp add: earliestForkedSeq_def)
    then have "\<not> forked hist q" for q
      using forked_in [of q] forked_row [OF assms, of q] by fastforce
    with None show ?thesis by simp
  next
    case (Some best)
    obtain fq fm where best: "best = (fq, fm)" by fastforce
    have b: "(fq, fm) \<in> set ?m" "2 \<le> length (distinct_values fm)"
      and least: "\<forall>p \<in> set ?m. 2 \<le> length (distinct_values (snd p)) \<longrightarrow> fq \<le> fst p"
      using fork_scan [OF d, of None] Some by (simp_all add: earliestForkedSeq_def best)
    then have fm: "fm = row ?m fq" by (simp add: in_row)
    have "fq \<le> q" if "forked hist q" for q
      using least forked_in [OF that] forked_row [OF assms, of q] that by fastforce
    then show ?thesis using b(2) forked_row [OF assms, of fq] by (simp add: Some best fm [symmetric])
  qed
qed

lemma tip_fold:
  assumes "\<And>v. Some v \<in> set vs \<Longrightarrow> tip_recorded hist (nv_name v) v" and "0 < q"
    and "\<And>k h. map_of m k = Some h \<Longrightarrow> map_of (seqs_of hist k) q = Some h" and "distinct (map fst m)"
  shows "(map_of (fold (add_tip q) vs m) k = Some h \<longrightarrow> map_of (seqs_of hist k) q = Some h)
    \<and> distinct (map fst (fold (add_tip q) vs m))"
  using assms
proof (induction vs arbitrary: m)
  case (Cons v vs)
  have "map_of (add_tip q v m) k = Some h \<Longrightarrow> map_of (seqs_of hist k) q = Some h" for k h
    using Cons.prems(1) [of "the v"] Cons.prems(2, 3)
    by (auto simp: add_tip_def tip_recorded_def update_conv' simp del: map_of_eq_Some_iff split: option.splits if_splits)
  moreover have "distinct (map fst (add_tip q v m))"
    using Cons.prems(4) by (auto simp: add_tip_def distinct_update split: option.splits)
  ultimately show ?case using Cons.IH [of "add_tip q v m"] Cons.prems(1, 2) by simp
qed simp

lemma with_history_row:
  assumes "distinct (map fst extra)"
  shows "map_of (with_history extra m) k = (case map_of m k of None \<Rightarrow> map_of extra k | Some h \<Rightarrow> Some h)"
  using assms unfolding with_history_def
proof (induction extra arbitrary: m)
  case (Cons nh extra)
  then have "map_of extra (fst nh) = None" by (simp add: map_of_eq_None_iff)
  then show ?case using Cons by (cases nh) (auto simp: keep_tip_def update_conv' simp del: map_of_eq_Some_iff map_of_eq_None_iff split: option.split)
qed (simp split: option.split)

lemma with_history_distinct: "distinct (map fst m) \<Longrightarrow> distinct (map fst (with_history extra m))"
  unfolding with_history_def by (induction extra arbitrary: m) (auto simp: keep_tip_def distinct_update)

lemma row_at:
  assumes "poller_ok p" and "0 < q"
  shows "map_of (with_history (row (validatedHashesBySeq (np_history p)) q) (tip_hashes q (snapshot p))) k = map_of (seqs_of (np_history p) k) q"
    and "2 \<le> length (distinct_values (with_history (row (validatedHashesBySeq (np_history p)) q) (tip_hashes q (snapshot p)))) \<longleftrightarrow> forked (np_history p) q"
proof -
  let ?hist = "np_history p" and ?m = "with_history (row (validatedHashesBySeq (np_history p)) q) (tip_hashes q (snapshot p))"
  have hist: "history_ok ?hist" and tips: "\<And>k v. map_of (np_nodes p) k = Some v \<Longrightarrow> tip_recorded ?hist k v"
    using assms(1) by (auto simp: poller_ok_def)
  have "Some v \<in> set (snapshot p) \<Longrightarrow> tip_recorded ?hist (nv_name v) v" for v
    by (auto simp: snapshot_def image_iff) (metis tips tip_recorded_def)
  then have tip: "map_of (tip_hashes q (snapshot p)) k = Some h \<longrightarrow> map_of (seqs_of ?hist k) q = Some h"
    and dt: "distinct (map fst (tip_hashes q (snapshot p)))" for k h
    using tip_fold [of "snapshot p" ?hist q "[]"] assms(2) by (simp_all add: tip_hashes_def)
  have dr: "distinct (map fst (row (validatedHashesBySeq ?hist) q))" by (rule rows_distinct [OF turned_around(1) [OF hist]])
  have same: "map_of ?m k = map_of (seqs_of ?hist k) q" for k
    using tip [of k] by (simp add: with_history_row [OF dr] turned_around(2) [OF hist] split: option.split)
  then show "map_of ?m k = map_of (seqs_of ?hist k) q" .
  show "2 \<le> length (distinct_values ?m) \<longleftrightarrow> forked ?hist q"
    by (simp add: two_values [OF with_history_distinct [OF dt]] same forked_def)
qed

text \<open>C35: Once some node has a validated ledger, the state diff answers from the poller's history: it says
  diverged exactly when the history holds two hashes for some sequence, and then it shows such a
  sequence (the modal one if that is forked, and the earliest forked one otherwise) with each node's hash.\<close>

theorem state_diff_finds_forks:
  assumes "polled p" and "0 < pickSeq (snapshot p)"
  shows "(sd_diverged (diff_at p None) \<longleftrightarrow> (\<exists>q. forked (np_history p) q))
    \<and> (sd_diverged (diff_at p None) \<longleftrightarrow> forked (np_history p) (sd_ledger (diff_at p None)))
    \<and> map_of (sd_hashes (diff_at p None)) n = map_of (seqs_of (np_history p) n) (sd_ledger (diff_at p None))
    \<and> (sd_ledger (diff_at p None) = pickSeq (snapshot p)
       \<or> (\<forall>q. forked (np_history p) q \<longrightarrow> sd_ledger (diff_at p None) \<le> q))"
proof -
  have ok: "poller_ok p" by (rule polled_ok [OF assms(1)])
  then have hist: "history_ok (np_history p)" by (simp add: poller_ok_def)
  show ?thesis
    using row_at [OF ok assms(2)] earliest_fork [OF hist] turned_around(2) [OF hist]
    by (auto simp: diff_at_def Let_def row_def [symmetric] split: option.splits)
qed

section \<open>From the polls to a finding\<close>

lemma disagree_forked:
  assumes "history_ok (np_history p)"
  shows "disagree (DivergenceSnapshot p) q \<longleftrightarrow> forked (np_history p) q"
proof -
  let ?hist = "np_history p"
  have "i \<in> set (group_at q (DivergenceSnapshot p)) \<longleftrightarrow> di_seq i = q \<and> map_of (seqs_of ?hist (di_node i)) q = Some (di_hash i)" for i
  proof -
    have "i \<in> set (group_at q (DivergenceSnapshot p)) \<longleftrightarrow> (\<exists>n h. (n, h) \<in> set ?hist \<and> (q, di_hash i) \<in> set h \<and> di_node i = n \<and> di_seq i = q)"
      by (auto simp: group_at_def DivergenceSnapshot_def) (cases i, force)
    also have "\<dots> \<longleftrightarrow> di_seq i = q \<and> map_of (seqs_of ?hist (di_node i)) q = Some (di_hash i)"
      using assms by (fastforce simp: history_ok_def seqs_of_def split: option.splits dest: map_of_SomeD map_of_is_SomeI)
    finally show ?thesis .
  qed
  note inputs = this
  show ?thesis
  proof
    assume "disagree (DivergenceSnapshot p) q"
    then show "forked ?hist q" unfolding disagree_def forked_def by (metis inputs)
  next
    assume "forked ?hist q"
    then obtain a b x y where "map_of (seqs_of ?hist a) q = Some x" "map_of (seqs_of ?hist b) q = Some y" "x \<noteq> y"
      unfolding forked_def by blast
    then show "disagree (DivergenceSnapshot p) q"
      unfolding disagree_def
      using inputs [of "\<lparr>di_node = a, di_seq = q, di_hash = x\<rparr>"] inputs [of "\<lparr>di_node = b, di_seq = q, di_hash = y\<rparr>"] by force
  qed
qed

lemma all2_sets:
  "list_all2 R xs ys \<Longrightarrow> x \<in> set xs \<Longrightarrow> \<exists>y \<in> set ys. R x y" "list_all2 R xs ys \<Longrightarrow> y \<in> set ys \<Longrightarrow> \<exists>x \<in> set xs. R x y"
  by (induction rule: list_all2_induct) auto

text \<open>C34: A fork in the poller's history becomes a finding at the next tick of the divergence oracle,
  whatever that tick attaches to it, unless its hashes were reported before; and every finding of the tick
  is about a forked sequence.\<close>

theorem fork_reaches_findings:
  assumes "polled p" and "draws_fresh (de_fresh env)" and "store_ok s" and "ranges_over (DivergenceSnapshot p) order"
    and "forked (np_history p) q" and "key_at (DivergenceSnapshot p) q \<notin> set seen"
  shows "\<exists>fs. snd (divergence_tick env order now (DivergenceSnapshot p) (seen, s)) = fold store_add fs s
    \<and> (\<exists>f \<in> set fs. reports_seq f q) \<and> (\<forall>f \<in> set fs. \<exists>q'. forked (np_history p) q' \<and> reports_seq f q')"
proof -
  let ?in = "DivergenceSnapshot p"
  let ?new = "filter (\<lambda>q. disagree ?in q \<and> key_at ?in q \<notin> set seen) order"
  have hist: "history_ok (np_history p)" using polled_ok [OF assms(1)] by (simp add: poller_ok_def)
  have "distinct order" using assms(4) by (simp add: ranges_over_def)
  from divergence_fold [OF assms(2) this assms(3), of now ?in seen] obtain fs where
    fs: "snd (divergence_tick env order now ?in (seen, s)) = fold store_add fs s" "list_all2 reports_seq fs ?new"
    unfolding divergence_tick_def by auto
  have "disagree ?in q" using assms(5) by (simp add: disagree_forked [OF hist])
  then have "q \<in> set ?new" using assms(4, 6) by (auto simp: ranges_over_def disagree_def group_at_def)
  then have "\<exists>f \<in> set fs. reports_seq f q" using all2_sets(2) [OF fs(2)] by blast
  moreover have "\<exists>q'. forked (np_history p) q' \<and> reports_seq f q'" if "f \<in> set fs" for f
  proof -
    from all2_sets(1) [OF fs(2) that] obtain q' where "q' \<in> set ?new" "reports_seq f q'" by blast
    then show ?thesis by (auto simp: disagree_forked [OF hist])
  qed
  ultimately show ?thesis using fs(1) by blast
qed

section \<open>Two nodes that fork\<close>

definition sample_reply :: "int \<Rightarrow> string \<Rightarrow> server_info" where
  "sample_reply q h = \<lparr>si_state = ''full'', si_build = [], si_uptime = 1, si_peers = 1, si_complete = [],
     si_validated = \<lparr>lr_seq = q, lr_hash = h\<rparr>, si_closed = \<lparr>lr_seq = q, lr_hash = h\<rparr>, si_current = q + 1, si_network = 1,
     si_pubkey = [], si_last_close = \<lparr>lc_proposers = 1, lc_converge = 2\<rparr>\<rparr>"

definition sample_cfg :: "string \<Rightarrow> node_config" where
  "sample_cfg n = \<lparr>nk_name = n, nk_type = ''rippled'', nk_rpc = n\<rparr>"

definition sample_polls :: "(string \<times> int \<times> string) list \<Rightarrow> node_poller" where
  "sample_polls rs = fold (\<lambda>(n, q, h) p. fst (poll_reply False (sample_cfg n) (Inr (sample_reply q h)) p)) rs
     (NewNodePoller [sample_cfg ''a'', sample_cfg ''b''])"

lemma sample_polled: "polled (sample_polls rs)"
proof -
  have "polled p \<Longrightarrow> polled (fold (\<lambda>(n, q, h) p. fst (poll_reply False (sample_cfg n) (Inr (sample_reply q h)) p)) rs p)" for p
    by (induction rs arbitrary: p) (auto intro: polled.reply)
  then show ?thesis unfolding sample_polls_def by (simp add: polled.start)
qed

text \<open>Node b forks at ledger 5 and stays there, a and b having agreed on 4.\<close>

definition fork_polls :: node_poller where
  "fork_polls = sample_polls [(''a'', 4, ''X''), (''b'', 4, ''X''), (''a'', 5, ''Y''), (''b'', 5, ''Z''), (''a'', 6, ''V'')]"

lemmas fork_polls_eval = fork_polls_def sample_polls_def sample_cfg_def sample_reply_def NewNodePoller_def poll_reply_def
  recordValidatedLocked_def seqs_of_def maxValidatedHistorySeqs_def node_ok_def seen_ledger_def unreachable_def Let_def

lemma fork_polls_history: "np_history fork_polls = [(''a'', [(4, ''X''), (5, ''Y''), (6, ''V'')]), (''b'', [(4, ''X''), (5, ''Z'')])]"
  by (simp add: fork_polls_eval)

lemma fork_polls_pick: "pickSeq (snapshot fork_polls) = 6"
  by (simp add: fork_polls_eval snapshot_def pickSeq_def count_seq_def better_seq_def)

lemma fork_polls_forked: "forked (np_history fork_polls) 5"
  unfolding forked_def fork_polls_history by (rule exI [of _ "''a''"], rule exI [of _ "''b''"]) (simp add: seqs_of_def)

theorem validated_window_witness:
  "map_of (seqs_of (record_all_seqs ''a'' [(1, ''X''), (2, ''Y''), (600, ''Z'')] []) ''a'') 2 = None"
  by (subst validated_window [THEN conjunct1]) (simp_all add: maxValidatedHistorySeqs_def)

theorem state_diff_finds_forks_witness:
  "sd_diverged (diff_at fork_polls None)"
  using state_diff_finds_forks [of fork_polls] sample_polled fork_polls_forked
  by (auto simp: fork_polls_def fork_polls_pick [unfolded fork_polls_def])

theorem fork_reaches_findings_witness:
  "\<exists>fs f. snd (divergence_tick sample_env [4, 5, 6] 0 (DivergenceSnapshot fork_polls) ([], NewStore)) = fold store_add fs NewStore
     \<and> f \<in> set fs \<and> reports_seq f 5"
proof -
  have "draws_fresh (de_fresh sample_env)" by (simp add: sample_env_def long_id_fresh)
  moreover have "ranges_over (DivergenceSnapshot fork_polls) [4, 5, 6]"
    by (auto simp: ranges_over_def DivergenceSnapshot_def fork_polls_history)
  ultimately show ?thesis
    using fork_reaches_findings [of fork_polls sample_env NewStore "[4, 5, 6]" 5 "[]" 0] fork_polls_forked store_ok_New
      sample_polled [of "[(''a'', 4, ''X''), (''b'', 4, ''X''), (''a'', 5, ''Y''), (''b'', 5, ''Z''), (''a'', 6, ''V'')]", folded fork_polls_def]
    by auto
qed

end
