(* ===== verification/Runs.thy ===== *)
theory Runs
  imports Nodes
begin

text \<open>
  The runs of the control service (\<open>sidecar/internal/server/runs.go\<close>), the event bus
  (\<open>events.go\<close>) and the reproducer emitter (\<open>reproducers.go\<close>). A run is shared by pointer between the
  store of runs, the server and the goroutine that watches it, so everything refers to it by its identifier.
  Each operation returns the events it published beside the state. Clocks, fresh identifiers, the YAML encoder
  and the file system are in the environment.
\<close>

section \<open>The event bus\<close>

definition RunStatusRunning :: string where
  "RunStatusRunning = ''running''"

definition RunStatusCompletedBudget :: string where
  "RunStatusCompletedBudget = ''completed_budget''"

definition RunStatusCompletedStopOn :: string where
  "RunStatusCompletedStopOn = ''completed_stop_on''"

record run =
  rn_id :: string
  rn_scenario :: string
  rn_status :: string
  rn_started :: int
  rn_ended :: "int option"
  rn_budget_ends :: int
  rn_stop_on :: "string list"
  rn_findings :: "string list"
  rn_repros :: "string list"
  rn_trigger :: string

datatype payload = PFinding finding | PRun run | PNodes "node_view option list"

record event =
  vt_type :: string
  vt_payload :: payload
  vt_ts :: int

text \<open>A buffered channel: its capacity and what it holds. A send with a \<open>default\<close> case drops the event
  when the buffer is full; the service subscribes with capacities 64 and 32 only.\<close>

record channel =
  ch_cap :: nat
  ch_queue :: "event list"

record event_bus =
  eb_subs :: "(int \<times> channel) list"
  eb_next :: int

definition NewEventBus :: event_bus where
  "NewEventBus = \<lparr>eb_subs = [], eb_next = 0\<rparr>"

definition send :: "event \<Rightarrow> channel \<Rightarrow> channel" where
  "send e ch = (if length (ch_queue ch) < ch_cap ch then ch\<lparr>ch_queue := ch_queue ch @ [e]\<rparr> else ch)"

definition Publish :: "event \<Rightarrow> event_bus \<Rightarrow> event_bus" where
  "Publish e b = b\<lparr>eb_subs := map (\<lambda>(i, ch). (i, send e ch)) (eb_subs b)\<rparr>"

definition Subscribe :: "nat \<Rightarrow> event_bus \<Rightarrow> int \<times> event_bus" where
  "Subscribe buf b = (eb_next b, \<lparr>eb_subs = AList.update (eb_next b) \<lparr>ch_cap = buf, ch_queue = []\<rparr> (eb_subs b), eb_next = eb_next b + 1\<rparr>)"

definition Unsubscribe :: "int \<Rightarrow> event_bus \<Rightarrow> event_bus" where
  "Unsubscribe i b = b\<lparr>eb_subs := AList.delete i (eb_subs b)\<rparr>"

text \<open>\<open>ev, ok := <-ch\<close>; a channel out of the map is closed.\<close>

definition receive :: "int \<Rightarrow> event_bus \<Rightarrow> (event \<times> event_bus) option" where
  "receive i b = (case map_of (eb_subs b) i of None \<Rightarrow> None
     | Some ch \<Rightarrow> (case ch_queue ch of [] \<Rightarrow> None
        | e # es \<Rightarrow> Some (e, b\<lparr>eb_subs := AList.update i (ch\<lparr>ch_queue := es\<rparr>) (eb_subs b)\<rparr>)))"

section \<open>Runs\<close>

definition stopOnMatches :: "string \<Rightarrow> string list" where
  "stopOnMatches cond = (if cond = ''first_divergence'' then [KindStateDivergence]
     else if cond = ''first_crash'' then [KindNodeCrash] else [])"

definition matchesStopOn :: "run \<Rightarrow> string \<Rightarrow> bool \<times> string" where
  "matchesStopOn r kind = (case find (\<lambda>cond. kind \<in> set (stopOnMatches cond)) (rn_stop_on r) of
      Some cond \<Rightarrow> (True, cond) | None \<Rightarrow> (False, []))"

text \<open>A watching goroutine, before and after it subscribed.\<close>

record watcher =
  wt_run :: string
  wt_scenario :: scenario
  wt_sub :: "int option"

record control =
  ct_store :: "store option"
  ct_bus :: "event_bus option"
  ct_emitter :: bool
  ct_runs :: "(string \<times> run) list"
  ct_current :: "string option"
  ct_watchers :: "watcher list"

record control_env =
  ce_new_run :: "control \<Rightarrow> string"
  ce_new_repro :: "control \<Rightarrow> string"
  ce_marshal :: "scenario \<Rightarrow> string go_result"
  ce_mkdir :: "string option"
  ce_write :: "string \<Rightarrow> string \<Rightarrow> string option"
  ce_duration :: "string \<Rightarrow> int go_result"
  ce_repro_dir :: string

definition publish :: "event \<Rightarrow> control \<Rightarrow> control \<times> event list" where
  "publish e c = (case ct_bus c of None \<Rightarrow> (c, []) | Some b \<Rightarrow> (c\<lparr>ct_bus := Some (Publish e b)\<rparr>, [e]))"

definition set_run :: "run \<Rightarrow> control \<Rightarrow> control" where
  "set_run r c = c\<lparr>ct_runs := AList.update (rn_id r) r (ct_runs c)\<rparr>"

definition sync_ids :: "string \<Rightarrow> finding list \<Rightarrow> string list \<Rightarrow> string list" where
  "sync_ids rid fs ids = ids @ map fd_id (filter (\<lambda>f. fd_run f = rid \<and> fd_id f \<notin> set ids) fs)"

definition syncFindingsForRun :: "run \<Rightarrow> control \<Rightarrow> run" where
  "syncFindingsForRun r c = (case ct_store c of None \<Rightarrow> r
     | Some s \<Rightarrow> (case store_list s \<lparr>lo_since = [], lo_kind = [], lo_limit = 1000\<rparr> of
         None \<Rightarrow> r
       | Some fs \<Rightarrow> r\<lparr>rn_findings := sync_ids (rn_id r) fs (rn_findings r)\<rparr>))"

definition closeRun :: "int \<Rightarrow> run \<Rightarrow> string \<Rightarrow> string \<Rightarrow> control \<Rightarrow> control \<times> event list" where
  "closeRun now r status trigger c =
     (let done_run = (syncFindingsForRun r c)\<lparr>rn_status := status, rn_ended := Some now, rn_trigger := trigger\<rparr>
      in publish \<lparr>vt_type = ''run_completed'', vt_payload = PRun done_run, vt_ts = now\<rparr> (set_run done_run c))"

section \<open>Reproducers\<close>

definition replay_of :: "string \<Rightarrow> scenario \<Rightarrow> scenario" where
  "replay_of rid sc = sc\<lparr>sn_workload := (sn_workload sc)\<lparr>wl_kind := ''replay'', wl_reproducer := Some rid\<rparr>\<rparr>"

definition Emit :: "control_env \<Rightarrow> scenario \<Rightarrow> string \<Rightarrow> control \<Rightarrow> reproducer go_result \<times> control" where
  "Emit env sc trigger c =
     (let rid = ce_new_repro env c in case ce_marshal env (replay_of rid sc) of
        Inl e \<Rightarrow> (Inl (''marshal scenario: '' @ e), c)
      | Inr data \<Rightarrow> (case ce_mkdir env of
          Some e \<Rightarrow> (Inl (''mkdir reproducers dir: '' @ e), c)
        | None \<Rightarrow> (case ce_write env (path_join [ce_repro_dir env, rid @ ''.yaml'']) data of
          Some e \<Rightarrow> (Inl (''write reproducer: '' @ e), c)
        | None \<Rightarrow>
            (let rep = \<lparr>rp_id = rid, rp_path = ''.confluence/reproducers/'' @ rid @ ''.yaml'', rp_kind = ''replay''\<rparr>
             in (Inr rep, c\<lparr>ct_store := map_option (\<lambda>s. case UpdateReproducer trigger (Some rep) s of
                   None \<Rightarrow> s | Some (_, s') \<Rightarrow> s') (ct_store c)\<rparr>)))))"

definition handleStopOnTrigger :: "control_env \<Rightarrow> int \<Rightarrow> run \<Rightarrow> scenario \<Rightarrow> finding \<Rightarrow> control \<Rightarrow> control \<times> event list" where
  "handleStopOnTrigger env now r sc trigger c =
     (case closeRun now r RunStatusCompletedStopOn (fd_id trigger) c of (c1, evs) \<Rightarrow>
        if \<not> ct_emitter c then (c1, evs)
        else (case Emit env sc (fd_id trigger) c1 of
            (Inl _, c2) \<Rightarrow> (c2, evs)
          | (Inr rep, c2) \<Rightarrow> (case map_of (ct_runs c2) (rn_id r) of
                None \<Rightarrow> (c2, evs)
              | Some r2 \<Rightarrow> (set_run (r2\<lparr>rn_repros := rn_repros r2 @ [rp_id rep]\<rparr>) c2, evs))))"

section \<open>Handlers\<close>

definition startRun :: "control_env \<Rightarrow> int \<Rightarrow> string \<Rightarrow> scenario go_result \<Rightarrow> control \<Rightarrow> run http \<times> control" where
  "startRun env now content_type body c =
     (if \<not> has_prefix content_type ''application/json'' then
        (http_error 415 ''unsupported_media_type'' ''Content-Type must be application/json'' [], c)
      else case body of
          Inl e \<Rightarrow> (http_error 400 ''bad_request'' e [], c)
        | Inr sc \<Rightarrow> (case Validate (ce_duration env) (Some sc) of
            e # _ \<Rightarrow> (Inl (400, \<lparr>ae_code = ''scenario_invalid'', ae_message = ae_message e, ae_field = ae_field e, ae_hint = ae_hint e\<rparr>), c)
          | [] \<Rightarrow>
              (let dur = (case ce_duration env (sn_duration sc) of Inl _ \<Rightarrow> 0 | Inr d \<Rightarrow> d);
                   r = \<lparr>rn_id = ce_new_run env c, rn_scenario = sn_name sc, rn_status = RunStatusRunning, rn_started = now, rn_ended = None,
                     rn_budget_ends = now + dur, rn_stop_on = sn_stop_on sc, rn_findings = [], rn_repros = [], rn_trigger = []\<rparr>
               in (Inr r, (set_run r c)\<lparr>ct_current := Some (rn_id r),
                     ct_watchers := ct_watchers c @ [\<lparr>wt_run = rn_id r, wt_scenario = sc, wt_sub = None\<rparr>]\<rparr>))))"

definition listRuns :: "control \<Rightarrow> run list" where
  "listRuns c = map snd (ct_runs c)"

definition runByID :: "string \<Rightarrow> control \<Rightarrow> run http \<times> control" where
  "runByID i c = (case map_of (ct_runs c) i of
      None \<Rightarrow> (http_error 404 ''run_not_found'' ''run not found'' ''id'', c)
    | Some r \<Rightarrow> (let r' = syncFindingsForRun r c in (Inr r', set_run r' c)))"

definition currentRunID :: "control \<Rightarrow> string" where
  "currentRunID c = (case ct_current c of None \<Rightarrow> [] | Some i \<Rightarrow> i)"

section \<open>The watching goroutine\<close>

definition leave :: "watcher \<Rightarrow> control \<Rightarrow> control" where
  "leave w c = c\<lparr>ct_watchers := remove1 w (ct_watchers c),
     ct_bus := (case wt_sub w of None \<Rightarrow> ct_bus c | Some i \<Rightarrow> map_option (Unsubscribe i) (ct_bus c))\<rparr>"

definition watch_subscribe :: "watcher \<Rightarrow> control \<Rightarrow> control" where
  "watch_subscribe w c = (case ct_bus c of None \<Rightarrow> c
     | Some b \<Rightarrow> (case Subscribe 64 b of (i, b') \<Rightarrow>
         c\<lparr>ct_bus := Some b', ct_watchers := map (\<lambda>v. if v = w then w\<lparr>wt_sub := Some i\<rparr> else v) (ct_watchers c)\<rparr>))"

text \<open>A tick of the watcher; the loop without a bus has the same body.\<close>

definition watcher_tick :: "int \<Rightarrow> watcher \<Rightarrow> control \<Rightarrow> control \<times> event list" where
  "watcher_tick now w c = (case map_of (ct_runs c) (wt_run w) of
      None \<Rightarrow> (c, [])
    | Some r \<Rightarrow> if rn_budget_ends r < now then
          (case closeRun now r RunStatusCompletedBudget [] c of (c1, evs) \<Rightarrow> (leave w c1, evs))
        else (c, []))"

definition watch_event :: "control_env \<Rightarrow> int \<Rightarrow> watcher \<Rightarrow> event \<Rightarrow> control \<Rightarrow> control \<times> event list" where
  "watch_event env now w e c = (case vt_payload e of
      PFinding f \<Rightarrow> if vt_type e \<noteq> ''finding'' then (c, [])
        else (case map_of (ct_runs c) (wt_run w) of
            None \<Rightarrow> (c, [])
          | Some r \<Rightarrow>
              (let r1 = r\<lparr>rn_findings := rn_findings r @ [fd_id f]\<rparr>; c1 = set_run r1 c
               in if fst (matchesStopOn r1 (fd_kind f)) then
                    (case handleStopOnTrigger env now r1 (wt_scenario w) f c1 of (c2, evs) \<Rightarrow> (leave w c2, evs))
                  else (c1, [])))
    | _ \<Rightarrow> (c, []))"

definition watch_receive :: "control_env \<Rightarrow> int \<Rightarrow> watcher \<Rightarrow> control \<Rightarrow> control \<times> event list" where
  "watch_receive env now w c = (case wt_sub w of None \<Rightarrow> (c, [])
     | Some i \<Rightarrow> (case Option.bind (ct_bus c) (receive i) of
         None \<Rightarrow> (c, [])
       | Some (e, b) \<Rightarrow> watch_event env now w e (c\<lparr>ct_bus := Some b\<rparr>)))"

section \<open>The service at work\<close>

text \<open>\<open>findingStore.Add\<close> and the callback that \<open>main\<close> sets, which runs after the store's lock is
  released.\<close>

definition add_finding :: "finding \<Rightarrow> control \<Rightarrow> control" where
  "add_finding f c = c\<lparr>ct_store := map_option (store_add f) (ct_store c)\<rparr>"

definition announce_finding :: "finding \<Rightarrow> control \<Rightarrow> control \<times> event list" where
  "announce_finding f c = publish \<lparr>vt_type = ''finding'', vt_payload = PFinding f, vt_ts = fd_opened f\<rparr> c"

inductive control_step :: "control_env \<Rightarrow> control \<Rightarrow> event list \<Rightarrow> control \<Rightarrow> bool" for env where
  start: "startRun env now ct body c = (res, c') \<Longrightarrow> control_step env c [] c'"
| subscribe: "w \<in> set (ct_watchers c) \<Longrightarrow> wt_sub w = None \<Longrightarrow> control_step env c [] (watch_subscribe w c)"
| tick: "w \<in> set (ct_watchers c) \<Longrightarrow> wt_sub w \<noteq> None \<or> ct_bus c = None \<Longrightarrow> watcher_tick now w c = (c', evs) \<Longrightarrow> control_step env c evs c'"
| receive: "w \<in> set (ct_watchers c) \<Longrightarrow> watch_receive env now w c = (c', evs) \<Longrightarrow> control_step env c evs c'"
| add: "control_step env c [] (add_finding f c)"
| announce: "announce_finding f c = (c', evs) \<Longrightarrow> control_step env c evs c'"
| get: "runByID i c = (res, c') \<Longrightarrow> control_step env c [] c'"

inductive control_reach :: "control_env \<Rightarrow> control \<Rightarrow> event list \<Rightarrow> control \<Rightarrow> bool" for env c0 where
  init: "control_reach env c0 [] c0"
| step: "control_reach env c0 evs c \<Longrightarrow> control_step env c new c' \<Longrightarrow> control_reach env c0 (evs @ new) c'"

definition new_control :: "store option \<Rightarrow> bool \<Rightarrow> bool \<Rightarrow> control" where
  "new_control s bus emitter = \<lparr>ct_store = s, ct_bus = (if bus then Some NewEventBus else None), ct_emitter = emitter, ct_runs = [],
     ct_current = None, ct_watchers = []\<rparr>"

end
