(* ===== verification/Run_Properties.thy ===== *)
theory Run_Properties
  imports Runs Oracle_Properties
begin

text \<open>
  The life of a run in the control service: it is watched until it completes, completes once and for a
  reason, and is then kept. Then the event bus, and the findings a run lists.
\<close>

section \<open>The life of a run\<close>

definition completes :: "string \<Rightarrow> event \<Rightarrow> bool" where
  "completes i e = (case vt_payload e of PRun r \<Rightarrow> vt_type e = ''run_completed'' \<and> rn_id r = i | _ \<Rightarrow> False)"

definition completions :: "string \<Rightarrow> event list \<Rightarrow> nat" where
  "completions i evs = length (filter (completes i) evs)"

text \<open>Why a run may end at a time: its budget was over, or a finding that was announced and is listed
  in the run matches one of its stop conditions.\<close>

definition ended_for :: "event list \<Rightarrow> run \<Rightarrow> int \<Rightarrow> bool" where
  "ended_for evs r t \<longleftrightarrow>
     rn_status r = RunStatusCompletedBudget \<and> rn_trigger r = [] \<and> rn_budget_ends r < t
   \<or> rn_status r = RunStatusCompletedStopOn
     \<and> (\<exists>e f. e \<in> set evs \<and> vt_type e = ''finding'' \<and> vt_payload e = PFinding f \<and> fd_id f = rn_trigger r
          \<and> fd_id f \<in> set (rn_findings r) \<and> fst (matchesStopOn r (fd_kind f)))"

definition run_ok :: "bool \<Rightarrow> event list \<Rightarrow> run \<Rightarrow> bool" where
  "run_ok watched evs r \<longleftrightarrow>
     (if watched then rn_status r = RunStatusRunning \<and> rn_ended r = None \<and> rn_trigger r = [] \<and> completions (rn_id r) evs = 0
      else completions (rn_id r) evs = 1 \<and> (\<exists>t. rn_ended r = Some t \<and> ended_for evs r t))"

definition watched :: "control \<Rightarrow> string \<Rightarrow> bool" where
  "watched c i \<longleftrightarrow> i \<in> wt_run ` set (ct_watchers c)"

definition runs_ok :: "event list \<Rightarrow> control \<Rightarrow> bool" where
  "runs_ok evs c \<longleftrightarrow> distinct (map wt_run (ct_watchers c)) \<and> (\<forall>i. watched c i \<longrightarrow> map_of (ct_runs c) i \<noteq> None)
     \<and> (\<forall>i r. map_of (ct_runs c) i = Some r \<longrightarrow> rn_id r = i \<and> run_ok (watched c i) evs r)
     \<and> (\<forall>i. map_of (ct_runs c) i = None \<longrightarrow> completions i evs = 0)"

definition bus_ok :: "event list \<Rightarrow> control \<Rightarrow> bool" where
  "bus_ok evs c \<longleftrightarrow> (\<exists>b. ct_bus c = Some b \<and> (\<forall>i ch. (i, ch) \<in> set (eb_subs b) \<longrightarrow> set (ch_queue ch) \<subseteq> set evs))"

definition new_ids :: "control_env \<Rightarrow> bool" where
  "new_ids env \<longleftrightarrow> (\<forall>c. map_of (ct_runs c) (ce_new_run env c) = None)"

lemma completions_simps [simp]:
  "completions i [] = 0" "completions i (evs @ new) = completions i evs + completions i new"
  by (simp_all add: completions_def)

lemma completions_finding: "vt_payload e = PFinding f \<Longrightarrow> completions i [e] = 0"
  by (simp add: completions_def completes_def)

lemma run_ok_more: "run_ok w evs r \<Longrightarrow> completions (rn_id r) new = 0 \<Longrightarrow> run_ok w (evs @ new) r"
  unfolding run_ok_def ended_for_def by (auto split: if_splits)

lemma matches_same [simp]:
  "matchesStopOn (r\<lparr>rn_findings := x\<rparr>) k = matchesStopOn r k" "matchesStopOn (r\<lparr>rn_repros := y\<rparr>) k = matchesStopOn r k"
  "matchesStopOn (r\<lparr>rn_status := st\<rparr>) k = matchesStopOn r k" "matchesStopOn (r\<lparr>rn_ended := en\<rparr>) k = matchesStopOn r k"
  "matchesStopOn (r\<lparr>rn_trigger := tr\<rparr>) k = matchesStopOn r k"
  by (simp_all add: matchesStopOn_def)

lemma run_ok_extra:
  "run_ok w evs r \<Longrightarrow> run_ok w evs (r\<lparr>rn_findings := rn_findings r @ x\<rparr>)"
  "run_ok w evs r \<Longrightarrow> run_ok w evs (r\<lparr>rn_repros := y\<rparr>)"
  unfolding run_ok_def ended_for_def by (auto split: if_splits)

lemma sync_shape: "\<exists>x. syncFindingsForRun r c = r\<lparr>rn_findings := rn_findings r @ x\<rparr>"
  unfolding syncFindingsForRun_def sync_ids_def
  by (auto intro: exI [of _ "[]"] split: option.split)

lemma set_run_simps [simp]:
  "map_of (ct_runs (set_run r c)) i = (if i = rn_id r then Some r else map_of (ct_runs c) i)"
  "ct_watchers (set_run r c) = ct_watchers c" "ct_bus (set_run r c) = ct_bus c" "ct_store (set_run r c) = ct_store c"
  "ct_emitter (set_run r c) = ct_emitter c"
  by (simp_all add: set_run_def update_conv')

lemma watched_set_run [simp]: "watched (set_run r c) i = watched c i"
  by (simp add: watched_def)

lemma runs_ok_put:
  assumes "runs_ok evs c" and "map_of (ct_runs c) (rn_id r) \<noteq> None" and "run_ok (watched c (rn_id r)) evs r"
  shows "runs_ok evs (set_run r c)"
  using assms by (auto simp: runs_ok_def)

lemma runs_ok_cong:
  assumes "runs_ok evs c" and "ct_runs c' = ct_runs c" and "map wt_run (ct_watchers c') = map wt_run (ct_watchers c)"
  shows "runs_ok evs c'"
proof -
  have "watched c' i = watched c i" for i
    using assms(3) by (metis watched_def list.set_map)
  then show ?thesis using assms by (simp add: runs_ok_def)
qed

lemma runs_ok_events: "runs_ok evs c \<Longrightarrow> (\<And>i. completions i new = 0) \<Longrightarrow> runs_ok (evs @ new) c"
  by (auto simp: runs_ok_def intro: run_ok_more)

lemma runs_okD: "runs_ok evs c \<Longrightarrow> map_of (ct_runs c) i = Some r \<Longrightarrow> rn_id r = i \<and> run_ok (watched c i) evs r"
  by (simp add: runs_ok_def)

text \<open>Closing the run of a watcher and leaving keeps the invariant.\<close>

lemma remove1_watcher:
  assumes "distinct (map wt_run ws)" and "w \<in> set ws"
  shows "wt_run ` set (remove1 w ws) = wt_run ` set ws - {wt_run w}" and "distinct (map wt_run (remove1 w ws))"
proof -
  have "distinct ws" using assms(1) by (simp add: distinct_map)
  then show "wt_run ` set (remove1 w ws) = wt_run ` set ws - {wt_run w}"
    using assms by (auto simp: distinct_map inj_on_def)
  show "distinct (map wt_run (remove1 w ws))"
    using assms(1) by (simp add: distinct_map inj_on_def)
qed

lemma runs_ok_close:
  assumes "runs_ok evs c" and "w \<in> set (ct_watchers c)" and "rn_id r = wt_run w" and "ended_for evs r t" and "rn_ended r = Some t"
    and "vt_type e = ''run_completed''" and "vt_payload e = PRun r'" and "rn_id r' = rn_id r"
    and "ct_runs c' = ct_runs (set_run r c)" and "ct_watchers c' = ct_watchers c"
  shows "runs_ok (evs @ [e]) (leave w c')"
proof -
  have d: "distinct (map wt_run (ct_watchers c))" using assms(1) by (simp add: runs_ok_def)
  have watched: "watched (leave w c') i \<longleftrightarrow> watched c i \<and> i \<noteq> wt_run w" for i
    using remove1_watcher(1) [OF d assms(2)] by (simp add: watched_def leave_def assms(10))
  have live: "watched c (wt_run w)" using assms(2) by (simp add: watched_def)
  have one: "completions i [e] = (if i = wt_run w then 1 else 0)" for i
    using assms(3, 6-8) by (simp add: completions_def completes_def)
  obtain r0 where "map_of (ct_runs c) (wt_run w) = Some r0" using assms(1) live by (auto simp: runs_ok_def)
  from runs_okD [OF assms(1) this] live have "completions (wt_run w) evs = 0" by (auto simp: run_ok_def)
  then have new: "run_ok False (evs @ [e]) r"
    using assms(3-5) one by (auto simp: run_ok_def ended_for_def)
  have runs: "map_of (ct_runs (leave w c')) i = (if i = wt_run w then Some r else map_of (ct_runs c) i)" for i
    using assms(3, 9) by (simp add: leave_def)
  show ?thesis
    using assms(1, 3) remove1_watcher(2) [OF d assms(2)] one new
    by (auto simp: runs_ok_def watched runs leave_def [of w c', THEN arg_cong [of _ _ ct_watchers]] assms(10) intro!: run_ok_more)
qed

lemma watched_run:
  assumes "runs_ok evs c" and "w \<in> set (ct_watchers c)" and "map_of (ct_runs c) (wt_run w) = Some r"
  shows "rn_id r = wt_run w" and "run_ok True evs r"
proof -
  have "watched c (wt_run w)" using assms(2) by (simp add: watched_def)
  then show "rn_id r = wt_run w" "run_ok True evs r" using runs_okD [OF assms(1, 3)] by simp_all
qed

lemma queued_happened:
  assumes "bus_ok evs c" and "Option.bind (ct_bus c) (receive i) = Some (e, b)"
  shows "e \<in> set evs" and "bus_ok evs (c\<lparr>ct_bus := Some b\<rparr>)"
proof -
  obtain b0 where b0: "ct_bus c = Some b0" "\<And>j ch. (j, ch) \<in> set (eb_subs b0) \<Longrightarrow> set (ch_queue ch) \<subseteq> set evs"
    using assms(1) unfolding bus_ok_def by blast
  from assms(2) b0(1) obtain ch es where ch: "map_of (eb_subs b0) i = Some ch" "ch_queue ch = e # es"
    "b = b0\<lparr>eb_subs := AList.update i (ch\<lparr>ch_queue := es\<rparr>) (eb_subs b0)\<rparr>"
    by (auto simp: receive_def split: option.splits list.splits)
  have q: "set (ch_queue ch) \<subseteq> set evs" by (rule b0(2) [OF map_of_SomeD [OF ch(1)]])
  then show "e \<in> set evs" by (simp add: ch(2))
  show "bus_ok evs (c\<lparr>ct_bus := Some b\<rparr>)"
    using b0(2) q unfolding bus_ok_def by (fastforce simp: ch(2, 3) dest: set_update)
qed

lemma bus_ok_publish:
  assumes "bus_ok evs c" and "publish e c = (c', new)"
  shows "bus_ok (evs @ new) c'" and "new = [e]" and "ct_runs c' = ct_runs c" and "ct_watchers c' = ct_watchers c"
    and "ct_store c' = ct_store c" and "ct_emitter c' = ct_emitter c"
  using assms by (fastforce simp: bus_ok_def publish_def Publish_def send_def split: if_splits)+

lemma set_delete_subset: "set (AList.delete k xs) \<subseteq> set xs"
  by (auto simp: AList.delete_eq)

lemma bus_ok_leave: "bus_ok evs c \<Longrightarrow> bus_ok evs (leave w c)"
  by (fastforce simp: bus_ok_def leave_def Unsubscribe_def split: option.split dest!: subsetD [OF set_delete_subset])

lemma closeRun_shape:
  assumes "closeRun now r status trigger c = (c', new)" and "bus_ok evs c"
  obtains x e where "new = [e]" and "vt_type e = ''run_completed''"
    and "vt_payload e = PRun (r\<lparr>rn_findings := rn_findings r @ x, rn_status := status, rn_ended := Some now, rn_trigger := trigger\<rparr>)"
    and "ct_runs c' = ct_runs (set_run (r\<lparr>rn_findings := rn_findings r @ x, rn_status := status, rn_ended := Some now, rn_trigger := trigger\<rparr>) c)"
    and "ct_watchers c' = ct_watchers c" and "bus_ok (evs @ new) c'" and "ct_emitter c' = ct_emitter c"
proof -
  obtain x where x: "syncFindingsForRun r c = r\<lparr>rn_findings := rn_findings r @ x\<rparr>" using sync_shape by blast
  let ?d = "r\<lparr>rn_findings := rn_findings r @ x, rn_status := status, rn_ended := Some now, rn_trigger := trigger\<rparr>"
  have p: "publish \<lparr>vt_type = ''run_completed'', vt_payload = PRun ?d, vt_ts = now\<rparr> (set_run ?d c) = (c', new)"
    using assms(1) by (simp add: closeRun_def x Let_def)
  have "bus_ok evs (set_run ?d c)" using assms(2) by (simp add: bus_ok_def)
  from bus_ok_publish [OF this p] show thesis
    by (intro that [of "\<lparr>vt_type = ''run_completed'', vt_payload = PRun ?d, vt_ts = now\<rparr>" x] event.select_convs) simp_all
qed

text \<open>Every step keeps the invariant.\<close>

lemma startRun_ok:
  assumes "new_ids env" and "startRun env now ct body c = (res, c')" and "runs_ok evs c" and "bus_ok evs c"
  shows "runs_ok evs c' \<and> bus_ok evs c'"
proof (cases "c' = c")
  case False
  from assms(2) False obtain sc r where c': "c' = (set_run r c)\<lparr>ct_current := Some (rn_id r),
      ct_watchers := ct_watchers c @ [\<lparr>wt_run = rn_id r, wt_scenario = sc, wt_sub = None\<rparr>]\<rparr>"
    and r: "rn_id r = ce_new_run env c" "rn_status r = RunStatusRunning" "rn_ended r = None" "rn_trigger r = []"
    by (auto simp: startRun_def Let_def split: if_splits sum.splits list.splits)
  have new: "map_of (ct_runs c) (rn_id r) = None" using assms(1) r(1) by (simp add: new_ids_def)
  then have none: "\<not> watched c (rn_id r)" "completions (rn_id r) evs = 0" using assms(3) by (auto simp: runs_ok_def)
  have watched: "watched c' i \<longleftrightarrow> watched c i \<or> i = rn_id r" for i by (auto simp: watched_def c')
  have runs: "map_of (ct_runs c') i = (if i = rn_id r then Some r else map_of (ct_runs c) i)" for i by (simp add: c')
  have "run_ok True evs r" using r none(2) by (simp add: run_ok_def)
  then have "runs_ok evs c'"
    using assms(3) none(1) unfolding runs_ok_def watched runs by (auto simp: c' watched_def)
  then show ?thesis using assms(4) by (simp add: bus_ok_def c')
qed (use assms(3, 4) in simp)

lemma subscribe_ok:
  assumes "w \<in> set (ct_watchers c)" and "runs_ok evs c" and "bus_ok evs c"
  shows "runs_ok evs (watch_subscribe w c) \<and> bus_ok evs (watch_subscribe w c)"
proof -
  have "bus_ok evs (watch_subscribe w c)"
    using assms(3) by (fastforce simp: bus_ok_def watch_subscribe_def Subscribe_def dest: set_update)
  moreover have "runs_ok evs (watch_subscribe w c)"
    by (rule runs_ok_cong [OF assms(2)]) (auto simp: watch_subscribe_def split: option.split prod.split)
  ultimately show ?thesis by simp
qed

lemma tick_ok:
  assumes "w \<in> set (ct_watchers c)" and "watcher_tick now w c = (c', new)" and "runs_ok evs c" and "bus_ok evs c"
  shows "runs_ok (evs @ new) c' \<and> bus_ok (evs @ new) c'"
proof (cases "\<exists>r. map_of (ct_runs c) (wt_run w) = Some r \<and> rn_budget_ends r < now")
  case True
  then obtain r where r: "map_of (ct_runs c) (wt_run w) = Some r" "rn_budget_ends r < now" by blast
  obtain c1 new1 where close: "closeRun now r RunStatusCompletedBudget [] c = (c1, new1)" by fastforce
  then have c': "c' = leave w c1" "new = new1" using assms(2) r by (simp_all add: watcher_tick_def)
  from closeRun_shape [OF close assms(4)] obtain x e where e: "new1 = [e]" "vt_type e = ''run_completed''"
    "vt_payload e = PRun (r\<lparr>rn_findings := rn_findings r @ x, rn_status := RunStatusCompletedBudget, rn_ended := Some now, rn_trigger := []\<rparr>)"
    "ct_runs c1 = ct_runs (set_run (r\<lparr>rn_findings := rn_findings r @ x, rn_status := RunStatusCompletedBudget, rn_ended := Some now, rn_trigger := []\<rparr>) c)"
    "ct_watchers c1 = ct_watchers c" "bus_ok (evs @ new1) c1" by metis
  have id: "rn_id r = wt_run w" by (rule watched_run(1) [OF assms(3, 1) r(1)])
  have "runs_ok (evs @ [e]) (leave w c1)"
    by (rule runs_ok_close [OF assms(3, 1) _ _ _ e(2, 3) _ e(4, 5)]) (use id r(2) in \<open>simp_all add: ended_for_def\<close>)
  then show ?thesis using e(1, 6) by (simp add: c' bus_ok_leave)
next
  case False
  then have "c' = c \<and> new = []" using assms(2) by (auto simp: watcher_tick_def split: option.splits)
  then show ?thesis using assms(3, 4) by simp
qed

lemma Emit_shape:
  assumes "Emit env sc tr c = (res, c')"
  shows "ct_runs c' = ct_runs c" and "ct_watchers c' = ct_watchers c" and "ct_bus c' = ct_bus c"
  using assms by (auto simp: Emit_def Let_def split: sum.splits option.splits)

lemma handle_shape:
  assumes "handleStopOnTrigger env now r sc f c = (c', new)" and "bus_ok evs c"
  obtains x y e r' where "new = [e]" and "vt_type e = ''run_completed''" and "vt_payload e = PRun r'" and "rn_id r' = rn_id r"
    and "ct_runs c' = ct_runs (set_run (r\<lparr>rn_findings := rn_findings r @ x, rn_status := RunStatusCompletedStopOn,
           rn_ended := Some now, rn_trigger := fd_id f, rn_repros := y\<rparr>) c)"
    and "ct_watchers c' = ct_watchers c" and "bus_ok (evs @ new) c'"
proof -
  obtain c1 evs1 where close: "closeRun now r RunStatusCompletedStopOn (fd_id f) c = (c1, evs1)" by fastforce
  from closeRun_shape [OF close assms(2)] obtain x e where e: "evs1 = [e]" "vt_type e = ''run_completed''"
    "vt_payload e = PRun (r\<lparr>rn_findings := rn_findings r @ x, rn_status := RunStatusCompletedStopOn, rn_ended := Some now, rn_trigger := fd_id f\<rparr>)"
    "ct_runs c1 = ct_runs (set_run (r\<lparr>rn_findings := rn_findings r @ x, rn_status := RunStatusCompletedStopOn, rn_ended := Some now, rn_trigger := fd_id f\<rparr>) c)"
    "ct_watchers c1 = ct_watchers c" "bus_ok (evs @ evs1) c1" by metis
  let ?d = "r\<lparr>rn_findings := rn_findings r @ x, rn_status := RunStatusCompletedStopOn, rn_ended := Some now, rn_trigger := fd_id f\<rparr>"
  have keep: "?d\<lparr>rn_repros := rn_repros r\<rparr> = ?d" by simp
  obtain res c2 where emit: "Emit env sc (fd_id f) c1 = (res, c2)" by fastforce
  note same = Emit_shape [OF emit]
  have found: "map_of (ct_runs c2) (rn_id r) = Some ?d" by (simp add: same(1) e(4))
  have bus: "bus_ok (evs @ evs1) c2" using e(6) by (simp add: bus_ok_def same(3))
  show thesis
  proof (cases "\<not> ct_emitter c \<or> isl res")
    case True
    then have "new = evs1 \<and> (c' = c1 \<or> c' = c2)"
      using assms(1) by (auto simp: handleStopOnTrigger_def close emit split: if_splits sum.splits)
    then show thesis
      using e bus same keep by (intro that [of e ?d "rn_repros r" x]) auto
  next
    case False
    then obtain rep where "res = Inr rep" by (cases res) auto
    then have c': "new = evs1" "c' = set_run (?d\<lparr>rn_repros := rn_repros r @ [rp_id rep]\<rparr>) c2"
      using assms(1) False found by (auto simp: handleStopOnTrigger_def close emit)
    show thesis
      by (rule that [of e ?d "rn_repros r @ [rp_id rep]" x])
        (use e bus same in \<open>simp_all add: c' set_run_def bus_ok_def\<close>)
  qed
qed

lemma receive_ok:
  assumes "w \<in> set (ct_watchers c)" and "watch_receive env now w c = (c', new)" and "runs_ok evs c" and "bus_ok evs c"
  shows "runs_ok (evs @ new) c' \<and> bus_ok (evs @ new) c'"
proof (cases "\<exists>i e b. wt_sub w = Some i \<and> Option.bind (ct_bus c) (receive i) = Some (e, b)")
  case True
  then obtain i e b where got: "wt_sub w = Some i" "Option.bind (ct_bus c) (receive i) = Some (e, b)" by blast
  let ?c = "c\<lparr>ct_bus := Some b\<rparr>"
  have step: "watch_event env now w e ?c = (c', new)" using assms(2) got by (simp add: watch_receive_def)
  have e: "e \<in> set evs" and bus: "bus_ok evs ?c" using queued_happened [OF assms(4) got(2)] by simp_all
  have ok: "runs_ok evs ?c" by (rule runs_ok_cong [OF assms(3)]) simp_all
  have w: "w \<in> set (ct_watchers ?c)" using assms(1) by simp
  show ?thesis
  proof (cases "\<exists>f r. vt_payload e = PFinding f \<and> vt_type e = ''finding'' \<and> map_of (ct_runs ?c) (wt_run w) = Some r")
    case True
    then obtain f r where f: "vt_payload e = PFinding f" "vt_type e = ''finding''" "map_of (ct_runs ?c) (wt_run w) = Some r" by blast
    let ?r = "r\<lparr>rn_findings := rn_findings r @ [fd_id f]\<rparr>"
    have id: "rn_id r = wt_run w" and live: "run_ok True evs r" using watched_run [OF ok w f(3)] by simp_all
    have ok1: "runs_ok evs (set_run ?r ?c)"
      by (rule runs_ok_put [OF ok]) (use id f(3) w run_ok_extra(1) [OF live] in \<open>auto simp: watched_def\<close>)
    have bus1: "bus_ok evs (set_run ?r ?c)" using bus by (simp add: bus_ok_def)
    show ?thesis
    proof (cases "fst (matchesStopOn ?r (fd_kind f))")
      case True
      obtain c2 evs2 where handle: "handleStopOnTrigger env now ?r (wt_scenario w) f (set_run ?r ?c) = (c2, evs2)" by fastforce
      then have c': "c' = leave w c2" "new = evs2" using step f True by (simp_all add: watch_event_def Let_def)
      from handle_shape [OF handle bus1] obtain x y v r' where v: "evs2 = [v]" "vt_type v = ''run_completed''" "vt_payload v = PRun r'"
        "rn_id r' = rn_id ?r" "ct_runs c2 = ct_runs (set_run (?r\<lparr>rn_findings := rn_findings ?r @ x, rn_status := RunStatusCompletedStopOn,
           rn_ended := Some now, rn_trigger := fd_id f, rn_repros := y\<rparr>) (set_run ?r ?c))"
        "ct_watchers c2 = ct_watchers (set_run ?r ?c)" "bus_ok (evs @ evs2) c2" by metis
      have "runs_ok (evs @ [v]) (leave w c2)"
        by (rule runs_ok_close [OF ok1 _ _ _ _ v(2, 3) _ v(5, 6)])
          (use w id f e v(4) True in \<open>auto simp: ended_for_def\<close>)
      then show ?thesis using v(1, 7) by (simp add: c' bus_ok_leave)
    next
      case False
      then have "c' = set_run ?r ?c \<and> new = []" using step f by (simp add: watch_event_def Let_def)
      then show ?thesis using ok1 bus1 by simp
    qed
  next
    case False
    then have "c' = ?c \<and> new = []"
      using step by (auto simp: watch_event_def split: payload.splits if_splits option.splits)
    then show ?thesis using ok bus by simp
  qed
next
  case False
  then have "c' = c \<and> new = []" using assms(2) by (auto simp: watch_receive_def split: option.splits)
  then show ?thesis using assms(3, 4) by simp
qed

lemma get_ok:
  assumes "runByID i c = (res, c')" and "runs_ok evs c" and "bus_ok evs c"
  shows "runs_ok evs c' \<and> bus_ok evs c'"
proof (cases "map_of (ct_runs c) i")
  case (Some r)
  obtain x where x: "syncFindingsForRun r c = r\<lparr>rn_findings := rn_findings r @ x\<rparr>" using sync_shape by blast
  then have c': "c' = set_run (r\<lparr>rn_findings := rn_findings r @ x\<rparr>) c" using assms(1) by (simp add: runByID_def Some Let_def)
  have "rn_id r = i \<and> run_ok (watched c i) evs r" by (rule runs_okD [OF assms(2) Some])
  then have "runs_ok evs c'" unfolding c' by (intro runs_ok_put [OF assms(2)]) (simp_all add: Some run_ok_extra)
  then show ?thesis using assms(3) by (simp add: c' bus_ok_def)
qed (use assms in \<open>simp add: runByID_def\<close>)

lemma step_ok:
  assumes "control_step env c new c'" and "new_ids env" and "runs_ok evs c" and "bus_ok evs c"
  shows "runs_ok (evs @ new) c' \<and> bus_ok (evs @ new) c'"
  using assms
proof cases
  case start
  then show ?thesis using startRun_ok assms(2-4) by simp
next
  case subscribe
  then show ?thesis using subscribe_ok assms(3, 4) by simp
next
  case tick
  then show ?thesis using tick_ok assms(3, 4) by blast
next
  case receive
  then show ?thesis using receive_ok assms(3, 4) by blast
next
  case (add f)
  have "runs_ok evs c'" by (rule runs_ok_cong [OF assms(3)]) (simp_all add: add add_finding_def)
  then show ?thesis using assms(4) by (simp add: add add_finding_def bus_ok_def)
next
  case (announce f)
  note p = bus_ok_publish [OF assms(4) announce [unfolded announce_finding_def]]
  have "runs_ok (evs @ new) c" by (rule runs_ok_events [OF assms(3)]) (simp add: p(2) completions_finding)
  then have "runs_ok (evs @ new) c'" by (rule runs_ok_cong) (simp_all add: p(3, 4))
  then show ?thesis using p(1) by simp
next
  case get
  then show ?thesis using get_ok assms(3, 4) by simp
qed

lemma reach_ok:
  assumes "new_ids env" and "control_reach env (new_control s True em) evs c"
  shows "runs_ok evs c \<and> bus_ok evs c"
  using assms(2)
proof induction
  case init
  show ?case by (simp add: runs_ok_def bus_ok_def new_control_def watched_def NewEventBus_def)
next
  case (step evs c new c')
  then show ?case using step_ok [OF step.hyps(2) assms(1)] by blast
qed

text \<open>C36: A run the service tracks is watched and running, with no end, no trigger and no completion event; or
  it has completed: one completion event was published, and it ended for a reason, its budget or an
  announced and listed finding that matches a stop condition.\<close>

theorem run_completes_once:
  assumes "new_ids env" and "control_reach env (new_control s True em) evs c" and "map_of (ct_runs c) i = Some r"
  shows "if watched c i then rn_status r = RunStatusRunning \<and> rn_ended r = None \<and> completions i evs = 0
     else completions i evs = 1 \<and> (\<exists>t. rn_ended r = Some t \<and> ended_for evs r t)"
  using runs_okD [OF _ assms(3), of evs] reach_ok [OF assms(1, 2)] by (auto simp: run_ok_def)

section \<open>A finished run is kept\<close>

definition keeps_run :: "run \<Rightarrow> run \<Rightarrow> bool" where
  "keeps_run r r' \<longleftrightarrow> rn_status r' = rn_status r \<and> rn_ended r' = rn_ended r \<and> rn_trigger r' = rn_trigger r
     \<and> rn_repros r' = rn_repros r \<and> (\<exists>x. rn_findings r' = rn_findings r @ x)"

lemma keeps_run_refl: "keeps_run r r"
  by (simp add: keeps_run_def)

lemma keeps_run_trans: "keeps_run r r' \<Longrightarrow> keeps_run r' r'' \<Longrightarrow> keeps_run r r''"
  unfolding keeps_run_def by auto

lemma leave_simps [simp]:
  "ct_runs (leave w c) = ct_runs c" "watched (leave w c) i \<Longrightarrow> watched c i"
  using set_remove1_subset [of w "ct_watchers c"] by (auto simp: leave_def watched_def)

text \<open>A watcher touches its own run only.\<close>

definition same_but :: "string \<Rightarrow> control \<Rightarrow> control \<Rightarrow> bool" where
  "same_but j c c' \<longleftrightarrow> (\<forall>i. i \<noteq> j \<longrightarrow> map_of (ct_runs c') i = map_of (ct_runs c) i \<and> (watched c' i \<longrightarrow> watched c i))"

lemma same_but_leave: "same_but j c c' \<Longrightarrow> same_but j c (leave w c')"
  by (auto simp: same_but_def)

lemma sync_id [simp]: "rn_id (syncFindingsForRun r c) = rn_id r"
  using sync_shape [of r c] by auto

lemma closeRun_others: "closeRun now r st tr c = (c', new) \<Longrightarrow> same_but (rn_id r) c c'"
  by (auto simp: closeRun_def publish_def Let_def same_but_def watched_def split: option.splits)

lemma handle_others:
  assumes "handleStopOnTrigger env now r sc f c = (c', new)"
  shows "same_but (rn_id r) c c'"
proof -
  obtain c1 evs1 where close: "closeRun now r RunStatusCompletedStopOn (fd_id f) c = (c1, evs1)" by fastforce
  obtain res c2 where emit: "Emit env sc (fd_id f) c1 = (res, c2)" by fastforce
  note same = Emit_shape [OF emit] and others = closeRun_others [OF close]
  have id: "map_of (ct_runs c1) (rn_id r) = Some x \<Longrightarrow> rn_id x = rn_id r" for x
    using close by (auto simp: closeRun_def publish_def Let_def split: option.splits)
  have c2: "same_but (rn_id r) c c2" using others same by (simp add: same_but_def watched_def)
  then have put: "rn_id x = rn_id r \<Longrightarrow> same_but (rn_id r) c (set_run x c2)" for x by (simp add: same_but_def)
  show ?thesis
  proof (cases "ct_emitter c")
    case True
    have "c' = c2 \<or> (\<exists>x y. map_of (ct_runs c1) (rn_id r) = Some x \<and> c' = set_run (x\<lparr>rn_repros := y\<rparr>) c2)"
    proof (cases res)
      case (Inr rep)
      then show ?thesis using assms(1) True
        by (cases "map_of (ct_runs c1) (rn_id r)") (auto simp: handleStopOnTrigger_def close emit same(1))
    qed (use assms(1) True in \<open>simp add: handleStopOnTrigger_def close emit\<close>)
    then show ?thesis using c2 by (auto dest: id intro!: put)
  next
    case False
    then have "c' = c1" using assms(1) by (simp add: handleStopOnTrigger_def close)
    then show ?thesis using others by simp
  qed
qed

lemma receive_others:
  assumes "watch_receive env now w c = (c', new)" and "\<And>i x. map_of (ct_runs c) i = Some x \<Longrightarrow> rn_id x = i"
  shows "same_but (wt_run w) c c'"
proof (cases "\<exists>i e b. wt_sub w = Some i \<and> Option.bind (ct_bus c) (receive i) = Some (e, b)")
  case True
  then obtain i e b where got: "wt_sub w = Some i" "Option.bind (ct_bus c) (receive i) = Some (e, b)" by blast
  have step: "watch_event env now w e (c\<lparr>ct_bus := Some b\<rparr>) = (c', new)" using assms(1) got by (simp add: watch_receive_def)
  show ?thesis
  proof (cases "\<exists>f r. vt_payload e = PFinding f \<and> vt_type e = ''finding'' \<and> map_of (ct_runs c) (wt_run w) = Some r")
    case True
    then obtain f r where f: "vt_payload e = PFinding f" "vt_type e = ''finding''" "map_of (ct_runs c) (wt_run w) = Some r" by blast
    let ?r = "r\<lparr>rn_findings := rn_findings r @ [fd_id f]\<rparr>" and ?c = "c\<lparr>ct_bus := Some b\<rparr>"
    have id: "rn_id r = wt_run w" by (rule assms(2) [OF f(3)])
    obtain c2 evs2 where handle: "handleStopOnTrigger env now ?r (wt_scenario w) f (set_run ?r ?c) = (c2, evs2)" by fastforce
    have one: "same_but (wt_run w) c (set_run ?r ?c)" using id by (auto simp: same_but_def watched_def)
    with handle_others [OF handle] have "same_but (wt_run w) c c2" using id by (auto simp: same_but_def)
    with one step f show ?thesis
      by (auto simp: watch_event_def Let_def handle intro: same_but_leave split: if_splits)
  next
    case False
    then have "c' = c\<lparr>ct_bus := Some b\<rparr>" using step by (auto simp: watch_event_def split: payload.splits if_splits option.splits)
    then show ?thesis by (simp add: same_but_def watched_def)
  qed
next
  case False
  then have "c' = c" using assms(1) by (auto simp: watch_receive_def split: option.splits)
  then show ?thesis by (simp add: same_but_def)
qed

lemma tick_others:
  assumes "watcher_tick now w c = (c', new)" and "\<And>i x. map_of (ct_runs c) i = Some x \<Longrightarrow> rn_id x = i"
  shows "same_but (wt_run w) c c'"
proof (cases "map_of (ct_runs c) (wt_run w)")
  case (Some r)
  obtain c1 evs1 where close: "closeRun now r RunStatusCompletedBudget [] c = (c1, evs1)" by fastforce
  show ?thesis using assms(1) same_but_leave [OF closeRun_others [OF close]]
    by (auto simp: watcher_tick_def Some close assms(2) [OF Some] same_but_def split: if_splits)
qed (use assms(1) in \<open>simp add: watcher_tick_def same_but_def\<close>)

lemma step_keeps:
  assumes "control_step env c new c'" and "new_ids env" and "runs_ok evs c" and "bus_ok evs c"
    and "map_of (ct_runs c) i = Some r" and "\<not> watched c i"
  shows "\<exists>r'. map_of (ct_runs c') i = Some r' \<and> keeps_run r r' \<and> \<not> watched c' i"
proof -
  have other: "w \<in> set (ct_watchers c) \<Longrightarrow> wt_run w \<noteq> i" for w using assms(6) by (auto simp: watched_def)
  from assms(1) show ?thesis
  proof cases
    case (start now ct body res)
    have "ce_new_run env c \<noteq> i" using assms(2, 5) by (auto simp: new_ids_def)
    then show ?thesis using start assms(5, 6) keeps_run_refl
      by (auto simp: startRun_def Let_def watched_def split: if_splits sum.splits list.splits)
  next
    case (subscribe w)
    then show ?thesis using assms(5, 6) keeps_run_refl
      by (auto simp: watch_subscribe_def watched_def image_iff split: option.split prod.split)
  next
    case (tick w now)
    then show ?thesis using tick_others [OF tick(3)] runs_okD [OF assms(3)] other [OF tick(1)] assms(5, 6) keeps_run_refl
      by (auto simp: same_but_def)
  next
    case (receive w now)
    then show ?thesis using receive_others [OF receive(2)] runs_okD [OF assms(3)] other [OF receive(1)] assms(5, 6) keeps_run_refl
      by (auto simp: same_but_def)
  next
    case (add f)
    then show ?thesis using assms(5, 6) keeps_run_refl by (simp add: add_finding_def watched_def)
  next
    case (announce f)
    then show ?thesis using assms(5, 6) keeps_run_refl
      by (auto simp: announce_finding_def publish_def watched_def split: option.splits)
  next
    case (get j res)
    show ?thesis
    proof (cases "map_of (ct_runs c) j")
      case (Some r0)
      obtain x where x: "syncFindingsForRun r0 c = r0\<lparr>rn_findings := rn_findings r0 @ x\<rparr>" using sync_shape by blast
      have "rn_id r0 = j" using runs_okD [OF assms(3) Some] by simp
      then show ?thesis using get Some assms(5, 6) keeps_run_refl
        by (auto simp: runByID_def x Let_def keeps_run_def)
    qed (use get assms(5, 6) keeps_run_refl in \<open>auto simp: runByID_def\<close>)
  qed
qed


section \<open>The findings a run lists\<close>

lemma all_listed:
  assumes "store_ok s"
  shows "\<exists>fs. store_list s \<lparr>lo_since = [], lo_kind = [], lo_limit = 1000\<rparr> = Some fs \<and> set fs = set (st_findings s) \<and> distinct (map fd_id fs)"
proof -
  let ?o = "\<lparr>lo_since = [], lo_kind = [], lo_limit = 1000\<rparr>"
  have all: "keep_finding s ?o f = Some True" for f by (simp add: keep_finding_shows [OF assms] shows_finding_def)
  have "length (st_findings s) \<le> 1000" "distinct (map fd_id (st_findings s))" using assms by (simp_all add: store_ok_def maxCapacity_def)
  moreover have "list_loop (keep_finding s ?o) (rev (st_findings s)) 1000 = Some (take 1000 (filter (\<lambda>_. True) (rev (st_findings s))))"
    by (rule list_loop_take) (rule all)
  ultimately show ?thesis
    by (simp add: store_list_def list_limit_def maxCapacity_def distinct_map)
qed

lemma sync_lists:
  assumes "ct_store c = Some s" and "store_ok s"
  shows "set (rn_findings (syncFindingsForRun r c)) = set (rn_findings r) \<union> {i. \<exists>f \<in> set (st_findings s). fd_run f = rn_id r \<and> fd_id f = i}"
    and "distinct (rn_findings r) \<Longrightarrow> distinct (rn_findings (syncFindingsForRun r c))"
proof -
  obtain fs where fs: "store_list s \<lparr>lo_since = [], lo_kind = [], lo_limit = 1000\<rparr> = Some fs" "set fs = set (st_findings s)" "distinct (map fd_id fs)"
    using all_listed [OF assms(2)] by blast
  show "set (rn_findings (syncFindingsForRun r c)) = set (rn_findings r) \<union> {i. \<exists>f \<in> set (st_findings s). fd_run f = rn_id r \<and> fd_id f = i}"
    using fs(2) by (auto simp: syncFindingsForRun_def sync_ids_def assms(1) fs(1))
  show "distinct (rn_findings r) \<Longrightarrow> distinct (rn_findings (syncFindingsForRun r c))"
    using fs(3) by (auto simp: syncFindingsForRun_def sync_ids_def assms(1) fs(1) distinct_map_filter)
qed

text \<open>Closing a run, for whatever reason, lists every finding of the store that carries the run's
  identifier, and the run stored is the one published.\<close>

theorem closed_run_lists_findings:
  assumes "closeRun now r status trigger c = (c', new)" and "ct_store c = Some s" and "store_ok s"
  shows "\<exists>r'. map_of (ct_runs c') (rn_id r) = Some r' \<and> rn_status r' = status
    \<and> set (rn_findings r') = set (rn_findings r) \<union> {i. \<exists>f \<in> set (st_findings s). fd_run f = rn_id r \<and> fd_id f = i}
    \<and> (ct_bus c \<noteq> None \<longrightarrow> map vt_payload new = [PRun r'])"
  using assms(1) sync_lists(1) [OF assms(2, 3), of r]
  by (auto simp: closeRun_def publish_def Let_def split: option.splits)

lemma count_once: "x \<in> set xs \<Longrightarrow> distinct xs \<Longrightarrow> count_list xs x = 1"
  by (induction xs) auto

text \<open>The watcher does not look whether a finding is listed already: when a read of the run has listed
  a finding between its storing and the delivery of its event, the run lists it twice from then on.\<close>

theorem finding_listed_twice:
  assumes "ct_store c = Some s" and "store_ok s" and "f \<in> set (st_findings s)" and "fd_run f = wt_run w"
    and "map_of (ct_runs c) (wt_run w) = Some r" and "rn_id r = wt_run w" and "fd_id f \<notin> set (rn_findings r)" and "distinct (rn_findings r)"
    and "wt_sub w = Some i" and "ct_bus c = Some b" and "map_of (eb_subs b) i = Some ch"
    and "ch_queue ch = \<lparr>vt_type = ''finding'', vt_payload = PFinding f, vt_ts = t\<rparr> # es" and "\<not> fst (matchesStopOn r (fd_kind f))"
  shows "\<exists>r'. map_of (ct_runs (fst (watch_receive env now w (snd (runByID (wt_run w) c))))) (wt_run w) = Some r'
    \<and> count_list (rn_findings r') (fd_id f) = 2"
proof -
  let ?r = "syncFindingsForRun r c" and ?c = "set_run (syncFindingsForRun r c) c"
  obtain x where x: "?r = r\<lparr>rn_findings := rn_findings r @ x\<rparr>" using sync_shape by blast
  have get: "snd (runByID (wt_run w) c) = ?c" by (simp add: runByID_def assms(5) Let_def)
  have "fd_id f \<in> set (rn_findings ?r)" "distinct (rn_findings ?r)"
    using sync_lists [OF assms(1, 2), of r] assms(3, 4, 6, 8) by auto
  then have once: "count_list (rn_findings ?r) (fd_id f) = 1" by (rule count_once)
  have stop: "fst (matchesStopOn ?r (fd_kind f)) = False" using assms(13) by (simp add: x)
  have "Option.bind (ct_bus ?c) (receive i) = Some (\<lparr>vt_type = ''finding'', vt_payload = PFinding f, vt_ts = t\<rparr>,
      b\<lparr>eb_subs := AList.update i (ch\<lparr>ch_queue := es\<rparr>) (eb_subs b)\<rparr>)"
    by (simp add: assms(10) receive_def assms(11, 12))
  then have "map_of (ct_runs (fst (watch_receive env now w ?c))) (wt_run w) = Some (?r\<lparr>rn_findings := rn_findings ?r @ [fd_id f]\<rparr>)"
    using assms(6) by (simp add: watch_receive_def assms(9) watch_event_def Let_def stop)
  then show ?thesis using once by (simp add: get count_list_append)
qed

section \<open>The bus\<close>

text \<open>What a subscriber sees of a sequence of publications (\<open>Some\<close>) and receptions (\<open>None\<close>).\<close>

fun serve :: "int \<Rightarrow> event option list \<Rightarrow> event_bus \<Rightarrow> event list \<times> event_bus" where
  "serve i [] b = ([], b)"
| "serve i (Some e # ops) b = serve i ops (Publish e b)"
| "serve i (None # ops) b = (case receive i b of None \<Rightarrow> serve i ops b
     | Some (e, b') \<Rightarrow> (case serve i ops b' of (es, b'') \<Rightarrow> (e # es, b'')))"

definition published :: "event option list \<Rightarrow> event list" where
  "published ops = concat (map (case_option [] (\<lambda>e. [e])) ops)"

lemma published_simps [simp]:
  "published [] = []" "published (Some e # ops) = e # published ops" "published (None # ops) = published ops"
  by (simp_all add: published_def)

definition queue_of :: "int \<Rightarrow> event_bus \<Rightarrow> event list" where
  "queue_of i b = (case map_of (eb_subs b) i of None \<Rightarrow> [] | Some ch \<Rightarrow> ch_queue ch)"

definition cap_of :: "int \<Rightarrow> event_bus \<Rightarrow> nat" where
  "cap_of i b = (case map_of (eb_subs b) i of None \<Rightarrow> 0 | Some ch \<Rightarrow> ch_cap ch)"

lemma map_of_subs: "map_of (map (\<lambda>(j, ch). (j, g ch)) xs) i = map_option g (map_of xs i)"
  by (induction xs) auto

lemma queue_publish:
  "queue_of i (Publish e b) = queue_of i b @ (if length (queue_of i b) < cap_of i b then [e] else [])" "cap_of i (Publish e b) = cap_of i b"
  by (auto simp: queue_of_def cap_of_def Publish_def send_def map_of_subs split: option.split)

lemma receive_queue:
  "receive i b = (case queue_of i b of [] \<Rightarrow> None | e # es \<Rightarrow> Some (e, snd (the (receive i b))))"
  "receive i b = Some (e, b') \<Longrightarrow> queue_of i b = e # queue_of i b' \<and> cap_of i b' = cap_of i b"
  by (auto simp: queue_of_def cap_of_def receive_def update_conv' split: option.splits list.splits)

lemma serve_spec:
  assumes "serve i ops b = (got, b')"
  shows "subseq (got @ queue_of i b') (queue_of i b @ published ops)
    \<and> (length (queue_of i b @ published ops) \<le> cap_of i b \<longrightarrow> got @ queue_of i b' = queue_of i b @ published ops)
    \<and> (length (queue_of i b) \<le> cap_of i b \<longrightarrow> length (queue_of i b') \<le> cap_of i b)"
  using assms
proof (induction i ops b arbitrary: got rule: serve.induct)
  case (2 i e ops b)
  have ih: "subseq (got @ queue_of i b') (queue_of i (Publish e b) @ published ops)"
    "length (queue_of i (Publish e b) @ published ops) \<le> cap_of i b \<longrightarrow> got @ queue_of i b' = queue_of i (Publish e b) @ published ops"
    "length (queue_of i (Publish e b)) \<le> cap_of i b \<longrightarrow> length (queue_of i b') \<le> cap_of i b"
    using 2 by (simp_all add: queue_publish(2))
  have "subseq (queue_of i (Publish e b) @ published ops) (queue_of i b @ published (Some e # ops))"
    by (auto simp: queue_publish(1) intro: list_emb_append_mono)
  with ih(1) have "subseq (got @ queue_of i b') (queue_of i b @ published (Some e # ops))" by (rule subseq_order.order_trans)
  then show ?case using ih(2, 3) by (auto simp: queue_publish(1) split: if_splits)
next
  case (3 i ops b)
  show ?case
  proof (cases "receive i b")
    case None
    then show ?thesis using 3 by simp
  next
    case (Some eb)
    obtain e b1 where eb: "eb = (e, b1)" by fastforce
    obtain es where es: "serve i ops b1 = (es, b')" "got = e # es" using 3(3) Some by (auto simp: eb split: prod.splits)
    have "queue_of i b = e # queue_of i b1" "cap_of i b1 = cap_of i b" using receive_queue(2) [OF Some [unfolded eb]] by simp_all
    then show ?thesis using 3(2) [OF Some eb [symmetric] es(1)] by (auto simp: es(2))
  qed
qed simp

text \<open>A subscriber receives events in the order of their publication, each at most once, and never
  has more than its capacity waiting; as long as no more than its capacity was published since it
  subscribed, it has received or is about to receive all of them.\<close>

theorem subscriber_sees_in_order:
  assumes "serve i ops (snd (Subscribe cap b)) = (got, b')" and "fst (Subscribe cap b) = i"
  shows "subseq (got @ queue_of i b') (published ops) \<and> length (queue_of i b') \<le> cap
    \<and> (length (published ops) \<le> cap \<longrightarrow> got @ queue_of i b' = published ops)"
proof -
  have "queue_of i (snd (Subscribe cap b)) = []" "cap_of i (snd (Subscribe cap b)) = cap"
    using assms(2) by (auto simp: Subscribe_def queue_of_def cap_of_def update_conv')
  then show ?thesis using serve_spec [OF assms(1)] by simp
qed

section \<open>A sample session\<close>

definition long_run_id :: "control \<Rightarrow> string" where
  "long_run_id c = replicate (Suc (sum_list (map (length o fst) (ct_runs c)))) (CHR ''r'')"

definition ctl_env :: control_env where
  "ctl_env = \<lparr>ce_new_run = long_run_id, ce_new_repro = (\<lambda>_. ''p''), ce_marshal = (\<lambda>_. Inr ''yaml''), ce_mkdir = None,
     ce_write = (\<lambda>_ _. None), ce_duration = (\<lambda>_. Inr 10), ce_repro_dir = ''d''\<rparr>"

lemma ctl_env_new: "new_ids ctl_env"
proof -
  have "k \<noteq> replicate (Suc (sum_list (map (length o fst) xs))) (CHR ''r'')" if "(k, v) \<in> set xs" for k and v :: run and xs
  proof -
    have "length k \<le> sum_list (map (length o fst) xs)"
      using that by (intro member_le_sum_list) (force, simp)
    then show ?thesis by auto
  qed
  then have "map_of xs (replicate (Suc (sum_list (map (length o fst) xs))) (CHR ''r'')) = None" for xs :: "(string \<times> run) list"
    by (force simp: map_of_eq_None_iff)
  then show ?thesis by (simp add: new_ids_def ctl_env_def long_run_id_def)
qed

definition smoke_scenario :: scenario where
  "smoke_scenario = \<lparr>sn_api = ''confluence/v1'', sn_kind = ''Scenario'', sn_name = ''smoke'',
     sn_rippled = \<lparr>ng_count = 2, ng_image = [], ng_entrypoint = None, ng_config = None, ng_nodes = None\<rparr>,
     sn_goxrpl = \<lparr>ng_count = 0, ng_image = [], ng_entrypoint = None, ng_config = None, ng_nodes = None\<rparr>,
     sn_network = None, sn_workload = \<lparr>wl_kind = ''none'', wl_rate = 0, wl_accounts = 0, wl_rotate = 0, wl_mutation = 0, wl_workers = 0, wl_reproducer = None\<rparr>,
     sn_schedule = [], sn_observed = False, sn_webhook = [], sn_services = None, sn_duration = ''10s'', sn_stop_on = [''first_crash''], sn_oracles = []\<rparr>"

definition crash :: finding where
  "crash = \<lparr>fd_id = ''f1'', fd_run = ''r'', fd_kind = KindNodeCrash, fd_severity = SeverityError, fd_opened = 3, fd_summary = [], fd_detail = None,
     fd_evidence = None, fd_repro = None, fd_suspects = []\<rparr>"

text \<open>A run is started and watched; a node crashes; the watcher takes the event and ends the run.\<close>

definition session_start :: control where
  "session_start = snd (startRun ctl_env 0 ''application/json'' (Inr smoke_scenario) (new_control (Some NewStore) True False))"

definition session_watched :: control where
  "session_watched = watch_subscribe (hd (ct_watchers session_start)) session_start"

definition session_crashed :: "control \<times> event list" where
  "session_crashed = announce_finding crash (add_finding crash session_watched)"

definition session_over :: "control \<times> event list" where
  "session_over = watch_receive ctl_env 5 (hd (ct_watchers session_watched)) (fst session_crashed)"

lemma smoke_valid: "Validate (\<lambda>_. Inr 10) (Some smoke_scenario) = []"
  by code_simp

lemmas session_eval = session_start_def session_watched_def session_crashed_def startRun_def smoke_valid ctl_env_def Let_def
  new_control_def long_run_id_def set_run_def NewEventBus_def watch_subscribe_def Subscribe_def announce_finding_def add_finding_def
  publish_def Publish_def send_def

lemma session_start_eval:
  "ct_watchers session_start = [\<lparr>wt_run = ''r'', wt_scenario = smoke_scenario, wt_sub = None\<rparr>]"
  "ct_watchers session_watched = [\<lparr>wt_run = ''r'', wt_scenario = smoke_scenario, wt_sub = Some 0\<rparr>]"
  by (simp_all add: session_eval has_prefix_def)

lemma session_reach:
  "control_reach ctl_env (new_control (Some NewStore) True False) (snd session_crashed @ snd session_over) (fst session_over)"
proof -
  let ?c = "new_control (Some NewStore) True False"
  have "control_reach ctl_env ?c ([] @ []) session_start"
    by (rule control_reach.step [OF control_reach.init control_step.start]) (simp add: session_start_def prod_eq_iff)
  then have "control_reach ctl_env ?c ([] @ []) session_watched"
    unfolding session_watched_def
    by (intro control_reach.step [OF _ control_step.subscribe]) (simp_all add: session_start_eval)
  then have "control_reach ctl_env ?c ([] @ []) (add_finding crash session_watched)"
    by (intro control_reach.step [OF _ control_step.add]) simp
  then have "control_reach ctl_env ?c ([] @ snd session_crashed) (fst session_crashed)"
    by (intro control_reach.step [OF _ control_step.announce]) (simp_all add: session_crashed_def)
  then have "control_reach ctl_env ?c (([] @ snd session_crashed) @ snd session_over) (fst session_over)"
    by (rule control_reach.step [OF _ control_step.receive [of "hd (ct_watchers session_watched)" _ ctl_env 5]])
      (simp_all add: session_over_def session_start_eval(2), simp add: session_eval has_prefix_def)
  then show ?thesis by simp
qed

lemma smoke_stop: "sn_stop_on smoke_scenario = [''first_crash'']" "sn_duration smoke_scenario = ''10s''" "sn_name smoke_scenario = ''smoke''"
  by (simp_all add: smoke_scenario_def)

lemmas over_eval = session_eval session_over_def watch_receive_def receive_def watch_event_def crash_def handleStopOnTrigger_def closeRun_def
  syncFindingsForRun_def matchesStopOn_def stopOnMatches_def leave_def Unsubscribe_def smoke_stop session_start_eval

definition crashed_run :: run where
  "crashed_run = \<lparr>rn_id = ''r'', rn_scenario = ''smoke'', rn_status = RunStatusCompletedStopOn, rn_started = 0, rn_ended = Some 5, rn_budget_ends = 10,
     rn_stop_on = [''first_crash''], rn_findings = [''f1''], rn_repros = [], rn_trigger = ''f1''\<rparr>"

lemma crash_stored: "store_list (store_add crash NewStore) \<lparr>lo_since = [], lo_kind = [], lo_limit = 1000\<rparr> = Some [crash]"
  by code_simp

lemma session_over_eval: "map_of (ct_runs (fst session_over)) ''r'' = Some crashed_run" "ct_watchers (fst session_over) = []"
  using crash_stored
  by (simp_all add: over_eval has_prefix_def crashed_run_def sync_ids_def)

theorem run_completes_once_witness:
  "completions ''r'' (snd session_crashed @ snd session_over) = 1 \<and> ended_for (snd session_crashed @ snd session_over) crashed_run 5"
  using run_completes_once [OF ctl_env_new session_reach session_over_eval(1)]
  by (simp add: watched_def session_over_eval(2)) (simp add: crashed_run_def)


lemma one_stored: "store_ok (store_add f NewStore)" "st_findings (store_add f NewStore) = [f]"
proof -
  have "\<And>f. fd_id f \<notin> ids_of NewStore" by (simp add: ids_of_def NewStore_def)
  then show "store_ok (store_add f NewStore)" by (rule store_ok_add [OF store_ok_New])
  show "st_findings (store_add f NewStore) = [f]" by (simp add: store_add_def evict_oldest_def NewStore_def maxCapacity_def Let_def)
qed

definition live_run :: run where
  "live_run = \<lparr>rn_id = ''r'', rn_scenario = ''smoke'', rn_status = RunStatusRunning, rn_started = 0, rn_ended = None, rn_budget_ends = 10,
     rn_stop_on = [''first_crash''], rn_findings = [], rn_repros = [], rn_trigger = []\<rparr>"

theorem closed_run_lists_findings_witness:
  "\<exists>r'. map_of (ct_runs (fst (closeRun 9 live_run RunStatusCompletedBudget [] (new_control (Some (store_add crash NewStore)) True False)))) ''r'' = Some r'
     \<and> ''f1'' \<in> set (rn_findings r')"
proof -
  let ?c = "new_control (Some (store_add crash NewStore)) True False"
  obtain c' evs where close: "closeRun 9 live_run RunStatusCompletedBudget [] ?c = (c', evs)" by fastforce
  have "ct_store ?c = Some (store_add crash NewStore)" by (simp add: new_control_def)
  from closed_run_lists_findings [OF close this one_stored(1)] have "\<exists>r'. map_of (ct_runs c') ''r'' = Some r' \<and> ''f1'' \<in> set (rn_findings r')"
    by (force simp: one_stored(2) live_run_def crash_def)
  then show ?thesis by (simp add: close)
qed

theorem subscriber_sees_in_order_witness:
  "\<exists>got b'. serve 0 [Some \<lparr>vt_type = ''a'', vt_payload = PFinding crash, vt_ts = 1\<rparr>, None] (snd (Subscribe 64 NewEventBus)) = (got, b')
     \<and> got @ queue_of 0 b' = [\<lparr>vt_type = ''a'', vt_payload = PFinding crash, vt_ts = 1\<rparr>]"
proof -
  let ?e = "\<lparr>vt_type = ''a'', vt_payload = PFinding crash, vt_ts = 1\<rparr>"
  obtain got b' where s: "serve 0 [Some ?e, None] (snd (Subscribe 64 NewEventBus)) = (got, b')" by fastforce
  from subscriber_sees_in_order [OF s] have "got @ queue_of 0 b' = [?e]" by (simp add: Subscribe_def NewEventBus_def)
  with s show ?thesis by blast
qed

text \<open>The run is read after the finding was stored and before its event is delivered.\<close>

definition noted :: finding where
  "noted = crash\<lparr>fd_id := ''f2'', fd_kind := KindStateDivergence\<rparr>"

definition session_noted :: control where
  "session_noted = fst (announce_finding noted (add_finding noted session_watched))"

lemma session_noted_eval:
  "ct_store session_noted = Some (store_add noted NewStore)" "map_of (ct_runs session_noted) ''r'' = Some live_run"
  "ct_bus session_noted = Some \<lparr>eb_subs = [(0, \<lparr>ch_cap = 64, ch_queue = [\<lparr>vt_type = ''finding'', vt_payload = PFinding noted, vt_ts = 3\<rparr>]\<rparr>)], eb_next = 1\<rparr>"
  by (simp_all add: session_noted_def noted_def crash_def live_run_def session_eval smoke_stop has_prefix_def)

theorem finding_listed_twice_witness:
  "\<exists>r'. map_of (ct_runs (fst (watch_receive ctl_env 5 (hd (ct_watchers session_watched)) (snd (runByID ''r'' session_noted))))) ''r'' = Some r'
    \<and> count_list (rn_findings r') ''f2'' = 2"
  using finding_listed_twice [OF session_noted_eval(1) one_stored(1), of noted "hd (ct_watchers session_watched)" live_run 0
      "\<lparr>eb_subs = [(0, \<lparr>ch_cap = 64, ch_queue = [\<lparr>vt_type = ''finding'', vt_payload = PFinding noted, vt_ts = 3\<rparr>]\<rparr>)], eb_next = 1\<rparr>"
      "\<lparr>ch_cap = 64, ch_queue = [\<lparr>vt_type = ''finding'', vt_payload = PFinding noted, vt_ts = 3\<rparr>]\<rparr>" 3 "[]" ctl_env 5]
  by (simp add: one_stored(2) session_noted_eval session_start_eval live_run_def noted_def crash_def matchesStopOn_def stopOnMatches_def
      KindStateDivergence_def KindNodeCrash_def)

end
