(* ===== verification/Capture.thy ===== *)
theory Capture
  imports Oracle
begin

text \<open>
  The capture of a divergence (\<open>sidecar/internal/oracle/capture.go\<close>): the transactions of the divergent
  ledger, the states of their accounts on every node, and the fixture written for the conformance runner of
  go-xrpl. The transport of each node is a parameter, as in \<^theory_text>\<open>Oracle\<close>; the JSON text of a capture is
  left to the encoder.
\<close>

section \<open>The transactions of a ledger\<close>

record captured_tx =
  ct_hash :: string
  ct_json :: fields
  ct_meta :: "fields option"

definition hasTx :: "captured_tx list \<Rightarrow> string \<Rightarrow> bool" where
  "hasTx txs hash = list_ex (\<lambda>t. ct_hash t = hash) txs"

text \<open>A raw transaction that is not an object is passed over; one whose hash was taken already is not
  taken again. A transaction without a hash has the empty one.\<close>

definition capture_tx :: "go_value \<Rightarrow> captured_tx list \<Rightarrow> captured_tx list" where
  "capture_tx raw txs = (case dec_top (Some raw) of
      Inl _ \<Rightarrow> txs
    | Inr m \<Rightarrow> (let hash = (case as_string (map_of m ''hash'') of None \<Rightarrow> [] | Some h \<Rightarrow> h)
        in if hasTx txs hash then txs
           else txs @ [\<lparr>ct_hash = hash, ct_json = m, ct_meta = as_map (map_of m ''metaData'')\<rparr>]))"

definition ledger_transactions :: "reply \<Rightarrow> go_value list go_result" where
  "ledger_transactions rep = ebind (dec_top (doc rep)) (\<lambda>top. ebind (dec_obj (map_of top ''ledger'')) (\<lambda>m. dec_arr (map_of m ''transactions'')))"

definition ledger_params :: "int \<Rightarrow> fields" where
  "ledger_params seq = [(''ledger_index'', GInt seq), (''transactions'', GBool True), (''expand'', GBool True)]"

fun captureTransactions :: "'s node list \<Rightarrow> int \<Rightarrow> captured_tx list \<Rightarrow> 's \<Rightarrow> captured_tx list \<times> 's" where
  "captureTransactions [] seq txs s = (txs, s)"
| "captureTransactions (n # ns) seq txs s =
     (case (snd n) ''ledger'' (ledger_params seq) s of
        (Inl _, s') \<Rightarrow> captureTransactions ns seq txs s'
      | (Inr rep, s') \<Rightarrow> (case ledger_transactions rep of
            Inl _ \<Rightarrow> captureTransactions ns seq txs s'
          | Inr raws \<Rightarrow> (let txs' = fold capture_tx raws txs
              in if txs' \<noteq> [] then (txs', s') else captureTransactions ns seq txs' s')))"

section \<open>Account states\<close>

definition add_account :: "fields \<Rightarrow> string \<Rightarrow> string list \<Rightarrow> string list" where
  "add_account m field accounts = (case as_string (map_of m field) of
      None \<Rightarrow> accounts
    | Some a \<Rightarrow> if a \<in> set accounts then accounts else accounts @ [a])"

definition extractAccounts :: "captured_tx list \<Rightarrow> string list" where
  "extractAccounts txs = fold (\<lambda>t. fold (add_account (ct_json t)) [''Account'', ''Destination'', ''Owner'']) txs []"

record node_state =
  ns_node :: string
  ns_account :: string
  ns_data :: fields
  ns_error :: string

record capture =
  cx_detected :: int
  cx_last_good :: int
  cx_comparison :: "comparison option"
  cx_txs :: "captured_tx list"
  cx_states :: "(string \<times> node_state list) list"

fun account_states :: "'s node list \<Rightarrow> string \<Rightarrow> 's \<Rightarrow> node_state list \<times> 's" where
  "account_states [] account s = ([], s)"
| "account_states (n # ns) account s =
     (case AccountInfo (snd n) account s of (r, s1) \<Rightarrow> (case account_states ns account s1 of (rest, s2) \<Rightarrow>
        ((case r of
            Inl e \<Rightarrow> \<lparr>ns_node = fst n, ns_account = account, ns_data = [], ns_error = e\<rparr>
          | Inr info \<Rightarrow> \<lparr>ns_node = fst n, ns_account = account,
              ns_data = [(''Balance'', GStr (ai_balance info)), (''Sequence'', GInt (ai_sequence info))], ns_error = []\<rparr>) # rest, s2)))"

fun all_states :: "'s node list \<Rightarrow> string list \<Rightarrow> 's \<Rightarrow> (string \<times> node_state list) list \<times> 's" where
  "all_states nodes [] s = ([], s)"
| "all_states nodes (a # accounts) s = (case account_states nodes a s of (sts, s1) \<Rightarrow>
     (case all_states nodes accounts s1 of (rest, s2) \<Rightarrow> ((if sts = [] then rest else (a, sts) # rest), s2)))"

definition CaptureDivergence :: "'s node list \<Rightarrow> int \<Rightarrow> int \<Rightarrow> comparison option \<Rightarrow> 's \<Rightarrow> capture \<times> 's" where
  "CaptureDivergence nodes lastGood bad cmp s =
     (case captureTransactions nodes bad [] s of (txs, s1) \<Rightarrow> (case all_states nodes (extractAccounts txs) s1 of (sts, s2) \<Rightarrow>
        (\<lparr>cx_detected = bad, cx_last_good = lastGood, cx_comparison = cmp, cx_txs = txs, cx_states = sts\<rparr>, s2)))"

section \<open>The fixture\<close>

definition fund_fixture :: "string \<Rightarrow> go_value" where
  "fund_fixture a = GMap [(''type'', GStr ''fund''), (''account'', GStr a), (''amount'', GStr ''10000000000'')]"

definition close_fixture :: go_value where
  "close_fixture = GMap [(''type'', GStr ''close'')]"

definition tx_fixture :: "captured_tx \<Rightarrow> go_value" where
  "tx_fixture t = GMap ([(''type'', GStr ''tx''), (''tx_json'', GMap (ct_json t))]
     @ (case Option.bind (ct_meta t) (\<lambda>m. as_string (map_of m ''TransactionResult'')) of None \<Rightarrow> [] | Some ter \<Rightarrow> [(''expect_ter'', GStr ter)]))"

definition fixture_steps :: "captured_tx list \<Rightarrow> go_value list" where
  "fixture_steps txs = map fund_fixture (extractAccounts txs) @ [close_fixture] @ map tx_fixture txs @ [close_fixture]"

definition ExportFixture :: "capture \<Rightarrow> fields" where
  "ExportFixture c = [(''rippled_version'', GStr ''consensus-divergence''), (''suite'', GStr ''xrpl-confluence.consensus''),
     (''testcase'', GStr (''divergence_at_seq_'' @ int_dec (cx_detected c))),
     (''env'', GMap [(''base_fee'', GInt 10), (''reserve_base'', GInt 200000000), (''reserve_increment'', GInt 50000000)]),
     (''steps'', GArr (fixture_steps (cx_txs c)))]"

section \<open>Facts\<close>

lemma hasTx_iff: "hasTx txs h \<longleftrightarrow> h \<in> ct_hash ` set txs"
  by (auto simp: hasTx_def list_ex_iff)

lemma capture_tx_distinct: "distinct (map ct_hash txs) \<Longrightarrow> distinct (map ct_hash (capture_tx raw txs))"
  by (auto simp: capture_tx_def Let_def hasTx_iff split: sum.splits)

lemma capture_fold_distinct: "distinct (map ct_hash txs) \<Longrightarrow> distinct (map ct_hash (fold capture_tx raws txs))"
  by (induction raws arbitrary: txs) (auto intro: capture_tx_distinct)

text \<open>The transactions all come from one reply: that of the first node whose ledger has any.\<close>

lemma capture_from_one:
  assumes "captureTransactions nodes seq [] s = (txs, s')"
  shows "distinct (map ct_hash txs) \<and> (txs = [] \<or> (\<exists>n \<in> set nodes. \<exists>s0 rep raws. fst (snd n ''ledger'' (ledger_params seq) s0) = Inr rep
     \<and> ledger_transactions rep = Inr raws \<and> txs = fold capture_tx raws []))"
  using assms
proof (induction nodes arbitrary: s)
  case (Cons n ns)
  obtain r s1 where call: "snd n ''ledger'' (ledger_params seq) s = (r, s1)" by fastforce
  show ?case
  proof (cases "\<exists>rep raws. r = Inr rep \<and> ledger_transactions rep = Inr raws \<and> fold capture_tx raws [] \<noteq> []")
    case True
    then obtain rep raws where r: "r = Inr rep" "ledger_transactions rep = Inr raws" "fold capture_tx raws [] \<noteq> []" by blast
    then have "txs = fold capture_tx raws []" using Cons.prems by (simp add: call)
    then show ?thesis using capture_fold_distinct [of "[]" raws] r call by (metis fst_conv list.set_intros(1) list.simps(8) distinct.simps(1))
  next
    case False
    then have "captureTransactions ns seq [] s1 = (txs, s')"
      using Cons.prems by (auto simp: call Let_def split: sum.splits if_splits)
    from Cons.IH [OF this] show ?thesis by auto
  qed
qed simp

lemma add_account_set: "set (add_account m f as) = set as \<union> {a. as_string (map_of m f) = Some a}"
  by (auto simp: add_account_def split: option.splits)

lemma add_account_distinct: "distinct as \<Longrightarrow> distinct (add_account m f as)"
  by (auto simp: add_account_def split: option.splits)

text \<open>The accounts named by a transaction.\<close>

definition names_account :: "captured_tx \<Rightarrow> string \<Rightarrow> bool" where
  "names_account t a = list_ex (\<lambda>f. as_string (map_of (ct_json t) f) = Some a) [''Account'', ''Destination'', ''Owner'']"

definition add_names :: "captured_tx \<Rightarrow> string list \<Rightarrow> string list" where
  "add_names t = fold (add_account (ct_json t)) [''Account'', ''Destination'', ''Owner'']"

lemma add_names_spec:
  "set (add_names t as) = set as \<union> {a. names_account t a}" "distinct as \<Longrightarrow> distinct (add_names t as)"
  by (auto simp: add_names_def add_account_set names_account_def intro!: add_account_distinct)

lemma extract_fold:
  "set (fold add_names txs as) = set as \<union> {a. \<exists>t \<in> set txs. names_account t a}"
  "distinct as \<Longrightarrow> distinct (fold add_names txs as)"
  by (induction txs arbitrary: as) (auto simp: add_names_spec)

lemma extractAccounts_spec: "set (extractAccounts txs) = {a. \<exists>t \<in> set txs. names_account t a}" "distinct (extractAccounts txs)"
  using extract_fold(1) [of txs "[]"] extract_fold(2) [of "[]" txs]
  by (simp_all add: extractAccounts_def add_names_def [abs_def])

lemma all_states_keys: "fst (all_states nodes as s) = xs \<Longrightarrow> nodes \<noteq> [] \<Longrightarrow> map fst xs = as \<and> (\<forall>p \<in> set xs. map ns_node (snd p) = map fst nodes)"
proof (induction as arbitrary: s xs)
  case (Cons a as)
  have names: "map ns_node (fst (account_states ns a s)) = map fst ns" for ns s
    proof (induction ns arbitrary: s)
    case (Cons n ns)
    obtain r s1 where "AccountInfo (snd n) a s = (r, s1)" by fastforce
    then show ?case using Cons [of s1] by (cases r) (simp_all add: case_prod_unfold)
  qed simp
  obtain sts s1 where sts: "account_states nodes a s = (sts, s1)" by fastforce
  obtain rest s2 where rest: "all_states nodes as s1 = (rest, s2)" by fastforce
  have "map ns_node sts = map fst nodes" using names [of nodes s] sts by simp
  moreover from this have "sts \<noteq> []" using Cons.prems(2) by auto
  ultimately show ?case using Cons.IH [of s1 rest] Cons.prems by (auto simp: sts rest)
qed simp

text \<open>A capture of a divergence that found transactions: they are those of one node's ledger, no hash twice,
  it has the states of exactly the accounts they name, on every node, and its fixture funds each of these
  accounts once, closes, replays the transactions in their order and closes.\<close>

theorem capture_is_replayable:
  assumes "CaptureDivergence nodes lastGood bad cmp s = (c, s')" and "nodes \<noteq> []"
  shows "distinct (map ct_hash (cx_txs c))
    \<and> set (map fst (cx_states c)) = {a. \<exists>t \<in> set (cx_txs c). names_account t a}
    \<and> (\<forall>p \<in> set (cx_states c). map ns_node (snd p) = map fst nodes)
    \<and> (\<exists>accounts. distinct accounts \<and> set accounts = {a. \<exists>t \<in> set (cx_txs c). names_account t a}
         \<and> map_of (ExportFixture c) ''steps'' =
             Some (GArr (map fund_fixture accounts @ close_fixture # map tx_fixture (cx_txs c) @ [close_fixture])))"
proof -
  obtain txs s1 where txs: "captureTransactions nodes bad [] s = (txs, s1)" by fastforce
  obtain sts s2 where sts: "all_states nodes (extractAccounts txs) s1 = (sts, s2)" by fastforce
  have c: "cx_txs c = txs" "cx_states c = sts" using assms(1) by (auto simp: CaptureDivergence_def txs sts)
  have "map fst sts = extractAccounts txs \<and> (\<forall>p \<in> set sts. map ns_node (snd p) = map fst nodes)"
    by (rule all_states_keys [of nodes _ s1, OF _ assms(2)]) (simp add: sts)
  then show ?thesis
    using capture_from_one [OF txs] extractAccounts_spec [of txs]
    by (auto simp: c ExportFixture_def fixture_steps_def intro!: exI [of _ "extractAccounts txs"])
qed

section \<open>A sample capture\<close>

definition sample_raw :: "string \<Rightarrow> string \<Rightarrow> string \<Rightarrow> go_value" where
  "sample_raw h a b = GMap [(''hash'', GStr h), (''Account'', GStr a), (''Destination'', GStr b)]"

text \<open>A node that fails, and one whose ledger has a payment, told twice, and another one.\<close>

definition sample_nodes :: "unit node list" where
  "sample_nodes = [(''rippled-0'', \<lambda>_ _ s. (Inl ''down'', s)),
     (''goxrpl-0'', \<lambda>m _ s. (Inr \<lparr>doc = Some (GMap (if m = ''ledger'' then
        [(''ledger'', GMap [(''transactions'', GArr [sample_raw ''A1'' ''rA'' ''rB'', sample_raw ''A1'' ''rA'' ''rB'', sample_raw ''B2'' ''rB'' ''rC''])])]
      else [])), verbatim = (\<lambda>_. None)\<rparr>, s))]"

theorem capture_is_replayable_witness:
  "\<exists>c. CaptureDivergence sample_nodes 8 9 None () = (c, ()) \<and> map ct_hash (cx_txs c) = [''A1'', ''B2'']
     \<and> set (map fst (cx_states c)) = {''rA'', ''rB'', ''rC''}"
proof -
  obtain c where c: "CaptureDivergence sample_nodes 8 9 None () = (c, ())"
    by (cases "CaptureDivergence sample_nodes 8 9 None ()") auto
  have txs: "fst (captureTransactions sample_nodes 9 [] ()) = map (\<lambda>(h, a, b). \<lparr>ct_hash = h,
      ct_json = [(''hash'', GStr h), (''Account'', GStr a), (''Destination'', GStr b)], ct_meta = None\<rparr>)
      [(''A1'', ''rA'', ''rB''), (''B2'', ''rB'', ''rC'')]" (is "_ = ?txs")
    by code_simp
  have "cx_txs c = ?txs" using c txs by (auto simp: CaptureDivergence_def split: prod.splits)
  moreover have "sample_nodes \<noteq> []" by (simp add: sample_nodes_def)
  note capture_is_replayable [OF c this]
  ultimately have "set (map fst (cx_states c)) = {a. \<exists>t \<in> set ?txs. names_account t a}" by metis
  then show ?thesis using c \<open>cx_txs c = ?txs\<close> by (auto simp: names_account_def)
qed

end
