(* ===== verification/Handlers.thy ===== *)
theory Handlers
  imports Nodes Runlog
begin

text \<open>
  The read-only handlers of the control service: \<open>findings.go\<close>, \<open>healthz.go\<close>, \<open>scenarios.go\<close>,
  \<open>ledger_fetcher.go\<close> and \<open>logs.go\<close> of \<open>sidecar/internal/server\<close>. \<open>time.ParseDuration\<close>, \<open>regexp.Compile\<close>,
  \<open>time.Parse\<close>, the decoders and the file system are parameters. A streamed body is the list of its records.
\<close>

section \<open>Findings\<close>

definition findingsList :: "string \<Rightarrow> string \<Rightarrow> string \<Rightarrow> store option \<Rightarrow> finding list http option" where
  "findingsList rawLimit after kind st =
     (case (if rawLimit = [] then Inr 100 else atoi rawLimit) of
        Inl _ \<Rightarrow> Some (http_error 400 ''bad_request'' ''limit must be a positive integer'' [])
      | Inr n \<Rightarrow>
          if n < 0 then Some (http_error 400 ''bad_request'' ''limit must be a positive integer'' [])
          else (case st of None \<Rightarrow> Some (Inr [])
            | Some s \<Rightarrow> map_option Inr (store_list s \<lparr>lo_since = after, lo_kind = kind, lo_limit = n\<rparr>)))"

definition findingsByID :: "string \<Rightarrow> store option \<Rightarrow> finding http option" where
  "findingsByID i st = (case st of
      None \<Rightarrow> Some (http_error 404 ''finding_not_found'' ''finding not found'' ''id'')
    | Some s \<Rightarrow> map_option (\<lambda>r. case r of None \<Rightarrow> http_error 404 ''finding_not_found'' ''finding not found'' ''id'' | Some f \<Rightarrow> Inr f) (GetByID s i))"

section \<open>Health\<close>

record health =
  hz_uptime :: int
  hz_scenario :: string
  hz_remaining :: "int option"

text \<open>Times in nanoseconds; \<open>int(d.Seconds())\<close> rounds towards zero.\<close>

definition seconds_of :: "int \<Rightarrow> int" where
  "seconds_of d = (if d < 0 then - (- d div 10 ^ 9) else d div 10 ^ 9)"

definition healthz :: "int \<Rightarrow> string \<Rightarrow> int option \<Rightarrow> int \<Rightarrow> health" where
  "healthz started scen deadline now = \<lparr>hz_uptime = seconds_of (now - started), hz_scenario = scen,
     hz_remaining = map_option (\<lambda>t. let rem = seconds_of (t - now) in if rem < 0 then 0 else rem) deadline\<rparr>"

section \<open>Scenarios\<close>

text \<open>\<open>Parse\<close>: what the decoder makes of the first document and of a second \<open>Decode\<close>, \<open>None\<close> being \<open>io.EOF\<close>.\<close>

definition ParseScenario :: "(string \<Rightarrow> scenario go_result \<times> unit go_result option) \<Rightarrow> string \<Rightarrow> scenario go_result" where
  "ParseScenario yaml data = (case yaml data of
      (Inl e, _) \<Rightarrow> Inl (''scenario: parse yaml: '' @ e)
    | (Inr sc, None) \<Rightarrow> Inr sc
    | (Inr sc, Some (Inr _)) \<Rightarrow> Inl ''scenario: parse yaml: multiple documents are not supported''
    | (Inr sc, Some (Inl e)) \<Rightarrow> Inl (''scenario: parse yaml: '' @ e))"

definition LoadScenario :: "(string \<Rightarrow> string go_result) \<Rightarrow> (string \<Rightarrow> scenario go_result \<times> unit go_result option) \<Rightarrow> string \<Rightarrow> scenario go_result" where
  "LoadScenario read yaml path = (case read path of
      Inl e \<Rightarrow> Inl (''scenario: read '' @ path @ '': '' @ e)
    | Inr data \<Rightarrow> ParseScenario yaml data)"

text \<open>The scenario files of the directory that load, each with its name and path.\<close>

definition scenariosList :: "(string \<Rightarrow> scenario go_result) \<Rightarrow> string \<Rightarrow> dir_entry list go_result \<Rightarrow> (string \<times> string) list" where
  "scenariosList load dir items =
     (if dir = [] then []
      else case items of Inl _ \<Rightarrow> []
        | Inr es \<Rightarrow> concat (map (\<lambda>e. if en_dir e \<or> \<not> suffix ''.yaml'' (en_name e) then []
            else (case load (path_join [dir, en_name e]) of Inl _ \<Rightarrow> [] | Inr sc \<Rightarrow> [(sn_name sc, en_name e)])) es))"

definition scenariosValidate :: "(string \<Rightarrow> int go_result) \<Rightarrow> string \<Rightarrow> scenario go_result \<Rightarrow> (bool \<times> api_error list) http" where
  "scenariosValidate duration content_type body =
     (if \<not> has_prefix content_type ''application/json'' then
        http_error 415 ''unsupported_media_type'' ''Content-Type must be application/json'' []
      else case body of
          Inl e \<Rightarrow> http_error 400 ''bad_request'' e []
        | Inr sc \<Rightarrow> (let errs = Validate duration (Some sc) in Inr (errs = [], errs)))"

section \<open>Ledgers for the diff\<close>

definition ledger_snap :: "string \<Rightarrow> ledger_with_txs \<Rightarrow> ledger_snapshot" where
  "ledger_snap n r = \<lparr>ls_node = n, ls_seq = lw_seq r, ls_ledger_hash = lw_ledger_hash r, ls_account_hash = lw_account_hash r,
     ls_tx_hash = lw_tx_hash r,
     ls_txs = map (\<lambda>t. \<lparr>dt_hash = lt_hash t, dt_type = lt_type t, dt_account = lt_account t, dt_meta = lt_meta t\<rparr>) (lw_txs r)\<rparr>"

text \<open>The address of a node: the last configuration of its name.\<close>

definition rpcByNode :: "node_config list \<Rightarrow> (string \<times> string) list" where
  "rpcByNode cfgs = fold (\<lambda>c. AList.update (nk_name c) (nk_rpc c)) cfgs []"

definition FetchLedger :: "(string \<Rightarrow> 's caller) \<Rightarrow> node_config list \<Rightarrow> string \<Rightarrow> int \<Rightarrow> 's \<Rightarrow> ledger_snapshot option go_result \<times> 's" where
  "FetchLedger dial cfgs n seq s = (case map_of (rpcByNode cfgs) n of
      None \<Rightarrow> (Inl (''unknown node '' @ go_quote n), s)
    | Some url \<Rightarrow> (case LedgerWithTxs (dial url) seq s of
        (Inl e, s') \<Rightarrow> (Inl e, s')
      | (Inr r, s') \<Rightarrow> (Inr (Some (ledger_snap n r)), s')))"

section \<open>Logs\<close>

record log_line =
  ll_ts :: string
  ll_level :: string
  ll_node :: string
  ll_message :: string

record log_query =
  lq_node :: string
  lq_since :: string
  lq_grep :: string
  lq_follow :: string
  lq_limit :: string

record log_env =
  lv_duration :: "string \<Rightarrow> int go_result"
  lv_regexp :: "string \<Rightarrow> (string \<Rightarrow> bool) go_result"
  lv_time :: "string \<Rightarrow> int option"
  lv_now :: int
  lv_now_text :: string
  lv_dir :: string
  lv_open :: "string \<Rightarrow> string go_result"
  lv_not_exist :: "string \<Rightarrow> bool"
  lv_scanned :: "string \<Rightarrow> nat"

definition nodeRe :: "string \<Rightarrow> bool" where
  "nodeRe s \<longleftrightarrow> s \<noteq> [] \<and> list_all (\<lambda>c. char_in c 97 122 \<or> is_digit c \<or> c = CHR ''-'') s"

text \<open>A fixed pattern in which \<open>d\<close> stands for a digit, matched at the front; then one or more digits.\<close>

fun shape :: "string \<Rightarrow> string \<Rightarrow> (string \<times> string) option" where
  "shape [] s = Some ([], s)"
| "shape (p # ps) [] = None"
| "shape (p # ps) (c # cs) = (if (if p = CHR ''d'' then is_digit c else c = p)
     then map_option (\<lambda>(m, r). (c # m, r)) (shape ps cs) else None)"

definition re_space :: "char \<Rightarrow> bool" where
  "re_space c \<longleftrightarrow> of_char c \<in> {9 :: nat, 10, 12, 13, 32}"

text \<open>\<open>logTsRe\<close>: the time stamp and the rest of the line after the blanks.\<close>

definition log_ts :: "string \<Rightarrow> (string \<times> string) option" where
  "log_ts s = (case shape ''dddd-dd-ddTdd:dd:dd.'' s of
      None \<Rightarrow> None
    | Some (m, r) \<Rightarrow> (case (takeWhile is_digit r, dropWhile is_digit r) of
        (ds, z # r2) \<Rightarrow> if ds \<noteq> [] \<and> z = CHR ''Z'' \<and> r2 \<noteq> [] \<and> re_space (hd r2)
           then Some (m @ ds @ [z], dropWhile re_space r2) else None
      | _ \<Rightarrow> None))"

text \<open>\<open>logLevelRe\<close>.\<close>

definition is_letter :: "char \<Rightarrow> bool" where
  "is_letter c \<longleftrightarrow> char_in c 97 122 \<or> char_in c 65 90"

definition log_level :: "string \<Rightarrow> (string \<times> string) option" where
  "log_level s = (case s of
      c # r \<Rightarrow> if c \<noteq> CHR ''['' then None
        else (case (takeWhile is_letter r, dropWhile is_letter r) of
            (ls, z # r2) \<Rightarrow> if ls \<noteq> [] \<and> z = CHR '']'' then Some (ls, dropWhile re_space r2) else None
          | _ \<Rightarrow> None)
    | [] \<Rightarrow> None)"

definition tryParseLine :: "log_env \<Rightarrow> string \<Rightarrow> string \<Rightarrow> log_line" where
  "tryParseLine env node raw = (case log_ts raw of
      None \<Rightarrow> \<lparr>ll_ts = lv_now_text env, ll_level = [], ll_node = node, ll_message = raw\<rparr>
    | Some (ts, rest) \<Rightarrow> (case log_level rest of
        None \<Rightarrow> \<lparr>ll_ts = ts, ll_level = [], ll_node = node, ll_message = rest\<rparr>
      | Some (lev, rest2) \<Rightarrow> \<lparr>ll_ts = ts, ll_level = to_lower lev, ll_node = node, ll_message = rest2\<rparr>))"

record log_filter =
  lf_since :: int
  lf_grep :: "(string \<Rightarrow> bool) option"
  lf_follow :: bool
  lf_limit :: int

definition bad_log :: "string \<Rightarrow> string \<Rightarrow> 'a http" where
  "bad_log msg field = http_error 400 ''bad_request'' msg field"

text \<open>The checks of the query, in their order.\<close>

definition log_checks :: "log_env \<Rightarrow> log_query \<Rightarrow> log_filter http" where
  "log_checks env q =
     (if \<not> nodeRe (lq_node q) then bad_log ''node must match ^[a-z0-9-]+$'' ''node''
      else case (if lq_since q = [] then Inr 0 else lv_duration env (lq_since q)) of
        Inl _ \<Rightarrow> bad_log ''since must be a Go duration (e.g. 30s, 5m)'' ''since''
      | Inr dur \<Rightarrow> (case (if lq_grep q = [] then Inr None else map_sum id Some (lv_regexp env (lq_grep q))) of
          Inl _ \<Rightarrow> bad_log ''grep is not a valid regex'' ''grep''
        | Inr grep \<Rightarrow> (case (if lq_limit q = [] then Inr 1000 else atoi (lq_limit q)) of
            Inl _ \<Rightarrow> bad_log ''limit must be a positive integer'' ''limit''
          | Inr n \<Rightarrow> if n < 0 then bad_log ''limit must be a positive integer'' ''limit''
              else Inr \<lparr>lf_since = dur, lf_grep = grep, lf_follow = (lq_follow q = ''true'' \<or> lq_follow q = ''1''),
                lf_limit = (if 10000 < n then 10000 else n)\<rparr>)))"

definition grep_keeps :: "log_filter \<Rightarrow> log_line \<Rightarrow> bool" where
  "grep_keeps f ll = (case lf_grep f of None \<Rightarrow> True | Some re \<Rightarrow> re (ll_message ll))"

definition log_keeps :: "log_env \<Rightarrow> log_filter \<Rightarrow> log_line \<Rightarrow> bool" where
  "log_keeps env f ll = ((case lv_time env (ll_ts ll) of
      None \<Rightarrow> True
    | Some t \<Rightarrow> \<not> (0 < lf_since f \<and> t < lv_now env - lf_since f)) \<and> grep_keeps f ll)"

definition maxToken :: nat where
  "maxToken = 65536"

text \<open>The first pass over the lines: what it sends, and whether it returned at the limit.\<close>

fun log_pass :: "log_env \<Rightarrow> log_filter \<Rightarrow> string \<Rightarrow> int \<Rightarrow> string list \<Rightarrow> log_line list \<times> bool" where
  "log_pass env f node sent [] = ([], False)"
| "log_pass env f node sent (l # ls) =
     (if maxToken \<le> length l then ([], False)
      else (let ll = tryParseLine env node (drop_cr l) in
        if \<not> log_keeps env f ll then log_pass env f node sent ls
        else if \<not> lf_follow f \<and> lf_limit f \<le> sent + 1 then ([ll], True)
        else (case log_pass env f node (sent + 1) ls of (out, ret) \<Rightarrow> (ll # out, ret))))"

text \<open>A tick of the follow mode: what it sends and the new offset.\<close>

fun follow_lines :: "log_env \<Rightarrow> log_filter \<Rightarrow> string \<Rightarrow> nat \<Rightarrow> string list \<Rightarrow> log_line list \<times> nat" where
  "follow_lines env f node offset [] = ([], offset)"
| "follow_lines env f node offset (l # ls) =
     (if maxToken \<le> length l then ([], offset)
      else (let line = drop_cr l; ll = tryParseLine env node line;
                (rest, off) = follow_lines env f node (offset + length line + 1) ls
            in (if grep_keeps f ll then ll # rest else rest, off)))"

definition follow_tick :: "log_env \<Rightarrow> log_filter \<Rightarrow> string \<Rightarrow> string \<Rightarrow> nat \<Rightarrow> log_line list \<times> nat" where
  "follow_tick env f node content offset =
     (if length content \<le> offset then ([], offset) else follow_lines env f node offset (split_nl [] (drop offset content)))"

text \<open>The ticks of a session, each with the content of the file at its time.\<close>

fun follow_ticks :: "log_env \<Rightarrow> log_filter \<Rightarrow> string \<Rightarrow> nat \<Rightarrow> string list \<Rightarrow> log_line list" where
  "follow_ticks env f node offset [] = []"
| "follow_ticks env f node offset (c # cs) =
     (case follow_tick env f node c offset of (out, off) \<Rightarrow> out @ follow_ticks env f node off cs)"

definition log_file :: "log_env \<Rightarrow> string \<Rightarrow> string" where
  "log_file env node = path_join [lv_dir env, node @ ''.log'']"

definition logs :: "log_env \<Rightarrow> log_query \<Rightarrow> string list \<Rightarrow> log_line list http" where
  "logs env q later = (case log_checks env q of
      Inl e \<Rightarrow> Inl e
    | Inr f \<Rightarrow> (let path = log_file env (lq_node q) in case lv_open env path of
        Inl _ \<Rightarrow> if lv_not_exist env path then http_error 404 ''logs_not_found'' ''log file not found'' ''node''
                 else http_error 500 ''bad_request'' ''could not open log file'' []
      | Inr content \<Rightarrow>
          (let lines = split_nl [] content; (out, ret) = log_pass env f (lq_node q) 0 lines;
               offset = (if list_ex (\<lambda>l. maxToken \<le> length l) lines then lv_scanned env content else length content)
           in Inr (if ret \<or> \<not> lf_follow f then out else out @ follow_ticks env f (lq_node q) offset later))))"

end
