(* ===== verification/Handler_Properties.thy ===== *)
theory Handler_Properties
  imports Handlers
begin

text \<open>
  What the log endpoint answers: which file it reads, which lines it sends, and how its follow mode keeps up
  with a growing file.
\<close>

section \<open>The lines of the first pass\<close>

definition short_lines :: "string list \<Rightarrow> bool" where
  "short_lines ls = list_all (\<lambda>l. length l < maxToken) ls"

definition kept_lines :: "log_env \<Rightarrow> log_filter \<Rightarrow> string \<Rightarrow> string list \<Rightarrow> log_line list" where
  "kept_lines env f node ls = filter (log_keeps env f) (map (\<lambda>l. tryParseLine env node (drop_cr l)) ls)"

lemma log_pass_all: "short_lines ls \<Longrightarrow> lf_follow f \<Longrightarrow> log_pass env f node sent ls = (kept_lines env f node ls, False)"
  by (induction ls arbitrary: sent) (auto simp: short_lines_def kept_lines_def Let_def)

lemma log_pass_limit:
  "short_lines ls \<Longrightarrow> \<not> lf_follow f \<Longrightarrow>
     fst (log_pass env f node sent ls) = take (if lf_limit f \<le> sent then 1 else nat (lf_limit f - sent)) (kept_lines env f node ls)"
proof (induction ls arbitrary: sent)
  case (Cons l ls)
  have "nat (lf_limit f - sent) = Suc (nat (lf_limit f - (sent + 1)))" if "sent + 1 < lf_limit f" using that by simp
  moreover have "nat (lf_limit f - sent) = 1" if "lf_limit f \<le> sent + 1" "sent < lf_limit f" using that by simp
  ultimately show ?case using Cons
    by (auto simp: short_lines_def kept_lines_def Let_def case_prod_unfold not_le)
qed (simp add: kept_lines_def)


section \<open>Following\<close>

definition whole_lines :: "string list \<Rightarrow> string" where
  "whole_lines ls = concat (map (\<lambda>l. l @ [newline]) ls)"

definition plain_line :: "string \<Rightarrow> bool" where
  "plain_line l \<longleftrightarrow> newline \<notin> set l \<and> drop_cr l = l \<and> length l < maxToken"

definition followed :: "log_env \<Rightarrow> log_filter \<Rightarrow> string \<Rightarrow> string list \<Rightarrow> log_line list" where
  "followed env f node ls = filter (grep_keeps f) (map (tryParseLine env node) ls)"

lemma whole_lines_append: "whole_lines (xs @ ys) = whole_lines xs @ whole_lines ys"
  by (simp add: whole_lines_def)

lemma split_whole: "list_all plain_line ls \<Longrightarrow> split_nl [] (whole_lines ls) = ls"
  unfolding whole_lines_def by (rule split_nl_lines) (auto simp: list_all_iff plain_line_def)

lemma follow_plain:
  "list_all plain_line ls \<Longrightarrow> follow_lines env f node offset ls = (followed env f node ls, offset + length (whole_lines ls))"
  by (induction ls arbitrary: offset) (auto simp: plain_line_def followed_def whole_lines_def Let_def)

lemma tick_plain:
  assumes "list_all plain_line new"
  shows "follow_tick env f node (old @ whole_lines new) (length old) = (followed env f node new, length (old @ whole_lines new))"
proof (cases "new = []")
  case False
  then have "whole_lines new \<noteq> []" by (cases new) (auto simp: whole_lines_def)
  then show ?thesis using follow_plain [OF assms] split_whole [OF assms] by (simp add: follow_tick_def)
qed (simp add: follow_tick_def whole_lines_def followed_def)

text \<open>The contents of a file that grows by batches of lines.\<close>

fun grown :: "string \<Rightarrow> string list list \<Rightarrow> string list" where
  "grown old [] = []"
| "grown old (b # bs) = (old @ whole_lines b) # grown (old @ whole_lines b) bs"

text \<open>While the file grows by whole plain lines, the follow mode sends each new line that the pattern
  keeps, once and in order, however the growth falls on the ticks.\<close>

theorem follow_delivers_lines:
  assumes "list_all (list_all plain_line) batches"
  shows "follow_ticks env f node (length old) (grown old batches) = followed env f node (concat batches)"
  using assms
proof (induction batches arbitrary: old)
  case (Cons b bs)
  then have b: "list_all plain_line b" by simp
  have "followed env f node (b @ concat bs) = followed env f node b @ followed env f node (concat bs)"
    by (simp add: followed_def)
  then show ?case using tick_plain [OF b, of env f node old] Cons.IH [of "old @ whole_lines b"] Cons.prems by simp
qed (simp add: followed_def)

lemma split_last: "newline \<notin> set l \<Longrightarrow> split_nl acc l = (if acc = [] \<and> l = [] then [] else [rev acc @ l])"
  by (induction l arbitrary: acc) auto

text \<open>A tick that finds the beginning of a line without its end sends it as a line and counts a newline
  that is not there: the first character written after it is never sent.\<close>

theorem follow_drops_character:
  assumes "plain_line part" and "part \<noteq> []" and "plain_line rest" and "rest \<noteq> []" and "c \<noteq> newline" and "lf_grep f = None"
  shows "follow_ticks env f node (length old) [old @ part, old @ part @ c # rest @ [newline]]
    = [tryParseLine env node part, tryParseLine env node rest]"
proof -
  have "split_nl [] part = [part]" using split_last [of part "[]"] assms(1, 2) by (simp add: plain_line_def)
  moreover have "drop (length old + length part + 1) (old @ part @ c # rest @ [newline]) = whole_lines [rest]"
    by (simp add: whole_lines_def)
  moreover have "whole_lines [rest] \<noteq> []" by (simp add: whole_lines_def)
  moreover have "split_nl [] (whole_lines [rest]) = [rest]" by (rule split_whole) (simp add: assms(3))
  ultimately show ?thesis
    using assms(1-4) by (simp add: follow_tick_def plain_line_def Let_def grep_keeps_def assms(6))
qed

section \<open>A sample log\<close>

definition sample_log_env :: log_env where
  "sample_log_env = \<lparr>lv_duration = (\<lambda>_. Inl ''bad''), lv_regexp = (\<lambda>_. Inl ''bad''), lv_time = (\<lambda>_. None), lv_now = 0, lv_now_text = ''now'',
     lv_dir = ''/logs'', lv_open = (\<lambda>p. if p = ''/logs/goxrpl-0.log'' then Inr (''one'' @ [newline] @ ''two'' @ [newline]) else Inl ''absent''),
     lv_not_exist = (\<lambda>_. True), lv_scanned = length\<rparr>"

definition sample_log_query :: log_query where
  "sample_log_query = \<lparr>lq_node = ''goxrpl-0'', lq_since = [], lq_grep = [], lq_follow = [], lq_limit = ''0''\<rparr>"

lemma sample_logs: "logs sample_log_env sample_log_query [] = Inr [\<lparr>ll_ts = ''now'', ll_level = [], ll_node = ''goxrpl-0'', ll_message = ''one''\<rparr>]"
proof -
  have parts: "nodeRe ''goxrpl-0''" "atoi ''0'' = Inr 0" "log_ts ''one'' = None" by code_simp+
  have "log_checks sample_log_env sample_log_query = Inr \<lparr>lf_since = 0, lf_grep = None, lf_follow = False, lf_limit = 0\<rparr>"
    by (simp add: log_checks_def sample_log_query_def parts)
  moreover have "lv_open sample_log_env (log_file sample_log_env ''goxrpl-0'') = Inr (''one'' @ [newline] @ ''two'' @ [newline])"
    by (simp add: sample_log_env_def log_file_def path_join_def)
  moreover have "split_nl [] (''one'' @ [newline] @ ''two'' @ [newline]) = [''one'', ''two'']" by (simp add: newline_def)
  ultimately show ?thesis
    by (simp add: logs_def Let_def sample_log_query_def maxToken_def drop_cr_def tryParseLine_def parts log_keeps_def grep_keeps_def)
      (simp add: sample_log_env_def)
qed

lemma sample_log_short: "lv_open sample_log_env (log_file sample_log_env ''goxrpl-0'') = Inr content \<Longrightarrow> short_lines (split_nl [] content)"
  by (auto simp: sample_log_env_def log_file_def path_join_def newline_def short_lines_def maxToken_def split: if_splits)


definition follow_filter :: log_filter where
  "follow_filter = \<lparr>lf_since = 0, lf_grep = None, lf_follow = True, lf_limit = 1000\<rparr>"

theorem follow_delivers_lines_witness:
  "follow_ticks sample_log_env follow_filter ''goxrpl-0'' 0 [''one'' @ [newline], ''one'' @ [newline] @ ''two'' @ [newline]]
     = map (tryParseLine sample_log_env ''goxrpl-0'') [''one'', ''two'']"
proof -
  have "list_all (list_all plain_line) [[''one''], [''two'']]"
    by (simp add: plain_line_def newline_def drop_cr_def maxToken_def)
  from follow_delivers_lines [OF this, of sample_log_env follow_filter "''goxrpl-0''" "[]"] show ?thesis
    by (simp add: whole_lines_def followed_def follow_filter_def grep_keeps_def)
qed

theorem follow_drops_character_witness:
  "follow_ticks sample_log_env follow_filter ''goxrpl-0'' 0 [''erro'', ''erro'' @ CHR ''r'' # ''s'' @ [newline]]
     = map (tryParseLine sample_log_env ''goxrpl-0'') [''erro'', ''s'']"
  using follow_drops_character [of "''erro''" "''s''" "CHR ''r''" follow_filter sample_log_env "''goxrpl-0''" "[]"]
  by (simp add: plain_line_def newline_def drop_cr_def maxToken_def follow_filter_def)

end
