(* ===== verification/Concurrent_Soak.thy ===== *)
theory Concurrent_Soak
  imports Runners Loop_Properties
begin

text \<open>
  The soak with several submit workers (\<open>runConcurrentSoak\<close> and \<open>maintenanceLoop\<close> in
  \<open>sidecar/internal/fuzz/runners/seqsubmit.go\<close>): a coordinator draws transactions into one channel, workers
  submit them through the sequence manager and put the outcomes into another, and the coordinator, which owns
  all other state, books them. A step is one communication or one call; what the sequence manager answers is
  arbitrary here, and its own steps are in \<^theory_text>\<open>Seq_Manager\<close>.
\<close>

section \<open>The pipeline\<close>

type_synonym submit_outcome = "tx \<times> submit_result go_result"

datatype pipe_worker = Waiting | Submitting tx | Returning submit_outcome | Ended

datatype coordinator = Drawing | Offering tx | Draining | Returned

record 's pipe_state = "'s run_state" +
  pp_todo :: "tx list"
  pp_out :: "submit_outcome list"
  pp_work :: "pipe_worker list"
  pp_coord :: coordinator
  pp_watch :: "(poller \<times> hang_detector) option"

definition concurrent_start :: "nat \<Rightarrow> (poller \<times> hang_detector) option \<Rightarrow> 's run_state \<Rightarrow> 's pipe_state" where
  "concurrent_start workers watch st = run_state.extend st
     \<lparr>pp_todo = [], pp_out = [], pp_work = replicate (max 1 workers) Waiting, pp_coord = Drawing, pp_watch = watch\<rparr>"

text \<open>Both channels hold twice the number of workers.\<close>

definition channel_room :: "'a list \<Rightarrow> 's pipe_state \<Rightarrow> bool" where
  "channel_room xs st \<longleftrightarrow> length xs < 2 * length (pp_work st)"

definition handle_outcome :: "'s soak_env \<Rightarrow> submit_outcome \<Rightarrow> 's pipe_state \<Rightarrow> 's pipe_state" where
  "handle_outcome env oc st = (case oc of (t, r) \<Rightarrow>
     if landed r then
       (let st1 = record_success env t (projr r) (append_log env (success_entry (rs_step st) t (projr r)) (with_stats count_succeeded st))
        in st1\<lparr>rs_step := rs_step st1 + 1\<rparr>)
     else recordFailure env (rs_step st) t r (with_stats count_failed st))"

text \<open>One turn of the maintenance loop.\<close>

definition maintain :: "'s soak_env \<Rightarrow> 's pipe_state \<Rightarrow> 's pipe_state" where
  "maintain env st = (case pp_watch st of None \<Rightarrow> st
     | Some ph \<Rightarrow> (case watch_tick env (so_rt env) ph st of (ph', st') \<Rightarrow> st'\<lparr>pp_watch := Some ph'\<rparr>))"

text \<open>The steps; the label holds the transaction a step puts into the first channel. With \<open>rated\<close> the
  coordinator also books outcomes while it waits for its ticker.\<close>

inductive pipe_step :: "'s soak_env \<Rightarrow> bool \<Rightarrow> 's pipe_state \<Rightarrow> tx list \<Rightarrow> 's pipe_state \<Rightarrow> bool" for env rated where
  pick_failed: "pp_coord st = Drawing \<Longrightarrow> \<not> rn_cancelled env (rs_world st) \<Longrightarrow>
     draw_tx env (rs_world st) (rs_gen st) (rs_tape st) = (Failed e, tp) \<Longrightarrow>
     pipe_step env rated st [] (with_stats count_failed (st\<lparr>rs_tape := tp\<rparr>))"
| pick: "pp_coord st = Drawing \<Longrightarrow> \<not> rn_cancelled env (rs_world st) \<Longrightarrow>
     draw_tx env (rs_world st) (rs_gen st) (rs_tape st) = (Done (t, did), tp) \<Longrightarrow>
     pipe_step env rated st [] (with_stats (count_mutated did) (st\<lparr>rs_tape := tp, pp_coord := Offering t\<rparr>))"
| cancel: "pp_coord st = Drawing \<or> pp_coord st = Offering t \<Longrightarrow> rn_cancelled env (rs_world st) \<Longrightarrow>
     pipe_step env rated st [] (st\<lparr>pp_coord := Draining\<rparr>)"
| offer: "pp_coord st = Offering t \<Longrightarrow> channel_room (pp_todo st) st \<Longrightarrow>
     pipe_step env rated st [t] (st\<lparr>pp_todo := pp_todo st @ [t], pp_coord := Drawing\<rparr>)"
| handle: "pp_out st = oc # rest \<Longrightarrow> rated \<and> pp_coord st = Drawing \<or> pp_coord st = Offering t \<or> pp_coord st = Draining \<Longrightarrow>
     pipe_step env rated st [] (handle_outcome env oc (st\<lparr>pp_out := rest\<rparr>))"
| take: "i < length (pp_work st) \<Longrightarrow> pp_work st ! i = Waiting \<Longrightarrow> pp_todo st = t # rest \<Longrightarrow>
     pipe_step env rated st [] (with_stats count_submitted (st\<lparr>pp_todo := rest, pp_work := (pp_work st)[i := Submitting t]\<rparr>))"
| submit: "i < length (pp_work st) \<Longrightarrow> pp_work st ! i = Submitting t \<Longrightarrow>
     TransactionType t' = TransactionType t \<Longrightarrow> tx_secret t' = tx_secret t \<Longrightarrow>
     pipe_step env rated st [] (st\<lparr>rs_world := s, pp_work := (pp_work st)[i := Returning (t', r)]\<rparr>)"
| return: "i < length (pp_work st) \<Longrightarrow> pp_work st ! i = Returning oc \<Longrightarrow> channel_room (pp_out st) st \<Longrightarrow>
     pipe_step env rated st [] (st\<lparr>pp_out := pp_out st @ [oc], pp_work := (pp_work st)[i := Waiting]\<rparr>)"
| leave: "i < length (pp_work st) \<Longrightarrow> pp_work st ! i = Waiting \<Longrightarrow> pp_coord st = Draining \<Longrightarrow> pp_todo st = [] \<Longrightarrow>
     pipe_step env rated st [] (st\<lparr>pp_work := (pp_work st)[i := Ended]\<rparr>)"
| finish: "pp_coord st = Draining \<Longrightarrow> pp_out st = [] \<Longrightarrow> list_all (\<lambda>w. w = Ended) (pp_work st) \<Longrightarrow>
     pipe_step env rated st [] (st\<lparr>pp_coord := Returned\<rparr>)"

inductive pipe_run :: "'s soak_env \<Rightarrow> bool \<Rightarrow> 's pipe_state \<Rightarrow> tx list \<Rightarrow> 's pipe_state \<Rightarrow> bool" for env rated st0 where
  start: "pipe_run env rated st0 [] st0"
| more: "pipe_run env rated st0 sent st \<Longrightarrow> pipe_step env rated st new st' \<Longrightarrow> pipe_run env rated st0 (sent @ new) st'"
| tend: "pipe_run env rated st0 sent st \<Longrightarrow> pp_coord st \<noteq> Returned \<Longrightarrow> pipe_run env rated st0 sent (maintain env st)"

section \<open>Where the transactions are\<close>

definition tx_mark :: "tx \<Rightarrow> string \<times> string" where
  "tx_mark t = (TransactionType t, tx_secret t)"

definition row_mark :: "run_log_entry \<Rightarrow> string \<times> string" where
  "row_mark e = (le_type e, le_secret e)"

definition held :: "pipe_worker \<Rightarrow> tx list" where
  "held w = (case w of Submitting t \<Rightarrow> [t] | Returning oc \<Rightarrow> [fst oc] | _ \<Rightarrow> [])"

definition in_flight :: "'s pipe_state \<Rightarrow> tx list" where
  "in_flight st = concat (map held (pp_work st)) @ map fst (pp_out st)"

text \<open>A worker ends only when the coordinator has closed the channel and it is empty.\<close>

definition pipe_closed :: "'s pipe_state \<Rightarrow> bool" where
  "pipe_closed st \<longleftrightarrow> (pp_coord st = Returned \<longrightarrow> pp_out st = [] \<and> list_all (\<lambda>w. w = Ended) (pp_work st))
     \<and> (Ended \<in> set (pp_work st) \<longrightarrow> pp_todo st = [] \<and> pp_coord st \<in> {Draining, Returned}) \<and> pp_work st \<noteq> []"

definition pipe_booked :: "'s soak_env \<Rightarrow> (run_log_entry \<Rightarrow> string) \<Rightarrow> run_log_entry list \<Rightarrow> tx list \<Rightarrow> 's pipe_state \<Rightarrow> bool" where
  "pipe_booked env line rows sent st \<longleftrightarrow> map_of (rs_disk st) (rn_log env) = Some (log_text line rows)
     \<and> st_submitted (rs_stats st) = int (length rows + length (in_flight st)) \<and> st_succeeded (rs_stats st) = accepted_rows rows
     \<and> rs_step st = accepted_rows rows \<and> steps_follow 0 rows
     \<and> image_mset tx_mark (mset sent) = image_mset tx_mark (mset (pp_todo st)) + image_mset tx_mark (mset (in_flight st)) + image_mset row_mark (mset rows)"

section \<open>The books of the concurrent soak\<close>

lemma held_simps [simp]: "held Waiting = []" "held Ended = []" "held (Submitting t) = [t]" "held (Returning oc) = [fst oc]"
  by (simp_all add: held_def)

lemma held_update:
  "i < length ws \<Longrightarrow> mset (concat (map held (ws[i := w]))) + mset (held (ws ! i)) = mset (concat (map held ws)) + mset (held w)"
proof (induction ws arbitrary: i)
  case (Cons x ws)
  then show ?case by (cases i) (auto simp: add_ac)
qed simp

lemma handle_books:
  assumes line: "\<forall>e. rn_logline env e = Inr (line e)" and open_log: "\<not> rn_refuses env (rn_log env)"
    and content: "map_of (rs_disk st) (rn_log env) = Some content"
  obtains e where "le_step e = rs_step st" "row_ok e \<longleftrightarrow> landed r" "row_mark e = tx_mark t"
    "map_of (rs_disk (handle_outcome env (t, r) st)) (rn_log env) = Some (content @ line e @ [newline])"
    "st_submitted (rs_stats (handle_outcome env (t, r) st)) = st_submitted (rs_stats st)"
    "st_succeeded (rs_stats (handle_outcome env (t, r) st)) = st_succeeded (rs_stats st) + (if landed r then 1 else 0)"
    "rs_step (handle_outcome env (t, r) st) = rs_step st + (if landed r then 1 else 0)"
    "run_state.more (handle_outcome env (t, r) st) = run_state.more st"
proof -
  have app: "map_of (snd (log_Append (rn_logline env) (rn_refuses env) (rn_log env) e (rs_disk st))) (rn_log env)
      = Some (content @ line e @ [newline])" for e
    using log_content_Append [where marshal = "rn_logline env" and e = e and line = "line e" and path = "rn_log env"] line open_log content
    by (simp add: log_content_def)
  show thesis
  proof (cases "landed r")
    case True
    let ?e = "success_entry (rs_step st) t (projr r)"
    let ?st1 = "append_log env ?e (with_stats count_succeeded st)"
    have q: "quiet env ?st1 (record_success env t (projr r) ?st1)" by (rule record_success_quiet)
    have "row_ok ?e" using True by (auto simp: row_ok_def success_entry_def landed_def split: sum.splits)
    with q True show thesis
      by (intro that [of ?e])
        (auto simp: handle_outcome_def Let_def quiet_defs append_log_def app success_entry_def row_mark_def tx_mark_def)
  next
    case False
    let ?e = "\<lparr>le_step = rs_step st, le_type = TransactionType t, le_fields = tx_fields t, le_secret = tx_secret t,
        le_result = classifyFailure r, le_hash = []\<rparr>"
    have "\<not> row_ok ?e" using failure_not_accepted [OF False] by (simp add: row_ok_def)
    with False show thesis
      by (intro that [of ?e]) (auto simp: handle_outcome_def append_log_def recordFailure_def app row_mark_def tx_mark_def)
  qed
qed

lemma more_pipe:
  "run_state.more st' = run_state.more st \<Longrightarrow> pp_todo st' = pp_todo st \<and> pp_out st' = pp_out st \<and> pp_work st' = pp_work st
     \<and> pp_coord st' = pp_coord st \<and> pp_watch st' = pp_watch st"
  by (cases st; cases st') simp

lemma maintain_quiet:
  assumes "is_log_path (rn_log env)"
  shows "same_books env st (maintain env st) \<and> pp_todo (maintain env st) = pp_todo st \<and> pp_out (maintain env st) = pp_out st
    \<and> pp_work (maintain env st) = pp_work st \<and> pp_coord (maintain env st) = pp_coord st"
proof (cases "pp_watch st")
  case (Some ph)
  obtain ph' st' where t: "watch_tick env (so_rt env) ph st = (ph', st')" by fastforce
  obtain h st1 where v: "fold (hang_visit env (so_rt env)) (rn_nodes env) (snd ph, st) = (h, st1)" by fastforce
  obtain x p st2 where tick: "poller_Tick (lift_rt (so_rt env)) (on_crash env) (fst ph, st1) = (x, p, st2)" by (metis prod_cases3)
  have "quiet env st st1" using fold_hang_quiet [of env "(snd ph, st)" "so_rt env" "rn_nodes env"] v by simp
  moreover have "quiet env st1 st2" by (rule poller_Tick_quiet [OF assms tick])
  ultimately have "quiet env st st2" by (rule quiet_trans)
  then have "quiet env st st'" using t v tick by (simp add: watch_tick_def)
  then show ?thesis using Some t more_pipe [of st' st] by (simp add: maintain_def quiet_defs)
qed (simp add: maintain_def same_books_def)

text \<open>Moving transactions through the pipeline without booking any.\<close>

lemma pipe_moved:
  assumes "pipe_booked env line rows sent st"
    and "map_of (rs_disk st') (rn_log env) = map_of (rs_disk st) (rn_log env)" and "st_succeeded (rs_stats st') = st_succeeded (rs_stats st)"
    and "rs_step st' = rs_step st"
    and "st_submitted (rs_stats st') + int (length (in_flight st)) = st_submitted (rs_stats st) + int (length (in_flight st'))"
    and "image_mset tx_mark (mset (pp_todo st')) + image_mset tx_mark (mset (in_flight st'))
      = image_mset tx_mark (mset (pp_todo st)) + image_mset tx_mark (mset (in_flight st)) + image_mset tx_mark (mset new)"
  shows "pipe_booked env line rows (sent @ new) st'"
  using assms unfolding pipe_booked_def by (simp add: add_ac)

lemma pipe_step_booked:
  assumes line: "\<forall>e. rn_logline env e = Inr (line e)" and open_log: "\<not> rn_refuses env (rn_log env)"
    and booked: "pipe_booked env line rows sent st" and step: "pipe_step env rated st new st'"
  shows "\<exists>rows'. pipe_booked env line rows' (sent @ new) st'"
  using step
proof cases
  case (handle oc rest)
  obtain t r where oc: "oc = (t, r)" by fastforce
  let ?st = "st\<lparr>pp_out := rest\<rparr>"
  have content: "map_of (rs_disk ?st) (rn_log env) = Some (log_text line rows)" using booked by (simp add: pipe_booked_def)
  obtain e where e: "le_step e = rs_step ?st" "row_ok e \<longleftrightarrow> landed r" "row_mark e = tx_mark t"
    "map_of (rs_disk (handle_outcome env (t, r) ?st)) (rn_log env) = Some (log_text line rows @ line e @ [newline])"
    "st_submitted (rs_stats (handle_outcome env (t, r) ?st)) = st_submitted (rs_stats ?st)"
    "st_succeeded (rs_stats (handle_outcome env (t, r) ?st)) = st_succeeded (rs_stats ?st) + (if landed r then 1 else 0)"
    "rs_step (handle_outcome env (t, r) ?st) = rs_step ?st + (if landed r then 1 else 0)"
    "run_state.more (handle_outcome env (t, r) ?st) = run_state.more ?st"
    by (rule handle_books [OF line open_log content])
  have "pipe_booked env line (rows @ [e]) sent st'"
    using booked handle oc e(1-7) more_pipe [OF e(8)]
    by (auto simp: pipe_booked_def log_text_def accepted_rows_def steps_follow_append in_flight_def)
  then show ?thesis using handle by auto
next
  case (take i t rest)
  have m: "mset (in_flight st') = mset (in_flight st) + {#t#}"
    using held_update [OF take(3), of "Submitting t"] take by (simp add: in_flight_def)
  from arg_cong [OF m, of size] have "length (in_flight st') = Suc (length (in_flight st))" by simp
  then have "pipe_booked env line rows (sent @ new) st'"
    by (intro pipe_moved [OF booked]) (use take m in \<open>simp_all add: add_ac\<close>)
  then show ?thesis by blast
next
  case (submit i t t' r s)
  have m: "mset (in_flight st') + {#t#} = mset (in_flight st) + {#t'#}"
    using held_update [OF submit(3), of "Returning (t', r)"] submit by (simp add: in_flight_def)
  from arg_cong [OF m, of size] have l: "length (in_flight st') = length (in_flight st)" by simp
  have "tx_mark t' = tx_mark t" using submit by (simp add: tx_mark_def)
  then have "image_mset tx_mark (mset (in_flight st')) = image_mset tx_mark (mset (in_flight st))"
    using arg_cong [OF m, of "image_mset tx_mark"] by simp
  then have "pipe_booked env line rows (sent @ new) st'"
    by (intro pipe_moved [OF booked]) (use submit l in simp_all)
  then show ?thesis by blast
next
  case (return i oc)
  have m: "mset (in_flight st') = mset (in_flight st)"
    using held_update [OF return(3), of Waiting] return by (simp add: in_flight_def)
  from arg_cong [OF m, of size] have l: "length (in_flight st') = length (in_flight st)" by simp
  have "pipe_booked env line rows (sent @ new) st'"
    by (intro pipe_moved [OF booked]) (use return l m in simp_all)
  then show ?thesis by blast
next
  case (leave i)
  have m: "mset (in_flight st') = mset (in_flight st)"
    using held_update [OF leave(3), of Ended] leave by (simp add: in_flight_def)
  from arg_cong [OF m, of size] have l: "length (in_flight st') = length (in_flight st)" by simp
  have "pipe_booked env line rows (sent @ new) st'"
    by (intro pipe_moved [OF booked]) (use leave l m in simp_all)
  then show ?thesis by blast
next
  case (offer t)
  have "pipe_booked env line rows (sent @ new) st'"
    by (intro pipe_moved [OF booked]) (use offer in \<open>simp_all add: in_flight_def\<close>)
  then show ?thesis by blast
next
  case pick_failed
  have "pipe_booked env line rows (sent @ new) st'"
    by (intro pipe_moved [OF booked]) (use pick_failed in \<open>simp_all add: in_flight_def\<close>)
  then show ?thesis by blast
next
  case pick
  have "pipe_booked env line rows (sent @ new) st'"
    by (intro pipe_moved [OF booked]) (use pick in \<open>simp_all add: in_flight_def\<close>)
  then show ?thesis by blast
next
  case cancel
  have "pipe_booked env line rows (sent @ new) st'"
    by (intro pipe_moved [OF booked]) (use cancel in \<open>simp_all add: in_flight_def\<close>)
  then show ?thesis by blast
next
  case finish
  have "pipe_booked env line rows (sent @ new) st'"
    by (intro pipe_moved [OF booked]) (use finish in \<open>simp_all add: in_flight_def\<close>)
  then show ?thesis by blast
qed

lemma handle_more: "run_state.more (handle_outcome env oc st) = run_state.more st"
proof -
  obtain t r where oc: "oc = (t, r)" by fastforce
  show ?thesis
    using record_success_quiet [of env "append_log env (success_entry (rs_step st) t (projr r)) (with_stats count_succeeded st)" t "projr r"]
    by (auto simp: oc handle_outcome_def Let_def quiet_def append_log_def recordFailure_def)
qed

lemma pipe_step_closed:
  assumes "pipe_step env rated st new st'" and "pipe_closed st"
  shows "pipe_closed st'"
  using assms(1)
proof cases
  case (handle oc rest)
  with assms(2) more_pipe [OF handle_more [of env oc "st\<lparr>pp_out := rest\<rparr>"]] show ?thesis
    by (auto simp: pipe_closed_def)
next
  case (take i t rest)
  then have "Ended \<notin> set (pp_work st)" using assms(2) by (auto simp: pipe_closed_def)
  then have "Ended \<notin> set ((pp_work st)[i := Submitting t])" using set_update_subset_insert [of "pp_work st" i "Submitting t"] by auto
  moreover have "pp_coord st \<noteq> Returned" using assms(2) take by (auto simp: pipe_closed_def list_all_length)
  ultimately show ?thesis using assms(2) take by (auto simp: pipe_closed_def)
next
  case (submit i t t' r s)
  have "Ended \<in> set ((pp_work st)[i := Returning (t', r)]) \<longrightarrow> Ended \<in> set (pp_work st)"
    using set_update_subset_insert [of "pp_work st" i "Returning (t', r)"] by auto
  moreover have "pp_coord st \<noteq> Returned" using assms(2) submit by (auto simp: pipe_closed_def list_all_length)
  ultimately show ?thesis using assms(2) submit by (auto simp: pipe_closed_def)
next
  case (return i oc)
  have "Ended \<in> set ((pp_work st)[i := Waiting]) \<longrightarrow> Ended \<in> set (pp_work st)"
    using set_update_subset_insert [of "pp_work st" i Waiting] by auto
  moreover have "pp_coord st \<noteq> Returned" using assms(2) return by (auto simp: pipe_closed_def list_all_length)
  ultimately show ?thesis using assms(2) return by (auto simp: pipe_closed_def)
next
  case (leave i)
  then show ?thesis using assms(2) by (auto simp: pipe_closed_def)
qed (use assms(2) in \<open>auto simp: pipe_closed_def\<close>)

lemma pipe_run_closed:
  assumes "pipe_run env rated (concurrent_start workers watch st0) sent st" and "is_log_path (rn_log env)"
  shows "pipe_closed st"
  using assms(1)
proof induction
  case start
  show ?case by (auto simp: pipe_closed_def concurrent_start_def run_state.defs)
next
  case (more sent st new st')
  then show ?case using pipe_step_closed by blast
next
  case (tend sent st)
  then show ?case using maintain_quiet [OF assms(2), of st] by (auto simp: pipe_closed_def)
qed

lemma pipe_run_ok:
  assumes "pipe_run env rated (concurrent_start workers watch st0) sent st" and "is_log_path (rn_log env)"
    and "\<forall>e. rn_logline env e = Inr (line e)" and "\<not> rn_refuses env (rn_log env)" and "booked env line [] st0"
  shows "\<exists>rows. pipe_booked env line rows sent st"
  using assms(1)
proof induction
  case start
  have "pipe_booked env line [] [] (concurrent_start workers watch st0)"
    using assms(5) by (simp add: pipe_booked_def booked_def concurrent_start_def run_state.defs in_flight_def concat_replicate_trivial)
  then show ?case by blast
next
  case (more sent st new st')
  then show ?case using pipe_step_booked [OF assms(3, 4)] by blast
next
  case (tend sent st)
  obtain rows where "pipe_booked env line rows sent st" using tend.IH by blast
  then have "pipe_booked env line rows (sent @ []) (maintain env st)"
    by (rule pipe_moved) (use maintain_quiet [OF assms(2), of st] in \<open>auto simp: same_books_def in_flight_def\<close>)
  then show ?case by auto
qed


section \<open>The drain\<close>

fun worker_work :: "pipe_worker \<Rightarrow> nat" where
  "worker_work Waiting = 1"
| "worker_work (Submitting t) = 4"
| "worker_work (Returning oc) = 3"
| "worker_work Ended = 0"

definition drain_work :: "'s pipe_state \<Rightarrow> nat" where
  "drain_work st = 4 * length (pp_todo st) + sum_list (map worker_work (pp_work st)) + length (pp_out st) + (if pp_coord st = Returned then 0 else 1)"

lemma work_update: "i < length ws \<Longrightarrow> sum_list (map worker_work (ws[i := w])) + worker_work (ws ! i) = sum_list (map worker_work ws) + worker_work w"
proof (induction ws arbitrary: i)
  case (Cons x ws)
  then show ?case by (cases i) auto
qed simp

lemma drain_step:
  assumes "pipe_step env rated st new st'" and "pp_coord st = Draining"
  shows "drain_work st' < drain_work st \<and> (pp_coord st' = Draining \<or> pp_coord st' = Returned)"
  using assms(1)
proof cases
  case (handle oc rest)
  then show ?thesis using assms(2) more_pipe [OF handle_more [of env oc "st\<lparr>pp_out := rest\<rparr>"]]
    by (simp add: drain_work_def)
next
  case (take i t rest)
  then show ?thesis using assms(2) work_update [OF take(3), of "Submitting t"] by (simp add: drain_work_def)
next
  case (submit i t t' r s)
  then show ?thesis using assms(2) work_update [OF submit(3), of "Returning (t', r)"] by (simp add: drain_work_def)
next
  case (return i oc)
  then show ?thesis using assms(2) work_update [OF return(3), of Waiting] by (simp add: drain_work_def)
next
  case (leave i)
  then show ?thesis using assms(2) work_update [OF leave(3), of Ended] by (simp add: drain_work_def)
qed (use assms(2) in \<open>auto simp: drain_work_def\<close>)

lemma returned_stays: "pipe_closed st \<Longrightarrow> pp_coord st = Returned \<Longrightarrow> \<not> pipe_step env rated st new st'"
  by (auto elim!: pipe_step.cases simp: pipe_closed_def list_all_length)

lemma drain_goes_on:
  assumes "pp_coord st = Draining"
  shows "\<exists>new st'. pipe_step env rated st new st'"
proof (cases "pp_out st")
  case (Cons oc rest)
  then show ?thesis using pipe_step.handle assms by blast
next
  case Nil
  show ?thesis
  proof (cases "list_all (\<lambda>w. w = Ended) (pp_work st)")
    case True
    then show ?thesis using pipe_step.finish assms Nil by blast
  next
    case False
    then obtain i where i: "i < length (pp_work st)" "pp_work st ! i \<noteq> Ended" by (auto simp: list_all_length)
    show ?thesis
    proof (cases "pp_work st ! i")
      case Waiting
      then show ?thesis using pipe_step.take pipe_step.leave i(1) assms by (cases "pp_todo st") blast+
    next
      case (Submitting t)
      then show ?thesis using pipe_step.submit [OF i(1), of t t] by blast
    next
      case (Returning oc)
      have "channel_room (pp_out st) st" using i(1) by (auto simp: channel_room_def Nil)
      then show ?thesis using pipe_step.return [OF i(1) Returning] by blast
    qed (use i in simp)
  qed
qed

text \<open>C16: Once the context is done and the channel closed, the soak drains and returns: there are at most
  \<^theory_text>\<open>drain_work\<close> steps left, and as long as it has not returned some step is possible, so no order of the
  steps leaves it stuck. (A maintenance turn moves nothing in the pipeline.)\<close>

theorem concurrent_soak_drains:
  assumes "pipe_run env rated (concurrent_start workers watch st0) sent st" and "is_log_path (rn_log env)"
    and "pp_coord st = Draining" and "((\<lambda>a b. \<exists>new. pipe_step env rated a new b) ^^ n) st st'"
  shows "n + drain_work st' \<le> drain_work st \<and> (pp_coord st' = Returned \<or> (\<exists>new st''. pipe_step env rated st' new st''))"
proof -
  have "n + drain_work st' \<le> drain_work st \<and> (pp_coord st' = Draining \<or> pp_coord st' = Returned) \<and> pipe_closed st'"
    using assms(4)
  proof (induction n arbitrary: st')
    case (Suc n)
    then obtain st1 new where one: "((\<lambda>a b. \<exists>new. pipe_step env rated a new b) ^^ n) st st1" "pipe_step env rated st1 new st'" by auto
    from Suc.IH [OF one(1)] have bound: "n + drain_work st1 \<le> drain_work st" and closed: "pipe_closed st1"
      and "pp_coord st1 = Draining \<or> pp_coord st1 = Returned" by auto
    then have "pp_coord st1 = Draining" using returned_stays [OF closed] one(2) by blast
    from drain_step [OF one(2) this] bound pipe_step_closed [OF one(2) closed] show ?case by auto
  qed (use assms(3) pipe_run_closed [OF assms(1, 2)] in simp)
  then show ?thesis using drain_goes_on by blast
qed

section \<open>A sample soak with one worker\<close>

definition one_reply :: "reply list run_state" where
  "one_reply = run_state.truncate (sample_start [short_reply ''tesSUCCESS''] ())"

lemma one_reply_parts:
  "rs_world one_reply = [short_reply ''tesSUCCESS'']" "rs_tape one_reply = [0]" "booked sample_soak (\<lambda>_. ''{}'') [] one_reply"
  by (simp_all add: one_reply_def run_state.defs sample_start_def booked_def sample_soak_def log_text_def accepted_rows_def)

abbreviation one_start :: "reply list pipe_state" where
  "one_start \<equiv> concurrent_start 1 None one_reply"

definition after_offer :: "reply list pipe_state" where
  "after_offer = one_start\<lparr>rs_tape := [], pp_todo := [sample_tx]\<rparr>"

definition after_take :: "reply list pipe_state" where
  "after_take = with_stats count_submitted (after_offer\<lparr>pp_todo := [], pp_work := [Submitting sample_tx]\<rparr>)"

definition after_return :: "reply list pipe_state" where
  "after_return = after_take\<lparr>rs_world := [], pp_out := [(sample_tx, Inr (short_result ''tesSUCCESS''))], pp_work := [Waiting]\<rparr>"

definition before_drain :: "reply list pipe_state" where
  "before_drain = after_return\<lparr>pp_coord := Draining\<rparr>"

lemmas one_defs = concurrent_start_def run_state.defs after_offer_def after_take_def after_return_def before_drain_def one_reply_parts channel_room_def

lemma one_run: "pipe_run sample_soak False one_start [sample_tx] before_drain"
proof -
  note next_step = pipe_run.more [where env = sample_soak and rated = False and ?st0.0 = one_start]
  have "pipe_run sample_soak False one_start ([] @ []) (with_stats (count_mutated False) (one_start\<lparr>rs_tape := [], pp_coord := Offering sample_tx\<rparr>))"
    by (rule next_step [OF pipe_run.start])
      (use pipe_step.pick [where st = one_start and env = sample_soak and rated = False and t = sample_tx and did = False and tp = "[]"] in
        \<open>simp add: one_defs sample_draw, simp add: sample_soak_def\<close>)
  then have "pipe_run sample_soak False one_start (([] @ []) @ [sample_tx]) after_offer"
    by (rule next_step) (use pipe_step.offer [of "one_start\<lparr>rs_tape := [], pp_coord := Offering sample_tx\<rparr>" sample_tx sample_soak False]
      in \<open>simp add: one_defs\<close>)
  then have "pipe_run sample_soak False one_start ((([] @ []) @ [sample_tx]) @ []) after_take"
    by (rule next_step) (use pipe_step.take [of 0 after_offer sample_tx "[]" sample_soak False] in \<open>simp add: one_defs\<close>)
  then have "pipe_run sample_soak False one_start (((([] @ []) @ [sample_tx]) @ []) @ [])
      (after_take\<lparr>rs_world := [], pp_work := [Returning (sample_tx, Inr (short_result ''tesSUCCESS''))]\<rparr>)"
    by (rule next_step) (use pipe_step.submit [where i = 0 and st = after_take and t = sample_tx and t' = sample_tx and env = sample_soak and rated = False
      and s = "[]" and r = "Inr (short_result ''tesSUCCESS'')"]
      in \<open>simp add: one_defs\<close>)
  then have "pipe_run sample_soak False one_start ((((([] @ []) @ [sample_tx]) @ []) @ []) @ []) after_return"
    by (rule next_step) (use pipe_step.return [of 0 "after_take\<lparr>rs_world := [], pp_work := [Returning (sample_tx, Inr (short_result ''tesSUCCESS''))]\<rparr>"
      "(sample_tx, Inr (short_result ''tesSUCCESS''))" sample_soak False] in \<open>simp add: one_defs\<close>)
  then have "pipe_run sample_soak False one_start (((((([] @ []) @ [sample_tx]) @ []) @ []) @ []) @ []) before_drain"
    by (rule next_step) (use pipe_step.cancel [of after_return sample_tx sample_soak False] in \<open>simp add: one_defs, simp add: sample_soak_def\<close>)
  then show ?thesis by simp
qed

lemma sample_log: "is_log_path (rn_log sample_soak)" "rn_logline sample_soak e = Inr ((\<lambda>_. ''{}'') e)" "\<not> rn_refuses sample_soak (rn_log sample_soak)"
  by (simp_all add: sample_soak_def run_log_path_ok)


theorem concurrent_soak_drains_witness:
  "\<exists>new st. pipe_step sample_soak False before_drain new st"
  using concurrent_soak_drains [OF one_run sample_log(1), of 0 before_drain] by (simp add: before_drain_def)

end
