(* ===== verification/Transport.thy ===== *)
theory Transport
  imports Mainnet
begin

text \<open>
  The two JSON-RPC clients (\<open>rpcclient.Client.Call\<close> and \<open>mainnet.Client.call\<close>): a request with one object of parameters is
  encoded, posted and its reply decoded. The encoder, the decoder and the HTTP exchange are parameters. Every other theory takes a
  \<open>caller\<close>; these are the callers of the program.
\<close>

section \<open>The calls\<close>

text \<open>An exchange gives an error, or a status and a body that can still fail while it is read.\<close>

type_synonym 's http_post = "string \<Rightarrow> string \<Rightarrow> 's \<Rightarrow> (int \<times> string go_result) go_result \<times> 's"

record rpc_request =
  rq_method :: string
  rq_params :: "go_value list"

record rpc_codec =
  rd_marshal :: "rpc_request \<Rightarrow> string go_result"
  rd_unmarshal :: "string \<Rightarrow> reply go_result"

text \<open>\<open>Call\<close>; the status of the response is not looked at.\<close>

definition rpc_Call :: "'s http_post \<Rightarrow> rpc_codec \<Rightarrow> string \<Rightarrow> 's caller" where
  "rpc_Call post codec endpoint meth params s =
     (case rd_marshal codec \<lparr>rq_method = meth, rq_params = [GMap params]\<rparr> of
        Inl e \<Rightarrow> (Inl (''marshal request: '' @ e), s)
      | Inr body \<Rightarrow> (case post endpoint body s of
          (Inl e, s') \<Rightarrow> (Inl (''http post to '' @ endpoint @ '': '' @ e), s')
        | (Inr (_, Inl e), s') \<Rightarrow> (Inl (''read response: '' @ e), s')
        | (Inr (_, Inr data), s') \<Rightarrow> (case rd_unmarshal codec data of
            Inl e \<Rightarrow> (Inl (''unmarshal response: '' @ e @ '' (body: '' @ data @ '')''), s')
          | Inr rep \<Rightarrow> (Inr rep, s'))))"

definition mainnet_call :: "'s http_post \<Rightarrow> rpc_codec \<Rightarrow> string \<Rightarrow> 's caller" where
  "mainnet_call post codec endpoint meth params s =
     (case rd_marshal codec \<lparr>rq_method = meth, rq_params = [GMap params]\<rparr> of
        Inl e \<Rightarrow> (Inl e, s)
      | Inr body \<Rightarrow> (case post endpoint body s of
          (Inl e, s') \<Rightarrow> (Inl (''mainnet rpc '' @ meth @ '': '' @ e), s')
        | (Inr (_, Inl e), s') \<Rightarrow> (Inl e, s')
        | (Inr (_, Inr data), s') \<Rightarrow> (case rd_unmarshal codec data of
            Inl e \<Rightarrow> (Inl (''parse '' @ meth @ '': '' @ e @ '' (body: '' @ data @ '')''), s')
          | Inr rep \<Rightarrow> (Inr rep, s'))))"

section \<open>The two clients\<close>

text \<open>They differ in the texts of their errors only: one replies exactly when the other does, with the same reply, and both leave the
  same world.\<close>

lemma clients_agree:
  "rpc_Call post codec endpoint meth params s = (Inr rep, s') \<longleftrightarrow> mainnet_call post codec endpoint meth params s = (Inr rep, s')"
  "snd (rpc_Call post codec endpoint meth params s) = snd (mainnet_call post codec endpoint meth params s)"
  by (auto simp: rpc_Call_def mainnet_call_def split: sum.splits prod.splits)

text \<open>An error page that is JSON passes for a reply; without the member \<open>result\<close> it is an empty one, and the failure is that of the
  decoder, not of the call.\<close>

definition empty_reply :: reply where
  "empty_reply = \<lparr>doc = None, verbatim = (\<lambda>_. None)\<rparr>"

lemma error_page_fails_in_decoder:
  assumes "rd_marshal codec \<lparr>rq_method = ''server_info'', rq_params = [GMap []]\<rparr> = Inr b"
    and "post endpoint b s = (Inr (status, Inr data), s')" and "rd_unmarshal codec data = Inr empty_reply"
  shows "rpc_Call post codec endpoint ''server_info'' [] s = (Inr empty_reply, s')
    \<and> isl (fst (ServerInfo (rpc_Call post codec endpoint) s))"
  using assms by (simp add: rpc_Call_def ServerInfo_def with_reply_def parse_server_info_def empty_reply_def ebind_def ewrap_def)

end
