(* ===== verification/Fuzz_Main.thy ===== *)
theory Fuzz_Main
  imports Runners Handlers
begin

text \<open>
  The command of the fuzzer, \<open>sidecar/cmd/fuzz/main.go\<close>: the configuration of every mode from the environment, the
  seed (\<open>fuzz/corpus/seed.go\<close>), the manifest of a run (\<open>fuzz/manifest/manifest.go\<close>) and the state \<open>/status\<close> shows.
  The Docker daemon, the decoders of durations and floats and the random source are parameters; a float is a rational.
\<close>

section \<open>Reading the environment\<close>

type_synonym environ = "string \<Rightarrow> string"

record env_lib =
  el_duration :: "string \<Rightarrow> int go_result"
  el_float :: "string \<Rightarrow> rat go_result"
  el_random :: "64 word"
  el_crash_docker :: "unit go_result"
  el_chaos_docker :: "unit go_result"
  el_decode :: "string \<Rightarrow> raw_row list go_result"

definition envDefault :: "environ \<Rightarrow> string \<Rightarrow> string \<Rightarrow> string" where
  "envDefault env key def = (if env key \<noteq> [] then env key else def)"

definition env_parsed :: "(string \<Rightarrow> 'a go_result) \<Rightarrow> environ \<Rightarrow> string \<Rightarrow> 'a \<Rightarrow> 'a" where
  "env_parsed parse env key def = (if env key = [] then def else case parse (env key) of Inr n \<Rightarrow> n | Inl _ \<Rightarrow> def)"

definition envInt :: "environ \<Rightarrow> string \<Rightarrow> int \<Rightarrow> int" where
  "envInt = env_parsed atoi"

definition envDuration :: "env_lib \<Rightarrow> environ \<Rightarrow> string \<Rightarrow> int \<Rightarrow> int" where
  "envDuration lib = env_parsed (el_duration lib)"

definition envFloat :: "env_lib \<Rightarrow> environ \<Rightarrow> string \<Rightarrow> rat \<Rightarrow> rat" where
  "envFloat lib = env_parsed (el_float lib)"

text \<open>The number \<open>strconv.ParseInt\<close> and \<open>strconv.Atoi\<close> return beside the error: zero, or the end of the range.\<close>

definition int_or_bound :: "string \<Rightarrow> int" where
  "int_or_bound s = (case scan_sign s of (neg, ds) \<Rightarrow>
     (case (if ds = [] then None else parse_nat ds) of
        None \<Rightarrow> 0
      | Some n \<Rightarrow> (let i = (if neg then - int n else int n) in max (- (2 ^ 63)) (min i (2 ^ 63 - 1)))))"

text \<open>\<open>strconv.ParseUint\<close>: digits only.\<close>

definition parse_uint :: "string \<Rightarrow> 64 word go_result" where
  "parse_uint s = (case parse_nat s of
      None \<Rightarrow> Inl ''invalid syntax''
    | Some n \<Rightarrow> if n < 2 ^ 64 then Inr (of_nat n) else Inl ''value out of range'')"

definition SeedFromEnv :: "env_lib \<Rightarrow> environ \<Rightarrow> string \<Rightarrow> 64 word" where
  "SeedFromEnv lib env key = env_parsed parse_uint env key (el_random lib)"

section \<open>The configurations\<close>

definition http_url :: "string \<Rightarrow> string" where
  "http_url n = (if has_prefix n ''http'' then n else ''http://'' @ n)"

text \<open>The head of every loader: the node URLs and the submission URL.\<close>

definition node_urls :: "environ \<Rightarrow> (string list \<times> string) go_result" where
  "node_urls env =
     (let nodes = split_on (CHR '','') (env ''NODES'') in
      if length nodes < 2 \<or> nodes ! 0 = [] then Inl ''NODES must list >= 2 comma-separated URLs''
      else let urls = map (\<lambda>n. http_url (trim_space n)) nodes; submit = env ''SUBMIT_URL''
           in Inr (urls, if submit = [] then urls ! 0 else http_url submit))"

record crash_cfg =
  cr_key :: string
  cr_val :: string
  cr_tail :: int

record fuzz_config =
  fc_nodes :: "string list"
  fc_submit :: string
  fc_seed :: "64 word"
  fc_accounts :: int
  fc_tx_count :: int
  fc_corpus :: string
  fc_mirror :: string
  fc_batch :: int
  fc_mutation :: rat
  fc_tiers :: tier_weights
  fc_crash :: "crash_cfg option"
  fc_local :: bool
  fc_webhook :: "string option"

record soak_config = fuzz_config +
  sk_rate :: rat
  sk_rotate :: int
  sk_stall :: int
  sk_sample :: int
  sk_min_peers :: int
  sk_oracles :: "string list"
  sk_workers :: int

record chaos_config = soak_config +
  ck_schedule :: "schedule_entry list"

definition tiers_of_env :: "environ \<Rightarrow> tier_weights" where
  "tiers_of_env env = \<lparr>tw_Rich = envInt env ''TIER_RICH'' 1, tw_AtReserve = envInt env ''TIER_AT_RESERVE'' 0,
     tw_Multisig = envInt env ''TIER_MULTISIG'' 0, tw_RegularKey = envInt env ''TIER_REGULAR_KEY'' 0,
     tw_Blackholed = envInt env ''TIER_BLACKHOLED'' 0\<rparr>"

definition crash_of_env :: "env_lib \<Rightarrow> environ \<Rightarrow> crash_cfg option" where
  "crash_of_env lib env =
     (if env ''CRASH_LABEL_VAL'' = [] then None
      else case el_crash_docker lib of
          Inl _ \<Rightarrow> None
        | Inr _ \<Rightarrow> Some \<lparr>cr_key = envDefault env ''CRASH_LABEL_KEY'' ''fuzzer.role'', cr_val = env ''CRASH_LABEL_VAL'',
            cr_tail = (case atoi (envDefault env ''CRASH_TAIL_LINES'' ''200'') of Inr n \<Rightarrow> n | Inl _ \<Rightarrow> 0)\<rparr>)"

definition second :: int where
  "second = 1000000000"

definition loadConfig :: "env_lib \<Rightarrow> environ \<Rightarrow> fuzz_config go_result" where
  "loadConfig lib env = ebind (node_urls env) (\<lambda>(nodes, submit). Inr \<lparr>
     fc_nodes = nodes,
     fc_submit = submit,
     fc_seed = SeedFromEnv lib env ''FUZZ_SEED'',
     fc_accounts = envInt env ''ACCOUNTS'' 10,
     fc_tx_count = envInt env ''TX_COUNT'' 100,
     fc_corpus = envDefault env ''CORPUS_DIR'' ''/output/corpus'',
     fc_mirror = envDefault env ''FINDINGS_MIRROR_DIR'' [],
     fc_batch = envDuration lib env ''BATCH_CLOSE'' (5 * second),
     fc_mutation = envFloat lib env ''MUTATION_RATE'' 0,
     fc_tiers = tiers_of_env env,
     fc_crash = crash_of_env lib env,
     fc_local = (env ''LOCAL_SIGN'' = ''1''),
     fc_webhook = (if env ''ALERT_WEBHOOK_URL'' = [] then None else Some (env ''ALERT_WEBHOOK_URL''))\<rparr>)"

record replay_config =
  rpc_nodes :: "string list"
  rpc_submit :: string
  rpc_mainnet :: string
  rpc_seed :: "64 word"
  rpc_accounts :: int
  rpc_start :: int
  rpc_end :: int
  rpc_corpus :: string
  rpc_batch :: int

definition loadReplayConfig :: "env_lib \<Rightarrow> environ \<Rightarrow> replay_config go_result" where
  "loadReplayConfig lib env = ebind (node_urls env) (\<lambda>(nodes, submit).
     let lo = envInt env ''REPLAY_LEDGER_START'' 0; hi = envInt env ''REPLAY_LEDGER_END'' 0 in
     if lo \<le> 0 \<or> hi \<le> 0 \<or> hi < lo then Inl ''REPLAY_LEDGER_START and REPLAY_LEDGER_END required (>0, end>=start)''
     else Inr \<lparr>rpc_nodes = nodes, rpc_submit = submit,
       rpc_mainnet = envDefault env ''MAINNET_URL'' ''https://s1.ripple.com:51234'',
       rpc_seed = SeedFromEnv lib env ''FUZZ_SEED'', rpc_accounts = envInt env ''ACCOUNTS'' 10,
       rpc_start = lo, rpc_end = hi, rpc_corpus = envDefault env ''CORPUS_DIR'' ''/output/corpus'',
       rpc_batch = envDuration lib env ''BATCH_CLOSE'' (5 * second)\<rparr>)"

record reproduce_config =
  pc_nodes :: "string list"
  pc_submit :: string
  pc_log :: string
  pc_corpus :: string

definition loadReproduceConfig :: "environ \<Rightarrow> reproduce_config go_result" where
  "loadReproduceConfig env = ebind (node_urls env) (\<lambda>(nodes, submit).
     if env ''REPRODUCE_LOG'' = [] then Inl ''REPRODUCE_LOG env var required (path to ndjson run log)''
     else Inr \<lparr>pc_nodes = nodes, pc_submit = submit, pc_log = env ''REPRODUCE_LOG'',
       pc_corpus = envDefault env ''CORPUS_DIR'' ''/output/corpus''\<rparr>)"

record shrink_config =
  hc_nodes :: "string list"
  hc_submit :: string
  hc_seed :: "64 word"
  hc_accounts :: int
  hc_log :: string
  hc_divergence :: string
  hc_max_step :: int
  hc_retries :: int
  hc_corpus :: string
  hc_validate :: int

definition loadShrinkConfig :: "env_lib \<Rightarrow> environ \<Rightarrow> shrink_config go_result" where
  "loadShrinkConfig lib env = ebind (node_urls env) (\<lambda>(nodes, submit).
     if env ''SHRINK_LOG'' = [] then Inl ''SHRINK_LOG env var required (path to ndjson run log)''
     else if env ''SHRINK_DIVERGENCE'' = [] then Inl ''SHRINK_DIVERGENCE env var required (path to original divergence JSON)''
     else if envInt env ''SHRINK_MAX_STEP'' (-1) < 0 then Inl ''SHRINK_MAX_STEP env var required (>= 0)''
     else Inr \<lparr>hc_nodes = nodes, hc_submit = submit, hc_seed = SeedFromEnv lib env ''FUZZ_SEED'',
       hc_accounts = envInt env ''ACCOUNTS'' 10, hc_log = env ''SHRINK_LOG'', hc_divergence = env ''SHRINK_DIVERGENCE'',
       hc_max_step = envInt env ''SHRINK_MAX_STEP'' (-1), hc_retries = envInt env ''SHRINK_RETRIES'' 0,
       hc_corpus = envDefault env ''CORPUS_DIR'' ''/output/corpus'',
       hc_validate = envDuration lib env ''SHRINK_VALIDATE_TIMEOUT'' (60 * second)\<rparr>)"

text \<open>A duration whose error the code ignores is zero.\<close>

definition duration_or_zero :: "env_lib \<Rightarrow> string \<Rightarrow> int" where
  "duration_or_zero lib s = (case el_duration lib s of Inr d \<Rightarrow> d | Inl _ \<Rightarrow> 0)"

definition enabled_oracles :: "environ \<Rightarrow> string list" where
  "enabled_oracles env = (let v = trim_space (env ''ORACLES'') in
     if v = [] then [] else filter (\<lambda>p. p \<noteq> []) (map trim_space (split_on (CHR '','') v)))"

definition loadSoakConfig :: "env_lib \<Rightarrow> environ \<Rightarrow> soak_config go_result" where
  "loadSoakConfig lib env = ebind (loadConfig lib env) (\<lambda>base.
     let workers = envInt env ''SUBMIT_WORKERS'' 1;
         base1 = (if 1 < workers then base\<lparr>fc_local := True\<rparr> else base)
     in Inr (fuzz_config.extend base1 (soak_config.fields (envFloat lib env ''TX_RATE'' 0)
          (int_or_bound (envDefault env ''ROTATE_EVERY'' ''1000''))
          (duration_or_zero lib (envDefault env ''LIVENESS_STALL_THRESHOLD'' ''30s''))
          (duration_or_zero lib (envDefault env ''LIVENESS_SAMPLE_INTERVAL'' ''5s''))
          (int_or_bound (envDefault env ''LIVENESS_MIN_PEERS'' ''0''))
          (enabled_oracles env) workers)))"

text \<open>\<open>strings.Index(s, ":")\<close> positive: the name is cut at the first colon.\<close>

definition node_host :: "string \<Rightarrow> string" where
  "node_host u = (let s = trim_prefix ''https://'' (trim_prefix ''http://'' u); host = takeWhile (\<lambda>c. c \<noteq> CHR '':'') s
     in if CHR '':'' \<in> set s \<and> host \<noteq> [] then host else s)"

definition nodeNamesFromURLs :: "string list \<Rightarrow> string list" where
  "nodeNamesFromURLs = map node_host"

definition has_schedule :: "string \<Rightarrow> bool" where
  "has_schedule s \<longleftrightarrow> trim_space s \<noteq> [] \<and> trim_space s \<noteq> ''[]''"

definition loadChaosConfig :: "'r intn \<Rightarrow> (64 word \<Rightarrow> 'r) \<Rightarrow> env_lib \<Rightarrow> environ \<Rightarrow> chaos_config go_result option" where
  "loadChaosConfig intn source lib env =
     obind (Some (loadSoakConfig lib env)) (\<lambda>soak.
       let text = env ''CHAOS_SCHEDULE'' in
       case el_chaos_docker lib of
         Inl e \<Rightarrow> if has_schedule text then Some (Inl (''chaos: NetworkRuntime unavailable but CHAOS_SCHEDULE has events: '' @ e))
           else obind (map_option (ewrap ''CHAOS_SCHEDULE: '')
             (ParseSchedule intn source text (el_decode lib text) (nodeNamesFromURLs (fc_nodes soak)) (fc_seed soak)))
             (\<lambda>es. Some (Inr (soak_config.extend soak (chaos_config.fields es))))
       | Inr _ \<Rightarrow> obind (map_option (ewrap ''CHAOS_SCHEDULE: '')
             (ParseSchedule intn source text (el_decode lib text) (nodeNamesFromURLs (fc_nodes soak)) (fc_seed soak)))
             (\<lambda>es. Some (Inr (soak_config.extend soak (chaos_config.fields es)))))"

section \<open>The manifest\<close>

record manifest =
  mf_started :: "int option"
  mf_mode :: string
  mf_seed :: "64 word"
  mf_accounts :: int
  mf_tx_count :: int
  mf_tx_rate :: rat
  mf_rotate :: int
  mf_mutation :: rat
  mf_local :: bool
  mf_nodes :: "string list"
  mf_submit :: string
  mf_corpus :: string
  mf_batch :: string
  mf_tiers :: "(string \<times> int) list"
  mf_schedule :: string
  mf_start :: int
  mf_end :: int
  mf_image :: string
  mf_git :: string

definition empty_manifest :: manifest where
  "empty_manifest = \<lparr>mf_started = None, mf_mode = [], mf_seed = 0, mf_accounts = 0, mf_tx_count = 0, mf_tx_rate = 0,
     mf_rotate = 0, mf_mutation = 0, mf_local = False, mf_nodes = [], mf_submit = [], mf_corpus = [], mf_batch = [],
     mf_tiers = [], mf_schedule = [], mf_start = 0, mf_end = 0, mf_image = [], mf_git = []\<rparr>"

definition tierWeightsMap :: "tier_weights \<Rightarrow> (string \<times> int) list" where
  "tierWeightsMap w = [(''rich'', tw_Rich w), (''at_reserve'', tw_AtReserve w), (''multisig'', tw_Multisig w),
     (''regular_key'', tw_RegularKey w), (''blackholed'', tw_Blackholed w)]"

definition config_manifest :: "(int \<Rightarrow> string) \<Rightarrow> ('m) fuzz_config_scheme \<Rightarrow> manifest" where
  "config_manifest show_duration c = empty_manifest\<lparr>mf_seed := fc_seed c, mf_accounts := fc_accounts c,
     mf_mutation := fc_mutation c, mf_local := fc_local c, mf_nodes := fc_nodes c, mf_submit := fc_submit c,
     mf_batch := show_duration (fc_batch c), mf_tiers := tierWeightsMap (fc_tiers c)\<rparr>"

definition fuzz_manifest :: "(int \<Rightarrow> string) \<Rightarrow> fuzz_config \<Rightarrow> manifest" where
  "fuzz_manifest show_duration c = (config_manifest show_duration c)\<lparr>mf_tx_count := fc_tx_count c\<rparr>"

definition soak_manifest :: "(int \<Rightarrow> string) \<Rightarrow> ('m) soak_config_scheme \<Rightarrow> manifest" where
  "soak_manifest show_duration c = (config_manifest show_duration c)\<lparr>mf_tx_rate := sk_rate c, mf_rotate := sk_rotate c\<rparr>"

definition chaos_manifest :: "(int \<Rightarrow> string) \<Rightarrow> environ \<Rightarrow> chaos_config \<Rightarrow> manifest" where
  "chaos_manifest show_duration env c = (soak_manifest show_duration c)\<lparr>mf_schedule := env ''CHAOS_SCHEDULE''\<rparr>"

definition replay_manifest :: "(int \<Rightarrow> string) \<Rightarrow> replay_config \<Rightarrow> manifest" where
  "replay_manifest show_duration c = empty_manifest\<lparr>mf_seed := rpc_seed c, mf_accounts := rpc_accounts c, mf_nodes := rpc_nodes c,
     mf_submit := rpc_submit c, mf_batch := show_duration (rpc_batch c), mf_start := rpc_start c, mf_end := rpc_end c\<rparr>"

text \<open>\<open>manifest.Write\<close>; the directory, the encoder and the write are answers of the outside.\<close>

definition manifest_Write :: "int \<Rightarrow> unit go_result \<Rightarrow> (manifest \<Rightarrow> string go_result) \<Rightarrow> (string \<Rightarrow> bool) \<Rightarrow> string \<Rightarrow> manifest
    \<Rightarrow> disk \<Rightarrow> unit go_result \<times> disk" where
  "manifest_Write now mkdir marshal refuses dir m d =
     (let m1 = (if mf_started m = None then m\<lparr>mf_started := Some now\<rparr> else m) in
      case mkdir of
        Inl e \<Rightarrow> (Inl (''mkdir '' @ dir @ '': '' @ e), d)
      | Inr _ \<Rightarrow> (case marshal m1 of
          Inl e \<Rightarrow> (Inl (''marshal manifest: '' @ e), d)
        | Inr data \<Rightarrow> disk_write refuses (path_join [dir, ''run-manifest.json'']) data d))"

definition filled_manifest :: "environ \<Rightarrow> string \<Rightarrow> string \<Rightarrow> manifest \<Rightarrow> manifest" where
  "filled_manifest env mode corpus m = m\<lparr>mf_mode := mode, mf_corpus := corpus,
     mf_image := (if mf_image m = [] then env ''FUZZ_IMAGE_TAG'' else mf_image m),
     mf_git := (if mf_git m = [] then env ''FUZZ_GIT_SHA'' else mf_git m)\<rparr>"

definition writeManifest :: "environ \<Rightarrow> int \<Rightarrow> unit go_result \<Rightarrow> (manifest \<Rightarrow> string go_result) \<Rightarrow> (string \<Rightarrow> bool) \<Rightarrow> string
    \<Rightarrow> manifest \<Rightarrow> string \<Rightarrow> disk \<Rightarrow> disk" where
  "writeManifest env now mkdir marshal refuses mode m corpus d =
     snd (manifest_Write now mkdir marshal refuses corpus (filled_manifest env mode corpus m) d)"

section \<open>The command\<close>

text \<open>
  What the command shares with the handler of \<open>/status\<close>, and the disk. Every lock section of the command makes the next
  state; the list of them is what a client of \<open>/status\<close> may see, in order. After the last one the command blocks.
\<close>

record main_state =
  ms_stats :: "run_stats option"
  ms_shrink :: "shrink_result option"
  ms_complete :: bool
  ms_error :: string
  ms_phase :: string
  ms_disk :: disk

record mode_runs =
  mr_fuzz :: "fuzz_config \<Rightarrow> disk \<Rightarrow> run_stats go_result \<times> disk"
  mr_replay :: "replay_config \<Rightarrow> disk \<Rightarrow> run_stats go_result \<times> disk"
  mr_reproduce :: "reproduce_config \<Rightarrow> disk \<Rightarrow> run_stats go_result \<times> disk"
  mr_shrink :: "shrink_config \<Rightarrow> disk \<Rightarrow> shrink_result go_result \<times> disk"
  mr_soak :: "soak_config \<Rightarrow> disk \<Rightarrow> run_stats go_result \<times> disk"
  mr_chaos :: "chaos_config \<Rightarrow> disk \<Rightarrow> run_stats go_result \<times> disk"

definition main_start :: "disk \<Rightarrow> main_state" where
  "main_start d = \<lparr>ms_stats = None, ms_shrink = None, ms_complete = False, ms_error = [], ms_phase = [], ms_disk = d\<rparr>"

definition reportFatal :: "string \<Rightarrow> string \<Rightarrow> main_state \<Rightarrow> main_state" where
  "reportFatal phase msg m = m\<lparr>ms_error := msg, ms_phase := phase, ms_complete := True\<rparr>"

definition stats_done :: "run_stats \<Rightarrow> main_state \<Rightarrow> main_state" where
  "stats_done st m = m\<lparr>ms_stats := Some st, ms_complete := True\<rparr>"

definition shrink_done :: "shrink_result \<Rightarrow> main_state \<Rightarrow> main_state" where
  "shrink_done res m = m\<lparr>ms_shrink := Some res, ms_complete := True\<rparr>"

text \<open>The counters published while a soak runs start at zero; what the run adds to them is the run's.\<close>

definition live_stats :: run_stats where
  "live_stats = \<lparr>st_seed = 0, st_submitted = 0, st_succeeded = 0, st_failed = 0, st_mutated = 0, st_divergences = 0, st_compared = 0\<rparr>"

text \<open>One mode: its configuration, what it does before the run, and the run.\<close>

definition mode_case :: "string \<times> string \<Rightarrow> 'c go_result \<Rightarrow> ('c \<Rightarrow> disk \<Rightarrow> disk) \<Rightarrow> (main_state \<Rightarrow> main_state) list
    \<Rightarrow> ('c \<Rightarrow> disk \<Rightarrow> 'r go_result \<times> disk) \<Rightarrow> ('r \<Rightarrow> main_state \<Rightarrow> main_state) \<Rightarrow> main_state \<Rightarrow> main_state list" where
  "mode_case phases cfg manifest publish run record_done m =
     (case cfg of
        Inl e \<Rightarrow> [m, reportFatal (fst phases) e m]
      | Inr c \<Rightarrow>
          (let m1 = m\<lparr>ms_disk := manifest c (ms_disk m)\<rparr>; m2 = fold (\<lambda>f. f) publish m1 in
           case run c (ms_disk m2) of (r, d) \<Rightarrow>
             [m, m2, (case r of Inl e \<Rightarrow> reportFatal (snd phases) e (m2\<lparr>ms_disk := d\<rparr>) | Inr x \<Rightarrow> record_done x (m2\<lparr>ms_disk := d\<rparr>))]))"

text \<open>\<open>main\<close>; \<open>None\<close>: the process ends, by \<open>log.Fatalf\<close> or by a panic of the schedule parser. \<open>write\<close> is \<open>writeManifest\<close>
  with the answers of the outside.\<close>

definition fuzz_main :: "'r intn \<Rightarrow> (64 word \<Rightarrow> 'r) \<Rightarrow> env_lib \<Rightarrow> environ \<Rightarrow> (int \<Rightarrow> string)
    \<Rightarrow> (string \<Rightarrow> manifest \<Rightarrow> string \<Rightarrow> disk \<Rightarrow> disk) \<Rightarrow> mode_runs \<Rightarrow> disk \<Rightarrow> main_state list option" where
  "fuzz_main intn source lib env show_duration write runs d =
     (let mode = envDefault env ''MODE'' ''fuzz''; m = main_start d; publish = [\<lambda>m. m\<lparr>ms_stats := Some live_stats\<rparr>] in
      if mode = ''fuzz'' then Some (mode_case (''config'', ''run'') (loadConfig lib env)
        (\<lambda>c. write ''fuzz'' (fuzz_manifest show_duration c) (fc_corpus c)) [] (mr_fuzz runs) stats_done m)
      else if mode = ''replay'' then Some (mode_case (''replay_config'', ''replay'') (loadReplayConfig lib env)
        (\<lambda>c. write ''replay'' (replay_manifest show_duration c) (rpc_corpus c)) [] (mr_replay runs) stats_done m)
      else if mode = ''reproduce'' then Some (mode_case (''reproduce_config'', ''reproduce'') (loadReproduceConfig env)
        (\<lambda>_ d. d) [] (mr_reproduce runs) stats_done m)
      else if mode = ''shrink'' then Some (mode_case (''shrink_config'', ''shrink'') (loadShrinkConfig lib env)
        (\<lambda>_ d. d) [] (mr_shrink runs) shrink_done m)
      else if mode = ''soak'' then Some (mode_case (''soak_config'', ''soak'') (loadSoakConfig lib env)
        (\<lambda>c. write ''soak'' (soak_manifest show_duration c) (fc_corpus c)) publish (mr_soak runs) stats_done m)
      else if mode = ''chaos'' then map_option (\<lambda>cfg. mode_case (''chaos_config'', ''chaos'') cfg
        (\<lambda>c. write ''chaos'' (chaos_manifest show_duration env c) (fc_corpus c)) publish (mr_chaos runs) stats_done m)
          (loadChaosConfig intn source lib env)
      else None)"

text \<open>The document of \<open>/status\<close>: its state, and the fields that are set.\<close>

definition status_state :: "main_state \<Rightarrow> string" where
  "status_state m = (if ms_error m \<noteq> [] then ''errored'' else if ms_complete m then ''completed'' else ''running'')"

section \<open>The configurations that are accepted\<close>

lemma length_split_on: "length (split_on d s) = Suc (length (filter (\<lambda>c. c = d) s))"
  by (induction s) (auto split: list.splits)

lemma split_on_head: "split_on d s ! 0 = takeWhile (\<lambda>c. c \<noteq> d) s"
  by (induction s) (auto split: list.splits, metis length_split_on list.size(3) nat.distinct(1))

lemma http_url_prefix: "prefix ''http'' (http_url n)"
  by (simp add: http_url_def has_prefix_def)

lemma node_urls_Inr:
  assumes "node_urls env = Inr (nodes, submit)"
  shows "2 \<le> length nodes" "\<And>u. u \<in> set (submit # nodes) \<Longrightarrow> prefix ''http'' u"
proof -
  have n: "2 \<le> length (split_on (CHR '','') (env ''NODES''))" "nodes = map (\<lambda>n. http_url (trim_space n)) (split_on (CHR '','') (env ''NODES''))"
      "submit = nodes ! 0 \<or> submit = http_url (env ''SUBMIT_URL'')"
    using assms by (auto simp: node_urls_def Let_def split: if_splits)
  then show "2 \<le> length nodes" by simp
  have nodes: "prefix ''http'' u" if "u \<in> set nodes" for u using that n(2) http_url_prefix by auto
  moreover have "0 < length nodes" using \<open>2 \<le> length nodes\<close> by linarith
  then have "nodes ! 0 \<in> set nodes" by (rule nth_mem)
  ultimately show "prefix ''http'' u" if "u \<in> set (submit # nodes)" for u
    using that n(3) http_url_prefix by auto
qed

lemma node_urls_accepts:
  "(\<exists>r. node_urls env = Inr r) \<longleftrightarrow> CHR '','' \<in> set (env ''NODES'') \<and> hd (env ''NODES'') \<noteq> CHR '',''"
proof -
  have "length (split_on (CHR '','') s) < 2 \<longleftrightarrow> CHR '','' \<notin> set s" for s
    by (auto simp: length_split_on filter_empty_conv)
  moreover have "takeWhile (\<lambda>c. c \<noteq> CHR '','') s = [] \<longleftrightarrow> s = [] \<or> hd s = CHR '',''" for s
    by (cases s) auto
  ultimately show ?thesis by (auto simp: node_urls_def Let_def split_on_head)
qed

definition nodes_listed :: "environ \<Rightarrow> bool" where
  "nodes_listed env \<longleftrightarrow> CHR '','' \<in> set (env ''NODES'') \<and> hd (env ''NODES'') \<noteq> CHR '',''"

text \<open>
  Every loader accepts exactly when \<open>NODES\<close> has a comma that is not its first character and the values its mode requires
  are there; a number that does not parse counts as absent and never is an error.
\<close>

theorem loaders_accept_iff:
  "(\<exists>c. loadConfig lib env = Inr c) \<longleftrightarrow> nodes_listed env"
  "(\<exists>c. loadSoakConfig lib env = Inr c) \<longleftrightarrow> nodes_listed env"
  "(\<exists>c. loadReplayConfig lib env = Inr c) \<longleftrightarrow> nodes_listed env
     \<and> 0 < envInt env ''REPLAY_LEDGER_START'' 0 \<and> envInt env ''REPLAY_LEDGER_START'' 0 \<le> envInt env ''REPLAY_LEDGER_END'' 0"
  "(\<exists>c. loadReproduceConfig env = Inr c) \<longleftrightarrow> nodes_listed env \<and> env ''REPRODUCE_LOG'' \<noteq> []"
  "(\<exists>c. loadShrinkConfig lib env = Inr c) \<longleftrightarrow> nodes_listed env \<and> env ''SHRINK_LOG'' \<noteq> []
     \<and> env ''SHRINK_DIVERGENCE'' \<noteq> [] \<and> 0 \<le> envInt env ''SHRINK_MAX_STEP'' (-1)"
  using node_urls_accepts [of env] unfolding nodes_listed_def [symmetric]
  by (auto simp: loadConfig_def loadSoakConfig_def loadReplayConfig_def loadReproduceConfig_def loadShrinkConfig_def
      ebind_def Let_def split: sum.splits prod.splits if_splits)

lemma loadSoakConfig_facts:
  assumes "loadSoakConfig lib env = Inr c"
  shows "2 \<le> length (fc_nodes c)" "u \<in> set (fc_submit c # fc_nodes c) \<Longrightarrow> prefix ''http'' u"
    "1 < sk_workers c \<Longrightarrow> fc_local c"
proof -
  from assms obtain nodes submit where n: "node_urls env = Inr (nodes, submit)"
    by (auto simp: loadSoakConfig_def loadConfig_def ebind_def split: sum.splits)
  with assms have c: "fc_nodes c = nodes" "fc_submit c = submit"
    by (auto simp: loadSoakConfig_def loadConfig_def ebind_def Let_def fuzz_config.defs soak_config.defs)
  show "2 \<le> length (fc_nodes c)" "u \<in> set (fc_submit c # fc_nodes c) \<Longrightarrow> prefix ''http'' u"
    unfolding c using node_urls_Inr [OF n] by auto
  show "1 < sk_workers c \<Longrightarrow> fc_local c"
    using assms n by (auto simp: loadSoakConfig_def loadConfig_def ebind_def Let_def fuzz_config.defs soak_config.defs)
qed

lemma obind_gives: "obind m f = Some (Inr y) \<longleftrightarrow> (\<exists>x. m = Some (Inr x) \<and> f x = Some (Inr y))"
  by (auto simp: obind_def split: option.splits sum.splits)

lemma ewrap_Inr: "ewrap p r = Inr x \<longleftrightarrow> r = Inr x"
  by (auto simp: ewrap_def split: sum.splits)

lemma loadChaosConfig_Inr:
  assumes "loadChaosConfig intn source lib env = Some (Inr c)"
  obtains soak es where "loadSoakConfig lib env = Inr soak" "c = soak_config.extend soak (chaos_config.fields es)"
    "ParseSchedule intn source (env ''CHAOS_SCHEDULE'') (el_decode lib (env ''CHAOS_SCHEDULE''))
       (nodeNamesFromURLs (fc_nodes soak)) (fc_seed soak) = Some (Inr es)"
    "isl (el_chaos_docker lib) \<Longrightarrow> \<not> has_schedule (env ''CHAOS_SCHEDULE'')"
proof (cases "el_chaos_docker lib")
  case (Inl e)
  then show ?thesis using assms that by (auto simp: loadChaosConfig_def obind_gives Let_def ewrap_Inr split: if_splits)
next
  case (Inr u)
  then show ?thesis using assms that by (auto simp: loadChaosConfig_def obind_gives Let_def ewrap_Inr)
qed

lemma no_schedule_parses:
  assumes dec: "\<And>s. s \<noteq> [] \<Longrightarrow> trim_space s = [] \<Longrightarrow> isl (decode s)" "\<And>s. trim_space s = ''[]'' \<Longrightarrow> decode s = Inr []"
    and none: "\<not> has_schedule s" and parsed: "ParseSchedule intn source s (decode s) nodes seed = Some (Inr es)"
  shows "es = []"
proof (cases "trim_space s = ''[]''")
  case True
  then show ?thesis using parsed dec(2) by (auto simp: ParseSchedule_def obind_def ewrap_def split: if_splits)
next
  case False
  with none have "trim_space s = []" by (simp add: has_schedule_def)
  then show ?thesis using parsed dec(1) [of s]
    by (cases "decode s") (auto simp: ParseSchedule_def obind_def ewrap_def split: if_splits)
qed

text \<open>
  A chaos configuration that is accepted names two nodes or more by URLs, signs locally when it has several workers,
  and has no event when the Docker daemon could not be reached: no event meets a missing runtime.
\<close>

theorem accepted_chaos_config:
  assumes "loadChaosConfig intn source lib env = Some (Inr c)"
    and "\<And>s. s \<noteq> [] \<Longrightarrow> trim_space s = [] \<Longrightarrow> isl (el_decode lib s)"
    and "\<And>s. trim_space s = ''[]'' \<Longrightarrow> el_decode lib s = Inr []"
  shows "2 \<le> length (fc_nodes c) \<and> (\<forall>u \<in> set (fc_submit c # fc_nodes c). prefix ''http'' u)
    \<and> (1 < sk_workers c \<longrightarrow> fc_local c) \<and> (isl (el_chaos_docker lib) \<longrightarrow> ck_schedule c = [])"
proof -
  obtain soak es where s: "loadSoakConfig lib env = Inr soak" and c: "c = soak_config.extend soak (chaos_config.fields es)"
    and p: "ParseSchedule intn source (env ''CHAOS_SCHEDULE'') (el_decode lib (env ''CHAOS_SCHEDULE''))
       (nodeNamesFromURLs (fc_nodes soak)) (fc_seed soak) = Some (Inr es)"
    and d: "isl (el_chaos_docker lib) \<Longrightarrow> \<not> has_schedule (env ''CHAOS_SCHEDULE'')"
    using loadChaosConfig_Inr [OF assms(1)] by blast
  have "isl (el_chaos_docker lib) \<longrightarrow> es = []"
    using no_schedule_parses [of "el_decode lib", OF assms(2,3) _ p] d by blast
  then show ?thesis using loadSoakConfig_facts [OF s] unfolding c
    by (auto simp: soak_config.defs chaos_config.defs)
qed

section \<open>The status of a run\<close>

definition final_status :: "main_state \<Rightarrow> bool" where
  "final_status m \<longleftrightarrow> status_state m = ''completed'' \<and> ms_phase m = [] \<and> (ms_stats m \<noteq> None \<or> ms_shrink m \<noteq> None)
     \<or> status_state m = ''errored'' \<and> ms_phase m \<noteq> []"

text \<open>The states of one mode: it runs until the last one, which is completed exactly when the run returned a result.\<close>

definition mode_outcome :: "main_state list \<Rightarrow> bool \<Rightarrow> bool" where
  "mode_outcome ss ok \<longleftrightarrow> ss \<noteq> [] \<and> (\<forall>m \<in> set (butlast ss). status_state m = ''running'') \<and> final_status (last ss)
     \<and> (status_state (last ss) = ''completed'') = ok"

abbreviation returns :: "'c go_result \<Rightarrow> ('c \<Rightarrow> disk \<Rightarrow> disk) \<Rightarrow> ('c \<Rightarrow> disk \<Rightarrow> 'r go_result \<times> disk) \<Rightarrow> disk \<Rightarrow> bool" where
  "returns cfg manifest run d \<equiv> (case cfg of Inl _ \<Rightarrow> False | Inr c \<Rightarrow> \<not> isl (fst (run c (manifest c d))))"

lemma mode_case_states:
  assumes start: "ms_error m = []" "\<not> ms_complete m" "ms_phase m = []"
    and publish: "publish = [] \<or> publish = [\<lambda>m. m\<lparr>ms_stats := Some live_stats\<rparr>]"
    and complete: "\<And>x m. ms_complete (f x m) \<and> ms_error (f x m) = ms_error m \<and> ms_phase (f x m) = ms_phase m
      \<and> (ms_stats (f x m) \<noteq> None \<or> ms_shrink (f x m) \<noteq> None)"
    and errors: "cfg \<noteq> Inl []" "\<And>c d. fst (run c d) \<noteq> Inl []"
    and phases: "fst phases \<noteq> []" "snd phases \<noteq> []"
  shows "mode_outcome (mode_case phases cfg manifest publish run f m) (returns cfg manifest run (ms_disk m))"
proof (cases cfg)
  case (Inl e)
  with errors(1) start phases show ?thesis
    by (simp add: mode_outcome_def mode_case_def final_status_def status_state_def reportFatal_def)
next
  case (Inr c)
  let ?m2 = "fold (\<lambda>f. f) publish (m\<lparr>ms_disk := manifest c (ms_disk m)\<rparr>)"
  have m2: "ms_error ?m2 = []" "\<not> ms_complete ?m2" "ms_phase ?m2 = []" "ms_disk ?m2 = manifest c (ms_disk m)"
    using publish start by auto
  obtain r d where r: "run c (manifest c (ms_disk m)) = (r, d)" by fastforce
  let ?m' = "case r of Inl e \<Rightarrow> reportFatal (snd phases) e (?m2\<lparr>ms_disk := d\<rparr>) | Inr x \<Rightarrow> f x (?m2\<lparr>ms_disk := d\<rparr>)"
  have ss: "mode_case phases cfg manifest publish run f m = [m, ?m2, ?m']"
    using Inr r m2(4) by (simp add: mode_case_def Let_def)
  have "status_state ?m' = (if isl r then ''errored'' else ''completed'')" "final_status ?m'"
    using errors(2) [of c "manifest c (ms_disk m)"] r m2 complete phases(2)
    by (cases r; auto simp: status_state_def reportFatal_def final_status_def)+
  then show ?thesis using start m2 unfolding ss by (simp add: mode_outcome_def status_state_def Inr r)
qed

definition run_errors :: "mode_runs \<Rightarrow> bool" where
  "run_errors runs \<longleftrightarrow> (\<forall>c d. fst (mr_fuzz runs c d) \<noteq> Inl []) \<and> (\<forall>c d. fst (mr_replay runs c d) \<noteq> Inl [])
     \<and> (\<forall>c d. fst (mr_reproduce runs c d) \<noteq> Inl []) \<and> (\<forall>c d. fst (mr_shrink runs c d) \<noteq> Inl [])
     \<and> (\<forall>c d. fst (mr_soak runs c d) \<noteq> Inl []) \<and> (\<forall>c d. fst (mr_chaos runs c d) \<noteq> Inl [])"

lemma node_urls_error: "node_urls env \<noteq> Inl []"
  by (auto simp: node_urls_def Let_def split: if_splits)

lemma config_errors:
  "loadConfig lib env \<noteq> Inl []" "loadReplayConfig lib env \<noteq> Inl []" "loadReproduceConfig env \<noteq> Inl []"
  "loadShrinkConfig lib env \<noteq> Inl []" "loadSoakConfig lib env \<noteq> Inl []"
  using node_urls_error [of env]
  by (auto simp: loadConfig_def loadReplayConfig_def loadReproduceConfig_def loadShrinkConfig_def loadSoakConfig_def
      ebind_def Let_def split: sum.splits if_splits)

lemma chaos_config_error: "loadChaosConfig intn source lib env = Some z \<Longrightarrow> z \<noteq> Inl []"
  using config_errors(5) [of lib env]
  by (auto simp: loadChaosConfig_def obind_def ewrap_def Let_def split: sum.splits option.splits if_splits)

lemma main_start_fresh: "ms_error (main_start d) = []" "\<not> ms_complete (main_start d)" "ms_phase (main_start d) = []"
    "ms_disk (main_start d) = d"
  by (simp_all add: main_start_def)

text \<open>Every mode is a \<open>mode_case\<close> that starts fresh; what is left to show of it are its errors.\<close>

lemma one_mode:
  assumes "publish = [] \<or> publish = [\<lambda>m. m\<lparr>ms_stats := Some live_stats\<rparr>]"
    and "\<And>x m. ms_complete (f x m) \<and> ms_error (f x m) = ms_error m \<and> ms_phase (f x m) = ms_phase m
      \<and> (ms_stats (f x m) \<noteq> None \<or> ms_shrink (f x m) \<noteq> None)"
    and "cfg \<noteq> Inl []" "\<And>c d. fst (run c d) \<noteq> Inl []"
    and "fst phases \<noteq> []" "snd phases \<noteq> []"
  shows "mode_outcome (mode_case phases cfg manifest publish run f (main_start d)) (returns cfg manifest run d)"
  using mode_case_states [where f = f and cfg = cfg and run = run and manifest = manifest and phases = phases,
      OF main_start_fresh(1-3) [of d] assms] unfolding main_start_fresh .

lemma done_facts:
  "ms_complete (stats_done x m) \<and> ms_error (stats_done x m) = ms_error m \<and> ms_phase (stats_done x m) = ms_phase m
     \<and> (ms_stats (stats_done x m) \<noteq> None \<or> ms_shrink (stats_done x m) \<noteq> None)"
  "ms_complete (shrink_done y m) \<and> ms_error (shrink_done y m) = ms_error m \<and> ms_phase (shrink_done y m) = ms_phase m
     \<and> (ms_stats (shrink_done y m) \<noteq> None \<or> ms_shrink (shrink_done y m) \<noteq> None)"
  by (simp_all add: stats_done_def shrink_done_def)

text \<open>
  What \<open>/status\<close> shows of a command that does not exit: it is running until its last state, which is completed with a
  result, or errored with a phase; in soak mode it is completed exactly when the run returned its statistics.
\<close>

theorem status_follows_run:
  assumes main: "fuzz_main intn source lib env show_duration write runs d = Some ss" and errors: "run_errors runs"
  shows "\<exists>ok. mode_outcome ss ok \<and> (env ''MODE'' = ''soak'' \<longrightarrow> ok = returns (loadSoakConfig lib env)
    (\<lambda>c. write ''soak'' (soak_manifest show_duration c) (fc_corpus c)) (mr_soak runs) d)"
proof -
  note e = errors [unfolded run_errors_def]
  note one = one_mode [OF _ done_facts(1)] one_mode [OF _ done_facts(2)]
  consider "env ''MODE'' = ''soak''" | "env ''MODE'' \<noteq> ''soak''" by blast
  then show ?thesis
  proof cases
    case 1
    then have "mode_outcome ss (returns (loadSoakConfig lib env)
        (\<lambda>c. write ''soak'' (soak_manifest show_duration c) (fc_corpus c)) (mr_soak runs) d)"
      using main e config_errors by (auto simp: fuzz_main_def envDefault_def Let_def intro!: one)
    then show ?thesis by blast
  next
    case 2
    have ex: "mode_outcome ms ok \<Longrightarrow> \<exists>ok. mode_outcome ms ok" for ms ok by blast
    from 2 have "\<exists>ok. mode_outcome ss ok"
      using main e config_errors
      by (auto simp: fuzz_main_def Let_def dest: chaos_config_error split: if_splits intro!: one [THEN ex])
    with 2 show ?thesis by blast
  qed
qed

section \<open>What a manifest says\<close>

text \<open>
  The manifest of a fuzz run determines everything that drives the run: two configurations with the same manifest differ
  at most in where findings are mirrored, which containers are watched and who is alerted.
\<close>

theorem manifest_determines_fuzz:
  assumes "inj show_duration"
    and "filled_manifest env ''fuzz'' (fc_corpus c) (fuzz_manifest show_duration c)
       = filled_manifest env' ''fuzz'' (fc_corpus c') (fuzz_manifest show_duration c')"
  shows "c' = c\<lparr>fc_mirror := fc_mirror c', fc_crash := fc_crash c', fc_webhook := fc_webhook c'\<rparr>"
proof -
  have "fc_batch c' = fc_batch c" 
    using assms by (simp add: filled_manifest_def fuzz_manifest_def config_manifest_def empty_manifest_def inj_eq)
  moreover have "fc_tiers c' = fc_tiers c"
    using assms(2) by (intro tier_weights.equality)
      (simp_all add: filled_manifest_def fuzz_manifest_def config_manifest_def empty_manifest_def tierWeightsMap_def)
  ultimately show ?thesis
    using assms(2) by (intro fuzz_config.equality)
      (simp_all add: filled_manifest_def fuzz_manifest_def config_manifest_def empty_manifest_def)
qed

text \<open>The manifest of a soak run does not: with local signing asked for, the number of workers leaves no trace in it.\<close>

theorem manifest_misses_workers:
  assumes "env ''LOCAL_SIGN'' = ''1''" and "loadSoakConfig lib env = Inr c"
  shows "\<exists>c'. loadSoakConfig lib (env(''SUBMIT_WORKERS'' := w)) = Inr c' \<and> soak_manifest show_duration c' = soak_manifest show_duration c
    \<and> sk_workers c' = envInt (env(''SUBMIT_WORKERS'' := w)) ''SUBMIT_WORKERS'' 1"
proof -
  let ?env = "env(''SUBMIT_WORKERS'' := w)"
  have "node_urls ?env = node_urls env" "tiers_of_env ?env = tiers_of_env env" "crash_of_env lib ?env = crash_of_env lib env"
    "k \<noteq> ''SUBMIT_WORKERS'' \<Longrightarrow> env_parsed p ?env k def = env_parsed p env k def" for k def p
    by (auto simp: node_urls_def tiers_of_env_def crash_of_env_def envInt_def env_parsed_def envDefault_def Let_def split: sum.split)
  then have base: "loadConfig lib ?env = loadConfig lib env"
    by (simp add: loadConfig_def SeedFromEnv_def envInt_def envDuration_def envFloat_def envDefault_def env_parsed_def)
  from assms(2) obtain b where b: "loadConfig lib env = Inr b" by (auto simp: loadSoakConfig_def ebind_def split: sum.splits)
  then have "fc_local b" using assms(1) by (auto simp: loadConfig_def ebind_def split: sum.splits)
  then show ?thesis using assms(2) b base
    by (auto simp: loadSoakConfig_def ebind_def Let_def fuzz_config.defs soak_config.defs soak_manifest_def config_manifest_def
        envFloat_def env_parsed_def envDefault_def)
qed

section \<open>Sample environments\<close>

definition sample_lib :: env_lib where
  "sample_lib = \<lparr>el_duration = (\<lambda>s. if s = ''30s'' then Inr (30 * second) else Inl ''time: invalid duration''),
     el_float = (\<lambda>_. Inl ''invalid syntax''), el_random = 7, el_crash_docker = Inl ''no socket'', el_chaos_docker = Inl ''no socket'',
     el_decode = (\<lambda>s. if trim_space s = [] then Inl ''EOF'' else Inr [])\<rparr>"

definition sample_env :: environ where
  "sample_env k = (if k = ''NODES'' then ''rippled-0:5005, http://goxrpl-0:5005'' else if k = ''MODE'' then ''soak''
     else if k = ''SUBMIT_WORKERS'' then ''4'' else if k = ''CHAOS_SCHEDULE'' then '' [] '' else [])"

definition sample_runs :: "run_stats \<Rightarrow> mode_runs" where
  "sample_runs st = \<lparr>mr_fuzz = (\<lambda>_ d. (Inr st, d)), mr_replay = (\<lambda>_ d. (Inl ''no mainnet'', d)), mr_reproduce = (\<lambda>_ d. (Inr st, d)),
     mr_shrink = (\<lambda>_ d. (Inl ''read run log'', d)), mr_soak = (\<lambda>_ d. (Inr st, d)), mr_chaos = (\<lambda>_ d. (Inr st, d))\<rparr>"

lemma sample_soak_loads: "\<not> isl (loadSoakConfig sample_lib sample_env)"
  by code_simp

lemma sample_chaos_loads:
  "(case loadChaosConfig (\<lambda>n r. Some (0, r)) (\<lambda>_. ()) sample_lib sample_env of Some (Inr c) \<Rightarrow> 1 < sk_workers c | _ \<Rightarrow> False)"
  by code_simp

theorem accepted_chaos_config_witness:
  "\<exists>c. loadChaosConfig (\<lambda>n r. Some (0, r)) (\<lambda>_. ()) sample_lib sample_env = Some (Inr c) \<and> fc_local c \<and> ck_schedule c = []"
proof -
  obtain c where c: "loadChaosConfig (\<lambda>n r. Some (0, r)) (\<lambda>_. ()) sample_lib sample_env = Some (Inr c)" "1 < sk_workers c"
    using sample_chaos_loads by (auto split: option.splits sum.splits)
  have "2 \<le> length (fc_nodes c) \<and> (\<forall>u \<in> set (fc_submit c # fc_nodes c). prefix ''http'' u)
    \<and> (1 < sk_workers c \<longrightarrow> fc_local c) \<and> (isl (el_chaos_docker sample_lib) \<longrightarrow> ck_schedule c = [])"
    by (rule accepted_chaos_config [OF c(1)]) (simp_all add: sample_lib_def)
  with c show ?thesis by (simp add: sample_lib_def)
qed

theorem status_follows_run_witness:
  "\<exists>ss. fuzz_main (\<lambda>n r. Some (0, r)) (\<lambda>_. ()) sample_lib sample_env int_dec (\<lambda>_ _ _ d. d) (sample_runs live_stats) [] = Some ss
     \<and> mode_outcome ss True"
proof -
  obtain ss where ss: "fuzz_main (\<lambda>n r. Some (0, r)) (\<lambda>_. ()) sample_lib sample_env int_dec (\<lambda>_ _ _ d. d) (sample_runs live_stats) [] = Some ss"
    by (simp add: fuzz_main_def envDefault_def sample_env_def)
  have "run_errors (sample_runs live_stats)" by (simp add: run_errors_def sample_runs_def)
  from status_follows_run [OF ss this] sample_soak_loads show ?thesis
    unfolding ss by (auto simp: sample_env_def sample_runs_def split: sum.splits)
qed

theorem manifest_misses_workers_witness:
  "\<exists>c c'. loadSoakConfig sample_lib (sample_env(''LOCAL_SIGN'' := ''1'')) = Inr c
     \<and> loadSoakConfig sample_lib (sample_env(''LOCAL_SIGN'' := ''1'', ''SUBMIT_WORKERS'' := ''1'')) = Inr c'
     \<and> soak_manifest int_dec c' = soak_manifest int_dec c \<and> sk_workers c' = 1 \<and> sk_workers c = 4"
proof -
  have "(case loadSoakConfig sample_lib (sample_env(''LOCAL_SIGN'' := ''1'')) of Inl _ \<Rightarrow> False | Inr c \<Rightarrow> sk_workers c = 4)" by code_simp
  then obtain c where c: "loadSoakConfig sample_lib (sample_env(''LOCAL_SIGN'' := ''1'')) = Inr c" "sk_workers c = 4"
    by (auto split: sum.splits)
  have "envInt (sample_env(''LOCAL_SIGN'' := ''1'', ''SUBMIT_WORKERS'' := ''1'')) ''SUBMIT_WORKERS'' 1 = 1" by code_simp
  with manifest_misses_workers [OF _ c(1), of "''1''" int_dec] c show ?thesis by auto
qed

end
