(* ===== verification/Whole_Runs.thy ===== *)
theory Whole_Runs
  imports Fuzz_Main Concurrent_Soak
begin

text \<open>
  The runners from their configuration to their loops (\<open>SoakRun\<close>, \<open>Run\<close>, \<open>ReplayRun\<close> and \<open>ChaosRun\<close> of
  \<open>sidecar/internal/fuzz/runners\<close>): the clients, the recorder, the run log, the pool and its tiers, the funding, and what a
  soak run does with the events of the liveness monitor. The clients behind URLs, the derivation of keys, the seeding of the
  random source and the disk's refusals are parameters.
\<close>

section \<open>The start of a run\<close>

text \<open>\<open>rl_base\<close> holds the parameters of the loops; its other fields are filled in from the configuration.\<close>

record 's run_lib =
  rl_client :: "string \<Rightarrow> 's caller"
  rl_derive :: "64 word \<Rightarrow> nat \<Rightarrow> wallet go_result"
  rl_tape :: "64 word \<Rightarrow> tape"
  rl_base :: "'s run_env"
  rl_rt :: "'s container_rt"
  rl_polls3 :: nat
  rl_polls2 :: nat
  rl_skip_fund :: bool
  rl_skip_setup :: bool

definition run_nodes :: "'s run_lib \<Rightarrow> string list \<Rightarrow> 's node list" where
  "run_nodes lib urls = map (\<lambda>u. (nodeName u, rl_client lib u)) urls"

definition run_env :: "'s run_lib \<Rightarrow> string list \<Rightarrow> string \<Rightarrow> string \<Rightarrow> 64 word \<Rightarrow> rat \<Rightarrow> bool \<Rightarrow> string list \<Rightarrow> 's run_env" where
  "run_env lib urls submit corpus seed rate local enabled = (rl_base lib)\<lparr>rn_submit := rl_client lib submit,
     rn_nodes := run_nodes lib urls, rn_enabled := enabled, rn_rate := rate, rn_local := local, rn_log := run_log_path corpus seed\<rparr>"

definition no_stats :: "64 word \<Rightarrow> run_stats" where
  "no_stats seed = \<lparr>st_seed = seed, st_submitted = 0, st_succeeded = 0, st_failed = 0, st_mutated = 0, st_divergences = 0, st_compared = 0\<rparr>"

definition new_run :: "'s run_lib \<Rightarrow> string \<Rightarrow> string \<Rightarrow> 64 word \<Rightarrow> webhook option \<Rightarrow> 's \<Rightarrow> disk \<Rightarrow> 's run_state" where
  "new_run lib corpus mirror seed alert s d = \<lparr>rs_world = s, rs_tape = rl_tape lib seed, rs_gen = NewGenerator [], rs_stats = no_stats seed,
     rs_rec = (NewRecorder corpus seed)\<lparr>rc_mirror := mirror\<rparr>, rs_disk = d, rs_alert = alert, rs_step = 0, rs_failseq = 0\<rparr>"

text \<open>The run log, the pool and its tiers; \<open>None\<close>: \<open>AssignTiers\<close> panics. Assigning tiers draws nothing.\<close>

definition open_pool :: "'s run_lib \<Rightarrow> string \<Rightarrow> string \<Rightarrow> 64 word \<Rightarrow> int \<Rightarrow> tier_weights option \<Rightarrow> 's run_state
    \<Rightarrow> pool go_result option \<times> 's run_state" where
  "open_pool lib what corpus seed n tiers st = (case NewRunLog (rn_refuses (rl_base lib)) corpus seed (rs_disk st) of
      (Inl e, d) \<Rightarrow> (Some (Inl (''run log: '' @ e)), st\<lparr>rs_disk := d\<rparr>)
    | (Inr _, d) \<Rightarrow> (let st1 = st\<lparr>rs_disk := d\<rparr> in
        case ewrap what (NewPool (rl_derive lib) seed n) of
          Inl e \<Rightarrow> (Some (Inl e), st1)
        | Inr p \<Rightarrow> (case tiers of None \<Rightarrow> (Some (Inr p), st1)
            | Some w \<Rightarrow> (map_option Inr (AssignTiers p w), st1))))"

text \<open>A set-up after the pool, and the generator it ends with.\<close>

definition set_up :: "(pool \<Rightarrow> 's run_state \<Rightarrow> string list go_result \<times> 's run_state) \<Rightarrow> pool go_result option \<times> 's run_state
    \<Rightarrow> (pool \<times> string list) go_result option \<times> 's run_state" where
  "set_up setup r = (case r of (None, st) \<Rightarrow> (None, st) | (Some (Inl e), st) \<Rightarrow> (Some (Inl e), st)
     | (Some (Inr p), st) \<Rightarrow> (case setup p st of
          (Inl e, st1) \<Rightarrow> (Some (Inl e), st1)
        | (Inr enabled, st1) \<Rightarrow> (Some (Inr (p, enabled)), st1\<lparr>rs_gen := NewGenerator p\<rparr>)))"

section \<open>Soak runs\<close>

definition soak_run_env :: "'s run_lib \<Rightarrow> 'a soak_config_scheme \<Rightarrow> string list \<Rightarrow> 's soak_env" where
  "soak_run_env lib cfg enabled = run_env.extend
     (run_env lib (fc_nodes cfg) (fc_submit cfg) (fc_corpus cfg) (fc_seed cfg) (fc_mutation cfg) (fc_local cfg) enabled)
     \<lparr>so_rt = rl_rt lib, so_state_diff = oracleEnabled (sk_oracles cfg) ''state_diff'', so_rotate = sk_rotate cfg\<rparr>"

definition begin_soak :: "'s run_lib \<Rightarrow> 'a soak_config_scheme \<Rightarrow> webhook option \<Rightarrow> 's \<Rightarrow> disk
    \<Rightarrow> (pool \<times> string list) go_result option \<times> 's run_state" where
  "begin_soak lib cfg alert s d =
     (let st = new_run lib (fc_corpus cfg) (fc_mirror cfg) (fc_seed cfg) alert s d in
      if length (fc_nodes cfg) < 2 then (Some (Inl ''need >= 2 NodeURLs''), st)
      else set_up (soak_setup (run_env.truncate (soak_run_env lib cfg [])) (rl_skip_fund lib) (rl_skip_setup lib) (rl_polls3 lib) (rl_polls2 lib))
             (open_pool lib [] (fc_corpus cfg) (fc_seed cfg) (fc_accounts cfg) (Some (fc_tiers cfg)) st))"

definition crash_watch :: "crash_cfg option \<Rightarrow> (poller \<times> hang_detector) option" where
  "crash_watch c = (case c of None \<Rightarrow> None | Some k \<Rightarrow> new_watch True (cr_key k) (cr_val k) (cr_tail k))"

text \<open>What a soak run is after its set-up: the serial loop after so many rounds, or the state the workers start from.\<close>

datatype ('s, 'h) soak_result = Serial "('s, 'h) soak_state outcome" | Workers "'s pipe_state"

definition SoakRun :: "'s run_lib \<Rightarrow> 'a soak_config_scheme \<Rightarrow> webhook option \<Rightarrow> ('s, 'h) hook \<Rightarrow> 'h \<Rightarrow> nat \<Rightarrow> 's \<Rightarrow> disk
    \<Rightarrow> ('s, 'h) soak_result go_result option" where
  "SoakRun lib cfg alert hook h rounds s d = (case begin_soak lib cfg alert s d of
      (None, _) \<Rightarrow> None
    | (Some (Inl e), _) \<Rightarrow> Some (Inl e)
    | (Some (Inr (p, enabled)), st) \<Rightarrow> Some (Inr
        (if 1 < sk_workers cfg then Workers (concurrent_start (nat (sk_workers cfg)) (crash_watch (fc_crash cfg)) st)
         else Serial (soak_loop (soak_run_env lib cfg enabled) hook rounds
                (run_state.extend st (soak_state.fields (crash_watch (fc_crash cfg)) h))))))"

text \<open>\<open>ChaosRun\<close>: the scheduler in the hook.\<close>

definition ChaosRun :: "'s run_lib \<Rightarrow> 's chaos_env \<Rightarrow> (audit_entry \<Rightarrow> go_value) \<Rightarrow> chaos_config \<Rightarrow> webhook option \<Rightarrow> nat \<Rightarrow> 's \<Rightarrow> disk
    \<Rightarrow> ('s, chaos_part) soak_result go_result option" where
  "ChaosRun lib cenv aj cfg alert rounds s d =
     SoakRun lib cfg alert (Some (chaos_hook (soak_run_env lib cfg []) cenv aj)) (chaos_part_start (ck_schedule cfg) (fc_corpus cfg) (fc_seed cfg)) rounds s d"

section \<open>The liveness monitor of a soak run\<close>

text \<open>Its configuration; \<open>None\<close>: it is not started.\<close>

definition soak_liveness :: "'a soak_config_scheme \<Rightarrow> liveness_config option" where
  "soak_liveness cfg =
     (let stall = (if oracleEnabled (sk_oracles cfg) ''consensus_liveness'' then sk_stall cfg else 0);
          peers = (if oracleEnabled (sk_oracles cfg) ''peer_health'' then sk_min_peers cfg else 0)
      in if 0 < stall \<or> 0 < peers then Some \<lparr>lf_threshold = stall, lf_peers = peers, lf_cooldown = 0\<rparr> else None)"

definition event_kind_text :: "event_kind \<Rightarrow> string" where
  "event_kind_text k = (case k of ConsensusStall \<Rightarrow> ''consensus_stall'' | PeerDrop \<Rightarrow> ''peer_drop'')"

text \<open>An event is recorded with its snapshots, and announced under the key of a divergence without them; \<open>json\<close> makes the
  dynamic values of the snapshots.\<close>

definition on_liveness :: "('s, 'e) run_env_scheme \<Rightarrow> (node_snapshot list \<Rightarrow> go_value) \<Rightarrow> liveness_event
    \<Rightarrow> ('s, 'm) run_state_scheme \<Rightarrow> ('s, 'm) run_state_scheme" where
  "on_liveness env json e st = (let kind = event_kind_text (le_kind e) in
     report env (by_signature (new_divergence kind (le_description e) []))
       (new_divergence kind (le_description e)
          [(''stall_seconds'', GFloat (rat_of_int (le_stall e) / rat_of_int Liveness.second)), (''snapshots'', json (le_snapshots e))]) st)"

definition liveness_tick :: "('s, 'e) run_env_scheme \<Rightarrow> (node_snapshot list \<Rightarrow> go_value) \<Rightarrow> liveness_config
    \<Rightarrow> monitor_state \<times> ('s, 'm) run_state_scheme \<Rightarrow> monitor_state \<times> ('s, 'm) run_state_scheme" where
  "liveness_tick env json cfg mst = (case mst of (ms, st) \<Rightarrow>
     (case sampleAll (rn_nodes env) (rs_world st) of (snaps, s') \<Rightarrow>
       (case monitor_tick cfg (rn_now env s') snaps ms of
          (None, ms') \<Rightarrow> (ms', st\<lparr>rs_world := s'\<rparr>)
        | (Some e, ms') \<Rightarrow> (ms', on_liveness env json e (st\<lparr>rs_world := s'\<rparr>)))))"

section \<open>Realtime and replay runs\<close>

definition pool_addresses :: "pool \<Rightarrow> string list" where
  "pool_addresses p = GenesisAddress # map w_address p"

definition begin_realtime :: "'s run_lib \<Rightarrow> 'a fuzz_config_scheme \<Rightarrow> webhook option \<Rightarrow> 's \<Rightarrow> disk
    \<Rightarrow> (pool \<times> string list) go_result option \<times> 's run_state" where
  "begin_realtime lib cfg alert s d =
     (let env = run_env lib (fc_nodes cfg) (fc_submit cfg) (fc_corpus cfg) (fc_seed cfg) (fc_mutation cfg) (fc_local cfg) [];
          st = new_run lib (fc_corpus cfg) [] (fc_seed cfg) alert s d in
      if length (fc_nodes cfg) < 2 then (Some (Inl ''need >= 2 NodeURLs for oracle comparison''), st)
      else set_up (rt_setup env (rl_skip_fund lib) (rl_skip_setup lib) (rl_polls3 lib) (rl_polls2 lib))
             (open_pool lib ''account pool: '' (fc_corpus cfg) (fc_seed cfg) (fc_accounts cfg) (Some (fc_tiers cfg)) st))"

definition RealtimeRun :: "'s run_lib \<Rightarrow> 'a fuzz_config_scheme \<Rightarrow> webhook option \<Rightarrow> 's \<Rightarrow> disk \<Rightarrow> 's rt_state outcome go_result option" where
  "RealtimeRun lib cfg alert s d = (case begin_realtime lib cfg alert s d of
      (None, _) \<Rightarrow> None
    | (Some (Inl e), _) \<Rightarrow> Some (Inl e)
    | (Some (Inr (p, enabled)), st) \<Rightarrow> (case ServerInfo (rl_client lib (fc_submit cfg)) (rs_world st) of
        (Inl e, _) \<Rightarrow> Some (Inl (''server_info: '' @ e))
      | (Inr info, s') \<Rightarrow> Some (Inr (rt_loop
          (run_env lib (fc_nodes cfg) (fc_submit cfg) (fc_corpus cfg) (fc_seed cfg) (fc_mutation cfg) (fc_local cfg) enabled)
          (rl_rt lib) (0 < fc_batch cfg) 0 (nat (fc_tx_count cfg))
          (run_state.extend (st\<lparr>rs_world := s'\<rparr>)
             (rt_state.fields (crash_watch (fc_crash cfg)) (lr_seq (si_validated info)) (NewInvariantPoolBalance (pool_addresses p))))))))"

text \<open>The set-up of a replay announces nothing.\<close>

definition replay_setup :: "'s run_env \<Rightarrow> bool \<Rightarrow> bool \<Rightarrow> nat \<Rightarrow> nat \<Rightarrow> pool \<Rightarrow> 's run_state \<Rightarrow> string list go_result \<times> 's run_state" where
  "replay_setup env skip_fund skip_setup polls3 polls2 p st =
     (case (if skip_fund then (Inr (), st) else fund_step env ''replay'' ''fund pool'' p st) of
        (Inl e, st1) \<Rightarrow> (Inl e, st1)
      | (Inr _, st1) \<Rightarrow>
          (case (if skip_setup then (Inr (), st1) else mesh_step env ''replay'' polls3 polls2 p st1) of
             (Inl e, st2) \<Rightarrow> (Inl e, st2) | (Inr _, st2) \<Rightarrow> (Inr [], st2)))"

definition begin_replay :: "'s run_lib \<Rightarrow> replay_config \<Rightarrow> 's \<Rightarrow> disk \<Rightarrow> (pool \<times> string list) go_result option \<times> 's run_state" where
  "begin_replay lib cfg s d =
     (let env = run_env lib (rpc_nodes cfg) (rpc_submit cfg) (rpc_corpus cfg) (rpc_seed cfg) 0 False [];
          st = new_run lib (rpc_corpus cfg) [] (rpc_seed cfg) None s d in
      if length (rpc_nodes cfg) < 2 then (Some (Inl ''need >= 2 NodeURLs for oracle comparison''), st)
      else set_up (replay_setup env (rl_skip_fund lib) (rl_skip_setup lib) (rl_polls3 lib) (rl_polls2 lib))
             (open_pool lib ''account pool: '' (rpc_corpus cfg) (rpc_seed cfg) (rpc_accounts cfg) None st))"

text \<open>\<open>None\<close>: a panic, or more transactions than \<open>rounds\<close>. The error of the iterator is returned with the statistics.\<close>

definition ReplayRun :: "'s run_lib \<Rightarrow> replay_config \<Rightarrow> nat \<Rightarrow> 's \<Rightarrow> disk \<Rightarrow> (run_stats option \<times> unit go_result) option" where
  "ReplayRun lib cfg rounds s d = (case begin_replay lib cfg s d of
      (None, _) \<Rightarrow> None
    | (Some (Inl e), _) \<Rightarrow> Some (None, Inl e)
    | (Some (Inr (p, enabled)), st) \<Rightarrow> (case ServerInfo (rl_client lib (rpc_submit cfg)) (rs_world st) of
        (Inl e, _) \<Rightarrow> Some (None, Inl (''server_info: '' @ e))
      | (Inr info, s') \<Rightarrow> (case replay_loop
          (run_env lib (rpc_nodes cfg) (rpc_submit cfg) (rpc_corpus cfg) (rpc_seed cfg) 0 False []) (rl_client lib (rpc_mainnet cfg))
          (0 < rpc_batch cfg) rounds
          (rt_state.extend
             (run_state.extend (st\<lparr>rs_world := s'\<rparr>)
               (rt_state.fields None (lr_seq (si_validated info)) (NewInvariantPoolBalance (pool_addresses p))))
             (replay_state.fields (NewIterator (rpc_start cfg) (rpc_end cfg)) (NewRewriter p))) of
            Done (True, fin) \<Rightarrow> Some (Some (rs_stats fin),
              case it_err (rp_iter fin) of None \<Rightarrow> Inr () | Some e \<Rightarrow> Inl (''iterator: '' @ e))
          | _ \<Rightarrow> None)))"

section \<open>A run that has started\<close>

text \<open>The set-up leaves the books alone.\<close>

lemma recordSetupFailure_quiet: "is_log_path (rn_log env) \<Longrightarrow> quiet env st (recordSetupFailure env mode phase err st)"
proof -
  assume log: "is_log_path (rn_log env)"
  let ?d = "new_divergence ''setup_failure'' (''setup aborted in '' @ phase @ '': '' @ err) [(''mode'', GStr mode), (''phase'', GStr phase), (''error'', GStr err)]"
  let ?a = "Some (Key (Signature (Some ?d)), ''[setup_failure] '' @ mode @ '': '' @ ''setup aborted in '' @ phase @ '': '' @ err)"
  have "quiet env st (report env ?a ?d st)" by (rule report_quiet [OF log])
  then show ?thesis by (simp add: recordSetupFailure_def Let_def quiet_defs)
qed

lemma step_quiet:
  assumes "is_log_path (rn_log env)"
  shows "fund_step env mode msg p st = (r, st') \<Longrightarrow> quiet env st st'"
    and "mesh_step env mode polls3 polls2 p st = (r, st') \<Longrightarrow> quiet env st st'"
    and "discover_step env mode st = (q, st') \<Longrightarrow> quiet env st st'"
  using recordSetupFailure_quiet [OF assms, of "st\<lparr>rs_world := s\<rparr>" for s]
  by (auto simp: fund_step_def mesh_step_def discover_step_def quiet_world split: sum.splits prod.splits)

lemma soak_setup_quiet:
  assumes "is_log_path (rn_log env)" and "soak_setup env skip_fund skip_setup polls3 polls2 p st = (r, st')"
  shows "quiet env st st'"
  using assms(2) by (auto simp: soak_setup_def split: sum.splits prod.splits if_splits dest!: step_quiet [OF assms(1)] intro: quiet_trans)

lemma run_env_facts [simp]:
  "rn_log (run_env lib urls submit corpus seed rate local enabled) = run_log_path corpus seed"
  "rn_refuses (run_env lib urls submit corpus seed rate local enabled) = rn_refuses (rl_base lib)"
  "rn_logline (run_env lib urls submit corpus seed rate local enabled) = rn_logline (rl_base lib)"
  by (simp_all add: run_env_def)

lemma soak_run_env_facts [simp]:
  "rn_log (soak_run_env lib cfg enabled) = run_log_path (fc_corpus cfg) (fc_seed cfg)"
  "rn_refuses (soak_run_env lib cfg enabled) = rn_refuses (rl_base lib)"
  "rn_logline (soak_run_env lib cfg enabled) = rn_logline (rl_base lib)"
  "rn_log (run_env.truncate (soak_run_env lib cfg enabled)) = run_log_path (fc_corpus cfg) (fc_seed cfg)"
  by (simp_all add: soak_run_env_def run_env.defs)

text \<open>The hook does not look at the amendments.\<close>

lemma chaos_hook_enabled: "chaos_hook (soak_run_env lib cfg enabled) cenv aj = chaos_hook (soak_run_env lib cfg []) cenv aj"
proof -
  have "chaos_audit_one (soak_run_env lib cfg enabled) aj = chaos_audit_one (soak_run_env lib cfg []) aj"
    by (rule ext)+ (simp add: chaos_audit_one_def soak_run_env_def run_env_def run_env.defs)
  then show ?thesis by (intro ext) (simp add: chaos_hook_def)
qed

lemma open_pool_started:
  assumes "open_pool lib what corpus seed n tiers st = (Some (Inr p), st1)"
  shows "\<not> rn_refuses (rl_base lib) (run_log_path corpus seed) \<and> map_of (rs_disk st1) (run_log_path corpus seed) = Some []
    \<and> rs_step st1 = rs_step st \<and> rs_stats st1 = rs_stats st"
  using assms by (auto simp: open_pool_def NewRunLog_def disk_write_def update_conv' Let_def split: sum.splits if_splits option.splits)

lemma begin_soak_fresh:
  assumes "begin_soak lib cfg alert s d = (Some (Inr (p, enabled)), st)"
  shows "\<not> rn_refuses (rl_base lib) (run_log_path (fc_corpus cfg) (fc_seed cfg))"
    and "rn_log env = run_log_path (fc_corpus cfg) (fc_seed cfg) \<Longrightarrow> fresh_run env st"
proof -
  let ?env = "run_env.truncate (soak_run_env lib cfg [])"
  have log: "is_log_path (rn_log ?env)" by (simp add: run_log_path_ok)
  obtain q st1 where pool: "open_pool lib [] (fc_corpus cfg) (fc_seed cfg) (fc_accounts cfg) (Some (fc_tiers cfg))
      (new_run lib (fc_corpus cfg) (fc_mirror cfg) (fc_seed cfg) alert s d) = (Some (Inr q), st1)"
    and ready: "\<exists>r st2. soak_setup ?env (rl_skip_fund lib) (rl_skip_setup lib) (rl_polls3 lib) (rl_polls2 lib) q st1 = (r, st2)
      \<and> st = st2\<lparr>rs_gen := NewGenerator p\<rparr>"
    using assms by (auto simp: begin_soak_def Let_def set_up_def split: if_splits prod.splits option.splits sum.splits)
  from ready obtain r st2 where "soak_setup ?env (rl_skip_fund lib) (rl_skip_setup lib) (rl_polls3 lib) (rl_polls2 lib) q st1 = (r, st2)"
    and st: "st = st2\<lparr>rs_gen := NewGenerator p\<rparr>" by blast
  note kept = soak_setup_quiet [OF log this(1)] open_pool_started [OF pool]
  from kept show "\<not> rn_refuses (rl_base lib) (run_log_path (fc_corpus cfg) (fc_seed cfg))" by simp
  from kept show "rn_log env = run_log_path (fc_corpus cfg) (fc_seed cfg) \<Longrightarrow> fresh_run env st"
    by (auto simp: st quiet_defs fresh_run_def new_run_def no_stats_def)
qed

lemma fresh_extend: "fresh_run env st \<Longrightarrow> fresh_run env (run_state.extend st m)"
  by (simp add: fresh_run_def run_state.defs)

text \<open>C29: Whatever the nodes answer, a soak run that got through its set-up accounts for every transaction, from the configuration to
  any later moment, with one submitter or with several: the run log named by the corpus directory and the seed holds a row for
  each submission that was answered, the counters of submissions and successes agree with its rows, and each row's step is the
  number of acceptances before it.
\<close>

theorem soak_run_accounted:
  assumes run: "SoakRun lib cfg alert hook h rounds s d = Some (Inr res)"
    and hook: "hook = None \<or> hook = Some (chaos_hook (soak_run_env lib cfg []) cenv aj)"
    and rows: "\<And>e. rn_logline (rl_base lib) e = Inr (line e)"
  shows "case res of
      Serial r \<Rightarrow> (\<forall>st. r = Done st \<longrightarrow> (\<exists>rows. map_of (rs_disk st) (run_log_path (fc_corpus cfg) (fc_seed cfg)) = Some (log_text line rows)
        \<and> steps_follow 0 rows \<and> rs_step st = accepted_rows rows
        \<and> st_submitted (rs_stats st) = int (length rows) \<and> st_succeeded (rs_stats st) = accepted_rows rows))
    | Workers st0 \<Rightarrow> (\<forall>enabled rated sent st. pipe_run (soak_run_env lib cfg enabled) rated st0 sent st \<longrightarrow>
        (\<exists>rows. map_of (rs_disk st) (run_log_path (fc_corpus cfg) (fc_seed cfg)) = Some (log_text line rows)
        \<and> steps_follow 0 rows \<and> st_submitted (rs_stats st) = int (length rows + length (in_flight st)) \<and> st_succeeded (rs_stats st) = accepted_rows rows))"
proof -
  obtain p enabled st1 where start: "begin_soak lib cfg alert s d = (Some (Inr (p, enabled)), st1)"
    using run by (auto simp: SoakRun_def split: prod.splits option.splits sum.splits)
  let ?env = "soak_run_env lib cfg enabled"
  have log: "is_log_path (rn_log env)" if "rn_log env = run_log_path (fc_corpus cfg) (fc_seed cfg)" for env :: "('s, 'e) run_env_scheme"
    using that by (simp add: run_log_path_ok)
  have rows': "\<forall>e. rn_logline (soak_run_env lib cfg en) e = Inr (line e)" for en using rows by simp
  have open_log: "\<not> rn_refuses (soak_run_env lib cfg en) (rn_log (soak_run_env lib cfg en))" for en
    using begin_soak_fresh(1) [OF start] by simp
  have fresh: "fresh_run (soak_run_env lib cfg en) st1" for en
    by (rule begin_soak_fresh(2) [OF start]) simp
  note facts = log [OF soak_run_env_facts(1)] rows' open_log
  show ?thesis
  proof (cases res)
    case (Serial r)
    have loop: "r = soak_loop ?env hook rounds (run_state.extend st1 (soak_state.fields (crash_watch (fc_crash cfg)) h))"
      using run by (auto simp: SoakRun_def start Serial split: if_splits)
    have "\<exists>rows. booked ?env line rows st" if "r = Done st" for st
      by (rule soak_run_books [OF facts fresh_extend [OF fresh]])
        (use hook that loop in \<open>simp_all add: chaos_hook_enabled [of lib cfg enabled]\<close>)
    then show ?thesis by (auto simp: Serial booked_def)
  next
    case (Workers st0)
    have st0: "st0 = concurrent_start (nat (sk_workers cfg)) (crash_watch (fc_crash cfg)) st1"
      using run by (auto simp: SoakRun_def start Workers split: if_splits)
    have "\<exists>rows. pipe_booked (soak_run_env lib cfg en) line rows sent st" if "pipe_run (soak_run_env lib cfg en) rated st0 sent st" for en rated sent st
      using that pipe_run_ok [OF _ facts fresh_booked [OF fresh]] unfolding st0 by blast
    then show ?thesis by (fastforce simp: Workers pipe_booked_def)
  qed
qed

section \<open>A run from its configuration\<close>

definition only_wallet :: wallet where
  "only_wallet = \<lparr>w_index = 0, w_address = ''rA'', w_seed = ''sA'', w_pubkey = [], w_tier = Rich\<rparr>"

definition one_lib :: "reply list run_lib" where
  "one_lib = \<lparr>rl_client = (\<lambda>_. scripted), rl_derive = (\<lambda>_ i. Inr only_wallet),
     rl_tape = (\<lambda>_. [0, 0, 0]), rl_base = run_env.truncate sample_soak, rl_rt = so_rt sample_soak, rl_polls3 = 3, rl_polls2 = 2,
     rl_skip_fund = True, rl_skip_setup = True\<rparr>"

definition sample_cfg :: "int \<Rightarrow> soak_config" where
  "sample_cfg workers = \<lparr>fc_nodes = [''http://a:1'', ''http://b:2''], fc_submit = ''http://a:1'', fc_seed = 7, fc_accounts = 1, fc_tx_count = 0,
     fc_corpus = ''c'', fc_mirror = [], fc_batch = 0, fc_mutation = 0,
     fc_tiers = \<lparr>tw_Rich = 0, tw_AtReserve = 0, tw_Multisig = 0, tw_RegularKey = 0, tw_Blackholed = 0\<rparr>, fc_crash = None, fc_local = False,
     fc_webhook = None, sk_rate = 0, sk_rotate = 0, sk_stall = 0, sk_sample = 0, sk_min_peers = 1, sk_oracles = [''peer_health''], sk_workers = workers\<rparr>"

lemma sample_pool:
  "NewPool (rl_derive one_lib) seed 1 = Inr [only_wallet]"
  "AssignTiers [only_wallet] (fc_tiers (sample_cfg workers)) = Some [only_wallet]"
  by (simp_all add: NewPool_def one_lib_def ebind_def sample_cfg_def AssignTiers_def weights_total_def wrap64_def only_wallet_def)

lemma sample_opened: "\<exists>dk. open_pool one_lib [] ''c'' 7 1 (Some (fc_tiers (sample_cfg workers))) (new_run one_lib ''c'' [] 7 None w []) =
    (Some (Inr [only_wallet]), (new_run one_lib ''c'' [] 7 None w [])\<lparr>rs_disk := dk\<rparr>)"
proof -
  have "\<not> rn_refuses (rl_base one_lib) q" for q by (simp add: one_lib_def sample_soak_def run_env.defs)
  then show ?thesis by (auto simp: open_pool_def sample_pool NewRunLog_def disk_write_def ewrap_def Let_def)
qed

lemma sample_begin: "\<exists>st. begin_soak one_lib (sample_cfg workers) None w [] = (Some (Inr ([only_wallet], [])), st)
   \<and> rs_world st = w \<and> rs_tape st = [0, 0, 0] \<and> rs_step st = 0 \<and> st_submitted (rs_stats st) = 0 \<and> st_succeeded (rs_stats st) = 0"
proof -
  obtain dk where opened: "open_pool one_lib [] ''c'' 7 1 (Some (fc_tiers (sample_cfg workers))) (new_run one_lib ''c'' [] 7 None w []) =
    (Some (Inr [only_wallet]), (new_run one_lib ''c'' [] 7 None w [])\<lparr>rs_disk := dk\<rparr>)" using sample_opened by blast
  have cfg: "length (fc_nodes (sample_cfg workers)) = 2" "fc_corpus (sample_cfg workers) = ''c''" "fc_mirror (sample_cfg workers) = []"
    "fc_seed (sample_cfg workers) = 7" "fc_accounts (sample_cfg workers) = 1" by (simp_all add: sample_cfg_def)
  show ?thesis by (simp add: begin_soak_def Let_def set_up_def cfg opened soak_setup_def) (simp add: one_lib_def new_run_def no_stats_def)
qed

text \<open>One acceptance.\<close>

abbreviation one_env :: "reply list soak_env" where
  "one_env \<equiv> sample_soak\<lparr>rn_nodes := [(''a'', scripted), (''b'', scripted)], so_state_diff := False\<rparr>"

lemma one_env: "soak_run_env one_lib (sample_cfg workers) [] = one_env"
  by (simp add: soak_run_env_def run_env_def run_nodes_def nodeName_def trim_prefix_def has_prefix_def Let_def one_lib_def sample_cfg_def sample_soak_def run_env.defs
    oracleEnabled_def)

lemma one_round:
  assumes "rs_world st = short_reply ''tesSUCCESS'' # w" and "rs_tape st = 0 # tp" and "rs_step st = 0"
  shows "\<exists>st'. soak_iter one_env None st = Done st' \<and> st_submitted (rs_stats st') = st_submitted (rs_stats st) + 1
    \<and> st_succeeded (rs_stats st') = st_succeeded (rs_stats st) + 1"
proof -
  have parts: "draw_tx one_env s g (0 # tp) = (Done (sample_tx, False), tp)"
    "submit_tx one_env sample_tx (short_reply ''tesSUCCESS'' # w) = (Inr (short_result ''tesSUCCESS''), sample_tx, w)"
    "record_success one_env sample_tx (short_result ''tesSUCCESS'') x = x"
    "soak_rotate one_env x = x" "soak_check one_env (short_result ''tesSUCCESS'', t) x = x" for s g x t
    using sample_draw [of s g tp] sample_submit [of "''tesSUCCESS''" w] sample_recorded [of "''tesSUCCESS''" x]
    by (simp_all add: draw_tx_def submit_tx_def record_success_def soak_rotate_def soak_check_def sample_soak_def)
  from assms show ?thesis
    by (cases st) (simp add: soak_iter_def parts submit_step_def Let_def landed_def accepted_def soak_landed_def append_log_def soak_periodic_def)
qed

theorem soak_run_accounted_witness:
  "\<exists>st rows. SoakRun one_lib (sample_cfg 1) None None (chaos_part_start [] ''c'' 7) 1 [short_reply ''tesSUCCESS''] [] = Some (Inr (Serial (Done st)))
     \<and> map_of (rs_disk st) (run_log_path ''c'' 7) = Some (log_text (\<lambda>_. ''{}'') rows) \<and> length rows = 1 \<and> accepted_rows rows = 1"
proof -
  obtain st where st: "begin_soak one_lib (sample_cfg 1) None [short_reply ''tesSUCCESS''] [] = (Some (Inr ([only_wallet], [])), st)"
    and parts: "rs_world st = [short_reply ''tesSUCCESS'']" "rs_tape st = [0, 0, 0]" "rs_step st = 0" "st_submitted (rs_stats st) = 0" "st_succeeded (rs_stats st) = 0"
    using sample_begin by blast
  let ?st = "run_state.extend st (soak_state.fields None (chaos_part_start [] ''c'' 7))"
  have "rs_world ?st = [short_reply ''tesSUCCESS'']" "rs_tape ?st = 0 # [0, 0]" "rs_step ?st = 0" and zero: "st_submitted (rs_stats ?st) = 0" "st_succeeded (rs_stats ?st) = 0"
    using parts by (simp_all add: run_state.defs)
  from one_round [OF this(1-3)] zero obtain st' where st': "soak_iter one_env None ?st = Done st'" "st_submitted (rs_stats st') = 1" "st_succeeded (rs_stats st') = 1"
    by auto
  have cfg: "fc_crash (sample_cfg 1) = None" "sk_workers (sample_cfg 1) = 1" by (simp_all add: sample_cfg_def)
  from st' have run: "SoakRun one_lib (sample_cfg 1) None None (chaos_part_start [] ''c'' 7) 1 [short_reply ''tesSUCCESS''] [] = Some (Inr (Serial (Done st')))"
    using parts cfg by (simp add: SoakRun_def st one_env crash_watch_def sample_not_cancelled run_state.defs)
  have "rn_logline (rl_base one_lib) e = Inr ((\<lambda>_. ''{}'') e)" for e by (simp add: one_lib_def sample_soak_def run_env.defs)
  from soak_run_accounted [where line = "\<lambda>_. ''{}''", OF run disjI1 [OF refl] this] st' run show ?thesis by (auto simp: sample_cfg_def)
qed

text \<open>
  A soak run told to watch the peers only still raises stalls: the threshold it sets to nought is read as the default of a
  minute, so a minute without a new ledger is reported.
\<close>

theorem disabled_stall_oracle_fires:
  assumes "\<not> oracleEnabled (sk_oracles cfg) ''consensus_liveness''" and "oracleEnabled (sk_oracles cfg) ''peer_health''" and "0 < sk_min_peers cfg"
  shows "\<exists>l. soak_liveness cfg = Some l \<and> stall_threshold l = 60 * Liveness.second
    \<and> (\<forall>now snaps ms. max_seq snaps \<le> ms_high_seq ms \<longrightarrow> 60 * Liveness.second \<le> now - ms_high_time ms \<longrightarrow> ms_stall_fired ms = None \<longrightarrow>
        (\<exists>e. fst (monitor_tick l now snaps ms) = Some e \<and> le_kind e = ConsensusStall))"
proof -
  let ?l = "\<lparr>lf_threshold = 0, lf_peers = sk_min_peers cfg, lf_cooldown = 0\<rparr>"
  have l: "soak_liveness cfg = Some ?l" "stall_threshold ?l = 60 * Liveness.second"
    using assms by (simp_all add: soak_liveness_def stall_threshold_def)
  have "\<exists>e. fst (monitor_tick ?l now snaps ms) = Some e \<and> le_kind e = ConsensusStall"
    if "max_seq snaps \<le> ms_high_seq ms" "60 * Liveness.second \<le> now - ms_high_time ms" "ms_stall_fired ms = None" for now snaps ms
  proof -
    obtain ev ms' where tick: "monitor_tick ?l now snaps ms = (ev, ms')" by fastforce
    from monitor_tick_stall [OF tick] that l(2) have "is_stall (now, snaps, ev)" by (simp add: cooled_def)
    with tick show ?thesis by (auto simp: is_stall_def split: option.splits)
  qed
  with l show ?thesis by blast
qed

theorem disabled_stall_oracle_fires_witness:
  "\<exists>l e. soak_liveness (sample_cfg 1) = Some l
    \<and> fst (monitor_tick l (60 * Liveness.second) [] (monitor_init 0)) = Some e \<and> le_kind e = ConsensusStall"
proof -
  have "\<not> oracleEnabled (sk_oracles (sample_cfg 1)) ''consensus_liveness''" "oracleEnabled (sk_oracles (sample_cfg 1)) ''peer_health''" "0 < sk_min_peers (sample_cfg 1)"
    by (simp_all add: oracleEnabled_def sample_cfg_def)
  from disabled_stall_oracle_fires [OF this] obtain l where "soak_liveness (sample_cfg 1) = Some l"
    and stall: "max_seq snaps \<le> ms_high_seq ms \<Longrightarrow> 60 * Liveness.second \<le> now - ms_high_time ms \<Longrightarrow> ms_stall_fired ms = None \<Longrightarrow>
      \<exists>e. fst (monitor_tick l now snaps ms) = Some e \<and> le_kind e = ConsensusStall" for now snaps ms by blast
  moreover have "max_seq [] \<le> ms_high_seq (monitor_init 0)" "60 * Liveness.second \<le> 60 * Liveness.second - ms_high_time (monitor_init 0)"
    "ms_stall_fired (monitor_init 0) = None" by (simp_all add: monitor_init_def max_seq_def)
  ultimately show ?thesis by blast
qed

end
