(* ===== verification/Kurtosis.thy ===== *)
theory Kurtosis
  imports Handlers
begin

text \<open>
  The layer over the \<open>kurtosis\<close> command line (\<open>sidecar/internal/kurtosis\<close>): the calls that inspect and remove enclaves
  (\<open>enclave.go\<close>), and \<open>kurtosis run\<close> with its watchdog and its retries (\<open>run.go\<close>). What the command does is a parameter:
  its output with the times it was written at, when and how it ends, and how it ends when it is killed.
\<close>

section \<open>The command line\<close>

text \<open>Times are nanoseconds from the start of the command. \<open>cr_killed\<close>: the error and the two streams when the context is
  cancelled at a time; \<open>cr_err\<close> and the streams are those of a command left alone.\<close>

record cli_run =
  cr_writes :: "int list"
  cr_end :: int
  cr_err :: "unit go_result"
  cr_out :: string
  cr_errout :: string
  cr_killed :: "int \<Rightarrow> unit go_result \<times> string \<times> string"

type_synonym 's cli = "string list \<Rightarrow> 's \<Rightarrow> cli_run \<times> 's"

definition scan_lines :: "string \<Rightarrow> string list" where
  "scan_lines s = map drop_cr (takeWhile (\<lambda>l. length l < maxToken) (split_nl [] s))"

text \<open>\<open>strings.Cut\<close> at the first occurrence, \<open>strings.Fields\<close> and \<open>strings.TrimRight\<close>.\<close>

fun cut :: "string \<Rightarrow> string \<Rightarrow> (string \<times> string) option" where
  "cut sep [] = (if sep = [] then Some ([], []) else None)"
| "cut sep (c # cs) = (if prefix sep (c # cs) then Some ([], drop (length sep) (c # cs))
     else map_option (\<lambda>(a, b). (c # a, b)) (cut sep cs))"

fun words :: "string \<Rightarrow> string list" where
  "words [] = []"
| "words (c # cs) = (if is_space c then words cs
     else (case cs of [] \<Rightarrow> [[c]]
       | d # ds \<Rightarrow> if is_space d then [c] # words cs
           else (case words cs of [] \<Rightarrow> [[c]] | w # ws \<Rightarrow> (c # w) # ws)))"

definition trim_right :: "char \<Rightarrow> string \<Rightarrow> string" where
  "trim_right c s = rev (dropWhile (\<lambda>d. d = c) (rev s))"

section \<open>Inspecting enclaves\<close>

record service_info =
  si_name :: string
  si_uuid :: string
  si_ip :: string
  si_urls :: "(string \<times> string) list"

definition cutField :: "string \<Rightarrow> string \<Rightarrow> (string \<times> string) option" where
  "cutField line sep = map_option (\<lambda>(a, b). (trim_space (a @ butlast sep), trim_space b)) (cut sep line)"

definition port_url :: "string \<Rightarrow> service_info \<Rightarrow> service_info" where
  "port_url line info = (case cut '':'' (trim_space line) of
      None \<Rightarrow> info
    | Some (name, rest) \<Rightarrow> (case cut ''->'' rest of
        None \<Rightarrow> info
      | Some (_, url) \<Rightarrow> info\<lparr>si_urls := AList.update (trim_space name) (trim_space url) (si_urls info)\<rparr>))"

definition field_is :: "string \<Rightarrow> string \<Rightarrow> string option" where
  "field_is line sep = (case cutField line sep of Some (k, v) \<Rightarrow> if k = butlast sep then Some v else None | None \<Rightarrow> None)"

definition inspect_line :: "string \<Rightarrow> service_info \<times> bool \<Rightarrow> service_info \<times> bool" where
  "inspect_line line st = (case st of (info, ports) \<Rightarrow>
     (case field_is line ''UUID:'' of Some v \<Rightarrow> (info\<lparr>si_uuid := v\<rparr>, ports)
      | None \<Rightarrow> (case field_is line ''IP Address:'' of Some v \<Rightarrow> (info\<lparr>si_ip := v\<rparr>, ports)
      | None \<Rightarrow> if trim_space line = ''Ports:'' then (info, True)
          else (let inside = ports \<and> (line = [] \<or> hd line = CHR '' '' \<or> of_char (hd line) = (9 :: nat))
                in (if inside then port_url line info else info, inside)))))"

definition InspectService :: "'s cli \<Rightarrow> string \<Rightarrow> string \<Rightarrow> 's \<Rightarrow> service_info go_result \<times> 's" where
  "InspectService cli enclave service s = (case cli [''service'', ''inspect'', enclave, service] s of (r, s') \<Rightarrow>
     (case cr_err r of
        Inl e \<Rightarrow> (Inl (''kurtosis service inspect: '' @ e @ [newline] @ cr_errout r), s')
      | Inr _ \<Rightarrow>
          (let info = fst (fold inspect_line (scan_lines (cr_out r)) (\<lparr>si_name = service, si_uuid = [], si_ip = [], si_urls = []\<rparr>, False))
           in if si_uuid info = [] \<and> si_ip info = [] \<and> si_urls info = []
              then (Inl (''kurtosis service inspect '' @ enclave @ ''/'' @ service @ '': no UUID, IP Address, or Ports found in output''), s')
              else (Inr info, s'))))"

definition enclave_line :: "string \<Rightarrow> string list \<times> bool \<Rightarrow> string list \<times> bool" where
  "enclave_line line st = (case st of (names, inside) \<Rightarrow>
     (let trimmed = trim_space line in
      if trimmed = [] then (names, inside)
      else if contains (to_lower line) ''services'' then (names, True)
      else if \<not> inside \<or> has_prefix trimmed ''-'' \<or> has_prefix trimmed ''Name'' \<or> has_prefix trimmed ''UUID'' then (names, inside)
      else (case words trimmed of [] \<Rightarrow> (names, inside) | w # _ \<Rightarrow> (names @ [w], inside))))"

text \<open>The names of the services of an enclave.\<close>

definition InspectEnclave :: "'s cli \<Rightarrow> string \<Rightarrow> 's \<Rightarrow> string list go_result \<times> 's" where
  "InspectEnclave cli enclave s = (case cli [''enclave'', ''inspect'', enclave] s of (r, s') \<Rightarrow>
     (case cr_err r of
        Inl e \<Rightarrow> (Inl (''kurtosis enclave inspect: '' @ e @ [newline] @ cr_errout r), s')
      | Inr _ \<Rightarrow> (Inr (fst (fold enclave_line (scan_lines (cr_out r)) ([], False))), s')))"

definition rm_args :: "string \<Rightarrow> string list" where
  "rm_args enclave = [''enclave'', ''rm'', ''-f'', enclave]"

text \<open>The texts by which \<open>kurtosis\<close> says that there is no such enclave.\<close>

definition no_enclave :: "string \<Rightarrow> bool" where
  "no_enclave text = list_ex (contains (to_lower text)) [''not found'', ''no such enclave'', ''no enclave found with identifier'',
     ''doesn'' @ [CHR 0x27] @ ''t exist'']"

definition RemoveEnclave :: "'s cli \<Rightarrow> string \<Rightarrow> 's \<Rightarrow> unit go_result \<times> 's" where
  "RemoveEnclave cli enclave s = (case cli (rm_args enclave) s of (r, s') \<Rightarrow>
     ((case cr_err r of
         Inr _ \<Rightarrow> Inr ()
       | Inl e \<Rightarrow> if no_enclave (cr_errout r) then Inr () else Inl (''kurtosis enclave rm: '' @ e @ [newline] @ cr_errout r)), s'))"

definition name_column :: "string list \<Rightarrow> nat" where
  "name_column hs = (case find (\<lambda>i. to_lower (hs ! i) = ''name'') [0 ..< length hs] of None \<Rightarrow> 1 | Some i \<Rightarrow> i)"

text \<open>The first line that is not blank is the header.\<close>

definition enclave_names :: "string \<Rightarrow> string list" where
  "enclave_names out = (case filter (\<lambda>l. trim_space l \<noteq> []) (scan_lines out) of
      [] \<Rightarrow> []
    | h # rows \<Rightarrow> (let i = name_column (words h) in
        concat (map (\<lambda>l. let ws = words l in if length ws \<le> i then [] else [ws ! i]) rows)))"

definition ls_args :: "string list" where
  "ls_args = [''enclave'', ''ls'']"

definition ListEnclaves :: "'s cli \<Rightarrow> 's \<Rightarrow> string list go_result \<times> 's" where
  "ListEnclaves cli s = (case cli ls_args s of (r, s') \<Rightarrow>
     ((case cr_err r of
         Inl e \<Rightarrow> Inl (''kurtosis enclave ls: '' @ e @ [newline] @ cr_errout r)
       | Inr _ \<Rightarrow> Inr (enclave_names (cr_out r))), s'))"

section \<open>The watchdog\<close>

text \<open>The ticks of the watchdog; the clock of the ticker and of the output is the same. A ticker without a positive
  period panics: \<open>None\<close> for a threshold of one to three nanoseconds (the test that would avoid it comes after it).\<close>

definition tick_period :: "int \<Rightarrow> int" where
  "tick_period threshold = threshold div 4"

definition last_active :: "int list \<Rightarrow> int \<Rightarrow> int" where
  "last_active writes t = fold max (filter (\<lambda>w. w \<le> t) writes) 0"

definition hang_tick :: "int \<Rightarrow> int list \<Rightarrow> int \<Rightarrow> int option" where
  "hang_tick threshold writes stop = (let p = tick_period threshold in
     find (\<lambda>t. t < stop \<and> threshold \<le> t - last_active writes t) (map (\<lambda>k. int k * p) [1 ..< Suc (nat (stop div p))]))"

definition runWithWatchdog :: "int \<Rightarrow> cli_run \<Rightarrow> (unit go_result \<times> string \<times> string \<times> int option) option" where
  "runWithWatchdog threshold r =
     (if threshold \<le> 0 then Some (cr_err r, cr_out r, cr_errout r, None)
      else if tick_period threshold \<le> 0 then None
      else Some (case hang_tick threshold (cr_writes r) (cr_end r) of
          None \<Rightarrow> (cr_err r, cr_out r, cr_errout r, None)
        | Some t \<Rightarrow> (case cr_killed r t of
            (Inr _, out, err) \<Rightarrow> (Inr (), out, err, None)
          | (Inl e, out, err) \<Rightarrow> (Inl e, out, err, Some (t - last_active (cr_writes r) t)))))"

section \<open>Running a package\<close>

record run_error =
  re_err :: string
  re_stdout :: string
  re_stderr :: string
  re_boot_hang :: bool

record boot_opts =
  bo_enclave :: string
  bo_package :: string
  bo_args :: string
  bo_verbose :: bool
  bo_tear_down :: bool
  bo_attempts :: int
  bo_hang :: int

definition lastLines :: "string \<Rightarrow> nat \<Rightarrow> string" where
  "lastLines s n = (let t = trim_right newline s; ls = split_on newline t in
     if t = [] then [] else if length ls \<le> n then t else str_join [newline] (drop (length ls - n) ls))"

definition run_error_text :: "run_error \<Rightarrow> string" where
  "run_error_text e =
     (if re_boot_hang e then ''kurtosis run: boot watchdog tripped (no output past threshold): '' else ''kurtosis run: '') @ re_err e
     @ (let s = lastLines (re_stderr e) 50 in if s = [] then [] else [newline] @ ''stderr:'' @ [newline] @ s)
     @ (let s = lastLines (re_stdout e) 50 in if s = [] then [] else [newline] @ ''stdout (tail):'' @ [newline] @ s)"

definition transientMarkers :: "string list" where
  "transientMarkers = [''signal: killed'', ''context deadline exceeded'', ''Error uploading package'',
     ''sending '' @ [CHR 0x27] @ ''github.com/XRPL-Commons/xrpl-confluence'' @ [CHR 0x27], ''empty bridge network IP'', ''EOF'']"

definition IsTransient :: "run_error \<Rightarrow> bool" where
  "IsTransient e \<longleftrightarrow> re_boot_hang e
     \<or> list_ex (contains (re_stdout e @ [newline] @ re_stderr e @ [newline] @ re_err e)) transientMarkers"

definition starlarkFailed :: "string \<Rightarrow> bool" where
  "starlarkFailed out = list_ex (\<lambda>l. list_ex (has_prefix (trim_space l)) [''There was an error interpreting Starlark code'',
     ''There was an error executing Starlark code'', ''Error encountered running Starlark code'']) (split_on newline out)"

definition run_args :: "boot_opts \<Rightarrow> string list" where
  "run_args opt = [''run'', ''--enclave'', bo_enclave opt] @ (if bo_verbose opt then [''-v''] else []) @ [bo_package opt]
     @ (if bo_args opt = [] then [] else [bo_args opt])"

text \<open>One attempt: what the command made of it.\<close>

definition attempt_run :: "boot_opts \<Rightarrow> cli_run \<Rightarrow> (run_error + (string \<times> string)) option" where
  "attempt_run opt r = map_option (\<lambda>(res, out, err, hang).
     (case (if \<not> isl res \<and> starlarkFailed (out @ [newline] @ err) then Inl ''Kurtosis reported a Starlark failure'' else res) of
        Inr _ \<Rightarrow> Inr (out, err)
      | Inl e \<Rightarrow> Inl \<lparr>re_err = e, re_stdout = out, re_stderr = err, re_boot_hang = (hang \<noteq> None)\<rparr>))
     (runWithWatchdog (bo_hang opt) r)"

text \<open>The attempts that are left; \<open>wait\<close> is the pause before the next one, \<open>False\<close> when the context ended in it.
  \<open>None\<close>: a panic of the watchdog.\<close>

type_synonym run_outcome = "(string + run_error) + (string \<times> string)"

fun attempts :: "'s cli \<Rightarrow> ('s \<Rightarrow> bool) \<Rightarrow> ('s \<Rightarrow> bool \<times> 's) \<Rightarrow> boot_opts \<Rightarrow> nat \<Rightarrow> bool \<Rightarrow> 's \<Rightarrow> run_outcome option \<times> 's" where
  "attempts cli cancelled wait opt 0 again s = (Some (Inl (Inl [])), s)"
| "attempts cli cancelled wait opt (Suc left) again s =
     (case (if bo_tear_down opt \<or> again then RemoveEnclave cli (bo_enclave opt) s else (Inr (), s)) of
        (Inl e, s1) \<Rightarrow> (Some (Inl (Inl e)), s1)
      | (Inr _, s1) \<Rightarrow> (case cli (run_args opt) s1 of (r, s2) \<Rightarrow>
          (case attempt_run opt r of
             None \<Rightarrow> (None, s2)
           | Some (Inr res) \<Rightarrow> (Some (Inr res), s2)
           | Some (Inl e) \<Rightarrow>
               if (cancelled s2 \<and> \<not> re_boot_hang e) \<or> left = 0 \<or> \<not> IsTransient e then (Some (Inl (Inr e)), s2)
               else (case wait s2 of
                   (False, s3) \<Rightarrow> (Some (Inl (Inr e)), s3)
                 | (True, s3) \<Rightarrow> attempts cli cancelled wait opt left True s3))))"

definition kurtosis_Run :: "'s cli \<Rightarrow> ('s \<Rightarrow> bool) \<Rightarrow> ('s \<Rightarrow> bool \<times> 's) \<Rightarrow> boot_opts \<Rightarrow> 's \<Rightarrow> run_outcome option \<times> 's" where
  "kurtosis_Run cli cancelled wait opt s = attempts cli cancelled wait opt (nat (max 1 (bo_attempts opt))) False s"

section \<open>What the watchdog promises\<close>

lemma fold_max: "fold max ws (m :: int) = Max (insert m (set ws))"
proof (induction ws arbitrary: m)
  case (Cons w ws)
  have "Max (insert (max w m) (set ws)) = max w (Max (insert m (set ws)))"
    by (cases "ws = []") (simp_all add: max.assoc)
  moreover have "Max (insert w (insert m (set ws))) = max w (Max (insert m (set ws)))" by (rule Max_insert) auto
  moreover have "set (w # ws) = insert w (set ws)" by simp
  ultimately show ?case using Cons by (metis fold_simps(2) insert_commute)
qed simp

lemma last_active_bounds:
  "0 \<le> last_active writes t" "w \<in> set writes \<Longrightarrow> w \<le> t \<Longrightarrow> w \<le> last_active writes t"
  "last_active writes t = 0 \<or> (last_active writes t \<in> set writes \<and> last_active writes t \<le> t)"
proof -
  let ?A = "insert 0 (set (filter (\<lambda>w. w \<le> t) writes))"
  have m: "last_active writes t = Max ?A" by (simp add: last_active_def fold_max)
  then show "0 \<le> last_active writes t" by simp
  show "w \<in> set writes \<Longrightarrow> w \<le> t \<Longrightarrow> w \<le> last_active writes t" unfolding m by (intro Max_ge) auto
  have "Max ?A \<in> ?A" by (intro Max_in) auto
  then show "last_active writes t = 0 \<or> (last_active writes t \<in> set writes \<and> last_active writes t \<le> t)" unfolding m by auto
qed

lemma hang_tick_Some:
  assumes "hang_tick threshold writes stop = Some t"
  shows "t < stop" "threshold \<le> t - last_active writes t"
  using assms by (auto simp: hang_tick_def Let_def find_Some_iff)

text \<open>The first tick of a ticker after a time.\<close>

lemma tick_after:
  assumes "0 < p" "0 \<le> (u :: int)"
  obtains k where "1 \<le> k" "u < int k * p" "int k * p \<le> u + p"
proof -
  obtain q r where q: "u = p * q + r" "0 \<le> q" "0 \<le> r" "r < p"
    using assms by (metis mult_div_mod_eq pos_imp_zdiv_nonneg_iff pos_mod_bound pos_mod_sign)
  show ?thesis by (rule that [of "Suc (nat q)"]) (use q in \<open>simp_all add: algebra_simps\<close>)
qed

lemma last_active_quiet:
  assumes "\<And>x. x \<in> set writes \<Longrightarrow> \<not> (w < x \<and> x \<le> t)" "0 \<le> w"
  shows "last_active writes t \<le> w"
  using assms last_active_bounds(3) [of writes t] by force

text \<open>C18: The watchdog kills only a silent command, and every silent one: when it fires, the command had not ended and had
  written nothing for the whole threshold; and a command that is still running after a threshold and a tick without
  output has been killed by then.
\<close>

theorem watchdog_kills_silent:
  assumes "4 \<le> threshold"
  shows "(\<forall>t. hang_tick threshold writes stop = Some t \<longrightarrow>
        t < stop \<and> threshold \<le> t \<and> (\<forall>x \<in> set writes. \<not> (t - threshold < x \<and> x \<le> t)))
    \<and> (\<forall>w \<ge> 0. w + threshold + tick_period threshold < stop
        \<and> (\<forall>x \<in> set writes. \<not> (w < x \<and> x \<le> w + threshold + tick_period threshold))
        \<longrightarrow> (\<exists>t. hang_tick threshold writes stop = Some t \<and> t \<le> w + threshold + tick_period threshold))"
proof (intro conjI allI impI)
  fix t
  assume "hang_tick threshold writes stop = Some t"
  note t = hang_tick_Some [OF this]
  show "t < stop" by (fact t(1))
  show "threshold \<le> t" using t(2) last_active_bounds(1) [of writes t] by linarith
  show "\<forall>x \<in> set writes. \<not> (t - threshold < x \<and> x \<le> t)" using t(2) last_active_bounds(2) [of _ writes t] by force
next
  fix w :: int
  let ?p = "tick_period threshold"
  assume "0 \<le> w"
    and w: "w + threshold + ?p < stop \<and> (\<forall>x \<in> set writes. \<not> (w < x \<and> x \<le> w + threshold + ?p))"
  have p: "0 < ?p" using assms by (simp add: tick_period_def)
  obtain k where k: "1 \<le> k" "w + threshold < int k * ?p" "int k * ?p \<le> w + threshold + ?p"
    using tick_after [OF p, of "w + threshold"] \<open>0 \<le> w\<close> assms by auto
  let ?ts = "map (\<lambda>k. int k * ?p) [1 ..< Suc (nat (stop div ?p))]" and ?P = "\<lambda>t. t < stop \<and> threshold \<le> t - last_active writes t"
  have "int k * ?p div ?p \<le> stop div ?p" using k(3) w p by (intro zdiv_mono1) auto
  then have "int k \<le> stop div ?p" using p by simp
  then have n: "k \<le> nat (stop div ?p)" by simp
  have "[1 ..< Suc (nat (stop div ?p))] ! (k - 1) = 1 + (k - 1)" by (rule nth_upt) (use n k(1) in simp)
  then have i: "k - 1 < length ?ts" "?ts ! (k - 1) = int k * ?p" using k(1) n by (simp_all del: upt_Suc)
  have "last_active writes (int k * ?p) \<le> w" using k(3) w \<open>0 \<le> w\<close> by (intro last_active_quiet) auto
  then have "?P (int k * ?p)" using k w by auto
  then have "?P (?ts ! (k - 1))" unfolding i(2) .
  moreover have "?ts ! (k - 1) \<in> set ?ts" using i(1) by (rule nth_mem)
  ultimately have "find ?P ?ts \<noteq> None" unfolding find_None_iff by blast
  then obtain t where t: "find ?P ?ts = Some t" by blast
  then obtain j where j: "j < length ?ts" "t = ?ts ! j" "\<forall>i < j. \<not> ?P (?ts ! i)" unfolding find_Some_iff by blast
  have "j \<le> k - 1" using j(3) \<open>?P (?ts ! (k - 1))\<close> by (meson not_le)
  moreover have "?ts ! j = int (1 + j) * ?p" using j(1) by (simp del: upt_Suc)
  ultimately have "t \<le> int k * ?p" using j(2) k(1) p by (simp add: mult_right_mono)
  then show "\<exists>t. hang_tick threshold writes stop = Some t \<and> t \<le> w + threshold + ?p"
    using t k(3) by (auto simp: hang_tick_def Let_def)
qed

section \<open>What the retries promise\<close>

text \<open>A command line that keeps a log of its calls.\<close>

definition logging :: "'s cli \<Rightarrow> ('s \<times> string list list) cli" where
  "logging cli args sl = (case cli args (fst sl) of (r, s') \<Rightarrow> (r, (s', snd sl @ [args])))"

lemma RemoveEnclave_logs:
  "RemoveEnclave (logging cli) e (s, l) = (r, (s', l')) \<Longrightarrow> l' = l @ [rm_args e]"
  by (auto simp: RemoveEnclave_def logging_def split: prod.splits)

lemma rm_not_run: "rm_args e \<noteq> run_args opt"
  by (simp add: rm_args_def run_args_def)

text \<open>The calls of the attempts: a removal, when one is due, and a run, again and again; a removal that fails ends them.\<close>

definition attempt_calls :: "boot_opts \<Rightarrow> bool \<Rightarrow> nat \<Rightarrow> string list list" where
  "attempt_calls opt again n = (if n = 0 then [] else
     (if bo_tear_down opt \<or> again then [rm_args (bo_enclave opt)] else []) @ [run_args opt]
     @ concat (replicate (n - 1) [rm_args (bo_enclave opt), run_args opt]))"

lemma attempt_calls_Suc:
  "attempt_calls opt again (Suc n) = (if bo_tear_down opt \<or> again then [rm_args (bo_enclave opt)] else []) @ [run_args opt]
     @ attempt_calls opt True n"
  by (cases n) (simp_all add: attempt_calls_def)

lemma attempts_calls:
  assumes "attempts (logging cli) cancelled wait opt left again (s, l) = (r, (s', l'))"
    and "\<And>s l. snd (snd (wait (s, l))) = l"
  shows "\<exists>n \<le> left. l' = l @ attempt_calls opt again n \<and> (left \<noteq> 0 \<longrightarrow> 0 < n)
      \<or> n < left \<and> l' = l @ attempt_calls opt again n @ [rm_args (bo_enclave opt)] \<and> (\<exists>e. r = Some (Inl (Inl e)))"
  using assms(1)
proof (induction left arbitrary: again s l)
  case 0
  then show ?case by (simp add: attempt_calls_def)
next
  case (Suc left)
  let ?due = "bo_tear_down opt \<or> again"
  obtain q s1 l1 where rm: "(if ?due then RemoveEnclave (logging cli) (bo_enclave opt) (s, l) else (Inr (), (s, l))) = (q, (s1, l1))"
    by (metis surj_pair)
  have l1: "l1 = l @ (if ?due then [rm_args (bo_enclave opt)] else [])"
    using rm RemoveEnclave_logs [of cli "bo_enclave opt" s l q s1 l1] by (auto split: if_splits)
  show ?case
  proof (cases q)
    case (Inl e)
    with rm have "?due" by (auto split: if_splits)
    then show ?thesis using Suc.prems rm Inl l1
      by (intro exI [of _ 0]) (auto simp: attempt_calls_def split: if_splits)
  next
    case (Inr u)
    obtain c s2 where c: "cli (run_args opt) s1 = (c, s2)" by fastforce
    have call: "logging cli (run_args opt) (s1, l1) = (c, (s2, l1 @ [run_args opt]))" by (simp add: logging_def c)
    have one: "l1 @ [run_args opt] = l @ attempt_calls opt again 1" using l1 by (simp add: attempt_calls_def)
    show ?thesis
    proof (cases "l' = l @ attempt_calls opt again 1")
      case True
      then show ?thesis by (intro exI [of _ 1]) simp
    next
      case False
      obtain go s3 l3 where w: "wait (s2, l1 @ [run_args opt]) = (go, (s3, l3))" by (metis surj_pair)
      have l3: "l3 = l1 @ [run_args opt]" using assms(2) [of s2 "l1 @ [run_args opt]"] w by simp
      have "attempts (logging cli) cancelled wait opt left True (s3, l3) = (r, (s', l'))"
        using Suc.prems False unfolding attempts.simps rm Inr sum.case prod.case call
        by (auto simp: one w [unfolded one One_nat_def] l3 split: option.splits sum.splits if_splits bool.splits)
      from Suc.IH [OF this] obtain n where n: "n \<le> left \<and> l' = l3 @ attempt_calls opt True n
          \<or> n < left \<and> l' = l3 @ attempt_calls opt True n @ [rm_args (bo_enclave opt)] \<and> (\<exists>e. r = Some (Inl (Inl e)))"
        by blast
      then show ?thesis unfolding l3 l1 by (intro exI [of _ "Suc n"]) (auto simp: attempt_calls_Suc)
    qed
  qed
qed

text \<open>C19: \<open>kurtosis run\<close> is called once at least and as often as allowed at most; every call but the first comes right after the
  removal of the enclave, and with tearing down asked for the first does too. Nothing is called after a result.
\<close>

theorem run_bounded_and_clean:
  assumes "kurtosis_Run (logging cli) cancelled wait opt (s, []) = (r, (s', calls))"
    and "\<And>s l. snd (snd (wait (s, l))) = l"
  shows "\<exists>n. int n \<le> max 1 (bo_attempts opt) \<and> (calls = attempt_calls opt False n \<and> 0 < n
      \<or> int n < max 1 (bo_attempts opt) \<and> calls = attempt_calls opt False n @ [rm_args (bo_enclave opt)] \<and> (\<exists>e. r = Some (Inl (Inl e))))"
proof -
  from attempts_calls [OF assms(1) [unfolded kurtosis_Run_def] assms(2)]
  obtain n where n: "n \<le> nat (max 1 (bo_attempts opt)) \<and> calls = attempt_calls opt False n \<and> 0 < n
      \<or> n < nat (max 1 (bo_attempts opt)) \<and> calls = attempt_calls opt False n @ [rm_args (bo_enclave opt)] \<and> (\<exists>e. r = Some (Inl (Inl e)))"
    by auto
  then show ?thesis by (intro exI [of _ n]) (auto simp: zless_nat_eq_int_zless le_nat_iff le_max_iff_disj less_max_iff_disj)
qed

text \<open>A single attempt that tears nothing down is a single call.\<close>

corollary single_run:
  assumes "kurtosis_Run (logging cli) cancelled wait opt (s, l) = (r, (s', l'))" and "\<And>s l. snd (snd (wait (s, l))) = l"
    and "bo_attempts opt = 1" "\<not> bo_tear_down opt"
  shows "l' = l @ [run_args opt]"
proof -
  have "attempts (logging cli) cancelled wait opt (Suc 0) False (s, l) = (r, (s', l'))"
    using assms(1,3) by (simp add: kurtosis_Run_def)
  then show ?thesis using assms(2,4)
    by (auto simp: logging_def split: prod.splits option.splits sum.splits if_splits)
qed

section \<open>A sample\<close>

definition sample_run :: "unit go_result \<Rightarrow> string \<Rightarrow> cli_run" where
  "sample_run e err = \<lparr>cr_writes = [2, 5], cr_end = 9, cr_err = e, cr_out = [], cr_errout = err, cr_killed = (\<lambda>_. (Inl ''signal: killed'', [], []))\<rparr>"

text \<open>The first run fails with a transient error; everything else works.\<close>

definition sample_cli :: "nat cli" where
  "sample_cli args n = (if hd args = ''run'' then (sample_run (if n = 0 then Inl ''exit status 1'' else Inr ()) ''unexpected EOF'', n + 1)
     else (sample_run (Inr ()) [], n))"

definition sample_opts :: boot_opts where
  "sample_opts = \<lparr>bo_enclave = ''soak'', bo_package = ''.'', bo_args = ''{}'', bo_verbose = False, bo_tear_down = False, bo_attempts = 3, bo_hang = 12\<rparr>"

theorem run_bounded_and_clean_witness:
  "\<exists>s. kurtosis_Run (logging sample_cli) (\<lambda>_. False) (\<lambda>s. (True, s)) sample_opts (0, [])
     = (Some (Inr ([], ''unexpected EOF'')), (s, attempt_calls sample_opts False 2))"
proof -
  let ?run = "kurtosis_Run (logging sample_cli) (\<lambda>_. False) (\<lambda>s. (True, s)) sample_opts (0, [])"
  have res: "fst ?run = Some (Inr ([], ''unexpected EOF''))" "length (snd (snd ?run)) = 3" by code_simp+
  obtain r s calls where run: "?run = (r, (s, calls))" by (metis surj_pair)
  have "\<exists>n. int n \<le> max 1 (bo_attempts sample_opts) \<and> (calls = attempt_calls sample_opts False n \<and> 0 < n
      \<or> int n < max 1 (bo_attempts sample_opts) \<and> calls = attempt_calls sample_opts False n @ [rm_args (bo_enclave sample_opts)]
        \<and> (\<exists>e. r = Some (Inl (Inl e))))"
    by (rule run_bounded_and_clean [OF run]) simp
  then obtain n where n: "int n \<le> 3" "calls = attempt_calls sample_opts False n"
    using res(1) run by (auto simp: sample_opts_def)
  then have "n \<in> {0, 1, 2, 3}" by auto
  moreover have "length calls = (if n = 0 then 0 else 2 * n - 1)"
    unfolding n(2) by (cases n) (simp_all add: attempt_calls_def sample_opts_def length_concat sum_list_replicate)
  ultimately have "n = 2" using res(2) run by auto
  with run res(1) n(2) show ?thesis by simp
qed

theorem watchdog_kills_silent_witness:
  "\<exists>t. hang_tick 12 [2, 5] 30 = Some t \<and> t \<le> 20"
proof -
  have "4 \<le> (12 :: int)" by simp
  from conjunct2 [OF watchdog_kills_silent [OF this, of "[2, 5]" 30], rule_format, of 5]
  show ?thesis by (simp add: tick_period_def)
qed

end
