(* ===== verification/Lifecycle.thy ===== *)
theory Lifecycle
  imports Kurtosis Log_Rotator
begin

text \<open>
  The life of an enclave in the command line tool: the discovery files (\<open>sidecar/internal/discovery/current.go\<close>), booting
  (\<open>up.go\<close>, \<open>network.go\<close>), finding the services of an enclave and tearing it down (\<open>down.go\<close>, \<open>ls.go\<close>, \<open>helpers.go\<close>) of
  \<open>sidecar/cmd/confluence\<close>. The state is the outside world and the disk. The command line of kurtosis, Docker, HTTP, the
  clock, the JSON and YAML codecs and the answers of the file system are parameters.
\<close>

section \<open>Procedures that may fail\<close>

text \<open>\<open>None\<close>: a panic, or the fuel of a loop that has not ended.\<close>

type_synonym ('w, 'a) proc = "'w \<Rightarrow> 'a go_result option \<times> 'w"

definition ok :: "'a \<Rightarrow> ('w, 'a) proc" where
  "ok x w = (Some (Inr x), w)"

definition lift_result :: "'a go_result \<Rightarrow> ('w, 'a) proc" where
  "lift_result r w = (Some r, w)"

definition sbind :: "('w, 'a) proc \<Rightarrow> ('a \<Rightarrow> ('w, 'b) proc) \<Rightarrow> ('w, 'b) proc" where
  "sbind p f w = (case p w of
      (None, w') \<Rightarrow> (None, w') | (Some (Inl e), w') \<Rightarrow> (Some (Inl e), w') | (Some (Inr x), w') \<Rightarrow> f x w')"

text \<open>An operation on the world beside the disk.\<close>

definition on_world :: "('s \<Rightarrow> 'a go_result \<times> 's) \<Rightarrow> ('s \<times> disk, 'a) proc" where
  "on_world f w = (case f (fst w) of (r, s') \<Rightarrow> (Some r, (s', snd w)))"

section \<open>The discovery files\<close>

record write_answers =
  wa_mkdir :: "unit go_result"
  wa_temp :: "string go_result"
  wa_write :: "nat option"
  wa_close :: "unit go_result"
  wa_rename :: "unit go_result"

text \<open>The disks a write passes through, the last one being what it leaves. The temporary file is removed at the end;
  after the rename it is gone.\<close>

definition writeAtomic :: "write_answers \<Rightarrow> string \<Rightarrow> string \<Rightarrow> disk \<Rightarrow> unit go_result \<times> disk list" where
  "writeAtomic a name data d =
     (case wa_mkdir a of Inl e \<Rightarrow> (Inl (''discovery: create directory: '' @ e), [d])
      | Inr _ \<Rightarrow> (case wa_temp a of Inl e \<Rightarrow> (Inl (''discovery: create temporary file: '' @ e), [d])
      | Inr tmp \<Rightarrow>
          (let d1 = AList.update tmp [] d in
           case wa_write a of
             Some k \<Rightarrow> (let d2 = AList.update tmp (take k data) d1
               in (Inl ''discovery: write: short write'', [d, d1, d2, AList.delete tmp d2]))
           | None \<Rightarrow> (let d2 = AList.update tmp data d1 in
               case wa_close a of Inl e \<Rightarrow> (Inl (''discovery: close: '' @ e), [d, d1, d2, AList.delete tmp d2])
               | Inr _ \<Rightarrow> (case wa_rename a of Inl e \<Rightarrow> (Inl (''discovery: replace: '' @ e), [d, d1, d2, AList.delete tmp d2])
                 | Inr _ \<Rightarrow> (Inr (), [d, d1, d2, AList.delete tmp (rename tmp name d2)]))))))"

record node_endpoint =
  ne_name :: string
  ne_rpc :: string
  ne_ws :: string
  ne_peer :: string

record current =
  cu_enclave :: string
  cu_control :: string
  cu_scenario :: string
  cu_started :: int
  cu_dashboard :: string
  cu_nodes :: "node_endpoint list"

record 's boot_env =
  be_cli :: "'s cli"
  be_cancelled :: "'s \<Rightarrow> bool"
  be_retry_pause :: "'s \<Rightarrow> bool \<times> 's"
  be_pause :: "'s \<Rightarrow> bool \<times> 's"
  be_clock :: "'s \<Rightarrow> int"
  be_build :: "string \<Rightarrow> string \<Rightarrow> 's \<Rightarrow> unit go_result \<times> 's"
  be_healthz :: "string \<Rightarrow> 's \<Rightarrow> bool \<times> 's"
  be_polls :: nat
  be_read :: "string \<Rightarrow> string go_result"
  be_yaml :: "string \<Rightarrow> scenario go_result \<times> unit go_result option"
  be_duration :: "string \<Rightarrow> int go_result"
  be_show_duration :: "int \<Rightarrow> string"
  be_wire :: "wire_event list \<Rightarrow> string go_result"
  be_marshal :: "fields \<Rightarrow> string go_result"
  be_unmarshal :: "string \<Rightarrow> fields go_result"
  be_sha :: "string \<Rightarrow> string"
  be_encode :: "current \<Rightarrow> string go_result"
  be_decode :: "string \<Rightarrow> current go_result"
  be_write :: "string \<Rightarrow> write_answers"
  be_keeps :: "string \<Rightarrow> string option"

definition current_path :: string where
  "current_path = ''.confluence/current.json''"

definition networkPath :: "'s boot_env \<Rightarrow> string \<Rightarrow> string" where
  "networkPath env enclave = path_join [''.confluence'', ''networks'', be_sha env enclave @ ''.json'']"

definition write_file :: "'s boot_env \<Rightarrow> string \<Rightarrow> string \<Rightarrow> ('s \<times> disk, unit) proc" where
  "write_file env name data w = (case writeAtomic (be_write env name) name data (snd w) of
     (r, ds) \<Rightarrow> (Some r, (fst w, last ds)))"

text \<open>\<open>Read\<close>; \<open>None\<close>: there is no file.\<close>

definition Read_current :: "'s boot_env \<Rightarrow> disk \<Rightarrow> current go_result option" where
  "Read_current env d = map_option (\<lambda>data. ewrap ''discovery: read current.json: '' (be_decode env data)) (map_of d current_path)"

definition Write_current :: "'s boot_env \<Rightarrow> current \<Rightarrow> ('s \<times> disk, unit) proc" where
  "Write_current env c = sbind (lift_result (ewrap ''discovery: encode: '' (be_encode env c))) (write_file env current_path)"

definition WriteNetwork :: "'s boot_env \<Rightarrow> string \<Rightarrow> string \<Rightarrow> ('s \<times> disk, unit) proc" where
  "WriteNetwork env enclave = write_file env (networkPath env enclave)"

definition ReadNetwork :: "'s boot_env \<Rightarrow> string \<Rightarrow> disk \<Rightarrow> string go_result" where
  "ReadNetwork env enclave d = (case map_of d (networkPath env enclave) of
      None \<Rightarrow> Inl (''discovery: network '' @ go_quote enclave @ '': file does not exist'')
    | Some data \<Rightarrow> if isl (be_unmarshal env data) then Inl (''discovery: invalid network configuration for '' @ go_quote enclave)
        else Inr data)"

text \<open>A missing file is no error; \<open>be_keeps\<close> is the error of a file that cannot be removed.\<close>

definition remove_file :: "'s boot_env \<Rightarrow> string \<Rightarrow> string \<Rightarrow> ('s \<times> disk, unit) proc" where
  "remove_file env what name w = (case map_of (snd w) name of
      None \<Rightarrow> (Some (Inr ()), w)
    | Some _ \<Rightarrow> (case be_keeps env name of Some e \<Rightarrow> (Some (Inl (what @ e)), w)
        | None \<Rightarrow> (Some (Inr ()), (fst w, AList.delete name (snd w)))))"

definition Remove_current :: "'s boot_env \<Rightarrow> ('s \<times> disk, unit) proc" where
  "Remove_current env = remove_file env ''discovery: remove current.json: '' current_path"

definition RemoveNetwork :: "'s boot_env \<Rightarrow> string \<Rightarrow> ('s \<times> disk, unit) proc" where
  "RemoveNetwork env enclave = remove_file env [] (networkPath env enclave)"

section \<open>Services of an enclave\<close>

definition url_of :: "service_info \<Rightarrow> string \<Rightarrow> string" where
  "url_of svc port = (case map_of (si_urls svc) port of None \<Rightarrow> [] | Some u \<Rightarrow> u)"

definition serviceAddress :: "service_info \<Rightarrow> string \<Rightarrow> string \<Rightarrow> int \<Rightarrow> string" where
  "serviceAddress svc port scheme internal =
     (let address = (if url_of svc port = [] \<and> si_ip svc \<noteq> [] then si_ip svc @ '':'' @ int_dec internal else url_of svc port)
      in if address \<noteq> [] \<and> scheme \<noteq> [] \<and> \<not> contains address ''://'' then scheme @ ''://'' @ address else address)"

definition nodeEndpoint :: "service_info \<Rightarrow> node_endpoint go_result" where
  "nodeEndpoint svc =
     (let node = \<lparr>ne_name = si_name svc, ne_rpc = serviceAddress svc ''rpc'' ''http'' 5005,
        ne_ws = serviceAddress svc ''ws'' ''ws'' 6006, ne_peer = serviceAddress svc ''peer'' [] 51235\<rparr>
      in if ne_rpc node = [] \<or> ne_ws node = [] then Inl (''no published RPC/WS endpoints for '' @ si_name svc) else Inr node)"

definition serviceEnabled :: "'s boot_env \<Rightarrow> string \<Rightarrow> string \<Rightarrow> bool" where
  "serviceEnabled env raw field = (case be_unmarshal env raw of
      Inl _ \<Rightarrow> True
    | Inr args \<Rightarrow> (case map_of args field of Some (GBool b) \<Rightarrow> b | _ \<Rightarrow> True))"

definition controlEnabled :: "'s boot_env \<Rightarrow> string \<Rightarrow> bool" where
  "controlEnabled env raw = serviceEnabled env raw ''enable_control''"

definition inspect :: "'s boot_env \<Rightarrow> string \<Rightarrow> string \<Rightarrow> ('s \<times> disk, service_info) proc" where
  "inspect env enclave service = on_world (InspectService (be_cli env) enclave service)"

fun discover_nodes :: "'s boot_env \<Rightarrow> string \<Rightarrow> string list \<Rightarrow> ('s \<times> disk, node_endpoint list) proc" where
  "discover_nodes env enclave [] = ok []"
| "discover_nodes env enclave (n # ns) =
     sbind (inspect env enclave n) (\<lambda>svc. sbind (lift_result (nodeEndpoint svc)) (\<lambda>node.
     sbind (discover_nodes env enclave ns) (\<lambda>nodes. ok (node # nodes))))"

definition node_names :: "int \<Rightarrow> int \<Rightarrow> string list" where
  "node_names rippled goxrpl = map (\<lambda>i. ''rippled-'' @ nat_dec i) [0 ..< nat rippled] @ map (\<lambda>i. ''goxrpl-'' @ nat_dec i) [0 ..< nat goxrpl]"

definition discoverNetwork :: "'s boot_env \<Rightarrow> current \<Rightarrow> int \<Rightarrow> int \<Rightarrow> string \<Rightarrow> ('s \<times> disk, current) proc" where
  "discoverNetwork env cur rippled goxrpl args =
     sbind (discover_nodes env (cu_enclave cur) (node_names rippled goxrpl)) (\<lambda>nodes.
       let cur1 = cur\<lparr>cu_nodes := cu_nodes cur @ nodes\<rparr> in
       if serviceEnabled env args ''enable_dashboard''
       then sbind (inspect env (cu_enclave cur) ''dashboard'') (\<lambda>svc. ok (cur1\<lparr>cu_dashboard := serviceAddress svc ''http'' ''http'' 8080\<rparr>))
       else ok cur1)"

section \<open>The checks of a persistent network\<close>

record boot_options =
  op_scenario :: string
  op_enclave :: string
  op_package :: string
  op_tear_down :: bool
  op_wait_control :: int
  op_hang :: int
  op_rebuild_goxrpl :: string
  op_rebuild_rippled :: string
  op_dashboard :: bool
  op_budget :: int
  op_resume :: bool
  op_reset :: bool
  op_wait_network :: int

definition compile :: "'s boot_env \<Rightarrow> scenario \<Rightarrow> string go_result" where
  "compile env s = Compile (be_duration env) (be_wire env) (be_marshal env) (Some s)"

text \<open>The decoder gives equal values for equal documents, so that equality of the decoded values is \<open>reflect.DeepEqual\<close>.\<close>

definition fixed_fields :: "string list" where
  "fixed_fields = [''rippled_count'', ''goxrpl_count'', ''network_config'', ''enable_dashboard'', ''enable_control'']"

definition compatibleNetwork :: "'s boot_env \<Rightarrow> string \<Rightarrow> string \<Rightarrow> unit go_result" where
  "compatibleNetwork env previous next_args =
     ebind (ewrap ''invalid saved network: '' (be_unmarshal env previous)) (\<lambda>old.
     ebind (be_unmarshal env next_args) (\<lambda>new.
       case find (\<lambda>f. map_of old f \<noteq> map_of new f) fixed_fields of
         None \<Rightarrow> Inr ()
       | Some f \<Rightarrow> Inl (''cannot change '' @ f @ '' while resuming; use --reset for topology, genesis, or service changes'')))"

definition checkNetworkLifecycle :: "'s boot_env \<Rightarrow> scenario \<Rightarrow> string \<Rightarrow> boot_options \<Rightarrow> ('s \<times> disk, unit) proc" where
  "checkNetworkLifecycle env s enclave opt =
     (if op_resume opt \<and> op_reset opt then lift_result (Inl ''--resume and --reset are mutually exclusive'')
      else sbind (on_world (ListEnclaves (be_cli env))) (\<lambda>names w.
        let exists = enclave \<in> set names in
        if op_resume opt then
          (if ng_count (sn_goxrpl s) \<noteq> 0 then (Some (Inl ''--resume currently requires a rippled-only network''), w)
           else if \<not> exists then
             (Some (Inl (''cannot resume missing enclave '' @ go_quote enclave @ ''; omit --resume to create it'')), w)
           else (case ReadNetwork env enclave (snd w) of
               Inl e \<Rightarrow> (Some (Inl (''cannot verify resume configuration: '' @ e
                   @ ''; run from the original working directory or use --reset'')), w)
             | Inr previous \<Rightarrow> (Some (ebind (compile env s) (compatibleNetwork env previous)), w)))
        else if exists \<and> \<not> op_reset opt then
          (Some (Inl (''enclave '' @ go_quote enclave @ '' already exists; use --resume to keep ledger data or --reset to delete it'')), w)
        else (Some (Inr ()), w)))"

definition minute :: int where
  "minute = 60000000000"

definition networkRunArgs :: "'s boot_env \<Rightarrow> string \<Rightarrow> boot_options \<Rightarrow> string go_result" where
  "networkRunArgs env raw opt = ebind (be_unmarshal env raw) (\<lambda>args.
     let timeout = (if op_wait_network opt = 0 then 3 * minute else op_wait_network opt) in
     be_marshal env (fset ''network_force_update'' (GBool (op_resume opt)) (fset ''network_resume'' (GBool (op_resume opt))
       (fset ''network_ready_timeout_seconds'' (GInt (seconds_of timeout)) args))))"

section \<open>Booting\<close>

text \<open>Loading, the overrides and the validator; an invalid scenario is printed, and this is its error.\<close>

definition with_flags :: "'s boot_env \<Rightarrow> boot_options \<Rightarrow> scenario \<Rightarrow> scenario" where
  "with_flags env opt s = (let s1 = (if op_dashboard opt then s\<lparr>sn_observed := True\<rparr> else s)
     in if 0 < op_budget opt then s1\<lparr>sn_duration := be_show_duration env (op_budget opt)\<rparr> else s1)"

definition boot_scenario :: "'s boot_env \<Rightarrow> boot_options \<Rightarrow> scenario go_result" where
  "boot_scenario env opt = (case LoadScenario (be_read env) (be_yaml env) (op_scenario opt) of
      Inl _ \<Rightarrow> Inl ''scenario invalid''
    | Inr s \<Rightarrow> if Validate (be_duration env) (Some (with_flags env opt s)) = [] then Inr (with_flags env opt s) else Inl ''scenario invalid'')"

definition tag_or :: "string \<Rightarrow> string \<Rightarrow> string" where
  "tag_or img def = (if img = [] then def else img)"

definition rebuild_goxrpl :: "'s boot_env \<Rightarrow> boot_options \<Rightarrow> scenario \<Rightarrow> ('s \<times> disk, scenario) proc" where
  "rebuild_goxrpl env opt s = (if op_rebuild_goxrpl opt = [] then ok s
     else let tag = tag_or (ng_image (sn_goxrpl s)) ''goxrpl:latest'' in
       sbind (on_world (\<lambda>w. case be_build env (op_rebuild_goxrpl opt) tag w of (r, w') \<Rightarrow> (ewrap ''rebuild goxrpl: '' r, w')))
         (\<lambda>_. ok (s\<lparr>sn_goxrpl := (sn_goxrpl s)\<lparr>ng_image := tag\<rparr>\<rparr>)))"

definition rebuild_rippled :: "'s boot_env \<Rightarrow> boot_options \<Rightarrow> scenario \<Rightarrow> ('s \<times> disk, scenario) proc" where
  "rebuild_rippled env opt s = (if op_rebuild_rippled opt = [] then ok s
     else let tag = tag_or (ng_image (sn_rippled s)) ''rippled:latest'' in
       sbind (on_world (\<lambda>w. case be_build env (op_rebuild_rippled opt) tag w of (r, w') \<Rightarrow> (ewrap ''rebuild rippled: '' r, w')))
         (\<lambda>_. ok (s\<lparr>sn_rippled := (sn_rippled s)\<lparr>ng_image := tag\<rparr>\<rparr>)))"

text \<open>A reset removes the enclave and, if it is the current one, forgets it.\<close>

definition reset_network :: "'s boot_env \<Rightarrow> string \<Rightarrow> ('s \<times> disk, unit) proc" where
  "reset_network env enclave = sbind (on_world (RemoveEnclave (be_cli env) enclave)) (\<lambda>_ w.
     case Read_current env (snd w) of
       Some (Inr cur) \<Rightarrow> if cu_enclave cur = enclave then Remove_current env w else (Some (Inr ()), w)
     | _ \<Rightarrow> (Some (Inr ()), w))"

definition prepare_network :: "'s boot_env \<Rightarrow> boot_options \<Rightarrow> string \<Rightarrow> string \<Rightarrow> ('s \<times> disk, string) proc" where
  "prepare_network env opt enclave raw =
     sbind (lift_result (networkRunArgs env raw opt)) (\<lambda>args.
     sbind (if op_reset opt then reset_network env enclave else ok ()) (\<lambda>_.
     sbind (WriteNetwork env enclave args) (\<lambda>_. ok args)))"

definition boot_call :: "boot_options \<Rightarrow> bool \<Rightarrow> string \<Rightarrow> string \<Rightarrow> boot_opts" where
  "boot_call opt network_only enclave args =
     \<lparr>bo_enclave = enclave, bo_package = op_package opt, bo_args = args, bo_verbose = False,
      bo_tear_down = (\<not> network_only \<and> op_tear_down opt), bo_attempts = (if network_only then 1 else 3),
      bo_hang = (if network_only \<and> 0 < op_hang opt \<and> op_hang opt < op_wait_network opt + minute
                 then op_wait_network opt + minute else op_hang opt)\<rparr>"

definition run_package :: "'s boot_env \<Rightarrow> boot_opts \<Rightarrow> ('s \<times> disk, unit) proc" where
  "run_package env call w = (case kurtosis_Run (be_cli env) (be_cancelled env) (be_retry_pause env) call (fst w) of
     (r, s') \<Rightarrow> (map_option (\<lambda>x. case x of Inr _ \<Rightarrow> Inr () | Inl (Inl e) \<Rightarrow> Inl e | Inl (Inr e) \<Rightarrow> Inl (run_error_text e)) r, (s', snd w)))"

text \<open>\<open>probeHealthz\<close> and \<open>waitForControl\<close>, with as many rounds as \<open>be_polls\<close> gives each of them.\<close>

fun probeHealthz :: "'s boot_env \<Rightarrow> nat \<Rightarrow> string \<Rightarrow> int \<Rightarrow> 's \<Rightarrow> bool option \<times> 's" where
  "probeHealthz env 0 url deadline s = (None, s)"
| "probeHealthz env (Suc k) url deadline s =
     (if deadline \<le> be_clock env s then (Some False, s)
      else case be_healthz env url s of
          (True, s1) \<Rightarrow> (Some True, s1)
        | (False, s1) \<Rightarrow> (case be_pause env s1 of
            (False, s2) \<Rightarrow> (Some False, s2) | (True, s2) \<Rightarrow> probeHealthz env k url deadline s2))"

definition control_address :: "service_info \<Rightarrow> string" where
  "control_address svc = (if url_of svc ''http'' = [] \<and> si_ip svc \<noteq> [] then ''http://'' @ si_ip svc @ '':8090'' else url_of svc ''http'')"

text \<open>One look at the control service: its address when it is healthy.\<close>

definition look :: "'s boot_env \<Rightarrow> string \<Rightarrow> int \<Rightarrow> 's \<Rightarrow> string option option \<times> 's" where
  "look env enclave deadline s = (case InspectService (be_cli env) enclave ''confluence-control'' s of
      (Inl _, s1) \<Rightarrow> (Some None, s1)
    | (Inr svc, s1) \<Rightarrow> (let url = control_address svc in
        if url = [] then (Some None, s1)
        else case probeHealthz env (be_polls env) url deadline s1 of
            (None, s2) \<Rightarrow> (None, s2) | (Some up, s2) \<Rightarrow> (Some (if up then Some url else None), s2)))"

fun wait_rounds :: "'s boot_env \<Rightarrow> nat \<Rightarrow> string \<Rightarrow> int \<Rightarrow> 's \<Rightarrow> string go_result option \<times> 's" where
  "wait_rounds env 0 enclave deadline s = (None, s)"
| "wait_rounds env (Suc k) enclave deadline s = (case look env enclave deadline s of
      (None, s1) \<Rightarrow> (None, s1)
    | (Some (Some url), s1) \<Rightarrow> (Some (Inr url), s1)
    | (Some None, s1) \<Rightarrow>
        if deadline < be_clock env s1 then (Some (Inl ''timed out waiting for confluence-control to become healthy''), s1)
        else (case be_pause env s1 of
            (False, s2) \<Rightarrow> (Some (Inl ''context canceled''), s2)
          | (True, s2) \<Rightarrow> wait_rounds env k enclave deadline s2))"

definition waitForControl :: "'s boot_env \<Rightarrow> string \<Rightarrow> int \<Rightarrow> ('s \<times> disk, string) proc" where
  "waitForControl env enclave timeout w =
     (case wait_rounds env (be_polls env) enclave (be_clock env (fst w) + timeout) (fst w) of (r, s') \<Rightarrow> (r, (s', snd w)))"

text \<open>The discovery of what has been booted.\<close>

definition publish_current :: "'s boot_env \<Rightarrow> bool \<Rightarrow> string \<Rightarrow> scenario \<Rightarrow> string \<Rightarrow> string \<Rightarrow> ('s \<times> disk, current) proc" where
  "publish_current env network_only enclave s args url w =
     (let cur = \<lparr>cu_enclave = enclave, cu_control = url, cu_scenario = sn_name s, cu_started = be_clock env (fst w),
                 cu_dashboard = [], cu_nodes = []\<rparr>
      in sbind (if network_only then discoverNetwork env cur (ng_count (sn_rippled s)) (ng_count (sn_goxrpl s)) args else ok cur)
           (\<lambda>cur1. sbind (Write_current env cur1) (\<lambda>_. ok cur1)) w)"

definition launch :: "'s boot_env \<Rightarrow> boot_options \<Rightarrow> bool \<Rightarrow> string \<Rightarrow> scenario \<Rightarrow> ('s \<times> disk, current) proc" where
  "launch env opt network_only enclave s0 =
     sbind (if network_only then checkNetworkLifecycle env s0 enclave opt else ok ()) (\<lambda>_.
     sbind (rebuild_goxrpl env opt s0) (\<lambda>s1.
     sbind (rebuild_rippled env opt s1) (\<lambda>s.
     sbind (lift_result (ewrap ''scenario compile: '' (compile env s))) (\<lambda>raw.
     sbind (if network_only then prepare_network env opt enclave raw else ok raw) (\<lambda>args.
     sbind (run_package env (boot_call opt network_only enclave args)) (\<lambda>_.
     sbind (if controlEnabled env args then waitForControl env enclave (op_wait_control opt) else ok [])
       (publish_current env network_only enclave s args)))))))"

definition boot_enclave :: "boot_options \<Rightarrow> scenario \<Rightarrow> string" where
  "boot_enclave opt s = (if op_enclave opt = [] then sn_name s else op_enclave opt)"

definition boot :: "'s boot_env \<Rightarrow> boot_options \<Rightarrow> ('s \<times> disk, current) proc" where
  "boot env opt = sbind (lift_result (boot_scenario env opt)) (\<lambda>s.
     let network_only = (wl_kind (sn_workload s) = ''none'') in
     if boot_enclave opt s = [] then lift_result (Inl ''metadata.name or --enclave required'')
     else if (op_resume opt \<or> op_reset opt) \<and> \<not> network_only
       then lift_result (Inl ''--resume and --reset require workload.kind: none'')
     else launch env opt network_only (boot_enclave opt s) s)"

text \<open>\<open>up\<close>, with the flags it checks before it boots.\<close>

definition run_up :: "'s boot_env \<Rightarrow> boot_options \<Rightarrow> ('s \<times> disk, current) proc" where
  "run_up env opt = (if op_scenario opt = [] then lift_result (Inl ''--scenario flag required'')
     else if op_wait_network opt < 1000000000 then lift_result (Inl ''--wait-network must be at least 1s'')
     else boot env (opt\<lparr>op_budget := 0\<rparr>))"

section \<open>Tearing down\<close>

text \<open>\<open>Read\<close> of a missing file gives no current enclave and no error here.\<close>

definition tearDown :: "'s boot_env \<Rightarrow> string \<Rightarrow> ('s \<times> disk, string) proc" where
  "tearDown env name w =
     (let read_cur = Read_current env (snd w);
          cur = (if name = [] then (case read_cur of Some (Inr c) \<Rightarrow> Some c | _ \<Rightarrow> None) else None);
          enclave = (if name = [] then (case cur of Some c \<Rightarrow> cu_enclave c | None \<Rightarrow> []) else name)
      in case (if name = [] then read_cur else None) of
          Some (Inl e) \<Rightarrow> (Some (Inl e), w)
        | _ \<Rightarrow>
            if enclave = [] then (Some (Inl (''no current enclave (run '' @ [CHR 0x27] @ ''confluence up'' @ [CHR 0x27] @ '' first)'')), w)
            else sbind (on_world (RemoveEnclave (be_cli env) enclave)) (\<lambda>_.
                 sbind (RemoveNetwork env enclave) (\<lambda>_ w1.
                   let mine = (cur \<noteq> None \<or> (case Read_current env (snd w1) of Some (Inr c) \<Rightarrow> cu_enclave c = enclave | _ \<Rightarrow> False))
                   in sbind (if mine then Remove_current env else ok ()) (\<lambda>_. ok enclave) w1)) w)"

section \<open>Finding the control service\<close>

definition resolveControlURL :: "'s boot_env \<Rightarrow> string \<Rightarrow> string \<Rightarrow> ('s \<times> disk, string) proc" where
  "resolveControlURL env control_url enclave =
     (if control_url \<noteq> [] then ok control_url
      else if enclave \<noteq> [] then
        (\<lambda>w. case inspect env enclave ''confluence-control'' w of
           (Some (Inr svc), w') \<Rightarrow>
             (Some (if control_address svc = [] then
                Inl (''confluence-control service in enclave '' @ go_quote enclave @ '' has neither a host-published http port nor an IP address'')
              else Inr (control_address svc)), w')
         | (Some (Inl e), w') \<Rightarrow> (Some (Inl (''kurtosis inspect for --enclave '' @ go_quote enclave @ '': '' @ e)), w')
         | (None, w') \<Rightarrow> (None, w'))
      else (\<lambda>w. (Some (case Read_current env (snd w) of
            None \<Rightarrow> Inl ''no --control-url, no --enclave, and no discovery file: file does not exist''
          | Some (Inl e) \<Rightarrow> Inl (''no --control-url, no --enclave, and no discovery file: '' @ e)
          | Some (Inr c) \<Rightarrow> if cu_control c = [] then Inl (''this network has no control service; use confluence endpoints to access ''
                @ ''node RPC, or enable services.control and reset the network'') else Inr (cu_control c)), w)))"

end
