(* ===== verification/Lifecycle_Properties.thy ===== *)
theory Lifecycle_Properties
  imports Lifecycle Runs Scenario_Properties
begin

text \<open>
  What the discovery files and the life of an enclave promise: a write that is cut short never leaves half a file, and
  booting a persistent network never removes an enclave unless a reset is asked for.
\<close>

section \<open>Atomic writes\<close>

text \<open>C17: At every moment of a write the file has its old content or all of the new one; in the end the disk is the old one with
  the new content in place, or, after an error, the old one.
\<close>

theorem atomic_write:
  assumes "writeAtomic a name data d = (r, ds)" and "\<And>tmp. wa_temp a = Inr tmp \<Longrightarrow> tmp \<noteq> name \<and> map_of d tmp = None"
  shows "(\<forall>x \<in> set ds. map_of x name = map_of d name \<or> map_of x name = Some data)
    \<and> map_of (last ds) = (if isl r then map_of d else (map_of d)(name \<mapsto> data))"
proof (cases "wa_temp a")
  case (Inl e)
  then show ?thesis using assms(1) by (auto simp: writeAtomic_def split: sum.splits)
next
  case (Inr tmp)
  with assms(2) have tmp: "tmp \<noteq> name" "map_of d tmp = None" by auto
  have cleared: "(map_of d)(tmp := None) = map_of d" "(map_of d)(tmp \<mapsto> c, tmp := None) = map_of d" for c
    using tmp(2) by (auto simp: fun_eq_iff)
  show ?thesis using assms(1) tmp(1) Inr
    by (auto simp: writeAtomic_def Let_def rename_def update_conv' delete_conv' cleared fun_upd_twist [OF tmp(1)] tmp(2) isl_def
        split: sum.splits option.splits)
qed

section \<open>Calls of a procedure\<close>

text \<open>\<open>calls A p\<close>: \<open>p\<close> adds only calls in \<open>A\<close> to the log of its command line.\<close>

named_theorems calls_intro

definition calls :: "string list set \<Rightarrow> (('s \<times> string list list) \<times> disk, 'a) proc \<Rightarrow> bool" where
  "calls A p \<longleftrightarrow> (\<forall>s l d r s' l' d'. p ((s, l), d) = (r, ((s', l'), d')) \<longrightarrow> (\<exists>cs. l' = l @ cs \<and> set cs \<subseteq> A))"

definition world_calls :: "string list set \<Rightarrow> ('s \<times> string list list \<Rightarrow> 'a \<times> ('s \<times> string list list)) \<Rightarrow> bool" where
  "world_calls A f \<longleftrightarrow> (\<forall>s l r s' l'. f (s, l) = (r, (s', l')) \<longrightarrow> (\<exists>cs. l' = l @ cs \<and> set cs \<subseteq> A))"

lemma calls_ok [calls_intro]: "calls A (ok x)"
  by (simp add: calls_def ok_def)

lemma calls_lift [calls_intro]: "calls A (lift_result r)"
  by (simp add: calls_def lift_result_def)

lemma calls_bind [calls_intro]:
  assumes "calls A p" and "\<And>x. calls A (f x)"
  shows "calls A (sbind p f)"
  unfolding calls_def
proof (intro allI impI)
  fix s l d r s' l' d'
  assume run: "sbind p f ((s, l), d) = (r, ((s', l'), d'))"
  obtain q s1 l1 d1 where p: "p ((s, l), d) = (q, ((s1, l1), d1))" by (metis surj_pair)
  then obtain cs where cs: "l1 = l @ cs" "set cs \<subseteq> A" using assms(1) [unfolded calls_def] by blast
  show "\<exists>cs. l' = l @ cs \<and> set cs \<subseteq> A"
  proof (cases "\<exists>x. q = Some (Inr x)")
    case True
    then obtain x where "f x ((s1, l1), d1) = (r, ((s', l'), d'))" using run p by (auto simp: sbind_def)
    then obtain cs' where "l' = l1 @ cs'" "set cs' \<subseteq> A" using assms(2) [of x, unfolded calls_def] by blast
    with cs show ?thesis by (intro exI [of _ "cs @ cs'"]) auto
  next
    case False
    then have "l' = l1" using run p by (auto simp: sbind_def split: option.splits sum.splits)
    with cs show ?thesis by blast
  qed
qed

lemma calls_if [calls_intro]: "(b \<Longrightarrow> calls A p) \<Longrightarrow> (\<not> b \<Longrightarrow> calls A q) \<Longrightarrow> calls A (if b then p else q)"
  by simp

lemma calls_Let [calls_intro]: "(\<And>x. calls A (f x)) \<Longrightarrow> calls A (let x = e in f x)"
  by simp

lemma calls_on_world [calls_intro]: "world_calls A f \<Longrightarrow> calls A (on_world f)"
  unfolding calls_def world_calls_def on_world_def by (auto split: prod.splits)

text \<open>A procedure that leaves the world alone.\<close>

lemma calls_disk: "(\<And>w. fst (snd (p w)) = fst w) \<Longrightarrow> calls A p"
  unfolding calls_def by (metis append_Nil2 empty_set empty_subsetI fst_conv prod.inject snd_conv)

lemma world_calls_case:
  assumes "\<And>s l. \<exists>r s' cs. f (s, l) = (r, (s', l @ cs)) \<and> set cs \<subseteq> A"
  shows "world_calls A f"
  unfolding world_calls_def using assms by (metis prod.inject)

lemma InspectService_calls [calls_intro]:
  assumes "\<And>c s. [''service'', ''inspect'', c, s] \<in> A"
  shows "world_calls A (InspectService (logging cli) enclave service)"
  using assms by (auto simp: world_calls_def InspectService_def logging_def Let_def split: prod.splits sum.splits if_splits)

lemma ListEnclaves_calls [calls_intro]: "ls_args \<in> A \<Longrightarrow> world_calls A (ListEnclaves (logging cli))"
  by (auto simp: world_calls_def ListEnclaves_def logging_def split: prod.splits sum.splits)

lemma write_file_calls [calls_intro]: "calls A (write_file env name data)"
  by (rule calls_disk) (simp add: write_file_def split: prod.split)

lemma remove_file_calls [calls_intro]: "calls A (remove_file env what name)"
  by (rule calls_disk) (simp add: remove_file_def split: option.split)

section \<open>Booting removes nothing\<close>

definition no_removals :: "string list set" where
  "no_removals = {c. \<forall>e. c \<noteq> rm_args e}"

lemma no_removals_intro:
  "ls_args \<in> no_removals" "[''service'', ''inspect'', c, s] \<in> no_removals" "run_args call \<in> no_removals"
  using rm_not_run by (auto simp: no_removals_def rm_args_def ls_args_def run_args_def)

text \<open>An environment whose command line is logged and whose other parts leave the log alone.\<close>

definition tame :: "('s \<times> string list list) boot_env \<Rightarrow> 's cli \<Rightarrow> bool" where
  "tame env cli \<longleftrightarrow> be_cli env = logging cli \<and> (\<forall>w. snd (snd (be_retry_pause env w)) = snd w) \<and> (\<forall>w. snd (snd (be_pause env w)) = snd w)
     \<and> (\<forall>dir tag w. snd (snd (be_build env dir tag w)) = snd w) \<and> (\<forall>url w. snd (snd (be_healthz env url w)) = snd w)"

lemma world_calls_quiet: "(\<And>w. snd (snd (f w)) = snd w) \<Longrightarrow> world_calls A f"
  unfolding world_calls_def by (metis append_Nil2 empty_set empty_subsetI snd_conv)

lemma build_calls: "tame env cli \<Longrightarrow> world_calls A (\<lambda>w. case be_build env dir tag w of (r, w') \<Rightarrow> (ewrap what r, w'))"
  by (intro world_calls_quiet) (simp add: tame_def case_prod_unfold del: split_paired_All)

lemma inspect_calls [calls_intro]: "tame env cli \<Longrightarrow> calls no_removals (inspect env enclave service)"
  unfolding inspect_def tame_def by (auto intro!: calls_intro no_removals_intro)

lemma discover_nodes_calls [calls_intro]: "tame env cli \<Longrightarrow> calls no_removals (discover_nodes env enclave ns)"
  by (induction ns) (auto intro!: calls_intro)

lemma discoverNetwork_calls [calls_intro]: "tame env cli \<Longrightarrow> calls no_removals (discoverNetwork env cur m n args)"
  unfolding discoverNetwork_def Let_def by (auto intro!: calls_intro)

lemma probe_log: "tame env cli \<Longrightarrow> snd (snd (probeHealthz env k url deadline w)) = snd w"
proof (induction k arbitrary: w)
  case (Suc k)
  obtain up w1 go w2 where h: "be_healthz env url w = (up, w1)" "be_pause env w1 = (go, w2)" by (metis surj_pair)
  have "snd w1 = snd w" "snd w2 = snd w1" using Suc.prems h unfolding tame_def by (metis snd_conv)+
  then show ?case using Suc.IH [OF Suc.prems, of w2] by (simp add: h split: bool.split)
qed simp

lemma look_calls: "tame env cli \<Longrightarrow> world_calls no_removals (look env enclave deadline)"
proof -
  assume tame: "tame env cli"
  have i: "world_calls no_removals (InspectService (be_cli env) enclave ''confluence-control'')"
    using tame unfolding tame_def by (auto intro!: calls_intro no_removals_intro)
  show ?thesis
    unfolding world_calls_def
  proof (intro allI impI)
    fix s l r s' l'
    assume run: "look env enclave deadline (s, l) = (r, (s', l'))"
    obtain q s1 l1 where q: "InspectService (be_cli env) enclave ''confluence-control'' (s, l) = (q, (s1, l1))" by (metis surj_pair)
    have "l' = l1"
      using run probe_log [OF tame, of "be_polls env" _ deadline "(s1, l1)"]
      by (auto simp: look_def q Let_def split: sum.splits if_splits prod.splits option.splits) (metis snd_conv)+
    then show "\<exists>cs. l' = l @ cs \<and> set cs \<subseteq> no_removals" using i q by (auto simp: world_calls_def)
  qed
qed

lemma wait_rounds_calls: "tame env cli \<Longrightarrow> world_calls no_removals (wait_rounds env k enclave deadline)"
proof (induction k)
  case 0
  then show ?case by (simp add: world_calls_def)
next
  case (Suc k)
  show ?case
    unfolding world_calls_def
  proof (intro allI impI)
    fix s l r s' l'
    assume run: "wait_rounds env (Suc k) enclave deadline (s, l) = (r, (s', l'))"
    obtain q s1 l1 where q: "look env enclave deadline (s, l) = (q, (s1, l1))" by (metis surj_pair)
    then obtain cs where cs: "l1 = l @ cs" "set cs \<subseteq> no_removals" using look_calls [OF Suc.prems, unfolded world_calls_def] by blast
    obtain go s2 l2 where p: "be_pause env (s1, l1) = (go, (s2, l2))" by (metis surj_pair)
    have l2: "l2 = l1" using Suc.prems p unfolding tame_def by (metis snd_conv)
    have "l' = l1 \<or> wait_rounds env k enclave deadline (s2, l2) = (r, (s', l'))"
      using run by (auto simp: q p l2 split: option.splits if_splits bool.splits)
    then show "\<exists>cs. l' = l @ cs \<and> set cs \<subseteq> no_removals"
    proof
      assume "wait_rounds env k enclave deadline (s2, l2) = (r, (s', l'))"
      then obtain cs' where "l' = l2 @ cs'" "set cs' \<subseteq> no_removals"
        using Suc.IH [OF Suc.prems, unfolded world_calls_def] by blast
      then show ?thesis using cs l2 by (intro exI [of _ "cs @ cs'"]) auto
    qed (use cs in blast)
  qed
qed

lemma waitForControl_calls [calls_intro]: "tame env cli \<Longrightarrow> calls no_removals (waitForControl env enclave t)"
  using wait_rounds_calls [of env cli "be_polls env" enclave] unfolding calls_def waitForControl_def world_calls_def
  by (auto split: prod.splits)

lemma run_package_calls:
  assumes "tame env cli" "bo_attempts call = 1" "\<not> bo_tear_down call"
  shows "calls no_removals (run_package env call)"
  unfolding calls_def
proof (intro allI impI)
  fix s l d r s' l' d'
  assume "run_package env call ((s, l), d) = (r, ((s', l'), d'))"
  then obtain q where "kurtosis_Run (logging cli) (be_cancelled env) (be_retry_pause env) call (s, l) = (q, (s', l'))"
    using assms(1) by (auto simp: run_package_def tame_def split: prod.splits)
  from single_run [OF this _ assms(2,3)] assms(1) have "l' = l @ [run_args call]" by (simp add: tame_def)
  then show "\<exists>cs. l' = l @ cs \<and> set cs \<subseteq> no_removals" using no_removals_intro by auto
qed

lemma lifecycle_calls: "tame env cli \<Longrightarrow> calls no_removals (checkNetworkLifecycle env s enclave opt)"
  unfolding checkNetworkLifecycle_def
  by (intro calls_intro calls_disk) (auto simp: tame_def Let_def intro!: calls_intro no_removals_intro split: sum.splits)

lemma prepare_calls: "\<not> op_reset opt \<Longrightarrow> calls no_removals (prepare_network env opt enclave raw)"
  unfolding prepare_network_def WriteNetwork_def by (auto intro!: calls_intro)

lemma build_steps: "tame env cli \<Longrightarrow> calls A (rebuild_goxrpl env opt s)" "tame env cli \<Longrightarrow> calls A (rebuild_rippled env opt s)"
  unfolding rebuild_goxrpl_def rebuild_rippled_def Let_def using build_calls [of env cli A] by (auto intro!: calls_intro)

lemma publish_calls: "tame env cli \<Longrightarrow> calls no_removals (publish_current env network_only enclave s args url)"
proof -
  assume "tame env cli"
  then have "calls no_removals (sbind (if network_only then discoverNetwork env cur m n args else ok cur)
      (\<lambda>cur1. sbind (Write_current env cur1) (\<lambda>_. ok cur1)))" for cur m n
    unfolding Write_current_def by (auto intro!: calls_intro)
  then show ?thesis unfolding calls_def publish_current_def Let_def by blast
qed

lemma launch_calls:
  assumes "tame env cli" "\<not> op_reset opt"
  shows "calls no_removals (launch env opt True enclave s)"
proof -
  have run: "calls no_removals (run_package env (boot_call opt True enclave args))" for args
    by (rule run_package_calls [OF assms(1)]) (simp_all add: boot_call_def)
  show ?thesis unfolding launch_def if_True
    by (intro calls_bind calls_if calls_ok calls_lift lifecycle_calls [OF assms(1)] build_steps [OF assms(1)]
        prepare_calls [OF assms(2)] run waitForControl_calls [OF assms(1)] publish_calls [OF assms(1)])
qed

text \<open>C13: Booting a persistent network without a reset removes no enclave, whatever happens on the way; and if its enclave
  exists already and resuming was not asked for, it stops with an error after listing the enclaves, before anything runs.
\<close>

theorem boot_keeps_ledger_data:
  assumes tame: "tame env cli" and load: "boot_scenario env opt = Inr sc" "wl_kind (sn_workload sc) = ''none''" and "\<not> op_reset opt"
    and run: "boot env opt ((s, []), d) = (r, ((s', calls_made), d'))"
  shows "(\<forall>e. rm_args e \<notin> set calls_made)
    \<and> (\<not> op_resume opt \<and> boot_enclave opt sc \<noteq> [] \<and> (\<exists>names s1. ListEnclaves cli s = (Inr names, s1) \<and> boot_enclave opt sc \<in> set names)
       \<longrightarrow> calls_made = [ls_args] \<and> (\<exists>e. r = Some (Inl e)))"
proof (intro conjI impI)
  have boot: "boot env opt = (if boot_enclave opt sc = [] then lift_result (Inl ''metadata.name or --enclave required'')
      else launch env opt True (boot_enclave opt sc) sc)"
    using load assms(4) by (simp add: boot_def fun_eq_iff sbind_def lift_result_def)
  have "calls no_removals (boot env opt)"
    unfolding boot using launch_calls [OF tame assms(4)] by (auto intro: calls_lift)
  then obtain cs where "calls_made = [] @ cs" "set cs \<subseteq> no_removals" using run unfolding calls_def by blast
  then show "\<forall>e. rm_args e \<notin> set calls_made" by (auto simp: no_removals_def)
  assume "\<not> op_resume opt \<and> boot_enclave opt sc \<noteq> [] \<and> (\<exists>names s1. ListEnclaves cli s = (Inr names, s1) \<and> boot_enclave opt sc \<in> set names)"
  then obtain names s1 where asm: "\<not> op_resume opt" "boot_enclave opt sc \<noteq> []" "ListEnclaves cli s = (Inr names, s1)" "boot_enclave opt sc \<in> set names"
    by blast
  have "ListEnclaves (be_cli env) (s, []) = (Inr names, (s1, [ls_args]))"
    using asm(3) tame by (auto simp: ListEnclaves_def logging_def tame_def split: prod.splits sum.splits)
  then have "checkNetworkLifecycle env sc (boot_enclave opt sc) opt ((s, []), d)
      = (Some (Inl (''enclave '' @ go_quote (boot_enclave opt sc) @ '' already exists; use --resume to keep ledger data or --reset to delete it'')), ((s1, [ls_args]), d))"
    using asm assms(4) by (simp add: checkNetworkLifecycle_def sbind_def on_world_def Let_def)
  then have "launch env opt True (boot_enclave opt sc) sc ((s, []), d) = (Some (Inl (''enclave '' @ go_quote (boot_enclave opt sc)
      @ '' already exists; use --resume to keep ledger data or --reset to delete it'')), ((s1, [ls_args]), d))"
    by (simp add: launch_def sbind_def)
  then show "calls_made = [ls_args]" "\<exists>e. r = Some (Inl e)" using run asm(2) unfolding boot by auto
qed

section \<open>Replaying a reproducer\<close>

lemma rebuild_shape:
  "(\<exists>e w1. rebuild_goxrpl env opt s w = (Some (Inl e), w1))
     \<or> (\<exists>s1 w1. rebuild_goxrpl env opt s w = (Some (Inr s1), w1) \<and> sn_workload s1 = sn_workload s)"
  "(\<exists>e w1. rebuild_rippled env opt s w = (Some (Inl e), w1))
     \<or> (\<exists>s1 w1. rebuild_rippled env opt s w = (Some (Inr s1), w1) \<and> sn_workload s1 = sn_workload s)"
  by (auto simp: rebuild_goxrpl_def rebuild_rippled_def ok_def sbind_def on_world_def Let_def ewrap_def split: prod.split sum.split)

lemma boot_bind: "sbind (lift_result (Inr x)) f = f x" "sbind (lift_result (Inl e)) f = lift_result (Inl e)"
  by (simp_all add: sbind_def lift_result_def fun_eq_iff)

lemma launch_replay:
  assumes "wl_kind (sn_workload sc) = ''replay''"
  shows "(\<exists>e w'. launch env opt False enclave sc w = (Some (Inl e), w'))
    \<and> launch env opt False enclave sc w = sbind (rebuild_goxrpl env opt sc) (\<lambda>s1. sbind (rebuild_rippled env opt s1)
           (\<lambda>s. lift_result (Inl (''scenario compile: '' @ projl (compile env s))))) w"
proof -
  have no_compile: "\<exists>e. compile env s = Inl e" if "wl_kind (sn_workload s) = ''replay''" for s
    using that by (auto simp: compile_def Compile_def split: list.splits)
  consider e w1 where "rebuild_goxrpl env opt sc w = (Some (Inl e), w1)"
    | s1 w1 e w2 where "rebuild_goxrpl env opt sc w = (Some (Inr s1), w1)" "rebuild_rippled env opt s1 w1 = (Some (Inl e), w2)"
    | s1 w1 s2 w2 where "rebuild_goxrpl env opt sc w = (Some (Inr s1), w1)" "rebuild_rippled env opt s1 w1 = (Some (Inr s2), w2)"
        "sn_workload s2 = sn_workload sc"
  proof (cases "\<exists>e w1. rebuild_goxrpl env opt sc w = (Some (Inl e), w1)")
    case True
    with that(1) show thesis by blast
  next
    case False
    then obtain s1 w1 where g: "rebuild_goxrpl env opt sc w = (Some (Inr s1), w1)" "sn_workload s1 = sn_workload sc"
      using rebuild_shape(1) [of env opt sc w] by blast
    from rebuild_shape(2) [of env opt s1 w1] show thesis
      using that(2) [OF g(1)] that(3) [OF g(1)] g(2) by metis
  qed
  then show ?thesis
  proof cases
    case 3
    then obtain e where "compile env s2 = Inl e" using no_compile [of s2] assms by auto
    with 3 show ?thesis by (simp add: launch_def sbind_def ok_def lift_result_def ewrap_def)
  qed (simp_all add: launch_def sbind_def ok_def)
qed

text \<open>C24: The reproducer the service emits is a scenario of kind replay, \<open>replay\<close> boots it like any other, and the compiler
  rejects that kind: booting it ends in an error every time, without a call of the command line.
\<close>

theorem replay_never_boots:
  assumes tame: "tame env cli" and load: "LoadScenario (be_read env) (be_yaml env) (op_scenario opt) = Inr (replay_of rid sc)"
    and run: "boot env opt ((s, []), d) = (r, ((s', calls_made), d'))"
  shows "calls_made = [] \<and> (\<exists>e. r = Some (Inl e))"
proof -
  have kind: "wl_kind (sn_workload s0) = ''replay''" if "boot_scenario env opt = Inr s0" for s0
    using that load by (auto simp: boot_scenario_def with_flags_def replay_of_def Let_def split: if_splits)
  have quiet: "calls {} (sbind (rebuild_goxrpl env opt s0) (\<lambda>s1. sbind (rebuild_rippled env opt s1) (\<lambda>s. lift_result (f s))))" for s0 f
    by (intro calls_bind build_steps [OF tame] calls_lift)
  have launch: "calls {} (launch env opt False enclave s0)" if "boot_scenario env opt = Inr s0" for enclave s0
    using quiet unfolding calls_def conjunct2 [OF launch_replay [OF kind [OF that]]] .
  have "calls {} (boot env opt)"
    using launch kind unfolding boot_def
    by (cases "boot_scenario env opt") (auto simp: boot_bind Let_def intro: calls_lift)
  then have "calls_made = []" using run unfolding calls_def by fastforce
  moreover have "\<exists>e. r = Some (Inl e)"
  proof (cases "boot_scenario env opt")
    case (Inl e)
    then show ?thesis using run by (auto simp: boot_def sbind_def lift_result_def)
  next
    case (Inr s0)
    then show ?thesis using run kind [OF Inr] conjunct1 [OF launch_replay [OF kind [OF Inr]], of env opt "boot_enclave opt s0" "((s, []), d)"]
      by (auto simp: boot_def sbind_def lift_result_def Let_def split: if_splits)
  qed
  ultimately show ?thesis by simp
qed

section \<open>Tearing down\<close>

text \<open>
  After a tear-down the enclave was removed by one call, its saved network is gone, the current enclave is forgotten when
  it was this one, and no other file changed.
\<close>

theorem tearDown_forgets:
  assumes "be_cli env = logging cli" and "networkPath env name \<noteq> current_path" and "name \<noteq> []"
    and run: "tearDown env name ((s, []), d) = (Some (Inr e), ((s', calls_made), d'))"
  shows "e = name \<and> calls_made = [rm_args name] \<and> map_of d' (networkPath env name) = None
    \<and> (\<forall>p. p \<noteq> networkPath env name \<longrightarrow> map_of d' p =
         (if p = current_path \<and> (\<exists>c. Read_current env d = Some (Inr c) \<and> cu_enclave c = name) then None else map_of d p))"
proof -
  obtain q s1 l1 where rm: "RemoveEnclave (be_cli env) name (s, []) = (q, (s1, l1))" by (metis surj_pair)
  then have l1: "l1 = [rm_args name]" using RemoveEnclave_logs [of cli name s "[]" q s1 l1] assms(1) by simp
  have other: "Read_current env (AList.delete (networkPath env name) d) = Read_current env d"
    using assms(2) by (simp add: Read_current_def delete_conv')
  show ?thesis using run assms(2,3) l1
    by (auto simp: tearDown_def Let_def sbind_def on_world_def rm RemoveNetwork_def Remove_current_def remove_file_def ok_def other
        delete_conv' Read_current_def split: sum.splits option.splits if_splits)
qed

section \<open>Samples\<close>

text \<open>An outside where everything works; the scenario is given, and the JSON codec keeps no arguments.\<close>

definition sample_boot :: "scenario \<Rightarrow> ('s \<Rightarrow> bool) \<Rightarrow> 's cli \<Rightarrow> 's boot_env" where
  "sample_boot sc cancelled cli = \<lparr>be_cli = cli, be_cancelled = cancelled, be_retry_pause = (\<lambda>s. (True, s)), be_pause = (\<lambda>s. (True, s)),
     be_clock = (\<lambda>_. 0), be_build = (\<lambda>_ _ s. (Inr (), s)), be_healthz = (\<lambda>_ s. (True, s)), be_polls = 1, be_read = Inr,
     be_yaml = (\<lambda>_. (Inr sc, None)), be_duration = ten_minutes, be_show_duration = int_dec, be_wire = (\<lambda>_. Inr ''[]''),
     be_marshal = (\<lambda>_. Inr ''{}''), be_unmarshal = (\<lambda>_. Inr []), be_sha = id, be_encode = (\<lambda>_. Inr ''{}''),
     be_decode = (\<lambda>_. Inl ''unknown''), be_write = (\<lambda>p. \<lparr>wa_mkdir = Inr (), wa_temp = Inr (p @ ''~''), wa_write = None, wa_close = Inr (), wa_rename = Inr ()\<rparr>),
     be_keeps = (\<lambda>_. None)\<rparr>"

lemma sample_tame: "tame (sample_boot sc c (logging cli)) cli"
  by (simp add: tame_def sample_boot_def)

definition sample_up :: boot_options where
  "sample_up = \<lparr>op_scenario = ''net.yaml'', op_enclave = ''net'', op_package = ''.'', op_tear_down = True, op_wait_control = 60,
     op_hang = 90, op_rebuild_goxrpl = [], op_rebuild_rippled = [], op_dashboard = False, op_budget = 0, op_resume = False,
     op_reset = False, op_wait_network = 180\<rparr>"

text \<open>A command line that lists one enclave.\<close>

definition listing :: "unit cli" where
  "listing args s = ((sample_run (Inr ()) [])\<lparr>cr_out := ''UUID Name Status'' @ [newline] @ ''aa net RUNNING''\<rparr>, s)"

theorem atomic_write_witness:
  "map_of (last (snd (writeAtomic \<lparr>wa_mkdir = Inr (), wa_temp = Inr ''t'', wa_write = Some 1, wa_close = Inr (), wa_rename = Inr ()\<rparr>
     ''f'' ''new'' [(''f'', ''old'')]))) ''f'' = Some ''old''"
proof -
  let ?a = "\<lparr>wa_mkdir = Inr (), wa_temp = Inr ''t'', wa_write = Some 1, wa_close = Inr (), wa_rename = Inr ()\<rparr>"
  obtain r ds where run: "writeAtomic ?a ''f'' ''new'' [(''f'', ''old'')] = (r, ds)" by fastforce
  have "map_of (last ds) = (if isl r then map_of [(''f'', ''old'')] else (map_of [(''f'', ''old'')])(''f'' \<mapsto> ''new''))"
    using atomic_write [OF run] by simp
  moreover have "isl r" using run by (auto simp: writeAtomic_def)
  ultimately show ?thesis unfolding run by simp
qed

lemma proc_result: obtains r s l d where "p = (r, ((s, l), d))"
  by (cases p) auto

definition sample_net :: scenario where
  "sample_net = (sample_scenario ''none'')\<lparr>sn_stop_on := [], sn_oracles := []\<rparr>"

lemma sample_net_boots: "boot_scenario (sample_boot sample_net c cli) sample_up = Inr sample_net" "wl_kind (sn_workload sample_net) = ''none''"
proof -
  have "Validate ten_minutes (Some sample_net) = []" by code_simp
  then show "boot_scenario (sample_boot sample_net c cli) sample_up = Inr sample_net"
    by (simp add: boot_scenario_def with_flags_def sample_boot_def sample_up_def LoadScenario_def ParseScenario_def)
  show "wl_kind (sn_workload sample_net) = ''none''" by (simp add: sample_net_def sample_scenario_def)
qed

theorem boot_keeps_ledger_data_witness:
  "\<exists>e s' d'. boot (sample_boot sample_net (\<lambda>_. False) (logging listing)) sample_up (((), []), []) = (Some (Inl e), ((s', [ls_args]), d'))"
proof -
  let ?env = "sample_boot sample_net (\<lambda>_. False) (logging listing)"
  obtain r s' made d' where run: "boot ?env sample_up (((), []), []) = (r, ((s', made), d'))" by (rule proc_result)
  have "scan_lines (''UUID Name Status'' @ [newline] @ ''aa net RUNNING'') = [''UUID Name Status'', ''aa net RUNNING'']"
    by (simp add: scan_lines_def maxToken_def drop_cr_def newline_def)
  moreover have "trim_space ''UUID Name Status'' \<noteq> []" "trim_space ''aa net RUNNING'' \<noteq> []" "name_column (words ''UUID Name Status'') = 1"
    "words ''aa net RUNNING'' = [''aa'', ''net'', ''RUNNING'']" by code_simp+
  ultimately have listed: "ListEnclaves listing () = (Inr [''net''], ())"
    by (simp add: ListEnclaves_def listing_def sample_run_def enclave_names_def Let_def)
  have flags: "\<not> op_reset sample_up" "\<not> op_resume sample_up" "boot_enclave sample_up sample_net = ''net''"
    by (simp_all add: sample_up_def boot_enclave_def)
  from conjunct2 [OF boot_keeps_ledger_data [OF sample_tame sample_net_boots flags(1) run]] listed flags
  show ?thesis using run by auto
qed

definition sample_repro :: scenario where
  "sample_repro = replay_of ''rep-1'' (sample_scenario ''soak'')"

text \<open>The reproducer is valid; what fails is the compilation.\<close>

theorem replay_never_boots_witness:
  "Validate ten_minutes (Some sample_repro) = [] \<and> (\<exists>e s' d'. boot (sample_boot sample_repro (\<lambda>_. False) (logging listing))
     (sample_up\<lparr>op_scenario := ''rep-1.yaml''\<rparr>) (((), []), []) = (Some (Inl e), ((s', []), d')))"
proof
  show "Validate ten_minutes (Some sample_repro) = []" by code_simp
  let ?env = "sample_boot sample_repro (\<lambda>_. False) (logging listing)" and ?opt = "sample_up\<lparr>op_scenario := ''rep-1.yaml''\<rparr>"
  obtain r s' made d' where run: "boot ?env ?opt (((), []), []) = (r, ((s', made), d'))" by (rule proc_result)
  have "LoadScenario (be_read ?env) (be_yaml ?env) (op_scenario ?opt) = Inr (replay_of ''rep-1'' (sample_scenario ''soak''))"
    by (simp add: sample_boot_def sample_repro_def LoadScenario_def ParseScenario_def)
  from replay_never_boots [OF sample_tame this run] show "\<exists>e s' d'. boot ?env ?opt (((), []), []) = (Some (Inl e), ((s', []), d'))"
    using run by auto
qed

theorem tearDown_forgets_witness:
  "\<exists>s' d'. tearDown (sample_boot sample_net (\<lambda>_. False) (logging listing)) ''net'' (((), []), [(''.confluence/networks/net.json'', ''{}'')])
     = (Some (Inr ''net''), ((s', [rm_args ''net'']), d')) \<and> map_of d' ''.confluence/networks/net.json'' = None"
proof -
  let ?env = "sample_boot sample_net (\<lambda>_. False) (logging listing)" and ?d = "[(''.confluence/networks/net.json'', ''{}'')]"
  have path: "networkPath ?env ''net'' = ''.confluence/networks/net.json''" by (simp add: networkPath_def sample_boot_def path_join_def)
  have "fst (tearDown ?env ''net'' (((), []), ?d)) = Some (Inr ''net'')" by code_simp
  then obtain s' made d' where run: "tearDown ?env ''net'' (((), []), ?d) = (Some (Inr ''net''), ((s', made), d'))"
    by (metis proc_result fst_conv)
  have "be_cli ?env = logging listing" by (simp add: sample_boot_def)
  from tearDown_forgets [OF this _ _ run] show ?thesis using run by (simp add: path current_path_def)
qed

end
