(* ===== verification/Api_Client.thy ===== *)
theory Api_Client
  imports Handlers Runs
begin

text \<open>
  The client of the control API (\<open>sidecar/internal/client/client.go\<close>): the requests it makes, what it takes from the
  responses and what it makes of an error. The transport and the decoders are parameters; the encoding of URLs and queries, and
  the server's decoding, are those of \<open>net/url\<close>.
\<close>

section \<open>URLs\<close>

definition unreserved :: "char \<Rightarrow> bool" where
  "unreserved c \<longleftrightarrow> is_digit c \<or> is_letter c \<or> c \<in> set ''-_.~''"

definition hex_pair :: "char \<Rightarrow> string" where
  "hex_pair c = [CHR ''%'', digit_char (of_char c div 16), digit_char (of_char c mod 16)]"

definition query_char :: "char \<Rightarrow> string" where
  "query_char c = (if unreserved c then [c] else if c = CHR '' '' then ''+'' else hex_pair c)"

definition QueryEscape :: "string \<Rightarrow> string" where
  "QueryEscape s = concat (map query_char s)"

definition PathEscape :: "string \<Rightarrow> string" where
  "PathEscape s = concat (map (\<lambda>c. if unreserved c \<or> c \<in> set ''$&+=:@'' then [c] else hex_pair c) s)"

text \<open>The values are given in the alphabetical order of their keys, in which \<open>Encode\<close> writes them.\<close>

definition encode_query :: "(string \<times> string) list \<Rightarrow> string" where
  "encode_query kvs = str_join ''&'' (map (\<lambda>(k, v). QueryEscape k @ ''='' @ QueryEscape v) kvs)"

definition hex_digit :: "char \<Rightarrow> nat option" where
  "hex_digit c = (if is_digit c then Some (of_char c - 48) else if char_in c 65 70 then Some (of_char c - 55)
     else if char_in c 97 102 then Some (of_char c - 87) else None)"

fun unescape :: "string \<Rightarrow> string option" where
  "unescape [] = Some []"
| "unescape (c # cs) =
     (if c = CHR ''%'' then
        (case cs of a # b # ds \<Rightarrow> (case (hex_digit a, hex_digit b) of
            (Some x, Some y) \<Rightarrow> map_option ((#) (char_of (16 * x + y))) (unescape ds) | _ \<Rightarrow> None)
         | _ \<Rightarrow> None)
      else map_option ((#) (if c = CHR ''+'' then CHR '' '' else c)) (unescape cs))"

text \<open>\<open>url.ParseQuery\<close>: a part that does not decode is left out.\<close>

definition query_part :: "string \<Rightarrow> (string \<times> string) list" where
  "query_part p = (if p = [] \<or> CHR '';'' \<in> set p then []
     else let k = takeWhile (\<lambda>c. c \<noteq> CHR ''='') p; v = drop (Suc (length k)) p
          in case (unescape k, unescape v) of (Some k', Some v') \<Rightarrow> [(k', v')] | _ \<Rightarrow> [])"

definition parse_query :: "string \<Rightarrow> (string \<times> string) list" where
  "parse_query q = concat (map query_part (split_on (CHR ''&'') q))"

definition query_get :: "(string \<times> string) list \<Rightarrow> string \<Rightarrow> string" where
  "query_get kvs k = (case map_of kvs k of None \<Rightarrow> [] | Some v \<Rightarrow> v)"

section \<open>Requests and responses\<close>

text \<open>\<open>Transport\<close> is the error of a request that got no response, \<open>Decode_Error\<close> that of a body that does not decode.\<close>

datatype client_error = Api_Error nat api_error | Http_Error nat string | Transport string | Decode_Error string

record response =
  rs_status :: nat
  rs_body :: string

record 's api_client =
  ac_base :: string
  ac_do :: "string \<Rightarrow> string \<Rightarrow> string option \<Rightarrow> 's \<Rightarrow> response go_result \<times> 's"
  ac_envelope :: "string \<Rightarrow> api_error option"

definition NewClient :: "string \<Rightarrow> (string \<Rightarrow> string \<Rightarrow> string option \<Rightarrow> 's \<Rightarrow> response go_result \<times> 's) \<Rightarrow> (string \<Rightarrow> api_error option) \<Rightarrow> 's api_client" where
  "NewClient url transport envelope = \<lparr>ac_base = rev (dropWhile (\<lambda>c. c = CHR ''/'') (rev url)), ac_do = transport, ac_envelope = envelope\<rparr>"

definition apiError :: "'s api_client \<Rightarrow> response \<Rightarrow> client_error" where
  "apiError c r = (let body = take 4096 (rs_body r) in case ac_envelope c body of
      Some e \<Rightarrow> if ae_code e \<noteq> [] then Api_Error (rs_status r) e else Http_Error (rs_status r) (trim_space (take 200 body))
    | None \<Rightarrow> Http_Error (rs_status r) (trim_space (take 200 body)))"

definition is_2xx :: "nat \<Rightarrow> bool" where
  "is_2xx n \<longleftrightarrow> 200 \<le> n \<and> n < 300"

text \<open>A request; a stream is left as it is, \<open>decode\<close> being \<open>Inr\<close> then.\<close>

definition request :: "'s api_client \<Rightarrow> string \<Rightarrow> string \<Rightarrow> string option \<Rightarrow> (string \<Rightarrow> 'a go_result) \<Rightarrow> 's \<Rightarrow> (client_error + 'a) \<times> 's" where
  "request c method path body decode s = (case ac_do c method (ac_base c @ path) body s of
      (Inl e, s') \<Rightarrow> (Inl (Transport e), s')
    | (Inr r, s') \<Rightarrow>
        (if \<not> is_2xx (rs_status r) then Inl (apiError c r)
         else case decode (rs_body r) of Inl e \<Rightarrow> Inl (Decode_Error (''decode response: '' @ e)) | Inr x \<Rightarrow> Inr x, s'))"

definition getJSON :: "'s api_client \<Rightarrow> string \<Rightarrow> (string \<Rightarrow> 'a go_result) \<Rightarrow> 's \<Rightarrow> (client_error + 'a) \<times> 's" where
  "getJSON c path decode s = request c ''GET'' path None decode s"

definition stateDiff_path :: "int \<Rightarrow> string" where
  "stateDiff_path n = ''/v1/state/diff'' @ (if 0 < n then ''?at='' @ int_dec n else [])"

definition findings_query :: "string \<Rightarrow> string \<Rightarrow> int \<Rightarrow> (string \<times> string) list" where
  "findings_query after kind limit = (if kind \<noteq> [] then [(''kind'', kind)] else [])
     @ (if 0 < limit then [(''limit'', int_dec limit)] else []) @ (if after \<noteq> [] then [(''since'', after)] else [])"

definition findings_path :: "string \<Rightarrow> string \<Rightarrow> int \<Rightarrow> string" where
  "findings_path after kind limit = (let q = findings_query after kind limit
     in ''/v1/findings'' @ (if q \<noteq> [] then ''?'' @ encode_query q else []))"

definition logs_query :: "(int \<Rightarrow> string) \<Rightarrow> string \<Rightarrow> int \<Rightarrow> string \<Rightarrow> bool \<Rightarrow> int \<Rightarrow> (string \<times> string) list" where
  "logs_query show_duration node dur grep follow limit = (if follow then [(''follow'', ''true'')] else [])
     @ (if grep \<noteq> [] then [(''grep'', grep)] else []) @ (if 0 < limit then [(''limit'', int_dec limit)] else [])
     @ [(''node'', node)] @ (if 0 < dur then [(''since'', show_duration dur)] else [])"

text \<open>The text of an error.\<close>

definition client_error_text :: "client_error \<Rightarrow> string" where
  "client_error_text e = (case e of
      Api_Error st a \<Rightarrow> ''api '' @ nat_dec st @ '': '' @ ae_code a @ '' ('' @ ae_message a @ '')''
    | Http_Error st body \<Rightarrow> ''http '' @ nat_dec st @ '': '' @ body
    | Transport t \<Rightarrow> t | Decode_Error t \<Rightarrow> t)"

definition client_Healthz :: "'s api_client \<Rightarrow> (string \<Rightarrow> 'a go_result) \<Rightarrow> 's \<Rightarrow> (client_error + 'a) \<times> 's" where
  "client_Healthz c = getJSON c ''/v1/healthz''"

definition client_Nodes :: "'s api_client \<Rightarrow> (string \<Rightarrow> 'a go_result) \<Rightarrow> 's \<Rightarrow> (client_error + 'a) \<times> 's" where
  "client_Nodes c = getJSON c ''/v1/nodes''"

definition client_Scenarios :: "'s api_client \<Rightarrow> (string \<Rightarrow> 'a go_result) \<Rightarrow> 's \<Rightarrow> (client_error + 'a) \<times> 's" where
  "client_Scenarios c = getJSON c ''/v1/scenarios''"

definition client_StateDiff :: "'s api_client \<Rightarrow> int \<Rightarrow> (string \<Rightarrow> 'a go_result) \<Rightarrow> 's \<Rightarrow> (client_error + 'a) \<times> 's" where
  "client_StateDiff c n = getJSON c (stateDiff_path n)"

definition client_Findings :: "'s api_client \<Rightarrow> string \<Rightarrow> string \<Rightarrow> int \<Rightarrow> (string \<Rightarrow> 'a go_result) \<Rightarrow> 's \<Rightarrow> (client_error + 'a) \<times> 's" where
  "client_Findings c after kind limit = getJSON c (findings_path after kind limit)"

definition client_FindingByID :: "'s api_client \<Rightarrow> string \<Rightarrow> (string \<Rightarrow> 'a go_result) \<Rightarrow> 's \<Rightarrow> (client_error + 'a) \<times> 's" where
  "client_FindingByID c i = getJSON c (''/v1/findings/'' @ PathEscape i)"

definition client_GetRun :: "'s api_client \<Rightarrow> string \<Rightarrow> (string \<Rightarrow> 'a go_result) \<Rightarrow> 's \<Rightarrow> (client_error + 'a) \<times> 's" where
  "client_GetRun c i = getJSON c (''/v1/runs/'' @ PathEscape i)"

definition client_Logs :: "'s api_client \<Rightarrow> (int \<Rightarrow> string) \<Rightarrow> string \<Rightarrow> int \<Rightarrow> string \<Rightarrow> bool \<Rightarrow> int \<Rightarrow> 's \<Rightarrow> (client_error + string) \<times> 's" where
  "client_Logs c show_duration node dur grep follow limit =
     request c ''GET'' (''/v1/logs?'' @ encode_query (logs_query show_duration node dur grep follow limit)) None Inr"

definition client_Events :: "'s api_client \<Rightarrow> 's \<Rightarrow> (client_error + string) \<times> 's" where
  "client_Events c = request c ''GET'' ''/v1/events'' None Inr"

text \<open>The two requests that send a scenario; \<open>body\<close> is its encoding.\<close>

definition post_scenario :: "'s api_client \<Rightarrow> string \<Rightarrow> string go_result \<Rightarrow> (string \<Rightarrow> 'a go_result) \<Rightarrow> 's \<Rightarrow> (client_error + 'a) \<times> 's" where
  "post_scenario c path body decode s = (case body of
      Inl e \<Rightarrow> (Inl (Decode_Error (''marshal scenario: '' @ e)), s)
    | Inr b \<Rightarrow> request c ''POST'' path (Some b) decode s)"

definition client_ValidateScenario :: "'s api_client \<Rightarrow> string go_result \<Rightarrow> (string \<Rightarrow> 'a go_result) \<Rightarrow> 's \<Rightarrow> (client_error + 'a) \<times> 's" where
  "client_ValidateScenario c = post_scenario c ''/v1/scenarios/validate''"

definition client_StartRun :: "'s api_client \<Rightarrow> string go_result \<Rightarrow> (string \<Rightarrow> 'a go_result) \<Rightarrow> 's \<Rightarrow> (client_error + 'a) \<times> 's" where
  "client_StartRun c = post_scenario c ''/v1/runs''"

section \<open>What is encoded is decoded\<close>

lemma below_16: "(n :: nat) < 16 \<Longrightarrow> n \<in> {0, 1, 2, 3, 4, 5, 6, 7, 8, 9, 10, 11, 12, 13, 14, 15}"
  by (simp; presburger)

lemma hex_digit_char: "n < 16 \<Longrightarrow> hex_digit (digit_char n) = Some n"
  by (drule below_16) (elim insertE emptyE; simp add: hex_digit_def digit_char_def is_digit_def char_in_def)

lemma digit_char_plain: "n < 16 \<Longrightarrow> digit_char n \<notin> {CHR ''&'', CHR ''='', CHR '';''}"
proof -
  assume "n < 16"
  then have "hex_digit (digit_char n) \<noteq> None" by (simp add: hex_digit_char)
  then show ?thesis by (auto simp: hex_digit_def is_digit_def char_in_def)
qed

lemma half_bytes: "(of_char c :: nat) div 16 < 16" "(of_char c :: nat) mod 16 < 16"
proof -
  have "(of_char c :: nat) < 16 * 16" by (metis of_char_mod_256 mod_less_divisor zero_less_numeral mult_numeral_1_right numeral_times_numeral semiring_norm(11,12,13,16))
  then show "(of_char c :: nat) div 16 < 16" by (rule less_mult_imp_div_less)
qed simp

lemma unescape_hex_pair: "unescape (hex_pair c @ s) = map_option ((#) c) (unescape s)"
proof -
  have "16 * ((of_char c :: nat) div 16) + of_char c mod 16 = of_char c" by simp
  then have c: "char_of (16 * ((of_char c :: nat) div 16) + of_char c mod 16) = c" by (metis char_of_char)
  have h: "hex_digit (digit_char (of_char c div 16)) = Some (of_char c div 16)"
    "hex_digit (digit_char (of_char c mod 16)) = Some (of_char c mod 16)" by (rule hex_digit_char, rule half_bytes)+
  have "hex_pair c @ s = CHR ''%'' # digit_char (of_char c div 16) # digit_char (of_char c mod 16) # s" by (simp add: hex_pair_def)
  then show ?thesis by (simp only: unescape.simps list.case h option.case prod.case c simp_thms if_True)
qed

lemma unescape_query_char: "unescape (query_char c @ s) = map_option ((#) c) (unescape s)"
proof -
  have "\<not> unreserved CHR ''%''" "\<not> unreserved CHR ''+''"
    by (simp_all add: unreserved_def is_digit_def is_letter_def char_in_def)
  then show ?thesis by (auto simp: query_char_def unescape_hex_pair)
qed

lemma unescape_QueryEscape: "unescape (QueryEscape s) = Some s"
proof (induction s)
  case (Cons c s)
  have "QueryEscape (c # s) = query_char c @ QueryEscape s" by (simp add: QueryEscape_def)
  then show ?case using Cons by (simp add: unescape_query_char)
qed (simp add: QueryEscape_def)

lemma query_char_plain: "set (query_char c) \<inter> {CHR ''&'', CHR ''='', CHR '';''} = {}"
proof -
  have "\<not> unreserved CHR ''&''" "\<not> unreserved CHR ''=''" "\<not> unreserved CHR '';''"
    by (simp_all add: unreserved_def is_digit_def is_letter_def char_in_def)
  then show ?thesis using digit_char_plain [OF half_bytes(1) [of c]] digit_char_plain [OF half_bytes(2) [of c]]
    by (auto simp: query_char_def hex_pair_def)
qed

lemma QueryEscape_plain: "set (QueryEscape s) \<inter> {CHR ''&'', CHR ''='', CHR '';''} = {}"
  using query_char_plain by (fastforce simp: QueryEscape_def)

lemma query_part_pair: "query_part (QueryEscape k @ ''='' @ QueryEscape v) = [(k, v)]"
proof -
  have k: "c \<in> set (QueryEscape k) \<Longrightarrow> c \<noteq> CHR ''=''" for c using QueryEscape_plain [of k] by blast
  then have "takeWhile (\<lambda>c. c \<noteq> CHR ''='') (QueryEscape k @ ''='' @ QueryEscape v) = QueryEscape k"
    by (subst takeWhile_append2) auto
  moreover have "CHR '';'' \<notin> set (QueryEscape k @ ''='' @ QueryEscape v)"
    using QueryEscape_plain [of k] QueryEscape_plain [of v] by auto
  ultimately show ?thesis by (simp add: query_part_def Let_def unescape_QueryEscape del: set_append)
qed

lemma split_on_prefix: "d \<notin> set x \<Longrightarrow> split_on d (x @ d # s) = x # split_on d s"
  by (induction x) auto

lemma split_on_free: "d \<notin> set x \<Longrightarrow> split_on d x = [x]"
  by (induction x) auto

lemma split_on_join: "xs \<noteq> [] \<Longrightarrow> \<forall>x \<in> set xs. d \<notin> set x \<Longrightarrow> split_on d (str_join [d] xs) = xs"
  by (induction "[d]" xs rule: str_join.induct) (simp_all add: split_on_prefix split_on_free)

lemma parse_encode_query: "parse_query (encode_query kvs) = kvs"
proof (cases kvs)
  case (Cons kv r)
  let ?w = "\<lambda>(k, v). QueryEscape k @ ''='' @ QueryEscape v"
  have "\<forall>x \<in> set (map ?w kvs). CHR ''&'' \<notin> set x"
    using QueryEscape_plain by auto
  then have "split_on (CHR ''&'') (encode_query kvs) = map ?w kvs"
    unfolding encode_query_def by (intro split_on_join) (simp_all add: Cons)
  moreover have "concat (map query_part (map ?w l)) = l" for l
    by (induction l) (auto simp: query_part_pair simp del: append.simps)
  ultimately show ?thesis by (simp add: parse_query_def)
qed (simp add: encode_query_def parse_query_def query_part_def)

section \<open>The server is asked what the client was asked\<close>

lemma is_digit_range: "is_digit c \<longleftrightarrow> of_char c \<in> {48 :: nat .. 57}"
  by (auto simp: is_digit_def char_in_def)

lemma atoi_int_dec: "0 \<le> i \<Longrightarrow> i < 2 ^ 63 \<Longrightarrow> atoi (int_dec i) = Inr i"
proof -
  assume i: "0 \<le> i" "i < 2 ^ 63"
  obtain c cs where d: "nat_dec (nat i) = c # cs" by (cases "nat_dec (nat i)") auto
  then have "of_char c \<in> {48 :: nat .. 57}" using nat_dec_digits [of c "nat i"] by simp
  then have "c \<noteq> CHR ''-''" "c \<noteq> CHR ''+''" by auto
  then have "scan_sign (int_dec i) = (False, nat_dec (nat i))" using i d by (simp add: int_dec_def)
  then show ?thesis using i by (simp add: atoi_def)
qed

lemma findings_query_get:
  "query_get (findings_query after kind limit) ''limit'' = (if 0 < limit then int_dec limit else [])"
  "query_get (findings_query after kind limit) ''since'' = after"
  "query_get (findings_query after kind limit) ''kind'' = kind"
  by (simp_all add: query_get_def findings_query_def)

text \<open>C21: The query string the client sends for a list of findings, decoded by the server, makes the server list the store with
  the arguments the client was called with, whatever characters they hold; a limit that is not positive is the default of 100.
\<close>

theorem findings_request_served:
  fixes after kind :: string and limit :: int
  assumes "limit < 2 ^ 63"
  defines "q \<equiv> parse_query (encode_query (findings_query after kind limit))"
  shows "findingsList (query_get q ''limit'') (query_get q ''since'') (query_get q ''kind'') (Some st)
    = map_option Inr (store_list st \<lparr>lo_since = after, lo_kind = kind, lo_limit = if 0 < limit then limit else 100\<rparr>)"
proof (cases "0 < limit")
  case True
  then have "atoi (int_dec limit) = Inr limit" using assms(1) by (simp add: atoi_int_dec)
  moreover have "int_dec limit \<noteq> []" using True by (simp add: int_dec_def)
  ultimately show ?thesis using True by (simp add: q_def parse_encode_query findings_query_get findingsList_def)
qed (simp add: q_def parse_encode_query findings_query_get findingsList_def)

theorem findings_request_served_witness:
  "findingsList (query_get (parse_query (encode_query (findings_query ''f&1'' ''a=b%;'' 7))) ''limit'')
     (query_get (parse_query (encode_query (findings_query ''f&1'' ''a=b%;'' 7))) ''since'')
     (query_get (parse_query (encode_query (findings_query ''f&1'' ''a=b%;'' 7))) ''kind'') (Some NewStore)
   = map_option Inr (store_list NewStore \<lparr>lo_since = ''f&1'', lo_kind = ''a=b%;'', lo_limit = 7\<rparr>)"
  using findings_request_served [of 7 "''f&1''" "''a=b%;''" NewStore] by simp

end
