(* ===== verification/Commands.thy ===== *)
theory Commands
  imports Lifecycle_Properties Api_Client
begin

text \<open>
  The commands of \<open>sidecar/cmd/confluence\<close> that show and fetch: \<open>status.go\<close>, \<open>findings.go\<close>, \<open>ls.go\<close>, \<open>scenario.go\<close>,
  \<open>logs.go\<close>, \<open>pull.go\<close>, and \<open>endpoints\<close>, \<open>down\<close> and \<open>up\<close> of \<open>network.go\<close>, \<open>down.go\<close> and \<open>up.go\<close>. A command gives what it
  prints and its error. Tables are shown as the rows written to the tabwriter, which aligns them; the JSON encoders, the
  clock's formats, HTTP, docker and kurtosis are parameters.
\<close>

section \<open>What a command prints\<close>

type_synonym printed = "string \<times> unit go_result"

type_synonym 'w command = "'w \<Rightarrow> printed option \<times> 'w"

definition command_of :: "('w, 'a) proc \<Rightarrow> ('a \<Rightarrow> printed) \<Rightarrow> 'w command" where
  "command_of p f w = (case p w of
      (None, w') \<Rightarrow> (None, w') | (Some (Inl e), w') \<Rightarrow> (Some ([], Inl e), w') | (Some (Inr x), w') \<Rightarrow> (Some (f x), w'))"

text \<open>With \<open>--json\<close> a command has an encoder for its result, and prints that.\<close>

definition emit :: "('a \<Rightarrow> string go_result) option \<Rightarrow> ('a \<Rightarrow> string) \<Rightarrow> 'a \<Rightarrow> printed" where
  "emit json plain x = (case json of None \<Rightarrow> (plain x, Inr ())
     | Some e \<Rightarrow> (case e x of Inl m \<Rightarrow> ([], Inl m) | Inr t \<Rightarrow> (t @ [newline], Inr ())))"

definition tab_row :: "string list \<Rightarrow> string" where
  "tab_row cells = str_join [CHR 0x09] cells @ [newline]"

record 's cli_env =
  ct_boot :: "'s boot_env"
  ct_http :: "string \<Rightarrow> string \<Rightarrow> string option \<Rightarrow> 's \<Rightarrow> response go_result \<times> 's"
  ct_envelope :: "string \<Rightarrow> api_error option"
  ct_health :: "string \<Rightarrow> health go_result"
  ct_nodes :: "string \<Rightarrow> node_view list go_result"
  ct_findings :: "string \<Rightarrow> finding list go_result"
  ct_finding :: "string \<Rightarrow> finding go_result"
  ct_diff :: "string \<Rightarrow> state_diff go_result"
  ct_counts :: "string \<Rightarrow> (int \<times> int) go_result"
  ct_show_time :: "int \<Rightarrow> string"
  ct_indent :: "finding \<Rightarrow> string go_result"

definition api_of :: "'s cli_env \<Rightarrow> string \<Rightarrow> 's api_client" where
  "api_of env url = NewClient url (ct_http env) (ct_envelope env)"

text \<open>A request of the client, its error wrapped.\<close>

definition ask :: "string \<Rightarrow> ('s \<Rightarrow> (client_error + 'a) \<times> 's) \<Rightarrow> ('s \<times> disk, 'a) proc" where
  "ask what f = on_world (\<lambda>s. case f s of (Inl e, s') \<Rightarrow> (Inl (what @ client_error_text e), s') | (Inr x, s') \<Rightarrow> (Inr x, s'))"

section \<open>Status\<close>

record status_snapshot =
  ss_health :: health
  ss_nodes :: "node_view list"
  ss_latest :: "finding option"
  ss_diff :: state_diff

definition fetchStatus :: "'s cli_env \<Rightarrow> string \<Rightarrow> ('s \<times> disk, status_snapshot) proc" where
  "fetchStatus env url = (let c = api_of env url in
     sbind (ask ''healthz: '' (client_Healthz c (ct_health env))) (\<lambda>h.
     sbind (ask ''nodes: '' (client_Nodes c (ct_nodes env))) (\<lambda>nodes.
     sbind (ask ''findings: '' (client_Findings c [] [] 1 (ct_findings env))) (\<lambda>fs.
     sbind (ask ''state/diff: '' (client_StateDiff c 0 (ct_diff env))) (\<lambda>diff.
       ok \<lparr>ss_health = h, ss_nodes = nodes, ss_latest = (case fs of [] \<Rightarrow> None | f # _ \<Rightarrow> Some f), ss_diff = diff\<rparr>)))))"

definition go_bool :: "bool \<Rightarrow> string" where
  "go_bool b = (if b then ''true'' else ''false'')"

definition node_row :: "node_view \<Rightarrow> string" where
  "node_row n = (let v = nv_validated n in
     tab_row [nv_name n, nv_type n, nv_status n, (case v of None \<Rightarrow> [] | Some r \<Rightarrow> int_dec (lr_seq r)),
       (case v of None \<Rightarrow> [] | Some r \<Rightarrow> take 8 (lr_hash r)), int_dec (nv_peers n)])"

definition printStatus :: "status_snapshot \<Rightarrow> string" where
  "printStatus s =
     ''Health:  scenario='' @ hz_scenario (ss_health s) @ ''  uptime='' @ int_dec (hz_uptime (ss_health s)) @ ''s  budget=''
       @ (case hz_remaining (ss_health s) of None \<Rightarrow> ''n/a'' | Some r \<Rightarrow> int_dec r @ ''s'') @ [newline, newline]
     @ tab_row [''NAME'', ''TYPE'', ''STATUS'', ''SEQ'', ''HASH'', ''PEERS''] @ concat (map node_row (ss_nodes s))
     @ [newline] @ ''State diff:  ledger='' @ int_dec (sd_ledger (ss_diff s)) @ ''  diverged='' @ go_bool (sd_diverged (ss_diff s)) @ [newline]
     @ [newline] @ ''Latest finding: '' @ (case ss_latest s of None \<Rightarrow> ''no findings yet''
         | Some f \<Rightarrow> fd_id f @ ''  '' @ fd_kind f @ ''  '' @ fd_summary f) @ [newline]"

definition clear_screen :: string where
  "clear_screen = [CHR 0x1B] @ ''[2J'' @ [CHR 0x1B] @ ''[H''"

text \<open>The rounds of \<open>--watch\<close>; \<open>None\<close>: it is still watching.\<close>

fun watch_status :: "'s cli_env \<Rightarrow> (status_snapshot \<Rightarrow> string go_result) option \<Rightarrow> string \<Rightarrow> nat \<Rightarrow> string \<Rightarrow> ('s \<times> disk) command" where
  "watch_status env json url 0 acc w = (None, w)"
| "watch_status env json url (Suc k) acc w = (case command_of (fetchStatus env url) (emit json printStatus) w of
      (None, w1) \<Rightarrow> (None, w1)
    | (Some (t, Inl e), w1) \<Rightarrow> (Some (acc @ clear_screen @ t, Inl e), w1)
    | (Some (t, Inr _), w1) \<Rightarrow> (case be_pause (ct_boot env) (fst w1) of
        (False, s2) \<Rightarrow> (Some (acc @ clear_screen @ t, Inr ()), (s2, snd w1))
      | (True, s2) \<Rightarrow> watch_status env json url k (acc @ clear_screen @ t) (s2, snd w1)))"

text \<open>A command that first finds the control service.\<close>

definition at_control :: "'s cli_env \<Rightarrow> string \<Rightarrow> string \<Rightarrow> (string \<Rightarrow> ('s \<times> disk) command) \<Rightarrow> ('s \<times> disk) command" where
  "at_control env control_url enclave f w = (case resolveControlURL (ct_boot env) control_url enclave w of
      (None, w1) \<Rightarrow> (None, w1) | (Some (Inl e), w1) \<Rightarrow> (Some ([], Inl e), w1) | (Some (Inr url), w1) \<Rightarrow> f url w1)"

definition runStatus :: "'s cli_env \<Rightarrow> (status_snapshot \<Rightarrow> string go_result) option \<Rightarrow> string \<Rightarrow> string \<Rightarrow> nat option \<Rightarrow> ('s \<times> disk) command" where
  "runStatus env json control_url enclave watch = at_control env control_url enclave (\<lambda>url.
     case watch of None \<Rightarrow> command_of (fetchStatus env url) (emit json printStatus)
       | Some rounds \<Rightarrow> watch_status env json url rounds [])"

section \<open>Findings\<close>

definition finding_row :: "(int \<Rightarrow> string) \<Rightarrow> finding \<Rightarrow> string" where
  "finding_row show_time f = tab_row [fd_id f, fd_kind f, show_time (fd_opened f),
     if 80 < length (fd_summary f) then take 77 (fd_summary f) @ ''...'' else fd_summary f]"

definition runFindings :: "'s cli_env \<Rightarrow> (finding list \<Rightarrow> string go_result) option \<Rightarrow> string \<Rightarrow> string \<Rightarrow> string \<Rightarrow> string \<Rightarrow> int \<Rightarrow> ('s \<times> disk) command" where
  "runFindings env json control_url enclave after kind limit = at_control env control_url enclave (\<lambda>url.
     command_of (ask ''findings: '' (client_Findings (api_of env url) after kind limit (ct_findings env)))
       (emit json (\<lambda>fs. tab_row [''ID'', ''KIND'', ''OPENED_AT'', ''SUMMARY''] @ concat (map (finding_row (ct_show_time env)) fs))))"

definition show_error :: "(string \<times> string \<Rightarrow> string go_result) option \<Rightarrow> string \<Rightarrow> client_error \<Rightarrow> printed" where
  "show_error json i e = (case e of
      Api_Error st a \<Rightarrow> if st = 404
        then ((case json of None \<Rightarrow> [] | Some enc \<Rightarrow> (case enc (ae_code a, ae_message a) of Inl _ \<Rightarrow> [] | Inr t \<Rightarrow> t @ [newline])),
              Inl (''finding not found: '' @ i))
        else ([], Inl (''finding show: '' @ client_error_text e))
    | _ \<Rightarrow> ([], Inl (''finding show: '' @ client_error_text e)))"

definition runFindingShow :: "'s cli_env \<Rightarrow> (string \<times> string \<Rightarrow> string go_result) option \<Rightarrow> string \<Rightarrow> string \<Rightarrow> string \<Rightarrow> ('s \<times> disk) command" where
  "runFindingShow env json control_url enclave i = at_control env control_url enclave (\<lambda>url w.
     case client_FindingByID (api_of env url) i (ct_finding env) (fst w) of (r, s') \<Rightarrow>
       (Some (case r of Inl e \<Rightarrow> show_error json i e
          | Inr f \<Rightarrow> (case ct_indent env f of Inl e \<Rightarrow> ([], Inl e) | Inr t \<Rightarrow> (t @ [newline], Inr ()))), (s', snd w)))"

section \<open>Scenarios\<close>

definition error_line :: "api_error \<Rightarrow> string" where
  "error_line e = (if ae_field e = [] then [] else ae_field e @ '': '') @ ae_message e @ [newline]"

definition outputValidation :: "(bool \<times> api_error list \<Rightarrow> string go_result) option \<Rightarrow> bool \<Rightarrow> api_error list \<Rightarrow> printed" where
  "outputValidation json valid errs =
     (case emit json (\<lambda>_. if valid then ''ok'' @ [newline] else concat (map error_line errs)) (valid, errs) of
        (t, Inl e) \<Rightarrow> (t, Inl e)
      | (t, Inr _) \<Rightarrow> (t, if valid then Inr () else Inl ''scenario invalid''))"

definition unreadable :: "string \<Rightarrow> api_error" where
  "unreadable e = \<lparr>ae_code = ''scenario_unreadable'', ae_message = e, ae_field = [], ae_hint = []\<rparr>"

definition scenario_validate :: "'s boot_env \<Rightarrow> (bool \<times> api_error list \<Rightarrow> string go_result) option \<Rightarrow> string \<Rightarrow> printed" where
  "scenario_validate env json path = (case LoadScenario (be_read env) (be_yaml env) path of
      Inl e \<Rightarrow> outputValidation json False [unreadable e]
    | Inr sc \<Rightarrow> (let errs = Validate (be_duration env) (Some sc) in outputValidation json (errs = []) errs))"

section \<open>Enclaves\<close>

record enclave_row =
  er_enclave :: string
  er_scenario :: string
  er_status :: string
  er_control :: string
  er_started :: string

text \<open>One enclave; a control service that was switched off is told from one that does not answer.\<close>

definition probe :: "'s cli_env \<Rightarrow> string \<Rightarrow> 's \<times> disk \<Rightarrow> enclave_row \<times> ('s \<times> disk)" where
  "probe env name w = (let row = \<lparr>er_enclave = name, er_scenario = [], er_status = ''unhealthy'', er_control = [], er_started = []\<rparr> in
     case InspectService (be_cli (ct_boot env)) name ''confluence-control'' (fst w) of
       (Inl e, s1) \<Rightarrow>
         (row\<lparr>er_status := (case ReadNetwork (ct_boot env) name (snd w) of
             Inr raw \<Rightarrow> if \<not> controlEnabled (ct_boot env) raw then ''control disabled'' else ''unhealthy: '' @ e
           | Inl _ \<Rightarrow> ''unhealthy: '' @ e)\<rparr>, (s1, snd w))
     | (Inr svc, s1) \<Rightarrow>
         (let url = serviceAddress svc ''http'' ''http'' 8090 in
          if url = [] then (row\<lparr>er_status := ''unhealthy: no control endpoint''\<rparr>, (s1, snd w))
          else case client_Healthz (api_of env url) (ct_health env) s1 of
              (Inl e, s2) \<Rightarrow> (row\<lparr>er_control := url, er_status := ''unhealthy: '' @ client_error_text e\<rparr>, (s2, snd w))
            | (Inr h, s2) \<Rightarrow>
                (row\<lparr>er_control := url, er_status := ''ok'', er_scenario := hz_scenario h,
                   er_started := (if 0 < hz_uptime h then ct_show_time env (be_clock (ct_boot env) s2 - hz_uptime h * 10 ^ 9) else [])\<rparr>,
                 (s2, snd w))))"

fun probe_all :: "'s cli_env \<Rightarrow> string list \<Rightarrow> ('s \<times> disk, enclave_row list) proc" where
  "probe_all env [] = ok []"
| "probe_all env (n # ns) = (\<lambda>w. case probe env n w of (row, w1) \<Rightarrow> sbind (probe_all env ns) (\<lambda>rows. ok (row # rows)) w1)"

definition enclave_cells :: "enclave_row \<Rightarrow> string list" where
  "enclave_cells r = [er_enclave r, er_scenario r, er_status r, er_control r, er_started r]"

definition runLs :: "'s cli_env \<Rightarrow> (enclave_row list \<Rightarrow> string go_result) option \<Rightarrow> ('s \<times> disk) command" where
  "runLs env json = command_of
     (sbind (on_world (\<lambda>s. case ListEnclaves (be_cli (ct_boot env)) s of (r, s') \<Rightarrow> (ewrap ''ls: '' r, s'))) (probe_all env))
     (emit json (\<lambda>rows. tab_row [''ENCLAVE'', ''SCENARIO'', ''STATUS'', ''CONTROL_URL'', ''STARTED_AT'']
        @ concat (map (\<lambda>r. tab_row (enclave_cells r)) rows)))"

definition node_line :: "node_endpoint \<Rightarrow> string" where
  "node_line n = ne_name n @ '': RPC '' @ ne_rpc n @ '' | WS '' @ ne_ws n @ '' | peer '' @ ne_peer n @ [newline]"

definition printEndpoints :: "current \<Rightarrow> string" where
  "printEndpoints cur = (if cu_dashboard cur = [] then [] else ''Dashboard: '' @ cu_dashboard cur @ [newline])
     @ concat (map node_line (cu_nodes cur))"

text \<open>The network of the flag or of the discovery file, asked again for its addresses. The zero time has no meaning.\<close>

definition bare_current :: "string \<Rightarrow> current" where
  "bare_current enclave = \<lparr>cu_enclave = enclave, cu_control = [], cu_scenario = [], cu_started = 0, cu_dashboard = [], cu_nodes = []\<rparr>"

definition endpoints :: "'s cli_env \<Rightarrow> string \<Rightarrow> ('s \<times> disk, current) proc" where
  "endpoints env flag w = (let env' = ct_boot env in
     case (if flag \<noteq> [] then Inr flag else case Read_current env' (snd w) of
         None \<Rightarrow> Inl ''no current network: file does not exist''
       | Some (Inl e) \<Rightarrow> Inl (''no current network: '' @ e) | Some (Inr c) \<Rightarrow> Inr (cu_enclave c)) of
       Inl e \<Rightarrow> (Some (Inl e), w)
     | Inr enclave \<Rightarrow>
         sbind (lift_result (ReadNetwork env' enclave (snd w))) (\<lambda>raw.
         sbind (lift_result (ct_counts env raw)) (\<lambda>(rippled, goxrpl).
         sbind (discoverNetwork env' (bare_current enclave) rippled goxrpl raw) (\<lambda>cur.
         if controlEnabled env' raw
         then sbind (inspect env' enclave ''confluence-control'') (\<lambda>svc. ok (cur\<lparr>cu_control := serviceAddress svc ''http'' ''http'' 8090\<rparr>))
         else ok cur))) w)"

definition runEndpoints :: "'s cli_env \<Rightarrow> (current \<Rightarrow> string go_result) option \<Rightarrow> string \<Rightarrow> ('s \<times> disk) command" where
  "runEndpoints env json flag = command_of (endpoints env flag)
     (emit json (\<lambda>cur. (if cu_control cur = [] then [] else ''Control: '' @ cu_control cur @ [newline]) @ printEndpoints cur))"

definition emitDown :: "(string \<Rightarrow> string go_result) option \<Rightarrow> string \<Rightarrow> printed" where
  "emitDown json = emit json (\<lambda>enclave. ''Removed enclave '' @ go_quote enclave @ [newline])"

definition runDown :: "'s boot_env \<Rightarrow> (string \<Rightarrow> string go_result) option \<Rightarrow> string option \<Rightarrow> string \<Rightarrow> ('s \<times> disk) command" where
  "runDown env json arg flag = (let name = (case arg of None \<Rightarrow> [] | Some a \<Rightarrow> a)
     in command_of (tearDown env (if name = [] then flag else name)) (emitDown json))"

definition emitUp :: "(current \<Rightarrow> string go_result) option \<Rightarrow> current \<Rightarrow> printed" where
  "emitUp json = emit json (\<lambda>cur. ''Confluence enclave '' @ go_quote (cu_enclave cur)
     @ (if cu_control cur = [] then '' ready'' else '' ready at '' @ cu_control cur) @ [newline] @ printEndpoints cur)"

text \<open>A scenario that is refused is answered like \<open>scenario validate\<close> answers it; \<open>boot_refusal\<close> is what a failed boot prints, and its
  error.\<close>

definition boot_refusal :: "'s boot_env \<Rightarrow> (bool \<times> api_error list \<Rightarrow> string go_result) option \<Rightarrow> boot_options \<Rightarrow> string \<Rightarrow> printed" where
  "boot_refusal env verdict opt e = (case LoadScenario (be_read env) (be_yaml env) (op_scenario opt) of
      Inl m \<Rightarrow> outputValidation verdict False [unreadable m]
    | Inr s \<Rightarrow> (let errs = Validate (be_duration env) (Some (with_flags env opt s))
        in if errs \<noteq> [] then outputValidation verdict False errs else ([], Inl e)))"

definition runUp :: "'s boot_env \<Rightarrow> (current \<Rightarrow> string go_result) option \<Rightarrow> (bool \<times> api_error list \<Rightarrow> string go_result) option \<Rightarrow> boot_options
    \<Rightarrow> ('s \<times> disk) command" where
  "runUp env json verdict opt w = (case run_up env opt w of
      (None, w') \<Rightarrow> (None, w')
    | (Some (Inr cur), w') \<Rightarrow> (Some (emitUp json cur), w')
    | (Some (Inl e), w') \<Rightarrow> (Some (if op_scenario opt = [] \<or> op_wait_network opt < 1000000000 then ([], Inl e)
        else boot_refusal env verdict (opt\<lparr>op_budget := 0\<rparr>) e), w'))"

section \<open>Logs and files\<close>

text \<open>\<open>resolveEnclave\<close>.\<close>

definition resolveEnclave :: "'s boot_env \<Rightarrow> string \<Rightarrow> disk \<Rightarrow> string go_result" where
  "resolveEnclave env flag d = (if flag \<noteq> [] then Inr flag else case Read_current env d of
      None \<Rightarrow> Inl ''no --enclave flag and no discovery file: file does not exist''
    | Some (Inl e) \<Rightarrow> Inl (''no --enclave flag and no discovery file: '' @ e)
    | Some (Inr c) \<Rightarrow> if cu_enclave c = [] then Inl ''discovery file has no enclave_id; re-run with --enclave'' else Inr (cu_enclave c))"

text \<open>The calls of \<open>docker\<close> on the host; \<open>dx_count\<close> is the number of files of a directory.\<close>

record 's docker_exec =
  dx_ps :: "'s \<Rightarrow> string go_result \<times> 's"
  dx_cp :: "string \<Rightarrow> string \<Rightarrow> string \<Rightarrow> 's \<Rightarrow> unit go_result \<times> 's"
  dx_mkdir :: "string \<Rightarrow> 's \<Rightarrow> unit go_result \<times> 's"
  dx_count :: "string \<Rightarrow> 's \<Rightarrow> nat"

definition Ps :: "'s docker_exec \<Rightarrow> 's \<Rightarrow> string list go_result \<times> 's" where
  "Ps dx s = (case dx_ps dx s of (Inl e, s') \<Rightarrow> (Inl (''docker ps: '' @ e), s')
     | (Inr out, s') \<Rightarrow> (Inr (filter (\<lambda>l. l \<noteq> []) (map trim_space (split_on newline (trim_space out)))), s'))"

definition findContainer :: "'s docker_exec \<Rightarrow> string \<Rightarrow> 's \<Rightarrow> string go_result \<times> 's" where
  "findContainer dx p s = (case Ps dx s of (Inl e, s') \<Rightarrow> (Inl e, s')
     | (Inr names, s') \<Rightarrow> ((case find (\<lambda>n. has_prefix n p) names of
          None \<Rightarrow> Inl (''no running container with prefix '' @ go_quote p) | Some n \<Rightarrow> Inr n), s'))"

definition detectFuzzService :: "'s cli \<Rightarrow> string \<Rightarrow> 's \<Rightarrow> string go_result \<times> 's" where
  "detectFuzzService cli enclave s = (case InspectEnclave cli enclave s of (Inl e, s') \<Rightarrow> (Inl e, s')
     | (Inr services, s') \<Rightarrow> ((case find (\<lambda>n. has_prefix n ''fuzz-'') services of
          None \<Rightarrow> Inl (''no fuzz-* service found in enclave '' @ go_quote enclave) | Some n \<Rightarrow> Inr n), s'))"

definition wrap_call :: "string \<Rightarrow> ('s \<Rightarrow> 'a go_result \<times> 's) \<Rightarrow> ('s \<times> disk, 'a) proc" where
  "wrap_call what f = on_world (\<lambda>s. case f s of (r, s') \<Rightarrow> (ewrap what r, s'))"

record pulled =
  pl_kind :: string
  pl_count :: nat
  pl_dest :: string

text \<open>One directory of a container copied below the destination.\<close>

definition mirror :: "'s docker_exec \<Rightarrow> string \<Rightarrow> string \<Rightarrow> string \<Rightarrow> string \<Rightarrow> ('s \<times> disk, pulled) proc" where
  "mirror dx container src dest kind = (let target = path_join [dest, kind] in
     sbind (wrap_call (''mkdir '' @ target @ '': '') (dx_mkdir dx target)) (\<lambda>_.
     sbind (on_world (dx_cp dx container src target)) (\<lambda>_ w.
       ok \<lparr>pl_kind = kind, pl_count = dx_count dx target (fst w), pl_dest = target\<rparr> w)))"

definition service_container :: "'s boot_env \<Rightarrow> 's docker_exec \<Rightarrow> string \<Rightarrow> string \<Rightarrow> ('s \<times> disk, string) proc" where
  "service_container env dx enclave service =
     sbind (wrap_call (''inspect '' @ service @ '': '') (InspectService (be_cli env) enclave service)) (\<lambda>svc.
       wrap_call (''find '' @ service @ '' container: '') (findContainer dx (service @ ''--'' @ si_uuid svc)))"

definition pull_findings :: "'s boot_env \<Rightarrow> 's docker_exec \<Rightarrow> string \<Rightarrow> string \<Rightarrow> ('s \<times> disk, pulled list) proc" where
  "pull_findings env dx enclave dest =
     sbind (service_container env dx enclave ''confluence-control'') (\<lambda>c.
     sbind (mirror dx c ''/var/confluence/findings/.'' dest ''findings'') (\<lambda>a.
     sbind (mirror dx c ''/var/confluence/reproducers/.'' dest ''reproducers'') (\<lambda>b. ok [a, b])))"

definition pull_corpus :: "'s boot_env \<Rightarrow> 's docker_exec \<Rightarrow> string \<Rightarrow> string \<Rightarrow> string \<Rightarrow> ('s \<times> disk, pulled list) proc" where
  "pull_corpus env dx enclave dest service =
     sbind (if service \<noteq> [] then ok service else wrap_call ''detect fuzz service: '' (detectFuzzService (be_cli env) enclave)) (\<lambda>fuzz.
     sbind (service_container env dx enclave fuzz) (\<lambda>c.
     sbind (mirror dx c ''/output/corpus/.'' dest ''corpus'') (\<lambda>a. ok [a])))"

definition runPull :: "'s boot_env \<Rightarrow> 's docker_exec \<Rightarrow> (string \<times> pulled list \<Rightarrow> string go_result) option \<Rightarrow> string \<Rightarrow> bool \<Rightarrow> bool
    \<Rightarrow> string \<Rightarrow> string \<Rightarrow> ('s \<times> disk) command" where
  "runPull env dx json flag findings corpus dest service = (\<lambda>w.
     if \<not> findings \<and> \<not> corpus then (Some ([], Inl ''nothing to pull: enable --findings or --corpus''), w)
     else command_of
       (sbind (lift_result (resolveEnclave env flag (snd w))) (\<lambda>enclave.
        sbind (if findings then pull_findings env dx enclave dest else ok []) (\<lambda>a.
        sbind (if corpus then pull_corpus env dx enclave dest service else ok []) (\<lambda>b. ok (enclave, a @ b)))))
       (emit json (\<lambda>(_, copied). concat (map (\<lambda>r. ''Pulled '' @ pl_kind r @ '': '' @ nat_dec (pl_count r) @ '' files ''
          @ [CHR 0xE2, CHR 0x86, CHR 0x92] @ '' '' @ pl_dest r @ [newline]) copied))) w)"

text \<open>\<open>logs\<close>: the command line writes both its streams to one writer; \<open>stream\<close> is what it writes and its error. Without a
  filter that is what is printed; with one, the lines that match, up to one too long for the scanner.\<close>

definition logs_args :: "bool \<Rightarrow> string \<Rightarrow> string \<Rightarrow> string list" where
  "logs_args follow enclave node = [''service'', ''logs''] @ (if follow then [''--follow''] else []) @ [enclave, node]"

definition ServiceLogs :: "(string list \<Rightarrow> 's \<Rightarrow> (string \<times> unit go_result) \<times> 's) \<Rightarrow> string \<Rightarrow> string \<Rightarrow> bool \<Rightarrow> 's \<Rightarrow> (string \<times> unit go_result) \<times> 's" where
  "ServiceLogs stream enclave node follow s = (case stream (logs_args follow enclave node) s of
     ((t, r), s') \<Rightarrow> ((t, ewrap ''kurtosis service logs: '' r), s'))"

definition runLogs :: "'s boot_env \<Rightarrow> (string list \<Rightarrow> 's \<Rightarrow> (string \<times> unit go_result) \<times> 's) \<Rightarrow> (string \<Rightarrow> (string \<Rightarrow> bool) go_result)
    \<Rightarrow> string \<Rightarrow> string \<Rightarrow> string \<Rightarrow> bool \<Rightarrow> ('s \<times> disk) command" where
  "runLogs env stream regexp flag node grep follow w =
     (if node = [] then (Some ([], Inl ''--node flag required''), w)
      else case resolveEnclave env flag (snd w) of
        Inl e \<Rightarrow> (Some ([], Inl (''logs: '' @ e)), w)
      | Inr enclave \<Rightarrow>
          (case (if grep = [] then Inr None else map_sum id Some (regexp grep)) of
             Inl e \<Rightarrow> (Some ([], Inl (''--grep: invalid regex: '' @ e)), w)
           | Inr re \<Rightarrow> (case ServiceLogs stream enclave node follow (fst w) of ((t, r), s') \<Rightarrow>
               (Some (case re of None \<Rightarrow> (t, r)
                  | Some matches \<Rightarrow> (concat (map (\<lambda>l. l @ [newline]) (filter matches (scan_lines t))),
                      if \<exists>l \<in> set (split_nl [] t). maxToken \<le> length l then Inl ''bufio.Scanner: token too long'' else r)),
                (s', snd w)))))"

section \<open>What status shows\<close>

text \<open>The control service answers the requests for findings from a store.\<close>

definition serves :: "'s cli_env \<Rightarrow> string \<Rightarrow> store \<Rightarrow> bool" where
  "serves env url st \<longleftrightarrow> (\<forall>q fs s.
     findingsList (query_get (parse_query q) ''limit'') (query_get (parse_query q) ''since'') (query_get (parse_query q) ''kind'') (Some st)
       = Some (Inr fs) \<longrightarrow>
     (\<exists>body s'. ct_http env ''GET'' (ac_base (api_of env url) @ ''/v1/findings?'' @ q) None s = (Inr \<lparr>rs_status = 200, rs_body = body\<rparr>, s')
        \<and> ct_findings env body = Inr fs))"

lemma list_one:
  "store_list st \<lparr>lo_since = [], lo_kind = [], lo_limit = 1\<rparr> = Some (case rev (st_findings st) of [] \<Rightarrow> [] | f # _ \<Rightarrow> [f])"
proof -
  have keep: "keep_finding st \<lparr>lo_since = [], lo_kind = [], lo_limit = 1\<rparr> f = Some True" for f by (simp add: keep_finding_def)
  have "list_limit \<lparr>lo_since = [], lo_kind = [], lo_limit = 1\<rparr> = Suc 0" by (simp add: list_limit_def maxCapacity_def)
  then show ?thesis
    by (cases "rev (st_findings st)"; cases "tl (rev (st_findings st))") (auto simp: store_list_def keep)
qed

lemma ask_ok: "ask what f w = (Some (Inr x), w') \<Longrightarrow> fst (f (fst w)) = Inr x"
  by (auto simp: ask_def on_world_def split: prod.splits sum.splits)

lemma client_Findings_served:
  assumes "serves env url st"
  shows "fst (client_Findings (api_of env url) [] [] 1 (ct_findings env) s) = Inr (case rev (st_findings st) of [] \<Rightarrow> [] | f # _ \<Rightarrow> [f])"
proof -
  let ?q = "encode_query (findings_query [] [] 1)"
  have "findingsList (query_get (parse_query ?q) ''limit'') (query_get (parse_query ?q) ''since'') (query_get (parse_query ?q) ''kind'') (Some st)
      = Some (Inr (case rev (st_findings st) of [] \<Rightarrow> [] | f # _ \<Rightarrow> [f]))"
    by (simp add: parse_encode_query findings_query_get findingsList_def atoi_int_dec int_dec_def list_one)
       (simp add: atoi_int_dec [of 1, unfolded int_dec_def, simplified] list_one)
  with assms obtain body s' where
    "ct_http env ''GET'' (ac_base (api_of env url) @ ''/v1/findings?'' @ ?q) None s = (Inr \<lparr>rs_status = 200, rs_body = body\<rparr>, s')"
    "ct_findings env body = Inr (case rev (st_findings st) of [] \<Rightarrow> [] | f # _ \<Rightarrow> [f])"
    unfolding serves_def by blast
  moreover have "findings_path [] [] 1 = ''/v1/findings?'' @ ?q" by (simp add: findings_path_def findings_query_def)
  moreover have "ac_do (api_of env url) = ct_http env" by (simp add: api_of_def NewClient_def)
  ultimately show ?thesis by (simp add: client_Findings_def getJSON_def request_def is_2xx_def)
qed

text \<open>C22: The latest finding that \<open>status\<close> shows is the one added last to the store of the control service, and it shows none
  exactly when the store is empty.
\<close>

theorem status_shows_last_finding:
  assumes "serves env url st" and "fetchStatus env url w = (Some (Inr snap), w')"
  shows "ss_latest snap = (if st_findings st = [] then None else Some (last (st_findings st)))"
proof -
  obtain fs w1 w2 where f: "ask ''findings: '' (client_Findings (api_of env url) [] [] 1 (ct_findings env)) w1 = (Some (Inr fs), w2)"
    and snap: "ss_latest snap = (case fs of [] \<Rightarrow> None | f # _ \<Rightarrow> Some f)"
    using assms(2) by (auto simp: fetchStatus_def Let_def sbind_def ok_def split: prod.splits option.splits sum.splits)
  have "fs = (case rev (st_findings st) of [] \<Rightarrow> [] | f # _ \<Rightarrow> [f])"
    using ask_ok [OF f] client_Findings_served [OF assms(1), of "fst w1"] by simp
  then show ?thesis using snap by (cases "st_findings st" rule: rev_cases) auto
qed

text \<open>A service with one finding in its store, whose bodies count findings.\<close>

definition one_finding :: finding where
  "one_finding = \<lparr>fd_id = ''f-1'', fd_run = [], fd_kind = KindStateDivergence, fd_severity = ''error'', fd_opened = 7, fd_summary = ''fork'',
     fd_detail = None, fd_evidence = None, fd_repro = None, fd_suspects = []\<rparr>"

definition one_store :: store where
  "one_store = \<lparr>st_findings = [one_finding], st_byID = [(''f-1'', 0)]\<rparr>"

definition one_service :: "string \<Rightarrow> string \<Rightarrow> string option \<Rightarrow> unit \<Rightarrow> response go_result \<times> unit" where
  "one_service method path body s = (let q = parse_query (drop 21 path) in
     (Inr \<lparr>rs_status = 200, rs_body = (case findingsList (query_get q ''limit'') (query_get q ''since'') (query_get q ''kind'') (Some one_store) of
        Some (Inr fs) \<Rightarrow> replicate (length fs) (CHR ''f'') | _ \<Rightarrow> [])\<rparr>, s))"

definition one_env :: "unit cli_env" where
  "one_env = \<lparr>ct_boot = sample_boot sample_net (\<lambda>_. False) listing, ct_http = one_service, ct_envelope = (\<lambda>_. None),
     ct_health = (\<lambda>_. Inr \<lparr>hz_uptime = 5, hz_scenario = ''net'', hz_remaining = None\<rparr>), ct_nodes = (\<lambda>_. Inr []),
     ct_findings = (\<lambda>b. Inr (replicate (length b) one_finding)), ct_finding = (\<lambda>_. Inr one_finding),
     ct_diff = (\<lambda>_. Inr \<lparr>sd_ledger = 9, sd_hashes = [], sd_diverged = False\<rparr>), ct_counts = (\<lambda>_. Inr (1, 0)), ct_show_time = int_dec,
     ct_indent = (\<lambda>_. Inr ''{}'')\<rparr>"

lemma one_store_lists: "findingsList l a k (Some one_store) = Some (Inr fs) \<Longrightarrow> fs = replicate (length fs) one_finding"
proof -
  have loop: "list_loop keep [one_finding] n = Some gs \<Longrightarrow> gs = [] \<or> gs = [one_finding]" for keep n gs
    by (cases n) (auto split: option.splits if_splits)
  assume "findingsList l a k (Some one_store) = Some (Inr fs)"
  then obtain opts where "store_list one_store opts = Some fs"
    by (auto simp: findingsList_def http_error_def split: sum.splits if_splits)
  then obtain gs where "list_loop (keep_finding one_store opts) [one_finding] (list_limit opts) = Some gs"
    "fs = sort_key (\<lambda>f. - fd_opened f) gs"
    by (auto simp: store_list_def one_store_def)
  with loop [of "keep_finding one_store opts" "list_limit opts" gs] show ?thesis by auto
qed

theorem status_shows_last_finding_witness: "\<exists>snap w. fetchStatus one_env ''http://c'' ((), []) = (Some (Inr snap), w) \<and> ss_latest snap = Some one_finding"
proof -
  have base: "ac_base (api_of one_env ''http://c'') = ''http://c''" by (simp add: api_of_def NewClient_def)
  have serves: "serves one_env ''http://c'' one_store"
    unfolding serves_def base by (auto simp: one_env_def one_service_def Let_def dest!: one_store_lists)
  have "\<exists>snap. fst (fetchStatus one_env ''http://c'' ((), [])) = Some (Inr snap)"
    by (simp add: fetchStatus_def sbind_def ask_def on_world_def client_Healthz_def client_Nodes_def client_Findings_def client_StateDiff_def
        getJSON_def request_def is_2xx_def ok_def one_service_def one_env_def api_of_def NewClient_def Let_def)
  then obtain snap w where "fetchStatus one_env ''http://c'' ((), []) = (Some (Inr snap), w)" by (metis fst_conv surj_pair)
  moreover from status_shows_last_finding [OF serves this] have "ss_latest snap = Some one_finding" by (simp add: one_store_def)
  ultimately show ?thesis by blast
qed

text \<open>
  A control service that is inspected without a UUID (with an address only) makes \<open>pull\<close> copy from the first running
  container of that service, of whichever enclave.
\<close>

lemma uuidless_pull:
  "fst (Ps dx s) = Inr names \<Longrightarrow> find (\<lambda>n. has_prefix n (service @ ''--'')) names = Some n \<Longrightarrow> si_uuid svc = [] \<Longrightarrow>
   fst (findContainer dx (service @ ''--'' @ si_uuid svc) s) = Inr n"
  by (auto simp: findContainer_def split: prod.splits sum.splits)

end
