(* ===== verification/Run_Command.thy ===== *)
theory Run_Command
  imports Commands
begin

text \<open>
  The commands \<open>run\<close> and \<open>replay\<close> of \<open>sidecar/cmd/confluence\<close> (\<open>run.go\<close>, \<open>replay.go\<close>) and the exit status of \<open>main.go\<close>.
  The control service is reached by two parameters, for starting and reading a run; the pause of the boot environment
  ends early when the deadline of the command has passed. The progress on stderr is left out.
\<close>

section \<open>Waiting for a run\<close>

record run_report =
  rr_run :: run
  rr_current :: current
  rr_millis :: int

text \<open>\<open>cm_ended\<close>: the error of the context, once it has one. An error of \<open>cm_get\<close> says whether it wraps one of the
  context's errors (\<open>errors.Is\<close>).\<close>

record 's cmd_env =
  cm_boot :: "'s boot_env"
  cm_start :: "string \<Rightarrow> scenario \<Rightarrow> 's \<Rightarrow> run go_result \<times> 's"
  cm_get :: "string \<Rightarrow> string \<Rightarrow> 's \<Rightarrow> ((bool \<times> string) + run) \<times> 's"
  cm_ended :: "'s \<Rightarrow> string option"
  cm_millis :: "'s \<Rightarrow> int"
  cm_json :: "(run_report \<Rightarrow> string go_result) option"
  cm_verdict :: "(bool \<times> api_error list \<Rightarrow> string go_result) option"
  cm_fuel :: nat

datatype poll_error = Context_Ended string | Poll_Failed bool string

text \<open>\<open>None\<close>: the run is still running after so many rounds.\<close>

fun pollRun :: "'s cmd_env \<Rightarrow> string \<Rightarrow> nat \<Rightarrow> run \<Rightarrow> 's \<Rightarrow> (run \<times> poll_error option) option \<times> 's" where
  "pollRun env url 0 r s = (if rn_status r \<noteq> RunStatusRunning then Some (r, None) else None, s)"
| "pollRun env url (Suc k) r s =
     (if rn_status r \<noteq> RunStatusRunning then (Some (r, None), s)
      else case be_pause (cm_boot env) s of
          (False, s1) \<Rightarrow> (Some (r, Some (Context_Ended (case cm_ended env s1 of None \<Rightarrow> [] | Some e \<Rightarrow> e))), s1)
        | (True, s1) \<Rightarrow> (case cm_get env url (rn_id r) s1 of
            (Inl (late, e), s2) \<Rightarrow> (Some (r, Some (Poll_Failed late (''poll run: '' @ e))), s2)
          | (Inr r', s2) \<Rightarrow> pollRun env url k r' s2))"

text \<open>The relaunches of \<open>--resume-on-finding\<close>; a relaunch that fails, or ends with the context, ends them without an error.\<close>

fun resume_runs :: "'s cmd_env \<Rightarrow> string \<Rightarrow> scenario \<Rightarrow> nat \<Rightarrow> run \<Rightarrow> 's \<Rightarrow> run go_result option \<times> 's" where
  "resume_runs env url sc 0 r s = (None, s)"
| "resume_runs env url sc (Suc k) r s =
     (if rn_status r \<noteq> RunStatusCompletedStopOn \<or> cm_ended env s \<noteq> None then (Some (Inr r), s)
      else case cm_start env url sc s of
          (Inl _, s1) \<Rightarrow> (Some (Inr r), s1)
        | (Inr r1, s1) \<Rightarrow> (case pollRun env url (cm_fuel env) r1 s1 of
            (None, s2) \<Rightarrow> (None, s2)
          | (Some (r2, None), s2) \<Rightarrow> resume_runs env url sc k r2 s2
          | (Some (r2, Some (Context_Ended _)), s2) \<Rightarrow> (Some (Inr r2), s2)
          | (Some (r2, Some (Poll_Failed late e)), s2) \<Rightarrow> (Some (if late then Inr r2 else Inl e), s2)))"

section \<open>The run command\<close>

definition exitCodeForRun :: "run \<Rightarrow> nat" where
  "exitCodeForRun r = (if rn_status r = RunStatusCompletedBudget \<and> rn_findings r = [] then 0
     else if rn_status r = RunStatusCompletedStopOn \<or> rn_findings r \<noteq> [] then 3 else 1)"

datatype cmd_error = Exit_Code nat | Message string | Joined cmd_error string

record run_options =
  ro_boot :: boot_options
  ro_wait :: bool
  ro_down :: bool
  ro_resume :: bool
  ro_timeout :: int

definition hard_timeout :: "(string \<Rightarrow> int go_result) \<Rightarrow> int \<Rightarrow> string \<Rightarrow> int" where
  "hard_timeout parse flag budget = (if flag \<noteq> 0 then flag
     else let t = wrap64 (2 * (case parse budget of Inr d \<Rightarrow> d | Inl _ \<Rightarrow> 0)) in if t = 0 then 10 * minute else t)"

text \<open>From the start of the run to its result; \<open>Inr\<close> is the run to report and the milliseconds since it was started.\<close>

definition wait_run :: "'s cmd_env \<Rightarrow> run_options \<Rightarrow> string \<Rightarrow> scenario \<Rightarrow> run \<Rightarrow> 's \<Rightarrow> run go_result option \<times> 's" where
  "wait_run env ro url sc r s =
     (if \<not> ro_wait ro then (Some (Inr r), s)
      else (case pollRun env url (cm_fuel env) r s of
          (None, s1) \<Rightarrow> (None, s1)
        | (Some (r1, Some (Context_Ended e)), s1) \<Rightarrow> (Some (Inl e), s1)
        | (Some (r1, Some (Poll_Failed _ e)), s1) \<Rightarrow> (Some (Inl e), s1)
        | (Some (r1, None), s1) \<Rightarrow> if ro_resume ro then resume_runs env url sc (cm_fuel env) r1 s1 else (Some (Inr r1), s1)))"

definition drive_run :: "'s cmd_env \<Rightarrow> run_options \<Rightarrow> string \<Rightarrow> scenario \<Rightarrow> 's \<Rightarrow> (run \<times> int) go_result option \<times> 's" where
  "drive_run env ro url sc s = (case cm_start env url sc s of
      (Inl e, s1) \<Rightarrow> (Some (Inl (''start run: '' @ e)), s1)
    | (Inr r, s1) \<Rightarrow> (case wait_run env ro url sc r s1 of
        (None, s2) \<Rightarrow> (None, s2)
      | (Some (Inl e), s2) \<Rightarrow> (Some (Inl e), s2)
      | (Some (Inr r1), s2) \<Rightarrow> (Some (Inr (r1, cm_millis env s2 - cm_millis env s1)), s2)))"

definition show_run :: "run_report \<Rightarrow> string" where
  "show_run rep = (let r = rr_run rep in
     ''Run '' @ rn_id r @ '' '' @ rn_status r @ [newline] @ ''Enclave: '' @ cu_enclave (rr_current rep) @ [newline]
     @ ''Duration: '' @ int_dec (rr_millis rep) @ '' ms'' @ [newline] @ ''Findings: '' @ nat_dec (length (rn_findings r)) @ [newline]
     @ (if rn_trigger r \<noteq> [] then ''Trigger finding: '' @ rn_trigger r @ [newline] else [])
     @ (case rn_repros r of [] \<Rightarrow> [] | i # _ \<Rightarrow> ''Reproducer: '' @ i @ [newline]))"

definition cmd_result :: "'s cmd_env \<Rightarrow> current \<Rightarrow> (run \<times> int) go_result \<Rightarrow> string \<times> cmd_error option" where
  "cmd_result env cur r = (case r of Inl e \<Rightarrow> ([], Some (Message e))
     | Inr (r, ms) \<Rightarrow> (case emit (cm_json env) show_run \<lparr>rr_run = r, rr_current = cur, rr_millis = ms\<rparr> of
          (out, Inl e) \<Rightarrow> (out, Some (Message e))
        | (out, Inr _) \<Rightarrow> (out, if exitCodeForRun r = 0 then None else Some (Exit_Code (exitCodeForRun r)))))"

text \<open>The deferred tear-down joins its error to the result.\<close>

definition with_teardown :: "cmd_error option \<Rightarrow> string go_result \<Rightarrow> cmd_error option" where
  "with_teardown res down = (case down of Inr _ \<Rightarrow> res
     | Inl e \<Rightarrow> (case res of None \<Rightarrow> Some (Message (''teardown: '' @ e)) | Some c \<Rightarrow> Some (Joined c (''teardown: '' @ e))))"

definition failed :: "printed \<Rightarrow> string \<times> cmd_error option" where
  "failed p = (fst p, case snd p of Inl e \<Rightarrow> Some (Message e) | Inr _ \<Rightarrow> None)"

text \<open>The scenario that is started: the one loaded first, with the budget of the flag.\<close>

definition run_scenario :: "'s boot_env \<Rightarrow> (bool \<times> api_error list \<Rightarrow> string go_result) option \<Rightarrow> boot_options \<Rightarrow> printed + scenario" where
  "run_scenario env verdict opt = (case LoadScenario (be_read env) (be_yaml env) (op_scenario opt) of
      Inl e \<Rightarrow> Inl (outputValidation verdict False [unreadable e])
    | Inr s \<Rightarrow> (let errs = Validate (be_duration env) (Some s) in
        if errs \<noteq> [] then Inl (outputValidation verdict False errs)
        else if wl_kind (sn_workload s) = ''none''
          then Inl ([], Inl (''use '' @ [CHR 0x27] @ ''confluence up -f SCENARIO'' @ [CHR 0x27] @ '' for a persistent network with workload.kind: none''))
        else Inr (if 0 < op_budget opt then s\<lparr>sn_duration := be_show_duration env (op_budget opt)\<rparr> else s)))"

definition runRun :: "'s cmd_env \<Rightarrow> run_options \<Rightarrow> 's \<times> disk \<Rightarrow> (string \<times> cmd_error option) option \<times> ('s \<times> disk)" where
  "runRun env ro w = (case run_scenario (cm_boot env) (cm_verdict env) (ro_boot ro) of
      Inl p \<Rightarrow> (Some (failed p), w)
    | Inr sc \<Rightarrow> (case boot (cm_boot env) (ro_boot ro) w of
        (None, w1) \<Rightarrow> (None, w1)
      | (Some (Inl e), w1) \<Rightarrow> (Some (failed (boot_refusal (cm_boot env) (cm_verdict env) (ro_boot ro) e)), w1)
      | (Some (Inr cur), w1) \<Rightarrow> (case drive_run env ro (cu_control cur) sc (fst w1) of
          (None, s2) \<Rightarrow> (None, (s2, snd w1))
        | (Some r, s2) \<Rightarrow>
            if \<not> ro_down ro then (Some (cmd_result env cur r), (s2, snd w1))
            else (case tearDown (cm_boot env) (cu_enclave cur) (s2, snd w1) of
                (None, w3) \<Rightarrow> (None, w3)
              | (Some down, w3) \<Rightarrow> (Some (fst (cmd_result env cur r), with_teardown (snd (cmd_result env cur r)) down), w3)))))"

text \<open>\<open>replay\<close> runs the reproducer file of an identifier.\<close>

definition runReplay :: "'s cmd_env \<Rightarrow> run_options \<Rightarrow> string \<Rightarrow> string \<Rightarrow> (string \<Rightarrow> bool) \<Rightarrow> 's \<times> disk
    \<Rightarrow> (string \<times> cmd_error option) option \<times> ('s \<times> disk)" where
  "runReplay env ro dest rid exists w =
     (let path = path_join [dest, ''reproducers'', rid @ ''.yaml''] in
      if \<not> exists path then
        (Some ([], Some (Message (''reproducer not found locally at '' @ path @ ''; run '' @ [CHR 0x27] @ ''confluence pull'' @ [CHR 0x27] @ '' first''))), w)
      else runRun env (ro\<lparr>ro_boot := (ro_boot ro)\<lparr>op_scenario := path\<rparr>\<rparr>) w)"

text \<open>\<open>main\<close> exits with 1 for every error; the code an error carries is not looked at.\<close>

definition main_exit :: "cmd_error option \<Rightarrow> nat" where
  "main_exit e = (if e = None then 0 else 1)"

section \<open>Cleaning up and exit codes\<close>

text \<open>The control service and the pauses leave the command line alone.\<close>

definition tame_cmd :: "('s \<times> string list list) cmd_env \<Rightarrow> 's cli \<Rightarrow> bool" where
  "tame_cmd env cli \<longleftrightarrow> tame (cm_boot env) cli \<and> (\<forall>url sc w. snd (snd (cm_start env url sc w)) = snd w)
     \<and> (\<forall>url i w. snd (snd (cm_get env url i w)) = snd w)"

lemma pollRun_quiet: "tame_cmd env cli \<Longrightarrow> snd (snd (pollRun env url k r w)) = snd w"
proof (induction k arbitrary: r w)
  case (Suc k)
  obtain go w1 where p: "be_pause (cm_boot env) w = (go, w1)" by (metis surj_pair)
  obtain q w2 where g: "cm_get env url (rn_id r) w1 = (q, w2)" by (metis surj_pair)
  have "snd w1 = snd w" "snd w2 = snd w1"
    using Suc.prems p g unfolding tame_cmd_def tame_def by (metis snd_conv)+
  then show ?case using Suc.IH [OF Suc.prems] by (simp add: p g split: bool.split sum.split prod.split)
qed simp

lemma start_quiet: "tame_cmd env cli \<Longrightarrow> cm_start env url sc w = (q, w1) \<Longrightarrow> snd w1 = snd w"
  unfolding tame_cmd_def by (metis snd_conv)

lemma resume_quiet: "tame_cmd env cli \<Longrightarrow> snd (snd (resume_runs env url sc k r w)) = snd w"
proof (induction k arbitrary: r w)
  case (Suc k)
  obtain q w1 where s: "cm_start env url sc w = (q, w1)" by (metis surj_pair)
  note w1 = start_quiet [OF Suc.prems s]
  show ?case
  proof (cases q)
    case (Inr r1)
    obtain p w2 where p: "pollRun env url (cm_fuel env) r1 w1 = (p, w2)" by (metis surj_pair)
    have w2: "snd w2 = snd w1" using pollRun_quiet [OF Suc.prems, of url "cm_fuel env" r1 w1] by (simp add: p)
    show ?thesis using Suc.IH [OF Suc.prems, of _ w2] w1 w2 Inr
      by (simp add: s p split: option.split prod.split poll_error.split)
  qed (simp add: s w1)
qed simp

lemma drive_quiet: "tame_cmd env cli \<Longrightarrow> snd (snd (drive_run env ro url sc w)) = snd w"
proof -
  assume tame: "tame_cmd env cli"
  obtain q w1 where s: "cm_start env url sc w = (q, w1)" by (metis surj_pair)
  have "snd (snd (wait_run env ro url sc r w1)) = snd w1" for r
  proof -
    obtain p w2 where p: "pollRun env url (cm_fuel env) r w1 = (p, w2)" by (metis surj_pair)
    have w2: "snd w2 = snd w1" using pollRun_quiet [OF tame, of url "cm_fuel env" r w1] by (simp add: p)
    show ?thesis using resume_quiet [OF tame, of url sc "cm_fuel env" _ w2] w2
      by (simp add: wait_run_def p split: option.split prod.split poll_error.split)
  qed
  moreover have "drive_run env ro url sc w = (q', w') \<Longrightarrow> w' = w1 \<or> (\<exists>r. w' = snd (wait_run env ro url sc r w1))" for q' w'
    by (auto simp: drive_run_def s split: sum.splits prod.splits option.splits) (metis snd_conv)+
  ultimately show ?thesis using start_quiet [OF tame s] by (metis prod.collapse)
qed

lemma tearDown_call:
  assumes "be_cli env = logging cli" "name \<noteq> []" "tearDown env name ((s, l), d) = (r, ((s', l'), d'))"
  shows "l' = l @ [rm_args name]"
proof -
  obtain q s1 l1 where rm: "RemoveEnclave (be_cli env) name (s, l) = (q, (s1, l1))" by (metis surj_pair)
  then have "l1 = l @ [rm_args name]" using RemoveEnclave_logs [of cli name s l q s1 l1] assms(1) by simp
  then show ?thesis using assms(2,3)
    by (auto simp: tearDown_def Let_def sbind_def on_world_def rm RemoveNetwork_def Remove_current_def remove_file_def ok_def
        split: sum.splits option.splits if_splits)
qed

lemma sbind_Inr: "sbind p f w = (Some (Inr y), w') \<longleftrightarrow> (\<exists>x w1. p w = (Some (Inr x), w1) \<and> f x w1 = (Some (Inr y), w'))"
  by (auto simp: sbind_def split: prod.splits option.splits sum.splits)

lemma discover_enclave: "discoverNetwork env cur m n args w = (Some (Inr c), w') \<Longrightarrow> cu_enclave c = cu_enclave cur"
  by (auto simp: discoverNetwork_def sbind_Inr Let_def ok_def split: if_splits)

lemma publish_enclave: "publish_current env network_only enclave s args url w = (Some (Inr c), w') \<Longrightarrow> cu_enclave c = enclave"
  by (auto simp: publish_current_def sbind_Inr Let_def ok_def dest: discover_enclave split: if_splits)

lemma boot_gives_enclave: "boot env opt w = (Some (Inr cur), w') \<Longrightarrow> cu_enclave cur \<noteq> []"
  by (auto simp: boot_def launch_def sbind_Inr Let_def lift_result_def dest: publish_enclave split: if_splits)

text \<open>C14: Once an enclave has booted, \<open>run\<close> with tearing down ends by removing exactly that enclave, however the run ended; and it
  succeeds only when the run completed its budget without a finding and its report is what was printed.
\<close>

theorem run_cleans_up:
  assumes tame: "tame_cmd env cli" and down: "ro_down ro" and sc: "run_scenario (cm_boot env) (cm_verdict env) (ro_boot ro) = Inr sc"
    and boot: "boot (cm_boot env) (ro_boot ro) w = (Some (Inr cur), ((s1, l1), d1))"
    and run: "runRun env ro w = (Some res, ((s', l'), d'))"
  shows "l' = l1 @ [rm_args (cu_enclave cur)]
    \<and> (snd res = None \<longrightarrow> (\<exists>r ms s2. drive_run env ro (cu_control cur) sc (s1, l1) = (Some (Inr (r, ms)), s2)
          \<and> rn_status r = RunStatusCompletedBudget \<and> rn_findings r = []
          \<and> emit (cm_json env) show_run \<lparr>rr_run = r, rr_current = cur, rr_millis = ms\<rparr> = (fst res, Inr ())))"
proof -
  obtain q s2 l2 where drive: "drive_run env ro (cu_control cur) sc (s1, l1) = (q, (s2, l2))" by (metis surj_pair)
  have l2: "l2 = l1" using drive_quiet [OF tame, of ro "cu_control cur" sc "(s1, l1)"] by (simp add: drive)
  obtain r where q: "q = Some r" using run by (cases q) (simp_all add: runRun_def sc boot drive)
  obtain t w3 where td: "tearDown (cm_boot env) (cu_enclave cur) ((s2, l2), d1) = (t, w3)" by (metis surj_pair)
  have res: "t = Some tr \<Longrightarrow> res = (fst (cmd_result env cur r), with_teardown (snd (cmd_result env cur r)) tr)" and w3: "w3 = ((s', l'), d')" for tr
    using run by (simp_all add: runRun_def sc boot drive q down td split: option.splits)
  have "be_cli (cm_boot env) = logging cli" using tame by (simp add: tame_cmd_def tame_def)
  then have "l' = l2 @ [rm_args (cu_enclave cur)]"
    using tearDown_call [of _ cli "cu_enclave cur" s2 l2 d1] boot_gives_enclave [OF boot] td w3 by blast
  moreover have "\<exists>r ms s2. drive_run env ro (cu_control cur) sc (s1, l1) = (Some (Inr (r, ms)), s2)
      \<and> rn_status r = RunStatusCompletedBudget \<and> rn_findings r = []
      \<and> emit (cm_json env) show_run \<lparr>rr_run = r, rr_current = cur, rr_millis = ms\<rparr> = (fst res, Inr ())" if ok: "snd res = None"
  proof -
    obtain tr where "t = Some tr" using run by (cases t) (simp_all add: runRun_def sc boot drive q down td)
    from res [OF this] ok have "cmd_result env cur r = (fst res, None)"
      by (cases "cmd_result env cur r") (auto simp: with_teardown_def split: sum.splits option.splits)
    then obtain r' ms where "r = Inr (r', ms)" "exitCodeForRun r' = 0"
      "emit (cm_json env) show_run \<lparr>rr_run = r', rr_current = cur, rr_millis = ms\<rparr> = (fst res, Inr ())"
      by (auto simp: cmd_result_def split: sum.splits if_splits prod.splits)
    then show ?thesis using drive q by (auto simp: exitCodeForRun_def split: if_splits)
  qed
  ultimately show ?thesis using l2 by blast
qed

text \<open>A run that found something and a command that failed leave the same exit status.\<close>

lemma finding_exits_like_error:
  "exitCodeForRun r = 3 \<Longrightarrow> main_exit (snd (cmd_result env cur (Inr (r, ms)))) = main_exit (snd (cmd_result env cur (Inl e)))"
  by (simp add: main_exit_def cmd_result_def split: prod.split sum.split)

section \<open>A sample\<close>

definition ended_run :: run where
  "ended_run = \<lparr>rn_id = ''r1'', rn_scenario = ''mixed-5'', rn_status = RunStatusCompletedStopOn, rn_started = 0, rn_ended = Some 9,
     rn_budget_ends = 600, rn_stop_on = [''first_crash''], rn_findings = [''f1''], rn_repros = [], rn_trigger = ''f1''\<rparr>"

definition sample_cmd :: "unit cli \<Rightarrow> (unit \<times> string list list) cmd_env" where
  "sample_cmd cli = \<lparr>cm_boot = (sample_boot (sample_scenario ''soak'') (\<lambda>_. False) (logging cli))\<lparr>be_unmarshal := (\<lambda>_. Inr [(''enable_control'', GBool False)])\<rparr>,
     cm_start = (\<lambda>_ _ s. (Inr (ended_run\<lparr>rn_status := RunStatusRunning\<rparr>), s)), cm_get = (\<lambda>_ _ s. (Inr ended_run, s)),
     cm_ended = (\<lambda>_. None), cm_millis = (\<lambda>_. 5), cm_json = None, cm_verdict = None, cm_fuel = 3\<rparr>"

definition sample_options :: run_options where
  "sample_options = \<lparr>ro_boot = sample_up\<lparr>op_hang := 0\<rparr>, ro_wait = True, ro_down = True, ro_resume = False, ro_timeout = 0\<rparr>"

definition silent :: "unit cli" where
  "silent args s = (sample_run (Inr ()) [], s)"

definition sample_report :: string where
  "sample_report = ''Run r1 completed_stop_on'' @ [newline] @ ''Enclave: net'' @ [newline] @ ''Duration: 0 ms'' @ [newline] @ ''Findings: 1'' @ [newline]
     @ ''Trigger finding: f1'' @ [newline]"

theorem run_cleans_up_witness:
  "\<exists>d'. runRun (sample_cmd silent) sample_options (((), []), [])
     = (Some (sample_report, Some (Exit_Code 3)), (((), [rm_args ''net'', run_args (boot_call (sample_up\<lparr>op_hang := 0\<rparr>) False ''net'' ''{}''), rm_args ''net'']), d'))"
proof -
  let ?env = "sample_cmd silent"
  have tame: "tame_cmd ?env silent" by (simp add: tame_cmd_def sample_cmd_def tame_def sample_boot_def)
  have "Validate ten_minutes (Some (sample_scenario ''soak'')) = []" by code_simp
  then have sc: "run_scenario (cm_boot ?env) (cm_verdict ?env) (ro_boot sample_options) = Inr (sample_scenario ''soak'')"
    by (simp add: run_scenario_def sample_cmd_def sample_boot_def sample_options_def sample_up_def LoadScenario_def ParseScenario_def sample_scenario_def)
  have b: "fst (boot (cm_boot ?env) (ro_boot sample_options) (((), []), [])) = Some (Inr \<lparr>cu_enclave = ''net'', cu_control = [],
      cu_scenario = ''mixed-5'', cu_started = 0, cu_dashboard = [], cu_nodes = []\<rparr>)"
    "snd (fst (snd (boot (cm_boot ?env) (ro_boot sample_options) (((), []), []))))
      = [rm_args ''net'', run_args (boot_call (sample_up\<lparr>op_hang := 0\<rparr>) False ''net'' ''{}'')]"
    by code_simp+
  obtain d1 where boot: "boot (cm_boot ?env) (ro_boot sample_options) (((), []), []) = (Some (Inr \<lparr>cu_enclave = ''net'', cu_control = [],
      cu_scenario = ''mixed-5'', cu_started = 0, cu_dashboard = [], cu_nodes = []\<rparr>),
      (((), [rm_args ''net'', run_args (boot_call (sample_up\<lparr>op_hang := 0\<rparr>) False ''net'' ''{}'')]), d1))"
    using b by (cases "boot (cm_boot ?env) (ro_boot sample_options) (((), []), [])") auto
  have "fst (runRun ?env sample_options (((), []), [])) = Some (sample_report, Some (Exit_Code 3))" by code_simp
  then obtain s' l' d' where run: "runRun ?env sample_options (((), []), []) = (Some (sample_report, Some (Exit_Code 3)), ((s', l'), d'))"
    by (metis proc_result fst_conv)
  have "ro_down sample_options" by (simp add: sample_options_def)
  from run_cleans_up [OF tame this sc boot run] show ?thesis using run by simp
qed

end
