(* ===== verification/Docker.thy ===== *)
theory Docker
  imports Kurtosis Crash Chaos Runners
begin

text \<open>
  The two container runtimes over the Docker daemon: \<open>DockerNetworkRuntime\<close> of \<open>sidecar/internal/fuzz/chaos/runtime.go\<close>,
  which the chaos events use, and \<open>DockerRuntime\<close> of \<open>fuzz/crash/dockerruntime.go\<close>, which the crash poller and the hang
  detector use. The daemon is a parameter, call by call; a container is its identifier and its names.
\<close>

section \<open>The daemon\<close>

type_synonym listed = "(string \<times> string list) list"

record 's docker =
  dk_ping :: "unit go_result"
  dk_inspect :: "string \<Rightarrow> 's \<Rightarrow> (string \<times> bool \<times> int) go_result \<times> 's"
  dk_list :: "string \<Rightarrow> string \<Rightarrow> 's \<Rightarrow> listed go_result \<times> 's"
  dk_exec_create :: "string \<Rightarrow> string list \<Rightarrow> 's \<Rightarrow> string go_result \<times> 's"
  dk_exec_attach :: "string \<Rightarrow> 's \<Rightarrow> unit go_result \<times> 's"
  dk_exec_read :: "string \<Rightarrow> 's \<Rightarrow> (string \<times> string) go_result \<times> 's"
  dk_exec_inspect :: "string \<Rightarrow> 's \<Rightarrow> int go_result \<times> 's"
  dk_stop :: "string \<Rightarrow> int \<Rightarrow> 's \<Rightarrow> unit go_result \<times> 's"
  dk_start :: "string \<Rightarrow> 's \<Rightarrow> unit go_result \<times> 's"
  dk_kill :: "string \<Rightarrow> string \<Rightarrow> 's \<Rightarrow> unit go_result \<times> 's"
  dk_logs :: "string \<Rightarrow> string \<Rightarrow> 's \<Rightarrow> string go_result \<times> 's"

definition dial :: "unit go_result \<Rightarrow> unit go_result \<Rightarrow> unit go_result" where
  "dial client ping = ebind (ewrap ''docker client: '' client) (\<lambda>_. ewrap ''docker ping: '' ping)"

section \<open>The runtime of the chaos events\<close>

definition name_filter :: "string \<Rightarrow> string" where
  "name_filter name = ''^/?'' @ name @ ''--''"

definition resolveID :: "'s docker \<Rightarrow> string \<Rightarrow> 's \<Rightarrow> string go_result \<times> 's" where
  "resolveID d name s = (case dk_inspect d name s of
      (Inr (i, _), s1) \<Rightarrow> (Inr i, s1)
    | (Inl _, s1) \<Rightarrow> (case dk_list d ''name'' (name_filter name) s1 of
        (Inl e, s2) \<Rightarrow> (Inl (''list '' @ name @ '': '' @ e), s2)
      | (Inr cs, s2) \<Rightarrow>
          (if cs = [] then Inl (''no container matching '' @ go_quote name @ '' (looked up bare name and Kurtosis-prefixed name--<uuid> pattern)'')
           else if 1 < length cs then Inl (''multiple containers match '' @ go_quote name @ '' ('' @ nat_dec (length cs)
             @ '') '' @ [CHR 0xE2, CHR 0x80, CHR 0x94] @ '' refusing to guess'')
           else Inr (fst (cs ! 0)), s2)))"

text \<open>Calls in a row, each with the result of the one before.\<close>

definition wbind :: "('s \<Rightarrow> 'a go_result \<times> 's) \<Rightarrow> ('a \<Rightarrow> 's \<Rightarrow> 'b go_result \<times> 's) \<Rightarrow> 's \<Rightarrow> 'b go_result \<times> 's" where
  "wbind p f s = (case p s of (Inl e, s') \<Rightarrow> (Inl e, s') | (Inr x, s') \<Rightarrow> f x s')"

definition wrapped :: "string \<Rightarrow> ('s \<Rightarrow> 'a go_result \<times> 's) \<Rightarrow> 's \<Rightarrow> 'a go_result \<times> 's" where
  "wrapped what p s = (case p s of (r, s') \<Rightarrow> (ewrap what r, s'))"

definition docker_Exec :: "'s docker \<Rightarrow> string \<Rightarrow> string list \<Rightarrow> 's \<Rightarrow> string go_result \<times> 's" where
  "docker_Exec d name cmd =
     wbind (resolveID d name) (\<lambda>cid.
     wbind (wrapped ''exec create: '' (dk_exec_create d cid cmd)) (\<lambda>x.
     wbind (wrapped ''exec attach: '' (dk_exec_attach d x)) (\<lambda>_.
     wbind (wrapped ''exec read: '' (dk_exec_read d x)) (\<lambda>(out, err).
     wbind (wrapped ''exec inspect: '' (dk_exec_inspect d x)) (\<lambda>code s.
       (if code \<noteq> 0 then Inl (''exec '' @ name @ '' '' @ str_join '' '' cmd @ '' exited '' @ int_dec code @ '': '' @ err) else Inr out, s))))))"

definition docker_Stop :: "'s docker \<Rightarrow> string \<Rightarrow> 's \<Rightarrow> unit go_result \<times> 's" where
  "docker_Stop d name = wbind (resolveID d name) (\<lambda>cid. dk_stop d cid 10)"

definition docker_Start :: "'s docker \<Rightarrow> string \<Rightarrow> 's \<Rightarrow> unit go_result \<times> 's" where
  "docker_Start d name = wbind (resolveID d name) (\<lambda>cid. dk_start d cid)"

text \<open>The runtime behind the interface of the chaos events.\<close>

definition docker_chaos :: "'s docker \<Rightarrow> (string \<Rightarrow> 's caller) \<Rightarrow> 's chaos_env" where
  "docker_chaos d client = \<lparr>ce_exec = docker_Exec d, ce_stop = docker_Stop d, ce_start = docker_Start d, ce_client = client\<rparr>"

section \<open>The runtime of the crash poller\<close>

definition ListByLabel :: "'s docker \<Rightarrow> string \<Rightarrow> string \<Rightarrow> 's \<Rightarrow> string list go_result \<times> 's" where
  "ListByLabel d key val s = (case dk_list d ''label'' (key @ ''='' @ val) s of
      (Inl e, s') \<Rightarrow> (Inl e, s')
    | (Inr cs, s') \<Rightarrow> (Inr (map (trim_prefix ''/'') (concat (map snd cs))), s'))"

definition docker_Inspect :: "'s docker \<Rightarrow> string \<Rightarrow> 's \<Rightarrow> (bool \<times> int) go_result \<times> 's" where
  "docker_Inspect d name s = (case dk_inspect d name s of (Inl e, s') \<Rightarrow> (Inl e, s') | (Inr (_, st), s') \<Rightarrow> (Inr st, s'))"

text \<open>A line that starts with a byte below a space loses eight: the header of a frame of the stream.\<close>

definition strip_header :: "string \<Rightarrow> string" where
  "strip_header line = (if 8 < length line \<and> of_char (hd line) < (32 :: nat) then drop 8 line else line)"

definition log_buffer :: nat where
  "log_buffer = 1048576"

text \<open>The lines read before one that does not fit the buffer; the callers take them and ignore the error.\<close>

definition TailLogs :: "'s docker \<Rightarrow> string \<Rightarrow> int \<Rightarrow> 's \<Rightarrow> string list go_result \<times> 's" where
  "TailLogs d name n s = (case dk_logs d name (int_dec n) s of
      (Inl e, s') \<Rightarrow> (Inl e, s')
    | (Inr out, s') \<Rightarrow> (Inr (map (\<lambda>l. strip_header (drop_cr l)) (takeWhile (\<lambda>l. length l < log_buffer) (split_nl [] out))), s'))"

definition SendSignal :: "'s docker \<Rightarrow> string \<Rightarrow> string \<Rightarrow> 's \<Rightarrow> unit go_result \<times> 's" where
  "SendSignal d name sig = dk_kill d name sig"

definition docker_rt :: "'s docker \<Rightarrow> 's container_rt" where
  "docker_rt d = \<lparr>cr_list = ListByLabel d, cr_inspect = docker_Inspect d, cr_tail = TailLogs d, cr_signal = SendSignal d\<rparr>"

section \<open>Resolving a name\<close>

text \<open>
  A name is resolved to one container only: the one inspected under it or, when there is none, the only one listed under
  the prefix; with none or several listed it is an error.
\<close>

theorem resolveID_Inr_iff:
  assumes "dk_inspect d name s = (r, s1)"
  shows "fst (resolveID d name s) = Inr i \<longleftrightarrow>
     (\<exists>st. r = Inr (i, st)) \<or> (isl r \<and> (\<exists>names. fst (dk_list d ''name'' (name_filter name) s1) = Inr [(i, names)]))"
proof (cases r)
  case (Inr x)
  then show ?thesis using assms by (cases x) (auto simp: resolveID_def)
next
  case (Inl e)
  obtain q s2 where q: "dk_list d ''name'' (name_filter name) s1 = (q, s2)" by fastforce
  show ?thesis
  proof (cases q)
    case (Inr cs)
    then show ?thesis using assms Inl q
      by (cases cs rule: list.exhaust; cases "tl cs") (auto simp: resolveID_def)
  qed (use assms Inl q in \<open>auto simp: resolveID_def\<close>)
qed

text \<open>
  Recovering from a restart starts the container that was stopped: between the two the daemon answers inspections under
  the name as before.
\<close>

theorem restart_same_container:
  assumes "dk_inspect d c s = (Inr (i, st), s0)" and "dk_stop d i 10 s0 = (Inr (), s1)" and "dk_inspect d c s1 = (Inr (i, st'), s2)"
  shows "event_apply (docker_chaos d client) (RestartEvent c) s = (Inr (), s1)
    \<and> event_recover (docker_chaos d client) (RestartEvent c) s1 = finish (''start '' @ c @ '': '') (dk_start d i s2)"
  using assms by (simp add: restart_apply_def restart_recover_def docker_chaos_def docker_Stop_def docker_Start_def wbind_def
      resolveID_def finish_def)

section \<open>The lines of a log\<close>

text \<open>
  A stack trace loses text: a line that starts with a tab and has nine characters or more comes out without its first
  eight, header or not.
\<close>

theorem tab_line_truncated:
  assumes "dk_logs d name (int_dec n) s = (Inr (first @ [newline, CHR 0x09] @ rest), s')"
    and "newline \<notin> set first" "newline \<notin> set rest" "length first < log_buffer" "7 < length rest" "Suc (length rest) < log_buffer"
    and "drop_cr first = first" "drop_cr (CHR 0x09 # rest) = CHR 0x09 # rest"
  shows "fst (TailLogs d name n s) = Inr [strip_header first, drop 7 rest]"
proof -
  have split: "split_nl acc (xs @ newline # ys) = (rev acc @ xs) # split_nl [] ys" if "newline \<notin> set xs" for acc xs ys
    using that by (induction xs arbitrary: acc) auto
  have single: "split_nl acc xs = (if rev acc @ xs = [] then [] else [rev acc @ xs])" if "newline \<notin> set xs" for acc xs
    using that by (induction xs arbitrary: acc) auto
  have "split_nl [] (first @ newline # CHR 0x09 # rest) = [first, CHR 0x09 # rest]"
    using split [OF assms(2), of "[]"] single [of "CHR 0x09 # rest" "[]"] assms(3) by (auto simp: newline_def)
  then show ?thesis using assms by (simp add: TailLogs_def strip_header_def)
qed

section \<open>Samples\<close>

text \<open>A daemon with one container, known by its identifier and its full name only.\<close>

definition sample_docker :: "unit docker" where
  "sample_docker = \<lparr>dk_ping = Inr (), dk_inspect = (\<lambda>n s. (if n = ''rippled-0--77'' then Inr (''77'', True, 0) else Inl ''No such container'', s)),
     dk_list = (\<lambda>_ v s. (Inr (if v = name_filter ''rippled-0'' then [(''77'', [''/rippled-0--77''])] else []), s)),
     dk_exec_create = (\<lambda>_ _ s. (Inr ''x'', s)), dk_exec_attach = (\<lambda>_ s. (Inr (), s)), dk_exec_read = (\<lambda>_ s. (Inr ([], []), s)),
     dk_exec_inspect = (\<lambda>_ s. (Inr 0, s)), dk_stop = (\<lambda>_ _ s. (Inr (), s)), dk_start = (\<lambda>_ s. (Inr (), s)),
     dk_kill = (\<lambda>n _ s. (if n = ''rippled-0--77'' then Inr () else Inl ''No such container'', s)),
     dk_logs = (\<lambda>_ _ s. (Inr (''panic: nil'' @ [newline, CHR 0x09] @ ''main.go:12 +0x1d''), s))\<rparr>"

theorem resolveID_Inr_iff_witness: "fst (resolveID sample_docker ''rippled-0'' ()) = Inr ''77''"
proof -
  have "dk_inspect sample_docker ''rippled-0'' () = (Inl ''No such container'', ())" by (simp add: sample_docker_def)
  from resolveID_Inr_iff [OF this, of "''77''"] show ?thesis by (simp add: sample_docker_def)
qed

theorem restart_same_container_witness:
  "event_apply (docker_chaos sample_docker (\<lambda>_ _ _ s. (Inl [], s))) (RestartEvent ''rippled-0--77'') () = (Inr (), ())"
  using restart_same_container [of sample_docker "''rippled-0--77''" "()" "''77''" "(True, 0)" "()" "()" "(True, 0)" "()" "\<lambda>_ _ _ s. (Inl [], s)"]
  by (simp add: sample_docker_def)

theorem tab_line_truncated_witness:
  "fst (TailLogs sample_docker ''rippled-0--77'' 200 ()) = Inr [''panic: nil'', '':12 +0x1d'']"
proof -
  have "fst (TailLogs sample_docker ''rippled-0--77'' 200 ()) = Inr [strip_header ''panic: nil'', drop 7 ''main.go:12 +0x1d'']"
    by (rule tab_line_truncated) (simp_all add: sample_docker_def newline_def log_buffer_def drop_cr_def)
  then show ?thesis by (simp add: strip_header_def)
qed

text \<open>The hang detector's signal goes to the name of the service, under which this daemon knows no container.\<close>

lemma signal_by_service_name: "fst (cr_signal (docker_rt sample_docker) ''rippled-0'' ''QUIT'' ()) = Inl ''No such container''"
  by (simp add: docker_rt_def SendSignal_def sample_docker_def)

end
