(* ===== verification/Event_Stream.thy ===== *)
theory Event_Stream
  imports Runs Kurtosis Runners
begin

text \<open>
  The event stream, from the bus to the terminal: the handler of \<open>GET /v1/events\<close> (\<open>sidecar/internal/server/events.go\<close>),
  which writes server-sent events, and the command \<open>events\<close> (\<open>sidecar/cmd/confluence/events.go\<close>), which prints one
  line of JSON for each.
\<close>

section \<open>The handler\<close>

text \<open>What the loop of the handler waits for; it ends when the client has gone or the channel is closed.\<close>

datatype stream_input = Keepalive | Received event | Channel_Closed | Client_Gone

definition blank_line :: string where
  "blank_line = [newline, newline]"

definition sse_event :: "(event \<Rightarrow> string go_result) \<Rightarrow> event \<Rightarrow> string" where
  "sse_event marshal ev = (case marshal ev of Inl _ \<Rightarrow> [] | Inr b \<Rightarrow> ''data: '' @ b @ blank_line)"

fun stream_loop :: "(event \<Rightarrow> string go_result) \<Rightarrow> stream_input list \<Rightarrow> string" where
  "stream_loop marshal [] = []"
| "stream_loop marshal (Keepalive # is) = '':keepalive'' @ blank_line @ stream_loop marshal is"
| "stream_loop marshal (Received ev # is) = sse_event marshal ev @ stream_loop marshal is"
| "stream_loop marshal (Channel_Closed # is) = []"
| "stream_loop marshal (Client_Gone # is) = []"

text \<open>The body of the response and the identifier of the subscription, taken after the first bytes have gone out.\<close>

definition events :: "(event \<Rightarrow> string go_result) \<Rightarrow> event_bus option \<Rightarrow> bool \<Rightarrow> stream_input list \<Rightarrow> (string \<times> event_bus) http" where
  "events marshal bus flusher ins = (case bus of
      None \<Rightarrow> http_error 503 ''events_unavailable'' ''event bus not configured'' []
    | Some b \<Rightarrow>
        if \<not> flusher then http_error 500 ''internal_error'' ''streaming not supported'' []
        else (case Subscribe 32 b of (i, b1) \<Rightarrow> Inr ('':ok'' @ blank_line @ stream_loop marshal ins, Unsubscribe i b1)))"

section \<open>The command\<close>

definition sse_line :: "string \<Rightarrow> string" where
  "sse_line line = (if has_prefix line ''data: '' then trim_prefix ''data: '' line @ [newline] else [])"

text \<open>What is printed, and the error of the scanner.\<close>

definition streamSSEAsNDJSON :: "string \<Rightarrow> string \<times> string option" where
  "streamSSEAsNDJSON body = (concat (map sse_line (scan_lines body)),
     if \<exists>l \<in> set (split_nl [] body). maxToken \<le> length l then Some ''bufio.Scanner: token too long'' else None)"

section \<open>What the terminal shows\<close>

text \<open>The JSON of the events the handler received before it ended.\<close>

fun delivered :: "(event \<Rightarrow> string go_result) \<Rightarrow> stream_input list \<Rightarrow> string list" where
  "delivered marshal [] = []"
| "delivered marshal (Keepalive # is) = delivered marshal is"
| "delivered marshal (Received ev # is) = (case marshal ev of Inl _ \<Rightarrow> [] | Inr b \<Rightarrow> [b]) @ delivered marshal is"
| "delivered marshal (Channel_Closed # is) = []"
| "delivered marshal (Client_Gone # is) = []"

text \<open>JSON is one line, which ends in a bracket; \<open>fits\<close> is what the scanner of the command takes.\<close>

definition json_line :: "string \<Rightarrow> bool" where
  "json_line b \<longleftrightarrow> newline \<notin> set b \<and> b \<noteq> [] \<and> drop_cr b = b"

definition fits :: "string \<Rightarrow> bool" where
  "fits b \<longleftrightarrow> length b + 6 < maxToken"

definition data_line :: "string \<Rightarrow> string" where
  "data_line b = ''data: '' @ b"

fun stream_lines :: "(event \<Rightarrow> string go_result) \<Rightarrow> stream_input list \<Rightarrow> string list" where
  "stream_lines marshal [] = []"
| "stream_lines marshal (Keepalive # is) = '':keepalive'' # [] # stream_lines marshal is"
| "stream_lines marshal (Received ev # is) = (case marshal ev of Inl _ \<Rightarrow> [] | Inr b \<Rightarrow> [data_line b, []]) @ stream_lines marshal is"
| "stream_lines marshal (Channel_Closed # is) = []"
| "stream_lines marshal (Client_Gone # is) = []"

lemma split_line: "newline \<notin> set l \<Longrightarrow> split_nl acc (l @ newline # s) = (rev acc @ l) # split_nl [] s"
  by (induction l arbitrary: acc) auto

lemma split_frame: "newline \<notin> set l \<Longrightarrow> split_nl [] (l @ blank_line @ s) = l # [] # split_nl [] s"
  using split_line [of l "[]" "newline # s"] split_line [of "[]" "[]" s] by (simp add: blank_line_def)

lemma split_stream:
  "(\<And>ev b. marshal ev = Inr b \<Longrightarrow> json_line b) \<Longrightarrow> split_nl [] (stream_loop marshal ins) = stream_lines marshal ins"
proof (induction ins rule: stream_loop.induct)
  case (2 marshal ins)
  have "newline \<notin> set '':keepalive''" by (simp add: newline_def)
  from split_frame [OF this] 2 show ?case by simp
next
  case (3 marshal ev ins)
  show ?case
  proof (cases "marshal ev")
    case (Inr b)
    then have "newline \<notin> set (''data: '' @ b)" using 3(2) by (auto simp: json_line_def newline_def)
    from split_frame [OF this] 3 show ?thesis by (simp add: sse_event_def Inr data_line_def)
  qed (use 3 in \<open>simp add: sse_event_def\<close>)
qed simp_all

lemma max_token: "16 < maxToken"
  by (simp add: maxToken_def)

lemma data_line:
  "json_line b \<Longrightarrow> sse_line (drop_cr (data_line b)) = b @ [newline]" "length (data_line b) < maxToken \<longleftrightarrow> fits b"
  by (auto simp: json_line_def drop_cr_def data_line_def fits_def sse_line_def trim_prefix_def has_prefix_def split: if_splits)

lemma sse_comments: "sse_line (drop_cr '':keepalive'') = []" "sse_line (drop_cr '':ok'') = []" "sse_line (drop_cr []) = []"
  by (simp_all add: sse_line_def drop_cr_def has_prefix_def)

lemma sse_lines:
  "(\<And>ev b. marshal ev = Inr b \<Longrightarrow> json_line b) \<Longrightarrow>
   concat (map (\<lambda>l. sse_line (drop_cr l)) (takeWhile (\<lambda>l. length l < maxToken) (stream_lines marshal ins)))
     = concat (map (\<lambda>b. b @ [newline]) (takeWhile fits (delivered marshal ins)))"
proof (induction ins rule: stream_loop.induct)
  case (2 marshal ins)
  then show ?case using max_token by (simp add: sse_comments)
next
  case (3 marshal ev ins)
  show ?case
  proof (cases "marshal ev")
    case (Inr b)
    have b: "json_line b" by (rule 3(2)) (rule Inr)
    then show ?thesis using 3 max_token data_line(1) [OF b] by (simp add: Inr sse_comments data_line(2))
  qed (use 3 in simp)
qed simp_all

lemma long_line_iff:
  "(\<And>ev b. marshal ev = Inr b \<Longrightarrow> json_line b) \<Longrightarrow>
   (\<exists>l \<in> set (stream_lines marshal ins). maxToken \<le> length l) \<longleftrightarrow> \<not> list_all fits (delivered marshal ins)"
proof (induction ins rule: stream_loop.induct)
  case (2 marshal ins)
  then show ?case using max_token by auto
next
  case (3 marshal ev ins)
  have "maxToken \<le> length (data_line b) \<longleftrightarrow> \<not> fits b" for b using data_line(2) [of b] by linarith
  then show ?case using 3 max_token by (auto split: sum.split)
qed simp_all

text \<open>C20: What the handler sends is what the command prints: one line for each event that was received, in order and unchanged, up
  to the first whose JSON does not fit the scanner's buffer of 64 KB; there the command ends with an error.
\<close>

theorem event_stream_roundtrip:
  assumes "\<And>ev b. marshal ev = Inr b \<Longrightarrow> json_line b" and "events marshal bus flusher ins = Inr (body, bus')"
  shows "streamSSEAsNDJSON body =
    (concat (map (\<lambda>b. b @ [newline]) (takeWhile fits (delivered marshal ins))),
     if list_all fits (delivered marshal ins) then None else Some ''bufio.Scanner: token too long'')"
proof -
  have body: "body = '':ok'' @ blank_line @ stream_loop marshal ins"
    using assms(2) by (auto simp: events_def http_error_def split: option.splits if_splits prod.splits)
  have "newline \<notin> set '':ok''" by (simp add: newline_def)
  from split_frame [OF this] have lines: "split_nl [] body = '':ok'' # [] # stream_lines marshal ins"
    unfolding body by (simp add: split_stream [OF assms(1)])
  have "concat (map sse_line (scan_lines body)) = concat (map (\<lambda>b. b @ [newline]) (takeWhile fits (delivered marshal ins)))"
    using sse_lines [OF assms(1)] max_token
    by (simp add: scan_lines_def lines sse_comments comp_def)
  moreover have "(\<exists>l \<in> set (split_nl [] body). maxToken \<le> length l) \<longleftrightarrow> \<not> list_all fits (delivered marshal ins)"
    using long_line_iff [OF assms(1)] max_token by (simp add: lines)
  ultimately show ?thesis by (simp add: streamSSEAsNDJSON_def)
qed

definition one_event :: event where
  "one_event = \<lparr>vt_type = ''node'', vt_payload = PNodes [], vt_ts = 7\<rparr>"

theorem event_stream_roundtrip_witness:
  "streamSSEAsNDJSON ('':ok'' @ blank_line @ stream_loop (\<lambda>_. Inr ''{}'') [Received one_event, Keepalive, Received one_event, Client_Gone, Received one_event])
     = (''{}'' @ [newline] @ ''{}'' @ [newline], None)"
proof -
  have "json_line ''{}''" by (simp add: json_line_def drop_cr_def newline_def)
  moreover have "events (\<lambda>_. Inr ''{}'') (Some NewEventBus) True [Received one_event, Keepalive, Received one_event, Client_Gone, Received one_event]
    = Inr ('':ok'' @ blank_line @ stream_loop (\<lambda>_. Inr ''{}'') [Received one_event, Keepalive, Received one_event, Client_Gone, Received one_event],
        Unsubscribe 0 (snd (Subscribe 32 NewEventBus)))"
    by (simp add: events_def Subscribe_def NewEventBus_def)
  ultimately show ?thesis
    using event_stream_roundtrip [of "\<lambda>_. Inr ''{}''" "Some NewEventBus" True "[Received one_event, Keepalive, Received one_event, Client_Gone, Received one_event]"]
    by (simp add: fits_def maxToken_def)
qed

end
