(* ===== verification/Server.thy ===== *)
theory Server
  imports Api_Client Event_Stream
begin

text \<open>
  The control service put together: the options and the routes of its server (\<open>sidecar/internal/server/server.go\<close>) and what
  \<open>main\<close> of \<open>sidecar/cmd/confluence-control\<close> starts for given flags. The matching of a path is that of
  \<open>http.ServeMux\<close>; paths it would first redirect (with empty, \<open>.\<close> or \<open>..\<close> segments) are not served.
\<close>

section \<open>Routes\<close>

datatype route = Healthz | Nodes | State_Diff | Findings_List | Finding_By_ID string | Logs | Events | Scenarios_List
  | Scenarios_Validate | Start_Run | List_Runs | Run_By_ID string | Not_Found | Method_Not_Allowed

text \<open>The segments of a path, each with its escapes decoded; \<open>+\<close> stands for itself in a path.\<close>

fun path_unescape :: "string \<Rightarrow> string option" where
  "path_unescape [] = Some []"
| "path_unescape (c # cs) =
     (if c = CHR ''%'' then
        (case cs of a # b # ds \<Rightarrow> (case (hex_digit a, hex_digit b) of
            (Some x, Some y) \<Rightarrow> map_option ((#) (char_of (16 * x + y))) (path_unescape ds) | _ \<Rightarrow> None)
         | _ \<Rightarrow> None)
      else map_option ((#) c) (path_unescape cs))"

text \<open>A pattern with the method GET also takes HEAD.\<close>

definition by_method :: "string list \<Rightarrow> route \<Rightarrow> string \<Rightarrow> route" where
  "by_method methods r m = (if m \<in> set methods then r else Method_Not_Allowed)"

definition gets :: "string list" where
  "gets = [''GET'', ''HEAD'']"

definition segments :: "string \<Rightarrow> string list option" where
  "segments path = (case split_on (CHR ''/'') path of
      [] # segs \<Rightarrow> if list_ex (\<lambda>g. g \<in> {[], ''.'', ''..''}) segs then None else those (map path_unescape segs)
    | _ \<Rightarrow> None)"

definition route_segments :: "bool \<Rightarrow> string \<Rightarrow> string list \<Rightarrow> route" where
  "route_segments poller m segs =
     (if segs = [''v1'', ''healthz''] then Healthz
      else if segs = [''v1'', ''nodes''] then (if poller then Nodes else Not_Found)
      else if segs = [''v1'', ''state'', ''diff''] then by_method gets State_Diff m
      else if segs = [''v1'', ''findings''] then by_method gets Findings_List m
      else if segs = [''v1'', ''logs''] then by_method gets Logs m
      else if segs = [''v1'', ''events''] then by_method gets Events m
      else if segs = [''v1'', ''scenarios''] then by_method gets Scenarios_List m
      else if segs = [''v1'', ''scenarios'', ''validate''] then by_method [''POST''] Scenarios_Validate m
      else if segs = [''v1'', ''runs''] then (if m = ''POST'' then Start_Run else by_method gets List_Runs m)
      else case segs of
          [a, b, i] \<Rightarrow> if i = [] then Not_Found
            else if a = ''v1'' \<and> b = ''findings'' then by_method gets (Finding_By_ID i) m
            else if a = ''v1'' \<and> b = ''runs'' then by_method gets (Run_By_ID i) m else Not_Found
        | _ \<Rightarrow> Not_Found)"

definition route_of :: "bool \<Rightarrow> string \<Rightarrow> string \<Rightarrow> route" where
  "route_of poller m path = (case segments path of None \<Rightarrow> Not_Found | Some segs \<Rightarrow> route_segments poller m segs)"

section \<open>Options\<close>

text \<open>\<open>sv_poller\<close>: the configuration of the node poller; the store, the bus and the emitter are there or not.\<close>

record server =
  sr_started :: int
  sr_scenario :: string
  sr_budget :: "int option"
  sr_poller :: "node_config list option"
  sr_store :: bool
  sr_bus :: bool
  sr_logs :: string
  sr_scenarios :: string
  sr_emitter :: bool

definition NewServer :: "(server \<Rightarrow> server) list \<Rightarrow> int \<Rightarrow> server" where
  "NewServer opts now = fold (\<lambda>opt. opt) opts
     \<lparr>sr_started = now, sr_scenario = [], sr_budget = None, sr_poller = None, sr_store = False, sr_bus = False, sr_logs = [],
      sr_scenarios = [], sr_emitter = False\<rparr>"

definition Handler :: "server \<Rightarrow> string \<Rightarrow> string \<Rightarrow> route" where
  "Handler srv = route_of (sr_poller srv \<noteq> None)"

section \<open>The control command\<close>

record control_flags =
  cf_scenario :: string
  cf_budget :: int
  cf_nodes :: string
  cf_poll :: int
  cf_findings :: string
  cf_logs :: string
  cf_scenarios :: string
  cf_reproducers :: string
  cf_stall_gap :: int
  cf_stall_sustain :: int
  cf_stall_poll :: int

definition default_flags :: control_flags where
  "default_flags = \<lparr>cf_scenario = [], cf_budget = 0, cf_nodes = [], cf_poll = 5 * 10 ^ 9, cf_findings = ''/var/confluence/findings'',
     cf_logs = ''/var/confluence/logs'', cf_scenarios = ''/etc/confluence/scenarios'', cf_reproducers = ''/var/confluence/reproducers'',
     cf_stall_gap = 10, cf_stall_sustain = 120 * 10 ^ 9, cf_stall_poll = 5 * 10 ^ 9\<rparr>"

text \<open>What is started, in order, with the period of its ticks: the node poller, the divergence oracle, the oracle of consensus
  progress with its threshold and duration, and the watcher of the findings directory.\<close>

datatype started = Poller_Started "node_config list" int | Divergence_Started int | Progress_Started int int int | Disk_Watcher_Started string int

definition control_options :: "control_flags \<Rightarrow> int \<Rightarrow> (server \<Rightarrow> server) list" where
  "control_options cf now =
     [\<lambda>s. s\<lparr>sr_store := True\<rparr>, \<lambda>s. s\<lparr>sr_logs := cf_logs cf\<rparr>, \<lambda>s. s\<lparr>sr_bus := True\<rparr>,
      \<lambda>s. s\<lparr>sr_scenarios := cf_scenarios cf\<rparr>, \<lambda>s. s\<lparr>sr_emitter := True\<rparr>]
     @ (if cf_scenario cf = [] then [] else [\<lambda>s. s\<lparr>sr_scenario := cf_scenario cf\<rparr>])
     @ (if 0 < cf_budget cf then [\<lambda>s. s\<lparr>sr_budget := Some (now + cf_budget cf)\<rparr>] else [])"

text \<open>Up to listening; \<open>Inl\<close> is the message of \<open>log.Fatalf\<close>.\<close>

definition control_main :: "control_flags \<Rightarrow> unit go_result \<Rightarrow> (string \<Rightarrow> string go_result) \<Rightarrow> (string \<Rightarrow> node_config list go_result) \<Rightarrow> int
    \<Rightarrow> (server \<times> started list) go_result" where
  "control_main cf mkdir read decode now =
     ebind (ewrap ''findings-dir: '' mkdir) (\<lambda>_.
     if cf_nodes cf = [] then Inr (NewServer (control_options cf now) now, [Disk_Watcher_Started (cf_findings cf) (10 ^ 9)])
     else ebind (ewrap ''nodes-config: '' (read (cf_nodes cf))) (\<lambda>data.
       ebind (ewrap ''nodes-config parse: '' (decode data)) (\<lambda>nodes.
         Inr (NewServer (control_options cf now @ [\<lambda>s. s\<lparr>sr_poller := Some nodes\<rparr>]) now,
           [Poller_Started nodes (cf_poll cf), Divergence_Started (2 * 10 ^ 9),
            Progress_Started (cf_stall_poll cf) (cf_stall_gap cf) (cf_stall_sustain cf), Disk_Watcher_Started (cf_findings cf) (10 ^ 9)]))))"

section \<open>The client's requests reach their handlers\<close>

lemma path_unescape_plain: "c \<noteq> CHR ''%'' \<Longrightarrow> path_unescape (c # s) = map_option ((#) c) (path_unescape s)"
  by simp

lemma path_unescape_hex_pair: "path_unescape (hex_pair c @ s) = map_option ((#) c) (path_unescape s)"
proof -
  have "16 * ((of_char c :: nat) div 16) + of_char c mod 16 = of_char c" by simp
  then have c: "char_of (16 * ((of_char c :: nat) div 16) + of_char c mod 16) = c" by (metis char_of_char)
  have h: "hex_digit (digit_char (of_char c div 16)) = Some (of_char c div 16)"
    "hex_digit (digit_char (of_char c mod 16)) = Some (of_char c mod 16)" by (rule hex_digit_char, rule half_bytes)+
  have "hex_pair c @ s = CHR ''%'' # digit_char (of_char c div 16) # digit_char (of_char c mod 16) # s" by (simp add: hex_pair_def)
  then show ?thesis by (simp only: path_unescape.simps list.case h option.case prod.case c simp_thms if_True)
qed

definition path_char :: "char \<Rightarrow> string" where
  "path_char c = (if unreserved c \<or> c \<in> set ''$&+=:@'' then [c] else hex_pair c)"

lemma PathEscape_chars: "PathEscape s = concat (map path_char s)"
  by (simp add: PathEscape_def path_char_def [abs_def])

lemma not_reserved: "\<not> unreserved CHR ''%''" "\<not> unreserved CHR ''/''"
  by (simp_all add: unreserved_def is_digit_def is_letter_def char_in_def)

lemma path_unescape_char: "path_unescape (path_char c @ s) = map_option ((#) c) (path_unescape s)"
  using not_reserved(1) by (auto simp: path_char_def path_unescape_hex_pair)

lemma path_unescape_PathEscape: "path_unescape (PathEscape s) = Some s"
  by (induction s) (simp_all add: PathEscape_chars path_unescape_char)

lemma hex_pair_no_slash: "CHR ''/'' \<notin> set (hex_pair c)"
proof -
  have "hex_digit CHR ''/'' = None" by (simp add: hex_digit_def is_digit_def char_in_def)
  then have "digit_char (of_char c div 16) \<noteq> CHR ''/''" "digit_char (of_char c mod 16) \<noteq> CHR ''/''"
    using hex_digit_char [OF half_bytes(1) [of c]] hex_digit_char [OF half_bytes(2) [of c]] by auto
  then show ?thesis by (auto simp: hex_pair_def)
qed

lemma PathEscape_no_slash: "CHR ''/'' \<notin> set (PathEscape s)"
  using not_reserved(2) hex_pair_no_slash by (auto simp: PathEscape_chars path_char_def)

lemma PathEscape_dots: "i \<notin> {[], ''.'', ''..''} \<Longrightarrow> PathEscape i \<notin> {[], ''.'', ''..''}"
proof -
  have "path_unescape g = Some g" if "g \<in> {[], ''.'', ''..''}" for g using that by auto
  then show "i \<notin> {[], ''.'', ''..''} \<Longrightarrow> PathEscape i \<notin> {[], ''.'', ''..''}"
    by (metis option.inject path_unescape_PathEscape)
qed

lemma segments_id: "segments (''/v1/'' @ k @ ''/'' @ PathEscape i) = Some [''v1'', k, i]"
  if "CHR ''/'' \<notin> set k" "path_unescape k = Some k" "k \<notin> {[], ''.'', ''..''}" "i \<notin> {[], ''.'', ''..''}"
proof -
  have "split_on (CHR ''/'') (''/v1/'' @ k @ ''/'' @ PathEscape i) = [[], ''v1'', k, PathEscape i]"
    using split_on_prefix [OF that(1), of "PathEscape i"] split_on_free [OF PathEscape_no_slash] by simp
  then show ?thesis using that(2,3) path_unescape_PathEscape PathEscape_dots [OF that(4)] by (simp add: segments_def)
qed

text \<open>
  Whatever identifier, other than \<open>.\<close> and \<open>..\<close>, a finding or a run is asked for by, the path the client makes of it reaches the handler of one finding or
  run, which is given that identifier back.
\<close>

theorem id_requests_routed:
  assumes "i \<notin> {[], ''.'', ''..''}"
  shows "Handler srv ''GET'' (''/v1/findings/'' @ PathEscape i) = Finding_By_ID i
    \<and> Handler srv ''GET'' (''/v1/runs/'' @ PathEscape i) = Run_By_ID i"
proof -
  have "segments (''/v1/findings/'' @ PathEscape i) = Some [''v1'', ''findings'', i]" using segments_id [of "''findings''" i] assms by simp
  moreover have "segments (''/v1/runs/'' @ PathEscape i) = Some [''v1'', ''runs'', i]" using segments_id [of "''runs''" i] assms by simp
  ultimately show ?thesis using assms by (simp add: Handler_def route_of_def route_segments_def by_method_def gets_def)
qed

theorem id_requests_routed_witness:
  "Handler (NewServer [] 0) ''GET'' (''/v1/findings/'' @ PathEscape ''a/b?c%'') = Finding_By_ID ''a/b?c%''"
  using id_requests_routed [of "''a/b?c%''" "NewServer [] 0"] by simp

end
