(* ===== verification/Spec2Isabelle.thy ===== *)
theory Spec2Isabelle
  imports Generator_Properties Oracle_Properties Chaos_Properties Runner_Properties Log_Properties
    Scenario_Properties Log_Rotator Node_Properties Run_Properties
    Capture Handler_Properties Concurrent_Soak Transport Whole_Runs Run_Command Docker Commands Server
begin

text \<open>
  This library models the Go code of xrpl-confluence (\<open>sidecar/\<close>): a harness that boots a mixed network of rippled and goXRPL
  nodes, feeds it generated transactions and watches it for divergences. Three programs share the code. The command line tool
  (\<open>cmd/confluence\<close>) boots a Kurtosis enclave from a scenario and talks to the control service. The control service
  (\<open>cmd/confluence-control\<close>, \<open>internal/server\<close>, \<open>internal/finding\<close>) polls the nodes, turns what it sees into findings, runs
  scenarios and streams events. The fuzzer (\<open>cmd/fuzz\<close>, \<open>internal/fuzz\<close>, \<open>internal/oracle\<close>) generates, mutates and submits
  transactions, compares the nodes, disturbs them, and records divergences in a corpus whose files the control service picks up.

  \<^bold>\<open>How code is modelled.\<close> A Go struct is a record, an enumeration a datatype, an \<open>error\<close> result the left side of
  \<open>go_result = string + 'a\<close>, a panic or an unbounded loop \<open>None\<close> (or the \<open>Panicked\<close> result of a random computation). Fixed-width
  integers are words, or integers wrapped at 64 bits where arithmetic can leave the range. Maps whose order Go leaves open are
  association lists, and what depends on their order is proved not to, or said to. Functions with effects pass a state: the world
  behind the RPC of the nodes, a disk (paths to contents), the random source (a list of 64-bit words, so that every property holds
  for every outcome), the stores and tables of a component. Goroutines are transition relations or explicit sequences of steps.
  Code outside the repository is a parameter: HTTP, JSON and YAML codecs, regular expressions, key derivation and signing (xrpl-go),
  SHA-512, the Docker client, the kurtosis binary, the clock, the answers of the file system. What is assumed of a parameter stands
  in the statement that needs it, with a witness.

  \<^bold>\<open>Base.\<close> \<open>Go_Base\<close>: dynamic values, string functions, decimal and hexadecimal text, result combinators, the automation (the
  collection \<open>go_simps\<close>). \<open>Go_Rand\<close>: \<open>math/rand/v2\<close> over a stream of words, with three judgements: what a computation can return
  (\<open>rspec\<close>), what it can reach (\<open>can_yield\<close>), and that it uses up its source in order (\<open>lawful\<close>). \<open>Rpc\<close>: \<open>rpcclient\<close>, each method
  with its request and the decoding of its reply; programs over it have a log of calls (\<open>ensures\<close>, \<open>extends\<close>).
  \<open>Transport\<close>: how the two clients make a call, and that they agree.

  \<^bold>\<open>The fuzzer.\<close>
  \<^item> \<open>Accounts\<close>, \<open>Account_Properties\<close>: \<open>fuzz/accounts\<close>, the pool, its tiers, funding and the trust-line mesh.
  \<^item> \<open>Trackers\<close>, \<open>Generator\<close>, \<open>Builders\<close>, \<open>Selection\<close>, \<open>Mutator\<close>, \<open>Generator_Properties\<close>: \<open>fuzz/generator\<close>, the keylets, the twelve object
    trackers (one locale \<open>ref_tracker\<close>, interpreted on each), a builder per transaction type, their registration, \<open>PickTx\<close>,
    \<open>RecordSuccess\<close> and the mutator. Proved: what is picked is well formed and signed with a seed of the pool, guards make builders
    total, the order of Go's maps does not matter.
  \<^item> \<open>Corpus\<close>, \<open>Runlog\<close>, \<open>Mainnet\<close>, \<open>Capture\<close>: recorded divergences with their signatures and index, the run log, the mainnet rewriter, the
    fixture of a divergence.
  \<^item> \<open>Oracle\<close>, \<open>Liveness\<close>: \<open>internal/oracle\<close>, the comparison of nodes and the liveness monitor as a state machine.
  \<^item> \<open>Chaos\<close>, \<open>Crash\<close>, \<open>Docker\<close>: chaos events, schedules and the scheduler; the crash poller and the hang detector; both container
    runtimes. Proved: every applied event is recovered or pending, recoveries that the soak loop cannot reach are never served.
  \<^item> \<open>Seq_Manager\<close>, \<open>Runners\<close>, \<open>Concurrent_Soak\<close>, \<open>Loop_Properties\<close>, \<open>Log_Properties\<close>, \<open>Runner_Properties\<close>: \<open>fuzz/runners\<close>: soak (one worker, and
    the coordinator with its workers as a transition relation), realtime, replay, reproduce and shrink. The locale \<open>periodic_hook\<close> is
    the contract of what a soak run does between transactions, interpreted for the plain and for the chaotic soak. Proved: books
    balance, nothing is lost in the channels, the drain ends, a log is reproduced, shrinking bisects.
  \<^item> \<open>Fuzz_Main\<close>: \<open>cmd/fuzz\<close>, the environment loaders, the manifest, the modes and \<open>/status\<close>. \<open>Whole_Runs\<close>: soak, chaos, realtime
    and replay runs from these configurations to their loops, and the liveness monitor beside a soak run. Proved: a soak run that
    got through its set-up accounts for every transaction, whatever the nodes answer.

  \<^bold>\<open>The control service.\<close>
  \<^item> \<open>Findings\<close>, \<open>Ledger_Diff\<close>, \<open>Detectors\<close>, \<open>Oracle_Properties\<close>: \<open>internal/finding\<close>: the bounded store (locale \<open>finding_sink\<close>: what the oracles
    need of it), the ledger diff, the divergence oracle, the consensus-progress oracle and the watcher of the corpus directory. The
    store refines the list of all findings ever added.
  \<^item> \<open>Nodes\<close>, \<open>Node_Properties\<close>: the node poller, its window of validated hashes and the state diff.
  \<^item> \<open>Runs\<close>, \<open>Run_Properties\<close>: the event bus, runs with their budget and stop conditions, and the reproducer, as a relation over the
    steps of the watchers, publishers and requests.
  \<^item> \<open>Handlers\<close>, \<open>Handler_Properties\<close>, \<open>Event_Stream\<close>, \<open>Server\<close>: the read-only handlers, the log files, the event stream up to the terminal, the
    routes and \<open>cmd/confluence-control\<close>.

  \<^bold>\<open>The command line tool.\<close>
  \<^item> \<open>Scenario\<close>, \<open>Scenario_Properties\<close>: \<open>internal/scenario\<close> and \<open>internal/api\<close>: validation and compilation.
  \<^item> \<open>Kurtosis\<close>, \<open>Lifecycle\<close>, \<open>Lifecycle_Properties\<close>, \<open>Run_Command\<close>: the kurtosis command line with its watchdog and retries, booting, the
    discovery files, tearing down, \<open>run\<close> and \<open>replay\<close>. Proved with a log of the calls to kurtosis: ledger data is kept unless a
    reset is asked for, an enclave that was booted is removed, a write of a discovery file is atomic.
  \<^item> \<open>Api_Client\<close>, \<open>Commands\<close>, \<open>Log_Rotator\<close>: the client of the control API with the encodings of URLs, the commands that show and fetch,
    and the rotation of logs.

  \<^bold>\<open>Across components.\<close> This theory follows a divergence from the fuzzer's corpus to a finding of the control service, and a
  transaction from the generator through the mutator. \<open>Commands\<close> follows a finding from the store to the terminal, \<open>Event_Stream\<close> an
  event, \<open>Node_Properties\<close> a fork from the poller to a finding, \<open>Log_Properties\<close> a run through its log back to the nodes.

  \<^bold>\<open>Bounds.\<close> Loops bounded in the code carry their bound (1000 findings in the store, 512 sequences per node, 4096 bytes of an
  error body, 65536 bytes of a scanned line). Loops that wait for the world have a number of rounds, and \<open>None\<close> stands for a loop
  that has not ended after them; statements hold for every number. The rounds of \<open>IntN\<close> and of the pickers are recursion on the
  random source, which ends because every round takes a word. \<open>SignerListSet\<close> can loop for ever and does so in the model
  (\<open>signer_list_livelock\<close>). Whether the drain of a concurrent soak ends is proved with a measure.

  \<^bold>\<open>Not modelled.\<close> The Prometheus registry (\<open>fuzz/metrics\<close>), printing of versions and \<open>scripts/keygen\<close> have no logic of their
  own. Log messages, progress lines on stderr, the alignment of tables and the trees of cobra commands are left out. HTTP servers
  and clients, signals and shutdown, \<open>docker build\<close> and \<open>docker cp\<close> are calls of parameters. The Starlark package that describes the
  containers, the dashboard, documentation and tests are not Go code of the program; \<open>CurrentValidatedSeq\<close> is used by tests only.
\<close>

section \<open>From a recorded divergence to a finding\<close>

text \<open>
  The fuzzer records a divergence in its corpus and mirrors the file into the directory the
  control service watches; the next scan turns it into a finding.
\<close>

definition watch_disk :: "(string \<Rightarrow> divergence go_result) \<Rightarrow> (store \<Rightarrow> string) \<Rightarrow> disk \<Rightarrow> watcher_env" where
  "watch_disk parse fresh d = \<lparr>we_read = (\<lambda>p. disk_read (\<lambda>_. False) p d), we_parse = parse,
     we_marshal = (\<lambda>_. Inr ''{}''), we_run_id = None, we_fresh = fresh, we_zero = 0\<rparr>"

lemma file_name_end: "\<exists>x c. file_name tstamp t n = x @ [c] @ ''.json'' \<and> of_char c \<in> {48 :: nat .. 57}"
proof -
  let ?d = "nat_dec (unat n)"
  have "last ?d \<in> set ?d" using last_in_set by simp
  then have "of_char (last ?d) \<in> {48 :: nat .. 57}" by (rule nat_dec_digits)
  moreover have "?d = butlast ?d @ [last ?d]" by simp
  then have "file_name tstamp t n =
      (tstamp t @ ''_'' @ replicate (6 - length ?d) (CHR ''0'') @ butlast ?d) @ [last ?d] @ ''.json''"
    unfolding file_name_def pad6_def by (metis append.assoc)
  ultimately show ?thesis by blast
qed

lemma ext_json: "filepath_ext (x @ ''.json'') = ''.json''"
  by (simp add: filepath_ext_def Let_def)

lemma divergence_file_apart:
  "path_join [dir, file_name tstamp t n] \<noteq> first_path r dv" "path_join [dir, file_name tstamp t n] \<noteq> count_path r dv"
proof -
  obtain x c where f: "file_name tstamp t n = x @ [c] @ ''.json''" "of_char c \<in> {48 :: nat .. 57}"
    using file_name_end by blast
  then have "c \<noteq> CHR ''t''" by auto
  moreover have "rev (path_join [dir, file_name tstamp t n]) ! 5 = c" "rev (first_path r dv) ! 5 = CHR ''t''"
    by (simp_all add: f path_join_def first_path_def)
  ultimately show "path_join [dir, file_name tstamp t n] \<noteq> first_path r dv" by metis
  have "last (path_join [dir, file_name tstamp t n]) = CHR ''n''" "last (count_path r dv) = CHR ''t''"
    by (simp_all add: f path_join_def count_path_def)
  then show "path_join [dir, file_name tstamp t n] \<noteq> count_path r dv" by auto
qed

lemma mirrored_file:
  assumes run: "RecordDivergence tstamp marshal (\<lambda>_. False) now dv (r, d) = (res, r', d')"
    and data: "marshal (fill_divergence r now dv) = Inr data" and mirror: "rc_mirror r \<noteq> []"
  shows "map_of d' (path_join [path_join [rc_mirror r, ''divergences''],
    file_name tstamp (the (dg_time (fill_divergence r now dv))) (rc_counter r + 1)]) = Some data"
proof -
  let ?dv = "fill_divergence r now dv" and ?r = "r\<lparr>rc_counter := rc_counter r + 1\<rparr>"
  let ?name = "file_name tstamp (the (dg_time ?dv)) (rc_counter r + 1)"
  let ?m = "path_join [path_join [rc_mirror r, ''divergences''], ?name]"
  let ?d1 = "AList.update ?m data (AList.update (path_join [path_join [rc_base r, ''divergences''], ?name]) data d)"
  obtain u d2 where u: "updateSignatureIndex (\<lambda>_. False) ?r ?dv data ?d1 = (u, d2)" by fastforce
  have "d' = d2"
    using run data mirror u by (auto simp: RecordDivergence_def Let_def disk_write_def mirror_write_def)
  moreover have "map_of d2 ?m = map_of ?d1 ?m"
    by (rule updateSignatureIndex_frame [OF u])
      (use divergence_file_apart [of "path_join [rc_mirror r, ''divergences'']"] in \<open>auto simp: first_path_def count_path_def\<close>)
  ultimately show ?thesis by (simp add: update_conv')
qed



section \<open>From the generator through the mutator\<close>

text \<open>C2: A transaction the fuzzer submits, picked and perhaps mutated, keeps a seed of the pool
  as its secret and a registered type enabled by the amendments, at every mutation rate.\<close>

theorem submitted_tx_keeps_type_and_secret:
  assumes "gen_ok g"
  shows "rspec (rbind (PickTx all_inits now g enabled) (\<lambda>t. rbind (Maybe NewMutator t rate) (\<lambda>(t', _). rret t')))
    (\<lambda>t. (\<exists>w \<in> set (g_pool g). tx_secret t = w_seed w)
       \<and> (\<exists>c \<in> set all_inits. c_type c = TransactionType t \<and> set (c_requires c) \<subseteq> set enabled)) (\<lambda>_. True)"
proof (rule rspec_rbind [OF rspec_PickTx [OF assms]])
  fix t
  assume t: "\<exists>c \<in> set all_inits. c_type c = TransactionType t \<and> set (c_requires c) \<subseteq> set enabled
     \<and> (case c_can c of None \<Rightarrow> True | Some can \<Rightarrow> can g)
     \<and> (\<exists>w \<in> set (g_pool g). tx_secret t = w_seed w)
     \<and> (c_type c \<noteq> ''EscrowCancel'' \<longrightarrow> signed_by_account g t)"
  have same: "tx_secret t' = tx_secret t \<and> TransactionType t' = TransactionType t"
    if "one_field_changed t t'" for t'
    using that by (auto simp: one_field_changed_def TransactionType_def)
  show "rspec (rbind (Maybe NewMutator t rate) (\<lambda>(t', _). rret t'))
    (\<lambda>t. (\<exists>w \<in> set (g_pool g). tx_secret t = w_seed w)
       \<and> (\<exists>c \<in> set all_inits. c_type c = TransactionType t \<and> set (c_requires c) \<subseteq> set enabled)) (\<lambda>_. True)"
    by (rule rspec_rbind [OF rspec_Maybe])
      (use t same in \<open>auto intro!: rspec_rret split: if_splits\<close>)
qed

theorem submitted_tx_keeps_type_and_secret_witness:
  "rspec (rbind (PickTx all_inits 0 sample_generator []) (\<lambda>t. rbind (Maybe NewMutator t (1/2)) (\<lambda>(t', _). rret t')))
    (\<lambda>t. \<exists>w \<in> set sample_pool. tx_secret t = w_seed w) (\<lambda>_. True)"
  by (rule rspec_weaken [OF submitted_tx_keeps_type_and_secret [OF sample_gen_ok]]) (auto simp: NewGenerator_def)

end
